(* ===== verification/Cobra_Prelude.thy ===== *)
theory Cobra_Prelude
  imports Main "HOL-Library.Word"
begin

text \<open>
  Shared vocabulary of the development.

  \<^item> Failures. A C++ operation that can fail returns \<open>err + 'a\<close>: \<open>Inl e\<close> is the run
    stopping with \<open>e\<close>, \<open>Inr x\<close> is normal return. \<open>AssertFailed\<close> is a failing
    \<^verbatim>\<open>assert\<close> (the sources are read with assertions enabled), \<open>OutOfBounds\<close> an access
    outside the memory an object owns, \<open>NullDeref\<close> a dereferenced null or missing pointer,
    \<open>LengthError\<close> the exception of \<^verbatim>\<open>std::vector::resize\<close>, \<open>Fatal\<close> the abort of
    \<^verbatim>\<open>LOG_FATAL\<close> and \<^verbatim>\<open>LOG_SYSFATAL\<close>, \<open>IntOverflow\<close> a signed result outside its type, which is
    undefined in C++, \<open>BadAlloc\<close> the exception of \<^verbatim>\<open>new\<close>.
  \<^item> Sizes. \<^verbatim>\<open>size_t\<close> values are naturals below \<open>2 ^ 64\<close>; the operators that can wrap are
    \<open>sz_add\<close> and \<open>sz_sub\<close>.
  \<^item> Memory. A \<^verbatim>\<open>std::vector<char>\<close> is a list of bytes; \<open>mem_read\<close>, \<open>mem_write\<close> and
    \<open>vec_resize\<close> are the bounded accesses used by the components.
\<close>

named_theorems res_simps \<open>evaluation of failing computations\<close>
named_theorems sz_simps \<open>size_t arithmetic without wrap-around\<close>

section \<open>Failing computations\<close>

datatype err = AssertFailed | OutOfBounds | NullDeref | LengthError | Fatal | IntOverflow | BadAlloc

type_synonym 'a res = "err + 'a"

definition bindE :: "'a res \<Rightarrow> ('a \<Rightarrow> 'b res) \<Rightarrow> 'b res" where
  "bindE r f = (case r of Inl e \<Rightarrow> Inl e | Inr x \<Rightarrow> f x)"

definition cassert :: "bool \<Rightarrow> 'a res \<Rightarrow> 'a res" where
  "cassert b k = (if b then k else Inl AssertFailed)"

fun foldE :: "('a \<Rightarrow> 's \<Rightarrow> 's res) \<Rightarrow> 'a list \<Rightarrow> 's \<Rightarrow> 's res" where
  "foldE f [] s = Inr s"
| "foldE f (x # xs) s = bindE (f x s) (foldE f xs)"

definition ok :: "'a res \<Rightarrow> bool" where
  "ok r \<longleftrightarrow> (\<exists>x. r = Inr x)"

lemma bindE_Inl [simp, res_simps]: "bindE (Inl e) f = Inl e"
  by (simp add: bindE_def)

lemma bindE_Inr [simp, res_simps]: "bindE (Inr x) f = f x"
  by (simp add: bindE_def)

lemma bindE_eq_Inr: "bindE r f = Inr y \<longleftrightarrow> (\<exists>x. r = Inr x \<and> f x = Inr y)"
  by (cases r) simp_all

lemma bindE_assoc: "bindE (bindE r f) g = bindE r (\<lambda>x. bindE (f x) g)"
  by (cases r) simp_all

lemma cassert_True [simp, res_simps]: "b \<Longrightarrow> cassert b k = k"
  by (simp add: cassert_def)

lemma cassert_False [simp, res_simps]: "\<not> b \<Longrightarrow> cassert b k = Inl AssertFailed"
  by (simp add: cassert_def)

lemma cassert_eq_Inr: "cassert b k = Inr y \<longleftrightarrow> b \<and> k = Inr y"
  by (simp add: cassert_def)

lemma ok_Inr [simp]: "ok (Inr x)"
  by (simp add: ok_def)

lemma not_ok_Inl [simp]: "\<not> ok (Inl e)"
  by (simp add: ok_def)

lemma foldE_append: "foldE f (xs @ ys) s = bindE (foldE f xs s) (foldE f ys)"
  by (induction xs arbitrary: s) (auto simp: bindE_def split: sum.splits)

text \<open>An invariant kept by every step, whose steps do not fail, makes the whole loop succeed.\<close>

lemma foldE_invariant:
  assumes "P s"
    and "\<And>x s. x \<in> set xs \<Longrightarrow> P s \<Longrightarrow> \<exists>s'. f x s = Inr s' \<and> P s'"
  shows "\<exists>s'. foldE f xs s = Inr s' \<and> P s'"
  using assms
proof (induction xs arbitrary: s)
  case Nil
  then show ?case by simp
next
  case (Cons x xs)
  from Cons.prems(2) [of x s] Cons.prems(1) obtain s1 where "f x s = Inr s1" "P s1"
    by auto
  with Cons.IH [of s1] Cons.prems(2) show ?case
    by auto
qed

section \<open>Machine sizes\<close>

definition SIZE_MOD :: nat where
  "SIZE_MOD = 2 ^ 64"

definition sz_add :: "nat \<Rightarrow> nat \<Rightarrow> nat" where
  "sz_add a b = (a + b) mod SIZE_MOD"

definition sz_sub :: "nat \<Rightarrow> nat \<Rightarrow> nat" where
  "sz_sub a b = (a + SIZE_MOD - b) mod SIZE_MOD"

text \<open>The largest size of a \<^verbatim>\<open>std::vector<char>\<close>: \<^verbatim>\<open>PTRDIFF_MAX\<close>.\<close>

definition vec_max :: nat where
  "vec_max = 2 ^ 63 - 1"

lemma sz_add_exact [sz_simps]: "a + b < SIZE_MOD \<Longrightarrow> sz_add a b = a + b"
  by (simp add: sz_add_def)

lemma sz_sub_exact [sz_simps]: "b \<le> a \<Longrightarrow> a < SIZE_MOD \<Longrightarrow> sz_sub a b = a - b"
proof -
  assume "b \<le> a" "a < SIZE_MOD"
  then have "a + SIZE_MOD - b = SIZE_MOD + (a - b)" and "a - b < SIZE_MOD" by simp_all
  then show ?thesis by (simp only: sz_sub_def mod_add_self1 mod_less)
qed

lemma vec_max_less: "2 * vec_max < SIZE_MOD"
  by (simp add: vec_max_def SIZE_MOD_def)

lemma vec_max_ge: "2 ^ 62 \<le> vec_max"
  by (simp add: vec_max_def)

text \<open>\<^verbatim>\<open>static_cast<int>\<close> of a \<^verbatim>\<open>size_t\<close> keeps the low 32 bits.\<close>

definition to_int32 :: "nat \<Rightarrow> int" where
  "to_int32 n = sint (of_nat n :: 32 word)"

lemma to_int32_small [simp]: "n < 2 ^ 31 \<Longrightarrow> to_int32 n = int n"
  by (simp add: to_int32_def signed_of_nat take_bit_nat_eq_self signed_take_bit_int_eq_self
      flip: of_nat_take_bit)

section \<open>Bytes in memory\<close>

type_synonym byte = "8 word"

definition mem_read :: "'a list \<Rightarrow> nat \<Rightarrow> nat \<Rightarrow> 'a list res" where
  "mem_read xs i n = (if i + n \<le> length xs then Inr (take n (drop i xs)) else Inl OutOfBounds)"

definition mem_write :: "'a list \<Rightarrow> nat \<Rightarrow> 'a list \<Rightarrow> 'a list res" where
  "mem_write xs i ds =
     (if i + length ds \<le> length xs then Inr (take i xs @ ds @ drop (i + length ds) xs)
      else Inl OutOfBounds)"

definition vec_resize :: "byte list \<Rightarrow> nat \<Rightarrow> byte list res" where
  "vec_resize xs n =
     (if n \<le> vec_max then Inr (take n xs @ replicate (n - length xs) 0) else Inl LengthError)"

lemma mem_write_length: "mem_write xs i ds = Inr ys \<Longrightarrow> length ys = length xs"
  by (auto simp: mem_write_def split: if_splits)

lemma mem_write_slice:
  "mem_write xs i ds = Inr ys \<Longrightarrow> take (length ds) (drop i ys) = ds"
  by (auto simp: mem_write_def split: if_splits)

lemma vec_resize_length: "vec_resize xs n = Inr ys \<Longrightarrow> length ys = n"
  by (auto simp: vec_resize_def split: if_splits)

section \<open>Decimal numbers\<close>

text \<open>The decimal digits of a number, as \<^verbatim>\<open>printf\<close> writes them, and the value they stand for.\<close>

definition digit_char :: "nat \<Rightarrow> char" where
  "digit_char d = char_of (48 + d)"

fun dec_nat :: "nat \<Rightarrow> string" where
  "dec_nat n = (if n < 10 then [digit_char n] else dec_nat (n div 10) @ [digit_char (n mod 10)])"

declare dec_nat.simps [simp del]

definition dec_int :: "int \<Rightarrow> string" where
  "dec_int i = (if i < 0 then ''-'' @ dec_nat (nat (- i)) else dec_nat (nat i))"

definition dec_value :: "string \<Rightarrow> nat" where
  "dec_value s = foldl (\<lambda>v c. v * 10 + (of_char c - 48)) 0 s"

lemma of_char_digit: "d < 10 \<Longrightarrow> (of_char (digit_char d) :: nat) = 48 + d"
  by (simp add: digit_char_def)

lemma digit_char_inj: "d < 10 \<Longrightarrow> e < 10 \<Longrightarrow> digit_char d = digit_char e \<Longrightarrow> d = e"
  by (metis add_left_cancel of_char_digit)

lemma dec_value_snoc: "dec_value (s @ [c]) = dec_value s * 10 + (of_char c - 48)"
  by (simp add: dec_value_def)

lemma dec_value_dec_nat [simp]: "dec_value (dec_nat n) = n"
proof (induction n rule: dec_nat.induct)
  case (1 n)
  show ?case
  proof (cases "n < 10")
    case True
    then show ?thesis by (subst dec_nat.simps) (simp add: dec_value_def of_char_digit)
  next
    case False
    with 1 show ?thesis by (subst dec_nat.simps) (simp add: dec_value_snoc of_char_digit)
  qed
qed

lemma dec_nat_inj: "dec_nat m = dec_nat n \<Longrightarrow> m = n"
  by (metis dec_value_dec_nat)

lemma dec_nat_digits: "c \<in> set (dec_nat n) \<Longrightarrow> \<exists>d < 10. c = digit_char d"
proof (induction n rule: dec_nat.induct)
  case (1 n)
  show ?case
  proof (cases "n < 10")
    case True
    with 1(2) show ?thesis by (subst (asm) dec_nat.simps) auto
  next
    case False
    with 1 show ?thesis by (subst (asm) (2) dec_nat.simps) (auto intro: exI [of _ "n mod 10"])
  qed
qed

lemma dec_nat_length: "n < 10 ^ k \<Longrightarrow> 0 < k \<Longrightarrow> length (dec_nat n) \<le> k"
proof (induction k arbitrary: n)
  case (Suc k)
  show ?case
  proof (cases "n < 10")
    case True
    then show ?thesis by (subst dec_nat.simps) simp
  next
    case False
    with Suc.prems have "n div 10 < 10 ^ k" "0 < k" by (auto intro: Nat.gr0I)
    with Suc.IH [of "n div 10"] False show ?thesis by (subst dec_nat.simps) simp
  qed
qed simp

end
