(* ===== verification/Endian.thy ===== *)
theory Endian
  imports Cobra_Prelude
begin

text \<open>
  The byte-order helpers of \<^verbatim>\<open>cobra/endian.h\<close>. A word in memory is its object
  representation, a list of bytes, which depends on the byte order of the host; the host is a
  parameter. \<open>htobe\<close> and \<open>betoh\<close> are the \<^verbatim>\<open>htobe16/32/64\<close> and \<^verbatim>\<open>be16/32/64toh\<close>
  of the C library: the byte swap on a little-endian host, the identity on a big-endian one.
\<close>

unbundle bit_operations_syntax

section \<open>Object representations\<close>

datatype endianness = LittleEndian | BigEndian

definition le_bytes :: "'a::len word \<Rightarrow> byte list" where
  "le_bytes x = map (\<lambda>i. ucast (drop_bit (8 * i) x)) [0..<LENGTH('a) div 8]"

fun le_word :: "byte list \<Rightarrow> 'a::len word" where
  "le_word [] = 0"
| "le_word (b # bs) = ucast b OR push_bit 8 (le_word bs)"

definition to_mem :: "endianness \<Rightarrow> 'a::len word \<Rightarrow> byte list" where
  "to_mem host x = (case host of LittleEndian \<Rightarrow> le_bytes x | BigEndian \<Rightarrow> rev (le_bytes x))"

definition of_mem :: "endianness \<Rightarrow> byte list \<Rightarrow> 'a::len word" where
  "of_mem host bs = (case host of LittleEndian \<Rightarrow> le_word bs | BigEndian \<Rightarrow> le_word (rev bs))"

section \<open>Host and network order\<close>

definition bswap :: "'a::len word \<Rightarrow> 'a word" where
  "bswap x = le_word (rev (le_bytes x))"

definition htobe :: "endianness \<Rightarrow> 'a::len word \<Rightarrow> 'a word" where
  "htobe host x = (case host of LittleEndian \<Rightarrow> bswap x | BigEndian \<Rightarrow> x)"

definition betoh :: "endianness \<Rightarrow> 'a::len word \<Rightarrow> 'a word" where
  "betoh host x = (case host of LittleEndian \<Rightarrow> bswap x | BigEndian \<Rightarrow> x)"

definition hostToNetwork64 :: "endianness \<Rightarrow> 64 word \<Rightarrow> 64 word" where
  "hostToNetwork64 host host64 = htobe host host64"

definition hostToNetwork32 :: "endianness \<Rightarrow> 32 word \<Rightarrow> 32 word" where
  "hostToNetwork32 host host32 = htobe host host32"

definition hostToNetwork16 :: "endianness \<Rightarrow> 16 word \<Rightarrow> 16 word" where
  "hostToNetwork16 host host16 = htobe host host16"

definition networkToHost64 :: "endianness \<Rightarrow> 64 word \<Rightarrow> 64 word" where
  "networkToHost64 host net64 = betoh host net64"

definition networkToHost32 :: "endianness \<Rightarrow> 32 word \<Rightarrow> 32 word" where
  "networkToHost32 host net32 = betoh host net32"

definition networkToHost16 :: "endianness \<Rightarrow> 16 word \<Rightarrow> 16 word" where
  "networkToHost16 host net16 = betoh host net16"

section \<open>Lemmas\<close>

text \<open>The bytes of a word, most significant first: what the network carries.\<close>

definition be_bytes :: "'a::len word \<Rightarrow> byte list" where
  "be_bytes x = rev (le_bytes x)"

lemma length_le_bytes [simp]: "length (le_bytes (x :: 'a::len word)) = LENGTH('a) div 8"
  by (simp add: le_bytes_def)

lemma bit_le_word:
  "bit (le_word bs :: 'a::len word) i \<longleftrightarrow>
     i < LENGTH('a) \<and> i div 8 < length bs \<and> bit (bs ! (i div 8)) (i mod 8)"
proof (induction bs arbitrary: i)
  case Nil
  then show ?case by simp
next
  case (Cons b bs)
  show ?case
  proof (cases "i < 8")
    case True
    then show ?thesis
      by (simp add: bit_simps)
  next
    case False
    then have "i div 8 = Suc ((i - 8) div 8)" "(i - 8) mod 8 = i mod 8"
      by (simp_all add: div_if mod_if)
    with False Cons.IH [of "i - 8"] show ?thesis
      by (auto simp: bit_simps dest: bit_imp_le_length)
  qed
qed

lemma le_bytes_le_word:
  assumes "8 dvd LENGTH('a)" and "length bs = LENGTH('a::len) div 8"
  shows "le_bytes (le_word bs :: 'a word) = bs"
proof (rule nth_equalityI)
  show "length (le_bytes (le_word bs :: 'a word)) = length bs"
    using assms(2) by simp
next
  fix k
  assume "k < length (le_bytes (le_word bs :: 'a word))"
  then have k: "k < LENGTH('a) div 8" by simp
  show "le_bytes (le_word bs :: 'a word) ! k = bs ! k"
  proof (rule bit_eqI)
    fix n
    assume "possible_bit TYPE(byte) n"
    then have n: "n < 8" by simp
    then have "8 * k + n < LENGTH('a)" and "(8 * k + n) div 8 = k" and "(8 * k + n) mod 8 = n"
      using k assms(1) by (auto elim!: dvdE)
    with k n assms(2) show "bit (le_bytes (le_word bs :: 'a word) ! k) n = bit (bs ! k) n"
      by (simp add: le_bytes_def bit_simps bit_le_word add.commute)
  qed
qed

lemma le_word_le_bytes:
  assumes "8 dvd LENGTH('a::len)"
  shows "le_word (le_bytes x) = (x :: 'a word)"
proof (rule bit_eqI)
  fix n
  assume "possible_bit TYPE('a word) n"
  then have n: "n < LENGTH('a)" by simp
  then have "n div 8 < LENGTH('a) div 8"
    using assms by (auto elim!: dvdE)
  with n show "bit (le_word (le_bytes x) :: 'a word) n = bit x n"
    by (simp add: bit_le_word le_bytes_def bit_simps)
qed

lemma bswap_bswap:
  assumes "8 dvd LENGTH('a::len)"
  shows "bswap (bswap x) = (x :: 'a word)"
  using assms by (simp add: bswap_def le_bytes_le_word le_word_le_bytes)

lemma betoh_htobe:
  assumes "8 dvd LENGTH('a::len)"
  shows "betoh host (htobe host x) = (x :: 'a word)"
  using assms by (cases host) (simp_all add: betoh_def htobe_def bswap_bswap)

lemma to_mem_htobe:
  assumes "8 dvd LENGTH('a::len)"
  shows "to_mem host (htobe host x) = be_bytes (x :: 'a word)"
  using assms by (cases host) (simp_all add: to_mem_def htobe_def be_bytes_def bswap_def le_bytes_le_word)

lemma betoh_of_mem:
  assumes "8 dvd LENGTH('a::len)" and "length bs = LENGTH('a) div 8"
  shows "betoh host (of_mem host bs) = (le_word (rev bs) :: 'a word)"
  using assms by (cases host) (simp_all add: of_mem_def betoh_def bswap_def le_bytes_le_word)

lemma be_bytes_inverse:
  assumes "8 dvd LENGTH('a::len)"
  shows "le_word (rev (be_bytes x)) = (x :: 'a word)"
  using assms by (simp add: be_bytes_def le_word_le_bytes)

lemma length_be_bytes [simp]: "length (be_bytes (x :: 'a::len word)) = LENGTH('a) div 8"
  by (simp add: be_bytes_def)

lemmas endian_defs = hostToNetwork64_def hostToNetwork32_def hostToNetwork16_def
  networkToHost64_def networkToHost32_def networkToHost16_def

end
