(* ===== verification/String_Piece.thy ===== *)
theory String_Piece
  imports Cobra_Prelude
begin

text \<open>
  \<^verbatim>\<open>StringPiece\<close> of \<^verbatim>\<open>base/string_piece.h\<close>: a pointer into somebody else's bytes and
  an \<^verbatim>\<open>int\<close> length. The pointer is an offset \<open>sp_off\<close> into the block \<open>sp_mem\<close> it points
  into, so that reads past the end of the block are visible. The length is an \<^verbatim>\<open>int\<close>: sizes
  are narrowed with \<open>to_int32\<close> when a piece is made, and a negative length is a huge
  \<^verbatim>\<open>size_t\<close> when it is handed to \<^verbatim>\<open>memcmp\<close>.
\<close>

section \<open>Definitions\<close>

definition int_to_size :: "int \<Rightarrow> nat" where
  "int_to_size i = nat (i mod int SIZE_MOD)"

record string_piece =
  sp_mem :: "byte list"
  sp_off :: nat
  sp_length :: int

definition StringPiece_of_string :: "byte list \<Rightarrow> string_piece" where
  "StringPiece_of_string str = \<lparr>sp_mem = str, sp_off = 0, sp_length = to_int32 (length str)\<rparr>"

definition StringPiece_ptr_len :: "byte list \<Rightarrow> nat \<Rightarrow> int \<Rightarrow> string_piece" where
  "StringPiece_ptr_len m offset len = \<lparr>sp_mem = m, sp_off = offset, sp_length = len\<rparr>"

definition sp_size :: "string_piece \<Rightarrow> int" where
  "sp_size p = sp_length p"

definition sp_empty :: "string_piece \<Rightarrow> bool" where
  "sp_empty p \<longleftrightarrow> sp_length p = 0"

definition sp_clear :: "string_piece \<Rightarrow> string_piece" where
  "sp_clear p = \<lparr>sp_mem = [], sp_off = 0, sp_length = 0\<rparr>"

definition remove_prefix :: "int \<Rightarrow> string_piece \<Rightarrow> string_piece" where
  "remove_prefix n p = p\<lparr>sp_off := nat (int (sp_off p) + n), sp_length := sp_length p - n\<rparr>"

definition remove_suffix :: "int \<Rightarrow> string_piece \<Rightarrow> string_piece" where
  "remove_suffix n p = p\<lparr>sp_length := sp_length p - n\<rparr>"

definition sp_read :: "string_piece \<Rightarrow> int \<Rightarrow> byte list res" where
  "sp_read p n = mem_read (sp_mem p) (sp_off p) (int_to_size n)"

definition as_string :: "string_piece \<Rightarrow> byte list res" where
  "as_string p = sp_read p (sp_length p)"

text \<open>\<^verbatim>\<open>memcmp\<close> compares unsigned bytes; only the sign of its result is specified.\<close>

fun memcmp :: "byte list \<Rightarrow> byte list \<Rightarrow> int" where
  "memcmp (x # xs) (y # ys) = (if x < y then -1 else if y < x then 1 else memcmp xs ys)"
| "memcmp _ _ = 0"

definition sp_memcmp :: "string_piece \<Rightarrow> string_piece \<Rightarrow> int \<Rightarrow> int res" where
  "sp_memcmp p q n =
     bindE (sp_read p n) (\<lambda>a. bindE (sp_read q n) (\<lambda>b. Inr (memcmp a b)))"

definition sp_eq :: "string_piece \<Rightarrow> string_piece \<Rightarrow> bool res" where
  "sp_eq p x =
     (if sp_length p = sp_length x
      then bindE (sp_memcmp p x (sp_length p)) (\<lambda>r. Inr (r = 0)) else Inr False)"

definition sp_neq :: "string_piece \<Rightarrow> string_piece \<Rightarrow> bool res" where
  "sp_neq p x = bindE (sp_eq p x) (\<lambda>e. Inr (\<not> e))"

text \<open>
  \<^verbatim>\<open>STRINGPIECE_BINARY_PREDICATE(cmp, auxcmp)\<close>: the macro's two arguments are the comparison of
  the lengths and the one of the \<^verbatim>\<open>memcmp\<close> result with zero.
\<close>

definition sp_predicate ::
  "(int \<Rightarrow> int \<Rightarrow> bool) \<Rightarrow> (int \<Rightarrow> int \<Rightarrow> bool) \<Rightarrow> string_piece \<Rightarrow> string_piece \<Rightarrow> bool res" where
  "sp_predicate cmp auxcmp p x =
     bindE (sp_memcmp p x (if sp_length p < sp_length x then sp_length p else sp_length x))
       (\<lambda>r. Inr (auxcmp r 0 \<or> (r = 0 \<and> cmp (sp_length p) (sp_length x))))"

definition sp_less :: "string_piece \<Rightarrow> string_piece \<Rightarrow> bool res" where
  "sp_less = sp_predicate (<) (<)"

definition sp_less_eq :: "string_piece \<Rightarrow> string_piece \<Rightarrow> bool res" where
  "sp_less_eq = sp_predicate (\<le>) (<)"

definition sp_greater_eq :: "string_piece \<Rightarrow> string_piece \<Rightarrow> bool res" where
  "sp_greater_eq = sp_predicate (\<ge>) (>)"

definition sp_greater :: "string_piece \<Rightarrow> string_piece \<Rightarrow> bool res" where
  "sp_greater = sp_predicate (>) (>)"

definition sp_compare :: "string_piece \<Rightarrow> string_piece \<Rightarrow> int res" where
  "sp_compare p x =
     bindE (sp_memcmp p x (if sp_length p < sp_length x then sp_length p else sp_length x))
       (\<lambda>r. Inr (if r = 0 then (if sp_length p < sp_length x then -1
                                else if sp_length p > sp_length x then 1 else r) else r))"

definition starts_with :: "string_piece \<Rightarrow> string_piece \<Rightarrow> bool res" where
  "starts_with p x =
     (if sp_length p \<ge> sp_length x
      then bindE (sp_memcmp p x (sp_length x)) (\<lambda>r. Inr (r = 0)) else Inr False)"

text \<open>
  A C string at offset \<open>i\<close> of a block ends at the first zero byte; \<^verbatim>\<open>strlen\<close> of a block without one
  runs out of it.
\<close>

definition strlen_at :: "byte list \<Rightarrow> nat \<Rightarrow> nat res" where
  "strlen_at m i =
     (if 0 \<in> set (drop i m) then Inr (length (takeWhile (\<lambda>b. b \<noteq> 0) (drop i m))) else Inl OutOfBounds)"

definition StringPiece_default :: string_piece where
  "StringPiece_default = \<lparr>sp_mem = [], sp_off = 0, sp_length = 0\<rparr>"

definition StringPiece_cstr :: "byte list \<Rightarrow> nat \<Rightarrow> string_piece res" where
  "StringPiece_cstr m str =
     bindE (strlen_at m str) (\<lambda>n. Inr \<lparr>sp_mem = m, sp_off = str, sp_length = to_int32 n\<rparr>)"

definition sp_data :: "string_piece \<Rightarrow> byte list \<times> nat" where
  "sp_data p = (sp_mem p, sp_off p)"

definition sp_begin :: "string_piece \<Rightarrow> int" where
  "sp_begin p = int (sp_off p)"

definition sp_end :: "string_piece \<Rightarrow> int" where
  "sp_end p = int (sp_off p) + sp_length p"

definition sp_set :: "byte list \<Rightarrow> nat \<Rightarrow> int \<Rightarrow> string_piece \<Rightarrow> string_piece" where
  "sp_set m buffer len p = p\<lparr>sp_mem := m, sp_off := buffer, sp_length := len\<rparr>"

definition sp_set_cstr :: "byte list \<Rightarrow> nat \<Rightarrow> string_piece \<Rightarrow> string_piece res" where
  "sp_set_cstr m str p =
     bindE (strlen_at m str) (\<lambda>n. Inr (p\<lparr>sp_mem := m, sp_off := str, sp_length := to_int32 n\<rparr>))"

definition sp_index :: "string_piece \<Rightarrow> int \<Rightarrow> byte res" where
  "sp_index p i =
     (let k = int (sp_off p) + i
      in if 0 \<le> k \<and> k < int (length (sp_mem p)) then Inr (sp_mem p ! nat k) else Inl OutOfBounds)"

definition CopyToString :: "string_piece \<Rightarrow> byte list \<Rightarrow> byte list res" where
  "CopyToString p target = sp_read p (sp_length p)"

section \<open>Well-formed pieces and the bytes they denote\<close>

definition sp_inv :: "string_piece \<Rightarrow> bool" where
  "sp_inv p \<longleftrightarrow> 0 \<le> sp_length p \<and> sp_length p < 2 ^ 31
     \<and> sp_off p + nat (sp_length p) \<le> length (sp_mem p)"

definition sp_bytes :: "string_piece \<Rightarrow> byte list" where
  "sp_bytes p = take (nat (sp_length p)) (drop (sp_off p) (sp_mem p))"

lemma int_to_size_nonneg: "0 \<le> i \<Longrightarrow> i < 2 ^ 31 \<Longrightarrow> int_to_size i = nat i"
  by (simp add: int_to_size_def SIZE_MOD_def)

lemma len_sp_bytes: "sp_inv p \<Longrightarrow> length (sp_bytes p) = nat (sp_length p)"
  by (auto simp: sp_inv_def sp_bytes_def)

lemma sp_read_prefix:
  "sp_inv p \<Longrightarrow> 0 \<le> n \<Longrightarrow> n \<le> sp_length p \<Longrightarrow> sp_read p n = Inr (take (nat n) (sp_bytes p))"
  by (simp add: sp_read_def mem_read_def int_to_size_nonneg sp_inv_def sp_bytes_def min_def)

lemma as_string_bytes: "sp_inv p \<Longrightarrow> as_string p = Inr (sp_bytes p)"
  by (simp add: as_string_def sp_read_prefix len_sp_bytes sp_inv_def)

lemma memcmp_zero_iff: "length xs = length ys \<Longrightarrow> memcmp xs ys = 0 \<longleftrightarrow> xs = ys"
  by (induction xs ys rule: list_induct2) auto

text \<open>The lexicographic order of byte strings, a proper prefix being smaller.\<close>

fun lex_less :: "byte list \<Rightarrow> byte list \<Rightarrow> bool" where
  "lex_less xs [] = False"
| "lex_less [] (y # ys) = True"
| "lex_less (x # xs) (y # ys) = (x < y \<or> (x = y \<and> lex_less xs ys))"

lemma lex_less_irrefl [simp]: "\<not> lex_less xs xs"
  by (induction xs) auto

lemma lex_less_trans: "lex_less xs ys \<Longrightarrow> lex_less ys zs \<Longrightarrow> lex_less xs zs"
proof (induction xs ys arbitrary: zs rule: lex_less.induct)
  case (3 x xs y ys)
  then show ?case by (cases zs) auto
next
  case (2 y ys)
  then show ?case by (cases zs) auto
qed simp

lemma lex_less_total: "lex_less xs ys \<or> xs = ys \<or> lex_less ys xs"
proof (induction xs ys rule: lex_less.induct)
  case (1 xs)
  then show ?case by (cases xs) auto
qed auto

lemma memcmp_take_min:
  "lex_less xs ys \<longleftrightarrow>
     (let m = min (length xs) (length ys); r = memcmp (take m xs) (take m ys)
      in r < 0 \<or> (r = 0 \<and> length xs < length ys))"
  by (induction xs ys rule: lex_less.induct) (auto simp: Let_def neq_iff)


lemma memcmp_anti: "memcmp ys xs = - memcmp xs ys"
  by (induction xs ys rule: memcmp.induct) auto

text \<open>The \<^verbatim>\<open>memcmp\<close> over the shorter of the two lengths.\<close>

definition min_cmp :: "byte list \<Rightarrow> byte list \<Rightarrow> int" where
  "min_cmp xs ys = (let m = min (length xs) (length ys) in memcmp (take m xs) (take m ys))"

lemma sp_memcmp_min:
  assumes "sp_inv p" and "sp_inv q"
  shows "sp_memcmp p q (if sp_length p < sp_length q then sp_length p else sp_length q)
    = Inr (min_cmp (sp_bytes p) (sp_bytes q))"
proof -
  define n where "n = (if sp_length p < sp_length q then sp_length p else sp_length q)"
  have "0 \<le> n" "n \<le> sp_length p" "n \<le> sp_length q" using assms by (auto simp: sp_inv_def n_def)
  moreover have "nat n = min (length (sp_bytes p)) (length (sp_bytes q))"
    using assms by (auto simp: len_sp_bytes sp_inv_def n_def)
  ultimately show ?thesis
    using assms by (simp add: sp_memcmp_def sp_read_prefix min_cmp_def Let_def n_def [symmetric])
qed

lemma min_cmp_less: "lex_less xs ys \<longleftrightarrow> min_cmp xs ys < 0 \<or> min_cmp xs ys = 0 \<and> length xs < length ys"
  by (simp add: memcmp_take_min min_cmp_def Let_def)

lemma min_cmp_anti: "min_cmp ys xs = - min_cmp xs ys"
  unfolding min_cmp_def Let_def min.commute [of "length ys"] by (rule memcmp_anti)

lemma min_cmp_eq: "xs = ys \<longleftrightarrow> min_cmp xs ys = 0 \<and> length xs = length ys"
  by (auto simp: min_cmp_def memcmp_zero_iff)

lemma sp_length_bytes: "sp_inv p \<Longrightarrow> sp_length p = int (length (sp_bytes p))"
  by (simp add: len_sp_bytes sp_inv_def)

section \<open>Properties\<close>

text \<open>
  The comparison operators of \<^verbatim>\<open>StringPiece\<close> are the lexicographic order on the unsigned bytes
  the pieces point to, whatever lies around them in memory: less-than is the strict order,
  greater-than its converse, \<^verbatim>\<open>==\<close> equality, and \<^verbatim>\<open>compare\<close> has the sign of the order.
\<close>

theorem string_piece_order:
  assumes "sp_inv p" and "sp_inv q"
  shows "sp_less p q = Inr (lex_less (sp_bytes p) (sp_bytes q))
    \<and> sp_greater p q = Inr (lex_less (sp_bytes q) (sp_bytes p))
    \<and> sp_eq p q = Inr (sp_bytes p = sp_bytes q)
    \<and> (\<exists>r. sp_compare p q = Inr r \<and> (r < 0 \<longleftrightarrow> lex_less (sp_bytes p) (sp_bytes q)) \<and> (r = 0 \<longleftrightarrow> sp_bytes p = sp_bytes q))"
proof (intro conjI)
  note cmp = sp_memcmp_min [OF assms] and len = sp_length_bytes [OF assms(1)] sp_length_bytes [OF assms(2)]
  show "sp_less p q = Inr (lex_less (sp_bytes p) (sp_bytes q))"
    unfolding sp_less_def sp_predicate_def cmp by (simp add: min_cmp_less len)
  show "sp_greater p q = Inr (lex_less (sp_bytes q) (sp_bytes p))"
    unfolding sp_greater_def sp_predicate_def cmp
    by (simp add: min_cmp_less [of "sp_bytes q"] min_cmp_anti [of "sp_bytes q"] len)
  show "\<exists>r. sp_compare p q = Inr r \<and> (r < 0 \<longleftrightarrow> lex_less (sp_bytes p) (sp_bytes q)) \<and> (r = 0 \<longleftrightarrow> sp_bytes p = sp_bytes q)"
    unfolding sp_compare_def cmp by (simp add: min_cmp_less min_cmp_eq [of "sp_bytes p"] len)
  show "sp_eq p q = Inr (sp_bytes p = sp_bytes q)"
  proof (cases "sp_length p = sp_length q")
    case True
    with cmp show ?thesis by (simp add: sp_eq_def min_cmp_eq [of "sp_bytes p"] len)
  next
    case False
    with len show ?thesis by (auto simp: sp_eq_def)
  qed
qed

theorem string_piece_order_witness:
  "sp_less (StringPiece_ptr_len [0x61, 0x62, 0x63] 0 2) (StringPiece_ptr_len [0x61, 0x63] 0 2) = Inr True"
  using string_piece_order [of "StringPiece_ptr_len [0x61, 0x62, 0x63] 0 2" "StringPiece_ptr_len [0x61, 0x63] 0 2"]
  by (simp add: sp_inv_def StringPiece_ptr_len_def sp_bytes_def)


section \<open>Making, trimming and reading pieces\<close>

lemma takeWhile_length_less: "0 \<in> set xs \<Longrightarrow> length (takeWhile (\<lambda>b. b \<noteq> 0) xs) < length xs"
  by (induction xs) auto

lemma strlen_at_bound:
  "strlen_at m i = Inr n \<Longrightarrow> i + n < length m \<and> m ! (i + n) = 0 \<and> 0 \<notin> set (take n (drop i m))"
proof -
  assume a: "strlen_at m i = Inr n"
  then have z: "0 \<in> set (drop i m)" and n: "n = length (takeWhile (\<lambda>b. b \<noteq> 0) (drop i m))"
    by (auto simp: strlen_at_def split: if_splits)
  from z have len: "n < length (drop i m)"
    unfolding n by (rule takeWhile_length_less)
  have "take n (drop i m) = takeWhile (\<lambda>b. b \<noteq> 0) (drop i m)"
    unfolding n by (simp add: takeWhile_eq_take [symmetric])
  moreover have "(drop i m) ! n = 0"
    using nth_length_takeWhile [of "\<lambda>b. b \<noteq> 0" "drop i m"] len n by simp
  moreover have "0 \<notin> set (takeWhile (\<lambda>b. b \<noteq> 0) (drop i m))"
    by (auto dest: set_takeWhileD)
  ultimately show ?thesis using len by simp
qed

lemma StringPiece_cstr_bytes:
  assumes "StringPiece_cstr m i = Inr p" and "length m < 2 ^ 31"
  shows "sp_inv p \<and> sp_bytes p = takeWhile (\<lambda>b. b \<noteq> 0) (drop i m)"
proof -
  obtain n where n: "strlen_at m i = Inr n" and p: "p = \<lparr>sp_mem = m, sp_off = i, sp_length = to_int32 n\<rparr>"
    using assms(1) by (auto simp: StringPiece_cstr_def bindE_eq_Inr)
  have b: "i + n < length m" using strlen_at_bound [OF n] by simp
  have t: "n = length (takeWhile (\<lambda>b. b \<noteq> 0) (drop i m))"
    using n by (auto simp: strlen_at_def split: if_splits)
  have "take n (drop i m) = takeWhile (\<lambda>b. b \<noteq> 0) (drop i m)"
    unfolding t by (simp add: takeWhile_eq_take [symmetric])
  then show ?thesis
    using b assms(2) by (simp add: p sp_inv_def sp_bytes_def)
qed

lemma sp_index_bytes:
  "sp_inv p \<Longrightarrow> 0 \<le> i \<Longrightarrow> i < sp_length p \<Longrightarrow> sp_index p i = Inr (sp_bytes p ! nat i)"
  by (auto simp: sp_inv_def sp_index_def sp_bytes_def nat_add_distrib Let_def)

lemma CopyToString_bytes: "sp_inv p \<Longrightarrow> CopyToString p target = Inr (sp_bytes p)"
  using as_string_bytes by (simp add: CopyToString_def as_string_def)

lemma remove_prefix_bytes:
  "sp_inv p \<Longrightarrow> 0 \<le> n \<Longrightarrow> n \<le> sp_length p \<Longrightarrow>
     sp_inv (remove_prefix n p) \<and> sp_bytes (remove_prefix n p) = drop (nat n) (sp_bytes p)"
  by (simp add: sp_inv_def sp_bytes_def remove_prefix_def drop_take nat_add_distrib nat_diff_distrib
      add.commute)

lemma remove_suffix_bytes:
  "sp_inv p \<Longrightarrow> 0 \<le> n \<Longrightarrow> n \<le> sp_length p \<Longrightarrow>
     sp_inv (remove_suffix n p) \<and> sp_bytes (remove_suffix n p) = take (nat (sp_length p - n)) (sp_bytes p)"
  by (simp add: sp_inv_def sp_bytes_def remove_suffix_def min_def)

end
