(* ===== verification/Buffer_Contract.thy ===== *)
theory Buffer_Contract
  imports Buffer
begin

text \<open>
  What a \<^verbatim>\<open>Buffer\<close> promises its clients. The contract is the locale \<open>byte_fifo\<close>: bytes go
  in at one end and come out at the other, in order, none lost. Its client lemma, about every
  sequence of pushes and pops, is proved once there and reaches the class through the
  interpretation \<open>bf\<close>. The other sections give the integers, the searches, \<open>readFd\<close> and
  \<open>shrink\<close>.
\<close>

section \<open>Appending\<close>

lemma write_at_end:
  assumes "buf_inv b" and "length ds \<le> writableBytes b"
  shows "\<exists>v. mem_write (vec b) (writerIndex b) ds = Inr v
    \<and> buf_inv (b\<lparr>vec := v, writerIndex := writerIndex b + length ds\<rparr>)
    \<and> content (b\<lparr>vec := v, writerIndex := writerIndex b + length ds\<rparr>) = content b @ ds"
proof -
  let ?w = "writerIndex b" and ?r = "readerIndex b"
  define v where "v = take ?w (vec b) @ ds @ drop (?w + length ds) (vec b)"
  have fits: "?w + length ds \<le> length (vec b)" and le: "?r \<le> ?w" "?w \<le> length (vec b)"
    using assms by (auto simp: writableBytes_eq buf_inv_def)
  have wr: "mem_write (vec b) ?w ds = Inr v"
    using fits by (simp add: mem_write_def v_def)
  have len: "length v = length (vec b)"
    using fits by (simp add: v_def)
  have "content (b\<lparr>vec := v, writerIndex := ?w + length ds\<rparr>) = content b @ ds"
    using le by (simp add: content_def v_def drop_take)
  moreover have "buf_inv (b\<lparr>vec := v, writerIndex := ?w + length ds\<rparr>)"
    using assms(1) fits len by (simp add: buf_inv_def)
  ultimately show ?thesis using wr by blast
qed

lemma append_ptr_ok:
  assumes "buf_inv b" and "used b + n \<le> vec_max" and "p + n \<le> length m"
  shows "\<exists>b'. append_ptr m p n b = Inr b' \<and> buf_inv b'
    \<and> content b' = content b @ take n (drop p m) \<and> used b' \<le> used b + n"
proof -
  define ds where "ds = take n (drop p m)"
  have ds: "length ds = n" and rd: "mem_read m p n = Inr ds"
    using assms(3) by (simp_all add: ds_def mem_read_def)
  obtain b1 where b1: "ensureWritableBytes n b = Inr b1" "buf_inv b1" "content b1 = content b"
      "n \<le> writableBytes b1" "used b1 \<le> used b"
    using ensureWritableBytes_ok [OF assms(1,2)] by blast
  obtain v where v: "mem_write (vec b1) (writerIndex b1) ds = Inr v"
      "buf_inv (b1\<lparr>vec := v, writerIndex := writerIndex b1 + n\<rparr>)"
      "content (b1\<lparr>vec := v, writerIndex := writerIndex b1 + n\<rparr>) = content b1 @ ds"
    using write_at_end [OF b1(2), of ds] b1(4) ds by auto
  have "writerIndex b1 + n < SIZE_MOD"
    using v(2) vec_max_less by (simp add: buf_inv_def)
  then have "append_ptr m p n b = Inr (b1\<lparr>vec := v, writerIndex := writerIndex b1 + n\<rparr>)"
    by (simp add: append_ptr_def b1(1) rd BeginWrite_def v(1) hasWritten_def sz_simps)
  moreover have "used (b1\<lparr>vec := v, writerIndex := writerIndex b1 + n\<rparr>) \<le> used b + n"
    using b1(5) by (auto simp: used_def)
  ultimately show ?thesis using v(2,3) b1(3) by (simp add: ds_def)
qed

lemma buffer_append_ok:
  assumes "buf_inv b" and "used b + length ds \<le> vec_max"
  shows "\<exists>b'. buffer_append ds b = Inr b' \<and> buf_inv b' \<and> content b' = content b @ ds
    \<and> used b' \<le> used b + length ds"
  using append_ptr_ok [OF assms, of 0 ds] by (simp add: buffer_append_def)

section \<open>The contract of a byte FIFO\<close>

datatype fifo_op = Push "byte list" | Pop nat

fun fifo_run ::
  "(byte list \<Rightarrow> 'b \<Rightarrow> 'b res) \<Rightarrow> (nat \<Rightarrow> 'b \<Rightarrow> (byte list \<times> 'b) res)
     \<Rightarrow> fifo_op list \<Rightarrow> 'b \<Rightarrow> (byte list \<times> 'b) res" where
  "fifo_run push pop [] b = Inr ([], b)"
| "fifo_run push pop (Push ds # ops) b = bindE (push ds b) (fifo_run push pop ops)"
| "fifo_run push pop (Pop n # ops) b =
     bindE (pop n b) (\<lambda>(ds, b').
       bindE (fifo_run push pop ops b') (\<lambda>(rest, b''). Inr (ds @ rest, b'')))"

fun pushed :: "fifo_op list \<Rightarrow> byte list" where
  "pushed [] = []"
| "pushed (Push ds # ops) = ds @ pushed ops"
| "pushed (Pop n # ops) = pushed ops"

text \<open>A client may pop what is there: \<open>demand_ok k ops\<close> when \<open>k\<close> bytes are queued.\<close>

fun demand_ok :: "nat \<Rightarrow> fifo_op list \<Rightarrow> bool" where
  "demand_ok k [] = True"
| "demand_ok k (Push ds # ops) = demand_ok (k + length ds) ops"
| "demand_ok k (Pop n # ops) = (n \<le> k \<and> demand_ok (k - n) ops)"

locale byte_fifo =
  fixes inv :: "'b \<Rightarrow> bool"
    and bytes :: "'b \<Rightarrow> byte list"
    and level :: "'b \<Rightarrow> nat"
    and limit :: nat
    and push :: "byte list \<Rightarrow> 'b \<Rightarrow> 'b res"
    and pop :: "nat \<Rightarrow> 'b \<Rightarrow> (byte list \<times> 'b) res"
  assumes push_ok: "inv b \<Longrightarrow> level b + length ds \<le> limit \<Longrightarrow>
      \<exists>b'. push ds b = Inr b' \<and> inv b' \<and> bytes b' = bytes b @ ds \<and> level b' \<le> level b + length ds"
    and pop_ok: "inv b \<Longrightarrow> n \<le> length (bytes b) \<Longrightarrow>
      \<exists>b'. pop n b = Inr (take n (bytes b), b') \<and> inv b' \<and> bytes b' = drop n (bytes b)
        \<and> level b' \<le> level b"
begin

lemma run_ok:
  assumes "inv b" and "level b + length (pushed ops) \<le> limit" and "demand_ok (length (bytes b)) ops"
  shows "\<exists>out b'. fifo_run push pop ops b = Inr (out, b') \<and> inv b'
    \<and> out @ bytes b' = bytes b @ pushed ops"
  using assms
proof (induction ops arbitrary: b)
  case Nil
  then show ?case by simp
next
  case (Cons op ops)
  show ?case
  proof (cases op)
    case (Push ds)
    with Cons.prems obtain b1 where b1: "push ds b = Inr b1" "inv b1" "bytes b1 = bytes b @ ds"
        "level b1 \<le> level b + length ds"
      using push_ok [of b ds] by auto
    with Cons.prems Push have "level b1 + length (pushed ops) \<le> limit"
      and "demand_ok (length (bytes b1)) ops" by simp_all
    from Cons.IH [OF b1(2) this] show ?thesis
      using Push b1 by auto
  next
    case (Pop n)
    with Cons.prems obtain b1 where b1: "pop n b = Inr (take n (bytes b), b1)" "inv b1"
        "bytes b1 = drop n (bytes b)" "level b1 \<le> level b"
      using pop_ok [of b n] by auto
    with Cons.prems Pop have "level b1 + length (pushed ops) \<le> limit"
      and "demand_ok (length (bytes b1)) ops" by simp_all
    from Cons.IH [OF b1(2) this] obtain out b' where
      "fifo_run push pop ops b1 = Inr (out, b')" "inv b'" "out @ bytes b' = bytes b1 @ pushed ops"
      by blast
    with Pop b1 show ?thesis by simp
  qed
qed

end

interpretation bf: byte_fifo buf_inv content used vec_max buffer_append retrieveAsString
  by unfold_locales (simp_all add: buffer_append_ok retrieveAsString_ok)

section \<open>Integers in network order\<close>

lemma peekInt32_content:
  assumes "buf_inv b" and "content b = be_bytes (x :: 32 word) @ rest"
  shows "peekInt32 host b = Inr x"
proof -
  have len: "length (content b) = 4 + length rest"
    using assms(2) by simp
  then have "mem_read (vec b) (BeginRead b) 4 = Inr (be_bytes x)"
    using mem_read_content [OF assms(1), of 4] assms(2) by simp
  with assms(1) len show ?thesis
    by (simp add: peekInt32_def readableBytes_eq endian_defs betoh_of_mem be_bytes_inverse)
qed

lemma peekInt16_content:
  assumes "buf_inv b" and "content b = be_bytes (x :: 16 word) @ rest"
  shows "peekInt16 host b = Inr x"
proof -
  have len: "length (content b) = 2 + length rest"
    using assms(2) by simp
  then have "mem_read (vec b) (BeginRead b) 2 = Inr (be_bytes x)"
    using mem_read_content [OF assms(1), of 2] assms(2) by simp
  with assms(1) len show ?thesis
    by (simp add: peekInt16_def readableBytes_eq endian_defs betoh_of_mem be_bytes_inverse)
qed

lemma readInt32_content:
  assumes "buf_inv b" and "content b = be_bytes (x :: 32 word) @ rest"
  shows "\<exists>b'. readInt32 host b = Inr (x, b') \<and> buf_inv b' \<and> content b' = rest"
  using retrieve_ok [OF assms(1), of 4] peekInt32_content [OF assms] assms(2)
  by (auto simp: readInt32_def retrieveInt32_def)

lemma readInt16_content:
  assumes "buf_inv b" and "content b = be_bytes (x :: 16 word) @ rest"
  shows "\<exists>b'. readInt16 host b = Inr (x, b') \<and> buf_inv b' \<and> content b' = rest"
  using retrieve_ok [OF assms(1), of 2] peekInt16_content [OF assms] assms(2)
  by (auto simp: readInt16_def retrieveInt16_def)

lemma appendInt32_content:
  assumes "buf_inv b" and "used b + 4 \<le> vec_max"
  shows "\<exists>b'. appendInt32 host x b = Inr b' \<and> buf_inv b' \<and> content b' = content b @ be_bytes x"
  using buffer_append_ok [OF assms(1), of "be_bytes x"] assms(2)
  by (auto simp: appendInt32_def endian_defs to_mem_htobe)

lemma appendInt16_content:
  assumes "buf_inv b" and "used b + 2 \<le> vec_max"
  shows "\<exists>b'. appendInt16 host x b = Inr b' \<and> buf_inv b' \<and> content b' = content b @ be_bytes x"
  using buffer_append_ok [OF assms(1), of "be_bytes x"] assms(2)
  by (auto simp: appendInt16_def endian_defs to_mem_htobe)

lemma prepend_ok:
  assumes "buf_inv b" and "length ds \<le> readerIndex b"
  shows "\<exists>b'. prepend ds b = Inr b' \<and> buf_inv b' \<and> content b' = ds @ content b"
proof -
  let ?r = "readerIndex b - length ds"
  define v where "v = take ?r (vec b) @ ds @ drop (readerIndex b) (vec b)"
  have le: "readerIndex b \<le> writerIndex b" "writerIndex b \<le> length (vec b)"
    and "length (vec b) \<le> vec_max"
    using assms(1) by (auto simp: buf_inv_def)
  then have sz: "sz_sub (readerIndex b) (length ds) = ?r"
    using assms(2) vec_max_less by (intro sz_sub_exact) auto
  have len: "length v = length (vec b)"
    using assms(2) le by (simp add: v_def)
  have "prepend ds b = Inr (b\<lparr>readerIndex := ?r, vec := v\<rparr>)"
    using assms(2) le by (simp add: prepend_def prependableBytes_def sz mem_write_def v_def)
  moreover have "buf_inv (b\<lparr>readerIndex := ?r, vec := v\<rparr>)"
    using assms(1) len by (auto simp: buf_inv_def)
  moreover have "content (b\<lparr>readerIndex := ?r, vec := v\<rparr>) = ds @ content b"
    using assms(2) le by (simp add: content_def v_def)
  ultimately show ?thesis by blast
qed

section \<open>Searching the content\<close>

lemma cxx_search_bounds: "first \<le> lst \<Longrightarrow> first \<le> cxx_search m first lst pat \<and> cxx_search m first lst pat \<le> lst"
proof (induction m first lst pat rule: cxx_search.induct)
  case (1 m first lst pat)
  then show ?case by (subst (1 2) cxx_search.simps) auto
qed

lemma cxx_search_match:
  "cxx_search m first lst pat < lst \<Longrightarrow>
     cxx_search m first lst pat + length pat \<le> lst
     \<and> take (length pat) (drop (cxx_search m first lst pat) m) = pat"
proof (induction m first lst pat rule: cxx_search.induct)
  case (1 m first lst pat)
  then show ?case
    by (auto simp: cxx_search.simps [of m first lst pat] split: if_splits)
qed

lemma cxx_search_least:
  "first \<le> j \<Longrightarrow> j < cxx_search m first lst pat \<Longrightarrow>
     \<not> (j + length pat \<le> lst \<and> take (length pat) (drop j m) = pat)"
proof (induction m first lst pat rule: cxx_search.induct)
  case (1 m first lst pat)
  show ?case
  proof (cases "j = first")
    case True
    with "1.prems" show ?thesis
      by (auto simp: cxx_search.simps [of m first lst pat] split: if_splits)
  next
    case False
    with "1" show ?thesis
      by (auto simp: cxx_search.simps [of m first lst pat] split: if_splits)
  qed
qed

text \<open>A match at a position of the vector, inside the readable part.\<close>

definition crlf_at :: "buffer \<Rightarrow> nat \<Rightarrow> bool" where
  "crlf_at b i \<longleftrightarrow> BeginRead b \<le> i \<and> i + 2 \<le> BeginWrite b \<and> vec b ! i = 13 \<and> vec b ! Suc i = 10"

lemma take2_drop: "i + 2 \<le> length xs \<Longrightarrow> take 2 (drop i xs) = [xs ! i, xs ! Suc i]"
  by (simp add: numeral_2_eq_2 take_Suc_conv_app_nth)

lemma crlf_at_iff:
  assumes "buf_inv b"
  shows "crlf_at b i \<longleftrightarrow> BeginRead b \<le> i \<and> i + length kCRLF \<le> BeginWrite b
    \<and> take (length kCRLF) (drop i (vec b)) = kCRLF"
  using assms take2_drop [of i "vec b"]
  by (auto simp: crlf_at_def kCRLF_def BeginWrite_def buf_inv_def numeral_2_eq_2)

lemma memchr_found:
  "memchr m i c n = Inr (Some k) \<Longrightarrow> i \<le> k \<and> k < i + n \<and> k < length m \<and> m ! k = c
     \<and> (\<forall>j. i \<le> j \<and> j < k \<longrightarrow> m ! j \<noteq> c)"
proof (induction m i c n rule: memchr.induct)
  case (2 m i c n)
  show ?case
  proof (cases "m ! i = c")
    case True
    with "2.prems" show ?thesis by (auto split: if_splits)
  next
    case False
    with "2" have "Suc i \<le> k \<and> k < Suc i + n \<and> k < length m \<and> m ! k = c
      \<and> (\<forall>j. Suc i \<le> j \<and> j < k \<longrightarrow> m ! j \<noteq> c)" by (auto split: if_splits)
    with False show ?thesis by simp (metis Suc_leD Suc_leI le_neq_implies_less)
  qed
qed simp

lemma memchr_none:
  "memchr m i c n = Inr None \<Longrightarrow> i \<le> j \<Longrightarrow> j < i + n \<Longrightarrow> j < length m \<and> m ! j \<noteq> c"
proof (induction m i c n rule: memchr.induct)
  case (2 m i c n)
  then show ?case by (cases "j = i") (auto split: if_splits)
qed simp

lemma memchr_in_range: "i + n \<le> length m \<Longrightarrow> \<exists>r. memchr m i c n = Inr r"
  by (induction m i c n rule: memchr.induct) auto

lemma memchr_overrun:
  "length m < i + n \<Longrightarrow> i \<le> length m \<Longrightarrow> (\<forall>j. i \<le> j \<and> j < length m \<longrightarrow> m ! j \<noteq> c) \<Longrightarrow>
     memchr m i c n = Inl OutOfBounds"
proof (induction m i c n rule: memchr.induct)
  case (2 m i c n)
  then show ?case by (cases "length m \<le> i") auto
qed simp

section \<open>Reading from a descriptor\<close>

lemma readFd_first_part:
  assumes "buf_inv b"
  shows "\<exists>v. mem_write (vec b) (writerIndex b) (take (writableBytes b) ds) = Inr v
    \<and> length v = length (vec b)
    \<and> buf_inv (b\<lparr>vec := v, writerIndex := writerIndex b + min (length ds) (writableBytes b)\<rparr>)
    \<and> content (b\<lparr>vec := v, writerIndex := writerIndex b + min (length ds) (writableBytes b)\<rparr>)
        = content b @ take (writableBytes b) ds"
  using write_at_end [OF assms, of "take (writableBytes b) ds"] mem_write_length
  by (auto simp: min.commute)

lemma readFd_ok:
  assumes inv: "buf_inv b" and cap: "length ds \<le> readFd_capacity b"
    and room: "length (vec b) + extrabuf_size \<le> vec_max"
  shows "\<exists>b'. readFd (ReadvBytes ds) b = Inr (int (length ds), None, b') \<and> buf_inv b'
    \<and> content b' = content b @ ds"
proof -
  let ?w = "writableBytes b"
  obtain v where v: "mem_write (vec b) (writerIndex b) (take ?w ds) = Inr v"
      "length v = length (vec b)"
      "buf_inv (b\<lparr>vec := v, writerIndex := writerIndex b + min (length ds) ?w\<rparr>)"
      "content (b\<lparr>vec := v, writerIndex := writerIndex b + min (length ds) ?w\<rparr>)
        = content b @ take ?w ds"
    using readFd_first_part [OF inv] by blast
  show ?thesis
  proof (cases "length ds \<le> ?w")
    case True
    moreover from True have "writerIndex b + length ds < SIZE_MOD"
      using v(3) vec_max_less by (simp add: buf_inv_def)
    ultimately show ?thesis
      using v by (simp add: readFd_def v(1) [simplified] Let_def sz_simps min_absorb1)
  next
    case False
    define b1 where "b1 = b\<lparr>vec := v, writerIndex := length v\<rparr>"
    have sum: "?w + extrabuf_size < SIZE_MOD" and n: "length ds \<le> ?w + extrabuf_size"
      using room cap vec_max_less inv
      by (auto simp: readFd_capacity_def writableBytes_eq split: if_splits)
    have "writerIndex b + ?w = length v"
      using inv v(2) by (simp add: writableBytes_eq buf_inv_def)
    then have b1: "buf_inv b1" "content b1 = content b @ take ?w ds"
      using v(3,4) False by (simp_all add: b1_def min_absorb2)
    have "used b1 + (length ds - ?w) \<le> vec_max"
      using n room v(2) inv by (auto simp: used_def b1_def buf_inv_def)
    from append_ptr_ok [OF b1(1) this, of 0 "drop ?w ds"]
    obtain b2 where b2: "append_ptr (drop ?w ds) 0 (length ds - ?w) b1 = Inr b2" "buf_inv b2"
        "content b2 = content b @ ds"
      using b1(2) by auto
    have "sz_sub (length ds) ?w = length ds - ?w" and "sz_add ?w extrabuf_size = ?w + extrabuf_size"
      using False sum n by (simp_all add: sz_simps)
    with False n v(1) b2 show ?thesis
      by (simp add: readFd_def Let_def b1_def)
  qed
qed

lemma content_fits_int_piece:
  assumes "buf_inv b" and "length (content b) < 2 ^ 31"
  shows "toStringPiece b = StringPiece_ptr_len (vec b) (readerIndex b) (int (length (content b)))"
    and "int_to_size (int (length (content b))) = length (content b)"
  using assms by (simp_all add: toStringPiece_def readableBytes_eq BeginRead_def int_to_size_nonneg)

lemma shrink_ok:
  assumes inv: "buf_inv b" and small: "length (content b) < 2 ^ 31"
    and room: "2 * length (content b) + reserve + kCheapPrepend \<le> vec_max"
  shows "\<exists>b'. shrink reserve b = Inr b' \<and> buf_inv b' \<and> content b' = content b"
proof -
  let ?n = "length (content b)"
  obtain o1 where o1: "Buffer_new = Inr o1" "buf_inv o1" "content o1 = []" "used o1 = kCheapPrepend"
    using Buffer_new_ok by blast
  have sz: "sz_add (readableBytes b) reserve = ?n + reserve"
    using inv room vec_max_less by (simp add: readableBytes_eq sz_simps)
  obtain o2 where o2: "ensureWritableBytes (?n + reserve) o1 = Inr o2" "buf_inv o2" "content o2 = []"
      "used o2 \<le> kCheapPrepend"
    using ensureWritableBytes_ok [OF o1(2), of "?n + reserve"] o1(3,4) room by auto
  have rd: "take ?n (drop (readerIndex b) (vec b)) = content b"
    by (simp only: length_content [OF inv]) (simp add: content_def)
  have fit: "readerIndex b + ?n \<le> length (vec b)"
    using inv by (auto simp: length_content buf_inv_def)
  have us: "used o2 + ?n \<le> vec_max"
    using o2(4) room by simp
  from append_ptr_ok [OF o2(2) us fit] rd o2(3) obtain o3 where
    "append_ptr (vec b) (readerIndex b) ?n o2 = Inr o3" "buf_inv o3" "content o3 = content b"
    by auto
  then show ?thesis
    by (simp add: shrink_def o1(1) sz o2(1) append_piece_def content_fits_int_piece [OF inv small]
        StringPiece_ptr_len_def sp_size_def buffer_swap_def)
qed

section \<open>Properties\<close>

text \<open>
  C12. A buffer is a byte FIFO. For every sequence of appends and retrievals in which a retrieval
  asks for no more than is readable, no assertion of the class fails, and the retrieved bytes
  followed by the bytes still readable are the bytes that were readable at the start followed by
  the appended ones: nothing is lost, duplicated or reordered, whatever moves and resizes the
  buffer makes inside.
\<close>

theorem buffer_fifo:
  assumes "buf_inv b" and "used b + length (pushed ops) \<le> vec_max"
    and "demand_ok (length (content b)) ops"
  shows "\<exists>out b'. fifo_run buffer_append retrieveAsString ops b = Inr (out, b') \<and> buf_inv b'
    \<and> out @ content b' = content b @ pushed ops"
  using assms by (rule bf.run_ok)

theorem buffer_fifo_witness:
  "\<exists>out b'. fifo_run buffer_append retrieveAsString [Push [1, 2, 3], Pop 2, Push [4], Pop 1]
      \<lparr>vec = replicate 10 0, readerIndex = 8, writerIndex = 8\<rparr> = Inr (out, b') \<and> buf_inv b'
    \<and> out @ content b' = [1, 2, 3, 4]"
  using buffer_fifo [of "\<lparr>vec = replicate 10 0, readerIndex = 8, writerIndex = 8\<rparr>"
      "[Push [1, 2, 3], Pop 2, Push [4], Pop 1]"]
  by (simp add: buf_inv_def used_def kCheapPrepend_def vec_max_def content_def)

text \<open>
  A 32-bit integer appended on a host of one byte order is laid out most significant byte
  first, behind what was readable, and \<^verbatim>\<open>readInt32\<close> on a host of any byte order gives the
  integer back and leaves the rest.
\<close>

theorem int32_wire_roundtrip:
  assumes "buf_inv b" and "used b + 4 \<le> vec_max" and "content b = []"
  shows "\<exists>b1 b2. appendInt32 sender x b = Inr b1 \<and> content b1 = be_bytes x
    \<and> readInt32 receiver b1 = Inr (x, b2) \<and> content b2 = []"
proof -
  obtain b1 where b1: "appendInt32 sender x b = Inr b1" "buf_inv b1" "content b1 = be_bytes x"
    using appendInt32_content [OF assms(1,2)] assms(3) by fastforce
  with readInt32_content [OF b1(2), of x "[]"] show ?thesis by auto
qed

theorem int32_wire_roundtrip_witness:
  "\<exists>b1 b2. appendInt32 LittleEndian 0x01020304
       \<lparr>vec = replicate 10 0, readerIndex = 8, writerIndex = 8\<rparr> = Inr b1
     \<and> content b1 = [1, 2, 3, 4] \<and> readInt32 BigEndian b1 = Inr (0x01020304, b2) \<and> content b2 = []"
proof -
  have "be_bytes (0x01020304 :: 32 word) = [1, 2, 3, 4]"
    by (simp add: be_bytes_def le_bytes_def upt_rec drop_bit_eq_div)
  then show ?thesis
    using int32_wire_roundtrip [of "\<lparr>vec = replicate 10 0, readerIndex = 8, writerIndex = 8\<rparr>"
        LittleEndian "0x01020304" BigEndian]
    by (simp add: buf_inv_def used_def kCheapPrepend_def vec_max_def content_def)
qed

text \<open>
  C32. \<^verbatim>\<open>readFd\<close> makes exactly the bytes the kernel delivered readable, behind what was
  readable, and returns their number, whether they fit the writable part of the buffer or spill
  into \<^verbatim>\<open>extrabuf\<close>, for every amount up to the capacity of the two vectors.
\<close>

theorem readFd_appends:
  assumes "buf_inv b" and "length ds \<le> readFd_capacity b"
    and "length (vec b) + extrabuf_size \<le> vec_max"
  shows "\<exists>b'. readFd (ReadvBytes ds) b = Inr (int (length ds), None, b') \<and> buf_inv b'
    \<and> content b' = content b @ ds"
  using assms by (rule readFd_ok)

theorem readFd_appends_witness:
  "\<exists>b'. readFd (ReadvBytes [7, 8, 9]) \<lparr>vec = replicate 10 0, readerIndex = 8, writerIndex = 9\<rparr>
      = Inr (3, None, b') \<and> buf_inv b' \<and> content b' = [0, 7, 8, 9]"
  using readFd_appends [of "\<lparr>vec = replicate 10 0, readerIndex = 8, writerIndex = 9\<rparr>" "[7, 8, 9]"]
  by (simp add: buf_inv_def kCheapPrepend_def vec_max_def content_def readFd_capacity_def
      readFd_iovcnt_def extrabuf_size_def writableBytes_def sz_sub_def SIZE_MOD_def)

text \<open>
  \<^verbatim>\<open>findCRLF\<close> returns the first position of the readable part at which a carriage return
  is followed by a line feed, and null exactly when there is none.
\<close>

theorem findCRLF_first:
  assumes "buf_inv b"
  shows "(case findCRLF b of
            None \<Rightarrow> (\<forall>i. \<not> crlf_at b i)
          | Some i \<Rightarrow> crlf_at b i \<and> (\<forall>j < i. \<not> crlf_at b j))"
proof -
  let ?k = "cxx_search (vec b) (BeginRead b) (BeginWrite b) kCRLF"
  have k: "BeginRead b \<le> ?k" "?k \<le> BeginWrite b"
    using cxx_search_bounds [of "BeginRead b" "BeginWrite b" "vec b" kCRLF] assms
    by (simp_all add: BeginRead_def BeginWrite_def buf_inv_def)
  have least: "\<not> crlf_at b j" if "j < ?k" for j
    using cxx_search_least [of "BeginRead b" j "vec b" "BeginWrite b" kCRLF] that
    by (auto simp: crlf_at_iff [OF assms])
  have "crlf_at b ?k" if "?k \<noteq> BeginWrite b"
    using cxx_search_match [of "vec b" "BeginRead b" "BeginWrite b" kCRLF] that k
    by (simp add: crlf_at_iff [OF assms])
  moreover have "\<not> crlf_at b i" if "?k = BeginWrite b" for i
    using least [of i] that by (cases "i < ?k") (auto simp: crlf_at_def)
  ultimately show ?thesis
    using least by (simp add: findCRLF_def Let_def)
qed

theorem findCRLF_first_witness:
  "crlf_at \<lparr>vec = replicate 8 0 @ [65, 13, 10, 66], readerIndex = 8, writerIndex = 12\<rparr> 9
   \<and> findCRLF \<lparr>vec = replicate 8 0 @ [65, 13, 10, 66], readerIndex = 8, writerIndex = 12\<rparr> \<noteq> None"
proof -
  let ?b = "\<lparr>vec = replicate 8 (0 :: byte) @ [65, 13, 10, 66], readerIndex = 8, writerIndex = 12\<rparr>"
  have inv: "buf_inv ?b"
    by (simp add: buf_inv_def kCheapPrepend_def vec_max_def)
  have at: "crlf_at ?b 9"
    by (simp add: crlf_at_def BeginRead_def BeginWrite_def nth_append)
  then have "findCRLF ?b \<noteq> None"
    using findCRLF_first [OF inv] by (auto split: option.splits)
  with at show ?thesis by simp
qed

text \<open>
  \<^verbatim>\<open>findEOL(start)\<close> passes the number of readable bytes of the whole buffer to
  \<^verbatim>\<open>memchr\<close>, not the number of bytes behind \<^verbatim>\<open>start\<close>: on a buffer filled to the end of
  its vector, with no line feed behind a \<^verbatim>\<open>start\<close> inside the readable part, it reads past
  the end of the vector, although both assertions of the function hold.
\<close>

theorem findEOL_from_overrun:
  assumes "buf_inv b" and "writerIndex b = length (vec b)"
    and "BeginRead b < start" and "start \<le> BeginWrite b"
    and "\<forall>j. start \<le> j \<and> j < BeginWrite b \<longrightarrow> vec b ! j \<noteq> kEOL"
  shows "findEOL_from start b = Inl OutOfBounds"
proof -
  have "length (vec b) < start + readableBytes b"
    using assms by (auto simp: buf_sizes BeginRead_def BeginWrite_def buf_inv_def)
  then have "memchr (vec b) start kEOL (readableBytes b) = Inl OutOfBounds"
    using assms by (intro memchr_overrun) (auto simp: BeginWrite_def)
  with assms(3,4) show ?thesis by (simp add: findEOL_from_def)
qed

theorem findEOL_from_overrun_witness:
  "findEOL_from 9 \<lparr>vec = replicate 10 65, readerIndex = 8, writerIndex = 10\<rparr> = Inl OutOfBounds"
  by (rule findEOL_from_overrun)
     (simp_all add: buf_inv_def kCheapPrepend_def vec_max_def BeginRead_def BeginWrite_def kEOL_def)

text \<open>
  \<^verbatim>\<open>shrink\<close> replaces the vector and keeps the readable bytes, for every buffer with
  fewer than \<open>2 ^ 31\<close> readable bytes (the length goes through an \<^verbatim>\<open>int\<close>).
\<close>

theorem shrink_keeps_content:
  assumes "buf_inv b" and "length (content b) < 2 ^ 31"
    and "2 * length (content b) + reserve + kCheapPrepend \<le> vec_max"
  shows "\<exists>b'. shrink reserve b = Inr b' \<and> buf_inv b' \<and> content b' = content b"
  using assms by (rule shrink_ok)

theorem shrink_keeps_content_witness:
  "\<exists>b'. shrink 16 \<lparr>vec = replicate 2000 65, readerIndex = 8, writerIndex = 11\<rparr> = Inr b'
     \<and> buf_inv b' \<and> content b' = [65, 65, 65]"
  using shrink_keeps_content [of "\<lparr>vec = replicate 2000 65, readerIndex = 8, writerIndex = 11\<rparr>" 16]
  by (simp add: buf_inv_def kCheapPrepend_def vec_max_def content_def numeral_3_eq_3)

end
