(* ===== verification/Channel.thy ===== *)
theory Channel
  imports Cobra_Prelude
begin

text \<open>
  \<^verbatim>\<open>Channel\<close> of \<^verbatim>\<open>cobra/channel.h\<close> and \<^verbatim>\<open>cobra/channel.cpp\<close>: one descriptor, the events
  wanted for it, the events the poller reported, and four callbacks.

  Channels are shared by address between their owner, the worker and the poller, so they live in
  a store: \<open>heap\<close> maps an address to the channel there, and a missing address is a dangling
  pointer. Every component whose operations reach channels extends the record \<open>chan_store\<close>. A
  callback is a value of a type \<open>'cb\<close>; calling it is the argument \<open>run\<close> of the operation,
  a state transformer on the whole world. \<^verbatim>\<open>Channel::update()\<close> and \<^verbatim>\<open>Channel::remove()\<close> call
  the worker, which is the argument \<open>upd\<close> or \<open>rmv\<close>.
\<close>

unbundle bit_operations_syntax

section \<open>Events and state\<close>

type_synonym mask = "32 word"

definition POLLIN :: mask where "POLLIN = 0x001"
definition POLLPRI :: mask where "POLLPRI = 0x002"
definition POLLOUT :: mask where "POLLOUT = 0x004"
definition POLLERR :: mask where "POLLERR = 0x008"
definition POLLHUP :: mask where "POLLHUP = 0x010"
definition POLLNVAL :: mask where "POLLNVAL = 0x020"
definition POLLRDHUP :: mask where "POLLRDHUP = 0x2000"

definition kNoneEvent :: mask where
  "kNoneEvent = 0"

definition kReadEvent :: mask where
  "kReadEvent = POLLIN OR POLLPRI"

definition kWriteEvent :: mask where
  "kWriteEvent = POLLOUT"

lemmas poll_defs = POLLIN_def POLLPRI_def POLLOUT_def POLLERR_def POLLHUP_def POLLNVAL_def
  POLLRDHUP_def kNoneEvent_def kReadEvent_def kWriteEvent_def

record 'cb channel =
  ch_loop :: nat
  ch_fd :: int
  events :: mask
  revents :: mask
  ch_index :: int
  logHup :: bool
  tie :: "nat option"
  tied :: bool
  ch_eventHandling :: bool
  readCb :: "'cb option"
  writeCb :: "'cb option"
  closeCb :: "'cb option"
  errorCb :: "'cb option"

definition Channel_new :: "nat \<Rightarrow> int \<Rightarrow> 'cb channel" where
  "Channel_new loop fd =
     \<lparr>ch_loop = loop, ch_fd = fd, events = 0, revents = 0, ch_index = -1, logHup = True,
      tie = None, tied = False, ch_eventHandling = False,
      readCb = None, writeCb = None, closeCb = None, errorCb = None\<rparr>"

definition isNoneEvent :: "'cb channel \<Rightarrow> bool" where
  "isNoneEvent ch \<longleftrightarrow> events ch = kNoneEvent"

definition isWriting :: "'cb channel \<Rightarrow> bool" where
  "isWriting ch \<longleftrightarrow> events ch AND kWriteEvent \<noteq> 0"

section \<open>The store\<close>

record 'cb chan_store =
  heap :: "nat \<rightharpoonup> 'cb channel"

definition get_ch :: "nat \<Rightarrow> ('cb, 'z) chan_store_scheme \<Rightarrow> 'cb channel res" where
  "get_ch c s = (case heap s c of None \<Rightarrow> Inl NullDeref | Some ch \<Rightarrow> Inr ch)"

definition mod_ch ::
  "nat \<Rightarrow> ('cb channel \<Rightarrow> 'cb channel) \<Rightarrow> ('cb, 'z) chan_store_scheme
     \<Rightarrow> ('cb, 'z) chan_store_scheme res" where
  "mod_ch c f s = bindE (get_ch c s) (\<lambda>ch. Inr (s\<lparr>heap := (heap s)(c \<mapsto> f ch)\<rparr>))"

section \<open>Operations\<close>

definition SetReadCb :: "nat \<Rightarrow> 'cb \<Rightarrow> ('cb, 'z) chan_store_scheme \<Rightarrow> ('cb, 'z) chan_store_scheme res" where
  "SetReadCb c cb s = mod_ch c (\<lambda>ch. ch\<lparr>readCb := Some cb\<rparr>) s"

definition SetWriteCb :: "nat \<Rightarrow> 'cb \<Rightarrow> ('cb, 'z) chan_store_scheme \<Rightarrow> ('cb, 'z) chan_store_scheme res" where
  "SetWriteCb c cb s = mod_ch c (\<lambda>ch. ch\<lparr>writeCb := Some cb\<rparr>) s"

definition SetCloseCb :: "nat \<Rightarrow> 'cb \<Rightarrow> ('cb, 'z) chan_store_scheme \<Rightarrow> ('cb, 'z) chan_store_scheme res" where
  "SetCloseCb c cb s = mod_ch c (\<lambda>ch. ch\<lparr>closeCb := Some cb\<rparr>) s"

definition SetErrorCb :: "nat \<Rightarrow> 'cb \<Rightarrow> ('cb, 'z) chan_store_scheme \<Rightarrow> ('cb, 'z) chan_store_scheme res" where
  "SetErrorCb c cb s = mod_ch c (\<lambda>ch. ch\<lparr>errorCb := Some cb\<rparr>) s"

definition Channel_tie :: "nat \<Rightarrow> nat \<Rightarrow> ('cb, 'z) chan_store_scheme \<Rightarrow> ('cb, 'z) chan_store_scheme res" where
  "Channel_tie c obj s = mod_ch c (\<lambda>ch. ch\<lparr>tie := Some obj, tied := True\<rparr>) s"

definition set_revents :: "nat \<Rightarrow> mask \<Rightarrow> ('cb, 'z) chan_store_scheme \<Rightarrow> ('cb, 'z) chan_store_scheme res" where
  "set_revents c revt s = mod_ch c (\<lambda>ch. ch\<lparr>revents := revt\<rparr>) s"

definition set_index :: "nat \<Rightarrow> int \<Rightarrow> ('cb, 'z) chan_store_scheme \<Rightarrow> ('cb, 'z) chan_store_scheme res" where
  "set_index c idx s = mod_ch c (\<lambda>ch. ch\<lparr>ch_index := idx\<rparr>) s"

definition doNotLogHup :: "nat \<Rightarrow> ('cb, 'z) chan_store_scheme \<Rightarrow> ('cb, 'z) chan_store_scheme res" where
  "doNotLogHup c s = mod_ch c (\<lambda>ch. ch\<lparr>logHup := False\<rparr>) s"

definition enableReading where
  "enableReading upd c s = bindE (mod_ch c (\<lambda>ch. ch\<lparr>events := events ch OR kReadEvent\<rparr>) s) (upd c)"

definition enableWriting where
  "enableWriting upd c s = bindE (mod_ch c (\<lambda>ch. ch\<lparr>events := events ch OR kWriteEvent\<rparr>) s) (upd c)"

definition disableWriting where
  "disableWriting upd c s =
     bindE (mod_ch c (\<lambda>ch. ch\<lparr>events := events ch AND NOT kWriteEvent\<rparr>) s) (upd c)"

definition disableAll where
  "disableAll upd c s = bindE (mod_ch c (\<lambda>ch. ch\<lparr>events := kNoneEvent\<rparr>) s) (upd c)"

definition Channel_remove where
  "Channel_remove rmv c s = bindE (get_ch c s) (\<lambda>ch. cassert (isNoneEvent ch) (rmv c s))"

definition Channel_dtor :: "nat \<Rightarrow> ('cb, 'z) chan_store_scheme \<Rightarrow> ('cb, 'z) chan_store_scheme res" where
  "Channel_dtor c s =
     bindE (get_ch c s) (\<lambda>ch. cassert (\<not> ch_eventHandling ch) (Inr (s\<lparr>heap := (heap s)(c := None)\<rparr>)))"

section \<open>Dispatching the reported events\<close>

text \<open>One guarded call: the condition and the callback are read from the channel at this moment.\<close>

definition fire ::
  "('cb \<Rightarrow> int option \<Rightarrow> ('cb, 'z) chan_store_scheme \<Rightarrow> ('cb, 'z) chan_store_scheme res) \<Rightarrow> nat
     \<Rightarrow> (mask \<Rightarrow> bool) \<Rightarrow> ('cb channel \<Rightarrow> 'cb option) \<Rightarrow> int option
     \<Rightarrow> ('cb, 'z) chan_store_scheme \<Rightarrow> ('cb, 'z) chan_store_scheme res" where
  "fire run c cond sel t s =
     bindE (get_ch c s) (\<lambda>ch.
       if cond (revents ch) then (case sel ch of None \<Rightarrow> Inr s | Some cb \<Rightarrow> run cb t s) else Inr s)"

definition want_close :: "mask \<Rightarrow> bool" where
  "want_close r \<longleftrightarrow> r AND POLLHUP \<noteq> 0 \<and> \<not> r AND POLLIN \<noteq> 0"

definition want_error :: "mask \<Rightarrow> bool" where
  "want_error r \<longleftrightarrow> r AND (POLLERR OR POLLNVAL) \<noteq> 0"

definition want_read :: "mask \<Rightarrow> bool" where
  "want_read r \<longleftrightarrow> r AND (POLLIN OR POLLPRI OR POLLRDHUP) \<noteq> 0"

definition want_write :: "mask \<Rightarrow> bool" where
  "want_write r \<longleftrightarrow> r AND POLLOUT \<noteq> 0"

definition handleEventWithGuard ::
  "('cb \<Rightarrow> int option \<Rightarrow> ('cb, 'z) chan_store_scheme \<Rightarrow> ('cb, 'z) chan_store_scheme res) \<Rightarrow> nat
     \<Rightarrow> int \<Rightarrow> ('cb, 'z) chan_store_scheme \<Rightarrow> ('cb, 'z) chan_store_scheme res" where
  "handleEventWithGuard run c receiveTime s =
     bindE (mod_ch c (\<lambda>ch. ch\<lparr>ch_eventHandling := True\<rparr>) s) (\<lambda>s.
     bindE (fire run c want_close closeCb None s) (\<lambda>s.
     bindE (fire run c want_error errorCb None s) (\<lambda>s.
     bindE (fire run c want_read readCb (Some receiveTime) s) (\<lambda>s.
     bindE (fire run c want_write writeCb None s) (\<lambda>s.
     mod_ch c (\<lambda>ch. ch\<lparr>ch_eventHandling := False\<rparr>) s)))))"

text \<open>\<open>alive\<close> tells which tied objects still have an owner: \<^verbatim>\<open>weak_ptr::lock\<close> succeeds on them.\<close>

definition handleEvent ::
  "(nat \<Rightarrow> bool) \<Rightarrow> ('cb \<Rightarrow> int option \<Rightarrow> ('cb, 'z) chan_store_scheme \<Rightarrow> ('cb, 'z) chan_store_scheme res)
     \<Rightarrow> nat \<Rightarrow> int \<Rightarrow> ('cb, 'z) chan_store_scheme \<Rightarrow> ('cb, 'z) chan_store_scheme res" where
  "handleEvent alive run c receiveTime s =
     bindE (get_ch c s) (\<lambda>ch.
       if tied ch
       then (case tie ch of
               None \<Rightarrow> Inr s
             | Some obj \<Rightarrow> if alive obj then handleEventWithGuard run c receiveTime s else Inr s)
       else handleEventWithGuard run c receiveTime s)"

section \<open>Lemmas\<close>

lemma get_ch_Some [simp]: "heap s c = Some ch \<Longrightarrow> get_ch c s = Inr ch"
  by (simp add: get_ch_def)

lemma get_ch_eq_Inr: "get_ch c s = Inr ch \<longleftrightarrow> heap s c = Some ch"
  by (simp add: get_ch_def split: option.splits)

lemma mod_ch_Some [simp]:
  "heap s c = Some ch \<Longrightarrow> mod_ch c f s = Inr (s\<lparr>heap := (heap s)(c \<mapsto> f ch)\<rparr>)"
  by (simp add: mod_ch_def)

lemma mod_ch_eq_Inr:
  "mod_ch c f s = Inr s' \<longleftrightarrow> (\<exists>ch. heap s c = Some ch \<and> s' = s\<lparr>heap := (heap s)(c \<mapsto> f ch)\<rparr>)"
  by (auto simp: mod_ch_def bindE_eq_Inr get_ch_eq_Inr)

lemmas store_simps = get_ch_eq_Inr mod_ch_eq_Inr bindE_eq_Inr cassert_eq_Inr

lemma read_write_masks: "kReadEvent = 3" "kWriteEvent = 4" "kNoneEvent = 0"
  by (simp_all add: poll_defs)

section \<open>The dispatched callbacks\<close>

definition pick :: "bool \<Rightarrow> 'cb option \<Rightarrow> int option \<Rightarrow> ('cb \<times> int option) list" where
  "pick b cb t = (if b then (case cb of None \<Rightarrow> [] | Some f \<Rightarrow> [(f, t)]) else [])"

text \<open>
  The specification, by the numbers of the bits that poll(2) gives the events: 0 input, 1 urgent input, 2 room for output, 3 error, 4 hang-up, 5 invalid descriptor, 13 the
  peer has closed its writing end.
\<close>

definition dispatched :: "'cb channel \<Rightarrow> int \<Rightarrow> ('cb \<times> int option) list" where
  "dispatched ch t =
     (let r = revents ch
      in pick (bit r 4 \<and> \<not> bit r 0) (closeCb ch) None @ pick (bit r 3 \<or> bit r 5) (errorCb ch) None
         @ pick (bit r 0 \<or> bit r 1 \<or> bit r 13) (readCb ch) (Some t) @ pick (bit r 2) (writeCb ch) None)"

lemma mask_bits:
  fixes r :: mask
  shows "r AND 0x001 \<noteq> 0 \<longleftrightarrow> bit r 0" "r AND 0x002 \<noteq> 0 \<longleftrightarrow> bit r 1" "r AND 0x004 \<noteq> 0 \<longleftrightarrow> bit r 2" "r AND 0x008 \<noteq> 0 \<longleftrightarrow> bit r 3"
    "r AND 0x010 \<noteq> 0 \<longleftrightarrow> bit r 4" "r AND 0x020 \<noteq> 0 \<longleftrightarrow> bit r 5" "r AND 0x2000 \<noteq> 0 \<longleftrightarrow> bit r 13"
  using and_exp_eq_0_iff_not_bit [of r 0] and_exp_eq_0_iff_not_bit [of r 1] and_exp_eq_0_iff_not_bit [of r 2] and_exp_eq_0_iff_not_bit [of r 3]
    and_exp_eq_0_iff_not_bit [of r 4] and_exp_eq_0_iff_not_bit [of r 5] and_exp_eq_0_iff_not_bit [of r 13] by simp_all

lemma and_or_nonzero: "(r :: mask) AND (a OR b) \<noteq> 0 \<longleftrightarrow> r AND a \<noteq> 0 \<or> r AND b \<noteq> 0"
  by (simp add: bit.conj_disj_distrib or_eq_0_iff)

lemma want_bits:
  "want_close r \<longleftrightarrow> bit r 4 \<and> \<not> bit r 0" "want_error r \<longleftrightarrow> bit r 3 \<or> bit r 5"
  "want_read r \<longleftrightarrow> bit r 0 \<or> bit r 1 \<or> bit r 13" "want_write r \<longleftrightarrow> bit r 2"
  unfolding want_close_def want_error_def want_read_def want_write_def POLLIN_def POLLPRI_def POLLOUT_def POLLERR_def POLLHUP_def POLLNVAL_def POLLRDHUP_def
    and_or_nonzero mask_bits by auto

lemma dispatched_wants:
  "dispatched ch t =
     pick (want_close (revents ch)) (closeCb ch) None @ pick (want_error (revents ch)) (errorCb ch) None
     @ pick (want_read (revents ch)) (readCb ch) (Some t) @ pick (want_write (revents ch)) (writeCb ch) None"
  by (simp add: dispatched_def want_bits Let_def)

definition dispatch_view :: "'cb channel \<Rightarrow> mask \<times> 'cb option \<times> 'cb option \<times> 'cb option \<times> 'cb option" where
  "dispatch_view ch = (revents ch, closeCb ch, errorCb ch, readCb ch, writeCb ch)"

text \<open>No callback changes what the dispatch of this channel still has to read.\<close>

definition keeps_view where
  "keeps_view run c \<longleftrightarrow> (\<forall>cb t s s' ch. heap s c = Some ch \<longrightarrow> run cb t s = Inr s' \<longrightarrow>
     (\<exists>ch'. heap s' c = Some ch' \<and> dispatch_view ch' = dispatch_view ch))"

lemma fire_pick:
  assumes "heap s c = Some ch"
  shows "fire run c cond sel t s = foldE (\<lambda>(cb, t). run cb t) (pick (cond (revents ch)) (sel ch) t) s"
  using assms by (cases "sel ch") (auto simp: fire_def pick_def bindE_def split: sum.splits)

lemma foldE_keeps_view:
  assumes "keeps_view run c" and "heap s c = Some ch"
    and "foldE (\<lambda>(cb, t). run cb t) xs s = Inr s'"
  shows "\<exists>ch'. heap s' c = Some ch' \<and> dispatch_view ch' = dispatch_view ch"
  using assms(2,3)
proof (induction xs arbitrary: s ch)
  case Nil
  then show ?case by simp
next
  case (Cons x xs)
  obtain s1 where s1: "run (fst x) (snd x) s = Inr s1" "foldE (\<lambda>(cb, t). run cb t) xs s1 = Inr s'"
    using Cons.prems(2) by (auto simp: bindE_eq_Inr split: prod.splits)
  then obtain ch1 where "heap s1 c = Some ch1" "dispatch_view ch1 = dispatch_view ch"
    using assms(1) Cons.prems(1) unfolding keeps_view_def by blast
  with Cons.IH [OF _ s1(2)] show ?case by metis
qed

lemma foldE_fire:
  assumes "keeps_view run c" and "heap s c = Some ch"
    and "\<And>ch'. dispatch_view ch' = dispatch_view ch \<Longrightarrow> revents ch' = revents ch \<and> sel ch' = sel ch"
  shows "bindE (foldE (\<lambda>(cb, t). run cb t) xs s) (fire run c cond sel t)
       = foldE (\<lambda>(cb, t). run cb t) (xs @ pick (cond (revents ch)) (sel ch) t) s"
proof (cases "foldE (\<lambda>(cb, t). run cb t) xs s")
  case (Inl e)
  then show ?thesis by (simp add: foldE_append)
next
  case (Inr s')
  then obtain ch' where "heap s' c = Some ch'" "dispatch_view ch' = dispatch_view ch"
    using foldE_keeps_view [OF assms(1,2)] by blast
  with assms(3) [of ch'] Inr show ?thesis by (simp add: foldE_append fire_pick)
qed

lemma handleEventWithGuard_dispatch:
  assumes keep: "keeps_view run c" and ch: "heap s c = Some ch"
  shows "handleEventWithGuard run c t s =
    bindE (foldE (\<lambda>(cb, t). run cb t) (dispatched ch t)
            (s\<lparr>heap := (heap s)(c \<mapsto> ch\<lparr>ch_eventHandling := True\<rparr>)\<rparr>))
      (mod_ch c (\<lambda>ch. ch\<lparr>ch_eventHandling := False\<rparr>))"
proof -
  let ?ch = "ch\<lparr>ch_eventHandling := True\<rparr>"
  let ?s = "s\<lparr>heap := (heap s)(c \<mapsto> ?ch)\<rparr>"
  have h: "heap ?s c = Some ?ch" by simp
  let ?f = "foldE (\<lambda>(cb, t). run cb t)"
  have "fire run c want_close closeCb None ?s = ?f (pick (want_close (revents ?ch)) (closeCb ?ch) None) ?s"
    by (rule fire_pick [OF h])
  note steps = this
    foldE_fire [OF keep h, of errorCb _ want_error None, simplified dispatch_view_def, simplified]
    foldE_fire [OF keep h, of readCb _ want_read "Some t", simplified dispatch_view_def, simplified]
    foldE_fire [OF keep h, of writeCb _ want_write None, simplified dispatch_view_def, simplified]
  have "bindE (fire run c want_close closeCb None ?s) (\<lambda>s.
     bindE (fire run c want_error errorCb None s) (\<lambda>s.
     bindE (fire run c want_read readCb (Some t) s) (fire run c want_write writeCb None)))
     = ?f (dispatched ch t) ?s"
    by (simp add: steps bindE_assoc [symmetric] dispatched_wants)
  then show ?thesis
    by (simp add: handleEventWithGuard_def ch bindE_assoc [symmetric])
qed


section \<open>Properties\<close>

text \<open>
  C31. \<^verbatim>\<open>handleEvent\<close> runs, for the reported events, exactly the callbacks it should, in the order
  close, error, read, write: close for a hang-up (bit 4 of the events) without input (bit 0), error for an error (bit 3) or an invalid
  descriptor (bit 5), read (with the time of the poll) for input, urgent input (bit 1) or a peer that closed (bit 13), write
  for output space (bit 2); none when the channel is tied to an owner that is gone; and the flag of the channel is set before the first and reset after the last. This is for callbacks
  that leave the channel's reported events and callbacks alone, as those of \<^verbatim>\<open>TcpConnection\<close> do.
\<close>

theorem channel_dispatch:
  assumes "keeps_view run c" and "heap s c = Some ch"
  shows "handleEvent alive run c t s =
    (if tied ch \<and> (case tie ch of None \<Rightarrow> True | Some obj \<Rightarrow> \<not> alive obj) then Inr s
     else bindE (foldE (\<lambda>(cb, t). run cb t) (dispatched ch t)
              (s\<lparr>heap := (heap s)(c \<mapsto> ch\<lparr>ch_eventHandling := True\<rparr>)\<rparr>))
            (mod_ch c (\<lambda>ch. ch\<lparr>ch_eventHandling := False\<rparr>)))"
  using handleEventWithGuard_dispatch [OF assms] assms(2)
  by (simp add: handleEvent_def split: option.splits)

definition log_cb :: "nat \<Rightarrow> int option \<Rightarrow> (nat, nat list) chan_store_scheme \<Rightarrow> (nat, nat list) chan_store_scheme res" where
  "log_cb cb t s = Inr (chan_store.extend \<lparr>heap = heap s\<rparr> (chan_store.more s @ [cb]))"

definition demo_chan :: "nat channel" where
  "demo_chan = (Channel_new 1 5)\<lparr>revents := POLLIN OR POLLOUT, readCb := Some 1, writeCb := Some 2, closeCb := Some 3\<rparr>"

theorem channel_dispatch_witness:
  "\<exists>s'. handleEvent (\<lambda>_. True) log_cb 0 9 (chan_store.extend \<lparr>heap = [0 \<mapsto> demo_chan]\<rparr> []) = Inr s'
    \<and> chan_store.more s' = [1, 2]"
proof -
  have "keeps_view log_cb 0" by (simp add: keeps_view_def log_cb_def chan_store.defs)
  from channel_dispatch [OF this, of "chan_store.extend \<lparr>heap = [0 \<mapsto> demo_chan]\<rparr> []" demo_chan "\<lambda>_. True" 9]
  show ?thesis
    by (simp add: demo_chan_def Channel_new_def dispatched_wants pick_def want_close_def want_error_def want_read_def
        want_write_def poll_defs log_cb_def chan_store.defs)
qed

end
