(* ===== verification/Poller_Interface.thy ===== *)
theory Poller_Interface
  imports Channel
begin

text \<open>
  The contract between a channel and the poller of its worker (\<^verbatim>\<open>cobra/poller.h\<close>). A poller
  has an invariant and, for every descriptor, an interest: the events the kernel is asked to
  report. \<open>UpdateChannel\<close> makes the interest of the channel's descriptor the events the channel
  wants, \<open>removeChannel\<close> ends it, and both leave every other descriptor and all of every channel
  but its index alone. The preconditions of the two calls belong to the contract: they are where
  the two pollers differ.
\<close>

unbundle bit_operations_syntax

text \<open>The channels of two states are the same, but for the index the poller keeps in them.\<close>

definition same_channels :: "('cb, 'z) chan_store_scheme \<Rightarrow> ('cb, 'z) chan_store_scheme \<Rightarrow> bool" where
  "same_channels s s' \<longleftrightarrow>
     (\<forall>d. map_option (\<lambda>ch. ch\<lparr>ch_index := 0\<rparr>) (heap s' d) = map_option (\<lambda>ch. ch\<lparr>ch_index := 0\<rparr>) (heap s d))"

lemma same_channelsD:
  assumes "same_channels s s'" and "heap s d = Some ch"
  obtains i where "heap s' d = Some (ch\<lparr>ch_index := i\<rparr>)"
proof -
  from assms obtain ch' where ch': "heap s' d = Some ch'" "ch'\<lparr>ch_index := 0\<rparr> = ch\<lparr>ch_index := 0\<rparr>"
    unfolding same_channels_def by (metis map_option_eq_Some)
  then have "ch' = ch\<lparr>ch_index := ch_index ch'\<rparr>"
    by (cases ch; cases ch') simp
  with ch'(1) that show ?thesis by metis
qed

lemma same_channels_refl [simp]: "same_channels s s"
  by (simp add: same_channels_def)

lemma same_channels_trans: "same_channels s t \<Longrightarrow> same_channels t u \<Longrightarrow> same_channels s u"
  by (simp add: same_channels_def)

lemma same_channels_index:
  "heap s c = Some ch \<Longrightarrow> heap s' = (heap s)(c \<mapsto> ch\<lparr>ch_index := i\<rparr>) \<Longrightarrow> same_channels s s'"
  by (simp add: same_channels_def)

text \<open>The events a channel can want are those of \<^verbatim>\<open>kReadEvent\<close> and \<^verbatim>\<open>kWriteEvent\<close>.\<close>

definition all_events :: mask where
  "all_events = kReadEvent OR kWriteEvent"

definition wanted :: "mask \<Rightarrow> bool" where
  "wanted e \<longleftrightarrow> e AND all_events = e"

lemma wanted_ops [simp]:
  "wanted kNoneEvent" "wanted e \<Longrightarrow> wanted (e OR kReadEvent)" "wanted e \<Longrightarrow> wanted (e OR kWriteEvent)"
  "wanted e \<Longrightarrow> wanted (e AND NOT kWriteEvent)"
  unfolding wanted_def all_events_def kNoneEvent_def by (simp_all add: bit_eq_iff bit_simps) blast+

lemma wanted_short: "wanted e \<Longrightarrow> ucast (ucast e :: 16 word) = e"
proof -
  assume "wanted e"
  then have "e = e AND 7" by (simp add: wanted_def all_events_def poll_defs)
  also have "ucast (ucast (e AND 7) :: 16 word) = e AND 7"
    by (rule bit_eqI) (auto simp: bit_simps numeral_eq_Suc less_Suc_eq)
  finally show ?thesis using \<open>e = e AND 7\<close> by simp
qed

locale poller_contract =
  fixes inv :: "('cb, 'z) chan_store_scheme \<Rightarrow> bool"
    and interest :: "('cb, 'z) chan_store_scheme \<Rightarrow> int \<Rightarrow> mask"
    and upd :: "nat \<Rightarrow> ('cb, 'z) chan_store_scheme \<Rightarrow> ('cb, 'z) chan_store_scheme res"
    and rmv :: "nat \<Rightarrow> ('cb, 'z) chan_store_scheme \<Rightarrow> ('cb, 'z) chan_store_scheme res"
    and upd_pre :: "('cb, 'z) chan_store_scheme \<Rightarrow> nat \<Rightarrow> bool"
    and rmv_pre :: "('cb, 'z) chan_store_scheme \<Rightarrow> nat \<Rightarrow> bool"
  assumes upd_ok: "inv s \<Longrightarrow> heap s c = Some ch \<Longrightarrow> wanted (events ch) \<Longrightarrow> upd_pre s c \<Longrightarrow>
      \<exists>s'. upd c s = Inr s' \<and> inv s' \<and> interest s' = (interest s)(ch_fd ch := events ch)
        \<and> same_channels s s'"
    and rmv_ok: "inv s \<Longrightarrow> heap s c = Some ch \<Longrightarrow> isNoneEvent ch \<Longrightarrow> rmv_pre s c \<Longrightarrow>
      \<exists>s'. rmv c s = Inr s' \<and> inv s' \<and> interest s' = (interest s)(ch_fd ch := 0)
        \<and> same_channels s s'"
    and events_frame: "inv s \<Longrightarrow> heap s c = Some ch \<Longrightarrow> upd_pre (s\<lparr>heap := (heap s)(c \<mapsto> ch\<lparr>events := e\<rparr>)\<rparr>) c \<Longrightarrow>
      inv (s\<lparr>heap := (heap s)(c \<mapsto> ch\<lparr>events := e\<rparr>)\<rparr>)
      \<and> interest (s\<lparr>heap := (heap s)(c \<mapsto> ch\<lparr>events := e\<rparr>)\<rparr>) = interest s"
begin

lemma set_events:
  assumes "inv s" and "heap s c = Some ch" and "wanted e"
    and "upd_pre (s\<lparr>heap := (heap s)(c \<mapsto> ch\<lparr>events := e\<rparr>)\<rparr>) c"
  shows "\<exists>s' i. upd c (s\<lparr>heap := (heap s)(c \<mapsto> ch\<lparr>events := e\<rparr>)\<rparr>) = Inr s' \<and> inv s'
    \<and> interest s' = (interest s)(ch_fd ch := e)
    \<and> heap s' c = Some (ch\<lparr>events := e, ch_index := i\<rparr>)"
proof -
  let ?s = "s\<lparr>heap := (heap s)(c \<mapsto> ch\<lparr>events := e\<rparr>)\<rparr>"
  have h: "heap ?s c = Some (ch\<lparr>events := e\<rparr>)" by simp
  obtain s' where s': "upd c ?s = Inr s'" "inv s'" "interest s' = (interest ?s)(ch_fd ch := e)"
      "same_channels ?s s'"
    using upd_ok [OF _ h] events_frame [OF assms(1,2,4)] assms(3,4) by auto
  moreover obtain i where "heap s' c = Some (ch\<lparr>events := e, ch_index := i\<rparr>)"
    using same_channelsD [OF s'(4) h] by auto
  ultimately show ?thesis using events_frame [OF assms(1,2,4)] by auto
qed

lemma enableReading_ok:
  assumes "inv s" and "heap s c = Some ch" and "wanted (events ch)"
    and "upd_pre (s\<lparr>heap := (heap s)(c \<mapsto> ch\<lparr>events := events ch OR kReadEvent\<rparr>)\<rparr>) c"
  shows "\<exists>s' i. enableReading upd c s = Inr s' \<and> inv s'
    \<and> interest s' = (interest s)(ch_fd ch := events ch OR kReadEvent)
    \<and> heap s' c = Some (ch\<lparr>events := events ch OR kReadEvent, ch_index := i\<rparr>)"
  using set_events [OF assms(1,2) _ assms(4)] assms by (simp add: enableReading_def)

lemma enableWriting_ok:
  assumes "inv s" and "heap s c = Some ch" and "wanted (events ch)"
    and "upd_pre (s\<lparr>heap := (heap s)(c \<mapsto> ch\<lparr>events := events ch OR kWriteEvent\<rparr>)\<rparr>) c"
  shows "\<exists>s' i. enableWriting upd c s = Inr s' \<and> inv s'
    \<and> interest s' = (interest s)(ch_fd ch := events ch OR kWriteEvent)
    \<and> heap s' c = Some (ch\<lparr>events := events ch OR kWriteEvent, ch_index := i\<rparr>)"
  using set_events [OF assms(1,2) _ assms(4)] assms by (simp add: enableWriting_def)

lemma disableWriting_ok:
  assumes "inv s" and "heap s c = Some ch" and "wanted (events ch)"
    and "upd_pre (s\<lparr>heap := (heap s)(c \<mapsto> ch\<lparr>events := events ch AND NOT kWriteEvent\<rparr>)\<rparr>) c"
  shows "\<exists>s' i. disableWriting upd c s = Inr s' \<and> inv s'
    \<and> interest s' = (interest s)(ch_fd ch := events ch AND NOT kWriteEvent)
    \<and> heap s' c = Some (ch\<lparr>events := events ch AND NOT kWriteEvent, ch_index := i\<rparr>)"
  using set_events [OF assms(1,2) _ assms(4)] assms by (simp add: disableWriting_def)

lemma disableAll_ok:
  assumes "inv s" and "heap s c = Some ch"
    and "upd_pre (s\<lparr>heap := (heap s)(c \<mapsto> ch\<lparr>events := kNoneEvent\<rparr>)\<rparr>) c"
  shows "\<exists>s' i. disableAll upd c s = Inr s' \<and> inv s'
    \<and> interest s' = (interest s)(ch_fd ch := kNoneEvent)
    \<and> heap s' c = Some (ch\<lparr>events := kNoneEvent, ch_index := i\<rparr>)"
  using set_events [OF assms(1,2) _ assms(3)] assms by (simp add: disableAll_def)

end

end
