(* ===== verification/Epoll_Poller.thy ===== *)
theory Epoll_Poller
  imports Poller_Interface
begin

text \<open>
  \<^verbatim>\<open>EPollPoller\<close> of \<^verbatim>\<open>cobra/poller/epoll_poller.cpp\<close>. The kernel's interest list is not code
  of the repository: its state is a value of a type \<open>'k\<close> inside the poller's state,
  \<^verbatim>\<open>epoll_ctl(2)\<close> and \<^verbatim>\<open>epoll_wait(2)\<close> are the arguments \<open>ctl\<close> and \<open>wait\<close> of the operations,
  and the manual pages are the predicates \<open>epoll_ctl_spec\<close> and \<open>epoll_wait_spec\<close>, stated with
  a function \<open>km\<close> that reads the interest list off the kernel's state.
\<close>

unbundle bit_operations_syntax

section \<open>State and operations\<close>

definition kNew :: int where "kNew = - 1"
definition kAdded :: int where "kAdded = 1"
definition kDeleted :: int where "kDeleted = 2"

definition kInitEventListSize :: nat where "kInitEventListSize = 16"

datatype epoll_op = EPOLL_CTL_ADD | EPOLL_CTL_DEL | EPOLL_CTL_MOD

text \<open>A \<^verbatim>\<open>struct epoll_event\<close>: the events, and the channel's address in \<^verbatim>\<open>data.ptr\<close>.\<close>

type_synonym epoll_event = "mask \<times> nat"

datatype epoll_result = EpollError int | EpollOk "epoll_event list"

record ('cb, 'k) epoll_poller = "'cb chan_store" +
  ep_events_size :: nat
  ep_channels :: "int \<rightharpoonup> nat"
  ep_kernel :: 'k

type_synonym 'k epoll_ctl = "epoll_op \<Rightarrow> int \<Rightarrow> epoll_event \<Rightarrow> 'k \<Rightarrow> int \<times> 'k"
type_synonym 'k epoll_wait = "int \<Rightarrow> int \<Rightarrow> 'k \<Rightarrow> epoll_result \<times> 'k"

text \<open>\<open>r\<close> is what \<^verbatim>\<open>epoll_create1\<close> returned.\<close>

definition EPollPoller_new :: "(nat \<rightharpoonup> 'cb channel) \<Rightarrow> int \<Rightarrow> 'k \<Rightarrow> ('cb, 'k) epoll_poller res" where
  "EPollPoller_new h r k =
     (if r < 0 then Inl Fatal
      else Inr \<lparr>heap = h, ep_events_size = kInitEventListSize, ep_channels = Map.empty, ep_kernel = k\<rparr>)"

definition ep_update ::
  "'k epoll_ctl \<Rightarrow> epoll_op \<Rightarrow> nat \<Rightarrow> ('cb, 'k, 'z) epoll_poller_scheme
     \<Rightarrow> ('cb, 'k, 'z) epoll_poller_scheme res" where
  "ep_update ctl operation c s =
     bindE (get_ch c s) (\<lambda>ch.
       let (r, k) = ctl operation (ch_fd ch) (events ch, c) (ep_kernel s);
           s1 = s\<lparr>ep_kernel := k\<rparr>
       in if r < 0 then (if operation = EPOLL_CTL_DEL then Inr s1 else Inl Fatal) else Inr s1)"

definition EPollPoller_UpdateChannel ::
  "'k epoll_ctl \<Rightarrow> nat \<Rightarrow> ('cb, 'k, 'z) epoll_poller_scheme \<Rightarrow> ('cb, 'k, 'z) epoll_poller_scheme res" where
  "EPollPoller_UpdateChannel ctl c s =
     bindE (get_ch c s) (\<lambda>ch.
       let index = ch_index ch; fd = ch_fd ch
       in if index = kNew \<or> index = kDeleted
          then bindE
            (if index = kNew
             then cassert (ep_channels s fd = None)
                    (Inr (s\<lparr>ep_channels := (ep_channels s)(fd \<mapsto> c)\<rparr>))
             else cassert (ep_channels s fd \<noteq> None) (cassert (ep_channels s fd = Some c) (Inr s)))
            (\<lambda>s1. bindE (set_index c kAdded s1) (ep_update ctl EPOLL_CTL_ADD c))
          else cassert (ep_channels s fd \<noteq> None)
            (cassert (ep_channels s fd = Some c)
              (cassert (index = kAdded)
                (if isNoneEvent ch
                 then bindE (ep_update ctl EPOLL_CTL_DEL c s) (set_index c kDeleted)
                 else ep_update ctl EPOLL_CTL_MOD c s))))"

definition EPollPoller_removeChannel ::
  "'k epoll_ctl \<Rightarrow> nat \<Rightarrow> ('cb, 'k, 'z) epoll_poller_scheme \<Rightarrow> ('cb, 'k, 'z) epoll_poller_scheme res" where
  "EPollPoller_removeChannel ctl c s =
     bindE (get_ch c s) (\<lambda>ch.
       let fd = ch_fd ch
       in cassert (ep_channels s fd \<noteq> None)
         (cassert (ep_channels s fd = Some c)
           (cassert (isNoneEvent ch)
             (let index = ch_index ch
              in cassert (index = kAdded \<or> index = kDeleted)
                (let s1 = s\<lparr>ep_channels := (ep_channels s)(fd := None)\<rparr>
                 in bindE (if index = kAdded then ep_update ctl EPOLL_CTL_DEL c s1 else Inr s1)
                      (set_index c kNew))))))"

definition ep_fill_one ::
  "epoll_event \<Rightarrow> ('cb, 'k, 'z) epoll_poller_scheme \<Rightarrow> ('cb, 'k, 'z) epoll_poller_scheme res" where
  "ep_fill_one ev s =
     bindE (get_ch (snd ev) s) (\<lambda>ch.
       cassert (ep_channels s (ch_fd ch) \<noteq> None)
         (cassert (ep_channels s (ch_fd ch) = Some (snd ev)) (set_revents (snd ev) (fst ev) s)))"

definition ep_fillActiveChannels ::
  "epoll_event list \<Rightarrow> nat list \<Rightarrow> ('cb, 'k, 'z) epoll_poller_scheme
     \<Rightarrow> (nat list \<times> ('cb, 'k, 'z) epoll_poller_scheme) res" where
  "ep_fillActiveChannels evs active s =
     cassert (length evs \<le> ep_events_size s)
       (foldE (\<lambda>ev (act, s). bindE (ep_fill_one ev s) (\<lambda>s'. Inr (act @ [snd ev], s'))) evs (active, s))"

definition EPollPoller_poll ::
  "'k epoll_wait \<Rightarrow> int \<Rightarrow> int \<Rightarrow> ('cb, 'k, 'z) epoll_poller_scheme
     \<Rightarrow> (int \<times> nat list \<times> ('cb, 'k, 'z) epoll_poller_scheme) res" where
  "EPollPoller_poll wait timeoutMs now s =
     (let (r, k) = wait (to_int32 (ep_events_size s)) timeoutMs (ep_kernel s);
          s1 = s\<lparr>ep_kernel := k\<rparr>
      in case r of
           EpollError e \<Rightarrow> Inr (now, [], s1)
         | EpollOk evs \<Rightarrow>
             if 0 < length evs
             then bindE (ep_fillActiveChannels evs [] s1) (\<lambda>(active, s2).
                    Inr (now, active,
                         if length evs = ep_events_size s2
                         then s2\<lparr>ep_events_size := ep_events_size s2 * 2\<rparr> else s2))
             else Inr (now, [], s1))"

section \<open>What the kernel documents\<close>

text \<open>
  \<^verbatim>\<open>epoll_ctl(2)\<close>: \<^verbatim>\<open>EPOLL_CTL_ADD\<close> may be refused (a bad descriptor, no memory, the watch limit),
  and then nothing changes; when it is accepted the entry is in the list. \<^verbatim>\<open>EPOLL_CTL_MOD\<close> and
  \<^verbatim>\<open>EPOLL_CTL_DEL\<close> succeed on a descriptor in the list. \<^verbatim>\<open>epoll_wait(2)\<close> returns at most
  \<^verbatim>\<open>maxevents\<close> events, each with the data of a different entry of the list.
\<close>

definition epoll_ctl_spec :: "'k epoll_ctl \<Rightarrow> ('k \<Rightarrow> int \<rightharpoonup> epoll_event) \<Rightarrow> bool" where
  "epoll_ctl_spec ctl km \<longleftrightarrow> (\<forall>fd ev k.
     (km k fd = None \<longrightarrow> 0 \<le> fst (ctl EPOLL_CTL_ADD fd ev k)
        \<longrightarrow> km (snd (ctl EPOLL_CTL_ADD fd ev k)) = (km k)(fd \<mapsto> ev))
   \<and> (fst (ctl EPOLL_CTL_ADD fd ev k) < 0 \<longrightarrow> km (snd (ctl EPOLL_CTL_ADD fd ev k)) = km k)
   \<and> (km k fd \<noteq> None \<longrightarrow> 0 \<le> fst (ctl EPOLL_CTL_MOD fd ev k)
        \<and> km (snd (ctl EPOLL_CTL_MOD fd ev k)) = (km k)(fd \<mapsto> ev))
   \<and> (km k fd \<noteq> None \<longrightarrow> 0 \<le> fst (ctl EPOLL_CTL_DEL fd ev k)
        \<and> km (snd (ctl EPOLL_CTL_DEL fd ev k)) = (km k)(fd := None)))"

definition epoll_wait_spec :: "'k epoll_wait \<Rightarrow> ('k \<Rightarrow> int \<rightharpoonup> epoll_event) \<Rightarrow> bool" where
  "epoll_wait_spec wait km \<longleftrightarrow> (\<forall>n t k. km (snd (wait n t k)) = km k
     \<and> (\<forall>evs. fst (wait n t k) = EpollOk evs \<longrightarrow> int (length evs) \<le> n
          \<and> (\<exists>fds. distinct fds
               \<and> list_all2 (\<lambda>fd ev. \<exists>e. km k fd = Some (e, snd ev)) fds evs)))"

lemma epoll_waitD:
  assumes "epoll_wait_spec wait km" and "wait n t k = (EpollOk evs, k')"
  shows "km k' = km k \<and> int (length evs) \<le> n
    \<and> (\<exists>fds. distinct fds \<and> list_all2 (\<lambda>fd ev. \<exists>e. km k fd = Some (e, snd ev)) fds evs)"
  using assms(1) [unfolded epoll_wait_spec_def, THEN spec, of n, THEN spec, of t, THEN spec, of k] assms(2)
  by simp

lemma ctl_addD:
  "epoll_ctl_spec ctl km \<Longrightarrow> km k fd = None \<Longrightarrow> ctl EPOLL_CTL_ADD fd ev k = (r, k') \<Longrightarrow> 0 \<le> r \<Longrightarrow>
   km k' = (km k)(fd \<mapsto> ev)"
  unfolding epoll_ctl_spec_def by (metis fst_conv snd_conv)

lemma ctl_modD:
  "epoll_ctl_spec ctl km \<Longrightarrow> km k fd \<noteq> None \<Longrightarrow> ctl EPOLL_CTL_MOD fd ev k = (r, k') \<Longrightarrow>
   0 \<le> r \<and> km k' = (km k)(fd \<mapsto> ev)"
  unfolding epoll_ctl_spec_def by (metis fst_conv snd_conv)

lemma ctl_delD:
  "epoll_ctl_spec ctl km \<Longrightarrow> km k fd \<noteq> None \<Longrightarrow> ctl EPOLL_CTL_DEL fd ev k = (r, k') \<Longrightarrow>
   0 \<le> r \<and> km k' = (km k)(fd := None)"
  unfolding epoll_ctl_spec_def by (metis fst_conv snd_conv)

section \<open>Invariant\<close>

text \<open>
  The map, the indices kept in the channels and the kernel's list agree: a registered channel is
  marked as added exactly when its descriptor is in the list, with the channel's own address.
\<close>

definition ep_chan_ok ::
  "('k \<Rightarrow> int \<rightharpoonup> epoll_event) \<Rightarrow> ('cb, 'k, 'z) epoll_poller_scheme \<Rightarrow> int \<Rightarrow> nat \<Rightarrow> bool" where
  "ep_chan_ok km s fd c \<longleftrightarrow> (\<exists>ch. heap s c = Some ch \<and> ch_fd ch = fd
     \<and> (ch_index ch = kAdded \<and> (\<exists>e. km (ep_kernel s) fd = Some (e, c))
        \<or> ch_index ch = kDeleted \<and> km (ep_kernel s) fd = None))"

definition ep_inv :: "('k \<Rightarrow> int \<rightharpoonup> epoll_event) \<Rightarrow> ('cb, 'k, 'z) epoll_poller_scheme \<Rightarrow> bool" where
  "ep_inv km s \<longleftrightarrow> (\<forall>fd c. ep_channels s fd = Some c \<longrightarrow> ep_chan_ok km s fd c)
     \<and> (\<forall>fd. km (ep_kernel s) fd \<noteq> None \<longrightarrow> ep_channels s fd \<noteq> None)"

definition ep_interest ::
  "('k \<Rightarrow> int \<rightharpoonup> epoll_event) \<Rightarrow> ('cb, 'k, 'z) epoll_poller_scheme \<Rightarrow> int \<Rightarrow> mask" where
  "ep_interest km s fd = (case km (ep_kernel s) fd of None \<Rightarrow> 0 | Some (e, c) \<Rightarrow> e)"

text \<open>A channel may be handed to \<^verbatim>\<open>UpdateChannel\<close> when it is new and its descriptor is free, or
  when it is the registered one; and a new entry must be accepted by the kernel.\<close>

definition ep_update_pre ::
  "'k epoll_ctl \<Rightarrow> ('cb, 'k, 'z) epoll_poller_scheme \<Rightarrow> nat \<Rightarrow> bool" where
  "ep_update_pre ctl s c \<longleftrightarrow> (\<exists>ch. heap s c = Some ch
     \<and> ep_channels s (ch_fd ch) = (if ch_index ch = kNew then None else Some c)
     \<and> (ch_index ch \<noteq> kAdded \<longrightarrow> 0 \<le> fst (ctl EPOLL_CTL_ADD (ch_fd ch) (events ch, c) (ep_kernel s))))"

definition ep_remove_pre :: "('cb, 'k, 'z) epoll_poller_scheme \<Rightarrow> nat \<Rightarrow> bool" where
  "ep_remove_pre s c \<longleftrightarrow> (\<exists>ch. heap s c = Some ch \<and> ep_channels s (ch_fd ch) = Some c)"

lemmas ep_index_defs = kNew_def kAdded_def kDeleted_def

lemma ep_invD_chan: "ep_inv km s \<Longrightarrow> ep_channels s fd = Some c \<Longrightarrow> ep_chan_ok km s fd c"
  by (simp add: ep_inv_def)

lemma ep_invD_kernel: "ep_inv km s \<Longrightarrow> ep_channels s fd = None \<Longrightarrow> km (ep_kernel s) fd = None"
  unfolding ep_inv_def by metis

lemma ep_inv_index_cases:
  assumes "ep_inv km s" and "heap s c = Some ch" and "ep_channels s (ch_fd ch) = Some c"
  obtains (added) e where "ch_index ch = kAdded" and "km (ep_kernel s) (ch_fd ch) = Some (e, c)"
    | (deleted) "ch_index ch = kDeleted" and "km (ep_kernel s) (ch_fd ch) = None"
  using ep_invD_chan [OF assms(1,3)] assms(2) by (auto simp: ep_chan_ok_def)

text \<open>
  The general step: a new map, a new index for channel \<open>c\<close> and a new kernel that differ only at
  the channel's descriptor keep the invariant if they fit together there.
\<close>

lemma ep_inv_step:
  assumes inv: "ep_inv km s" and ch: "heap s c = Some ch"
    and only: "ep_channels s (ch_fd ch) = None \<or> ep_channels s (ch_fd ch) = Some c"
    and k: "km k = (km (ep_kernel s))(ch_fd ch := v)"
    and fits: "reg = Some c \<and> i = kAdded \<and> (\<exists>e. v = Some (e, c))
      \<or> reg = Some c \<and> i = kDeleted \<and> v = None \<or> reg = None \<and> v = None"
  shows "ep_inv km (s\<lparr>heap := (heap s)(c \<mapsto> ch\<lparr>ch_index := i\<rparr>),
      ep_channels := (ep_channels s)(ch_fd ch := reg), ep_kernel := k\<rparr>)" (is "ep_inv km ?s")
proof -
  have "ep_chan_ok km ?s fd d" if "ep_channels ?s fd = Some d" for fd d
  proof (cases "fd = ch_fd ch")
    case True
    with that fits k show ?thesis by (auto simp: ep_chan_ok_def)
  next
    case False
    with that have "ep_channels s fd = Some d" by simp
    with ep_invD_chan [OF inv this] False ch k show ?thesis by (auto simp: ep_chan_ok_def)
  qed
  moreover have "ep_channels ?s fd \<noteq> None" if "km k fd \<noteq> None" for fd
    using that inv fits k by (cases "fd = ch_fd ch") (auto simp: ep_inv_def)
  ultimately show ?thesis unfolding ep_inv_def by simp
qed

lemma ep_interest_upd:
  "km k = (km (ep_kernel s))(fd := v) \<Longrightarrow> ep_kernel s' = k \<Longrightarrow>
   ep_interest km s' = (ep_interest km s)(fd := (case v of None \<Rightarrow> 0 | Some (e, c) \<Rightarrow> e))"
  by (auto simp: ep_interest_def)

lemma ep_update_ok:
  assumes spec: "epoll_ctl_spec ctl km" and inv: "ep_inv km s" and ch: "heap s c = Some ch"
    and pre: "ep_update_pre ctl s c"
  shows "\<exists>s' i. EPollPoller_UpdateChannel ctl c s = Inr s' \<and> ep_inv km s'
    \<and> ep_interest km s' = (ep_interest km s)(ch_fd ch := events ch)
    \<and> heap s' = (heap s)(c \<mapsto> ch\<lparr>ch_index := i\<rparr>)
    \<and> ep_channels s' = (ep_channels s)(ch_fd ch \<mapsto> c) \<and> i \<noteq> kNew"
proof -
  from pre ch have reg: "ep_channels s (ch_fd ch) = (if ch_index ch = kNew then None else Some c)"
    and add: "ch_index ch \<noteq> kAdded \<Longrightarrow> 0 \<le> fst (ctl EPOLL_CTL_ADD (ch_fd ch) (events ch, c) (ep_kernel s))"
    by (auto simp: ep_update_pre_def)
  let ?s' = "\<lambda>i k. s\<lparr>heap := (heap s)(c \<mapsto> ch\<lparr>ch_index := i\<rparr>),
      ep_channels := (ep_channels s)(ch_fd ch \<mapsto> c), ep_kernel := k\<rparr>"
  have *: ?thesis if "EPollPoller_UpdateChannel ctl c s = Inr (?s' i k)"
    "km k = (km (ep_kernel s))(ch_fd ch := v)" "i = kAdded \<and> v = Some (events ch, c) \<or> i = kDeleted \<and> v = None"
    "i = kDeleted \<Longrightarrow> events ch = 0" for i k v
    using that ep_inv_step [OF inv ch, of k v "Some c" i] reg ep_interest_upd [OF that(2), of "?s' i k"]
    by (intro exI [of _ "?s' i k"] exI [of _ i]) (auto simp: ep_index_defs)
  show ?thesis
  proof (cases "ch_index ch = kAdded")
    case False
    from False reg have none: "km (ep_kernel s) (ch_fd ch) = None"
      using ep_inv_index_cases [OF inv ch] ep_invD_kernel [OF inv] by (metis option.distinct(1))
    obtain r k where rk: "ctl EPOLL_CTL_ADD (ch_fd ch) (events ch, c) (ep_kernel s) = (r, k)" "0 \<le> r"
      using add [OF False] by (metis prod.collapse)
    have "ch_index ch = kNew \<or> ch_index ch = kDeleted"
      using False reg ep_inv_index_cases [OF inv ch] by metis
    then have "EPollPoller_UpdateChannel ctl c s = Inr (?s' kAdded k)"
      using ch rk reg by (auto simp: EPollPoller_UpdateChannel_def ep_update_def set_index_def
          ep_index_defs fun_upd_idem)
    with * [where i = kAdded and k = k] ctl_addD [OF spec none rk] show ?thesis by (simp add: ep_index_defs)
  next
    case True
    with reg have reg': "ep_channels s (ch_fd ch) = Some c" by (simp add: ep_index_defs)
    from True have in_list: "km (ep_kernel s) (ch_fd ch) \<noteq> None"
      by (cases rule: ep_inv_index_cases [OF inv ch reg']) (simp_all add: ep_index_defs)
    show ?thesis
    proof (cases "isNoneEvent ch")
      case none: True
      obtain r k where rk: "ctl EPOLL_CTL_DEL (ch_fd ch) (events ch, c) (ep_kernel s) = (r, k)"
        by fastforce
      with True none ch reg' rk * [where i = kDeleted and k = k and v = None] ctl_delD [OF spec in_list rk] show ?thesis
        by (simp add: EPollPoller_UpdateChannel_def ep_update_def set_index_def ep_index_defs
            fun_upd_idem isNoneEvent_def kNoneEvent_def)
    next
      case some: False
      obtain r k where rk: "ctl EPOLL_CTL_MOD (ch_fd ch) (events ch, c) (ep_kernel s) = (r, k)"
        by fastforce
      have "ch\<lparr>ch_index := kAdded\<rparr> = ch" using True by (cases ch) simp
      with True some ch reg' rk * [where i = kAdded and k = k] ctl_modD [OF spec in_list rk] show ?thesis
        by (simp add: EPollPoller_UpdateChannel_def ep_update_def ep_index_defs fun_upd_idem)
    qed
  qed
qed


lemma ep_remove_ok:
  assumes spec: "epoll_ctl_spec ctl km" and inv: "ep_inv km s" and ch: "heap s c = Some ch"
    and none: "isNoneEvent ch" and pre: "ep_remove_pre s c"
  shows "\<exists>s'. EPollPoller_removeChannel ctl c s = Inr s' \<and> ep_inv km s'
    \<and> ep_interest km s' = (ep_interest km s)(ch_fd ch := 0)
    \<and> heap s' = (heap s)(c \<mapsto> ch\<lparr>ch_index := kNew\<rparr>)
    \<and> ep_channels s' = (ep_channels s)(ch_fd ch := None)"
proof -
  from pre ch have reg: "ep_channels s (ch_fd ch) = Some c" by (simp add: ep_remove_pre_def)
  let ?s' = "\<lambda>k. s\<lparr>heap := (heap s)(c \<mapsto> ch\<lparr>ch_index := kNew\<rparr>),
      ep_channels := (ep_channels s)(ch_fd ch := None), ep_kernel := k\<rparr>"
  have *: ?thesis if "EPollPoller_removeChannel ctl c s = Inr (?s' k)"
    "km k = (km (ep_kernel s))(ch_fd ch := None)" for k
    using that ep_inv_step [OF inv ch, of k None None kNew] reg ep_interest_upd [OF that(2), of "?s' k"]
    by simp
  from inv ch reg show ?thesis
  proof (cases rule: ep_inv_index_cases)
    case (added e)
    obtain r k where rk: "ctl EPOLL_CTL_DEL (ch_fd ch) (events ch, c) (ep_kernel s) = (r, k)"
      by fastforce
    with added have k: "0 \<le> r" "km k = (km (ep_kernel s))(ch_fd ch := None)"
      using ctl_delD [OF spec _ rk] by simp_all
    have "EPollPoller_removeChannel ctl c s = Inr (?s' k)"
      using added(1) ch none reg rk k(1)
      by (cases s) (simp add: EPollPoller_removeChannel_def ep_update_def set_index_def)
    then show ?thesis using k(2) by (rule *)
  next
    case deleted
    have "EPollPoller_removeChannel ctl c s = Inr (?s' (ep_kernel s))"
      using deleted(1) ch none reg
      by (cases s) (simp add: EPollPoller_removeChannel_def set_index_def ep_index_defs)
    then show ?thesis using deleted(2) by (intro *) auto
  qed
qed

lemma ep_inv_channel_update:
  assumes "ep_inv km s" and "heap s c = Some ch" and "ch_fd ch' = ch_fd ch" and "ch_index ch' = ch_index ch"
  shows "ep_inv km (s\<lparr>heap := (heap s)(c \<mapsto> ch')\<rparr>)"
proof -
  let ?s = "s\<lparr>heap := (heap s)(c \<mapsto> ch')\<rparr>"
  have "ep_chan_ok km ?s fd d" if "ep_channels s fd = Some d" for fd d
    using ep_invD_chan [OF assms(1) that] assms(2-4) by (auto simp: ep_chan_ok_def)
  with assms(1) show ?thesis by (simp add: ep_inv_def)
qed

text \<open>The contract of \<^verbatim>\<open>Poller\<close>, for every kernel that behaves as documented.\<close>

interpretation epc: poller_contract "\<lambda>s. epoll_ctl_spec ctl km \<and> ep_inv km s" "ep_interest km"
  "EPollPoller_UpdateChannel ctl" "EPollPoller_removeChannel ctl" "ep_update_pre ctl" ep_remove_pre
  for ctl :: "'k epoll_ctl" and km
proof unfold_locales
  fix s :: "('cb, 'k, 'z) epoll_poller_scheme" and c ch
  assume a: "epoll_ctl_spec ctl km \<and> ep_inv km s" "heap s c = Some ch" "ep_update_pre ctl s c"
  then show "\<exists>s'. EPollPoller_UpdateChannel ctl c s = Inr s' \<and> (epoll_ctl_spec ctl km \<and> ep_inv km s')
    \<and> ep_interest km s' = (ep_interest km s)(ch_fd ch := events ch) \<and> same_channels s s'"
    using ep_update_ok [of ctl km s c ch] same_channels_index by blast
next
  fix s :: "('cb, 'k, 'z) epoll_poller_scheme" and c ch
  assume a: "epoll_ctl_spec ctl km \<and> ep_inv km s" "heap s c = Some ch" "isNoneEvent ch" "ep_remove_pre s c"
  then show "\<exists>s'. EPollPoller_removeChannel ctl c s = Inr s' \<and> (epoll_ctl_spec ctl km \<and> ep_inv km s')
    \<and> ep_interest km s' = (ep_interest km s)(ch_fd ch := 0) \<and> same_channels s s'"
    using ep_remove_ok [of ctl km s c ch] same_channels_index by blast
next
  fix s :: "('cb, 'k, 'z) epoll_poller_scheme" and c ch e
  assume "epoll_ctl_spec ctl km \<and> ep_inv km s" "heap s c = Some ch"
  then show "(epoll_ctl_spec ctl km \<and> ep_inv km (s\<lparr>heap := (heap s)(c \<mapsto> ch\<lparr>events := e\<rparr>)\<rparr>))
    \<and> ep_interest km (s\<lparr>heap := (heap s)(c \<mapsto> ch\<lparr>events := e\<rparr>)\<rparr>) = ep_interest km s"
    using ep_inv_channel_update [of km s c ch] by (auto simp: ep_interest_def)
qed

section \<open>The kernel follows the channels\<close>

text \<open>What the owner of a channel does with it: the four interest calls, and the closing path.\<close>

datatype chan_op = EnableReading | EnableWriting | DisableWriting | DisableAll | CloseChannel

definition ep_do ::
  "'k epoll_ctl \<Rightarrow> nat \<times> chan_op \<Rightarrow> ('cb, 'k, 'z) epoll_poller_scheme
     \<Rightarrow> ('cb, 'k, 'z) epoll_poller_scheme res" where
  "ep_do ctl step s =
     (case step of (c, op) \<Rightarrow>
        (case op of
           EnableReading \<Rightarrow> enableReading (EPollPoller_UpdateChannel ctl) c s
         | EnableWriting \<Rightarrow> enableWriting (EPollPoller_UpdateChannel ctl) c s
         | DisableWriting \<Rightarrow> disableWriting (EPollPoller_UpdateChannel ctl) c s
         | DisableAll \<Rightarrow> disableAll (EPollPoller_UpdateChannel ctl) c s
         | CloseChannel \<Rightarrow> bindE (disableAll (EPollPoller_UpdateChannel ctl) c s)
             (Channel_remove (EPollPoller_removeChannel ctl) c)))"

text \<open>
  \<open>ep_world\<close>: the invariant, every channel is either new or the registered one of its
  descriptor, no two channels share a descriptor, and the kernel is asked for exactly the events
  every registered channel wants, and for nothing on other descriptors.
\<close>

definition ep_world :: "('k \<Rightarrow> int \<rightharpoonup> epoll_event) \<Rightarrow> ('cb, 'k, 'z) epoll_poller_scheme \<Rightarrow> bool" where
  "ep_world km s \<longleftrightarrow> ep_inv km s
     \<and> (\<forall>c ch. heap s c = Some ch \<longrightarrow>
          ep_channels s (ch_fd ch) = (if ch_index ch = kNew then None else Some c)
        \<and> ep_interest km s (ch_fd ch) = (if ch_index ch = kNew then 0 else events ch))
     \<and> (\<forall>c d ch ch'. heap s c = Some ch \<longrightarrow> heap s d = Some ch' \<longrightarrow> ch_fd ch = ch_fd ch' \<longrightarrow> c = d)
     \<and> (\<forall>fd. ep_channels s fd = None \<longrightarrow> ep_interest km s fd = 0)"


lemma ep_worldD:
  assumes "ep_world km s" and "heap s c = Some ch"
  shows "ep_channels s (ch_fd ch) = (if ch_index ch = kNew then None else Some c)"
    and "ep_interest km s (ch_fd ch) = (if ch_index ch = kNew then 0 else events ch)"
  using assms unfolding ep_world_def by blast+

text \<open>A change of one channel that keeps its descriptor, and of the interest in that descriptor.\<close>

lemma ep_world_step:
  assumes w: "ep_world km s" and ch: "heap s c = Some ch" and inv: "ep_inv km s'"
    and hp: "heap s' = (heap s)(c \<mapsto> ch')" and fd: "ch_fd ch' = ch_fd ch"
    and reg: "ep_channels s' = (ep_channels s)(ch_fd ch := (if ch_index ch' = kNew then None else Some c))"
    and int: "ep_interest km s' = (ep_interest km s)(ch_fd ch := (if ch_index ch' = kNew then 0 else events ch'))"
  shows "ep_world km s'"
proof -
  have other: "ch_fd chd \<noteq> ch_fd ch" if "heap s d = Some chd" "d \<noteq> c" for d chd
    using w that ch unfolding ep_world_def by metis
  have a: "ep_channels s' (ch_fd chd) = (if ch_index chd = kNew then None else Some d)
      \<and> ep_interest km s' (ch_fd chd) = (if ch_index chd = kNew then 0 else events chd)"
    if "heap s' d = Some chd" for d chd
    using that other [of d chd] ep_worldD [OF w, of d chd] hp fd reg int
    by (cases "d = c") auto
  have b: "d = e" if "heap s' d = Some chd" "heap s' e = Some che" "ch_fd chd = ch_fd che" for d e chd che
  proof -
    have "\<exists>x. heap s d = Some x \<and> ch_fd x = ch_fd chd" "\<exists>x. heap s e = Some x \<and> ch_fd x = ch_fd che"
      using that(1,2) hp fd ch by (auto split: if_splits)
    with that(3) w show ?thesis unfolding ep_world_def by metis
  qed
  have c: "ep_interest km s' f = 0" if "ep_channels s' f = None" for f
    using that w reg int unfolding ep_world_def by (auto split: if_splits)
  show ?thesis unfolding ep_world_def using inv a b c by blast
qed

definition refused :: "'k epoll_ctl \<Rightarrow> bool" where
  "refused ctl \<longleftrightarrow> (\<exists>fd ev k. fst (ctl EPOLL_CTL_ADD fd ev k) < 0)"

lemma ep_set_events_world:
  assumes spec: "epoll_ctl_spec ctl km" and w: "ep_world km s" and ch: "heap s c = Some ch"
  shows "(\<exists>s' i. EPollPoller_UpdateChannel ctl c (s\<lparr>heap := (heap s)(c \<mapsto> ch\<lparr>events := e\<rparr>)\<rparr>) = Inr s'
        \<and> ep_world km s' \<and> heap s' = (heap s)(c \<mapsto> ch\<lparr>events := e, ch_index := i\<rparr>) \<and> i \<noteq> kNew)
    \<or> EPollPoller_UpdateChannel ctl c (s\<lparr>heap := (heap s)(c \<mapsto> ch\<lparr>events := e\<rparr>)\<rparr>) = Inl Fatal \<and> refused ctl"
proof -
  let ?ch = "ch\<lparr>events := e\<rparr>" let ?s = "s\<lparr>heap := (heap s)(c \<mapsto> ch\<lparr>events := e\<rparr>)\<rparr>"
  have inv: "ep_inv km ?s" using w ch by (intro ep_inv_channel_update) (auto simp: ep_world_def)
  have h: "heap ?s c = Some ?ch" by simp
  have int: "ep_interest km ?s = ep_interest km s" by (simp add: ep_interest_def fun_eq_iff)
  show ?thesis
  proof (cases "ep_update_pre ctl ?s c")
    case True
    from ep_update_ok [OF spec inv h True] obtain s' i where
      s': "EPollPoller_UpdateChannel ctl c ?s = Inr s'" "ep_inv km s'"
      "ep_interest km s' = (ep_interest km s)(ch_fd ch := e)"
      "heap s' = (heap s)(c \<mapsto> ch\<lparr>events := e, ch_index := i\<rparr>)"
      "ep_channels s' = (ep_channels s)(ch_fd ch \<mapsto> c)" "i \<noteq> kNew"
      using int by auto
    with ep_world_step [OF w ch s'(2,4)] show ?thesis by auto
  next
    case False
    then have idx: "ch_index ch \<noteq> kAdded"
      and ref: "fst (ctl EPOLL_CTL_ADD (ch_fd ch) (e, c) (ep_kernel s)) < 0"
      using ep_worldD(1) [OF w ch] by (auto simp: ep_update_pre_def)
    have "ch_index ch = kNew \<or> ch_index ch = kDeleted"
      using ep_inv_index_cases [OF _ ch] ep_worldD(1) [OF w ch] idx w unfolding ep_world_def by metis
    then have "EPollPoller_UpdateChannel ctl c ?s = Inl Fatal"
      using ref ep_worldD(1) [OF w ch]
      by (auto simp: EPollPoller_UpdateChannel_def ep_update_def set_index_def ep_index_defs case_prod_unfold Let_def)
    with ref show ?thesis unfolding refused_def by blast
  qed
qed

lemma ep_do_world:
  assumes spec: "epoll_ctl_spec ctl km" and w: "ep_world km s" and c: "fst step \<in> dom (heap s)"
  shows "(\<exists>s'. ep_do ctl step s = Inr s' \<and> ep_world km s' \<and> dom (heap s') = dom (heap s))
    \<or> ep_do ctl step s = Inl Fatal \<and> refused ctl"
proof -
  obtain c op ch where st: "step = (c, op)" and ch: "heap s c = Some ch"
    using c by (cases step) auto
  note upd = ep_set_events_world [OF spec w ch]
  show ?thesis
  proof (cases op)
    case EnableReading
    with upd [of "events ch OR kReadEvent"] ch show ?thesis by (auto simp: ep_do_def st enableReading_def)
  next
    case EnableWriting
    with upd [of "events ch OR kWriteEvent"] ch show ?thesis by (auto simp: ep_do_def st enableWriting_def)
  next
    case DisableWriting
    with upd [of "events ch AND NOT kWriteEvent"] ch show ?thesis
      by (auto simp: ep_do_def st disableWriting_def)
  next
    case DisableAll
    with upd [of kNoneEvent] ch show ?thesis by (auto simp: ep_do_def st disableAll_def)
  next
    case CloseChannel
    from upd [of kNoneEvent] show ?thesis
    proof (elim disjE exE conjE)
      fix s' i
      let ?ch = "ch\<lparr>events := kNoneEvent, ch_index := i\<rparr>"
      assume s': "EPollPoller_UpdateChannel ctl c (s\<lparr>heap := (heap s)(c \<mapsto> ch\<lparr>events := kNoneEvent\<rparr>)\<rparr>) = Inr s'"
        "ep_world km s'" "heap s' = (heap s)(c \<mapsto> ?ch)" "i \<noteq> kNew"
      have h: "heap s' c = Some ?ch" by (simp add: s'(3))
      have inv: "ep_inv km s'" using s'(2) by (simp add: ep_world_def)
      have none: "isNoneEvent ?ch" by (simp add: isNoneEvent_def)
      have pre: "ep_remove_pre s' c"
        using ep_worldD(1) [OF s'(2) h] h s'(4) by (simp add: ep_remove_pre_def)
      obtain s2 where s2: "EPollPoller_removeChannel ctl c s' = Inr s2" "ep_inv km s2"
        "ep_interest km s2 = (ep_interest km s')(ch_fd ?ch := 0)"
        "heap s2 = (heap s')(c \<mapsto> ?ch\<lparr>ch_index := kNew\<rparr>)"
        "ep_channels s2 = (ep_channels s')(ch_fd ?ch := None)"
        using ep_remove_ok [OF spec inv h none pre] by blast
      have "ep_world km s2"
        by (rule ep_world_step [OF s'(2) h s2(2,4)]) (use s2 in simp_all)
      with s2 s' ch h none CloseChannel show ?thesis
        by (auto simp: ep_do_def st disableAll_def Channel_remove_def)
    qed (use ch CloseChannel in \<open>simp add: ep_do_def st disableAll_def\<close>)
  qed
qed


section \<open>Reporting active channels\<close>

lemma ep_fill_ok:
  assumes "ep_inv km s" and "distinct fds"
    and "list_all2 (\<lambda>fd ev. ep_channels s fd = Some (snd ev)) fds evs"
  shows "\<exists>s'. foldE (\<lambda>ev (act, s). bindE (ep_fill_one ev s) (\<lambda>s'. Inr (act @ [snd ev], s'))) evs (active, s)
      = Inr (active @ map snd evs, s')
    \<and> ep_inv km s' \<and> ep_channels s' = ep_channels s \<and> ep_events_size s' = ep_events_size s
    \<and> (\<forall>d. d \<notin> snd ` set evs \<longrightarrow> heap s' d = heap s d)
    \<and> (\<forall>ev \<in> set evs. \<exists>ch. heap s' (snd ev) = Some ch \<and> revents ch = fst ev)"
  using assms
proof (induction evs arbitrary: fds s active)
  case Nil
  then show ?case by simp
next
  case (Cons ev evs)
  then obtain fd fds' where fds: "fds = fd # fds'" "ep_channels s fd = Some (snd ev)"
    and rest: "list_all2 (\<lambda>fd ev. ep_channels s fd = Some (snd ev)) fds' evs"
    by (auto simp: list_all2_Cons2)
  from ep_invD_chan [OF Cons.prems(1) fds(2)] obtain ch where ch: "heap s (snd ev) = Some ch" "ch_fd ch = fd"
    by (auto simp: ep_chan_ok_def)
  let ?s = "s\<lparr>heap := (heap s)(snd ev \<mapsto> ch\<lparr>revents := fst ev\<rparr>)\<rparr>"
  have one: "ep_fill_one ev s = Inr ?s"
    using ch fds(2) by (simp add: ep_fill_one_def set_revents_def)
  have inv: "ep_inv km ?s" using Cons.prems(1) ch by (intro ep_inv_channel_update) auto
  have notin: "snd ev \<notin> snd ` set evs"
  proof
    assume "snd ev \<in> snd ` set evs"
    then obtain j where j: "j < length evs" "snd (evs ! j) = snd ev"
      by (metis (no_types, lifting) imageE in_set_conv_nth)
    then have "ep_channels s (fds' ! j) = Some (snd ev)"
      using list_all2_nthD2 [OF rest j(1)] by simp
    then have "fds' ! j = fd" using ep_invD_chan [OF Cons.prems(1)] ch by (fastforce simp: ep_chan_ok_def)
    with Cons.prems(2) fds(1) j(1) rest show False
      by (metis distinct.simps(2) list_all2_lengthD nth_mem)
  qed
  from Cons.IH [OF inv, of fds' "active @ [snd ev]"] Cons.prems(2) fds(1) rest obtain s' where
    "foldE (\<lambda>ev (act, s). bindE (ep_fill_one ev s) (\<lambda>s'. Inr (act @ [snd ev], s'))) evs (active @ [snd ev], ?s)
      = Inr (active @ snd ev # map snd evs, s')"
    "ep_inv km s'" "ep_channels s' = ep_channels s" "ep_events_size s' = ep_events_size s"
    "\<forall>d. d \<notin> snd ` set evs \<longrightarrow> heap s' d = heap ?s d"
    "\<forall>ev \<in> set evs. \<exists>ch. heap s' (snd ev) = Some ch \<and> revents ch = fst ev"
    by auto
  with one notin show ?case by auto
qed

section \<open>Properties\<close>

text \<open>A concrete kernel: the interest list is a map, and \<^verbatim>\<open>epoll_wait\<close> reports a fixed descriptor.\<close>

definition table_ctl :: "(int \<rightharpoonup> epoll_event) epoll_ctl" where
  "table_ctl op fd ev k =
     (case op of
        EPOLL_CTL_ADD \<Rightarrow> if fd < 0 \<or> k fd \<noteq> None then (-1, k) else (0, k(fd \<mapsto> ev))
      | EPOLL_CTL_MOD \<Rightarrow> if k fd = None then (-1, k) else (0, k(fd \<mapsto> ev))
      | EPOLL_CTL_DEL \<Rightarrow> if k fd = None then (-1, k) else (0, k(fd := None)))"

definition table_wait :: "int \<Rightarrow> (int \<rightharpoonup> epoll_event) epoll_wait" where
  "table_wait fd n t k =
     ((case k fd of Some (e, c) \<Rightarrow> if 1 \<le> n then EpollOk [(e, c)] else EpollError 22 | None \<Rightarrow> EpollError 4), k)"

lemma table_ctl_spec: "epoll_ctl_spec table_ctl (\<lambda>k. k)"
  by (simp add: epoll_ctl_spec_def table_ctl_def)

lemma table_wait_spec: "epoll_wait_spec (table_wait fd) (\<lambda>k. k)"
proof -
  have "\<exists>fds. distinct fds \<and> list_all2 (\<lambda>fd ev. \<exists>e. k fd = Some (e, snd ev)) fds [(e, c)]"
    if "k fd = Some (e, c)" for k :: "int \<rightharpoonup> epoll_event" and e c
    using that by (intro exI [of _ "[fd]"]) simp
  then show ?thesis by (auto simp: epoll_wait_spec_def table_wait_def split: option.splits if_splits)
qed

definition ep_demo :: "(unit, int \<rightharpoonup> epoll_event) epoll_poller" where
  "ep_demo = \<lparr>heap = [0 \<mapsto> Channel_new 1 5, 1 \<mapsto> Channel_new 1 6], ep_events_size = 16,
     ep_channels = Map.empty, ep_kernel = Map.empty\<rparr>"

lemma ep_demo_world: "ep_world (\<lambda>k. k) ep_demo"
  by (auto simp: ep_world_def ep_inv_def ep_demo_def ep_interest_def Channel_new_def ep_index_defs
      split: if_splits)

definition ep_demo1 :: "(unit, int \<rightharpoonup> epoll_event) epoll_poller" where
  "ep_demo1 = \<lparr>heap = [0 \<mapsto> (Channel_new 1 5)\<lparr>events := 3, ch_index := kAdded\<rparr>], ep_events_size = 1,
     ep_channels = [5 \<mapsto> 0], ep_kernel = [5 \<mapsto> (3, 0)]\<rparr>"

lemma ep_demo1_inv: "ep_inv (\<lambda>k. k) ep_demo1"
  by (auto simp: ep_inv_def ep_chan_ok_def ep_demo1_def Channel_new_def ep_index_defs split: if_splits)

text \<open>
  C9. Whatever sequence of interest calls and closings the owners of the channels make, in any
  order and also after a channel has been disabled or removed, \<^verbatim>\<open>EPollPoller\<close> never fails an
  assertion, and after it the kernel watches for every registered channel exactly the events the
  channel wants, and nothing for any other descriptor. The only way to stop is the
  \<^verbatim>\<open>LOG_SYSFATAL\<close> for a new entry the kernel refused.
\<close>

theorem epoll_tracks_channels:
  assumes "epoll_ctl_spec ctl km" and "ep_world km s" and "fst ` set steps \<subseteq> dom (heap s)"
  shows "(\<exists>s'. foldE (ep_do ctl) steps s = Inr s' \<and> ep_world km s')
    \<or> foldE (ep_do ctl) steps s = Inl Fatal \<and> refused ctl"
  using assms(2,3)
proof (induction steps arbitrary: s)
  case (Cons x steps)
  from Cons.prems(2) have "fst x \<in> dom (heap s)" by simp
  from ep_do_world [OF assms(1) Cons.prems(1) this] show ?case
  proof (elim disjE exE conjE)
    fix s' assume "ep_do ctl x s = Inr s'" "ep_world km s'" "dom (heap s') = dom (heap s)"
    with Cons.IH [of s'] Cons.prems(2) show ?thesis by simp
  qed simp_all
qed simp

theorem epoll_tracks_channels_witness:
  "\<exists>s'. foldE (ep_do table_ctl)
      [(0, EnableReading), (1, EnableWriting), (0, DisableAll), (0, EnableReading), (1, CloseChannel)] ep_demo
        = Inr s' \<and> ep_world (\<lambda>k. k) s' \<and> ep_kernel s' = [5 \<mapsto> (3, 0)]"
  using epoll_tracks_channels [OF table_ctl_spec ep_demo_world,
      of "[(0, EnableReading), (1, EnableWriting), (0, DisableAll), (0, EnableReading), (1, CloseChannel)]"]
  by (simp add: ep_do_def ep_demo_def enableReading_def enableWriting_def disableAll_def Channel_remove_def
      EPollPoller_UpdateChannel_def EPollPoller_removeChannel_def ep_update_def set_index_def table_ctl_def
      Channel_new_def ep_index_defs isNoneEvent_def poll_defs Let_def fun_upd_twist)

text \<open>
  C38. One turn of \<^verbatim>\<open>EPollPoller::poll\<close> with the documented \<^verbatim>\<open>epoll_wait\<close>: every event names a
  live, registered channel, so no assertion fails; the active list is the channels of the events in
  the kernel's order, each with its reported events; and the event array doubles exactly when the
  kernel filled it.
\<close>

theorem epoll_active_channels:
  assumes inv: "ep_inv km s" and spec: "epoll_wait_spec wait km" and size: "ep_events_size s < 2 ^ 31"
    and r: "wait (to_int32 (ep_events_size s)) t (ep_kernel s) = (EpollOk evs, k)"
  shows "\<exists>s'. EPollPoller_poll wait t now s = Inr (now, map snd evs, s') \<and> ep_inv km s'
    \<and> ep_events_size s' = (if evs \<noteq> [] \<and> length evs = ep_events_size s then 2 * ep_events_size s else ep_events_size s)
    \<and> (\<forall>ev \<in> set evs. \<exists>ch. heap s' (snd ev) = Some ch \<and> revents ch = fst ev)"
proof -
  let ?s = "s\<lparr>ep_kernel := k\<rparr>"
  from epoll_waitD [OF spec r] size have k: "km k = km (ep_kernel s)" and len: "length evs \<le> ep_events_size s"
    by simp_all
  from epoll_waitD [OF spec r] obtain fds where fds: "distinct fds"
    "list_all2 (\<lambda>fd ev. \<exists>e. km (ep_kernel s) fd = Some (e, snd ev)) fds evs" by blast
  have inv': "ep_inv km ?s" using inv k by (simp add: ep_inv_def ep_chan_ok_def)
  have "ep_channels s fd = Some c" if "km (ep_kernel s) fd = Some (e, c)" for fd e c
    using ep_invD_chan [OF inv, of fd] ep_invD_kernel [OF inv, of fd] that
    by (cases "ep_channels s fd") (auto simp: ep_chan_ok_def)
  with fds(2) have reg: "list_all2 (\<lambda>fd ev. ep_channels ?s fd = Some (snd ev)) fds evs"
    by (auto elim!: list_all2_mono)
  obtain s' where s': "ep_fillActiveChannels evs [] ?s = Inr (map snd evs, s')" "ep_inv km s'"
    "ep_events_size s' = ep_events_size s"
    "\<forall>ev \<in> set evs. \<exists>ch. heap s' (snd ev) = Some ch \<and> revents ch = fst ev"
    using ep_fill_ok [OF inv' fds(1) reg, of "[]"] len by (auto simp: ep_fillActiveChannels_def)
  have "ep_inv km (s'\<lparr>ep_events_size := m\<rparr>)" for m
    using s'(2) by (simp add: ep_inv_def ep_chan_ok_def)
  with s' inv' r show ?thesis by (cases evs) (auto simp: EPollPoller_poll_def)
qed

theorem epoll_active_channels_witness:
  "\<exists>s'. EPollPoller_poll (table_wait 5) 10000 7 ep_demo1 = Inr (7, [0], s') \<and> ep_events_size s' = 2"
  using epoll_active_channels [OF ep_demo1_inv table_wait_spec [of 5], of 10000 "[(3, 0)]" "[5 \<mapsto> (3, 0)]" 7]
  by (auto simp: ep_demo1_def table_wait_def)

end
