(* ===== verification/Poll_Poller.thy ===== *)
theory Poll_Poller
  imports Poller_Interface
begin

text \<open>
  \<^verbatim>\<open>PollPoller\<close> of \<^verbatim>\<open>cobra/poller/poll_poller.cpp\<close>: the vector handed to \<^verbatim>\<open>poll(2)\<close>, the
  map from descriptors to channels, and the position of every channel in the vector, kept in the
  channel itself. What \<^verbatim>\<open>poll(2)\<close> answered is an argument of \<open>PollPoller_poll\<close>.
\<close>

unbundle bit_operations_syntax

section \<open>State and operations\<close>

record pollfd =
  pfd_fd :: int
  pfd_events :: "16 word"
  pfd_revents :: "16 word"

record 'cb poll_poller = "'cb chan_store" +
  pollfds :: "pollfd list"
  pp_channels :: "int \<rightharpoonup> nat"

definition PollPoller_new :: "(nat \<rightharpoonup> 'cb channel) \<Rightarrow> 'cb poll_poller" where
  "PollPoller_new h = \<lparr>heap = h, pollfds = [], pp_channels = Map.empty\<rparr>"

definition PollPoller_UpdateChannel ::
  "nat \<Rightarrow> ('cb, 'z) poll_poller_scheme \<Rightarrow> ('cb, 'z) poll_poller_scheme res" where
  "PollPoller_UpdateChannel c s =
     bindE (get_ch c s) (\<lambda>ch.
       if ch_index ch < 0
       then cassert (pp_channels s (ch_fd ch) = None)
         (let pfd = \<lparr>pfd_fd = ch_fd ch, pfd_events = ucast (events ch), pfd_revents = 0\<rparr>;
              s1 = s\<lparr>pollfds := pollfds s @ [pfd]\<rparr>;
              idx = int (length (pollfds s1)) - 1
          in bindE (set_index c idx s1)
               (\<lambda>s2. Inr (s2\<lparr>pp_channels := (pp_channels s2)(pfd_fd pfd \<mapsto> c)\<rparr>)))
       else cassert (pp_channels s (ch_fd ch) \<noteq> None)
         (cassert (pp_channels s (ch_fd ch) = Some c)
           (let idx = ch_index ch
            in cassert (0 \<le> idx \<and> idx < int (length (pollfds s)))
              (let pfd = pollfds s ! nat idx
               in cassert (pfd_fd pfd = ch_fd ch \<or> pfd_fd pfd = - ch_fd ch - 1)
                 (let pfd1 = pfd\<lparr>pfd_events := ucast (events ch), pfd_revents := 0\<rparr>;
                      pfd2 = (if isNoneEvent ch then pfd1\<lparr>pfd_fd := - ch_fd ch - 1\<rparr> else pfd1)
                  in Inr (s\<lparr>pollfds := (pollfds s)[nat idx := pfd2]\<rparr>))))))"

definition PollPoller_removeChannel ::
  "nat \<Rightarrow> ('cb, 'z) poll_poller_scheme \<Rightarrow> ('cb, 'z) poll_poller_scheme res" where
  "PollPoller_removeChannel c s =
     bindE (get_ch c s) (\<lambda>ch.
       cassert (pp_channels s (ch_fd ch) \<noteq> None)
         (cassert (pp_channels s (ch_fd ch) = Some c)
           (cassert (isNoneEvent ch)
             (let idx = ch_index ch
              in cassert (0 \<le> idx \<and> idx < int (length (pollfds s)))
                (let pfd = pollfds s ! nat idx
                 in cassert (pfd_fd pfd = - ch_fd ch - 1 \<and> scast (pfd_events pfd) = events ch)
                   (let s1 = s\<lparr>pp_channels := (pp_channels s)(ch_fd ch := None)\<rparr>
                    in if nat idx = length (pollfds s1) - 1
                       then Inr (s1\<lparr>pollfds := butlast (pollfds s1)\<rparr>)
                       else let channelAtEnd = pfd_fd (last (pollfds s1));
                                s2 = s1\<lparr>pollfds := (pollfds s1)
                                         [nat idx := last (pollfds s1),
                                          length (pollfds s1) - 1 := pollfds s1 ! nat idx]\<rparr>;
                                channelAtEnd = (if channelAtEnd < 0 then - channelAtEnd - 1
                                                else channelAtEnd)
                            in case pp_channels s2 channelAtEnd of
                                 None \<Rightarrow> Inl NullDeref
                               | Some d \<Rightarrow> bindE (set_index d idx s2)
                                   (\<lambda>s3. Inr (s3\<lparr>pollfds := butlast (pollfds s3)\<rparr>))))))))"

fun pp_fillActiveChannels ::
  "pollfd list \<Rightarrow> int \<Rightarrow> nat list \<Rightarrow> ('cb, 'z) poll_poller_scheme
     \<Rightarrow> (nat list \<times> ('cb, 'z) poll_poller_scheme) res" where
  "pp_fillActiveChannels [] numEvents active s = Inr (active, s)"
| "pp_fillActiveChannels (pfd # pfds) numEvents active s =
     (if 0 < numEvents
      then if 0 < sint (pfd_revents pfd)
           then (case pp_channels s (pfd_fd pfd) of
                   None \<Rightarrow> Inl NullDeref
                 | Some c \<Rightarrow> bindE (set_revents c (scast (pfd_revents pfd)) s)
                     (pp_fillActiveChannels pfds (numEvents - 1) (active @ [c])))
           else pp_fillActiveChannels pfds numEvents active s
      else Inr (active, s))"

text \<open>The answer of \<^verbatim>\<open>poll(2)\<close>: an \<^verbatim>\<open>errno\<close>, or a count and the \<^verbatim>\<open>revents\<close> it stored.\<close>

datatype poll_result = PollError int | PollOk int "16 word list"

definition PollPoller_poll ::
  "poll_result \<Rightarrow> int \<Rightarrow> ('cb, 'z) poll_poller_scheme
     \<Rightarrow> (int \<times> nat list \<times> ('cb, 'z) poll_poller_scheme) res" where
  "PollPoller_poll r now s =
     (case r of
        PollError e \<Rightarrow> Inr (now, [], s)
      | PollOk numEvents rs \<Rightarrow>
          (let s1 = s\<lparr>pollfds := map (\<lambda>(p, x). p\<lparr>pfd_revents := x\<rparr>) (zip (pollfds s) rs)\<rparr>
           in if 0 < numEvents
              then bindE (pp_fillActiveChannels (pollfds s1) numEvents [] s1)
                     (\<lambda>(active, s2). Inr (now, active, s2))
              else Inr (now, [], s1)))"

section \<open>Invariant\<close>

text \<open>An ignored entry of descriptor \<open>fd\<close> carries \<open>- fd - 1\<close>; \<open>real_fd\<close> undoes it.\<close>

definition real_fd :: "pollfd \<Rightarrow> int" where
  "real_fd p = (if pfd_fd p < 0 then - pfd_fd p - 1 else pfd_fd p)"

definition pp_entry_ok :: "('cb, 'z) poll_poller_scheme \<Rightarrow> nat \<Rightarrow> bool" where
  "pp_entry_ok s i \<longleftrightarrow> (\<exists>c ch. pp_channels s (real_fd (pollfds s ! i)) = Some c \<and> heap s c = Some ch
     \<and> ch_fd ch = real_fd (pollfds s ! i) \<and> ch_index ch = int i)"

definition pp_chan_ok :: "('cb, 'z) poll_poller_scheme \<Rightarrow> int \<Rightarrow> nat \<Rightarrow> bool" where
  "pp_chan_ok s fd c \<longleftrightarrow> 0 \<le> fd \<and> (\<exists>ch. heap s c = Some ch \<and> ch_fd ch = fd \<and> 0 \<le> ch_index ch
     \<and> nat (ch_index ch) < length (pollfds s) \<and> real_fd (pollfds s ! nat (ch_index ch)) = fd)"

definition pp_inv :: "('cb, 'z) poll_poller_scheme \<Rightarrow> bool" where
  "pp_inv s \<longleftrightarrow> (\<forall>i < length (pollfds s). pp_entry_ok s i)
     \<and> (\<forall>fd c. pp_channels s fd = Some c \<longrightarrow> pp_chan_ok s fd c)"

text \<open>The events the kernel is asked to watch for a descriptor; none for an ignored entry.\<close>

definition pp_interest :: "('cb, 'z) poll_poller_scheme \<Rightarrow> int \<Rightarrow> mask" where
  "pp_interest s fd =
     (case find (\<lambda>p. pfd_fd p = fd \<and> 0 \<le> fd) (pollfds s) of None \<Rightarrow> 0 | Some p \<Rightarrow> ucast (pfd_events p))"

lemma pp_invD_entry: "pp_inv s \<Longrightarrow> i < length (pollfds s) \<Longrightarrow> pp_entry_ok s i"
  by (simp add: pp_inv_def)

lemma pp_invD_chan: "pp_inv s \<Longrightarrow> pp_channels s fd = Some c \<Longrightarrow> pp_chan_ok s fd c"
  by (simp add: pp_inv_def)

lemma real_fd_inj:
  assumes "pp_inv s" and "i < length (pollfds s)" and "j < length (pollfds s)"
    and "real_fd (pollfds s ! i) = real_fd (pollfds s ! j)"
  shows "i = j"
  using pp_invD_entry [OF assms(1,2)] pp_invD_entry [OF assms(1,3)] assms(4)
  unfolding pp_entry_ok_def by (metis of_nat_eq_iff option.inject)

lemma pp_inv_new: "pp_inv (PollPoller_new h)"
  by (simp add: pp_inv_def PollPoller_new_def)

lemma pp_inv_cong:
  assumes "heap s' = heap s" and "pp_channels s' = pp_channels s"
    and map: "map real_fd (pollfds s') = map real_fd (pollfds s)"
  shows "pp_inv s' \<longleftrightarrow> pp_inv s"
proof -
  have len: "length (pollfds s') = length (pollfds s)"
    using map by (rule map_eq_imp_length_eq)
  have r: "real_fd (pollfds s' ! i) = real_fd (pollfds s ! i)" if "i < length (pollfds s)" for i
    using map that len by (metis nth_map)
  have "pp_entry_ok s' i \<longleftrightarrow> pp_entry_ok s i" if "i < length (pollfds s)" for i
    using r [OF that] assms by (simp add: pp_entry_ok_def)
  moreover have "pp_chan_ok s' fd c \<longleftrightarrow> pp_chan_ok s fd c" for fd c
    unfolding pp_chan_ok_def len assms(1) using r by metis
  ultimately show ?thesis by (simp add: pp_inv_def len assms(2))
qed

text \<open>The invariant does not depend on the events a channel wants or has got.\<close>

lemma pp_inv_channel_update:
  assumes "pp_inv s" and "heap s c = Some ch" and "ch_fd ch' = ch_fd ch" and "ch_index ch' = ch_index ch"
  shows "pp_inv (s\<lparr>heap := (heap s)(c \<mapsto> ch')\<rparr>)"
proof -
  let ?s = "s\<lparr>heap := (heap s)(c \<mapsto> ch')\<rparr>"
  have "pp_entry_ok ?s i" if "i < length (pollfds s)" for i
    using pp_invD_entry [OF assms(1) that] assms(2-4) by (fastforce simp: pp_entry_ok_def)
  moreover have "pp_chan_ok ?s fd d" if "pp_channels s fd = Some d" for fd d
    using pp_invD_chan [OF assms(1) that] assms(2-4) by (auto simp: pp_chan_ok_def)
  ultimately show ?thesis by (simp add: pp_inv_def)
qed

lemma pp_interest_at:
  assumes "pp_inv s" and "i < length (pollfds s)" and "pfd_fd (pollfds s ! i) = fd" and "0 \<le> fd"
  shows "pp_interest s fd = ucast (pfd_events (pollfds s ! i))"
proof -
  have "pfd_fd (pollfds s ! j) \<noteq> fd" if "j < i" for j
    using real_fd_inj [OF assms(1) _ assms(2), of j] that assms(2-4) by (auto simp: real_fd_def)
  then have "find (\<lambda>p. pfd_fd p = fd \<and> 0 \<le> fd) (pollfds s) = Some (pollfds s ! i)"
    unfolding find_Some_iff using assms(2-4) by blast
  then show ?thesis by (simp add: pp_interest_def)
qed

lemma pp_interest_none:
  "(\<forall>i < length (pollfds s). pfd_fd (pollfds s ! i) \<noteq> fd) \<or> fd < 0 \<Longrightarrow> pp_interest s fd = 0"
  by (auto simp: pp_interest_def find_None_iff in_set_conv_nth split: option.splits dest!: find_Some_iff [THEN iffD1])

text \<open>Two states that agree on the watched entries of a descriptor agree on its interest.\<close>

lemma pp_interest_cong:
  assumes "pp_inv s" and "pp_inv s'"
    and "\<And>i. i < length (pollfds s) \<Longrightarrow> pfd_fd (pollfds s ! i) = fd \<Longrightarrow> 0 \<le> fd \<Longrightarrow>
      \<exists>j < length (pollfds s'). pollfds s' ! j = pollfds s ! i"
    and "\<And>j. j < length (pollfds s') \<Longrightarrow> pfd_fd (pollfds s' ! j) = fd \<Longrightarrow> 0 \<le> fd \<Longrightarrow>
      \<exists>i < length (pollfds s). pfd_fd (pollfds s ! i) = fd"
  shows "pp_interest s' fd = pp_interest s fd"
proof (cases "0 \<le> fd \<and> (\<exists>i < length (pollfds s). pfd_fd (pollfds s ! i) = fd)")
  case True
  then obtain i where i: "i < length (pollfds s)" "pfd_fd (pollfds s ! i) = fd" "0 \<le> fd" by blast
  with assms(3) obtain j where "j < length (pollfds s')" "pollfds s' ! j = pollfds s ! i" by blast
  with i pp_interest_at [OF assms(1) i] pp_interest_at [OF assms(2), of j fd] show ?thesis by simp
next
  case False
  then have "pp_interest s fd = 0" by (intro pp_interest_none) auto
  moreover have "pp_interest s' fd = 0" using False assms(4) by (intro pp_interest_none) force
  ultimately show ?thesis by simp
qed

section \<open>UpdateChannel\<close>

definition pp_update_pre :: "('cb, 'z) poll_poller_scheme \<Rightarrow> nat \<Rightarrow> bool" where
  "pp_update_pre s c \<longleftrightarrow> (\<exists>ch. heap s c = Some ch \<and> 0 \<le> ch_fd ch
     \<and> pp_channels s (ch_fd ch) = (if ch_index ch < 0 then None else Some c))"

text \<open>The state after a new channel has been added.\<close>

definition pp_added :: "nat \<Rightarrow> 'cb channel \<Rightarrow> ('cb, 'z) poll_poller_scheme \<Rightarrow> ('cb, 'z) poll_poller_scheme" where
  "pp_added c ch s =
     s\<lparr>pollfds := pollfds s @ [\<lparr>pfd_fd = ch_fd ch, pfd_events = ucast (events ch), pfd_revents = 0\<rparr>],
       heap := (heap s)(c \<mapsto> ch\<lparr>ch_index := int (length (pollfds s))\<rparr>),
       pp_channels := (pp_channels s)(ch_fd ch \<mapsto> c)\<rparr>"

lemma pp_added_inv:
  assumes inv: "pp_inv s" and ch: "heap s c = Some ch" "0 \<le> ch_fd ch" "ch_index ch < 0"
    and none: "pp_channels s (ch_fd ch) = None"
  shows "pp_inv (pp_added c ch s)"
proof -
  let ?n = "length (pollfds s)" and ?s = "pp_added c ch s"
  have c: "d \<noteq> c" if "pp_channels s fd = Some d" for fd d
    using pp_invD_chan [OF inv that] ch by (auto simp: pp_chan_ok_def)
  have p: "real_fd \<lparr>pfd_fd = ch_fd ch, pfd_events = e, pfd_revents = 0\<rparr> = ch_fd ch" for e
    using ch(2) by (simp add: real_fd_def)
  have old: "real_fd (pollfds s ! i) \<noteq> ch_fd ch" if "i < ?n" for i
    using pp_invD_entry [OF inv that] none by (auto simp: pp_entry_ok_def)
  have "pp_entry_ok ?s i" if "i < length (pollfds ?s)" for i
  proof (cases "i = ?n")
    case True
    then show ?thesis by (simp add: pp_entry_ok_def pp_added_def p)
  next
    case False
    with that have i: "i < ?n" by (simp add: pp_added_def)
    with pp_invD_entry [OF inv i] old [OF i] c show ?thesis
      by (fastforce simp: pp_entry_ok_def pp_added_def nth_append)
  qed
  moreover have "pp_chan_ok ?s fd d" if "pp_channels ?s fd = Some d" for fd d
  proof (cases "fd = ch_fd ch")
    case True
    with that show ?thesis by (simp add: pp_chan_ok_def pp_added_def p ch)
  next
    case False
    with that have "pp_channels s fd = Some d" by (simp add: pp_added_def)
    with pp_invD_chan [OF inv this] c [OF this] show ?thesis
      by (auto simp: pp_chan_ok_def pp_added_def nth_append)
  qed
  ultimately show ?thesis by (simp add: pp_inv_def)
qed

lemma pp_added_interest:
  assumes inv: "pp_inv s" and inv': "pp_inv (pp_added c ch s)" and fd: "0 \<le> ch_fd ch"
  shows "pp_interest (pp_added c ch s)
    = (pp_interest s)(ch_fd ch := ucast (ucast (events ch) :: 16 word))"
proof
  fix fd'
  let ?n = "length (pollfds s)" and ?s = "pp_added c ch s"
  show "pp_interest ?s fd' = ((pp_interest s)(ch_fd ch := ucast (ucast (events ch) :: 16 word))) fd'"
  proof (cases "fd' = ch_fd ch")
    case True
    then show ?thesis
      using pp_interest_at [OF inv', of ?n fd'] fd by (simp add: pp_added_def)
  next
    case False
    have "pp_interest ?s fd' = pp_interest s fd'"
    proof (rule pp_interest_cong [OF inv inv'])
      fix i assume "i < ?n"
      then show "\<exists>j < length (pollfds ?s). pollfds ?s ! j = pollfds s ! i"
        by (intro exI [of _ i]) (simp add: pp_added_def nth_append)
    next
      fix j assume "j < length (pollfds ?s)" "pfd_fd (pollfds ?s ! j) = fd'"
      with False show "\<exists>i < ?n. pfd_fd (pollfds s ! i) = fd'"
        by (auto simp: pp_added_def nth_append less_Suc_eq split: if_splits)
    qed
    with False show ?thesis by simp
  qed
qed

lemma pp_update_new:
  assumes "pp_inv s" and ch: "heap s c = Some ch" "0 \<le> ch_fd ch" "ch_index ch < 0"
    and "pp_channels s (ch_fd ch) = None"
  shows "PollPoller_UpdateChannel c s = Inr (pp_added c ch s)"
  using assms by (simp add: PollPoller_UpdateChannel_def set_index_def pp_added_def Let_def)

text \<open>The state after the entry of a known channel has been changed.\<close>

definition pp_new_entry :: "'cb channel \<Rightarrow> pollfd \<Rightarrow> pollfd" where
  "pp_new_entry ch pfd =
     (let pfd1 = pfd\<lparr>pfd_events := ucast (events ch), pfd_revents := 0\<rparr>
      in if isNoneEvent ch then pfd1\<lparr>pfd_fd := - ch_fd ch - 1\<rparr> else pfd1)"

definition pp_changed :: "'cb channel \<Rightarrow> ('cb, 'z) poll_poller_scheme \<Rightarrow> ('cb, 'z) poll_poller_scheme" where
  "pp_changed ch s =
     s\<lparr>pollfds := (pollfds s)[nat (ch_index ch) := pp_new_entry ch (pollfds s ! nat (ch_index ch))]\<rparr>"

lemma pp_update_old:
  assumes inv: "pp_inv s" and ch: "heap s c = Some ch" "0 \<le> ch_index ch"
    and c: "pp_channels s (ch_fd ch) = Some c"
  shows "PollPoller_UpdateChannel c s = Inr (pp_changed ch s)"
proof -
  have "pp_chan_ok s (ch_fd ch) c" by (rule pp_invD_chan [OF inv c])
  then have "ch_index ch < int (length (pollfds s))"
    and "pfd_fd (pollfds s ! nat (ch_index ch)) = ch_fd ch
       \<or> pfd_fd (pollfds s ! nat (ch_index ch)) = - ch_fd ch - 1"
    using ch by (auto simp: pp_chan_ok_def real_fd_def split: if_splits)
  with ch c show ?thesis
    by (simp add: PollPoller_UpdateChannel_def pp_changed_def pp_new_entry_def Let_def)
qed

lemma pp_changed_real_fd:
  assumes inv: "pp_inv s" and ch: "heap s c = Some ch" and c: "pp_channels s (ch_fd ch) = Some c"
  shows "map real_fd (pollfds (pp_changed ch s)) = map real_fd (pollfds s)"
proof -
  from pp_invD_chan [OF inv c] ch have i: "nat (ch_index ch) < length (pollfds s)" "0 \<le> ch_fd ch"
    and "real_fd (pollfds s ! nat (ch_index ch)) = ch_fd ch"
    by (auto simp: pp_chan_ok_def)
  then have "real_fd (pp_new_entry ch (pollfds s ! nat (ch_index ch))) = real_fd (pollfds s ! nat (ch_index ch))"
    by (auto simp: pp_new_entry_def Let_def real_fd_def)
  then show ?thesis
    by (simp add: pp_changed_def map_update) (metis i(1) list_update_id map_update nth_map length_map)
qed

lemma pp_changed_inv:
  assumes "pp_inv s" and "heap s c = Some ch" and "pp_channels s (ch_fd ch) = Some c"
  shows "pp_inv (pp_changed ch s)"
  using pp_inv_cong [OF _ _ pp_changed_real_fd [OF assms]] assms(1) by (simp add: pp_changed_def)

lemma pp_changed_interest:
  assumes inv: "pp_inv s" and ch: "heap s c = Some ch" and c: "pp_channels s (ch_fd ch) = Some c"
    and watched: "pfd_fd (pollfds s ! nat (ch_index ch)) = ch_fd ch \<or> isNoneEvent ch"
  shows "pp_interest (pp_changed ch s)
    = (pp_interest s)(ch_fd ch := ucast (ucast (events ch) :: 16 word))"
proof
  fix fd'
  let ?i = "nat (ch_index ch)" and ?s = "pp_changed ch s"
  from pp_invD_chan [OF inv c] ch have i: "?i < length (pollfds s)" and fd: "0 \<le> ch_fd ch"
    and r: "real_fd (pollfds s ! ?i) = ch_fd ch"
    by (auto simp: pp_chan_ok_def)
  have inv': "pp_inv ?s" by (rule pp_changed_inv [OF inv ch c])
  have at: "pollfds ?s ! ?i = pp_new_entry ch (pollfds s ! ?i)"
    and others: "\<And>j. j \<noteq> ?i \<Longrightarrow> pollfds ?s ! j = pollfds s ! j"
    and len: "length (pollfds ?s) = length (pollfds s)"
    using i by (simp_all add: pp_changed_def)
  have only: "j = ?i" if "j < length (pollfds s)" "pfd_fd (pollfds s ! j) = ch_fd ch" for j
    using real_fd_inj [OF inv that(1) i] that(2) r fd by (simp add: real_fd_def)
  show "pp_interest ?s fd' = ((pp_interest s)(ch_fd ch := ucast (ucast (events ch) :: 16 word))) fd'"
  proof (cases "fd' = ch_fd ch")
    case True
    show ?thesis
    proof (cases "isNoneEvent ch")
      case none: True
      have "pfd_fd (pollfds ?s ! j) \<noteq> fd'" if "j < length (pollfds ?s)" for j
        using that only [of j] others [of j] at none True fd len
        by (cases "j = ?i") (auto simp: pp_new_entry_def Let_def)
      then have "pp_interest ?s fd' = 0" by (intro pp_interest_none) blast
      with True none show ?thesis by (simp add: isNoneEvent_def kNoneEvent_def)
    next
      case False
      with watched at i len fd True pp_interest_at [OF inv', of ?i fd'] show ?thesis
        by (simp add: pp_new_entry_def Let_def)
    qed
  next
    case False
    have "pp_interest ?s fd' = pp_interest s fd'"
    proof (rule pp_interest_cong [OF inv inv'])
      fix j assume j: "j < length (pollfds s)" "pfd_fd (pollfds s ! j) = fd'" "0 \<le> fd'"
      then have "j \<noteq> ?i" using r False by (auto simp: real_fd_def)
      with others [of j] j(1) len show "\<exists>k < length (pollfds ?s). pollfds ?s ! k = pollfds s ! j"
        by auto
    next
      fix j assume "j < length (pollfds ?s)" "pfd_fd (pollfds ?s ! j) = fd'" "0 \<le> fd'"
      then show "\<exists>k < length (pollfds s). pfd_fd (pollfds s ! k) = fd'"
        using False others [of j] at fd len watched
        by (cases "j = ?i") (auto simp: pp_new_entry_def Let_def split: if_splits)
    qed
    with False show ?thesis by simp
  qed
qed

section \<open>removeChannel\<close>

definition pp_remove_pre :: "('cb, 'z) poll_poller_scheme \<Rightarrow> nat \<Rightarrow> bool" where
  "pp_remove_pre s c \<longleftrightarrow> (\<exists>ch. heap s c = Some ch \<and> pp_channels s (ch_fd ch) = Some c \<and> isNoneEvent ch
     \<and> pfd_fd (pollfds s ! nat (ch_index ch)) = - ch_fd ch - 1
     \<and> pfd_events (pollfds s ! nat (ch_index ch)) = 0)"

text \<open>The state after a removal: the last entry takes the removed place and its channel learns it.\<close>

definition pp_removed :: "'cb channel \<Rightarrow> ('cb, 'z) poll_poller_scheme \<Rightarrow> ('cb, 'z) poll_poller_scheme" where
  "pp_removed ch s =
     (let n = length (pollfds s) - 1; i = nat (ch_index ch);
          d = the (pp_channels s (real_fd (pollfds s ! n))); chd = the (heap s d)
      in s\<lparr>pp_channels := (pp_channels s)(ch_fd ch := None),
           pollfds := take n ((pollfds s)[i := pollfds s ! n]),
           heap := (if i = n then heap s else (heap s)(d \<mapsto> chd\<lparr>ch_index := ch_index ch\<rparr>))\<rparr>)"

lemma pp_last_channel:
  assumes "pp_inv s" and "pollfds s \<noteq> []"
  obtains d chd where "pp_channels s (real_fd (pollfds s ! (length (pollfds s) - 1))) = Some d"
    and "heap s d = Some chd" and "ch_index chd = int (length (pollfds s) - 1)"
  using pp_invD_entry [OF assms(1), of "length (pollfds s) - 1"] assms(2)
  by (auto simp: pp_entry_ok_def)

lemma pp_remove_eq:
  assumes inv: "pp_inv s" and ch: "heap s c = Some ch" "pp_channels s (ch_fd ch) = Some c"
    and none: "isNoneEvent ch"
    and ign: "pfd_fd (pollfds s ! nat (ch_index ch)) = - ch_fd ch - 1"
      "pfd_events (pollfds s ! nat (ch_index ch)) = 0"
  shows "PollPoller_removeChannel c s = Inr (pp_removed ch s)"
proof -
  define n where "n = length (pollfds s) - 1"
  let ?i = "nat (ch_index ch)"
  from pp_invD_chan [OF inv ch(2)] ch(1) have i: "0 \<le> ch_index ch" "?i < length (pollfds s)"
    and ri: "real_fd (pollfds s ! ?i) = ch_fd ch"
    by (auto simp: pp_chan_ok_def)
  then have ne: "pollfds s \<noteq> []" and len: "length (pollfds s) = Suc n"
    by (auto simp: n_def)
  then have last: "last (pollfds s) = pollfds s ! n" and bl: "\<And>xs. length xs = Suc n \<Longrightarrow> butlast xs = take n xs"
    by (simp_all add: last_conv_nth butlast_conv_take)
  have guards: "events ch = 0" "ch_index ch < int (length (pollfds s))" "(scast (0 :: 16 word) :: mask) = 0"
    using none i by (simp_all add: isNoneEvent_def kNoneEvent_def)
  obtain d chd where d: "pp_channels s (real_fd (pollfds s ! n)) = Some d" "heap s d = Some chd"
    using pp_last_channel [OF inv ne] unfolding n_def by blast
  show ?thesis
  proof (cases "?i = n")
    case True
    then show ?thesis
      using ch none ign i guards
      by (simp add: PollPoller_removeChannel_def pp_removed_def Let_def len bl)
  next
    case False
    then have "real_fd (pollfds s ! n) \<noteq> ch_fd ch"
      using real_fd_inj [OF inv i(2), of n] ri len by auto
    then show ?thesis
      using False d ch none ign i guards
      by (simp add: PollPoller_removeChannel_def pp_removed_def Let_def len bl last set_index_def
          real_fd_def split: if_splits)
  qed
qed

text \<open>
  The removed position \<open>i\<close>, the last position \<open>n\<close>, the channel \<open>d\<close> there, and the state
  after the removal in terms of them.
\<close>

lemma pp_removed_view:
  assumes inv: "pp_inv s" and ch: "heap s c = Some ch" "pp_channels s (ch_fd ch) = Some c"
  obtains i n d chd where
    "ch_index ch = int i" and "i \<le> n" and "length (pollfds s) = Suc n"
    and "pp_channels s (real_fd (pollfds s ! n)) = Some d" and "heap s d = Some chd"
    and "ch_index chd = int n" and "ch_fd chd = real_fd (pollfds s ! n)"
    and "\<And>j. j < n \<Longrightarrow> pollfds (pp_removed ch s) ! j = pollfds s ! (if j = i then n else j)"
    and "length (pollfds (pp_removed ch s)) = n"
    and "pp_channels (pp_removed ch s) = (pp_channels s)(ch_fd ch := None)"
    and "heap (pp_removed ch s) = (if i = n then heap s else (heap s)(d \<mapsto> chd\<lparr>ch_index := int i\<rparr>))"
    and "real_fd (pollfds s ! i) = ch_fd ch"
    and "\<And>j. j \<noteq> i \<Longrightarrow> j \<le> n \<Longrightarrow> real_fd (pollfds s ! j) \<noteq> ch_fd ch"
proof -
  define n where "n = length (pollfds s) - 1"
  define i where "i = nat (ch_index ch)"
  from pp_invD_chan [OF inv ch(2)] ch(1) have i: "ch_index ch = int i" "i < length (pollfds s)"
    and ri: "real_fd (pollfds s ! i) = ch_fd ch"
    by (auto simp: pp_chan_ok_def i_def)
  then have len: "length (pollfds s) = Suc n" and ne: "pollfds s \<noteq> []" by (auto simp: n_def)
  obtain d chd where d: "pp_channels s (real_fd (pollfds s ! n)) = Some d" "heap s d = Some chd"
      "ch_index chd = int n"
    using pp_last_channel [OF inv ne] unfolding n_def by blast
  then have "ch_fd chd = real_fd (pollfds s ! n)"
    using pp_invD_chan [OF inv d(1)] by (auto simp: pp_chan_ok_def)
  moreover have "real_fd (pollfds s ! j) \<noteq> ch_fd ch" if "j \<noteq> i" "j \<le> n" for j
    using real_fd_inj [OF inv _ i(2), of j] ri that len by auto
  moreover have "pollfds (pp_removed ch s) ! j = pollfds s ! (if j = i then n else j)" if "j < n" for j
    using that i len by (simp add: pp_removed_def Let_def i_def [symmetric] nth_list_update)
  ultimately show ?thesis
    using that [of i n d chd] d i ri len by (simp add: pp_removed_def Let_def)
qed

lemma pp_removed_inv:
  assumes inv: "pp_inv s" and ch: "heap s c = Some ch" "pp_channels s (ch_fd ch) = Some c"
  shows "pp_inv (pp_removed ch s)"
proof -
  let ?s = "pp_removed ch s"
  obtain i n d chd where i: "ch_index ch = int i" "i \<le> n" and len: "length (pollfds s) = Suc n"
    and d: "pp_channels s (real_fd (pollfds s ! n)) = Some d" "heap s d = Some chd"
      "ch_index chd = int n" "ch_fd chd = real_fd (pollfds s ! n)"
    and fds: "\<And>j. j < n \<Longrightarrow> pollfds ?s ! j = pollfds s ! (if j = i then n else j)"
    and len': "length (pollfds ?s) = n"
    and chs: "pp_channels ?s = (pp_channels s)(ch_fd ch := None)"
    and hp: "heap ?s = (if i = n then heap s else (heap s)(d \<mapsto> chd\<lparr>ch_index := int i\<rparr>))"
    and ri: "real_fd (pollfds s ! i) = ch_fd ch"
    and other: "\<And>j. j \<noteq> i \<Longrightarrow> j \<le> n \<Longrightarrow> real_fd (pollfds s ! j) \<noteq> ch_fd ch"
    using pp_removed_view [OF inv ch] by blast
  have "pp_entry_ok ?s j" if j: "j < n" for j
  proof (cases "j = i")
    case True
    with d fds [OF j] other [of n] j show ?thesis by (auto simp: pp_entry_ok_def chs hp)
  next
    case False
    from pp_invD_entry [OF inv, of j] j len obtain e che where
      "pp_channels s (real_fd (pollfds s ! j)) = Some e" "heap s e = Some che"
      "ch_fd che = real_fd (pollfds s ! j)" "ch_index che = int j"
      by (auto simp: pp_entry_ok_def)
    moreover from this d j have "e \<noteq> d" by auto
    ultimately show ?thesis
      using False fds [OF j] other [of j] j by (auto simp: pp_entry_ok_def chs hp)
  qed
  moreover have "pp_chan_ok ?s fd e" if "pp_channels ?s fd = Some e" for fd e
  proof -
    have e: "pp_channels s fd = Some e" "fd \<noteq> ch_fd ch"
      using that by (auto simp: chs split: if_splits)
    with pp_invD_chan [OF inv e(1)] obtain k che where k: "heap s e = Some che" "ch_fd che = fd"
        "ch_index che = int k" "k \<le> n" "real_fd (pollfds s ! k) = fd" "0 \<le> fd"
      unfolding pp_chan_ok_def len less_Suc_eq_le by (metis int_nat_eq)
    then have "k \<noteq> i" using ri e(2) by auto
    show ?thesis
    proof (cases "k = n")
      case True
      with k d e have "e = d" by simp
      with True k d e \<open>k \<noteq> i\<close> i fds [of i] show ?thesis
        by (auto simp: pp_chan_ok_def hp len')
    next
      case False
      with k d have "e \<noteq> d" by auto
      with False k \<open>k \<noteq> i\<close> fds [of k] show ?thesis by (auto simp: pp_chan_ok_def hp len')
    qed
  qed
  ultimately show ?thesis by (simp add: pp_inv_def len')
qed

lemma pp_removed_interest:
  assumes inv: "pp_inv s" and ch: "heap s c = Some ch" "pp_channels s (ch_fd ch) = Some c"
    and ign: "pfd_fd (pollfds s ! nat (ch_index ch)) = - ch_fd ch - 1"
  shows "pp_interest (pp_removed ch s) = pp_interest s"
proof
  fix fd
  let ?s = "pp_removed ch s"
  obtain i n d chd where i: "ch_index ch = int i" "i \<le> n" and len: "length (pollfds s) = Suc n"
    and fds: "\<And>j. j < n \<Longrightarrow> pollfds ?s ! j = pollfds s ! (if j = i then n else j)"
    and len': "length (pollfds ?s) = n"
    using pp_removed_view [OF inv ch] by metis
  from pp_invD_chan [OF inv ch(2)] have nonneg: "0 \<le> ch_fd ch" by (auto simp: pp_chan_ok_def)
  show "pp_interest ?s fd = pp_interest s fd"
  proof (rule pp_interest_cong [OF inv pp_removed_inv [OF inv ch]])
    fix j assume j: "j < length (pollfds s)" "pfd_fd (pollfds s ! j) = fd" "0 \<le> fd"
    then have "j \<noteq> i" using ign i nonneg by auto
    then show "\<exists>k < length (pollfds ?s). pollfds ?s ! k = pollfds s ! j"
      using j len len' fds [of i] fds [of j] i(2)
      by (intro exI [of _ "if j = n then i else j"]) auto
  next
    fix j assume "j < length (pollfds ?s)" "pfd_fd (pollfds ?s ! j) = fd"
    then show "\<exists>k < length (pollfds s). pfd_fd (pollfds s ! k) = fd"
      using fds [of j] len len' by (metis less_Suc_eq)
  qed
qed

section \<open>The poller contract\<close>

text \<open>
  \<^verbatim>\<open>UpdateChannel\<close> meets the contract when the entry of a known channel is not ignored, or
  when the channel wants no event: it never makes an ignored entry watched again.
\<close>

definition pp_watch_pre :: "('cb, 'z) poll_poller_scheme \<Rightarrow> nat \<Rightarrow> bool" where
  "pp_watch_pre s c \<longleftrightarrow> pp_update_pre s c
     \<and> (\<forall>ch. heap s c = Some ch \<longrightarrow> 0 \<le> ch_index ch \<longrightarrow>
          pfd_fd (pollfds s ! nat (ch_index ch)) = ch_fd ch \<or> isNoneEvent ch)"

lemma pp_update_ok:
  assumes "pp_inv s" and "heap s c = Some ch" and "wanted (events ch)" and "pp_watch_pre s c"
  shows "\<exists>s'. PollPoller_UpdateChannel c s = Inr s' \<and> pp_inv s'
    \<and> pp_interest s' = (pp_interest s)(ch_fd ch := events ch) \<and> same_channels s s'"
proof (cases "ch_index ch < 0")
  case True
  with assms have pre: "0 \<le> ch_fd ch" "pp_channels s (ch_fd ch) = None"
    by (auto simp: pp_watch_pre_def pp_update_pre_def)
  have inv': "pp_inv (pp_added c ch s)"
    using pp_added_inv [OF assms(1,2) pre(1) True pre(2)] .
  show ?thesis
    using pp_update_new [OF assms(1,2) pre(1) True pre(2)] inv'
      pp_added_interest [OF assms(1) inv' pre(1)] assms(2,3)
    by (simp add: wanted_short same_channels_index pp_added_def)
next
  case False
  with assms have c: "pp_channels s (ch_fd ch) = Some c"
    and w: "pfd_fd (pollfds s ! nat (ch_index ch)) = ch_fd ch \<or> isNoneEvent ch"
    by (auto simp: pp_watch_pre_def pp_update_pre_def)
  then show ?thesis
    using pp_update_old [OF assms(1,2) _ c] pp_changed_inv [OF assms(1,2) c]
      pp_changed_interest [OF assms(1,2) c w] False assms(3)
    by (simp add: wanted_short same_channels_def pp_changed_def)
qed

lemma pp_remove_ok:
  assumes "pp_inv s" and "heap s c = Some ch" and "pp_remove_pre s c"
  shows "\<exists>s'. PollPoller_removeChannel c s = Inr s' \<and> pp_inv s'
    \<and> pp_interest s' = (pp_interest s)(ch_fd ch := 0)
    \<and> same_channels s s' \<and> pp_channels s' = (pp_channels s)(ch_fd ch := None)"
proof -
  from assms have pre: "pp_channels s (ch_fd ch) = Some c" "isNoneEvent ch"
    "pfd_fd (pollfds s ! nat (ch_index ch)) = - ch_fd ch - 1"
    "pfd_events (pollfds s ! nat (ch_index ch)) = 0"
    by (auto simp: pp_remove_pre_def)
  obtain i n d chd where chs: "pp_channels (pp_removed ch s) = (pp_channels s)(ch_fd ch := None)"
    and hp: "heap s d = Some chd"
      "heap (pp_removed ch s) = (if i = n then heap s else (heap s)(d \<mapsto> chd\<lparr>ch_index := int i\<rparr>))"
    using pp_removed_view [OF assms(1,2) pre(1)] by metis
  have "pfd_fd (pollfds s ! j) \<noteq> ch_fd ch" if "j < length (pollfds s)" for j
    using real_fd_inj [OF assms(1) that, of "nat (ch_index ch)"] pp_invD_chan [OF assms(1) pre(1)]
      assms(2) pre(3) by (auto simp: pp_chan_ok_def real_fd_def split: if_splits)
  then have "pp_interest s (ch_fd ch) = 0" by (intro pp_interest_none) blast
  then have "(pp_interest s)(ch_fd ch := 0) = pp_interest s" by auto
  then show ?thesis
    using pp_remove_eq [OF assms(1,2) pre] pp_removed_inv [OF assms(1,2) pre(1)]
      pp_removed_interest [OF assms(1,2) pre(1,3)] chs hp
    by (simp add: same_channels_def)
qed

interpretation ppc: poller_contract pp_inv pp_interest PollPoller_UpdateChannel
  PollPoller_removeChannel pp_watch_pre pp_remove_pre
proof unfold_locales
  fix s :: "('cb, 'z) poll_poller_scheme" and c ch e
  assume a: "pp_inv s" "heap s c = Some ch"
  show "pp_inv (s\<lparr>heap := (heap s)(c \<mapsto> ch\<lparr>events := e\<rparr>)\<rparr>)
    \<and> pp_interest (s\<lparr>heap := (heap s)(c \<mapsto> ch\<lparr>events := e\<rparr>)\<rparr>) = pp_interest s"
    using pp_inv_channel_update [OF a] by (simp add: pp_interest_def fun_eq_iff)
qed (use pp_update_ok pp_remove_ok in blast)+

section \<open>Reporting active channels\<close>

text \<open>The entries with a positive \<^verbatim>\<open>revents\<close> and their channels, in the order of the vector.\<close>

definition ready_entry :: "pollfd \<Rightarrow> bool" where
  "ready_entry p \<longleftrightarrow> 0 < sint (pfd_revents p)"

definition ready_channels :: "('cb, 'z) poll_poller_scheme \<Rightarrow> pollfd list \<Rightarrow> nat list" where
  "ready_channels s ps = map (\<lambda>p. the (pp_channels s (pfd_fd p))) (filter ready_entry ps)"

lemma fill_ok:
  assumes "\<And>p. p \<in> set ps \<Longrightarrow> ready_entry p \<Longrightarrow> \<exists>c ch. pp_channels s (pfd_fd p) = Some c \<and> heap s c = Some ch"
    and "n = int (length (filter ready_entry ps))"
  shows "\<exists>s'. pp_fillActiveChannels ps n active s = Inr (active @ ready_channels s ps, s')
    \<and> pp_channels s' = pp_channels s \<and> pollfds s' = pollfds s"
  using assms
proof (induction ps arbitrary: n active s)
  case Nil
  then show ?case by (simp add: ready_channels_def)
next
  case (Cons p ps)
  show ?case
  proof (cases "ready_entry p")
    case True
    with Cons.prems(1) [of p] obtain c ch where c: "pp_channels s (pfd_fd p) = Some c" "heap s c = Some ch"
      by auto
    let ?s = "s\<lparr>heap := (heap s)(c \<mapsto> ch\<lparr>revents := scast (pfd_revents p)\<rparr>)\<rparr>"
    have "\<exists>c ch. pp_channels ?s (pfd_fd q) = Some c \<and> heap ?s c = Some ch"
      if "q \<in> set ps" "ready_entry q" for q
      using Cons.prems(1) [of q] that by (auto split: if_splits)
    from Cons.IH [OF this, of "n - 1" "active @ [c]"] Cons.prems(2) True c show ?thesis
      by (auto simp: ready_channels_def ready_entry_def set_revents_def)
  next
    case False
    with Cons.prems Cons.IH [of s n active] show ?thesis
      by (cases "0 < n") (auto simp: ready_channels_def ready_entry_def filter_empty_conv)
  qed
qed

lemma fill_step:
  assumes "pp_fillActiveChannels (q # ps) n active s = Inr (out, s')" and "ready_entry q" and "0 < n"
  obtains c ch where "pp_channels s (pfd_fd q) = Some c" and "heap s c = Some ch"
    and "pp_fillActiveChannels ps (n - 1) (active @ [c])
           (s\<lparr>heap := (heap s)(c \<mapsto> ch\<lparr>revents := scast (pfd_revents q)\<rparr>)\<rparr>) = Inr (out, s')"
  using assms
  by (auto simp: ready_entry_def bindE_eq_Inr set_revents_def mod_ch_eq_Inr split: option.splits)

lemma fill_frame:
  assumes "pp_fillActiveChannels ps n active s = Inr (out, s')"
    and "n = int (length (filter ready_entry ps))" and "d \<notin> set (ready_channels s ps)"
  shows "heap s' d = heap s d"
  using assms
proof (induction ps arbitrary: n active s)
  case (Cons q ps)
  show ?case
  proof (cases "ready_entry q")
    case True
    with Cons.prems obtain c ch where c: "pp_channels s (pfd_fd q) = Some c" "heap s c = Some ch"
        "pp_fillActiveChannels ps (n - 1) (active @ [c])
           (s\<lparr>heap := (heap s)(c \<mapsto> ch\<lparr>revents := scast (pfd_revents q)\<rparr>)\<rparr>) = Inr (out, s')"
      using fill_step [OF Cons.prems(1) True] by auto
    with Cons.IH [OF c(3)] Cons.prems True show ?thesis by (auto simp: ready_channels_def)
  next
    case False
    with Cons.prems Cons.IH [of n active s] show ?thesis
      by (auto simp: ready_entry_def ready_channels_def split: if_splits)
  qed
qed simp

lemma fill_revents:
  assumes "pp_fillActiveChannels ps n active s = Inr (out, s')"
    and "n = int (length (filter ready_entry ps))" and "distinct (ready_channels s ps)"
    and "p \<in> set ps" and "ready_entry p"
  shows "\<exists>ch. heap s' (the (pp_channels s (pfd_fd p))) = Some ch \<and> revents ch = scast (pfd_revents p)"
  using assms
proof (induction ps arbitrary: n active s)
  case (Cons q ps)
  show ?case
  proof (cases "ready_entry q")
    case True
    with Cons.prems obtain c ch where c: "pp_channels s (pfd_fd q) = Some c" "heap s c = Some ch"
        "pp_fillActiveChannels ps (n - 1) (active @ [c])
           (s\<lparr>heap := (heap s)(c \<mapsto> ch\<lparr>revents := scast (pfd_revents q)\<rparr>)\<rparr>) = Inr (out, s')"
      using fill_step [OF Cons.prems(1) True] by auto
    show ?thesis
    proof (cases "p = q")
      case eq: True
      have "c \<notin> set (ready_channels s ps)"
        using Cons.prems(3) True c(1) by (simp add: ready_channels_def)
      with fill_frame [OF c(3), of c] Cons.prems(2) True c eq show ?thesis
        by (simp add: ready_channels_def)
    next
      case False
      with Cons.IH [OF c(3)] Cons.prems True show ?thesis by (simp add: ready_channels_def)
    qed
  next
    case False
    with Cons.prems Cons.IH [of n active s] show ?thesis
      by (auto simp: ready_entry_def ready_channels_def filter_empty_conv split: if_splits)
  qed
qed simp

lemma ready_channels_distinct:
  assumes inv: "pp_inv s" and fd: "\<And>p. p \<in> set (pollfds s) \<Longrightarrow> ready_entry p \<Longrightarrow> 0 \<le> pfd_fd p"
  shows "distinct (ready_channels s (pollfds s))"
proof -
  let ?I = "filter (\<lambda>i. ready_entry (pollfds s ! i)) [0..<length (pollfds s)]"
  have idx: "\<exists>c ch. pp_channels s (pfd_fd (pollfds s ! i)) = Some c \<and> heap s c = Some ch \<and> ch_index ch = int i"
    if "i \<in> set ?I" for i
    using pp_invD_entry [OF inv, of i] fd [of "pollfds s ! i"] that
    by (auto simp: pp_entry_ok_def real_fd_def split: if_splits)
  have "filter ready_entry (pollfds s) = map ((!) (pollfds s)) ?I"
    by (subst (1) map_nth [of "pollfds s", symmetric]) (simp add: filter_map comp_def)
  then have "ready_channels s (pollfds s) = map (\<lambda>i. the (pp_channels s (pfd_fd (pollfds s ! i)))) ?I"
    by (simp add: ready_channels_def)
  moreover have "inj_on (\<lambda>i. the (pp_channels s (pfd_fd (pollfds s ! i)))) (set ?I)"
    by (rule inj_onI) (metis idx of_nat_eq_iff option.inject option.sel)
  ultimately show ?thesis by (simp add: distinct_map)
qed

lemma pp_ready_registered:
  assumes "pp_inv s" and "p \<in> set (pollfds s)" and "0 \<le> pfd_fd p"
  shows "\<exists>c ch. pp_channels s (pfd_fd p) = Some c \<and> heap s c = Some ch"
  using assms pp_invD_entry [OF assms(1)]
  by (fastforce simp: in_set_conv_nth pp_entry_ok_def real_fd_def)

section \<open>Properties\<close>

text \<open>Two concrete states: one unregistered channel, and one registered channel on descriptor 5.\<close>

definition one_channel :: "nat \<rightharpoonup> unit channel" where
  "one_channel = [0 \<mapsto> Channel_new 1 5]"

definition pp_demo :: "int \<Rightarrow> mask \<Rightarrow> 16 word \<Rightarrow> unit poll_poller" where
  "pp_demo entry ev pev =
     \<lparr>heap = [0 \<mapsto> (Channel_new 1 5)\<lparr>events := ev, ch_index := 0\<rparr>],
      pollfds = [\<lparr>pfd_fd = entry, pfd_events = pev, pfd_revents = 0\<rparr>], pp_channels = [5 \<mapsto> 0]\<rparr>"

lemma pp_demo_inv: "entry = 5 \<or> entry = - 6 \<Longrightarrow> pp_inv (pp_demo entry ev pev)"
  by (auto simp: pp_demo_def pp_inv_def pp_entry_ok_def pp_chan_ok_def real_fd_def Channel_new_def)

lemmas pp_demo_simps = pp_demo_def Channel_new_def isNoneEvent_def kNoneEvent_def

text \<open>
  \<^verbatim>\<open>PollPoller::UpdateChannel\<close>, called for a channel that is either new, with a descriptor
  nobody else has registered, or registered, passes all its assertions and keeps the invariant:
  the vector, the map and the indices in the channels agree, with one entry per descriptor.
\<close>

theorem poll_update_safe:
  assumes "pp_inv s" and "pp_update_pre s c"
  shows "\<exists>s'. PollPoller_UpdateChannel c s = Inr s' \<and> pp_inv s'
    \<and> (\<exists>ch. heap s c = Some ch \<and> pp_channels s' = (pp_channels s)(ch_fd ch \<mapsto> c))"
proof -
  obtain ch where ch: "heap s c = Some ch" "0 \<le> ch_fd ch"
      "pp_channels s (ch_fd ch) = (if ch_index ch < 0 then None else Some c)"
    using assms(2) by (auto simp: pp_update_pre_def)
  show ?thesis
  proof (cases "ch_index ch < 0")
    case True
    with ch pp_update_new [OF assms(1) ch(1,2) True] pp_added_inv [OF assms(1) ch(1,2) True]
    show ?thesis by (simp add: pp_added_def)
  next
    case False
    with ch pp_update_old [OF assms(1) ch(1)] pp_changed_inv [OF assms(1) ch(1)]
    show ?thesis by (auto simp: pp_changed_def)
  qed
qed

theorem poll_update_safe_witness:
  "\<exists>s'. PollPoller_UpdateChannel 0 (PollPoller_new one_channel) = Inr s' \<and> pp_inv s'
    \<and> (\<exists>ch. heap (PollPoller_new one_channel) 0 = Some ch
          \<and> pp_channels s' = (pp_channels (PollPoller_new one_channel))(ch_fd ch \<mapsto> 0))"
proof (rule poll_update_safe [OF pp_inv_new])
  show "pp_update_pre (PollPoller_new one_channel) 0"
    by (simp add: pp_update_pre_def PollPoller_new_def one_channel_def Channel_new_def)
qed

text \<open>
  The closing path of a registered channel, \<^verbatim>\<open>disableAll()\<close> followed by \<^verbatim>\<open>remove()\<close>,
  passes every assertion of \<^verbatim>\<open>PollPoller\<close>, although removal moves the last entry into the
  gap: the invariant holds again, the descriptor is unregistered and no longer watched, and every
  other descriptor keeps its registration and its interest.
\<close>

theorem poll_disable_then_remove:
  assumes "pp_inv s" and "heap s c = Some ch" and "pp_channels s (ch_fd ch) = Some c"
  shows "\<exists>s1 s2. disableAll PollPoller_UpdateChannel c s = Inr s1
    \<and> Channel_remove PollPoller_removeChannel c s1 = Inr s2 \<and> pp_inv s2
    \<and> pp_channels s2 = (pp_channels s)(ch_fd ch := None)
    \<and> pp_interest s2 = (pp_interest s)(ch_fd ch := 0)"
proof -
  let ?ch = "ch\<lparr>events := kNoneEvent\<rparr>" and ?s = "s\<lparr>heap := (heap s)(c \<mapsto> ch\<lparr>events := kNoneEvent\<rparr>)\<rparr>"
  have h: "heap ?s c = Some ?ch" and reg: "pp_channels ?s (ch_fd ?ch) = Some c"
    using assms(3) by simp_all
  have inv: "pp_inv ?s" by (rule pp_inv_channel_update [OF assms(1,2)]) simp_all
  have none: "isNoneEvent ?ch" by (simp add: isNoneEvent_def)
  from pp_invD_chan [OF inv reg] have i: "0 \<le> ch_index ch" "nat (ch_index ch) < length (pollfds s)"
    by (auto simp: pp_chan_ok_def)
  let ?s1 = "pp_changed ?ch ?s"
  have upd: "disableAll PollPoller_UpdateChannel c s = Inr ?s1"
    using pp_update_old [OF inv h _ reg] assms(2) i by (simp add: disableAll_def)
  have inv1: "pp_inv ?s1" by (rule pp_changed_inv [OF inv h reg])
  have int1: "pp_interest ?s1 = (pp_interest s)(ch_fd ch := 0)"
    using pp_changed_interest [OF inv h reg] none
    by (simp add: pp_interest_def kNoneEvent_def fun_eq_iff)
  have h1: "heap ?s1 c = Some ?ch" by (simp add: pp_changed_def)
  have pre: "pp_remove_pre ?s1 c"
    using reg i none by (simp add: pp_remove_pre_def pp_changed_def pp_new_entry_def kNoneEvent_def)
  from pp_remove_ok [OF inv1 h1 pre] obtain s2 where "PollPoller_removeChannel c ?s1 = Inr s2" "pp_inv s2"
      "pp_interest s2 = (pp_interest ?s1)(ch_fd ch := 0)"
      "pp_channels s2 = (pp_channels ?s1)(ch_fd ch := None)"
    by auto
  with upd h1 none int1 show ?thesis by (auto simp: Channel_remove_def pp_changed_def)
qed

theorem poll_disable_then_remove_witness:
  "\<exists>s1 s2. disableAll PollPoller_UpdateChannel 0 (pp_demo 5 3 3) = Inr s1
    \<and> Channel_remove PollPoller_removeChannel 0 s1 = Inr s2 \<and> pp_inv s2
    \<and> pp_channels s2 = (pp_channels (pp_demo 5 3 3))(5 := None)
    \<and> pp_interest s2 = (pp_interest (pp_demo 5 3 3))(5 := 0)"
  using poll_disable_then_remove [OF pp_demo_inv [of 5 3 3], of 0 "(Channel_new 1 5)\<lparr>events := 3, ch_index := 0\<rparr>"]
  by (simp add: pp_demo_simps)

text \<open>
  \<^verbatim>\<open>UpdateChannel\<close> never clears the mark of an ignored entry: when a registered channel whose
  entry is ignored (it once wanted no events) wants events again, the call succeeds and the kernel
  is still not asked to watch the descriptor.
\<close>

theorem poll_reenable_lost:
  assumes "pp_inv s" and "heap s c = Some ch" and "pp_channels s (ch_fd ch) = Some c"
    and "pfd_fd (pollfds s ! nat (ch_index ch)) = - ch_fd ch - 1" and "\<not> isNoneEvent ch"
  shows "\<exists>s'. PollPoller_UpdateChannel c s = Inr s' \<and> pp_interest s' (ch_fd ch) = 0"
proof -
  from pp_invD_chan [OF assms(1,3)] assms(2) have i: "0 \<le> ch_index ch"
      "nat (ch_index ch) < length (pollfds s)" "real_fd (pollfds s ! nat (ch_index ch)) = ch_fd ch"
    and fd: "0 \<le> ch_fd ch"
    by (auto simp: pp_chan_ok_def)
  have "pfd_fd (pollfds (pp_changed ch s) ! j) \<noteq> ch_fd ch" if "j < length (pollfds (pp_changed ch s))" for j
    using real_fd_inj [OF assms(1) _ i(2), of j] that assms(4,5) i fd
    by (cases "j = nat (ch_index ch)")
       (auto simp: pp_changed_def pp_new_entry_def Let_def real_fd_def)
  then have "pp_interest (pp_changed ch s) (ch_fd ch) = 0" by (intro pp_interest_none) blast
  with pp_update_old [OF assms(1,2) i(1) assms(3)] show ?thesis by simp
qed

theorem poll_reenable_lost_witness:
  "\<exists>s'. PollPoller_UpdateChannel 0 (pp_demo (- 6) 3 0) = Inr s' \<and> pp_interest s' 5 = 0"
  using poll_reenable_lost [OF pp_demo_inv [of "- 6" 3 0], of 0 "(Channel_new 1 5)\<lparr>events := 3, ch_index := 0\<rparr>"]
  by (simp add: pp_demo_simps)

text \<open>
  One turn of \<^verbatim>\<open>PollPoller::poll\<close>. When \<^verbatim>\<open>poll(2)\<close> answers the way it is documented
  (one \<^verbatim>\<open>revents\<close> per entry, none for a negative descriptor, and the number of non-zero ones
  as its result), the active list holds exactly the channels of the entries that are ready, each
  once and in the order of the vector, each with the events the kernel stored for it.
\<close>

definition poll_answer :: "pollfd list \<Rightarrow> int \<Rightarrow> 16 word list \<Rightarrow> bool" where
  "poll_answer ps n rs \<longleftrightarrow> length rs = length ps \<and> n = int (length (filter (\<lambda>x. 0 < sint x) rs))
     \<and> list_all2 (\<lambda>p x. pfd_fd p < 0 \<longrightarrow> x = 0) ps rs"

lemma ready_zip:
  "length rs = length ps \<Longrightarrow>
   filter ready_entry (map (\<lambda>(p, x). p\<lparr>pfd_revents := x\<rparr>) (zip ps rs))
     = map (\<lambda>(p, x). p\<lparr>pfd_revents := x\<rparr>) (filter (\<lambda>(p, x). 0 < sint x) (zip ps rs))"
  by (auto simp: filter_map comp_def ready_entry_def case_prod_unfold)

lemma filter_zip_length:
  "length rs = length ps \<Longrightarrow> length (filter (\<lambda>(p, x). Q x) (zip ps rs)) = length (filter Q rs)"
  by (induction rs ps rule: list_induct2) auto

theorem poll_active_channels:
  assumes inv: "pp_inv s" and ans: "poll_answer (pollfds s) n rs"
  shows "\<exists>active s'. PollPoller_poll (PollOk n rs) now s = Inr (now, active, s')
    \<and> active = map (\<lambda>(p, x). the (pp_channels s (pfd_fd p))) (filter (\<lambda>(p, x). 0 < sint x) (zip (pollfds s) rs))
    \<and> distinct active
    \<and> (\<forall>(p, x) \<in> set (zip (pollfds s) rs). 0 < sint x \<longrightarrow>
          (\<exists>ch. heap s' (the (pp_channels s (pfd_fd p))) = Some ch \<and> revents ch = scast x))"
proof -
  let ?ps = "map (\<lambda>(p, x). p\<lparr>pfd_revents := x\<rparr>) (zip (pollfds s) rs)"
  let ?s = "s\<lparr>pollfds := ?ps\<rparr>"
  from ans have len: "length rs = length (pollfds s)"
    and n: "n = int (length (filter (\<lambda>x. 0 < sint x) rs))"
    and neg: "list_all2 (\<lambda>p x. pfd_fd p < 0 \<longrightarrow> x = 0) (pollfds s) rs"
    by (simp_all add: poll_answer_def)
  have "map real_fd ?ps = map real_fd (map fst (zip (pollfds s) rs))"
    by (simp add: real_fd_def case_prod_unfold)
  then have inv': "pp_inv ?s"
    using inv len by (subst pp_inv_cong [of _ s]) auto
  have n': "n = int (length (filter ready_entry ?ps))"
    using len n by (simp add: ready_zip filter_zip_length)
  have fd: "0 \<le> pfd_fd p" if p: "p \<in> set ?ps" "ready_entry p" for p
    using that neg by (force simp: list_all2_iff ready_entry_def)
  have reg: "\<exists>c ch. pp_channels ?s (pfd_fd p) = Some c \<and> heap ?s c = Some ch"
    if "p \<in> set ?ps" "ready_entry p" for p
    using pp_ready_registered [OF inv', of p] that fd by simp
  from fill_ok [where s = ?s and ps = ?ps, OF reg n', of "[]"] obtain s' where
    fill: "pp_fillActiveChannels ?ps n [] ?s = Inr (ready_channels ?s ?ps, s')" by auto
  have act: "ready_channels ?s ?ps
      = map (\<lambda>(p, x). the (pp_channels s (pfd_fd p))) (filter (\<lambda>(p, x). 0 < sint x) (zip (pollfds s) rs))"
    using len by (simp add: ready_channels_def ready_zip)
  have dist: "distinct (ready_channels ?s ?ps)"
    using ready_channels_distinct [OF inv'] fd by simp
  have rev: "\<exists>ch. heap s' (the (pp_channels s (pfd_fd p))) = Some ch \<and> revents ch = scast x"
    if "(p, x) \<in> set (zip (pollfds s) rs)" "0 < sint x" for p x
    using fill_revents [OF fill n' dist, of "p\<lparr>pfd_revents := x\<rparr>"] that
    by (force simp: ready_entry_def)
  show ?thesis
  proof (cases "0 < n")
    case True
    with fill dist act rev show ?thesis by (auto simp: PollPoller_poll_def Let_def)
  next
    case False
    with n have "filter (\<lambda>(p, x). 0 < sint x) (zip (pollfds s) rs) = []"
      using filter_zip_length [OF len, of "\<lambda>x. 0 < sint x"] by simp
    with False show ?thesis by (auto simp: PollPoller_poll_def filter_empty_conv)
  qed
qed

theorem poll_active_channels_witness:
  "\<exists>active s'. PollPoller_poll (PollOk 1 [1]) 7 (pp_demo 5 3 3) = Inr (7, active, s')
    \<and> active = [0] \<and> (\<exists>ch. heap s' 0 = Some ch \<and> revents ch = 1)"
  using poll_active_channels [OF pp_demo_inv [of 5 3 3], of 1 "[1]" 7]
  by (simp add: poll_answer_def pp_demo_simps)

end
