(* ===== verification/Tcp_Connection.thy ===== *)
theory Tcp_Connection
  imports Buffer_Contract Epoll_Poller Poll_Poller
begin

text \<open>
  \<^verbatim>\<open>TcpConnection\<close> of \<^verbatim>\<open>cobra/tcp_connection.h\<close> and \<^verbatim>\<open>cobra/tcp_connection.cpp\<close>.

  The record holds the members, with the channel in the store \<open>c_io\<close> at the address \<open>c_chan\<close>.
  \<open>c_queue\<close> is what the connection has handed to \<^verbatim>\<open>queueInLoop\<close> and \<^verbatim>\<open>runInLoop\<close> of its worker.
  The socket is the kernel's: \<open>written\<close> is the bytes it has taken from \<^verbatim>\<open>write\<close>, \<open>write_shut\<close>
  whether its writing side was shut down. The answers of
  \<^verbatim>\<open>write\<close> and \<^verbatim>\<open>readv\<close> are arguments of the operations, and so are the calls of the user's
  callbacks (\<open>call\<close>) and the worker's \<^verbatim>\<open>UpdateChannel\<close> and \<^verbatim>\<open>removeChannel\<close> (\<open>upd\<close>, \<open>rmv\<close>).
\<close>

section \<open>State\<close>

datatype conn_state = kDisconnected | kConnecting | kConnected | kDisconnecting

datatype conn_functor = SendInLoop "byte list" | ShutdownInLoop | WriteComplete | HighWater nat

datatype conn_event = ConnectionCb | MessageCb int | CloseCb

datatype write_result = WriteErr int | Wrote nat

definition EWOULDBLOCK :: int where "EWOULDBLOCK = 11"
definition EPIPE :: int where "EPIPE = 32"
definition ECONNRESET :: int where "ECONNRESET = 104"

lemmas errno_defs = EWOULDBLOCK_def EPIPE_def ECONNRESET_def

record 's tcp_connection =
  c_io :: 's
  c_chan :: nat
  state :: conn_state
  conn_fd :: int
  highWaterMark :: nat
  writeCompleteCb :: bool
  highWaterMarkCb :: bool
  inputBuffer :: buffer
  outputBuffer :: buffer
  c_queue :: "conn_functor list"
  written :: "byte list"
  write_shut :: bool

text \<open>The constructor, on a store with the new channel at \<open>c\<close>: four callbacks are set on it.\<close>

definition TcpConnection_new ::
  "nat \<Rightarrow> int \<Rightarrow> nat \<Rightarrow> 'cb \<Rightarrow> 'cb \<Rightarrow> 'cb \<Rightarrow> 'cb \<Rightarrow> ('cb, 'z) chan_store_scheme
     \<Rightarrow> ('cb, 'z) chan_store_scheme tcp_connection res" where
  "TcpConnection_new loop fd c rd wr cl er s =
     bindE (SetReadCb c rd (s\<lparr>heap := (heap s)(c \<mapsto> Channel_new loop fd)\<rparr>)) (\<lambda>s1.
     bindE (SetWriteCb c wr s1) (\<lambda>s2.
     bindE (SetCloseCb c cl s2) (\<lambda>s3.
     bindE (SetErrorCb c er s3) (\<lambda>s4.
     bindE Buffer_new (\<lambda>inb.
     bindE Buffer_new (\<lambda>outb.
     Inr \<lparr>c_io = s4, c_chan = c, state = kConnecting, conn_fd = fd, highWaterMark = 64 * 1024 * 1024,
          writeCompleteCb = False, highWaterMarkCb = False, inputBuffer = inb, outputBuffer = outb,
          c_queue = [], written = [], write_shut = False\<rparr>))))))"

definition connected :: "'s tcp_connection \<Rightarrow> bool" where
  "connected w \<longleftrightarrow> state w = kConnected"

definition conn_SetWriteCompleteCb :: "'s tcp_connection \<Rightarrow> 's tcp_connection" where
  "conn_SetWriteCompleteCb w = w\<lparr>writeCompleteCb := True\<rparr>"

definition setHighWaterMarkCb :: "nat \<Rightarrow> 's tcp_connection \<Rightarrow> 's tcp_connection" where
  "setHighWaterMarkCb mark w = w\<lparr>highWaterMarkCb := True, highWaterMark := mark\<rparr>"

text \<open>The callback for messages that a connection has from the start: it throws the input away.\<close>

definition defaultMessageCb :: "'s tcp_connection \<Rightarrow> 's tcp_connection" where
  "defaultMessageCb w = w\<lparr>inputBuffer := retrieveAll (inputBuffer w)\<rparr>"

lemma defaultMessageCb_content:
  "buf_inv (inputBuffer w) \<Longrightarrow> buf_inv (inputBuffer (defaultMessageCb w)) \<and> content (inputBuffer (defaultMessageCb w)) = []"
  using retrieveAll_content by (simp add: defaultMessageCb_def)

text \<open>The destructor logs; the channel and the buffers go with the members.\<close>

definition TcpConnection_dtor ::
  "('cb, 'z) chan_store_scheme tcp_connection \<Rightarrow> ('cb, 'z) chan_store_scheme tcp_connection res" where
  "TcpConnection_dtor w = bindE (Channel_dtor (c_chan w) (c_io w)) (\<lambda>s. Inr (w\<lparr>c_io := s\<rparr>))"

definition queue_functor :: "conn_functor \<Rightarrow> 's tcp_connection \<Rightarrow> 's tcp_connection" where
  "queue_functor f w = w\<lparr>c_queue := c_queue w @ [f]\<rparr>"

definition lift_io :: "('s \<Rightarrow> 's res) \<Rightarrow> 's tcp_connection \<Rightarrow> 's tcp_connection res" where
  "lift_io f w = bindE (f (c_io w)) (\<lambda>s. Inr (w\<lparr>c_io := s\<rparr>))"

section \<open>Sending\<close>

text \<open>
  The two halves of \<^verbatim>\<open>sendInLoop\<close>: the direct \<^verbatim>\<open>write\<close>, which gives the locals \<^verbatim>\<open>nwrote\<close>,
  \<^verbatim>\<open>remaining\<close> and \<^verbatim>\<open>faultError\<close>, and the part that puts the rest into the output buffer.
\<close>

definition send_direct :: "write_result \<Rightarrow> byte list \<Rightarrow> 's tcp_connection \<Rightarrow> nat \<times> nat \<times> bool \<times> 's tcp_connection" where
  "send_direct r data w =
     (case r of
        Wrote n \<Rightarrow>
          (let remaining = sz_sub (length data) n; w1 = w\<lparr>written := written w @ take n data\<rparr>
           in (n, remaining, False,
               if remaining = 0 \<and> writeCompleteCb w1 then queue_functor WriteComplete w1 else w1))
      | WriteErr e \<Rightarrow> (0, length data, e \<noteq> EWOULDBLOCK \<and> (e = EPIPE \<or> e = ECONNRESET), w))"

definition send_enqueue ::
  "(nat \<Rightarrow> ('cb, 'z) chan_store_scheme \<Rightarrow> ('cb, 'z) chan_store_scheme res) \<Rightarrow> byte list \<Rightarrow> nat \<Rightarrow> nat
     \<Rightarrow> ('cb, 'z) chan_store_scheme tcp_connection \<Rightarrow> ('cb, 'z) chan_store_scheme tcp_connection res" where
  "send_enqueue upd data nwrote remaining w =
     (let oldLen = readableBytes (outputBuffer w);
          w1 = (if highWaterMark w \<le> sz_add oldLen remaining \<and> oldLen < highWaterMark w \<and> highWaterMarkCb w
                then queue_functor (HighWater (sz_add oldLen remaining)) w else w)
      in bindE (append_ptr data nwrote remaining (outputBuffer w1)) (\<lambda>out.
           let w2 = w1\<lparr>outputBuffer := out\<rparr>
           in bindE (get_ch (c_chan w2) (c_io w2)) (\<lambda>ch.
                if \<not> isWriting ch then lift_io (enableWriting upd (c_chan w2)) w2 else Inr w2)))"

definition sendInLoop ::
  "(nat \<Rightarrow> ('cb, 'z) chan_store_scheme \<Rightarrow> ('cb, 'z) chan_store_scheme res) \<Rightarrow> write_result \<Rightarrow> byte list
     \<Rightarrow> ('cb, 'z) chan_store_scheme tcp_connection \<Rightarrow> ('cb, 'z) chan_store_scheme tcp_connection res" where
  "sendInLoop upd r data w =
     (if state w = kDisconnected then Inr w
      else bindE (get_ch (c_chan w) (c_io w)) (\<lambda>ch.
        let (nwrote, remaining, faultError, w1) =
              (if \<not> isWriting ch \<and> readableBytes (outputBuffer w) = 0 then send_direct r data w
               else (0, length data, False, w))
        in if \<not> faultError \<and> 0 < remaining then send_enqueue upd data nwrote remaining w1 else Inr w1))"

text \<open>\<^verbatim>\<open>send(const void*, size_t)\<close> and \<^verbatim>\<open>send(const StringPiece&)\<close>: \<open>inLoop\<close> is \<^verbatim>\<open>isInLoopThread()\<close>.\<close>

definition send ::
  "(nat \<Rightarrow> ('cb, 'z) chan_store_scheme \<Rightarrow> ('cb, 'z) chan_store_scheme res) \<Rightarrow> bool \<Rightarrow> write_result \<Rightarrow> byte list
     \<Rightarrow> ('cb, 'z) chan_store_scheme tcp_connection \<Rightarrow> ('cb, 'z) chan_store_scheme tcp_connection res" where
  "send upd inLoop r data w =
     (if state w = kConnected
      then if inLoop then sendInLoop upd r data w else Inr (queue_functor (SendInLoop data) w)
      else Inr w)"

definition send_piece ::
  "(nat \<Rightarrow> ('cb, 'z) chan_store_scheme \<Rightarrow> ('cb, 'z) chan_store_scheme res) \<Rightarrow> bool \<Rightarrow> write_result \<Rightarrow> string_piece
     \<Rightarrow> ('cb, 'z) chan_store_scheme tcp_connection \<Rightarrow> ('cb, 'z) chan_store_scheme tcp_connection res" where
  "send_piece upd inLoop r message w =
     (if state w = kConnected
      then bindE (as_string message) (\<lambda>data.
        if inLoop then sendInLoop upd r data w else Inr (queue_functor (SendInLoop data) w))
      else Inr w)"

definition send_buffer ::
  "(nat \<Rightarrow> ('cb, 'z) chan_store_scheme \<Rightarrow> ('cb, 'z) chan_store_scheme res) \<Rightarrow> bool \<Rightarrow> write_result \<Rightarrow> buffer
     \<Rightarrow> ('cb, 'z) chan_store_scheme tcp_connection \<Rightarrow> (buffer \<times> ('cb, 'z) chan_store_scheme tcp_connection) res" where
  "send_buffer upd inLoop r buf w =
     (if state w = kConnected
      then if inLoop
           then bindE (mem_read (vec buf) (BeginRead buf) (readableBytes buf)) (\<lambda>data.
                  bindE (sendInLoop upd r data w) (\<lambda>w'. Inr (retrieveAll buf, w')))
           else bindE (retrieveAllAsString buf) (\<lambda>(data, buf'). Inr (buf', queue_functor (SendInLoop data) w))
      else Inr (buf, w))"

section \<open>Shutting down\<close>

definition shutdownInLoop ::
  "('cb, 'z) chan_store_scheme tcp_connection \<Rightarrow> ('cb, 'z) chan_store_scheme tcp_connection res" where
  "shutdownInLoop w =
     bindE (get_ch (c_chan w) (c_io w)) (\<lambda>ch. Inr (if \<not> isWriting ch then w\<lparr>write_shut := True\<rparr> else w))"

definition shutdown ::
  "bool \<Rightarrow> ('cb, 'z) chan_store_scheme tcp_connection \<Rightarrow> ('cb, 'z) chan_store_scheme tcp_connection res" where
  "shutdown inLoop w =
     (if state w = kConnected
      then let w1 = w\<lparr>state := kDisconnecting\<rparr>
           in if inLoop then shutdownInLoop w1 else Inr (queue_functor ShutdownInLoop w1)
      else Inr w)"

section \<open>Establishing and destroying\<close>

definition ConnectionEstablished ::
  "(nat \<Rightarrow> ('cb, 'z) chan_store_scheme \<Rightarrow> ('cb, 'z) chan_store_scheme res)
     \<Rightarrow> (conn_event \<Rightarrow> ('cb, 'z) chan_store_scheme tcp_connection \<Rightarrow> ('cb, 'z) chan_store_scheme tcp_connection res)
     \<Rightarrow> nat \<Rightarrow> ('cb, 'z) chan_store_scheme tcp_connection \<Rightarrow> ('cb, 'z) chan_store_scheme tcp_connection res" where
  "ConnectionEstablished upd call self w =
     cassert (state w = kConnecting)
       (let w1 = w\<lparr>state := kConnected\<rparr>
        in bindE (lift_io (Channel_tie (c_chan w1) self) w1) (\<lambda>w2.
           bindE (lift_io (enableReading upd (c_chan w2)) w2) (call ConnectionCb)))"

definition ConnectionDestroyed ::
  "(nat \<Rightarrow> ('cb, 'z) chan_store_scheme \<Rightarrow> ('cb, 'z) chan_store_scheme res)
     \<Rightarrow> (nat \<Rightarrow> ('cb, 'z) chan_store_scheme \<Rightarrow> ('cb, 'z) chan_store_scheme res)
     \<Rightarrow> (conn_event \<Rightarrow> ('cb, 'z) chan_store_scheme tcp_connection \<Rightarrow> ('cb, 'z) chan_store_scheme tcp_connection res)
     \<Rightarrow> ('cb, 'z) chan_store_scheme tcp_connection \<Rightarrow> ('cb, 'z) chan_store_scheme tcp_connection res" where
  "ConnectionDestroyed upd rmv call w =
     bindE (if state w = kConnected
            then bindE (lift_io (disableAll upd (c_chan w)) (w\<lparr>state := kDisconnected\<rparr>)) (call ConnectionCb)
            else Inr w)
       (\<lambda>w1. lift_io (Channel_remove rmv (c_chan w1)) w1)"

section \<open>Handling events\<close>

definition conn_handleClose ::
  "(nat \<Rightarrow> ('cb, 'z) chan_store_scheme \<Rightarrow> ('cb, 'z) chan_store_scheme res)
     \<Rightarrow> (conn_event \<Rightarrow> ('cb, 'z) chan_store_scheme tcp_connection \<Rightarrow> ('cb, 'z) chan_store_scheme tcp_connection res)
     \<Rightarrow> ('cb, 'z) chan_store_scheme tcp_connection \<Rightarrow> ('cb, 'z) chan_store_scheme tcp_connection res" where
  "conn_handleClose upd call w =
     cassert (state w = kConnected \<or> state w = kDisconnecting)
       (bindE (lift_io (disableAll upd (c_chan w)) (w\<lparr>state := kDisconnected\<rparr>)) (\<lambda>w1.
        bindE (call ConnectionCb w1) (call CloseCb)))"

text \<open>\<^verbatim>\<open>handleError\<close> reads \<^verbatim>\<open>SO_ERROR\<close> and logs it.\<close>

definition conn_handleError :: "'s tcp_connection \<Rightarrow> 's tcp_connection res" where
  "conn_handleError w = Inr w"

definition conn_handleRead ::
  "(nat \<Rightarrow> ('cb, 'z) chan_store_scheme \<Rightarrow> ('cb, 'z) chan_store_scheme res)
     \<Rightarrow> (conn_event \<Rightarrow> ('cb, 'z) chan_store_scheme tcp_connection \<Rightarrow> ('cb, 'z) chan_store_scheme tcp_connection res)
     \<Rightarrow> readv_result \<Rightarrow> int \<Rightarrow> ('cb, 'z) chan_store_scheme tcp_connection
     \<Rightarrow> ('cb, 'z) chan_store_scheme tcp_connection res" where
  "conn_handleRead upd call r receiveTime w =
     bindE (readFd r (inputBuffer w)) (\<lambda>(n, savedErrno, inb).
       let w1 = w\<lparr>inputBuffer := inb\<rparr>
       in if 0 < n then call (MessageCb receiveTime) w1
          else if n = 0 then conn_handleClose upd call w1
          else conn_handleError w1)"

definition conn_handleWrite ::
  "(nat \<Rightarrow> ('cb, 'z) chan_store_scheme \<Rightarrow> ('cb, 'z) chan_store_scheme res) \<Rightarrow> write_result
     \<Rightarrow> ('cb, 'z) chan_store_scheme tcp_connection \<Rightarrow> ('cb, 'z) chan_store_scheme tcp_connection res" where
  "conn_handleWrite upd r w =
     bindE (get_ch (c_chan w) (c_io w)) (\<lambda>ch.
       if isWriting ch
       then bindE (mem_read (vec (outputBuffer w)) (BeginRead (outputBuffer w)) (readableBytes (outputBuffer w))) (\<lambda>data.
         case r of
           WriteErr e \<Rightarrow> Inr w
         | Wrote n \<Rightarrow>
             if 0 < n
             then bindE (retrieve n (outputBuffer w)) (\<lambda>out.
               let w1 = w\<lparr>outputBuffer := out, written := written w @ take n data\<rparr>
               in if readableBytes out = 0
                  then bindE (lift_io (disableWriting upd (c_chan w1)) w1) (\<lambda>w2.
                    let w3 = (if writeCompleteCb w2 then queue_functor WriteComplete w2 else w2)
                    in if state w3 = kDisconnecting then shutdownInLoop w3 else Inr w3)
                  else Inr w1)
             else Inr w)
       else Inr w)"

end
