(* ===== verification/Tcp_Stream.thy ===== *)
theory Tcp_Stream
  imports Tcp_Connection
begin

text \<open>
  What a \<^verbatim>\<open>TcpConnection\<close> promises its user about the bytes it sends. The locale
  \<open>watched_channel\<close> extends the poller's contract with what the connection relies on between
  \<^verbatim>\<open>ConnectionEstablished\<close> and the close: its channel is registered and stays so while it wants
  any event. In it the send path is verified once, and both pollers are interpretations.
\<close>

unbundle bit_operations_syntax

section \<open>Operations on an established connection\<close>

text \<open>
  In the loop thread: the user's \<^verbatim>\<open>send\<close> and \<^verbatim>\<open>shutdown\<close>, the functors other threads have queued by
  them, and the writable event; with the kernel's answer where there is a \<^verbatim>\<open>write\<close>.
\<close>

datatype conn_op = OSend "byte list" write_result | ORunSend "byte list" write_result
  | OShutdown | ORunShutdown | OWritable write_result

definition do_op ::
  "(nat \<Rightarrow> ('cb, 'z) chan_store_scheme \<Rightarrow> ('cb, 'z) chan_store_scheme res) \<Rightarrow> conn_op
     \<Rightarrow> ('cb, 'z) chan_store_scheme tcp_connection \<Rightarrow> ('cb, 'z) chan_store_scheme tcp_connection res" where
  "do_op upd op w =
     (case op of
        OSend data r \<Rightarrow> send upd True r data w
      | ORunSend data r \<Rightarrow> sendInLoop upd r data w
      | OShutdown \<Rightarrow> shutdown True w
      | ORunShutdown \<Rightarrow> shutdownInLoop w
      | OWritable r \<Rightarrow> conn_handleWrite upd r w)"

definition op_data :: "conn_op \<Rightarrow> byte list" where
  "op_data op = (case op of OSend data r \<Rightarrow> data | ORunSend data r \<Rightarrow> data | _ \<Rightarrow> [])"

text \<open>A \<^verbatim>\<open>write\<close> takes at most what it is given, and fails with \<^verbatim>\<open>EPIPE\<close> after a shutdown.\<close>

definition write_answer :: "'s tcp_connection \<Rightarrow> nat \<Rightarrow> write_result \<Rightarrow> bool" where
  "write_answer w len r \<longleftrightarrow>
     (case r of Wrote n \<Rightarrow> n \<le> len \<and> \<not> write_shut w | WriteErr e \<Rightarrow> write_shut w \<longrightarrow> e = EPIPE)"

definition op_answer :: "'s tcp_connection \<Rightarrow> conn_op \<Rightarrow> bool" where
  "op_answer w op =
     (case op of
        OSend data r \<Rightarrow> write_answer w (length data) r
      | ORunSend data r \<Rightarrow> write_answer w (length data) r
      | OWritable r \<Rightarrow> write_answer w (length (content (outputBuffer w))) r
      | _ \<Rightarrow> True)"

text \<open>The bytes a call makes part of the stream: all, unless the peer is found to be gone.\<close>

definition fatal_answer :: "write_result \<Rightarrow> bool" where
  "fatal_answer r = (case r of Wrote n \<Rightarrow> False | WriteErr e \<Rightarrow> e = EPIPE \<or> e = ECONNRESET)"

definition op_accepts :: "'s tcp_connection \<Rightarrow> conn_op \<Rightarrow> byte list" where
  "op_accepts w op =
     (case op of
        OSend data r \<Rightarrow> if state w \<noteq> kConnected \<or> content (outputBuffer w) = [] \<and> fatal_answer r then [] else data
      | ORunSend data r \<Rightarrow> if content (outputBuffer w) = [] \<and> fatal_answer r then [] else data
      | _ \<Rightarrow> [])"

fun accepted ::
  "(nat \<Rightarrow> ('cb, 'z) chan_store_scheme \<Rightarrow> ('cb, 'z) chan_store_scheme res) \<Rightarrow> conn_op list
     \<Rightarrow> ('cb, 'z) chan_store_scheme tcp_connection \<Rightarrow> byte list" where
  "accepted upd [] w = []"
| "accepted upd (op # ops) w =
     op_accepts w op @ (case do_op upd op w of Inl e \<Rightarrow> [] | Inr w' \<Rightarrow> accepted upd ops w')"

fun answers_ok ::
  "(nat \<Rightarrow> ('cb, 'z) chan_store_scheme \<Rightarrow> ('cb, 'z) chan_store_scheme res) \<Rightarrow> conn_op list
     \<Rightarrow> ('cb, 'z) chan_store_scheme tcp_connection \<Rightarrow> bool" where
  "answers_ok upd [] w \<longleftrightarrow> True"
| "answers_ok upd (op # ops) w \<longleftrightarrow>
     op_answer w op \<and> (case do_op upd op w of Inl e \<Rightarrow> True | Inr w' \<Rightarrow> answers_ok upd ops w')"

section \<open>The contract of a registered channel\<close>

text \<open>An established connection: it is read from, and written to exactly while output is pending.\<close>

definition conn_inv ::
  "(('cb, 'z) chan_store_scheme \<Rightarrow> bool) \<Rightarrow> (('cb, 'z) chan_store_scheme \<Rightarrow> nat \<Rightarrow> bool)
     \<Rightarrow> ('cb, 'z) chan_store_scheme tcp_connection \<Rightarrow> bool" where
  "conn_inv I R w \<longleftrightarrow> (state w = kConnected \<or> state w = kDisconnecting) \<and> I (c_io w) \<and> R (c_io w) (c_chan w)
     \<and> (\<exists>ch. heap (c_io w) (c_chan w) = Some ch
          \<and> events ch = (if content (outputBuffer w) = [] then kReadEvent else kReadEvent OR kWriteEvent))
     \<and> buf_inv (outputBuffer w) \<and> (write_shut w \<longrightarrow> content (outputBuffer w) = [])"

locale watched_channel = poller_contract inv interest upd rmv upd_pre rmv_pre
  for inv :: "('cb, 'z) chan_store_scheme \<Rightarrow> bool" and interest upd rmv upd_pre rmv_pre +
  fixes reg :: "('cb, 'z) chan_store_scheme \<Rightarrow> nat \<Rightarrow> bool"
  assumes reg_pre: "inv s \<Longrightarrow> heap s c = Some ch \<Longrightarrow> reg s c \<Longrightarrow>
      upd_pre (s\<lparr>heap := (heap s)(c \<mapsto> ch\<lparr>events := e\<rparr>)\<rparr>) c"
    and reg_keep: "inv s \<Longrightarrow> heap s c = Some ch \<Longrightarrow> reg s c \<Longrightarrow> e \<noteq> 0 \<Longrightarrow>
      upd c (s\<lparr>heap := (heap s)(c \<mapsto> ch\<lparr>events := e\<rparr>)\<rparr>) = Inr s' \<Longrightarrow> reg s' c"
begin

lemma conn_invD:
  assumes "conn_inv inv reg w"
  obtains ch where "heap (c_io w) (c_chan w) = Some ch"
    and "events ch = (if content (outputBuffer w) = [] then kReadEvent else kReadEvent OR kWriteEvent)"
    and "inv (c_io w)" and "reg (c_io w) (c_chan w)" and "buf_inv (outputBuffer w)"
    and "state w = kConnected \<or> state w = kDisconnecting"
    and "write_shut w \<Longrightarrow> content (outputBuffer w) = []"
  using assms unfolding conn_inv_def by blast

lemma isWriting_iff:
  assumes "events ch = (if xs = [] then kReadEvent else kReadEvent OR kWriteEvent)"
  shows "isWriting ch \<longleftrightarrow> xs \<noteq> []"
  using assms by (simp add: isWriting_def poll_defs)

text \<open>Changing the events of a registered channel to a non-empty set.\<close>

lemma set_events_reg:
  assumes "inv s" and "heap s c = Some ch" and "reg s c" and "wanted e" and "e \<noteq> 0"
  shows "\<exists>s' i. upd c (s\<lparr>heap := (heap s)(c \<mapsto> ch\<lparr>events := e\<rparr>)\<rparr>) = Inr s' \<and> inv s' \<and> reg s' c
    \<and> interest s' = (interest s)(ch_fd ch := e) \<and> heap s' c = Some (ch\<lparr>events := e, ch_index := i\<rparr>)"
  using set_events [OF assms(1,2,4) reg_pre [OF assms(1-3)]] reg_keep [OF assms(1-3,5)] by blast

lemma events_facts: "wanted kReadEvent" "wanted (kReadEvent OR kWriteEvent)" "kReadEvent \<noteq> 0"
  "kReadEvent OR kWriteEvent \<noteq> 0" "(kReadEvent OR kWriteEvent) AND NOT kWriteEvent = kReadEvent"
  by (simp_all add: wanted_def all_events_def poll_defs)

text \<open>The end of \<^verbatim>\<open>sendInLoop\<close>: what was not written is appended and writing is enabled.\<close>

lemma append_and_enable:
  assumes inv: "conn_inv inv reg w" and room: "used (outputBuffer w) + length data \<le> vec_max"
    and n: "n < length data" and shut: "\<not> write_shut w"
  shows "\<exists>w' out. append_ptr data n (length data - n) (outputBuffer w) = Inr out
    \<and> bindE (get_ch (c_chan w) (c_io w)) (\<lambda>ch. if \<not> isWriting ch
          then lift_io (enableWriting upd (c_chan w)) (w\<lparr>outputBuffer := out\<rparr>) else Inr (w\<lparr>outputBuffer := out\<rparr>)) = Inr w'
    \<and> conn_inv inv reg w' \<and> content (outputBuffer w') = content (outputBuffer w) @ drop n data
    \<and> used (outputBuffer w') \<le> used (outputBuffer w) + length data
    \<and> written w' = written w \<and> write_shut w' = write_shut w \<and> state w' = state w"
proof -
  obtain ch where ch: "heap (c_io w) (c_chan w) = Some ch" and io: "inv (c_io w)" "reg (c_io w) (c_chan w)"
    and ev: "events ch = (if content (outputBuffer w) = [] then kReadEvent else kReadEvent OR kWriteEvent)"
    and b: "buf_inv (outputBuffer w)" and st: "state w = kConnected \<or> state w = kDisconnecting"
    using conn_invD [OF inv] by blast
  have "used (outputBuffer w) + (length data - n) \<le> vec_max" "n + (length data - n) \<le> length data"
    using room n by simp_all
  from append_ptr_ok [OF b this] obtain out where out: "append_ptr data n (length data - n) (outputBuffer w) = Inr out"
    "buf_inv out" "content out = content (outputBuffer w) @ drop n data" "used out \<le> used (outputBuffer w) + length data"
    by fastforce
  have ne: "content out \<noteq> []" using out(3) n by simp
  show ?thesis
  proof (cases "content (outputBuffer w) = []")
    case False
    with ev isWriting_iff [OF ev] ch out ne io st shut show ?thesis
      by (intro exI [of _ "w\<lparr>outputBuffer := out\<rparr>"] exI [of _ out]) (simp add: conn_inv_def)
  next
    case True
    from set_events_reg [OF io(1) ch io(2) events_facts(2,4)] obtain s' i where
      s': "upd (c_chan w) ((c_io w)\<lparr>heap := (heap (c_io w))(c_chan w \<mapsto> ch\<lparr>events := kReadEvent OR kWriteEvent\<rparr>)\<rparr>) = Inr s'"
      "inv s'" "reg s' (c_chan w)" "heap s' (c_chan w) = Some (ch\<lparr>events := kReadEvent OR kWriteEvent, ch_index := i\<rparr>)"
      by blast
    let ?w = "w\<lparr>outputBuffer := out, c_io := s'\<rparr>"
    have "lift_io (enableWriting upd (c_chan w)) (w\<lparr>outputBuffer := out\<rparr>) = Inr ?w"
      using ch s'(1) ev True by (simp add: lift_io_def enableWriting_def)
    moreover have "conn_inv inv reg ?w" using s' out n st shut by (simp add: conn_inv_def)
    ultimately show ?thesis
      using out ch isWriting_iff [OF ev] True by (intro exI [of _ ?w] exI [of _ out]) simp
  qed
qed

lemma conn_inv_same:
  assumes "conn_inv inv reg w" and "c_io w' = c_io w" and "c_chan w' = c_chan w" and "state w' = state w"
    and "outputBuffer w' = outputBuffer w" and "write_shut w' = write_shut w"
  shows "conn_inv inv reg w'"
  using assms by (simp add: conn_inv_def)

lemma queue_functor_simps [simp]:
  "c_io (queue_functor f w) = c_io w" "c_chan (queue_functor f w) = c_chan w" "state (queue_functor f w) = state w"
  "outputBuffer (queue_functor f w) = outputBuffer w" "write_shut (queue_functor f w) = write_shut w"
  "written (queue_functor f w) = written w" "highWaterMark (queue_functor f w) = highWaterMark w"
  "highWaterMarkCb (queue_functor f w) = highWaterMarkCb w"
  by (simp_all add: queue_functor_def)

definition sent_ok :: "('cb, 'z) chan_store_scheme tcp_connection \<Rightarrow> byte list \<Rightarrow> nat
    \<Rightarrow> ('cb, 'z) chan_store_scheme tcp_connection \<Rightarrow> bool" where
  "sent_ok w ds n w' \<longleftrightarrow> conn_inv inv reg w'
     \<and> written w' @ content (outputBuffer w') = written w @ content (outputBuffer w) @ ds
     \<and> used (outputBuffer w') \<le> used (outputBuffer w) + n"

lemma send_enqueue_ok:
  assumes inv: "conn_inv inv reg w" and room: "used (outputBuffer w) + length data \<le> vec_max" and n: "n < length data"
    and shut: "\<not> write_shut w"
  shows "\<exists>w'. send_enqueue upd data n (length data - n) w = Inr w' \<and> sent_ok w (drop n data) (length data) w'"
proof -
  define w2 where "w2 = (if highWaterMark w \<le> sz_add (readableBytes (outputBuffer w)) (length data - n)
      \<and> readableBytes (outputBuffer w) < highWaterMark w \<and> highWaterMarkCb w
    then queue_functor (HighWater (sz_add (readableBytes (outputBuffer w)) (length data - n))) w else w)"
  have same: "c_io w2 = c_io w" "c_chan w2 = c_chan w" "state w2 = state w" "outputBuffer w2 = outputBuffer w"
    "write_shut w2 = write_shut w" "written w2 = written w"
    by (simp_all add: w2_def)
  have inv2: "conn_inv inv reg w2" by (rule conn_inv_same [OF inv same(1-5)])
  from append_and_enable [OF inv2 _ n] room shut same obtain w' out where
    "append_ptr data n (length data - n) (outputBuffer w2) = Inr out"
    "bindE (get_ch (c_chan w2) (c_io w2)) (\<lambda>ch. if \<not> isWriting ch
          then lift_io (enableWriting upd (c_chan w2)) (w2\<lparr>outputBuffer := out\<rparr>) else Inr (w2\<lparr>outputBuffer := out\<rparr>)) = Inr w'"
    "conn_inv inv reg w'" "content (outputBuffer w') = content (outputBuffer w) @ drop n data"
    "used (outputBuffer w') \<le> used (outputBuffer w) + length data" "written w' = written w"
    by auto
  then show ?thesis
    unfolding send_enqueue_def Let_def w2_def [symmetric] by (simp add: sent_ok_def cong: if_cong)
qed

text \<open>A direct \<^verbatim>\<open>write\<close> that took the first \<open>n\<close> bytes.\<close>

lemma send_wrote_ok:
  assumes inv: "conn_inv inv reg w" and room: "used (outputBuffer w) + length data \<le> vec_max" and empty: "content (outputBuffer w) = []"
    and n: "n \<le> length data" "\<not> write_shut w" and send: "send_direct (Wrote n) data w = (n, length data - n, False, w1)"
  shows "\<exists>w'. (if 0 < length data - n then send_enqueue upd data n (length data - n) w1 else Inr w1) = Inr w' \<and> sent_ok w data (length data) w'"
proof -
  have same: "c_io w1 = c_io w" "c_chan w1 = c_chan w" "state w1 = state w" "outputBuffer w1 = outputBuffer w"
    "write_shut w1 = write_shut w" "written w1 = written w @ take n data" using send by (auto simp: send_direct_def Let_def split: if_splits)
  have inv1: "conn_inv inv reg w1" by (rule conn_inv_same [OF inv same(1-5)])
  have "\<exists>w'. send_enqueue upd data n (length data - n) w1 = Inr w' \<and> sent_ok w data (length data) w'" if "n < length data"
    using send_enqueue_ok [OF inv1 _ that] room n same empty by (auto simp: sent_ok_def)
  moreover have "sent_ok w data (length data) w1" if "n = length data" using inv1 same that by (simp add: sent_ok_def empty)
  ultimately show ?thesis using n(1) by (cases "n = length data") auto
qed

lemma sendInLoop_ok:
  assumes inv: "conn_inv inv reg w" and room: "used (outputBuffer w) + length data \<le> vec_max"
    and ans: "write_answer w (length data) r"
  shows "\<exists>w'. sendInLoop upd r data w = Inr w'
    \<and> sent_ok w (if content (outputBuffer w) = [] \<and> fatal_answer r then [] else data) (length data) w'"
proof -
  obtain ch where ch: "heap (c_io w) (c_chan w) = Some ch"
    and ev: "events ch = (if content (outputBuffer w) = [] then kReadEvent else kReadEvent OR kWriteEvent)"
    and b: "buf_inv (outputBuffer w)" and st: "state w \<noteq> kDisconnected"
    and shut: "write_shut w \<Longrightarrow> content (outputBuffer w) = []"
    using conn_invD [OF inv] by (metis conn_state.distinct(3,5))
  have rd: "readableBytes (outputBuffer w) = length (content (outputBuffer w))" by (rule readableBytes_eq [OF b])
  have noop: "sent_ok w [] (length data) w" using inv by (simp add: sent_ok_def)
  have all: "\<exists>w'. send_enqueue upd data 0 (length data) w = Inr w' \<and> sent_ok w data (length data) w'"
    if "data \<noteq> []" "\<not> write_shut w"
    using send_enqueue_ok [OF inv room, of 0] that by simp
  show ?thesis
  proof (cases "content (outputBuffer w) = []")
    case False
    with ch isWriting_iff [OF ev] st have "sendInLoop upd r data w
        = (if 0 < length data then send_enqueue upd data 0 (length data) w else Inr w)"
      by (simp add: sendInLoop_def)
    with False shut all noop show ?thesis by (cases "data = []") auto
  next
    case True
    with ch isWriting_iff [OF ev] st rd have direct: "sendInLoop upd r data w
        = (let (nwrote, remaining, faultError, w1) = send_direct r data w
           in if \<not> faultError \<and> 0 < remaining then send_enqueue upd data nwrote remaining w1 else Inr w1)"
      by (simp add: sendInLoop_def)
    show ?thesis
    proof (cases r)
      case (WriteErr e)
      have fatal: "fatal_answer r \<longleftrightarrow> e \<noteq> EWOULDBLOCK \<and> (e = EPIPE \<or> e = ECONNRESET)"
        using WriteErr by (auto simp: fatal_answer_def errno_defs)
      have "write_shut w \<longrightarrow> fatal_answer r" using ans WriteErr by (simp add: write_answer_def fatal_answer_def)
      with all noop True fatal WriteErr show ?thesis
        unfolding direct by (cases "data = []") (auto simp: send_direct_def)
    next
      case (Wrote n)
      with ans have n: "n \<le> length data" "\<not> write_shut w" by (simp_all add: write_answer_def)
      have len: "length data < SIZE_MOD" using room vec_max_less by linarith
      obtain w1 where w1: "send_direct r data w = (n, length data - n, False, w1)" using n len Wrote by (simp add: send_direct_def Let_def sz_simps)
      then have "sendInLoop upd r data w = (if 0 < length data - n then send_enqueue upd data n (length data - n) w1 else Inr w1)"
        unfolding direct by simp
      moreover have "\<not> fatal_answer r" using Wrote by (simp add: fatal_answer_def)
      ultimately show ?thesis using send_wrote_ok [OF inv room True n w1 [unfolded Wrote]] by auto
    qed
  qed
qed

lemma shutdownInLoop_ok:
  assumes "conn_inv inv reg w"
  shows "\<exists>w'. shutdownInLoop w = Inr w' \<and> conn_inv inv reg w' \<and> written w' = written w
    \<and> outputBuffer w' = outputBuffer w \<and> state w' = state w
    \<and> write_shut w' = (write_shut w \<or> content (outputBuffer w) = [])"
proof -
  from assms obtain ch where ch: "heap (c_io w) (c_chan w) = Some ch"
    and ev: "events ch = (if content (outputBuffer w) = [] then kReadEvent else kReadEvent OR kWriteEvent)"
    by (rule conn_invD)
  show ?thesis
    using ch isWriting_iff [OF ev] assms by (auto simp: shutdownInLoop_def conn_inv_def)
qed

text \<open>The output has drained: writing is no longer watched for, and a shutdown that was waiting is done.\<close>

lemma drained_ok:
  assumes inv: "conn_inv inv reg w" and ne: "content (outputBuffer w) \<noteq> []" and ns: "\<not> write_shut w"
    and out: "buf_inv out" "content out = []" "used out \<le> used (outputBuffer w)"
  shows "\<exists>w'. bindE (lift_io (disableWriting upd (c_chan w)) (w\<lparr>outputBuffer := out, written := written w @ content (outputBuffer w)\<rparr>)) (\<lambda>w2.
      let w3 = (if writeCompleteCb w2 then queue_functor WriteComplete w2 else w2)
      in if state w3 = kDisconnecting then shutdownInLoop w3 else Inr w3) = Inr w' \<and> sent_ok w [] 0 w'"
proof -
  obtain ch where ch: "heap (c_io w) (c_chan w) = Some ch" and io: "inv (c_io w)" "reg (c_io w) (c_chan w)"
    and ev: "events ch = kReadEvent OR kWriteEvent" and st: "state w = kConnected \<or> state w = kDisconnecting"
    using inv ne by (auto simp: conn_inv_def)
  from set_events_reg [OF io(1) ch io(2) events_facts(1,3)] obtain s' i where
    s': "upd (c_chan w) ((c_io w)\<lparr>heap := (heap (c_io w))(c_chan w \<mapsto> ch\<lparr>events := kReadEvent\<rparr>)\<rparr>) = Inr s'"
    "inv s'" "reg s' (c_chan w)" "heap s' (c_chan w) = Some (ch\<lparr>events := kReadEvent, ch_index := i\<rparr>)"
    by blast
  let ?w2 = "w\<lparr>outputBuffer := out, written := written w @ content (outputBuffer w), c_io := s'\<rparr>"
  have dis: "lift_io (disableWriting upd (c_chan w)) (w\<lparr>outputBuffer := out, written := written w @ content (outputBuffer w)\<rparr>) = Inr ?w2"
    using ch s'(1) ev by (simp add: lift_io_def disableWriting_def events_facts(5))
  define w3 where "w3 = (if writeCompleteCb ?w2 then queue_functor WriteComplete ?w2 else ?w2)"
  have inv2: "conn_inv inv reg ?w2" using s' out st ns by (simp add: conn_inv_def)
  have same: "c_io w3 = c_io ?w2" "c_chan w3 = c_chan ?w2" "state w3 = state ?w2"
    "outputBuffer w3 = outputBuffer ?w2" "write_shut w3 = write_shut ?w2" "written w3 = written ?w2"
    by (simp_all only: w3_def queue_functor_simps if_cancel if_P if_not_P cong: if_cong split: if_split) simp_all
  have inv3: "conn_inv inv reg w3" by (rule conn_inv_same [OF inv2 same(1-5)])
  have ok3: "sent_ok w [] 0 w3" using inv3 same out by (simp add: sent_ok_def)
  then show ?thesis using dis shutdownInLoop_ok [OF inv3] by (auto simp: sent_ok_def w3_def Let_def)
qed

lemma handleWrite_ok:
  assumes inv: "conn_inv inv reg w" and ans: "write_answer w (length (content (outputBuffer w))) r"
  shows "\<exists>w'. conn_handleWrite upd r w = Inr w' \<and> sent_ok w [] 0 w'"
proof -
  obtain ch where ch: "heap (c_io w) (c_chan w) = Some ch" and io: "inv (c_io w)" "reg (c_io w) (c_chan w)"
    and ev: "events ch = (if content (outputBuffer w) = [] then kReadEvent else kReadEvent OR kWriteEvent)"
    and b: "buf_inv (outputBuffer w)" and st: "state w = kConnected \<or> state w = kDisconnecting"
    and shut: "write_shut w \<Longrightarrow> content (outputBuffer w) = []"
    using conn_invD [OF inv] by blast
  have noop: "sent_ok w [] 0 w" using inv by (simp add: sent_ok_def)
  have rd: "mem_read (vec (outputBuffer w)) (BeginRead (outputBuffer w)) (readableBytes (outputBuffer w))
      = Inr (content (outputBuffer w))"
    using mem_read_content [OF b, of "length (content (outputBuffer w))"] by (simp add: readableBytes_eq [OF b])
  show ?thesis
  proof (cases "content (outputBuffer w) = [] \<or> (\<forall>n. r = Wrote n \<longrightarrow> n = 0)")
    case True
    with ch isWriting_iff [OF ev] rd noop show ?thesis
      by (cases r) (auto simp: conn_handleWrite_def)
  next
    case False
    then obtain n where r: "r = Wrote n" "0 < n" and ne: "content (outputBuffer w) \<noteq> []" by auto
    with ans have n: "n \<le> length (content (outputBuffer w))" and ns: "\<not> write_shut w"
      by (simp_all add: write_answer_def)
    obtain out where out: "retrieve n (outputBuffer w) = Inr out" "buf_inv out"
      "content out = drop n (content (outputBuffer w))" "used out \<le> used (outputBuffer w)"
      using retrieve_ok [OF b n] by blast
    let ?w1 = "w\<lparr>outputBuffer := out, written := written w @ take n (content (outputBuffer w))\<rparr>"
    have step: "conn_handleWrite upd r w =
        (if readableBytes out = 0
         then bindE (lift_io (disableWriting upd (c_chan w)) ?w1) (\<lambda>w2.
           let w3 = (if writeCompleteCb w2 then queue_functor WriteComplete w2 else w2)
           in if state w3 = kDisconnecting then shutdownInLoop w3 else Inr w3)
         else Inr ?w1)"
      using ch isWriting_iff [OF ev] ne rd r out(1) by (simp add: conn_handleWrite_def)
    show ?thesis
    proof (cases "content out = []")
      case more: False
      have "conn_inv inv reg ?w1" using ch io ev out more ne st ns by (simp add: conn_inv_def)
      with step more out show ?thesis by (auto simp: readableBytes_eq [OF out(2)] sent_ok_def)
    next
      case True
      then have all: "take n (content (outputBuffer w)) = content (outputBuffer w)" using out(3) n by simp
      show ?thesis unfolding step using True drained_ok [OF inv ne ns out(2) True out(4)] by (simp add: readableBytes_eq [OF out(2)] all)
    qed
  qed
qed

lemma do_op_ok:
  assumes inv: "conn_inv inv reg w" and room: "used (outputBuffer w) + length (op_data op) \<le> vec_max"
    and ans: "op_answer w op"
  shows "\<exists>w'. do_op upd op w = Inr w' \<and> sent_ok w (op_accepts w op) (length (op_data op)) w'"
proof (cases op)
  case (OSend data r)
  then show ?thesis
    using sendInLoop_ok [OF inv, of data r] room ans inv
    by (cases "state w = kConnected") (auto simp: do_op_def send_def op_accepts_def op_data_def op_answer_def sent_ok_def)
next
  case (ORunSend data r)
  then show ?thesis
    using sendInLoop_ok [OF inv, of data r] room ans
    by (auto simp: do_op_def op_accepts_def op_data_def op_answer_def)
next
  case OShutdown
  have "conn_inv inv reg (w\<lparr>state := kDisconnecting\<rparr>)" using inv by (simp add: conn_inv_def)
  from shutdownInLoop_ok [OF this] OShutdown inv show ?thesis
    by (auto simp: do_op_def shutdown_def op_accepts_def op_data_def sent_ok_def)
next
  case ORunShutdown
  with shutdownInLoop_ok [OF inv] show ?thesis
    by (auto simp: do_op_def op_accepts_def op_data_def sent_ok_def)
next
  case (OWritable r)
  with handleWrite_ok [OF inv, of r] ans show ?thesis
    by (simp add: do_op_def op_accepts_def op_data_def op_answer_def)
qed

lemma run_ops_ok:
  assumes "conn_inv inv reg w" and "used (outputBuffer w) + length (concat (map op_data ops)) \<le> vec_max"
    and "answers_ok upd ops w"
  shows "\<exists>w'. foldE (do_op upd) ops w = Inr w' \<and> conn_inv inv reg w'
    \<and> written w' @ content (outputBuffer w') = written w @ content (outputBuffer w) @ accepted upd ops w"
  using assms
proof (induction ops arbitrary: w)
  case Nil
  then show ?case by simp
next
  case (Cons op ops)
  from do_op_ok [OF Cons.prems(1), of op] Cons.prems(2,3) obtain w1 where
    w1: "do_op upd op w = Inr w1" "sent_ok w (op_accepts w op) (length (op_data op)) w1" by auto
  with Cons.prems(2,3) have "used (outputBuffer w1) + length (concat (map op_data ops)) \<le> vec_max"
    "answers_ok upd ops w1" "conn_inv inv reg w1" by (auto simp: sent_ok_def)
  with Cons.IH [of w1] obtain w' where "foldE (do_op upd) ops w1 = Inr w'" "conn_inv inv reg w'"
    "written w' @ content (outputBuffer w') = written w1 @ content (outputBuffer w1) @ accepted upd ops w1" by blast
  with w1 show ?case by (simp add: sent_ok_def)
qed

end


section \<open>Both pollers provide it\<close>

definition ep_reg :: "('cb, 'k, 'z) epoll_poller_scheme \<Rightarrow> nat \<Rightarrow> bool" where
  "ep_reg s c \<longleftrightarrow> (\<exists>ch. heap s c = Some ch \<and> ep_channels s (ch_fd ch) = Some c \<and> ch_index ch = kAdded)"

interpretation eps: watched_channel "\<lambda>s. epoll_ctl_spec ctl km \<and> ep_inv km s" "ep_interest km"
  "EPollPoller_UpdateChannel ctl" "EPollPoller_removeChannel ctl" "ep_update_pre ctl" ep_remove_pre ep_reg
  for ctl :: "'k epoll_ctl" and km
proof unfold_locales
  fix s :: "('cb, 'k, 'z) epoll_poller_scheme" and c ch e
  assume "heap s c = Some ch" "ep_reg s c"
  then show "ep_update_pre ctl (s\<lparr>heap := (heap s)(c \<mapsto> ch\<lparr>events := e\<rparr>)\<rparr>) c"
    by (simp add: ep_reg_def ep_update_pre_def ep_index_defs)
next
  fix s s' :: "('cb, 'k, 'z) epoll_poller_scheme" and c ch and e :: mask
  assume "heap s c = Some ch" "ep_reg s c" "e \<noteq> 0"
    "EPollPoller_UpdateChannel ctl c (s\<lparr>heap := (heap s)(c \<mapsto> ch\<lparr>events := e\<rparr>)\<rparr>) = Inr s'"
  then show "ep_reg s' c"
    by (auto simp: ep_reg_def EPollPoller_UpdateChannel_def ep_update_def ep_index_defs isNoneEvent_def
        kNoneEvent_def Let_def case_prod_unfold split: if_splits)
qed

text \<open>Registering a channel that the poller does not know yet.\<close>

lemma ep_register:
  assumes spec: "epoll_ctl_spec ctl km" and inv: "ep_inv km s" and ch: "heap s c = Some ch" "ch_index ch = kNew"
    and new: "ep_channels s (ch_fd ch) = None" and add: "0 \<le> fst (ctl EPOLL_CTL_ADD (ch_fd ch) (events ch, c) (ep_kernel s))"
  shows "\<exists>s'. EPollPoller_UpdateChannel ctl c s = Inr s' \<and> ep_inv km s' \<and> heap s' = (heap s)(c \<mapsto> ch\<lparr>ch_index := kAdded\<rparr>)
    \<and> ep_channels s' = (ep_channels s)(ch_fd ch \<mapsto> c) \<and> ep_reg s' c"
proof -
  have pre: "ep_update_pre ctl s c" using ch new add by (simp add: ep_update_pre_def)
  obtain s' i where s': "EPollPoller_UpdateChannel ctl c s = Inr s'" "ep_inv km s'"
    "heap s' = (heap s)(c \<mapsto> ch\<lparr>ch_index := i\<rparr>)" "ep_channels s' = (ep_channels s)(ch_fd ch \<mapsto> c)"
    using ep_update_ok [OF spec inv ch(1) pre] by auto
  have "ch\<lparr>ch_index := kAdded\<rparr> = ch\<lparr>ch_index := i\<rparr>"
    using s'(1,3) ch new
    by (auto simp: EPollPoller_UpdateChannel_def ep_update_def set_index_def mod_ch_def get_ch_def case_prod_unfold Let_def bindE_eq_Inr
        cassert_eq_Inr dest!: fun_cong [of _ _ c] split: if_splits)
  then have "i = kAdded" by (cases ch) simp
  then show ?thesis using s' by (simp add: ep_reg_def)
qed

definition pp_reg :: "('cb, 'z) poll_poller_scheme \<Rightarrow> nat \<Rightarrow> bool" where
  "pp_reg s c \<longleftrightarrow> (\<exists>ch. heap s c = Some ch \<and> pp_channels s (ch_fd ch) = Some c \<and> 0 \<le> ch_fd ch \<and> 0 \<le> ch_index ch
     \<and> pfd_fd (pollfds s ! nat (ch_index ch)) = ch_fd ch)"

interpretation pps: watched_channel pp_inv pp_interest PollPoller_UpdateChannel
  PollPoller_removeChannel pp_watch_pre pp_remove_pre pp_reg
proof unfold_locales
  fix s :: "('cb, 'z) poll_poller_scheme" and c ch e
  assume "heap s c = Some ch" "pp_reg s c"
  then show "pp_watch_pre (s\<lparr>heap := (heap s)(c \<mapsto> ch\<lparr>events := e\<rparr>)\<rparr>) c"
    by (simp add: pp_reg_def pp_watch_pre_def pp_update_pre_def)
next
  fix s s' :: "('cb, 'z) poll_poller_scheme" and c ch and e :: mask
  assume "heap s c = Some ch" "pp_reg s c" "e \<noteq> 0"
    "PollPoller_UpdateChannel c (s\<lparr>heap := (heap s)(c \<mapsto> ch\<lparr>events := e\<rparr>)\<rparr>) = Inr s'"
  then show "pp_reg s' c"
    by (auto simp: pp_reg_def PollPoller_UpdateChannel_def isNoneEvent_def kNoneEvent_def Let_def
        cassert_eq_Inr split: if_splits)
qed

section \<open>The end of a connection\<close>

text \<open>The user's callbacks: what a callback does to its connection are calls of \<^verbatim>\<open>send\<close> and \<^verbatim>\<open>shutdown\<close>.\<close>

fun user_op :: "conn_op \<Rightarrow> bool" where
  "user_op (OSend _ _) = True"
| "user_op OShutdown = True"
| "user_op _ = False"

definition user_call ::
  "(nat \<Rightarrow> ('cb, 'z) chan_store_scheme \<Rightarrow> ('cb, 'z) chan_store_scheme res) \<Rightarrow> (conn_event \<Rightarrow> conn_op list) \<Rightarrow> conn_event
     \<Rightarrow> ('cb, 'z) chan_store_scheme tcp_connection \<Rightarrow> ('cb, 'z) chan_store_scheme tcp_connection res" where
  "user_call upd script ev w = foldE (do_op upd) (script ev) w"

lemma user_call_disconnected:
  assumes "state w = kDisconnected" and "list_all user_op (script ev)"
  shows "user_call upd script ev w = Inr w"
proof -
  have "foldE (do_op upd) ops w = Inr w" if "list_all user_op ops" for ops
    using that
  proof (induction ops)
    case (Cons op ops)
    with assms(1) show ?case by (cases op) (simp_all add: do_op_def send_def shutdown_def)
  qed simp
  with assms(2) show ?thesis by (simp add: user_call_def)
qed

lemma close_channel:
  assumes spec: "epoll_ctl_spec ctl km" and inv: "ep_inv km s" and reg: "ep_reg s c" and ch: "heap s c = Some ch"
  shows "\<exists>s1 s2 ch1. disableAll (EPollPoller_UpdateChannel ctl) c s = Inr s1 \<and> heap s1 c = Some ch1 \<and> isNoneEvent ch1
    \<and> Channel_remove (EPollPoller_removeChannel ctl) c s1 = Inr s2 \<and> ep_inv km s2
    \<and> ep_channels s2 = (ep_channels s)(ch_fd ch := None)
    \<and> ep_interest km s2 = (ep_interest km s)(ch_fd ch := 0)
    \<and> heap s2 c = Some (ch\<lparr>events := kNoneEvent, ch_index := kNew\<rparr>)"
proof -
  let ?ch = "ch\<lparr>events := kNoneEvent\<rparr>" let ?s = "s\<lparr>heap := (heap s)(c \<mapsto> ch\<lparr>events := kNoneEvent\<rparr>)\<rparr>"
  have h: "heap ?s c = Some ?ch" by simp
  have inv': "ep_inv km ?s" using inv ch by (intro ep_inv_channel_update) auto
  have pre: "ep_update_pre ctl ?s c" using reg ch by (simp add: ep_reg_def ep_update_pre_def ep_index_defs)
  obtain s1 i where s1: "EPollPoller_UpdateChannel ctl c ?s = Inr s1" "ep_inv km s1"
    "ep_interest km s1 = (ep_interest km ?s)(ch_fd ch := kNoneEvent)" "heap s1 = (heap ?s)(c \<mapsto> ?ch\<lparr>ch_index := i\<rparr>)"
    "ep_channels s1 = (ep_channels ?s)(ch_fd ch \<mapsto> c)"
    using ep_update_ok [OF spec inv' h pre] by auto
  have h1: "heap s1 c = Some (?ch\<lparr>ch_index := i\<rparr>)" and none: "isNoneEvent (?ch\<lparr>ch_index := i\<rparr>)"
    by (simp_all add: s1(4) isNoneEvent_def)
  have "ep_remove_pre s1 c" using h1 s1(5) by (simp add: ep_remove_pre_def)
  from ep_remove_ok [OF spec s1(2) h1 none this] obtain s2 where s2: "EPollPoller_removeChannel ctl c s1 = Inr s2"
    "ep_inv km s2" "ep_interest km s2 = (ep_interest km s1)(ch_fd ch := 0)"
    "ep_channels s2 = (ep_channels s1)(ch_fd ch := None)"
    "heap s2 = (heap s1)(c \<mapsto> ?ch\<lparr>ch_index := i, ch_index := kNew\<rparr>)" by auto
  have "ep_interest km ?s = ep_interest km s" by (simp add: ep_interest_def fun_eq_iff)
  with s1 s2 h1 none ch show ?thesis
    by (intro exI [of _ s1] exI [of _ s2] exI [of _ "?ch\<lparr>ch_index := i\<rparr>"])
       (simp add: disableAll_def Channel_remove_def)
qed

text \<open>A new channel, on a descriptor the poller does not watch, is watched once it wants an event.\<close>

lemma ep_inv_new_channel:
  assumes "ep_inv km s" and "heap s a = None"
  shows "ep_inv km (s\<lparr>heap := (heap s)(a \<mapsto> ch)\<rparr>)"
proof -
  have "ep_chan_ok km (s\<lparr>heap := (heap s)(a \<mapsto> ch)\<rparr>) fd d" if "ep_channels s fd = Some d" for fd d
    using ep_invD_chan [OF assms(1) that] assms(2) by (auto simp: ep_chan_ok_def)
  with assms(1) show ?thesis by (simp add: ep_inv_def)
qed

lemma open_channel:
  assumes spec: "epoll_ctl_spec ctl km" and inv: "ep_inv km s" and new: "heap s a = None" "ep_channels s (ch_fd ch) = None"
    and ch: "ch_index ch = kNew"
    and add: "0 \<le> fst (ctl EPOLL_CTL_ADD (ch_fd ch) (events ch, a) (ep_kernel s))"
  shows "\<exists>s'. EPollPoller_UpdateChannel ctl a (s\<lparr>heap := (heap s)(a \<mapsto> ch)\<rparr>) = Inr s' \<and> ep_inv km s'
    \<and> heap s' a = Some (ch\<lparr>ch_index := kAdded\<rparr>) \<and> ep_reg s' a
    \<and> ep_channels s' = (ep_channels s)(ch_fd ch \<mapsto> a)
    \<and> ep_interest km s' = (ep_interest km s)(ch_fd ch := events ch)"
proof -
  let ?s = "s\<lparr>heap := (heap s)(a \<mapsto> ch)\<rparr>"
  have h: "heap ?s a = Some ch" by simp
  have pre: "ep_update_pre ctl ?s a" using assms by (simp add: ep_update_pre_def)
  obtain s' i where s': "EPollPoller_UpdateChannel ctl a ?s = Inr s'" "ep_inv km s'"
    "heap s' = (heap ?s)(a \<mapsto> ch\<lparr>ch_index := i\<rparr>)" "ep_channels s' = (ep_channels ?s)(ch_fd ch \<mapsto> a)"
    "ep_interest km s' = (ep_interest km ?s)(ch_fd ch := events ch)"
    using ep_update_ok [OF spec ep_inv_new_channel [OF inv new(1)] h pre] by auto
  have "ch\<lparr>ch_index := kAdded\<rparr> = ch\<lparr>ch_index := i\<rparr>"
    using s'(1,3) ch new
    by (auto simp: EPollPoller_UpdateChannel_def ep_update_def set_index_def case_prod_unfold Let_def bindE_eq_Inr
        cassert_eq_Inr dest!: fun_cong [of _ _ a] split: if_splits)
  then have "i = kAdded" by (cases ch) simp
  moreover have "ep_interest km ?s = ep_interest km s" by (simp add: ep_interest_def fun_eq_iff)
  ultimately show ?thesis using s' by (simp add: ep_reg_def)
qed

section \<open>Properties\<close>

text \<open>A concrete connection: established, on descriptor 5, over a kernel whose interest list is a map.\<close>

definition conn_demo :: "(unit, int \<rightharpoonup> epoll_event) epoll_poller tcp_connection" where
  "conn_demo = \<lparr>c_io = ep_demo1, c_chan = 0, state = kConnected, conn_fd = 5, highWaterMark = 64,
     writeCompleteCb = True, highWaterMarkCb = True,
     inputBuffer = \<lparr>vec = replicate 16 0, readerIndex = 8, writerIndex = 8\<rparr>,
     outputBuffer = \<lparr>vec = replicate 16 0, readerIndex = 8, writerIndex = 8\<rparr>,
     c_queue = [], written = [], write_shut = False\<rparr>"

lemma conn_demo_inv: "conn_inv (\<lambda>s. epoll_ctl_spec table_ctl (\<lambda>k. k) \<and> ep_inv (\<lambda>k. k) s) ep_reg conn_demo"
  using table_ctl_spec ep_demo1_inv
  by (auto simp: conn_inv_def conn_demo_def ep_reg_def ep_demo1_def Channel_new_def content_def buf_inv_def
      kCheapPrepend_def vec_max_def poll_defs)

text \<open>
  Nothing is lost, duplicated or reordered on the way out, and the connection closes its
  writing side only when everything is out. For every sequence of \<^verbatim>\<open>send\<close>, of sends and shutdowns
  queued by other threads, of \<^verbatim>\<open>shutdown\<close> and of writable events, and every behaviour of \<^verbatim>\<open>write\<close>
  (short writes, a full socket buffer, a reset peer): no assertion fails, the bytes the kernel has
  taken followed by the bytes in the output buffer are exactly the bytes accepted, in order; the
  channel asks for writable events exactly while the output buffer is not empty; and after
  \<^verbatim>\<open>ShutdownWrite\<close> the output buffer is empty. With \<^verbatim>\<open>EPollPoller\<close>.
\<close>

theorem tcp_stream_epoll:
  assumes "conn_inv (\<lambda>s. epoll_ctl_spec ctl km \<and> ep_inv km s) ep_reg w"
    and "used (outputBuffer w) + length (concat (map op_data ops)) \<le> vec_max"
    and "answers_ok (EPollPoller_UpdateChannel ctl) ops w"
  shows "\<exists>w'. foldE (do_op (EPollPoller_UpdateChannel ctl)) ops w = Inr w'
    \<and> conn_inv (\<lambda>s. epoll_ctl_spec ctl km \<and> ep_inv km s) ep_reg w'
    \<and> written w' @ content (outputBuffer w') = written w @ content (outputBuffer w) @ accepted (EPollPoller_UpdateChannel ctl) ops w"
  by (rule eps.run_ops_ok [OF assms])

theorem tcp_stream_epoll_witness:
  "\<exists>w'. foldE (do_op (EPollPoller_UpdateChannel table_ctl)) [OSend [1, 2, 3] (Wrote 2), OShutdown] conn_demo = Inr w'
    \<and> written w' @ content (outputBuffer w') = [1, 2, 3]"
proof -
  have ans: "answers_ok (EPollPoller_UpdateChannel table_ctl) [OSend [1, 2, 3] (Wrote 2), OShutdown] conn_demo"
    by (simp add: op_answer_def write_answer_def conn_demo_def split: sum.splits)
  have acc: "accepted (EPollPoller_UpdateChannel table_ctl) [OSend [1, 2, 3] (Wrote 2), OShutdown] conn_demo = [1, 2, 3]"
    by (simp add: op_accepts_def fatal_answer_def conn_demo_def split: sum.splits)
  have "used (outputBuffer conn_demo) + length (concat (map op_data [OSend [1, 2, 3] (Wrote 2), OShutdown])) \<le> vec_max"
    by (simp add: conn_demo_def used_def kCheapPrepend_def op_data_def vec_max_def)
  from tcp_stream_epoll [OF conn_demo_inv this ans] acc show ?thesis
    by (auto simp: conn_demo_def content_def)
qed

text \<open>
  The same with \<^verbatim>\<open>PollPoller\<close>: an established connection always wants to read, so its entry in
  the vector is never the ignored one that \<^verbatim>\<open>UpdateChannel\<close> fails to restore.
\<close>

theorem tcp_stream_poll:
  assumes "conn_inv pp_inv pp_reg w"
    and "used (outputBuffer w) + length (concat (map op_data ops)) \<le> vec_max"
    and "answers_ok PollPoller_UpdateChannel ops w"
  shows "\<exists>w'. foldE (do_op PollPoller_UpdateChannel) ops w = Inr w' \<and> conn_inv pp_inv pp_reg w'
    \<and> written w' @ content (outputBuffer w') = written w @ content (outputBuffer w) @ accepted PollPoller_UpdateChannel ops w"
  by (rule pps.run_ops_ok [OF assms])

definition conn_demo_poll :: "unit poll_poller tcp_connection" where
  "conn_demo_poll = \<lparr>c_io = pp_demo 5 3 3, c_chan = 0, state = kConnected, conn_fd = 5, highWaterMark = 64,
     writeCompleteCb = False, highWaterMarkCb = False,
     inputBuffer = \<lparr>vec = replicate 16 0, readerIndex = 8, writerIndex = 8\<rparr>,
     outputBuffer = \<lparr>vec = replicate 16 0, readerIndex = 8, writerIndex = 8\<rparr>,
     c_queue = [], written = [], write_shut = False\<rparr>"

theorem tcp_stream_poll_witness:
  "\<exists>w'. foldE (do_op PollPoller_UpdateChannel) [OSend [1, 2, 3] (WriteErr EWOULDBLOCK)] conn_demo_poll = Inr w'
    \<and> written w' @ content (outputBuffer w') = [1, 2, 3]"
proof -
  have inv: "conn_inv pp_inv pp_reg conn_demo_poll"
    using pp_demo_inv [of 5 3 3]
    by (auto simp: conn_inv_def conn_demo_poll_def pp_reg_def pp_demo_def Channel_new_def content_def buf_inv_def
        kCheapPrepend_def vec_max_def poll_defs)
  have ans: "answers_ok PollPoller_UpdateChannel [OSend [1, 2, 3] (WriteErr EWOULDBLOCK)] conn_demo_poll"
    by (simp add: op_answer_def write_answer_def conn_demo_poll_def split: sum.splits)
  have acc: "accepted PollPoller_UpdateChannel [OSend [1, 2, 3] (WriteErr EWOULDBLOCK)] conn_demo_poll = [1, 2, 3]"
    by (simp add: op_accepts_def fatal_answer_def conn_demo_poll_def errno_defs split: sum.splits)
  have "used (outputBuffer conn_demo_poll) + length (concat (map op_data [OSend [1, 2, 3] (WriteErr EWOULDBLOCK)])) \<le> vec_max"
    by (simp add: conn_demo_poll_def used_def kCheapPrepend_def op_data_def vec_max_def)
  from tcp_stream_poll [OF inv this ans] acc show ?thesis
    by (auto simp: conn_demo_poll_def content_def)
qed

text \<open>
  C15. The end of a connection, when the peer closes: \<^verbatim>\<open>handleClose\<close> in the loop and, later,
  \<^verbatim>\<open>ConnectionDestroyed\<close>. Whatever the user's callbacks try to send or shut down meanwhile, no
  assertion fails, the connection ends up disconnected with nothing more written, and its descriptor,
  and no other, is no longer registered nor watched.
\<close>

theorem tcp_close_path:
  assumes inv: "conn_inv (\<lambda>s. epoll_ctl_spec ctl km \<and> ep_inv km s) ep_reg w"
    and ch: "heap (c_io w) (c_chan w) = Some ch" and script: "\<And>ev. list_all user_op (script ev)"
  shows "\<exists>w1 w2. conn_handleClose (EPollPoller_UpdateChannel ctl) (user_call (EPollPoller_UpdateChannel ctl) script) w = Inr w1
    \<and> ConnectionDestroyed (EPollPoller_UpdateChannel ctl) (EPollPoller_removeChannel ctl)
        (user_call (EPollPoller_UpdateChannel ctl) script) w1 = Inr w2
    \<and> state w2 = kDisconnected \<and> written w2 = written w \<and> ep_inv km (c_io w2)
    \<and> ep_channels (c_io w2) = (ep_channels (c_io w))(ch_fd ch := None)
    \<and> ep_interest km (c_io w2) = (ep_interest km (c_io w))(ch_fd ch := 0)"
proof -
  from inv have io: "epoll_ctl_spec ctl km" "ep_inv km (c_io w)" "ep_reg (c_io w) (c_chan w)"
    and st: "state w = kConnected \<or> state w = kDisconnecting" by (auto simp: conn_inv_def)
  obtain s1 s2 ch1 where s: "disableAll (EPollPoller_UpdateChannel ctl) (c_chan w) (c_io w) = Inr s1"
    "Channel_remove (EPollPoller_removeChannel ctl) (c_chan w) s1 = Inr s2" "ep_inv km s2"
    "ep_channels s2 = (ep_channels (c_io w))(ch_fd ch := None)"
    "ep_interest km s2 = (ep_interest km (c_io w))(ch_fd ch := 0)"
    using close_channel [OF io ch] by blast
  let ?w1 = "w\<lparr>state := kDisconnected, c_io := s1\<rparr>"
  have "conn_handleClose (EPollPoller_UpdateChannel ctl) (user_call (EPollPoller_UpdateChannel ctl) script) w = Inr ?w1"
    using st s(1) by (simp add: conn_handleClose_def lift_io_def user_call_disconnected script)
  moreover have "ConnectionDestroyed (EPollPoller_UpdateChannel ctl) (EPollPoller_removeChannel ctl)
      (user_call (EPollPoller_UpdateChannel ctl) script) ?w1 = Inr (?w1\<lparr>c_io := s2\<rparr>)"
    using s(2) by (simp add: ConnectionDestroyed_def lift_io_def)
  ultimately show ?thesis using s(3-5) by (intro exI [of _ ?w1] exI [of _ "?w1\<lparr>c_io := s2\<rparr>"]) simp
qed

theorem tcp_close_path_witness:
  "\<exists>w1 w2. conn_handleClose (EPollPoller_UpdateChannel table_ctl)
        (user_call (EPollPoller_UpdateChannel table_ctl) (\<lambda>ev. [OSend [9] (Wrote 1)])) conn_demo = Inr w1
    \<and> ConnectionDestroyed (EPollPoller_UpdateChannel table_ctl) (EPollPoller_removeChannel table_ctl)
        (user_call (EPollPoller_UpdateChannel table_ctl) (\<lambda>ev. [OSend [9] (Wrote 1)])) w1 = Inr w2
    \<and> written w2 = [] \<and> ep_channels (c_io w2) = Map.empty"
  using tcp_close_path [OF conn_demo_inv, of "(Channel_new 1 5)\<lparr>events := 3, ch_index := kAdded\<rparr>" "\<lambda>ev. [OSend [9] (Wrote 1)]"]
  by (auto simp: conn_demo_def ep_demo1_def Channel_new_def)

text \<open>
  C39. \<^verbatim>\<open>ConnectionDestroyed\<close> called for a connection that is shutting down, as the destructor of
  \<^verbatim>\<open>Server\<close> does for every connection it still holds, fails the assertion of \<^verbatim>\<open>Channel::remove\<close>: it
  disables the channel only in state \<^verbatim>\<open>kConnected\<close>, and a connection in \<^verbatim>\<open>kDisconnecting\<close> is still
  reading.
\<close>

theorem destroyed_while_disconnecting:
  assumes "conn_inv I R w" and "state w = kDisconnecting"
  shows "ConnectionDestroyed upd rmv call w = Inl AssertFailed"
proof -
  from assms(1) obtain ch where ch: "heap (c_io w) (c_chan w) = Some ch"
    "events ch = (if content (outputBuffer w) = [] then kReadEvent else kReadEvent OR kWriteEvent)"
    by (auto simp: conn_inv_def)
  then have "\<not> isNoneEvent ch" by (auto simp: isNoneEvent_def poll_defs)
  with ch(1) assms(2) show ?thesis
    by (simp add: ConnectionDestroyed_def lift_io_def Channel_remove_def)
qed

theorem destroyed_while_disconnecting_witness:
  "ConnectionDestroyed (EPollPoller_UpdateChannel table_ctl) (EPollPoller_removeChannel table_ctl) (\<lambda>_. Inr)
     (conn_demo\<lparr>state := kDisconnecting\<rparr>) = Inl AssertFailed"
proof (rule destroyed_while_disconnecting)
  show "conn_inv (\<lambda>s. epoll_ctl_spec table_ctl (\<lambda>k. k) \<and> ep_inv (\<lambda>k. k) s) ep_reg (conn_demo\<lparr>state := kDisconnecting\<rparr>)"
    using conn_demo_inv by (simp add: conn_inv_def)
qed simp

end
