(* ===== verification/Default_Poller.thy ===== *)
theory Default_Poller
  imports Tcp_Stream
begin

text \<open>
  \<^verbatim>\<open>Poller\<close> as its clients see it (\<^verbatim>\<open>cobra/poller.h\<close>, \<^verbatim>\<open>cobra/poller/default_poller.cpp\<close>): a pointer to one of the two pollers, chosen by
  \<^verbatim>\<open>newDefaultPoller\<close>, whose virtual functions are dispatched to the poller's own. The state \<open>any_poller\<close> holds the channels and the members of
  whichever poller it is; the calls rebuild the state of that poller, run its function and store its members back. The contract of a poller and the
  requirement of a connection carry over from both.
\<close>

section \<open>Dispatch\<close>

datatype 'k poller_obj = PollObj "pollfd list" "int \<rightharpoonup> nat" | EPollObj nat "int \<rightharpoonup> nat" 'k

record ('cb, 'k) any_poller = "'cb chan_store" +
  ap_obj :: "'k poller_obj"

definition poll_view :: "(nat \<rightharpoonup> 'cb channel) \<Rightarrow> pollfd list \<Rightarrow> (int \<rightharpoonup> nat) \<Rightarrow> 'cb poll_poller" where
  "poll_view h pfds chs = \<lparr>heap = h, pollfds = pfds, pp_channels = chs\<rparr>"

definition epoll_view :: "(nat \<rightharpoonup> 'cb channel) \<Rightarrow> nat \<Rightarrow> (int \<rightharpoonup> nat) \<Rightarrow> 'k \<Rightarrow> ('cb, 'k) epoll_poller" where
  "epoll_view h n chs k = \<lparr>heap = h, ep_events_size = n, ep_channels = chs, ep_kernel = k\<rparr>"

definition put_poll :: "('cb, 'k) any_poller \<Rightarrow> 'cb poll_poller \<Rightarrow> ('cb, 'k) any_poller" where
  "put_poll s p = s\<lparr>heap := heap p, ap_obj := PollObj (pollfds p) (pp_channels p)\<rparr>"

definition put_epoll :: "('cb, 'k) any_poller \<Rightarrow> ('cb, 'k) epoll_poller \<Rightarrow> ('cb, 'k) any_poller" where
  "put_epoll s p = s\<lparr>heap := heap p, ap_obj := EPollObj (ep_events_size p) (ep_channels p) (ep_kernel p)\<rparr>"

text \<open>\<open>getenv\<close> is whether \<^verbatim>\<open>COBRA_USE_POLL\<close> is set, \<open>r\<close> what \<^verbatim>\<open>epoll_create1\<close> returned.\<close>

definition newDefaultPoller :: "bool \<Rightarrow> (nat \<rightharpoonup> 'cb channel) \<Rightarrow> int \<Rightarrow> 'k \<Rightarrow> ('cb, 'k) any_poller res" where
  "newDefaultPoller getenv h r k =
     (if getenv then Inr (put_poll \<lparr>heap = h, ap_obj = PollObj [] Map.empty\<rparr> (PollPoller_new h))
      else bindE (EPollPoller_new h r k) (\<lambda>p. Inr (put_epoll \<lparr>heap = h, ap_obj = PollObj [] Map.empty\<rparr> p)))"

definition Poller_UpdateChannel :: "'k epoll_ctl \<Rightarrow> nat \<Rightarrow> ('cb, 'k) any_poller \<Rightarrow> ('cb, 'k) any_poller res" where
  "Poller_UpdateChannel ctl c s =
     (case ap_obj s of
        PollObj pfds chs \<Rightarrow> bindE (PollPoller_UpdateChannel c (poll_view (heap s) pfds chs)) (\<lambda>p. Inr (put_poll s p))
      | EPollObj n chs k \<Rightarrow> bindE (EPollPoller_UpdateChannel ctl c (epoll_view (heap s) n chs k)) (\<lambda>p. Inr (put_epoll s p)))"

definition Poller_removeChannel :: "'k epoll_ctl \<Rightarrow> nat \<Rightarrow> ('cb, 'k) any_poller \<Rightarrow> ('cb, 'k) any_poller res" where
  "Poller_removeChannel ctl c s =
     (case ap_obj s of
        PollObj pfds chs \<Rightarrow> bindE (PollPoller_removeChannel c (poll_view (heap s) pfds chs)) (\<lambda>p. Inr (put_poll s p))
      | EPollObj n chs k \<Rightarrow> bindE (EPollPoller_removeChannel ctl c (epoll_view (heap s) n chs k)) (\<lambda>p. Inr (put_epoll s p)))"

definition Poller_poll ::
  "poll_result \<Rightarrow> 'k epoll_wait \<Rightarrow> int \<Rightarrow> int \<Rightarrow> ('cb, 'k) any_poller \<Rightarrow> (int \<times> nat list \<times> ('cb, 'k) any_poller) res" where
  "Poller_poll r wait timeoutMs now s =
     (case ap_obj s of
        PollObj pfds chs \<Rightarrow> bindE (PollPoller_poll r now (poll_view (heap s) pfds chs)) (\<lambda>(t, act, p). Inr (t, act, put_poll s p))
      | EPollObj n chs k \<Rightarrow>
          bindE (EPollPoller_poll wait timeoutMs now (epoll_view (heap s) n chs k)) (\<lambda>(t, act, p). Inr (t, act, put_epoll s p)))"

section \<open>The contract carries over\<close>

definition on_poller ::
  "('cb poll_poller \<Rightarrow> 'a) \<Rightarrow> (('cb, 'k) epoll_poller \<Rightarrow> 'a) \<Rightarrow> ('cb, 'k) any_poller \<Rightarrow> 'a" where
  "on_poller f g s =
     (case ap_obj s of PollObj pfds chs \<Rightarrow> f (poll_view (heap s) pfds chs) | EPollObj n chs k \<Rightarrow> g (epoll_view (heap s) n chs k))"

definition ap_inv :: "'k epoll_ctl \<Rightarrow> ('k \<Rightarrow> int \<rightharpoonup> epoll_event) \<Rightarrow> ('cb, 'k) any_poller \<Rightarrow> bool" where
  "ap_inv ctl km = on_poller pp_inv (\<lambda>p. epoll_ctl_spec ctl km \<and> ep_inv km p)"

definition ap_interest :: "('k \<Rightarrow> int \<rightharpoonup> epoll_event) \<Rightarrow> ('cb, 'k) any_poller \<Rightarrow> int \<Rightarrow> mask" where
  "ap_interest km = on_poller pp_interest (ep_interest km)"

definition ap_update_pre :: "'k epoll_ctl \<Rightarrow> ('cb, 'k) any_poller \<Rightarrow> nat \<Rightarrow> bool" where
  "ap_update_pre ctl = on_poller pp_watch_pre (ep_update_pre ctl)"

definition ap_remove_pre :: "('cb, 'k) any_poller \<Rightarrow> nat \<Rightarrow> bool" where
  "ap_remove_pre = on_poller pp_remove_pre ep_remove_pre"

definition ap_reg :: "('cb, 'k) any_poller \<Rightarrow> nat \<Rightarrow> bool" where
  "ap_reg = on_poller pp_reg ep_reg"

lemmas ap_defs = ap_inv_def ap_interest_def ap_update_pre_def ap_remove_pre_def ap_reg_def on_poller_def

lemma view_heap [simp]: "heap (poll_view h pfds chs) = h" "heap (epoll_view h n chs k) = h"
  by (simp_all add: poll_view_def epoll_view_def)

lemma view_put [simp]:
  "ap_obj (put_poll s p) = PollObj (pollfds p) (pp_channels p)" "heap (put_poll s p) = heap p"
  "ap_obj (put_epoll s e) = EPollObj (ep_events_size e) (ep_channels e) (ep_kernel e)" "heap (put_epoll s e) = heap e"
  by (simp_all add: put_poll_def put_epoll_def)

lemma view_of [simp]:
  "poll_view (heap p) (pollfds p) (pp_channels p) = p"
  "epoll_view (heap e) (ep_events_size e) (ep_channels e) (ep_kernel e) = e"
  by (simp_all add: poll_view_def epoll_view_def)

lemma view_heap_update:
  "poll_view (h(c := x)) pfds chs = (poll_view h pfds chs)\<lparr>heap := h(c := x)\<rparr>"
  "epoll_view (h(c := x)) n chs k = (epoll_view h n chs k)\<lparr>heap := h(c := x)\<rparr>"
  by (simp_all add: poll_view_def epoll_view_def)

lemma same_channels_view:
  "same_channels (poll_view (heap s) pfds chs) p \<Longrightarrow> same_channels s (put_poll s p)"
  "same_channels (epoll_view (heap s) n chs k) e \<Longrightarrow> same_channels s (put_epoll s e)"
  by (simp_all add: same_channels_def)

interpretation dpc: poller_contract "ap_inv ctl km" "ap_interest km" "Poller_UpdateChannel ctl" "Poller_removeChannel ctl"
  "ap_update_pre ctl" ap_remove_pre for ctl :: "'k epoll_ctl" and km
proof unfold_locales
  fix s :: "('cb, 'k) any_poller" and c ch
  assume a: "ap_inv ctl km s" "heap s c = Some ch" "wanted (events ch)" "ap_update_pre ctl s c"
  show "\<exists>s'. Poller_UpdateChannel ctl c s = Inr s' \<and> ap_inv ctl km s' \<and> ap_interest km s' = (ap_interest km s)(ch_fd ch := events ch)
    \<and> same_channels s s'"
  proof (cases "ap_obj s")
    case (PollObj pfds chs)
    then show ?thesis
      using ppc.upd_ok [of "poll_view (heap s) pfds chs" c ch] a
      by (fastforce simp: Poller_UpdateChannel_def ap_defs intro: same_channels_view)
  next
    case (EPollObj n chs k)
    then show ?thesis
      using epc.upd_ok [of ctl km "epoll_view (heap s) n chs k" c ch] a
      by (fastforce simp: Poller_UpdateChannel_def ap_defs intro: same_channels_view)
  qed
next
  fix s :: "('cb, 'k) any_poller" and c ch
  assume a: "ap_inv ctl km s" "heap s c = Some ch" "isNoneEvent ch" "ap_remove_pre s c"
  show "\<exists>s'. Poller_removeChannel ctl c s = Inr s' \<and> ap_inv ctl km s' \<and> ap_interest km s' = (ap_interest km s)(ch_fd ch := 0)
    \<and> same_channels s s'"
  proof (cases "ap_obj s")
    case (PollObj pfds chs)
    then show ?thesis
      using ppc.rmv_ok [of "poll_view (heap s) pfds chs" c ch] a
      by (fastforce simp: Poller_removeChannel_def ap_defs intro: same_channels_view)
  next
    case (EPollObj n chs k)
    then show ?thesis
      using epc.rmv_ok [of ctl km "epoll_view (heap s) n chs k" c ch] a
      by (fastforce simp: Poller_removeChannel_def ap_defs intro: same_channels_view)
  qed
next
  fix s :: "('cb, 'k) any_poller" and c ch e
  assume a: "ap_inv ctl km s" "heap s c = Some ch" "ap_update_pre ctl (s\<lparr>heap := (heap s)(c \<mapsto> ch\<lparr>events := e\<rparr>)\<rparr>) c"
  show "ap_inv ctl km (s\<lparr>heap := (heap s)(c \<mapsto> ch\<lparr>events := e\<rparr>)\<rparr>)
    \<and> ap_interest km (s\<lparr>heap := (heap s)(c \<mapsto> ch\<lparr>events := e\<rparr>)\<rparr>) = ap_interest km s"
  proof (cases "ap_obj s")
    case (PollObj pfds chs)
    then show ?thesis
      using ppc.events_frame [of "poll_view (heap s) pfds chs" c ch e] a by (simp add: ap_defs view_heap_update)
  next
    case (EPollObj n chs k)
    then show ?thesis
      using epc.events_frame [of ctl km "epoll_view (heap s) n chs k" c ch e] a by (simp add: ap_defs view_heap_update)
  qed
qed

interpretation dps: watched_channel "ap_inv ctl km" "ap_interest km" "Poller_UpdateChannel ctl" "Poller_removeChannel ctl"
  "ap_update_pre ctl" ap_remove_pre ap_reg for ctl :: "'k epoll_ctl" and km
proof unfold_locales
  fix s :: "('cb, 'k) any_poller" and c ch e
  assume a: "ap_inv ctl km s" "heap s c = Some ch" "ap_reg s c"
  show "ap_update_pre ctl (s\<lparr>heap := (heap s)(c \<mapsto> ch\<lparr>events := e\<rparr>)\<rparr>) c"
  proof (cases "ap_obj s")
    case (PollObj pfds chs)
    then show ?thesis
      using pps.reg_pre [of "poll_view (heap s) pfds chs" c ch e] a by (simp add: ap_defs view_heap_update)
  next
    case (EPollObj n chs k)
    then show ?thesis
      using eps.reg_pre [of ctl km "epoll_view (heap s) n chs k" c ch e] a by (simp add: ap_defs view_heap_update)
  qed
next
  fix s s' :: "('cb, 'k) any_poller" and c ch and e :: mask
  assume a: "ap_inv ctl km s" "heap s c = Some ch" "ap_reg s c" "e \<noteq> 0"
    "Poller_UpdateChannel ctl c (s\<lparr>heap := (heap s)(c \<mapsto> ch\<lparr>events := e\<rparr>)\<rparr>) = Inr s'"
  show "ap_reg s' c"
  proof (cases "ap_obj s")
    case (PollObj pfds chs)
    then show ?thesis
      using pps.reg_keep [of "poll_view (heap s) pfds chs" c ch e] a
      by (auto simp: ap_defs view_heap_update Poller_UpdateChannel_def bindE_eq_Inr)
  next
    case (EPollObj n chs k)
    then show ?thesis
      using eps.reg_keep [of ctl km "epoll_view (heap s) n chs k" c ch e] a
      by (auto simp: ap_defs view_heap_update Poller_UpdateChannel_def bindE_eq_Inr)
  qed
qed

lemma ep_inv_new: "km k = Map.empty \<Longrightarrow> EPollPoller_new h r k = Inr p \<Longrightarrow> ep_inv km p"
  by (auto simp: EPollPoller_new_def ep_inv_def kInitEventListSize_def split: if_splits)

text \<open>Whichever poller is made, it starts within the contract.\<close>

lemma newDefaultPoller_inv:
  assumes "newDefaultPoller getenv h r k = Inr s" and "epoll_ctl_spec ctl km" and "km k = Map.empty"
  shows "ap_inv ctl km s \<and> heap s = h"
  using assms ep_inv_new [of km k h r]
  by (auto simp: newDefaultPoller_def ap_defs pp_inv_new bindE_eq_Inr split: if_splits)
    (auto simp: PollPoller_new_def EPollPoller_new_def split: if_splits)

section \<open>Properties\<close>

text \<open>
  C1. Nothing is lost, duplicated or reordered on the way out of a connection, and the connection closes its
  writing side only when everything is out. For every sequence of \<^verbatim>\<open>send\<close>, of sends and shutdowns
  queued by other threads, of \<^verbatim>\<open>shutdown\<close> and of writable events, and every behaviour of \<^verbatim>\<open>write\<close>
  (short writes, a full socket buffer, a reset peer): no assertion fails, the bytes the kernel has
  taken followed by the bytes in the output buffer are exactly the bytes accepted, in order; the
  channel asks for writable events exactly while the output buffer is not empty; and after
  \<^verbatim>\<open>ShutdownWrite\<close> the output buffer is empty. The poller is whichever \<^verbatim>\<open>newDefaultPoller\<close> has chosen, called through its virtual functions.
\<close>

theorem tcp_stream:
  assumes "conn_inv (ap_inv ctl km) ap_reg w"
    and "used (outputBuffer w) + length (concat (map op_data ops)) \<le> vec_max"
    and "answers_ok (Poller_UpdateChannel ctl) ops w"
  shows "\<exists>w'. foldE (do_op (Poller_UpdateChannel ctl)) ops w = Inr w' \<and> conn_inv (ap_inv ctl km) ap_reg w'
    \<and> written w' @ content (outputBuffer w') = written w @ content (outputBuffer w) @ accepted (Poller_UpdateChannel ctl) ops w"
  by (rule dps.run_ops_ok [OF assms])

text \<open>The established connection of \<open>Tcp_Stream\<close>, over the virtual functions.\<close>

definition any_demo :: "(unit, int \<rightharpoonup> epoll_event) any_poller tcp_connection" where
  "any_demo = \<lparr>c_io = put_epoll \<lparr>heap = Map.empty, ap_obj = PollObj [] Map.empty\<rparr> ep_demo1, c_chan = 0, state = kConnected, conn_fd = 5,
     highWaterMark = 64, writeCompleteCb = True, highWaterMarkCb = True,
     inputBuffer = \<lparr>vec = replicate 16 0, readerIndex = 8, writerIndex = 8\<rparr>,
     outputBuffer = \<lparr>vec = replicate 16 0, readerIndex = 8, writerIndex = 8\<rparr>,
     c_queue = [], written = [], write_shut = False\<rparr>"

lemma any_demo_inv: "conn_inv (ap_inv table_ctl (\<lambda>k. k)) ap_reg any_demo"
  using conn_demo_inv
  by (simp add: conn_inv_def conn_demo_def any_demo_def ap_defs)

theorem tcp_stream_witness:
  "\<exists>w'. foldE (do_op (Poller_UpdateChannel table_ctl)) [OSend [1, 2, 3] (Wrote 2), OShutdown] any_demo = Inr w'
    \<and> written w' @ content (outputBuffer w') = [1, 2, 3]"
proof -
  have ans: "answers_ok (Poller_UpdateChannel table_ctl) [OSend [1, 2, 3] (Wrote 2), OShutdown] any_demo"
    by (simp add: op_answer_def write_answer_def any_demo_def split: sum.splits)
  have acc: "accepted (Poller_UpdateChannel table_ctl) [OSend [1, 2, 3] (Wrote 2), OShutdown] any_demo = [1, 2, 3]"
    by (simp add: op_accepts_def fatal_answer_def any_demo_def split: sum.splits)
  have "used (outputBuffer any_demo) + length (concat (map op_data [OSend [1, 2, 3] (Wrote 2), OShutdown])) \<le> vec_max"
    by (simp add: any_demo_def used_def kCheapPrepend_def op_data_def vec_max_def)
  from tcp_stream [OF any_demo_inv this ans] acc show ?thesis
    by (auto simp: any_demo_def content_def)
qed


end
