(* ===== verification/Timestamp.thy ===== *)
theory Timestamp
  imports Cobra_Prelude
begin

text \<open>
  \<^verbatim>\<open>Timestamp\<close> of \<^verbatim>\<open>base/timestamp.h\<close> and \<^verbatim>\<open>base/timestamp.cpp\<close>: microseconds since the epoch in
  an \<^verbatim>\<open>int64_t\<close>, and the addition of a number of seconds given as a \<^verbatim>\<open>double\<close>.

  A timestamp is an \<open>int\<close>; arithmetic that leaves the 64-bit range is the error \<open>IntOverflow\<close>.
  A finite \<^verbatim>\<open>double\<close> is a pair \<open>(m, e)\<close> standing for \<open>m * 2 ^ e\<close>; its product is rounded to 53
  bits, to nearest and ties to even, with an unbounded exponent (no interval in seconds comes near
  the ends of the exponent range).
\<close>

section \<open>Checked 64-bit integers\<close>

definition i64 :: "int \<Rightarrow> int res" where
  "i64 x = (if - (2 ^ 63) \<le> x \<and> x < 2 ^ 63 then Inr x else Inl IntOverflow)"

text \<open>C++ division and remainder truncate towards zero.\<close>

definition tdiv :: "int \<Rightarrow> int \<Rightarrow> int" where
  "tdiv a b = sgn a * sgn b * (\<bar>a\<bar> div \<bar>b\<bar>)"

definition tmod :: "int \<Rightarrow> int \<Rightarrow> int" where
  "tmod a b = a - tdiv a b * b"

section \<open>Finite doubles\<close>

type_synonym dbl = "int \<times> int"

fun nbits :: "nat \<Rightarrow> nat" where
  "nbits n = (if n = 0 then 0 else Suc (nbits (n div 2)))"

declare nbits.simps [simp del]

definition round_shift :: "nat \<Rightarrow> nat \<Rightarrow> nat" where
  "round_shift n k =
     (let q = n div 2 ^ k; r = n mod 2 ^ k
      in if 2 ^ k < 2 * r \<or> (2 * r = 2 ^ k \<and> odd q) then q + 1 else q)"

definition dbl_mul :: "dbl \<Rightarrow> dbl \<Rightarrow> dbl" where
  "dbl_mul a b =
     (let m = fst a * fst b; k = nbits (nat \<bar>m\<bar>) - 53
      in (sgn m * int (round_shift (nat \<bar>m\<bar>) k), snd a + snd b + int k))"

definition dbl_trunc :: "dbl \<Rightarrow> int" where
  "dbl_trunc a =
     (if 0 \<le> snd a then fst a * 2 ^ nat (snd a) else tdiv (fst a) (2 ^ nat (- snd a)))"

definition dbl_pos :: "dbl \<Rightarrow> bool" where
  "dbl_pos a \<longleftrightarrow> 0 < fst a"

section \<open>Operations\<close>

definition kMicroSecondsPerSecond :: int where
  "kMicroSecondsPerSecond = 1000 * 1000"

definition Timestamp_invalid :: int where
  "Timestamp_invalid = 0"

definition Timestamp_valid :: "int \<Rightarrow> bool" where
  "Timestamp_valid t \<longleftrightarrow> t > 0"

definition secondsSinceEpoch :: "int \<Rightarrow> int" where
  "secondsSinceEpoch t = tdiv t kMicroSecondsPerSecond"

text \<open>\<open>tv_sec\<close> and \<open>tv_usec\<close> are what \<^verbatim>\<open>gettimeofday\<close> stored.\<close>

definition Timestamp_now :: "int \<Rightarrow> int \<Rightarrow> int res" where
  "Timestamp_now tv_sec tv_usec =
     bindE (i64 (tv_sec * kMicroSecondsPerSecond)) (\<lambda>x. i64 (x + tv_usec))"

definition addTime :: "int \<Rightarrow> dbl \<Rightarrow> int res" where
  "addTime timestamp seconds =
     bindE (i64 (dbl_trunc (dbl_mul seconds (kMicroSecondsPerSecond, 0)))) (\<lambda>delta. i64 (timestamp + delta))"

section \<open>Lemmas\<close>

lemma i64_ok [simp]: "- (2 ^ 63) \<le> x \<Longrightarrow> x < 2 ^ 63 \<Longrightarrow> i64 x = Inr x"
  by (simp add: i64_def)

lemma i64_eq_Inr: "i64 x = Inr y \<longleftrightarrow> y = x \<and> - (2 ^ 63) \<le> x \<and> x < 2 ^ 63"
  by (auto simp: i64_def)

lemma tdiv_pos: "0 \<le> a \<Longrightarrow> 0 < b \<Longrightarrow> tdiv a b = a div b"
  by (cases "a = 0") (simp_all add: tdiv_def)

lemma tmod_pos: "0 \<le> a \<Longrightarrow> 0 < b \<Longrightarrow> tmod a b = a mod b"
  by (simp add: tmod_def tdiv_pos minus_div_mult_eq_mod)

lemma nbits_le: "n < 2 ^ k \<Longrightarrow> nbits n \<le> k"
proof (induction k arbitrary: n)
  case 0
  then show ?case by (simp add: nbits.simps)
next
  case (Suc k)
  then have "nbits (n div 2) \<le> k" by (intro Suc.IH) (simp add: less_mult_imp_div_less mult.commute)
  then show ?case by (subst nbits.simps) simp
qed

lemma dbl_mul_exact: "\<bar>fst a * fst b\<bar> < 2 ^ 53 \<Longrightarrow> dbl_mul a b = (fst a * fst b, snd a + snd b)"
proof -
  assume a: "\<bar>fst a * fst b\<bar> < 2 ^ 53"
  then have "nat \<bar>fst a * fst b\<bar> < 2 ^ 53" by (simp add: nat_less_iff)
  then have "nbits (nat \<bar>fst a * fst b\<bar>) \<le> 53" by (rule nbits_le)
  then show ?thesis by (simp add: dbl_mul_def Let_def round_shift_def sgn_mult_abs)
qed

lemma dbl_mul_nonneg: "0 \<le> fst a \<Longrightarrow> 0 \<le> fst b \<Longrightarrow> 0 \<le> fst (dbl_mul a b)"
  by (simp add: dbl_mul_def Let_def sgn_if)

lemma dbl_trunc_nonneg: "0 \<le> fst a \<Longrightarrow> 0 \<le> dbl_trunc a"
  by (simp add: dbl_trunc_def tdiv_pos pos_imp_zdiv_nonneg_iff)

text \<open>A positive interval never moves a timestamp back.\<close>

lemma addTime_mono: "dbl_pos iv \<Longrightarrow> addTime t iv = Inr t' \<Longrightarrow> t \<le> t'"
  using dbl_trunc_nonneg [OF dbl_mul_nonneg, of iv "(kMicroSecondsPerSecond, 0)"]
  by (auto simp: addTime_def bindE_eq_Inr i64_eq_Inr dbl_pos_def kMicroSecondsPerSecond_def)

text \<open>
  Whole seconds up to 285 years, and more generally every dyadic number of seconds whose
  microsecond count fits the 53 bits, are added exactly.
\<close>

lemma addTime_exact:
  assumes "\<bar>m * 1000000\<bar> < 2 ^ 53" and "\<bar>t\<bar> < 2 ^ 62"
  shows "addTime t (m, 0) = Inr (t + m * 1000000)"
proof -
  have "dbl_trunc (dbl_mul (m, 0) (kMicroSecondsPerSecond, 0)) = m * 1000000"
    using dbl_mul_exact [of "(m, 0)" "(kMicroSecondsPerSecond, 0)"] assms(1)
    by (simp add: kMicroSecondsPerSecond_def dbl_trunc_def)
  with assms show ?thesis by (simp add: addTime_def abs_less_iff)
qed

end
