(* ===== verification/Timer_Queue.thy ===== *)
theory Timer_Queue
  imports Timestamp Channel "HOL-Library.Product_Lexorder"
begin

text \<open>
  \<^verbatim>\<open>Timer\<close>, \<^verbatim>\<open>TimerId\<close> and \<^verbatim>\<open>TimerQueue\<close> (\<^verbatim>\<open>cobra/timer.h\<close>, \<^verbatim>\<open>cobra/timer.cpp\<close>,
  \<^verbatim>\<open>cobra/timer_id.h\<close>, \<^verbatim>\<open>cobra/timer_queue.h\<close>, \<^verbatim>\<open>cobra/timer_queue.cpp\<close>).

  Timers are raw pointers: \<open>tm_heap\<close> maps the address of a live timer to it, \<^verbatim>\<open>delete\<close> unmaps
  it, and using an address that is not mapped is \<open>NullDeref\<close>. \<^verbatim>\<open>new\<close> takes an address from the
  argument \<open>alloc\<close>, which may have none left. The counter of created timers is unbounded: it
  would take \<open>2 ^ 63\<close> timers to wrap. \<^verbatim>\<open>timers_\<close>, a \<^verbatim>\<open>std::set\<close> of pairs, is its sorted list of elements. The
  clock and the callbacks are arguments. \<open>alarm\<close> is the delay last handed to
  \<^verbatim>\<open>timerfd_settime\<close>, in seconds and nanoseconds.
\<close>

section \<open>Timers\<close>

record 'cb timer =
  tm_callback :: 'cb
  tm_expiration :: int
  tm_interval :: dbl
  tm_repeat :: bool
  tm_sequence :: int

text \<open>The constructor: the counter \<^verbatim>\<open>s_numCreated_\<close> is incremented and read.\<close>

definition Timer_new :: "'cb \<Rightarrow> int \<Rightarrow> dbl \<Rightarrow> int \<Rightarrow> int \<times> 'cb timer" where
  "Timer_new cb when interval numCreated =
     (numCreated + 1,
      \<lparr>tm_callback = cb, tm_expiration = when, tm_interval = interval, tm_repeat = dbl_pos interval,
       tm_sequence = numCreated + 1\<rparr>)"

definition Timer_restart :: "int \<Rightarrow> 'cb timer \<Rightarrow> 'cb timer res" where
  "Timer_restart now tm =
     (if tm_repeat tm
      then bindE (addTime now (tm_interval tm)) (\<lambda>t. Inr (tm\<lparr>tm_expiration := t\<rparr>))
      else Inr (tm\<lparr>tm_expiration := Timestamp_invalid\<rparr>))"

record timer_id =
  tid_timer :: nat
  tid_sequence :: int

section \<open>The queue\<close>

type_synonym entry = "int \<times> nat"

record 'cb timer_queue =
  timers :: "entry list"
  activeTimers :: "(nat \<times> int) set"
  callingExpiredTimers :: bool
  cancelingTimers :: "(nat \<times> int) set"
  tm_heap :: "nat \<rightharpoonup> 'cb timer"
  numCreated :: int
  alarm :: "(int \<times> int) option"

definition TimerQueue_new :: "(nat \<rightharpoonup> 'cb timer) \<Rightarrow> int \<Rightarrow> 'cb timer_queue" where
  "TimerQueue_new h n =
     \<lparr>timers = [], activeTimers = {}, callingExpiredTimers = False, cancelingTimers = {},
      tm_heap = h, numCreated = n, alarm = None\<rparr>"

text \<open>The channel work of the constructor, with the worker's \<^verbatim>\<open>UpdateChannel\<close> as \<open>upd\<close>.\<close>

definition TimerQueue_watch where
  "TimerQueue_watch upd c handleReadCb s = bindE (SetReadCb c handleReadCb s) (enableReading upd c)"

definition UINTPTR_MAX :: nat where
  "UINTPTR_MAX = 2 ^ 64 - 1"

definition get_tm :: "nat \<Rightarrow> 'cb timer_queue \<Rightarrow> 'cb timer res" where
  "get_tm a q = (case tm_heap q a of None \<Rightarrow> Inl NullDeref | Some tm \<Rightarrow> Inr tm)"

definition delete_tm :: "nat \<Rightarrow> 'cb timer_queue \<Rightarrow> 'cb timer_queue res" where
  "delete_tm a q = bindE (get_tm a q) (\<lambda>_. Inr (q\<lparr>tm_heap := (tm_heap q)(a := None)\<rparr>))"

definition sizes_agree :: "'cb timer_queue \<Rightarrow> bool" where
  "sizes_agree q \<longleftrightarrow> length (timers q) = card (activeTimers q)"

text \<open>\<open>clock\<close> is the time \<^verbatim>\<open>Timestamp::now()\<close> returns inside.\<close>

definition howMuchTimeFromNow :: "int \<Rightarrow> int \<Rightarrow> (int \<times> int) res" where
  "howMuchTimeFromNow clock when =
     bindE (i64 (when - clock)) (\<lambda>d.
       let microseconds = (if d < 100 then 100 else d)
       in Inr (tdiv microseconds kMicroSecondsPerSecond, tmod microseconds kMicroSecondsPerSecond * 1000))"

definition resetTimerfd :: "int \<Rightarrow> int \<Rightarrow> 'cb timer_queue \<Rightarrow> 'cb timer_queue res" where
  "resetTimerfd clock expiration q =
     bindE (howMuchTimeFromNow clock expiration) (\<lambda>ts. Inr (q\<lparr>alarm := Some ts\<rparr>))"

definition TimerQueue_insert :: "nat \<Rightarrow> 'cb timer_queue \<Rightarrow> (bool \<times> 'cb timer_queue) res" where
  "TimerQueue_insert a q =
     cassert (sizes_agree q)
       (bindE (get_tm a q) (\<lambda>tm.
          let when = tm_expiration tm;
              earliestChanged = (case timers q of [] \<Rightarrow> True | e # _ \<Rightarrow> when < fst e)
          in cassert ((when, a) \<notin> set (timers q))
            (let q1 = q\<lparr>timers := insort (when, a) (timers q)\<rparr>
             in cassert ((a, tm_sequence tm) \<notin> activeTimers q1)
               (let q2 = q1\<lparr>activeTimers := insert (a, tm_sequence tm) (activeTimers q1)\<rparr>
                in cassert (sizes_agree q2) (Inr (earliestChanged, q2))))))"

definition addTimerInLoop :: "int \<Rightarrow> nat \<Rightarrow> 'cb timer_queue \<Rightarrow> 'cb timer_queue res" where
  "addTimerInLoop clock a q =
     bindE (TimerQueue_insert a q) (\<lambda>(earliestChanged, q1).
       if earliestChanged
       then bindE (get_tm a q1) (\<lambda>tm. resetTimerfd clock (tm_expiration tm) q1)
       else Inr q1)"

definition cancelInLoop :: "timer_id \<Rightarrow> 'cb timer_queue \<Rightarrow> 'cb timer_queue res" where
  "cancelInLoop tid q =
     cassert (sizes_agree q)
       (let timer = (tid_timer tid, tid_sequence tid)
        in bindE
          (if timer \<in> activeTimers q
           then bindE (get_tm (fst timer) q) (\<lambda>tm.
             cassert ((tm_expiration tm, fst timer) \<in> set (timers q))
               (let q1 = q\<lparr>timers := remove1 (tm_expiration tm, fst timer) (timers q)\<rparr>
                in bindE (delete_tm (fst timer) q1) (\<lambda>q2.
                     Inr (q2\<lparr>activeTimers := activeTimers q2 - {timer}\<rparr>))))
           else if callingExpiredTimers q
           then Inr (q\<lparr>cancelingTimers := insert timer (cancelingTimers q)\<rparr>)
           else Inr q)
          (\<lambda>q'. cassert (sizes_agree q') (Inr q')))"

text \<open>
  \<^verbatim>\<open>addTimer\<close> creates the timer and hands \<^verbatim>\<open>addTimerInLoop\<close> to \<^verbatim>\<open>Worker::runInLoop\<close>, which runs it at
  once or queues it: \<open>post\<close> is that call.
\<close>

datatype tq_functor = AddTimerInLoop nat | CancelInLoop timer_id

definition run_functor :: "int \<Rightarrow> tq_functor \<Rightarrow> 'cb timer_queue \<Rightarrow> 'cb timer_queue res" where
  "run_functor clock f q =
     (case f of AddTimerInLoop a \<Rightarrow> addTimerInLoop clock a q | CancelInLoop tid \<Rightarrow> cancelInLoop tid q)"

definition addTimer ::
  "((nat \<rightharpoonup> 'cb timer) \<Rightarrow> nat option) \<Rightarrow> (tq_functor \<Rightarrow> 'cb timer_queue \<Rightarrow> 'cb timer_queue res)
     \<Rightarrow> 'cb \<Rightarrow> int \<Rightarrow> dbl \<Rightarrow> 'cb timer_queue \<Rightarrow> (timer_id \<times> 'cb timer_queue) res" where
  "addTimer alloc post cb when interval q =
     (case alloc (tm_heap q) of
        None \<Rightarrow> Inl BadAlloc
      | Some a \<Rightarrow>
          (let (n, tm) = Timer_new cb when interval (numCreated q);
               q1 = q\<lparr>tm_heap := (tm_heap q)(a \<mapsto> tm), numCreated := n\<rparr>
           in bindE (post (AddTimerInLoop a) q1) (\<lambda>q2.
                Inr (\<lparr>tid_timer = a, tid_sequence = tm_sequence tm\<rparr>, q2))))"

definition TimerQueue_cancel ::
  "(tq_functor \<Rightarrow> 'cb timer_queue \<Rightarrow> 'cb timer_queue res) \<Rightarrow> timer_id \<Rightarrow> 'cb timer_queue
     \<Rightarrow> 'cb timer_queue res" where
  "TimerQueue_cancel post tid q = post (CancelInLoop tid) q"

definition erase_active :: "entry \<Rightarrow> 'cb timer_queue \<Rightarrow> 'cb timer_queue res" where
  "erase_active e q =
     bindE (get_tm (snd e) q) (\<lambda>tm.
       cassert ((snd e, tm_sequence tm) \<in> activeTimers q)
         (Inr (q\<lparr>activeTimers := activeTimers q - {(snd e, tm_sequence tm)}\<rparr>)))"

definition getExpired :: "int \<Rightarrow> 'cb timer_queue \<Rightarrow> (entry list \<times> 'cb timer_queue) res" where
  "getExpired now q =
     cassert (sizes_agree q)
       (let sentry = (now, UINTPTR_MAX);
            expired = takeWhile (\<lambda>e. e < sentry) (timers q);
            rest = dropWhile (\<lambda>e. e < sentry) (timers q)
        in cassert (case rest of [] \<Rightarrow> True | e # _ \<Rightarrow> now < fst e)
          (bindE (foldE erase_active expired (q\<lparr>timers := rest\<rparr>)) (\<lambda>q1.
             cassert (sizes_agree q1) (Inr (expired, q1)))))"

definition reset_one :: "int \<Rightarrow> entry \<Rightarrow> 'cb timer_queue \<Rightarrow> 'cb timer_queue res" where
  "reset_one now e q =
     bindE (get_tm (snd e) q) (\<lambda>tm.
       if tm_repeat tm \<and> (snd e, tm_sequence tm) \<notin> cancelingTimers q
       then bindE (Timer_restart now tm) (\<lambda>tm'.
              bindE (TimerQueue_insert (snd e) (q\<lparr>tm_heap := (tm_heap q)(snd e \<mapsto> tm')\<rparr>)) (\<lambda>(_, q1). Inr q1))
       else delete_tm (snd e) q)"

definition TimerQueue_reset :: "int \<Rightarrow> entry list \<Rightarrow> int \<Rightarrow> 'cb timer_queue \<Rightarrow> 'cb timer_queue res" where
  "TimerQueue_reset clock expired now q =
     bindE (foldE (reset_one now) expired q) (\<lambda>q1.
       bindE (case timers q1 of
                [] \<Rightarrow> Inr Timestamp_invalid
              | e # _ \<Rightarrow> bindE (get_tm (snd e) q1) (\<lambda>tm. Inr (tm_expiration tm)))
         (\<lambda>nextExpire. if Timestamp_valid nextExpire then resetTimerfd clock nextExpire q1 else Inr q1))"

definition run_expired ::
  "('cb \<Rightarrow> 'cb timer_queue \<Rightarrow> 'cb timer_queue res) \<Rightarrow> entry \<Rightarrow> 'cb timer_queue \<Rightarrow> 'cb timer_queue res" where
  "run_expired run e q = bindE (get_tm (snd e) q) (\<lambda>tm. run (tm_callback tm) q)"

text \<open>\<open>now\<close> is the time read on entry, \<open>clock\<close> the one read when the alarm is set again.\<close>

definition TimerQueue_handleRead ::
  "('cb \<Rightarrow> 'cb timer_queue \<Rightarrow> 'cb timer_queue res) \<Rightarrow> int \<Rightarrow> int \<Rightarrow> 'cb timer_queue \<Rightarrow> 'cb timer_queue res" where
  "TimerQueue_handleRead run now clock q =
     bindE (getExpired now q) (\<lambda>(expired, q1).
     bindE (foldE (run_expired run) expired (q1\<lparr>callingExpiredTimers := True, cancelingTimers := {}\<rparr>)) (\<lambda>q2.
     TimerQueue_reset clock expired now (q2\<lparr>callingExpiredTimers := False\<rparr>)))"

definition TimerQueue_dtor :: "'cb timer_queue \<Rightarrow> 'cb timer_queue res" where
  "TimerQueue_dtor q = foldE (\<lambda>e. delete_tm (snd e)) (timers q) q"


section \<open>Invariant\<close>

text \<open>
  \<open>tq_inv D q\<close>: the two sets hold the same timers; every timer in them is alive and stored under
  its own expiration; the live timers are exactly those in the sets and those in \<open>D\<close>, the ones
  taken out to be run or not yet inserted; sequence numbers are unique. Times and intervals stay
  in a range (75,000 years) in which the arithmetic is exact.
\<close>

definition ts_ok :: "int \<Rightarrow> bool" where
  "ts_ok t \<longleftrightarrow> \<bar>t\<bar> < 2 ^ 62"

definition iv_ok :: "dbl \<Rightarrow> bool" where
  "iv_ok iv \<longleftrightarrow> (dbl_pos iv \<longrightarrow> dbl_trunc (dbl_mul iv (kMicroSecondsPerSecond, 0)) < 2 ^ 61)"

definition tm_ok :: "int \<Rightarrow> nat \<Rightarrow> 'cb timer \<Rightarrow> bool" where
  "tm_ok n a tm \<longleftrightarrow> a < UINTPTR_MAX \<and> ts_ok (tm_expiration tm) \<and> iv_ok (tm_interval tm)
     \<and> tm_repeat tm = dbl_pos (tm_interval tm) \<and> tm_sequence tm \<le> n"

definition active_of :: "(nat \<rightharpoonup> 'cb timer) \<Rightarrow> entry list \<Rightarrow> (nat \<times> int) set" where
  "active_of h es = (\<lambda>e. (snd e, tm_sequence (the (h (snd e))))) ` set es"

definition stored :: "(nat \<rightharpoonup> 'cb timer) \<Rightarrow> entry \<Rightarrow> bool" where
  "stored h e \<longleftrightarrow> (\<exists>tm. h (snd e) = Some tm \<and> tm_expiration tm = fst e)"

definition tq_inv :: "nat set \<Rightarrow> 'cb timer_queue \<Rightarrow> bool" where
  "tq_inv D q \<longleftrightarrow> sorted_wrt (<) (timers q) \<and> distinct (map snd (timers q))
     \<and> activeTimers q = active_of (tm_heap q) (timers q)
     \<and> (\<forall>e \<in> set (timers q). stored (tm_heap q) e)
     \<and> dom (tm_heap q) = snd ` set (timers q) \<union> D \<and> D \<inter> snd ` set (timers q) = {}
     \<and> (\<forall>a tm. tm_heap q a = Some tm \<longrightarrow> tm_ok (numCreated q) a tm)
     \<and> (\<forall>a b tm tm'. tm_heap q a = Some tm \<longrightarrow> tm_heap q b = Some tm' \<longrightarrow>
          tm_sequence tm = tm_sequence tm' \<longrightarrow> a = b)"

lemma active_of_card: "distinct (map snd es) \<Longrightarrow> card (active_of h es) = length es"
proof -
  assume d: "distinct (map snd es)"
  then have "inj_on (\<lambda>e. (snd e, tm_sequence (the (h (snd e))))) (set es)"
    by (auto simp: inj_on_def distinct_map)
  with d show ?thesis by (simp add: active_of_def card_image distinct_map distinct_card)
qed

lemma tq_inv_sizes: "tq_inv D q \<Longrightarrow> sizes_agree q"
  by (simp add: tq_inv_def sizes_agree_def active_of_card)

lemma tq_inv_new: "tq_inv {} (TimerQueue_new Map.empty n)"
  by (simp add: tq_inv_def TimerQueue_new_def active_of_def)

lemma active_of_notin: "a \<notin> snd ` set es \<Longrightarrow> (a, n) \<notin> active_of h es"
  by (auto simp: active_of_def)

lemma active_of_upd: "a \<notin> snd ` set es \<Longrightarrow> active_of (h(a := v)) es = active_of h es"
  unfolding active_of_def by (rule image_cong) auto

lemma strict_sorted_insort: "sorted_wrt (<) es \<Longrightarrow> e \<notin> set es \<Longrightarrow> sorted_wrt (<) (insort e es)"
  for e :: "'a::linorder"
  by (simp add: strict_sorted_iff distinct_insort sorted_insort)

text \<open>The parts of the invariant by name.\<close>

lemma tq_invD:
  assumes "tq_inv D q"
  shows "sorted_wrt (<) (timers q)" and "distinct (map snd (timers q))"
    and "activeTimers q = active_of (tm_heap q) (timers q)"
    and "\<And>e. e \<in> set (timers q) \<Longrightarrow> stored (tm_heap q) e"
    and "dom (tm_heap q) = snd ` set (timers q) \<union> D" and "D \<inter> snd ` set (timers q) = {}"
    and "\<And>a tm. tm_heap q a = Some tm \<Longrightarrow> tm_ok (numCreated q) a tm"
    and "\<And>a b tm tm'. tm_heap q a = Some tm \<Longrightarrow> tm_heap q b = Some tm' \<Longrightarrow>
          tm_sequence tm = tm_sequence tm' \<Longrightarrow> a = b"
  using assms unfolding tq_inv_def by blast+

lemma tq_invI:
  assumes "sorted_wrt (<) (timers q)" and "distinct (map snd (timers q))"
    and "activeTimers q = active_of (tm_heap q) (timers q)"
    and "\<And>e. e \<in> set (timers q) \<Longrightarrow> stored (tm_heap q) e"
    and "dom (tm_heap q) = snd ` set (timers q) \<union> D" and "D \<inter> snd ` set (timers q) = {}"
    and "\<And>a tm. tm_heap q a = Some tm \<Longrightarrow> tm_ok (numCreated q) a tm"
    and "\<And>a b tm tm'. tm_heap q a = Some tm \<Longrightarrow> tm_heap q b = Some tm' \<Longrightarrow>
          tm_sequence tm = tm_sequence tm' \<Longrightarrow> a = b"
  shows "tq_inv D q"
  unfolding tq_inv_def by (intro conjI ballI allI impI; rule assms; assumption)

text \<open>Changes outside the two sets: a fresh timer is created, or a detached timer is modified.\<close>

lemma tq_inv_insert_heap:
  assumes inv: "tq_inv D q" and a: "a \<notin> snd ` set (timers q)" and ok: "tm_ok n a tm" and n: "numCreated q \<le> n"
    and fresh: "\<And>b tm'. tm_heap q b = Some tm' \<Longrightarrow> b \<noteq> a \<Longrightarrow> tm_sequence tm' \<noteq> tm_sequence tm"
  shows "tq_inv (insert a D) (q\<lparr>tm_heap := (tm_heap q)(a \<mapsto> tm), numCreated := n\<rparr>)"
proof -
  note d = tq_invD [OF inv]
  let ?q = "q\<lparr>tm_heap := (tm_heap q)(a \<mapsto> tm), numCreated := n\<rparr>"
  show ?thesis
  proof (rule tq_invI)
    show "stored (tm_heap ?q) e" if "e \<in> set (timers ?q)" for e
      using d(4) [of e] a that by (auto simp: stored_def)
    show "tm_ok (numCreated ?q) b tm'" if "tm_heap ?q b = Some tm'" for b tm'
      using that ok d(7) [of b tm'] n by (auto simp: tm_ok_def split: if_splits)
    show "b = c" if "tm_heap ?q b = Some tmb" "tm_heap ?q c = Some tmc" "tm_sequence tmb = tm_sequence tmc"
      for b c tmb tmc
      using that fresh [of b tmb] fresh [of c tmc] d(8) [of b tmb c tmc] by (auto split: if_splits)
  qed (use d(1-3,5,6) a in \<open>auto simp: active_of_upd\<close>)
qed

lemma tq_inv_delete:
  assumes "tq_inv (insert a D) q" and "a \<notin> D"
  shows "tq_inv D (q\<lparr>tm_heap := (tm_heap q)(a := None)\<rparr>)"
  using assms by (auto simp: tq_inv_def active_of_upd stored_def split: if_splits)


section \<open>Inserting and cancelling\<close>

lemma get_tm_Some [simp]: "tm_heap q a = Some tm \<Longrightarrow> get_tm a q = Inr tm"
  by (simp add: get_tm_def)

definition inserted :: "nat \<Rightarrow> 'cb timer \<Rightarrow> 'cb timer_queue \<Rightarrow> 'cb timer_queue" where
  "inserted a tm q = q\<lparr>timers := insort (tm_expiration tm, a) (timers q),
     activeTimers := insert (a, tm_sequence tm) (activeTimers q)\<rparr>"

lemma inserted_inv:
  assumes inv: "tq_inv (insert a D) q" and a: "a \<notin> D" and tm: "tm_heap q a = Some tm"
  shows "tq_inv D (inserted a tm q)"
proof -
  note d = tq_invD [OF inv]
  from d(6) have new: "a \<notin> snd ` set (timers q)" by simp
  then have new': "(tm_expiration tm, a) \<notin> set (timers q)" by force
  show ?thesis
  proof (rule tq_invI)
    show "sorted_wrt (<) (timers (inserted a tm q))"
      using d(1) new' by (simp add: inserted_def strict_sorted_insort)
    show "distinct (map snd (timers (inserted a tm q)))"
      using d(2) new new' by (simp add: inserted_def distinct_map distinct_insort set_insort_key)
    show "stored (tm_heap (inserted a tm q)) e" if "e \<in> set (timers (inserted a tm q))" for e
      using that d(4) [of e] tm by (auto simp: inserted_def set_insort_key stored_def)
    show "tm_ok (numCreated (inserted a tm q)) b tm'" if "tm_heap (inserted a tm q) b = Some tm'" for b tm'
      using that d(7) [of b tm'] by (simp add: inserted_def)
    show "b = c" if "tm_heap (inserted a tm q) b = Some tmb" "tm_heap (inserted a tm q) c = Some tmc"
      "tm_sequence tmb = tm_sequence tmc" for b c tmb tmc
      using that d(8) [of b tmb c tmc] by (simp add: inserted_def)
  qed (use d(3,5,6) a tm in \<open>auto simp: inserted_def set_insort_key active_of_def\<close>)
qed

lemma insert_ok:
  assumes inv: "tq_inv (insert a D) q" and a: "a \<notin> D" and tm: "tm_heap q a = Some tm"
  shows "TimerQueue_insert a q
    = Inr (case timers q of [] \<Rightarrow> True | e # _ \<Rightarrow> tm_expiration tm < fst e, inserted a tm q)"
proof -
  from tq_invD(6) [OF inv] have new: "a \<notin> snd ` set (timers q)" by simp
  then have "(tm_expiration tm, a) \<notin> set (timers q)" by force
  moreover have "(a, tm_sequence tm) \<notin> activeTimers q"
    using new by (simp add: tq_invD(3) [OF inv] active_of_notin)
  moreover have "sizes_agree q" "sizes_agree (inserted a tm q)"
    using tq_inv_sizes [OF inv] tq_inv_sizes [OF inserted_inv [OF assms]] .
  ultimately show ?thesis
    using tm by (simp add: TimerQueue_insert_def inserted_def Let_def)
qed

lemma howMuchTimeFromNow_ok:
  assumes "ts_ok clock" and "ts_ok when"
  shows "howMuchTimeFromNow clock when = Inr (max 100 (when - clock) div 1000000, max 100 (when - clock) mod 1000000 * 1000)"
  using assms
  by (auto simp: howMuchTimeFromNow_def ts_ok_def kMicroSecondsPerSecond_def tdiv_pos tmod_pos Let_def max_def)

lemma tq_inv_alarm [simp]: "tq_inv D (q\<lparr>alarm := x\<rparr>) = tq_inv D q"
  by (simp add: tq_inv_def)

lemma resetTimerfd_ok:
  assumes "ts_ok clock" and "ts_ok when"
  shows "\<exists>ts. resetTimerfd clock when q = Inr (q\<lparr>alarm := Some ts\<rparr>)"
  unfolding resetTimerfd_def howMuchTimeFromNow_ok [OF assms] bindE_Inr by blast

lemma addTimerInLoop_ok:
  assumes inv: "tq_inv (insert a D) q" and a: "a \<notin> D" and clock: "ts_ok clock" and tm: "tm_heap q a = Some tm"
  shows "\<exists>al. addTimerInLoop clock a q = Inr ((inserted a tm q)\<lparr>alarm := al\<rparr>)"
proof -
  have "tm_heap (inserted a tm q) a = Some tm" by (simp add: inserted_def tm)
  moreover have "ts_ok (tm_expiration tm)" using tq_invD(7) [OF inv tm] by (simp add: tm_ok_def)
  moreover have "(inserted a tm q)\<lparr>alarm := alarm (inserted a tm q)\<rparr> = inserted a tm q" by simp
  ultimately show ?thesis
    using resetTimerfd_ok [OF clock, of "tm_expiration tm" "inserted a tm q"]
    unfolding addTimerInLoop_def insert_ok [OF inv a tm] by (auto intro: exI [of _ "alarm (inserted a tm q)"])
qed

lemma distinct_snd_eq: "distinct (map snd es) \<Longrightarrow> (t, a) \<in> set es \<Longrightarrow> (t', a) \<in> set es \<Longrightarrow> t = t'"
  by (metis distinct_map inj_onD fst_conv snd_conv)

lemma active_entry:
  assumes inv: "tq_inv D q" and "(a, n) \<in> activeTimers q"
  obtains tm where "tm_heap q a = Some tm" and "tm_sequence tm = n" and "(tm_expiration tm, a) \<in> set (timers q)"
proof -
  from assms obtain t where t: "(t, a) \<in> set (timers q)" "n = tm_sequence (the (tm_heap q a))"
    by (auto simp: tq_invD(3) [OF inv] active_of_def)
  with tq_invD(4) [OF inv t(1)] that show ?thesis by (auto simp: stored_def)
qed

definition cancelled :: "nat \<Rightarrow> 'cb timer \<Rightarrow> 'cb timer_queue \<Rightarrow> 'cb timer_queue" where
  "cancelled a tm q = q\<lparr>timers := remove1 (tm_expiration tm, a) (timers q),
     tm_heap := (tm_heap q)(a := None), activeTimers := activeTimers q - {(a, tm_sequence tm)}\<rparr>"

lemma cancelled_inv:
  assumes inv: "tq_inv D q" and tm: "tm_heap q a = Some tm" and e: "(tm_expiration tm, a) \<in> set (timers q)"
  shows "tq_inv D (cancelled a tm q)"
proof -
  note d = tq_invD [OF inv]
  have dist: "distinct (timers q)" using d(2) by (simp add: distinct_map)
  then have set: "set (timers (cancelled a tm q)) = set (timers q) - {(tm_expiration tm, a)}"
    by (simp add: cancelled_def)
  have inj: "b \<noteq> a" if "(t, b) \<in> set (timers (cancelled a tm q))" for t b
    using that e set distinct_snd_eq [OF d(2), of t a "tm_expiration tm"] by auto
  then have a': "a \<notin> snd ` set (timers (cancelled a tm q))" by force
  have img: "snd ` set (timers q) = insert a (snd ` set (timers (cancelled a tm q)))"
    using e by (force simp: set)
  show ?thesis
  proof (rule tq_invI)
    show "sorted_wrt (<) (timers (cancelled a tm q))"
      using d(1) by (simp add: cancelled_def strict_sorted_iff sorted_remove1)
    show "distinct (map snd (timers (cancelled a tm q)))"
      using d(2) by (auto simp: cancelled_def distinct_map intro: inj_on_subset)
    show "stored (tm_heap (cancelled a tm q)) x" if "x \<in> set (timers (cancelled a tm q))" for x
      using that d(4) [of x] inj [of "fst x" "snd x"] set by (auto simp: cancelled_def stored_def)
    show "activeTimers (cancelled a tm q) = active_of (tm_heap (cancelled a tm q)) (timers (cancelled a tm q))"
    proof -
      have "set (timers q) = insert (tm_expiration tm, a) (set (timers (cancelled a tm q)))"
        using e set by blast
      then have eq: "active_of (tm_heap q) (timers q)
          = insert (a, tm_sequence tm) (active_of (tm_heap q) (timers (cancelled a tm q)))"
        by (simp add: active_of_def tm)
      have heap: "tm_heap (cancelled a tm q) = (tm_heap q)(a := None)"
        and act: "activeTimers (cancelled a tm q) = activeTimers q - {(a, tm_sequence tm)}"
        by (simp_all add: cancelled_def)
      show ?thesis
        unfolding heap act d(3) active_of_upd [OF a'] eq
        using active_of_notin [OF a', of "tm_sequence tm"] by blast
    qed
    show "tm_ok (numCreated (cancelled a tm q)) b tm'" if "tm_heap (cancelled a tm q) b = Some tm'" for b tm'
      using that d(7) [of b tm'] by (simp add: cancelled_def split: if_splits)
    show "b = c" if "tm_heap (cancelled a tm q) b = Some tmb" "tm_heap (cancelled a tm q) c = Some tmc"
      "tm_sequence tmb = tm_sequence tmc" for b c tmb tmc
      using that d(8) [of b tmb c tmc] by (simp add: cancelled_def split: if_splits)
  qed (use d(5,6) a' img in \<open>auto simp: cancelled_def\<close>)
qed


lemma cancelInLoop_eq:
  assumes inv: "tq_inv D q"
  shows "cancelInLoop tid q =
    (if (tid_timer tid, tid_sequence tid) \<in> activeTimers q
     then Inr (cancelled (tid_timer tid) (the (tm_heap q (tid_timer tid))) q)
     else if callingExpiredTimers q
     then Inr (q\<lparr>cancelingTimers := insert (tid_timer tid, tid_sequence tid) (cancelingTimers q)\<rparr>)
     else Inr q)"
proof (cases "(tid_timer tid, tid_sequence tid) \<in> activeTimers q")
  case True
  with inv obtain tm where tm: "tm_heap q (tid_timer tid) = Some tm" "tm_sequence tm = tid_sequence tid"
      "(tm_expiration tm, tid_timer tid) \<in> set (timers q)"
    by (rule active_entry)
  from tq_inv_sizes [OF cancelled_inv [OF inv tm(1,3)]] tq_inv_sizes [OF inv] tm True show ?thesis
    by (simp add: cancelInLoop_def Let_def delete_tm_def get_tm_def cancelled_def)
next
  case False
  with tq_inv_sizes [OF inv] show ?thesis
    by (simp add: cancelInLoop_def Let_def sizes_agree_def)
qed

lemma tq_inv_flags [simp]:
  "tq_inv D (q\<lparr>cancelingTimers := x\<rparr>) = tq_inv D q" "tq_inv D (q\<lparr>callingExpiredTimers := b\<rparr>) = tq_inv D q"
  by (simp_all add: tq_inv_def)

lemma cancelInLoop_ok:
  assumes inv: "tq_inv D q"
  shows "\<exists>q'. cancelInLoop tid q = Inr q' \<and> tq_inv D q' \<and> callingExpiredTimers q' = callingExpiredTimers q
    \<and> cancelingTimers q \<subseteq> cancelingTimers q' \<and> (\<forall>a \<in> D. tm_heap q' a = tm_heap q a)"
proof (cases "(tid_timer tid, tid_sequence tid) \<in> activeTimers q")
  case True
  with inv obtain tm where tm: "tm_heap q (tid_timer tid) = Some tm"
      "(tm_expiration tm, tid_timer tid) \<in> set (timers q)"
    by (metis active_entry)
  then have "tid_timer tid \<notin> D" using tq_invD(6) [OF inv] by force
  with True tm cancelled_inv [OF inv tm] show ?thesis
    by (auto simp: cancelInLoop_eq [OF inv] cancelled_def)
qed (use inv in \<open>auto simp: cancelInLoop_eq [OF inv]\<close>)

section \<open>Taking out the expired timers\<close>

lemma takeWhile_sorted:
  "sorted_wrt (<) es \<Longrightarrow> takeWhile (\<lambda>e. e < s) es = filter (\<lambda>e. e < s) es
     \<and> dropWhile (\<lambda>e. e < s) es = filter (\<lambda>e. \<not> e < s) es" for s :: "'a::linorder"
proof (induction es)
  case (Cons e es)
  then have "\<not> x < s" if "\<not> e < s" "x \<in> set es" for x using that by force
  with Cons show ?case by (auto simp: filter_empty_conv filter_id_conv)
qed simp

lemma erase_active_all:
  assumes "\<And>e. e \<in> set es \<Longrightarrow> \<exists>tm. tm_heap q (snd e) = Some tm" and "distinct (map snd es)"
    and "active_of (tm_heap q) es \<subseteq> activeTimers q"
  shows "foldE erase_active es q = Inr (q\<lparr>activeTimers := activeTimers q - active_of (tm_heap q) es\<rparr>)"
  using assms
proof (induction es arbitrary: q)
  case Nil
  then show ?case by (simp add: active_of_def)
next
  case (Cons e es)
  from Cons.prems(1) [of e] obtain tm where tm: "tm_heap q (snd e) = Some tm" by auto
  let ?q = "q\<lparr>activeTimers := activeTimers q - {(snd e, tm_sequence tm)}\<rparr>"
  have act: "active_of (tm_heap q) (e # es) = insert (snd e, tm_sequence tm) (active_of (tm_heap q) es)"
    by (simp add: active_of_def tm)
  have "snd e \<notin> snd ` set es" using Cons.prems(2) by simp
  note notin = active_of_notin [OF this, of "tm_sequence tm" "tm_heap q"]
  have "active_of (tm_heap ?q) es \<subseteq> activeTimers ?q"
    using Cons.prems(3) notin unfolding act by simp blast
  then have "foldE erase_active es ?q = Inr (?q\<lparr>activeTimers := activeTimers ?q - active_of (tm_heap ?q) es\<rparr>)"
    using Cons.prems(1,2) by (intro Cons.IH) auto
  moreover have "erase_active e q = Inr ?q"
    using tm Cons.prems(3) act by (simp add: erase_active_def)
  ultimately show ?case by (simp add: act Diff_insert2 [of _ "(snd e, tm_sequence tm)" "active_of (tm_heap q) es"])
qed

definition expired_at :: "int \<Rightarrow> 'cb timer_queue \<Rightarrow> entry list" where
  "expired_at now q = filter (\<lambda>e. fst e \<le> now) (timers q)"

definition taken :: "int \<Rightarrow> 'cb timer_queue \<Rightarrow> 'cb timer_queue" where
  "taken now q = q\<lparr>timers := filter (\<lambda>e. now < fst e) (timers q),
     activeTimers := activeTimers q - active_of (tm_heap q) (expired_at now q)\<rparr>"

lemma taken_inv:
  assumes inv: "tq_inv D q"
  shows "tq_inv (D \<union> snd ` set (expired_at now q)) (taken now q)"
proof -
  note d = tq_invD [OF inv]
  have sets: "set (timers q) = set (expired_at now q) \<union> set (timers (taken now q))"
    by (auto simp: expired_at_def taken_def)
  have disj: "snd ` set (expired_at now q) \<inter> snd ` set (timers (taken now q)) = {}"
    using distinct_snd_eq [OF d(2)] by (fastforce simp: expired_at_def taken_def)
  have act: "active_of (tm_heap q) (timers q)
      = active_of (tm_heap q) (expired_at now q) \<union> active_of (tm_heap q) (timers (taken now q))"
    by (simp add: active_of_def sets image_Un)
  have dis: "active_of (tm_heap q) (expired_at now q) \<inter> active_of (tm_heap q) (timers (taken now q)) = {}"
    using disj by (auto simp: active_of_def)
  show ?thesis
  proof (rule tq_invI)
    show "sorted_wrt (<) (timers (taken now q))" using d(1) by (simp add: taken_def sorted_wrt_filter)
    show "distinct (map snd (timers (taken now q)))" using d(2) by (simp add: taken_def distinct_map_filter)
    show "activeTimers (taken now q) = active_of (tm_heap (taken now q)) (timers (taken now q))"
      using act dis d(3) by (auto simp: taken_def)
    show "stored (tm_heap (taken now q)) e" if "e \<in> set (timers (taken now q))" for e
      using d(4) [of e] that by (simp add: taken_def)
    show "tm_ok (numCreated (taken now q)) b tm'" if "tm_heap (taken now q) b = Some tm'" for b tm'
      using that d(7) [of b tm'] by (simp add: taken_def)
    show "b = c" if "tm_heap (taken now q) b = Some tmb" "tm_heap (taken now q) c = Some tmc"
      "tm_sequence tmb = tm_sequence tmc" for b c tmb tmc
      using that d(8) [of b tmb c tmc] by (simp add: taken_def)
    show "dom (tm_heap (taken now q)) = snd ` set (timers (taken now q)) \<union> (D \<union> snd ` set (expired_at now q))"
    proof -
      have "tm_heap (taken now q) = tm_heap q" by (simp add: taken_def)
      then show ?thesis unfolding d(5) sets image_Un by (simp add: d(5) sets image_Un Un_ac)
    qed
    show "(D \<union> snd ` set (expired_at now q)) \<inter> snd ` set (timers (taken now q)) = {}"
      using d(6) disj sets by auto
  qed
qed

lemma getExpired_ok:
  assumes inv: "tq_inv D q"
  shows "getExpired now q = Inr (expired_at now q, taken now q)"
proof -
  note d = tq_invD [OF inv]
  have lt: "e < (now, UINTPTR_MAX) \<longleftrightarrow> fst e \<le> now" if "e \<in> set (timers q)" for e
  proof -
    from d(4) [OF that] d(7) have "snd e < UINTPTR_MAX" by (auto simp: stored_def tm_ok_def)
    then show ?thesis by (cases e) (auto simp: less_prod_def)
  qed
  have split: "takeWhile (\<lambda>e. e < (now, UINTPTR_MAX)) (timers q) = expired_at now q"
    "dropWhile (\<lambda>e. e < (now, UINTPTR_MAX)) (timers q) = timers (taken now q)"
    using takeWhile_sorted [OF d(1), of "(now, UINTPTR_MAX)"] lt
    by (auto simp: expired_at_def taken_def intro!: filter_cong)
  have first: "case timers (taken now q) of [] \<Rightarrow> True | e # _ \<Rightarrow> now < fst e"
  proof (cases "timers (taken now q)")
    case (Cons e es)
    then have "e \<in> set (filter (\<lambda>e. now < fst e) (timers q))" by (simp add: taken_def)
    with Cons show ?thesis by simp
  qed simp
  have "foldE erase_active (expired_at now q) (q\<lparr>timers := timers (taken now q)\<rparr>) = Inr (taken now q)"
    using d(2) d(3) d(4) erase_active_all [of "expired_at now q" "q\<lparr>timers := timers (taken now q)\<rparr>"]
    by (force simp: expired_at_def taken_def distinct_map_filter active_of_def stored_def)
  with split first tq_inv_sizes [OF inv] tq_inv_sizes [OF taken_inv [OF inv]] show ?thesis
    by (simp add: getExpired_def)
qed


section \<open>Putting the repeating timers back\<close>

definition now_ok :: "int \<Rightarrow> bool" where
  "now_ok t \<longleftrightarrow> \<bar>t\<bar> < 2 ^ 61"

lemma now_ok_ts_ok: "now_ok t \<Longrightarrow> ts_ok t"
  by (simp add: now_ok_def ts_ok_def)

lemma addTime_ok:
  assumes "now_ok now" and "iv_ok iv" and "dbl_pos iv"
  shows "\<exists>t. addTime now iv = Inr t \<and> ts_ok t \<and> now \<le> t"
proof -
  let ?d = "dbl_trunc (dbl_mul iv (kMicroSecondsPerSecond, 0))"
  have "0 \<le> ?d" using assms(3)
    by (intro dbl_trunc_nonneg dbl_mul_nonneg) (simp_all add: dbl_pos_def kMicroSecondsPerSecond_def)
  moreover have "?d < 2 ^ 61" using assms by (simp add: iv_ok_def)
  ultimately show ?thesis using assms(1) by (simp add: addTime_def ts_ok_def now_ok_def)
qed

text \<open>What becomes of an expired timer, given the set of cancelled ones.\<close>

definition rearmed :: "int \<Rightarrow> (nat \<times> int) set \<Rightarrow> nat \<Rightarrow> 'cb timer \<Rightarrow> 'cb timer option" where
  "rearmed now C a tm =
     (if tm_repeat tm \<and> (a, tm_sequence tm) \<notin> C
      then (case addTime now (tm_interval tm) of Inl _ \<Rightarrow> None | Inr t \<Rightarrow> Some (tm\<lparr>tm_expiration := t\<rparr>))
      else None)"

lemma reset_one_ok:
  assumes inv: "tq_inv (insert (snd e) D) q" and a: "snd e \<notin> D" and now: "now_ok now"
    and tm: "tm_heap q (snd e) = Some tm"
  shows "\<exists>q'. reset_one now e q = Inr q' \<and> tq_inv D q' \<and> cancelingTimers q' = cancelingTimers q
    \<and> tm_heap q' = (tm_heap q)(snd e := rearmed now (cancelingTimers q) (snd e) tm)
    \<and> callingExpiredTimers q' = callingExpiredTimers q"
proof (cases "tm_repeat tm \<and> (snd e, tm_sequence tm) \<notin> cancelingTimers q")
  case True
  from tq_invD(7) [OF inv tm] have ok: "tm_ok (numCreated q) (snd e) tm" .
  with True now obtain t where t: "addTime now (tm_interval tm) = Inr t" "ts_ok t"
    using addTime_ok [of now "tm_interval tm"] by (auto simp: tm_ok_def)
  let ?tm = "tm\<lparr>tm_expiration := t\<rparr>" let ?q = "q\<lparr>tm_heap := (tm_heap q)(snd e \<mapsto> tm\<lparr>tm_expiration := t\<rparr>)\<rparr>"
  have "tm_ok (numCreated q) (snd e) ?tm" using ok t(2) by (simp add: tm_ok_def)
  then have "tq_inv (insert (snd e) (insert (snd e) D)) (?q\<lparr>numCreated := numCreated q\<rparr>)"
    using tq_invD(6,8) [OF inv] tm
    by (intro tq_inv_insert_heap [OF inv]) (auto dest: tq_invD(8) [OF inv])
  then have inv': "tq_inv (insert (snd e) D) ?q" by simp
  have h: "tm_heap ?q (snd e) = Some ?tm" by simp
  have "reset_one now e q = Inr (inserted (snd e) ?tm ?q)"
    using True tm t insert_ok [OF inv' a h] by (simp add: reset_one_def Timer_restart_def)
  with inserted_inv [OF inv' a h] True t show ?thesis
    by (simp add: inserted_def rearmed_def)
next
  case False
  then have r: "rearmed now (cancelingTimers q) (snd e) tm = None" by (auto simp: rearmed_def)
  have "reset_one now e q = delete_tm (snd e) q" using tm False by (auto simp: reset_one_def)
  then have "reset_one now e q = Inr (q\<lparr>tm_heap := (tm_heap q)(snd e := None)\<rparr>)"
    using tm by (simp add: delete_tm_def)
  with r tq_inv_delete [OF inv a] show ?thesis by simp
qed

lemma reset_all_ok:
  assumes "tq_inv (D \<union> snd ` set es) q" and "distinct (map snd es)" and "D \<inter> snd ` set es = {}"
    and "now_ok now"
  shows "\<exists>q'. foldE (reset_one now) es q = Inr q' \<and> tq_inv D q' \<and> cancelingTimers q' = cancelingTimers q
    \<and> tm_heap q' = (\<lambda>a. if a \<in> snd ` set es then rearmed now (cancelingTimers q) a (the (tm_heap q a)) else tm_heap q a)
    \<and> callingExpiredTimers q' = callingExpiredTimers q"
  using assms
proof (induction es arbitrary: q)
  case Nil
  then show ?case by simp
next
  case (Cons e es)
  let ?D = "D \<union> snd ` set es"
  have inv: "tq_inv (insert (snd e) ?D) q" and a: "snd e \<notin> ?D"
    using Cons.prems(1-3) by auto
  from tq_invD(5) [OF inv] obtain tm where tm: "tm_heap q (snd e) = Some tm" by blast
  from reset_one_ok [OF inv a Cons.prems(4) tm] obtain q1 where q1: "reset_one now e q = Inr q1"
    "tq_inv ?D q1" "cancelingTimers q1 = cancelingTimers q"
    "tm_heap q1 = (tm_heap q)(snd e := rearmed now (cancelingTimers q) (snd e) tm)"
    "callingExpiredTimers q1 = callingExpiredTimers q"
    by blast
  have "distinct (map snd es)" "D \<inter> snd ` set es = {}" using Cons.prems(2,3) by auto
  from Cons.IH [OF q1(2) this Cons.prems(4)] q1 tm a show ?case
    by (auto simp: fun_eq_iff)
qed

lemma first_expiration:
  assumes "tq_inv D q" and "timers q = e # es"
  shows "\<exists>tm. tm_heap q (snd e) = Some tm \<and> tm_expiration tm = fst e \<and> ts_ok (fst e)"
  using tq_invD(4) [OF assms(1), of e] tq_invD(7) [OF assms(1)] assms(2)
  unfolding stored_def tm_ok_def by (metis list.set_intros(1))

lemma reset_ok:
  assumes inv: "tq_inv (D \<union> snd ` set es) q" and es: "distinct (map snd es)" "D \<inter> snd ` set es = {}"
    and now: "now_ok now" and clock: "ts_ok clock"
  shows "\<exists>q'. TimerQueue_reset clock es now q = Inr q' \<and> tq_inv D q'
    \<and> tm_heap q' = (\<lambda>a. if a \<in> snd ` set es then rearmed now (cancelingTimers q) a (the (tm_heap q a)) else tm_heap q a)
    \<and> callingExpiredTimers q' = callingExpiredTimers q
    \<and> (case timers q' of e # _ \<Rightarrow> 0 < fst e \<longrightarrow>
         alarm q' = Some (max 100 (fst e - clock) div 1000000, max 100 (fst e - clock) mod 1000000 * 1000)
       | [] \<Rightarrow> True)"
proof -
  from reset_all_ok [OF inv es now] obtain q1 where q1: "foldE (reset_one now) es q = Inr q1" "tq_inv D q1"
    "tm_heap q1 = (\<lambda>a. if a \<in> snd ` set es then rearmed now (cancelingTimers q) a (the (tm_heap q a)) else tm_heap q a)"
    "callingExpiredTimers q1 = callingExpiredTimers q"
    by blast
  show ?thesis
  proof (cases "timers q1")
    case Nil
    with q1 show ?thesis by (simp add: TimerQueue_reset_def Timestamp_invalid_def Timestamp_valid_def)
  next
    case (Cons e es')
    with first_expiration [OF q1(2)] obtain tm where tm: "tm_heap q1 (snd e) = Some tm"
      "tm_expiration tm = fst e" "ts_ok (fst e)" by blast
    with Cons q1 howMuchTimeFromNow_ok [OF clock tm(3)] show ?thesis
      by (simp add: TimerQueue_reset_def Timestamp_valid_def resetTimerfd_def)
  qed
qed


section \<open>Callbacks\<close>

text \<open>
  What the queue needs of the callbacks it runs, with the expired timers \<open>D\<close> taken out: they
  keep the invariant, never touch the timers being run, and may only add to the cancelled ones;
  an allocation may fail. A callback may itself add and cancel timers.
\<close>

definition all_cb :: "('cb \<Rightarrow> bool) \<Rightarrow> 'cb timer_queue \<Rightarrow> bool" where
  "all_cb P q \<longleftrightarrow> (\<forall>a tm. tm_heap q a = Some tm \<longrightarrow> P (tm_callback tm))"

definition called_ok :: "('cb \<Rightarrow> bool) \<Rightarrow> nat set \<Rightarrow> 'cb timer_queue \<Rightarrow> 'cb timer_queue \<Rightarrow> bool" where
  "called_ok P D q q' \<longleftrightarrow> tq_inv D q' \<and> all_cb P q' \<and> callingExpiredTimers q' = callingExpiredTimers q
     \<and> cancelingTimers q \<subseteq> cancelingTimers q' \<and> (\<forall>a \<in> D. tm_heap q' a = tm_heap q a)"

lemma called_ok_trans: "called_ok P D q q1 \<Longrightarrow> called_ok P D q1 q2 \<Longrightarrow> called_ok P D q q2"
  by (auto simp: called_ok_def)

lemma called_ok_refl: "tq_inv D q \<Longrightarrow> all_cb P q \<Longrightarrow> called_ok P D q q"
  by (simp add: called_ok_def)

locale timer_callbacks =
  fixes run :: "'cb \<Rightarrow> 'cb timer_queue \<Rightarrow> 'cb timer_queue res"
    and cb_ok :: "'cb \<Rightarrow> bool"
  assumes run_ok: "tq_inv D q \<Longrightarrow> all_cb cb_ok q \<Longrightarrow> cb_ok cb \<Longrightarrow>
      (\<exists>q'. run cb q = Inr q' \<and> called_ok cb_ok D q q') \<or> run cb q = Inl BadAlloc"
begin

lemma run_all_ok:
  assumes "tq_inv D q" and "all_cb cb_ok q" and "snd ` set es \<subseteq> D"
  shows "(\<exists>q'. foldE (run_expired run) es q = Inr q' \<and> called_ok cb_ok D q q')
    \<or> foldE (run_expired run) es q = Inl BadAlloc"
  using assms
proof (induction es arbitrary: q)
  case Nil
  then show ?case by (simp add: called_ok_refl)
next
  case (Cons e es)
  from Cons.prems(3) tq_invD(5) [OF Cons.prems(1)] obtain tm where tm: "tm_heap q (snd e) = Some tm"
    by (metis (no_types, lifting) UnI2 domD image_insert insert_subset list.set(2))
  have "cb_ok (tm_callback tm)" using Cons.prems(2) tm by (simp add: all_cb_def)
  from run_ok [OF Cons.prems(1,2) this] tm show ?case
  proof (elim disjE exE conjE)
    fix q1 assume q1: "run (tm_callback tm) q = Inr q1" "called_ok cb_ok D q q1"
    with Cons.IH [of q1] Cons.prems(3) tm show ?thesis
      by (auto simp: run_expired_def called_ok_def)
  qed (simp add: run_expired_def)
qed

lemma handleRead_ok:
  assumes inv: "tq_inv D q" and cb: "all_cb cb_ok q" and now: "now_ok now" and clock: "ts_ok clock"
  shows "(\<exists>q2 q'. TimerQueue_handleRead run now clock q = Inr q' \<and> tq_inv D q' \<and> \<not> callingExpiredTimers q'
      \<and> foldE (run_expired run) (expired_at now q)
          ((taken now q)\<lparr>callingExpiredTimers := True, cancelingTimers := {}\<rparr>) = Inr q2
      \<and> tm_heap q' = (\<lambda>a. if a \<in> snd ` set (expired_at now q)
          then rearmed now (cancelingTimers q2) a (the (tm_heap q a)) else tm_heap q2 a)
      \<and> (case timers q' of e # _ \<Rightarrow> 0 < fst e \<longrightarrow>
           alarm q' = Some (max 100 (fst e - clock) div 1000000, max 100 (fst e - clock) mod 1000000 * 1000)
         | [] \<Rightarrow> True))
    \<or> TimerQueue_handleRead run now clock q = Inl BadAlloc"
proof -
  let ?E = "expired_at now q" let ?D = "D \<union> snd ` set (expired_at now q)"
  let ?q1 = "(taken now q)\<lparr>callingExpiredTimers := True, cancelingTimers := {}\<rparr>"
  have inv1: "tq_inv ?D ?q1" using taken_inv [OF inv] by simp
  have cb1: "all_cb cb_ok ?q1" using cb by (simp add: all_cb_def taken_def)
  have E: "distinct (map snd ?E)" "D \<inter> snd ` set ?E = {}"
    using tq_invD(2,6) [OF inv] by (auto simp: expired_at_def distinct_map_filter)
  from run_all_ok [OF inv1 cb1 Un_upper2] show ?thesis
  proof (elim disjE exE conjE)
    fix q2 assume q2: "foldE (run_expired run) ?E ?q1 = Inr q2" "called_ok cb_ok ?D ?q1 q2"
    then have inv2: "tq_inv ?D (q2\<lparr>callingExpiredTimers := False\<rparr>)" by (simp add: called_ok_def)
    have "tm_heap q2 a = tm_heap q a" if "a \<in> snd ` set ?E" for a
      using q2(2) that by (auto simp: called_ok_def taken_def)
    then have same: "(\<lambda>a. if a \<in> snd ` set ?E then rearmed now (cancelingTimers q2) a (the (tm_heap q2 a)) else tm_heap q2 a)
        = (\<lambda>a. if a \<in> snd ` set ?E then rearmed now (cancelingTimers q2) a (the (tm_heap q a)) else tm_heap q2 a)"
      by auto
    obtain q' where "TimerQueue_reset clock ?E now (q2\<lparr>callingExpiredTimers := False\<rparr>) = Inr q'" "tq_inv D q'"
      "tm_heap q' = (\<lambda>a. if a \<in> snd ` set ?E then rearmed now (cancelingTimers q2) a (the (tm_heap q2 a)) else tm_heap q2 a)"
      "\<not> callingExpiredTimers q'"
      "case timers q' of e # _ \<Rightarrow> 0 < fst e \<longrightarrow>
         alarm q' = Some (max 100 (fst e - clock) div 1000000, max 100 (fst e - clock) mod 1000000 * 1000)
       | [] \<Rightarrow> True"
      using reset_ok [OF inv2 E now clock] by (auto cong: if_cong)
    with q2 getExpired_ok [OF inv, of now] show ?thesis
      unfolding same by (intro disjI1 exI [of _ q2] exI [of _ q']) (simp add: TimerQueue_handleRead_def)
  qed (use getExpired_ok [OF inv, of now] in \<open>simp_all add: TimerQueue_handleRead_def\<close>)
qed

end

text \<open>
  The callbacks of the program: any finite sequence of \<^verbatim>\<open>addTimer\<close> and \<^verbatim>\<open>cancel\<close> calls on the
  queue, made in the loop thread, where \<^verbatim>\<open>runInLoop\<close> runs the functor at once. A cancelled
  identifier is any value, also a stale one.
\<close>

datatype tq_op = OpAdd "tq_op list" int dbl | OpCancel timer_id

definition run_op ::
  "((nat \<rightharpoonup> tq_op list timer) \<Rightarrow> nat option) \<Rightarrow> int \<Rightarrow> tq_op \<Rightarrow> tq_op list timer_queue
     \<Rightarrow> tq_op list timer_queue res" where
  "run_op alloc clock op q =
     (case op of
        OpAdd cb when iv \<Rightarrow> bindE (addTimer alloc (run_functor clock) cb when iv q) (\<lambda>(_, q'). Inr q')
      | OpCancel tid \<Rightarrow> TimerQueue_cancel (run_functor clock) tid q)"

definition run_script ::
  "((nat \<rightharpoonup> tq_op list timer) \<Rightarrow> nat option) \<Rightarrow> int \<Rightarrow> tq_op list \<Rightarrow> tq_op list timer_queue
     \<Rightarrow> tq_op list timer_queue res" where
  "run_script alloc clock ops q = foldE (run_op alloc clock) ops q"

fun op_ok :: "tq_op \<Rightarrow> bool" where
  "op_ok (OpAdd cb when iv) \<longleftrightarrow> ts_ok when \<and> iv_ok iv \<and> (\<forall>op \<in> set cb. op_ok op)"
| "op_ok (OpCancel _) \<longleftrightarrow> True"

definition script_ok :: "tq_op list \<Rightarrow> bool" where
  "script_ok ops \<longleftrightarrow> (\<forall>op \<in> set ops. op_ok op)"

text \<open>\<^verbatim>\<open>new\<close> returns memory that no live timer occupies, or fails.\<close>

definition alloc_spec :: "((nat \<rightharpoonup> 'cb timer) \<Rightarrow> nat option) \<Rightarrow> bool" where
  "alloc_spec alloc \<longleftrightarrow> (\<forall>h a. alloc h = Some a \<longrightarrow> h a = None \<and> a < UINTPTR_MAX)"

lemma addTimer_ok:
  assumes inv: "tq_inv D q" and alloc: "alloc (tm_heap q) = Some a" "tm_heap q a = None" "a < UINTPTR_MAX"
    and ok: "ts_ok when" "iv_ok iv" and clock: "ts_ok clock"
  shows "\<exists>q' tm. addTimer alloc (run_functor clock) cb when iv q
      = Inr (\<lparr>tid_timer = a, tid_sequence = numCreated q + 1\<rparr>, q')
    \<and> tm = snd (Timer_new cb when iv (numCreated q)) \<and> tq_inv D q'
    \<and> tm_heap q' = (tm_heap q)(a \<mapsto> tm) \<and> timers q' = insort (when, a) (timers q)
    \<and> callingExpiredTimers q' = callingExpiredTimers q \<and> cancelingTimers q' = cancelingTimers q"
proof -
  define tm where "tm = snd (Timer_new cb when iv (numCreated q))"
  let ?q = "q\<lparr>tm_heap := (tm_heap q)(a \<mapsto> tm), numCreated := numCreated q + 1\<rparr>"
  have "a \<notin> dom (tm_heap q)" using alloc(2) by blast
  then have a: "a \<notin> snd ` set (timers q)" "a \<notin> D" unfolding tq_invD(5) [OF inv] by auto
  have "tm_ok (numCreated q + 1) a tm" using ok alloc(3) by (simp add: tm_ok_def tm_def Timer_new_def)
  moreover have "tm_sequence tm' \<noteq> tm_sequence tm" if "tm_heap q b = Some tm'" for b tm'
    using tq_invD(7) [OF inv that] by (simp add: tm_ok_def tm_def Timer_new_def)
  ultimately have inv': "tq_inv (insert a D) ?q" by (intro tq_inv_insert_heap [OF inv a(1)]) auto
  have h: "tm_heap ?q a = Some tm" by simp
  obtain al where "addTimerInLoop clock a ?q = Inr ((inserted a tm ?q)\<lparr>alarm := al\<rparr>)"
    using addTimerInLoop_ok [OF inv' a(2) clock h] by blast
  then have "addTimer alloc (run_functor clock) cb when iv q
      = Inr (\<lparr>tid_timer = a, tid_sequence = numCreated q + 1\<rparr>, (inserted a tm ?q)\<lparr>alarm := al\<rparr>)"
    using alloc(1) by (simp add: addTimer_def run_functor_def Timer_new_def tm_def)
  with inserted_inv [OF inv' a(2) h] show ?thesis
    by (simp add: inserted_def tm_def [symmetric]) (simp add: tm_def Timer_new_def)
qed

lemma run_op_ok:
  assumes alloc: "alloc_spec alloc" and inv: "tq_inv D q" and cb: "all_cb script_ok q" and clock: "ts_ok clock"
    and op: "op_ok op"
  shows "(\<exists>q'. run_op alloc clock op q = Inr q' \<and> called_ok script_ok D q q') \<or> run_op alloc clock op q = Inl BadAlloc"
proof (cases op)
  case (OpAdd cb w iv)
  show ?thesis
  proof (cases "alloc (tm_heap q)")
    case None
    with OpAdd show ?thesis by (simp add: run_op_def addTimer_def)
  next
    case (Some a)
    with alloc have a: "tm_heap q a = None" "a < UINTPTR_MAX" by (auto simp: alloc_spec_def)
    have ok: "ts_ok w" "iv_ok iv" "script_ok cb" using op OpAdd by (simp_all add: script_ok_def)
    obtain q' where "addTimer alloc (run_functor clock) cb w iv q
        = Inr (\<lparr>tid_timer = a, tid_sequence = numCreated q + 1\<rparr>, q')" "tq_inv D q'"
      "tm_heap q' = (tm_heap q)(a \<mapsto> snd (Timer_new cb w iv (numCreated q)))"
      "callingExpiredTimers q' = callingExpiredTimers q" "cancelingTimers q' = cancelingTimers q"
      using addTimer_ok [where alloc = alloc, OF inv Some a ok(1,2) clock, of cb] by blast
    moreover have "a \<notin> D" using a(1) tq_invD(5) [OF inv] by blast
    ultimately show ?thesis
      using ok(3) cb OpAdd by (auto simp: run_op_def called_ok_def all_cb_def Timer_new_def split: if_splits)
  qed
next
  case (OpCancel tid)
  have "all_cb script_ok q'" if "cancelInLoop tid q = Inr q'" for q'
    using that cb by (auto simp: cancelInLoop_eq [OF inv] all_cb_def cancelled_def split: if_splits)
  with cancelInLoop_ok [OF inv, of tid] OpCancel show ?thesis
    by (auto simp: run_op_def TimerQueue_cancel_def run_functor_def called_ok_def)
qed

interpretation tqc: timer_callbacks "run_script alloc clock"
    "\<lambda>ops. script_ok ops \<and> alloc_spec alloc \<and> ts_ok clock" for alloc clock
proof
  fix D and q :: "tq_op list timer_queue" and cb
  let ?P = "\<lambda>ops. script_ok ops \<and> alloc_spec alloc \<and> ts_ok clock"
  assume inv: "tq_inv D q" and cb: "all_cb ?P q" and ok: "?P cb"
  have "(\<exists>q'. foldE (run_op alloc clock) ops q = Inr q' \<and> called_ok ?P D q q') \<or> foldE (run_op alloc clock) ops q = Inl BadAlloc"
    if "script_ok ops" for ops
    using inv cb that
  proof (induction ops arbitrary: q)
    case Nil
    then show ?case by (simp add: called_ok_refl)
  next
    case (Cons op ops)
    have p: "alloc_spec alloc" "all_cb script_ok q" "ts_ok clock" "op_ok op" and "script_ok ops"
      using Cons.prems(2,3) ok by (auto simp: all_cb_def script_ok_def)
    from run_op_ok [OF p(1) Cons.prems(1) p(2-4)] show ?case
    proof (elim disjE exE conjE)
      fix q1 assume q1: "run_op alloc clock op q = Inr q1" "called_ok script_ok D q q1"
      then have "called_ok ?P D q q1" using ok by (simp add: called_ok_def all_cb_def)
      with q1 Cons.IH [of q1] \<open>script_ok ops\<close> show ?thesis
        by (auto simp: called_ok_def)
    qed simp_all
  qed
  with ok show "(\<exists>q'. run_script alloc clock cb q = Inr q' \<and> called_ok ?P D q q') \<or> run_script alloc clock cb q = Inl BadAlloc"
    by (simp add: run_script_def)
qed


text \<open>A running timer that is cancelled stays marked until the timers are put back.\<close>

lemma cancel_detached:
  assumes inv: "tq_inv D q" and a: "tid_timer tid \<in> D" and calling: "callingExpiredTimers q"
  shows "cancelInLoop tid q = Inr (q\<lparr>cancelingTimers := insert (tid_timer tid, tid_sequence tid) (cancelingTimers q)\<rparr>)"
proof -
  from tq_invD(6) [OF inv] a have "tid_timer tid \<notin> snd ` set (timers q)" by blast
  then have "(tid_timer tid, tid_sequence tid) \<notin> activeTimers q"
    by (simp add: tq_invD(3) [OF inv] active_of_notin)
  with calling show ?thesis by (simp add: cancelInLoop_eq [OF inv])
qed

lemma script_cancels:
  assumes alloc: "alloc_spec alloc" "ts_ok clock" and inv: "tq_inv D q" and cb: "all_cb script_ok q"
    and calling: "callingExpiredTimers q" and ok: "script_ok ops" and tid: "OpCancel tid \<in> set ops" "tid_timer tid \<in> D"
    and run: "foldE (run_op alloc clock) ops q = Inr q'"
  shows "(tid_timer tid, tid_sequence tid) \<in> cancelingTimers q'"
proof -
  have mono: "called_ok script_ok D s s'" if "foldE (run_op alloc clock) xs s = Inr s'" "tq_inv D s" "all_cb script_ok s" "script_ok xs" for xs s s'
    using that
  proof (induction xs arbitrary: s)
    case (Cons x xs)
    then obtain s1 where s1: "run_op alloc clock x s = Inr s1" "foldE (run_op alloc clock) xs s1 = Inr s'"
      by (auto simp: bindE_eq_Inr)
    with run_op_ok [OF alloc(1) Cons.prems(2,3) alloc(2), of x] Cons.prems(4)
    have "called_ok script_ok D s s1" by (auto simp: script_ok_def)
    with Cons.IH [OF s1(2)] Cons.prems(4) show ?case
      by (meson called_ok_def called_ok_trans list.set_intros(2) script_ok_def)
  qed (simp add: called_ok_refl)
  obtain xs ys where ops: "ops = xs @ OpCancel tid # ys" using tid(1) by (meson split_list)
  with run obtain s1 s2 where s1: "foldE (run_op alloc clock) xs q = Inr s1"
    and s2: "run_op alloc clock (OpCancel tid) s1 = Inr s2" and s3: "foldE (run_op alloc clock) ys s2 = Inr q'"
    by (auto simp: foldE_append bindE_eq_Inr)
  from mono [OF s1 inv cb] ok ops have c1: "called_ok script_ok D q s1" by (simp add: script_ok_def)
  with cancel_detached [of D s1 tid] tid(2) calling s2 have
    s2': "s2 = s1\<lparr>cancelingTimers := insert (tid_timer tid, tid_sequence tid) (cancelingTimers s1)\<rparr>"
    by (simp add: called_ok_def run_op_def TimerQueue_cancel_def run_functor_def)
  with c1 mono [OF s3] ok ops have "called_ok script_ok D s2 q'"
    by (simp add: called_ok_def script_ok_def all_cb_def)
  with s2' show ?thesis by (auto simp: called_ok_def)
qed

lemma run_expired_cancels:
  assumes alloc: "alloc_spec alloc" "ts_ok clock" and inv: "tq_inv D q" and cb: "all_cb script_ok q"
    and calling: "callingExpiredTimers q" and es: "snd ` set es \<subseteq> D" and a: "a \<in> snd ` set es"
    and tm: "tm_heap q a = Some tm"
    and self: "OpCancel \<lparr>tid_timer = a, tid_sequence = tm_sequence tm\<rparr> \<in> set (tm_callback tm)"
    and run: "foldE (run_expired (run_script alloc clock)) es q = Inr q'"
  shows "(a, tm_sequence tm) \<in> cancelingTimers q'"
proof -
  let ?P = "\<lambda>ops. script_ok ops \<and> alloc_spec alloc \<and> ts_ok clock"
  let ?f = "foldE (run_expired (run_script alloc clock))"
  have P: "all_cb ?P s \<longleftrightarrow> all_cb script_ok s" for s :: "tq_op list timer_queue"
    using alloc by (simp add: all_cb_def)
  have step: "called_ok ?P D s s'" if "?f xs s = Inr s'" "tq_inv D s" "all_cb script_ok s" "snd ` set xs \<subseteq> D" for xs s s'
    using tqc.run_all_ok [OF that(2) _ that(4), of alloc clock] that(1,3) P by auto
  obtain xs e ys where split: "es = xs @ e # ys" "snd e = a"
    using a by (metis (no_types, lifting) imageE split_list)
  with run obtain s1 s2 where s1: "?f xs q = Inr s1"
    and s2: "run_expired (run_script alloc clock) e s1 = Inr s2" and s3: "?f ys s2 = Inr q'"
    by (auto simp: foldE_append bindE_eq_Inr)
  from step [OF s1 inv cb] es split have c1: "called_ok ?P D q s1" by auto
  have aD: "a \<in> D" using es split by auto
  have tm1: "tm_heap s1 a = Some tm" and inv1: "tq_inv D s1" and cb1: "all_cb script_ok s1" and cal1: "callingExpiredTimers s1"
    using c1 tm aD calling P by (auto simp: called_ok_def)
  have "?f [e] s1 = Inr s2" using s2 by simp
  from step [OF this inv1 cb1] es split have c2: "called_ok ?P D s1 s2" by auto
  have "foldE (run_op alloc clock) (tm_callback tm) s1 = Inr s2"
    using s2 tm1 split(2) by (simp add: run_expired_def run_script_def)
  moreover have "script_ok (tm_callback tm)" using cb1 tm1 by (simp add: all_cb_def)
  ultimately have "(a, tm_sequence tm) \<in> cancelingTimers s2"
    using script_cancels [OF alloc inv1 cb1 cal1 _ self] aD by simp
  moreover have "called_ok ?P D s2 q'"
    using step [OF s3] c2 P es split by (auto simp: called_ok_def)
  ultimately show ?thesis by (auto simp: called_ok_def)
qed


lemma dtor_ok:
  assumes "distinct (map snd es)" and "\<And>e. e \<in> set es \<Longrightarrow> tm_heap q (snd e) \<noteq> None"
  shows "\<exists>q'. foldE (\<lambda>e. delete_tm (snd e)) es q = Inr q'
    \<and> tm_heap q' = (\<lambda>a. if a \<in> snd ` set es then None else tm_heap q a)"
  using assms
proof (induction es arbitrary: q)
  case (Cons e es)
  let ?q = "q\<lparr>tm_heap := (tm_heap q)(snd e := None)\<rparr>"
  have "tm_heap ?q (snd x) \<noteq> None" if "x \<in> set es" for x
  proof -
    have "snd x \<noteq> snd e" using Cons.prems(1) that by (metis distinct.simps(2) image_eqI list.simps(9) set_map)
    then show ?thesis using Cons.prems(2) [of x] that by simp
  qed
  with Cons.IH [of ?q] Cons.prems(1) obtain q' where
    "foldE (\<lambda>e. delete_tm (snd e)) es ?q = Inr q'"
    "tm_heap q' = (\<lambda>a. if a \<in> snd ` set es then None else tm_heap ?q a)" by auto
  moreover have "delete_tm (snd e) q = Inr ?q"
    using Cons.prems(2) [of e] by (auto simp: delete_tm_def)
  ultimately show ?case by (auto simp: fun_eq_iff)
qed simp

section \<open>Properties\<close>

text \<open>A concrete queue: one repeating timer at address 1 with the given callback, due at 100.\<close>

definition tq_demo :: "tq_op list \<Rightarrow> tq_op list timer_queue" where
  "tq_demo ops =
     (TimerQueue_new Map.empty 1)\<lparr>timers := [(100, 1)], activeTimers := {(1, 1)},
       tm_heap := [1 \<mapsto> \<lparr>tm_callback = ops, tm_expiration = 100, tm_interval = (1, 0), tm_repeat = True, tm_sequence = 1\<rparr>]\<rparr>"

definition alloc_demo :: "(nat \<rightharpoonup> 'cb timer) \<Rightarrow> nat option" where
  "alloc_demo h = (if h 7 = None then Some 7 else None)"

lemma alloc_demo_spec: "alloc_spec alloc_demo"
  by (auto simp: alloc_spec_def alloc_demo_def UINTPTR_MAX_def split: if_splits)

lemma iv_ok_second: "iv_ok (1, 0)"
  using dbl_mul_exact [of "(1, 0)" "(kMicroSecondsPerSecond, 0)"]
  by (simp add: iv_ok_def kMicroSecondsPerSecond_def dbl_trunc_def)

lemma tq_demo_inv: "tq_inv {} (tq_demo ops)"
  using iv_ok_second
  by (auto simp: tq_inv_def tq_demo_def TimerQueue_new_def active_of_def stored_def tm_ok_def ts_ok_def
      dbl_pos_def UINTPTR_MAX_def split: if_splits)

lemma tq_demo_expired:
  "getExpired 100 (tq_demo ops) = Inr ([(100, 1)], (tq_demo ops)\<lparr>timers := [], activeTimers := {}\<rparr>)"
  by (subst getExpired_ok [OF tq_demo_inv]) (simp add: expired_at_def taken_def tq_demo_def TimerQueue_new_def active_of_def)

lemmas tq_demo_simps = tq_demo_def TimerQueue_new_def run_expired_def get_tm_def run_script_def run_op_def
  TimerQueue_cancel_def run_functor_def cancelInLoop_def TimerQueue_reset_def reset_one_def delete_tm_def
  Timer_restart_def TimerQueue_insert_def sizes_agree_def active_of_def howMuchTimeFromNow_def resetTimerfd_def
  Timestamp_valid_def Timestamp_invalid_def

text \<open>
  C8. One alarm of the timer queue. \<^verbatim>\<open>handleRead\<close> takes out exactly the timers that are due (those
  whose expiration is not after \<open>now\<close>), runs their callbacks in order of expiration, puts back the
  repeating ones that were not cancelled meanwhile, at \<open>now\<close> plus their interval, and deletes the
  others. Whatever timers the callbacks add or cancel, no assertion fails, no deleted timer is
  touched, none is leaked (the invariant says so), and the alarm is set for the earliest timer
  left. The only failure is an allocation failure in a callback.
\<close>

theorem timer_handleRead:
  assumes "alloc_spec alloc" and "tq_inv D q" and "all_cb script_ok q" and "now_ok now"
    and "ts_ok clk" and "ts_ok clock"
  shows "(\<exists>q2 q'. TimerQueue_handleRead (run_script alloc clk) now clock q = Inr q' \<and> tq_inv D q' \<and> \<not> callingExpiredTimers q'
      \<and> foldE (run_expired (run_script alloc clk)) (expired_at now q)
          ((taken now q)\<lparr>callingExpiredTimers := True, cancelingTimers := {}\<rparr>) = Inr q2
      \<and> tm_heap q' = (\<lambda>a. if a \<in> snd ` set (expired_at now q)
          then rearmed now (cancelingTimers q2) a (the (tm_heap q a)) else tm_heap q2 a)
      \<and> (case timers q' of e # _ \<Rightarrow> 0 < fst e \<longrightarrow>
           alarm q' = Some (max 100 (fst e - clock) div 1000000, max 100 (fst e - clock) mod 1000000 * 1000)
         | [] \<Rightarrow> True))
    \<or> TimerQueue_handleRead (run_script alloc clk) now clock q = Inl BadAlloc"
  using assms by (intro tqc.handleRead_ok) (auto simp: all_cb_def)

theorem timer_handleRead_witness:
  "\<exists>q'. TimerQueue_handleRead (run_script alloc_demo 50) 100 150 (tq_demo []) = Inr q' \<and> tq_inv {} q'"
proof -
  have "all_cb script_ok (tq_demo [])" by (simp add: all_cb_def tq_demo_def script_ok_def)
  moreover have "TimerQueue_handleRead (run_script alloc_demo 50) 100 150 (tq_demo []) \<noteq> Inl BadAlloc"
    unfolding TimerQueue_handleRead_def tq_demo_expired
    using addTime_exact [of 1 100] by (simp add: tq_demo_simps Let_def)
  ultimately show ?thesis
    using timer_handleRead [OF alloc_demo_spec tq_demo_inv [of "[]"], of 100 50 150]
    by (auto simp: now_ok_def ts_ok_def)
qed

text \<open>
  A callback that cancels its own, repeating timer ends it: \<^verbatim>\<open>cancelInLoop\<close> does not find the
  timer among the active ones, because it has been taken out, and records it, so that \<^verbatim>\<open>reset\<close>
  deletes it instead of putting it back.
\<close>

theorem timer_self_cancel:
  assumes "alloc_spec alloc" and "tq_inv D q" and "all_cb script_ok q" and "now_ok now"
    and "ts_ok clk" and "ts_ok clock"
    and "(t, a) \<in> set (timers q)" and "t \<le> now" and "tm_heap q a = Some tm"
    and "OpCancel \<lparr>tid_timer = a, tid_sequence = tm_sequence tm\<rparr> \<in> set (tm_callback tm)"
    and "TimerQueue_handleRead (run_script alloc clk) now clock q = Inr q'"
  shows "tm_heap q' a = None"
proof -
  let ?E = "expired_at now q" let ?D = "D \<union> snd ` set (expired_at now q)"
  let ?q1 = "(taken now q)\<lparr>callingExpiredTimers := True, cancelingTimers := {}\<rparr>"
  have "all_cb (\<lambda>ops. script_ok ops \<and> alloc_spec alloc \<and> ts_ok clk) q"
    using assms(1,3,5) by (simp add: all_cb_def)
  from tqc.handleRead_ok [OF assms(2) this assms(4,6)] assms(11) obtain q2 where
    run: "foldE (run_expired (run_script alloc clk)) ?E ?q1 = Inr q2"
    and heap: "tm_heap q' = (\<lambda>a. if a \<in> snd ` set ?E then rearmed now (cancelingTimers q2) a (the (tm_heap q a)) else tm_heap q2 a)"
    by auto
  have a: "a \<in> snd ` set ?E" using assms(7,8) by (force simp: expired_at_def)
  have inv: "tq_inv ?D ?q1" using taken_inv [OF assms(2)] by simp
  have "all_cb script_ok ?q1" "tm_heap ?q1 a = Some tm" "callingExpiredTimers ?q1"
    using assms(3,9) by (simp_all add: all_cb_def taken_def)
  from run_expired_cancels [OF assms(1,5) inv this(1,3) _ a this(2) assms(10) run]
  have "(a, tm_sequence tm) \<in> cancelingTimers q2" by simp
  with heap a assms(9) show ?thesis by (simp add: rearmed_def)
qed

theorem timer_self_cancel_witness:
  "\<exists>q'. TimerQueue_handleRead (run_script alloc_demo 50) 100 150
      (tq_demo [OpCancel \<lparr>tid_timer = 1, tid_sequence = 1\<rparr>]) = Inr q' \<and> tm_heap q' 1 = None"
proof -
  let ?q = "tq_demo [OpCancel \<lparr>tid_timer = 1, tid_sequence = 1\<rparr>]"
  have "\<exists>q'. TimerQueue_handleRead (run_script alloc_demo 50) 100 150 ?q = Inr q'"
    unfolding TimerQueue_handleRead_def tq_demo_expired by (simp add: tq_demo_simps)
  then obtain q' where q': "TimerQueue_handleRead (run_script alloc_demo 50) 100 150 ?q = Inr q'" by blast
  have "tm_heap q' 1 = None"
    by (rule timer_self_cancel [OF alloc_demo_spec tq_demo_inv _ _ _ _ _ _ _ _ q', where t = 100
          and tm = "\<lparr>tm_callback = [OpCancel \<lparr>tid_timer = 1, tid_sequence = 1\<rparr>], tm_expiration = 100,
            tm_interval = (1, 0), tm_repeat = True, tm_sequence = 1\<rparr>"])
       (simp_all add: all_cb_def tq_demo_def script_ok_def now_ok_def ts_ok_def)
  with q' show ?thesis by blast
qed

text \<open>
  \<^verbatim>\<open>cancelInLoop\<close> deletes the timer the identifier was made for and no other: a timer is
  removed only if both its address and its sequence number are those of the identifier and it is
  waiting in the queue. A stale identifier whose address has been reused by a newer timer has no
  effect on that timer.
\<close>

theorem timer_cancel_exact:
  assumes "tq_inv D q"
  shows "\<exists>q'. cancelInLoop tid q = Inr q' \<and> tq_inv D q'
    \<and> tm_heap q' = (\<lambda>a. if a = tid_timer tid \<and> a \<notin> D
         \<and> map_option tm_sequence (tm_heap q a) = Some (tid_sequence tid) then None else tm_heap q a)"
proof -
  have act: "(a, n) \<in> activeTimers q \<longleftrightarrow> a \<notin> D \<and> map_option tm_sequence (tm_heap q a) = Some n" for a n
  proof
    assume "(a, n) \<in> activeTimers q"
    with assms show "a \<notin> D \<and> map_option tm_sequence (tm_heap q a) = Some n"
      using tq_invD(6) [OF assms] by (force elim!: active_entry)
  next
    assume a: "a \<notin> D \<and> map_option tm_sequence (tm_heap q a) = Some n"
    then have "a \<in> dom (tm_heap q)" by auto
    with a obtain t where "(t, a) \<in> set (timers q)" unfolding tq_invD(5) [OF assms] by auto
    with a show "(a, n) \<in> activeTimers q" by (force simp: tq_invD(3) [OF assms] active_of_def)
  qed
  from cancelInLoop_ok [OF assms, of tid] obtain q' where "cancelInLoop tid q = Inr q'" "tq_inv D q'" by blast
  moreover have "tm_heap q' = (\<lambda>a. if a = tid_timer tid \<and> a \<notin> D
         \<and> map_option tm_sequence (tm_heap q a) = Some (tid_sequence tid) then None else tm_heap q a)"
    using calculation(1) by (auto simp: cancelInLoop_eq [OF assms] act cancelled_def fun_eq_iff split: if_splits)
  ultimately show ?thesis by blast
qed

theorem timer_cancel_exact_witness:
  "\<exists>q'. cancelInLoop \<lparr>tid_timer = 1, tid_sequence = 0\<rparr> (tq_demo []) = Inr q' \<and> tm_heap q' = tm_heap (tq_demo [])"
  using timer_cancel_exact [OF tq_demo_inv [of "[]"], of "\<lparr>tid_timer = 1, tid_sequence = 0\<rparr>"]
  by (auto simp: tq_demo_def fun_eq_iff)

text \<open>
  The delay handed to \<^verbatim>\<open>timerfd_settime\<close> is a normalised, non-zero \<^verbatim>\<open>timespec\<close> (a zero one would
  disarm the timer): it is the time until the expiration, and 100 microseconds when that is closer
  or already past.
\<close>

theorem timer_alarm_delay:
  assumes "ts_ok clock" and "ts_ok when"
  shows "\<exists>sec nsec. howMuchTimeFromNow clock when = Inr (sec, nsec) \<and> 0 \<le> sec \<and> 0 \<le> nsec \<and> nsec < 1000000000
    \<and> 0 < sec + nsec \<and> sec * 1000000000 + nsec = 1000 * max 100 (when - clock)"
proof -
  define m where "m = max 100 (when - clock)"
  have "m div 1000000 * 1000000000 + m mod 1000000 * 1000 = 1000 * m"
    using div_mult_mod_eq [of m 1000000] by presburger
  moreover have "100 \<le> m" "0 \<le> m mod 1000000" "m mod 1000000 < 1000000" "0 \<le> m div 1000000"
    by (simp_all add: m_def pos_imp_zdiv_nonneg_iff)
  ultimately show ?thesis
    using howMuchTimeFromNow_ok [OF assms] unfolding m_def [symmetric] by auto
qed

theorem timer_alarm_delay_witness:
  "\<exists>sec nsec. howMuchTimeFromNow 1000000 2500000 = Inr (sec, nsec) \<and> sec * 1000000000 + nsec = 1500000000"
  using timer_alarm_delay [of 1000000 2500000] by (auto simp: ts_ok_def)

text \<open>
  The destructor deletes every timer exactly once: with no timer outside the queue, nothing
  is left in memory.
\<close>

theorem timer_dtor_no_leak:
  assumes "tq_inv {} q"
  shows "\<exists>q'. TimerQueue_dtor q = Inr q' \<and> tm_heap q' = Map.empty"
proof -
  note d = tq_invD [OF assms]
  have "tm_heap q (snd e) \<noteq> None" if "e \<in> set (timers q)" for e
    using d(4) [OF that] by (auto simp: stored_def)
  from dtor_ok [OF d(2) this] obtain q' where "TimerQueue_dtor q = Inr q'"
      "tm_heap q' = (\<lambda>a. if a \<in> snd ` set (timers q) then None else tm_heap q a)"
    unfolding TimerQueue_dtor_def by blast
  moreover have "tm_heap q a = None" if "a \<notin> snd ` set (timers q)" for a
    using that d(5) by (metis Un_empty_right domIff)
  ultimately show ?thesis by (auto simp: fun_eq_iff)
qed

theorem timer_dtor_no_leak_witness: "\<exists>q'. TimerQueue_dtor (tq_demo []) = Inr q' \<and> tm_heap q' = Map.empty"
  by (rule timer_dtor_no_leak [OF tq_demo_inv])

end
