(* ===== verification/Worker.thy ===== *)
theory Worker
  imports Timer_Queue
begin

text \<open>
  \<^verbatim>\<open>Worker\<close> of \<^verbatim>\<open>cobra/worker.h\<close> and \<^verbatim>\<open>cobra/worker.cpp\<close>: the event loop of one thread.

  The state is a record; \<open>w_io\<close> is everything below the worker (the poller and the channels), a
  value of a type \<open>'s\<close>. The poller's \<^verbatim>\<open>poll\<close>, \<^verbatim>\<open>UpdateChannel\<close> and \<^verbatim>\<open>removeChannel\<close>, the
  \<^verbatim>\<open>handleEvent\<close> of a channel and the call of a functor are arguments of the operations, given by
  the theories of those components. A thread is a number; the worker knows its own. \<open>eventfd\<close> is
  the kernel's counter behind \<^verbatim>\<open>wakeupFd_\<close>.

  The second half is about threads. Operations of other threads interleave with the loop at the
  points where the mutex is released or an atomic flag is read, so the code is cut there: the
  relation \<open>wstep\<close> moves one thread by one such piece, and each piece is one of the functions
  of the first half.
\<close>

section \<open>State\<close>

record ('s, 'f) worker =
  w_this :: nat
  w_io :: 's
  looping :: bool
  quit :: bool
  w_threadId :: nat
  pollReturnTime :: int
  eventfd :: nat
  eventHandling :: bool
  activeChannels :: "nat list"
  currentActiveChannel :: "nat option"
  callingPendingFunctors :: bool
  pendingFunctors :: "'f list"

definition Worker_new :: "nat \<Rightarrow> nat \<Rightarrow> 's \<Rightarrow> ('s, 'f) worker" where
  "Worker_new this self io =
     \<lparr>w_this = this, w_io = io, looping = False, quit = False, w_threadId = self, pollReturnTime = 0,
      eventfd = 0, eventHandling = False, activeChannels = [], currentActiveChannel = None,
      callingPendingFunctors = False, pendingFunctors = []\<rparr>"

definition kPollTimeMs :: int where
  "kPollTimeMs = 10000"

definition isInLoopThread :: "nat \<Rightarrow> ('s, 'f) worker \<Rightarrow> bool" where
  "isInLoopThread self w \<longleftrightarrow> w_threadId w = self"

text \<open>\<^verbatim>\<open>abortNotInLoopThread\<close> has an empty body: the check never stops the program.\<close>

definition abortNotInLoopThread :: "('s, 'f) worker \<Rightarrow> ('s, 'f) worker res" where
  "abortNotInLoopThread w = Inr w"

definition assertInLoopThread :: "nat \<Rightarrow> ('s, 'f) worker \<Rightarrow> ('s, 'f) worker res" where
  "assertInLoopThread self w = (if \<not> isInLoopThread self w then abortNotInLoopThread w else Inr w)"

section \<open>Operations\<close>

text \<open>An 8-byte write to a non-blocking \<^verbatim>\<open>eventfd\<close> adds one, and fails at the largest count; an
  8-byte read takes the whole count, and fails at zero. A failure is only logged.\<close>

definition Worker_wakeup :: "('s, 'f) worker \<Rightarrow> ('s, 'f) worker" where
  "Worker_wakeup w = (if eventfd w < 2 ^ 64 - 2 then w\<lparr>eventfd := eventfd w + 1\<rparr> else w)"

definition Worker_handleRead :: "('s, 'f) worker \<Rightarrow> ('s, 'f) worker" where
  "Worker_handleRead w = (if 0 < eventfd w then w\<lparr>eventfd := 0\<rparr> else w)"

text \<open>The critical section of \<^verbatim>\<open>queueInLoop\<close>, and the one of \<^verbatim>\<open>doPendingFunctors\<close>.\<close>

definition push_functor :: "'f \<Rightarrow> ('s, 'f) worker \<Rightarrow> ('s, 'f) worker" where
  "push_functor f w = w\<lparr>pendingFunctors := pendingFunctors w @ [f]\<rparr>"

definition swap_functors :: "('s, 'f) worker \<Rightarrow> 'f list \<times> ('s, 'f) worker" where
  "swap_functors w = (pendingFunctors w, w\<lparr>pendingFunctors := []\<rparr>)"

definition must_wakeup :: "nat \<Rightarrow> ('s, 'f) worker \<Rightarrow> bool" where
  "must_wakeup self w \<longleftrightarrow> \<not> isInLoopThread self w \<or> callingPendingFunctors w"

definition queueInLoop :: "nat \<Rightarrow> 'f \<Rightarrow> ('s, 'f) worker \<Rightarrow> ('s, 'f) worker" where
  "queueInLoop self f w =
     (let w1 = push_functor f w in if must_wakeup self w1 then Worker_wakeup w1 else w1)"

definition runInLoop ::
  "('f \<Rightarrow> ('s, 'f) worker \<Rightarrow> ('s, 'f) worker res) \<Rightarrow> nat \<Rightarrow> 'f \<Rightarrow> ('s, 'f) worker \<Rightarrow> ('s, 'f) worker res" where
  "runInLoop call self f w = (if isInLoopThread self w then call f w else Inr (queueInLoop self f w))"

definition Worker_Quit :: "nat \<Rightarrow> ('s, 'f) worker \<Rightarrow> ('s, 'f) worker" where
  "Worker_Quit self w =
     (let w1 = w\<lparr>quit := True\<rparr> in if \<not> isInLoopThread self w1 then Worker_wakeup w1 else w1)"

definition Worker_UpdateChannel ::
  "(nat \<Rightarrow> ('cb, 'z) chan_store_scheme \<Rightarrow> ('cb, 'z) chan_store_scheme res) \<Rightarrow> nat \<Rightarrow> nat
     \<Rightarrow> (('cb, 'z) chan_store_scheme, 'f) worker \<Rightarrow> (('cb, 'z) chan_store_scheme, 'f) worker res" where
  "Worker_UpdateChannel upd self c w =
     bindE (get_ch c (w_io w)) (\<lambda>ch.
       cassert (ch_loop ch = w_this w)
         (bindE (assertInLoopThread self w) (\<lambda>w1.
            bindE (upd c (w_io w1)) (\<lambda>s. Inr (w1\<lparr>w_io := s\<rparr>)))))"

definition Worker_removeChannel ::
  "(nat \<Rightarrow> ('cb, 'z) chan_store_scheme \<Rightarrow> ('cb, 'z) chan_store_scheme res) \<Rightarrow> nat \<Rightarrow> nat
     \<Rightarrow> (('cb, 'z) chan_store_scheme, 'f) worker \<Rightarrow> (('cb, 'z) chan_store_scheme, 'f) worker res" where
  "Worker_removeChannel rmv self c w =
     bindE (get_ch c (w_io w)) (\<lambda>ch.
       cassert (ch_loop ch = w_this w)
         (bindE (assertInLoopThread self w) (\<lambda>w1.
            cassert (eventHandling w1 \<longrightarrow> currentActiveChannel w1 = Some c \<or> c \<notin> set (activeChannels w1))
              (bindE (rmv c (w_io w1)) (\<lambda>s. Inr (w1\<lparr>w_io := s\<rparr>))))))"

definition doPendingFunctors ::
  "('f \<Rightarrow> ('s, 'f) worker \<Rightarrow> ('s, 'f) worker res) \<Rightarrow> ('s, 'f) worker \<Rightarrow> ('s, 'f) worker res" where
  "doPendingFunctors call w =
     (let (functors, w1) = swap_functors (w\<lparr>callingPendingFunctors := True\<rparr>)
      in bindE (foldE call functors w1) (\<lambda>w2. Inr (w2\<lparr>callingPendingFunctors := False\<rparr>)))"

definition handle_active ::
  "(nat \<Rightarrow> int \<Rightarrow> ('s, 'f) worker \<Rightarrow> ('s, 'f) worker res) \<Rightarrow> nat \<Rightarrow> ('s, 'f) worker \<Rightarrow> ('s, 'f) worker res" where
  "handle_active handle c w =
     handle c (pollReturnTime w) (w\<lparr>currentActiveChannel := Some c\<rparr>)"

definition loop_turn ::
  "(int \<Rightarrow> 's \<Rightarrow> (int \<times> nat list \<times> 's) res) \<Rightarrow> (nat \<Rightarrow> int \<Rightarrow> ('s, 'f) worker \<Rightarrow> ('s, 'f) worker res)
     \<Rightarrow> ('f \<Rightarrow> ('s, 'f) worker \<Rightarrow> ('s, 'f) worker res) \<Rightarrow> ('s, 'f) worker \<Rightarrow> ('s, 'f) worker res" where
  "loop_turn poll handle call w =
     bindE (poll kPollTimeMs (w_io w)) (\<lambda>(t, active, s).
       let w1 = w\<lparr>w_io := s, activeChannels := active, pollReturnTime := t, eventHandling := True\<rparr>
       in bindE (foldE (handle_active handle) active w1) (\<lambda>w2.
            doPendingFunctors call (w2\<lparr>currentActiveChannel := None, eventHandling := False\<rparr>)))"

text \<open>The \<^verbatim>\<open>while\<close> loop with a bound on its turns; \<open>None\<close> is a loop still running.\<close>

fun loop_while ::
  "nat \<Rightarrow> (int \<Rightarrow> 's \<Rightarrow> (int \<times> nat list \<times> 's) res) \<Rightarrow> (nat \<Rightarrow> int \<Rightarrow> ('s, 'f) worker \<Rightarrow> ('s, 'f) worker res)
     \<Rightarrow> ('f \<Rightarrow> ('s, 'f) worker \<Rightarrow> ('s, 'f) worker res) \<Rightarrow> ('s, 'f) worker \<Rightarrow> ('s, 'f) worker res option" where
  "loop_while 0 poll handle call w = None"
| "loop_while (Suc n) poll handle call w =
     (if quit w then Some (Inr w)
      else (case loop_turn poll handle call (w\<lparr>activeChannels := []\<rparr>) of
              Inl e \<Rightarrow> Some (Inl e)
            | Inr w1 \<Rightarrow> loop_while n poll handle call w1))"

definition Worker_Loop ::
  "nat \<Rightarrow> (int \<Rightarrow> 's \<Rightarrow> (int \<times> nat list \<times> 's) res) \<Rightarrow> (nat \<Rightarrow> int \<Rightarrow> ('s, 'f) worker \<Rightarrow> ('s, 'f) worker res)
     \<Rightarrow> ('f \<Rightarrow> ('s, 'f) worker \<Rightarrow> ('s, 'f) worker res) \<Rightarrow> nat \<Rightarrow> ('s, 'f) worker \<Rightarrow> ('s, 'f) worker res option" where
  "Worker_Loop n poll handle call self w =
     (if looping w then Some (Inl AssertFailed)
      else case assertInLoopThread self w of
             Inl e \<Rightarrow> Some (Inl e)
           | Inr w1 \<Rightarrow> map_option (\<lambda>r. bindE r (\<lambda>w2. Inr (w2\<lparr>looping := False\<rparr>)))
               (loop_while n poll handle call (w1\<lparr>looping := True, quit := False\<rparr>)))"

text \<open>The timer calls go to the timer queue; \<open>clock\<close> is the current time.\<close>

definition runAt where
  "runAt alloc post time cb q = addTimer alloc post cb time (0, 0) q"

definition runAfter where
  "runAfter alloc post clock delay cb q = bindE (addTime clock delay) (\<lambda>t. runAt alloc post t cb q)"

definition runEvery where
  "runEvery alloc post clock interval cb q =
     bindE (addTime clock interval) (\<lambda>t. addTimer alloc post cb t interval q)"

definition Worker_cancel where
  "Worker_cancel post timerId q = TimerQueue_cancel post timerId q"

section \<open>Threads\<close>

text \<open>
  Where the loop thread stands: at the test of \<^verbatim>\<open>quit_\<close>, in \<^verbatim>\<open>poll\<close>, handling events, before the
  swap of \<^verbatim>\<open>doPendingFunctors\<close>, running the functors it took, after the loop, or between the two
  halves of a \<^verbatim>\<open>queueInLoop\<close> called by a handler or a functor. Any other thread is idle or about to
  call \<^verbatim>\<open>wakeup\<close>. \<open>posted\<close> and \<open>executed\<close> record the history.
\<close>

datatype 'f loop_pc = AtCheck | AtPoll | AtEvents | AtSwap | AtRun "'f list" | AtExit
  | AtWake "'f loop_pc"

record ('s, 'f) wsys =
  ws :: "('s, 'f) worker"
  lpc :: "'f loop_pc"
  about_to_wake :: "nat set"
  posted :: "'f list"
  executed :: "'f list"

definition wsys_init :: "('s, 'f) worker \<Rightarrow> ('s, 'f) wsys" where
  "wsys_init w = \<lparr>ws = w, lpc = AtCheck, about_to_wake = {}, posted = pendingFunctors w, executed = []\<rparr>"

inductive wstep :: "('s, 'f) wsys \<Rightarrow> ('s, 'f) wsys \<Rightarrow> bool" where
  check_quit: "lpc s = AtCheck \<Longrightarrow> quit (ws s) \<Longrightarrow> wstep s (s\<lparr>lpc := AtExit\<rparr>)"
| check_go: "lpc s = AtCheck \<Longrightarrow> \<not> quit (ws s) \<Longrightarrow> wstep s (s\<lparr>lpc := AtPoll\<rparr>)"
| poll_return: "lpc s = AtPoll \<Longrightarrow>
    wstep s (s\<lparr>lpc := AtEvents, ws := (ws s)\<lparr>w_io := io, activeChannels := act, pollReturnTime := t, eventHandling := True\<rparr>\<rparr>)"
| event_wakeup: "lpc s = AtEvents \<Longrightarrow> wstep s (s\<lparr>ws := Worker_handleRead (ws s)\<rparr>)"
| event_other: "lpc s = AtEvents \<Longrightarrow> wstep s (s\<lparr>ws := (ws s)\<lparr>w_io := io, currentActiveChannel := c\<rparr>\<rparr>)"
| loop_post: "lpc s = AtEvents \<or> lpc s = AtRun fs \<Longrightarrow> w' = push_functor f (ws s) \<Longrightarrow>
    wstep s (s\<lparr>lpc := (if must_wakeup (w_threadId w') w' then AtWake (lpc s) else lpc s),
      ws := w', posted := posted s @ [f]\<rparr>)"
| loop_wake: "lpc s = AtWake pc \<Longrightarrow> wstep s (s\<lparr>lpc := pc, ws := Worker_wakeup (ws s)\<rparr>)"
| loop_quit: "lpc s = AtEvents \<or> lpc s = AtRun fs \<Longrightarrow> wstep s (s\<lparr>ws := (ws s)\<lparr>quit := True\<rparr>\<rparr>)"
| events_done: "lpc s = AtEvents \<Longrightarrow>
    wstep s (s\<lparr>lpc := AtSwap,
      ws := (ws s)\<lparr>currentActiveChannel := None, eventHandling := False, callingPendingFunctors := True\<rparr>\<rparr>)"
| swap: "lpc s = AtSwap \<Longrightarrow> swap_functors (ws s) = (fs, w') \<Longrightarrow> wstep s (s\<lparr>lpc := AtRun fs, ws := w'\<rparr>)"
| run_functor: "lpc s = AtRun (f # fs) \<Longrightarrow>
    wstep s (s\<lparr>lpc := AtRun fs, ws := (ws s)\<lparr>w_io := io\<rparr>, executed := executed s @ [f]\<rparr>)"
| run_done: "lpc s = AtRun [] \<Longrightarrow> wstep s (s\<lparr>lpc := AtCheck, ws := (ws s)\<lparr>callingPendingFunctors := False\<rparr>\<rparr>)"
| other_post: "p \<noteq> w_threadId (ws s) \<Longrightarrow> p \<notin> about_to_wake s \<Longrightarrow> w' = push_functor f (ws s) \<Longrightarrow>
    wstep s (s\<lparr>ws := w', posted := posted s @ [f],
      about_to_wake := (if must_wakeup p w' then insert p (about_to_wake s) else about_to_wake s)\<rparr>)"
| other_quit: "p \<noteq> w_threadId (ws s) \<Longrightarrow> p \<notin> about_to_wake s \<Longrightarrow> w' = (ws s)\<lparr>quit := True\<rparr> \<Longrightarrow>
    wstep s (s\<lparr>ws := w',
      about_to_wake := (if \<not> isInLoopThread p w' then insert p (about_to_wake s) else about_to_wake s)\<rparr>)"
| other_wake: "p \<in> about_to_wake s \<Longrightarrow>
    wstep s (s\<lparr>ws := Worker_wakeup (ws s), about_to_wake := about_to_wake s - {p}\<rparr>)"


inductive wreach :: "('s, 'f) worker \<Rightarrow> ('s, 'f) wsys \<Rightarrow> bool" for w where
  start: "wreach w (wsys_init w)"
| step: "wreach w s \<Longrightarrow> wstep s s' \<Longrightarrow> wreach w s'"

inductive_cases wstepE: "wstep s s'"

fun running :: "'f loop_pc \<Rightarrow> 'f list" where
  "running (AtRun fs) = fs"
| "running (AtWake pc) = running pc"
| "running _ = []"

fun calling_at :: "'f loop_pc \<Rightarrow> bool" where
  "calling_at (AtRun _) = True"
| "calling_at (AtWake pc) = calling_at pc"
| "calling_at AtSwap = True"
| "calling_at _ = False"

fun needs_wakeup :: "'f loop_pc \<Rightarrow> bool" where
  "needs_wakeup AtCheck = True"
| "needs_wakeup AtPoll = True"
| "needs_wakeup (AtRun _) = True"
| "needs_wakeup _ = False"

text \<open>
  Every functor posted so far has been executed, is among those being run, or is pending, in this
  order; the flag tells whether functors are being run; and whenever the loop has passed the point
  where it takes the pending functors, pending work has made the \<^verbatim>\<open>eventfd\<close> readable or is about to.
\<close>

definition wake_coming :: "('s, 'f) wsys \<Rightarrow> bool" where
  "wake_coming s \<longleftrightarrow> 0 < eventfd (ws s) \<or> about_to_wake s \<noteq> {}"

definition winv :: "('s, 'f) wsys \<Rightarrow> bool" where
  "winv s \<longleftrightarrow> posted s = executed s @ running (lpc s) @ pendingFunctors (ws s)
     \<and> callingPendingFunctors (ws s) = calling_at (lpc s)
     \<and> (needs_wakeup (lpc s) \<longrightarrow> pendingFunctors (ws s) \<noteq> [] \<longrightarrow> wake_coming s)
     \<and> (lpc s = AtPoll \<longrightarrow> quit (ws s) \<longrightarrow> wake_coming s)"

lemma wakeup_simps [simp]:
  "pendingFunctors (Worker_wakeup w) = pendingFunctors w" "quit (Worker_wakeup w) = quit w"
  "callingPendingFunctors (Worker_wakeup w) = callingPendingFunctors w" "0 < eventfd (Worker_wakeup w)"
  "w_threadId (Worker_wakeup w) = w_threadId w"
  by (auto simp: Worker_wakeup_def)

lemma handleRead_simps [simp]:
  "pendingFunctors (Worker_handleRead w) = pendingFunctors w" "quit (Worker_handleRead w) = quit w"
  "callingPendingFunctors (Worker_handleRead w) = callingPendingFunctors w"
  "w_threadId (Worker_handleRead w) = w_threadId w"
  by (auto simp: Worker_handleRead_def)

lemma push_simps [simp]:
  "pendingFunctors (push_functor f w) = pendingFunctors w @ [f]" "quit (push_functor f w) = quit w"
  "callingPendingFunctors (push_functor f w) = callingPendingFunctors w"
  "eventfd (push_functor f w) = eventfd w" "w_threadId (push_functor f w) = w_threadId w"
  by (auto simp: push_functor_def)

lemma winv_init:
  "pendingFunctors w = [] \<Longrightarrow> \<not> callingPendingFunctors w \<Longrightarrow> winv (wsys_init w)"
  by (simp add: winv_def wsys_init_def)

lemma winv_step:
  assumes "wstep s s'" and "winv s"
  shows "winv s'"
  using assms
  by (cases rule: wstep.cases)
     (auto simp: winv_def wake_coming_def swap_functors_def must_wakeup_def isInLoopThread_def)

lemma winv_reach:
  assumes "wreach w s" and "pendingFunctors w = []" and "\<not> callingPendingFunctors w"
  shows "winv s"
  using assms by (induction rule: wreach.induct) (auto intro: winv_init winv_step)


section \<open>Functors that queue functors\<close>

text \<open>Running a functor queues its children, in the loop thread, and changes what lies below.\<close>

definition call_children ::
  "('f \<Rightarrow> 'f list) \<Rightarrow> ('f \<Rightarrow> 's \<Rightarrow> 's) \<Rightarrow> 'f \<Rightarrow> ('s, 'f) worker \<Rightarrow> ('s, 'f) worker res" where
  "call_children kids eff f w =
     Inr (fold (queueInLoop (w_threadId w)) (kids f) (w\<lparr>w_io := eff f (w_io w)\<rparr>))"

lemma fold_queueInLoop:
  assumes "callingPendingFunctors w"
  shows "pendingFunctors (fold (queueInLoop self) fs w) = pendingFunctors w @ fs
    \<and> callingPendingFunctors (fold (queueInLoop self) fs w)
    \<and> w_threadId (fold (queueInLoop self) fs w) = w_threadId w
    \<and> w_io (fold (queueInLoop self) fs w) = w_io w
    \<and> (fs \<noteq> [] \<or> 0 < eventfd w \<longrightarrow> 0 < eventfd (fold (queueInLoop self) fs w))"
  using assms
proof (induction fs arbitrary: w)
  case (Cons f fs)
  let ?w = "Worker_wakeup (push_functor f w)"
  have "queueInLoop self f w = ?w" using Cons.prems by (simp add: queueInLoop_def must_wakeup_def)
  moreover have "w_io ?w = w_io w" by (simp add: Worker_wakeup_def push_functor_def)
  ultimately show ?case using Cons.IH [of ?w] Cons.prems by simp
qed simp

lemma foldE_children:
  assumes "callingPendingFunctors w"
  shows "\<exists>w'. foldE (call_children kids eff) fs w = Inr w' \<and> pendingFunctors w' = pendingFunctors w @ concat (map kids fs)
    \<and> w_io w' = fold eff fs (w_io w)
    \<and> (concat (map kids fs) \<noteq> [] \<or> 0 < eventfd w \<longrightarrow> 0 < eventfd w') \<and> w_threadId w' = w_threadId w"
  using assms
proof (induction fs arbitrary: w)
  case (Cons f fs)
  let ?w = "w\<lparr>w_io := eff f (w_io w)\<rparr>"
  define v where "v = fold (queueInLoop (w_threadId w)) (kids f) ?w"
  have v: "pendingFunctors v = pendingFunctors w @ kids f" "callingPendingFunctors v" "w_threadId v = w_threadId w"
    "w_io v = eff f (w_io w)" "kids f \<noteq> [] \<or> 0 < eventfd w \<longrightarrow> 0 < eventfd v"
    using fold_queueInLoop [of ?w "w_threadId w" "kids f"] Cons.prems by (simp_all add: v_def)
  have "call_children kids eff f w = Inr v" by (simp add: call_children_def v_def)
  with Cons.IH [OF v(2)] v show ?case by auto
qed simp

section \<open>Properties\<close>

definition w_demo :: "(nat, nat) worker" where
  "w_demo = Worker_new 1 0 0"

text \<open>The state in which thread 1 has queued functor 7 while the loop polls, before its wakeup.\<close>

definition ws_demo :: "(nat, nat) wsys" where
  "ws_demo = (wsys_init w_demo)\<lparr>lpc := AtPoll, ws := push_functor 7 w_demo, posted := [7], about_to_wake := {1}\<rparr>"

lemma ws_demo_reach: "wreach w_demo ws_demo"
proof -
  let ?s0 = "wsys_init w_demo" and ?s1 = "(wsys_init w_demo)\<lparr>lpc := AtPoll\<rparr>"
  have "wstep ?s0 ?s1" by (rule wstep.check_go) (simp_all add: wsys_init_def w_demo_def Worker_new_def)
  moreover have "wstep ?s1 ws_demo"
    using wstep.other_post [of 1 ?s1 _ 7, OF _ _ refl]
    by (simp add: ws_demo_def wsys_init_def w_demo_def Worker_new_def must_wakeup_def isInLoopThread_def push_functor_def)
  ultimately show ?thesis by (meson wreach.intros)
qed

text \<open>
  C2. No wakeup is lost. In every interleaving of the loop with threads that queue functors and
  ask it to quit, and with functors and handlers that queue functors themselves: whenever the
  loop is in \<^verbatim>\<open>poll\<close> and a functor is pending or \<^verbatim>\<open>quit_\<close> is set, the \<^verbatim>\<open>eventfd\<close> is readable, so
  that \<^verbatim>\<open>poll\<close> returns, or a thread is just about to write to it. Nothing may be pending when \<^verbatim>\<open>Loop()\<close> is
  entered: a functor that the loop thread itself has queued before that has written nothing to the \<^verbatim>\<open>eventfd\<close>.
\<close>

theorem worker_no_lost_wakeup:
  assumes "wreach w s" and "pendingFunctors w = []" and "\<not> callingPendingFunctors w"
    and "lpc s = AtPoll" and "pendingFunctors (ws s) \<noteq> [] \<or> quit (ws s)"
  shows "0 < eventfd (ws s) \<or> (\<exists>p. p \<in> about_to_wake s)"
  using winv_reach [OF assms(1-3)] assms(4,5) by (auto simp: winv_def wake_coming_def)

theorem worker_no_lost_wakeup_witness: "0 < eventfd (ws ws_demo) \<or> (\<exists>p. p \<in> about_to_wake ws_demo)"
  by (rule worker_no_lost_wakeup [OF ws_demo_reach])
     (simp_all add: ws_demo_def w_demo_def Worker_new_def push_functor_def)

text \<open>
  C11. Functors run exactly once and in the order in which they were queued, over all threads: at
  every moment the queued functors are those executed, those taken and still to be run, and
  those pending, in this order.
\<close>

theorem worker_functors_fifo:
  assumes "wreach w s" and "pendingFunctors w = []" and "\<not> callingPendingFunctors w"
  shows "posted s = executed s @ running (lpc s) @ pendingFunctors (ws s)"
  using winv_reach [OF assms] by (simp add: winv_def)

theorem worker_functors_fifo_witness:
  "posted ws_demo = executed ws_demo @ running (lpc ws_demo) @ pendingFunctors (ws ws_demo)"
  by (rule worker_functors_fifo [OF ws_demo_reach]) (simp_all add: w_demo_def Worker_new_def)

text \<open>
  C37. \<^verbatim>\<open>doPendingFunctors\<close> runs the functors that were pending when it started, in order, and no
  others: those queued meanwhile by the running functors stay pending, so one turn of the loop is
  finite whatever they queue, and since each has written to the \<^verbatim>\<open>eventfd\<close> the next \<^verbatim>\<open>poll\<close> does not
  wait for them.
\<close>

theorem doPendingFunctors_one_turn:
  "\<exists>w'. doPendingFunctors (call_children kids eff) w = Inr w'
    \<and> w_io w' = fold eff (pendingFunctors w) (w_io w)
    \<and> pendingFunctors w' = concat (map kids (pendingFunctors w))
    \<and> \<not> callingPendingFunctors w'
    \<and> (pendingFunctors w' = [] \<or> 0 < eventfd w')"
  using foldE_children [of "w\<lparr>callingPendingFunctors := True, pendingFunctors := []\<rparr>" kids eff "pendingFunctors w"]
  by (auto simp: doPendingFunctors_def swap_functors_def)

end
