(* ===== verification/Log_Stream.thy ===== *)
theory Log_Stream
  imports Cobra_Prelude "HOL-Library.Signed_Division" "HOL-Library.Sublist"
begin

text \<open>
  \<^verbatim>\<open>FixedBuffer\<close>, \<^verbatim>\<open>LogStream\<close> and \<^verbatim>\<open>Fmt\<close> of \<^verbatim>\<open>base/LogStream.h\<close> and \<^verbatim>\<open>base/LogStream.cc\<close>. The buffer is the
  array \<^verbatim>\<open>data_\<close> and the distance of \<^verbatim>\<open>cur_\<close> from its start; a write outside the array is an error.
  \<^verbatim>\<open>snprintf\<close> of a floating-point number is an argument (\<open>fmt_g\<close>).
\<close>

section \<open>FixedBuffer\<close>

record fixed_buffer =
  fb_data :: "char list"
  fb_cur :: nat

definition kSmallBuffer :: nat where "kSmallBuffer = 4000"
definition kLargeBuffer :: nat where "kLargeBuffer = 4000 * 1000"

definition poke :: "nat \<Rightarrow> char list \<Rightarrow> char list \<Rightarrow> char list res" where
  "poke i cs mem =
     (if i + length cs \<le> length mem then Inr (take i mem @ cs @ drop (i + length cs) mem) else Inl OutOfBounds)"

definition FixedBuffer_new :: "char list \<Rightarrow> fixed_buffer" where
  "FixedBuffer_new mem = \<lparr>fb_data = mem, fb_cur = 0\<rparr>"

definition fb_length :: "fixed_buffer \<Rightarrow> nat" where "fb_length b = fb_cur b"

definition fb_avail :: "fixed_buffer \<Rightarrow> int" where "fb_avail b = int (length (fb_data b)) - int (fb_cur b)"

definition fb_append :: "char list \<Rightarrow> fixed_buffer \<Rightarrow> fixed_buffer res" where
  "fb_append buf b =
     (if int (length buf) < fb_avail b
      then bindE (poke (fb_cur b) buf (fb_data b)) (\<lambda>mem. Inr (b\<lparr>fb_data := mem, fb_cur := fb_cur b + length buf\<rparr>))
      else Inr b)"

definition fb_add :: "nat \<Rightarrow> fixed_buffer \<Rightarrow> fixed_buffer" where "fb_add len b = b\<lparr>fb_cur := fb_cur b + len\<rparr>"

definition fb_reset :: "fixed_buffer \<Rightarrow> fixed_buffer" where "fb_reset b = b\<lparr>fb_cur := 0\<rparr>"

definition fb_bzero :: "fixed_buffer \<Rightarrow> fixed_buffer" where
  "fb_bzero b = b\<lparr>fb_data := replicate (length (fb_data b)) (CHR 0x00)\<rparr>"

definition fb_asString :: "fixed_buffer \<Rightarrow> string" where "fb_asString b = take (fb_length b) (fb_data b)"

definition debugString :: "fixed_buffer \<Rightarrow> fixed_buffer res" where
  "debugString b = bindE (poke (fb_cur b) [CHR 0x00] (fb_data b)) (\<lambda>mem. Inr (b\<lparr>fb_data := mem\<rparr>))"

section \<open>Numbers\<close>

definition digits :: string where "digits = ''9876543210123456789''"
definition digitsHex :: string where "digitsHex = ''0123456789ABCDEF''"

text \<open>\<^verbatim>\<open>zero\<close> points into the middle of the digits, so that a negative remainder has its digit too.\<close>

definition zero_at :: "int \<Rightarrow> char" where "zero_at lsd = digits ! nat (9 + lsd)"

text \<open>The quotient of a division that truncates is nearer to zero.\<close>

lemma sdiv_smaller: "i sdiv k \<noteq> 0 \<Longrightarrow> 1 < k \<Longrightarrow> \<bar>i sdiv k\<bar> < \<bar>i :: int\<bar>"
proof -
  assume a: "i sdiv k \<noteq> 0" "1 < k"
  then have "i \<noteq> 0" by (auto simp: signed_divide_int_def)
  moreover have "\<bar>i\<bar> div k < \<bar>i\<bar>" using a(2) \<open>i \<noteq> 0\<close> by (intro int_div_less_self) auto
  moreover have "0 \<le> \<bar>i\<bar> div k" using a(2) by (simp add: pos_imp_zdiv_nonneg_iff)
  ultimately show ?thesis using a by (simp add: signed_divide_int_def abs_mult)
qed

function convert_loop :: "int \<Rightarrow> string" where
  "convert_loop i =
     (let lsd = i smod 10; i' = i sdiv 10
      in zero_at lsd # (if i' \<noteq> 0 then convert_loop i' else []))"
  by pat_completeness auto

termination by (relation "measure (\<lambda>i. nat \<bar>i\<bar>)") (auto intro!: sdiv_smaller)

declare convert_loop.simps [simp del]

text \<open>The characters are written in reverse, with the sign and a zero behind them, and then reversed in place.\<close>

definition convert_text :: "int \<Rightarrow> string" where
  "convert_text value = rev (convert_loop value @ (if value < 0 then ''-'' else ''''))"

definition convert :: "nat \<Rightarrow> int \<Rightarrow> char list \<Rightarrow> (nat \<times> char list) res" where
  "convert pos value mem =
     bindE (poke pos (convert_text value @ [CHR 0x00]) mem) (\<lambda>mem'. Inr (length (convert_text value), mem'))"

function convertHex_loop :: "nat \<Rightarrow> string" where
  "convertHex_loop i =
     (let lsd = i mod 16; i' = i div 16 in (digitsHex ! lsd) # (if i' \<noteq> 0 then convertHex_loop i' else []))"
  by pat_completeness auto

termination by (relation "measure (\<lambda>i. i)") (auto simp: div_greater_zero_iff)

declare convertHex_loop.simps [simp del]

definition convertHex_text :: "64 word \<Rightarrow> string" where
  "convertHex_text value = rev (convertHex_loop (unat value))"

definition convertHex :: "nat \<Rightarrow> 64 word \<Rightarrow> char list \<Rightarrow> (nat \<times> char list) res" where
  "convertHex pos value mem =
     bindE (poke pos (convertHex_text value @ [CHR 0x00]) mem) (\<lambda>mem'. Inr (length (convertHex_text value), mem'))"

section \<open>LogStream\<close>

definition kMaxNumericSize :: int where "kMaxNumericSize = 32"

definition formatInteger :: "int \<Rightarrow> fixed_buffer \<Rightarrow> fixed_buffer res" where
  "formatInteger v b =
     (if kMaxNumericSize \<le> fb_avail b
      then bindE (convert (fb_cur b) v (fb_data b)) (\<lambda>(len, mem). Inr (fb_add len (b\<lparr>fb_data := mem\<rparr>)))
      else Inr b)"

definition ls_bool :: "bool \<Rightarrow> fixed_buffer \<Rightarrow> fixed_buffer res" where "ls_bool v = fb_append (if v then ''1'' else ''0'')"
definition ls_int :: "32 word \<Rightarrow> fixed_buffer \<Rightarrow> fixed_buffer res" where "ls_int v = formatInteger (sint v)"
definition ls_uint :: "32 word \<Rightarrow> fixed_buffer \<Rightarrow> fixed_buffer res" where "ls_uint v = formatInteger (uint v)"
definition ls_short :: "16 word \<Rightarrow> fixed_buffer \<Rightarrow> fixed_buffer res" where "ls_short v = ls_int (scast v)"
definition ls_ushort :: "16 word \<Rightarrow> fixed_buffer \<Rightarrow> fixed_buffer res" where "ls_ushort v = ls_uint (ucast v)"
definition ls_long :: "64 word \<Rightarrow> fixed_buffer \<Rightarrow> fixed_buffer res" where "ls_long v = formatInteger (sint v)"
definition ls_ulong :: "64 word \<Rightarrow> fixed_buffer \<Rightarrow> fixed_buffer res" where "ls_ulong v = formatInteger (uint v)"
definition ls_longlong :: "64 word \<Rightarrow> fixed_buffer \<Rightarrow> fixed_buffer res" where "ls_longlong v = formatInteger (sint v)"
definition ls_ulonglong :: "64 word \<Rightarrow> fixed_buffer \<Rightarrow> fixed_buffer res" where "ls_ulonglong v = formatInteger (uint v)"

definition ls_pointer :: "64 word \<Rightarrow> fixed_buffer \<Rightarrow> fixed_buffer res" where
  "ls_pointer v b =
     (if kMaxNumericSize \<le> fb_avail b
      then bindE (poke (fb_cur b) ''0x'' (fb_data b)) (\<lambda>mem.
           bindE (convertHex (fb_cur b + 2) v mem) (\<lambda>(len, mem').
           Inr (fb_add (len + 2) (b\<lparr>fb_data := mem'\<rparr>))))
      else Inr b)"

text \<open>\<^verbatim>\<open>snprintf\<close> writes at most 31 characters and a zero, and returns the length of the whole text.\<close>

definition ls_double :: "('d \<Rightarrow> string) \<Rightarrow> 'd \<Rightarrow> fixed_buffer \<Rightarrow> fixed_buffer res" where
  "ls_double fmt_g v b =
     (if kMaxNumericSize \<le> fb_avail b
      then bindE (poke (fb_cur b) (take 31 (fmt_g v) @ [CHR 0x00]) (fb_data b)) (\<lambda>mem.
             Inr (fb_add (length (fmt_g v)) (b\<lparr>fb_data := mem\<rparr>)))
      else Inr b)"

definition ls_float :: "('d \<Rightarrow> string) \<Rightarrow> ('f \<Rightarrow> 'd) \<Rightarrow> 'f \<Rightarrow> fixed_buffer \<Rightarrow> fixed_buffer res" where
  "ls_float fmt_g widen v = ls_double fmt_g (widen v)"

definition ls_char :: "char \<Rightarrow> fixed_buffer \<Rightarrow> fixed_buffer res" where "ls_char v = fb_append [v]"

text \<open>A C string ends before its first zero.\<close>

definition ls_cstr :: "char list \<Rightarrow> fixed_buffer \<Rightarrow> fixed_buffer res" where
  "ls_cstr v = fb_append (takeWhile (\<lambda>c. c \<noteq> CHR 0x00) v)"

definition ls_string :: "string \<Rightarrow> fixed_buffer \<Rightarrow> fixed_buffer res" where "ls_string v = fb_append v"

definition ls_resetBuffer :: "fixed_buffer \<Rightarrow> fixed_buffer" where "ls_resetBuffer = fb_reset"

text \<open>\<^verbatim>\<open>Fmt\<close> with the text that \<^verbatim>\<open>snprintf\<close> makes.\<close>

record fmt =
  fmt_buf :: string
  fmt_length :: nat

definition Fmt_new :: "string \<Rightarrow> fmt res" where
  "Fmt_new s = cassert (length s < 32) (Inr \<lparr>fmt_buf = take 31 s, fmt_length = length s\<rparr>)"

definition ls_fmt :: "fmt \<Rightarrow> fixed_buffer \<Rightarrow> fixed_buffer res" where
  "ls_fmt f = fb_append (take (fmt_length f) (fmt_buf f))"

section \<open>The digits are right\<close>

lemma zero_at_digit:
  assumes "0 \<le> d" and "d < 10"
  shows "zero_at d = digit_char (nat d)" and "zero_at (- d) = digit_char (nat d)"
proof -
  have "d \<in> {0, 1, 2, 3, 4, 5, 6, 7, 8, 9}" using assms by (simp; presburger)
  then show "zero_at d = digit_char (nat d)" "zero_at (- d) = digit_char (nat d)"
    by (auto simp: zero_at_def digits_def digit_char_def char_of_def bit_Suc_0_iff)
qed

lemma convert_loop_dec: "convert_loop i = rev (dec_nat (nat \<bar>i\<bar>))"
proof (induction i rule: convert_loop.induct)
  case (1 i)
  let ?n = "nat \<bar>i\<bar>"
  have "i smod 10 = \<bar>i\<bar> mod 10 \<or> i smod 10 = - (\<bar>i\<bar> mod 10)" by (auto simp: signed_modulo_int_def sgn_if)
  moreover have "zero_at (\<bar>i\<bar> mod 10) = digit_char (?n mod 10)" "zero_at (- (\<bar>i\<bar> mod 10)) = digit_char (?n mod 10)"
    using zero_at_digit [of "\<bar>i\<bar> mod 10"] by (simp_all add: nat_mod_distrib)
  ultimately have d: "zero_at (i smod 10) = digit_char (?n mod 10)" by auto
  have q: "nat \<bar>i sdiv 10\<bar> = ?n div 10" by (simp add: signed_divide_int_def abs_mult nat_div_distrib sgn_if)
  then have z: "i sdiv 10 \<noteq> 0 \<longleftrightarrow> \<not> ?n < 10" by (auto simp: div_greater_zero_iff)
  show ?case
  proof (cases "i sdiv 10 = 0")
    case True
    then show ?thesis using z d by (subst convert_loop.simps, subst dec_nat.simps) (simp add: Let_def)
  next
    case False
    then show ?thesis using 1 [OF refl refl False] z d q
      by (subst convert_loop.simps, subst dec_nat.simps) (simp add: Let_def)
  qed
qed

lemma convert_text_dec: "convert_text v = dec_int v"
  by (simp add: convert_text_def convert_loop_dec dec_int_def)

text \<open>The value of hexadecimal digits.\<close>

definition hex_digit :: "char \<Rightarrow> nat" where
  "hex_digit c = (if of_char c < (65 :: nat) then of_char c - 48 else of_char c - 55)"

definition hex_value :: "string \<Rightarrow> nat" where
  "hex_value s = foldl (\<lambda>v c. v * 16 + hex_digit c) 0 s"

lemma hex_digit_nth:
  assumes "d < 16"
  shows "hex_digit (digitsHex ! d) = d"
proof -
  have "map (\<lambda>d. hex_digit (digitsHex ! d)) [0..<16] = [0..<16]"
    by (simp add: upt_rec digitsHex_def hex_digit_def)
  then have "map (\<lambda>d. hex_digit (digitsHex ! d)) [0..<16] ! d = [0..<16] ! d" by simp
  then show ?thesis using assms by (simp only: nth_map nth_upt length_upt diff_zero add_0)
qed

lemma convertHex_loop_value: "hex_value (rev (convertHex_loop i)) = i"
proof (induction i rule: convertHex_loop.induct)
  case (1 i)
  show ?case
  proof (cases "i div 16 = 0")
    case True
    then have "i < 16" by (simp add: div_eq_0_iff)
    with True show ?thesis by (subst convertHex_loop.simps) (simp add: Let_def hex_value_def hex_digit_nth)
  next
    case False
    with 1 [OF refl refl False] show ?thesis
      by (subst convertHex_loop.simps) (simp add: Let_def hex_value_def hex_digit_nth)
  qed
qed

text \<open>How long a number can be.\<close>

lemma convertHex_loop_length: "i < 16 ^ k \<Longrightarrow> 0 < k \<Longrightarrow> length (convertHex_loop i) \<le> k"
proof (induction k arbitrary: i)
  case (Suc k)
  show ?case
  proof (cases "i div 16 = 0")
    case False
    then have "i div 16 < 16 ^ k" "0 < k" using Suc.prems by (auto intro: Nat.gr0I simp: less_mult_imp_div_less)
    with Suc.IH show ?thesis using False by (subst convertHex_loop.simps) (simp add: Let_def)
  qed (subst convertHex_loop.simps, simp add: Let_def)
qed simp

lemma convertHex_text_length: "length (convertHex_text v) \<le> 16"
  using convertHex_loop_length [of "unat v" 16] unsigned_less [of v] by (simp add: convertHex_text_def)

lemma dec_int_length:
  assumes "- (2 ^ 64) < v" and "v < 2 ^ 64"
  shows "length (dec_int v) \<le> 21"
proof -
  have "nat (- v) < 10 ^ 20" "nat v < 10 ^ 20" using assms by simp_all
  then show ?thesis using dec_nat_length [of "nat (- v)" 20] dec_nat_length [of "nat v" 20] by (simp add: dec_int_def)
qed

section \<open>Streaming\<close>

text \<open>What can be streamed, the operator that streams it, and the text it stands for.\<close>

datatype log_item = LBool bool | LShort "16 word" | LUShort "16 word" | LInt "32 word" | LUInt "32 word" | LLong "64 word"
  | LULong "64 word" | LLongLong "64 word" | LULongLong "64 word" | LPtr "64 word" | LChar char | LCStr "char list" | LString string

fun put :: "log_item \<Rightarrow> fixed_buffer \<Rightarrow> fixed_buffer res" where
  "put (LBool v) = ls_bool v"
| "put (LShort v) = ls_short v"
| "put (LUShort v) = ls_ushort v"
| "put (LInt v) = ls_int v"
| "put (LUInt v) = ls_uint v"
| "put (LLong v) = ls_long v"
| "put (LULong v) = ls_ulong v"
| "put (LLongLong v) = ls_longlong v"
| "put (LULongLong v) = ls_ulonglong v"
| "put (LPtr v) = ls_pointer v"
| "put (LChar v) = ls_char v"
| "put (LCStr v) = ls_cstr v"
| "put (LString v) = ls_string v"

fun render :: "log_item \<Rightarrow> string" where
  "render (LBool v) = (if v then ''1'' else ''0'')"
| "render (LShort v) = dec_int (sint v)"
| "render (LUShort v) = dec_int (uint v)"
| "render (LInt v) = dec_int (sint v)"
| "render (LUInt v) = dec_int (uint v)"
| "render (LLong v) = dec_int (sint v)"
| "render (LULong v) = dec_int (uint v)"
| "render (LLongLong v) = dec_int (sint v)"
| "render (LULongLong v) = dec_int (uint v)"
| "render (LPtr v) = ''0x'' @ convertHex_text v"
| "render (LChar v) = [v]"
| "render (LCStr v) = takeWhile (\<lambda>c. c \<noteq> CHR 0x00) v"
| "render (LString v) = v"

text \<open>\<open>grows b s b'\<close>: the buffer takes the whole of \<open>s\<close>; there is always room for one more character.\<close>

definition fb_ok :: "fixed_buffer \<Rightarrow> bool" where "fb_ok b \<longleftrightarrow> fb_cur b < length (fb_data b)"

definition grows :: "fixed_buffer \<Rightarrow> string \<Rightarrow> fixed_buffer \<Rightarrow> bool" where
  "grows b s b' \<longleftrightarrow> fb_ok b' \<and> fb_asString b' = fb_asString b @ s \<and> fb_length b' = fb_length b + length s
     \<and> length (fb_data b') = length (fb_data b)"

text \<open>Every operator takes its whole text or nothing, and takes it when 32 characters and one more than the text are free.\<close>

definition takes :: "(fixed_buffer \<Rightarrow> fixed_buffer res) \<Rightarrow> string \<Rightarrow> fixed_buffer \<Rightarrow> bool" where
  "takes f s b \<longleftrightarrow> (\<exists>b'. f b = Inr b' \<and> (grows b s b' \<or> b' = b \<and> fb_avail b \<le> max 31 (int (length s))))"

lemma fb_append_takes: "fb_ok b \<Longrightarrow> takes (fb_append s) s b"
  by (auto simp: takes_def fb_append_def poke_def fb_avail_def grows_def fb_ok_def fb_asString_def fb_length_def)

lemma formatInteger_takes:
  assumes "fb_ok b" and "- (2 ^ 64) < v" and "v < 2 ^ 64"
  shows "takes (formatInteger v) (dec_int v) b"
  using assms(1) dec_int_length [OF assms(2,3)]
  by (auto simp: takes_def formatInteger_def convert_def convert_text_dec poke_def fb_avail_def kMaxNumericSize_def
      fb_add_def grows_def fb_ok_def fb_asString_def fb_length_def)

lemma poke_poke:
  assumes "i + length xs + length ys \<le> length mem" and "poke i xs mem = Inr m"
  shows "poke (i + length xs) ys m = poke i (xs @ ys) mem"
  using assms by (auto simp: poke_def add.assoc add.commute [of "length ys"])

lemma ls_pointer_takes:
  assumes "fb_ok b"
  shows "takes (ls_pointer v) (''0x'' @ convertHex_text v) b"
proof (cases "kMaxNumericSize \<le> fb_avail b")
  case True
  let ?n = "fb_cur b" and ?h = "convertHex_text v"
  have room: "?n + 32 \<le> length (fb_data b)" using True by (simp add: kMaxNumericSize_def fb_avail_def)
  have h: "length ?h \<le> 16" by (rule convertHex_text_length)
  obtain mem where mem: "poke ?n ''0x'' (fb_data b) = Inr mem" using room by (simp add: poke_def)
  then have "poke (?n + 2) (?h @ [CHR 0x00]) mem = poke ?n (''0x'' @ ?h @ [CHR 0x00]) (fb_data b)"
    using poke_poke [OF _ mem, of "?h @ [CHR 0x00]"] room h by simp
  moreover have "poke ?n (''0x'' @ ?h @ [CHR 0x00]) (fb_data b)
      = Inr (take ?n (fb_data b) @ ''0x'' @ ?h @ [CHR 0x00] @ drop (Suc (Suc (Suc (?n + length ?h)))) (fb_data b))"
    using room h by (simp add: poke_def)
  ultimately show ?thesis using mem True room h
    by (auto simp: takes_def ls_pointer_def convertHex_def grows_def fb_ok_def fb_add_def fb_asString_def fb_length_def)
next
  case False
  then show ?thesis by (auto simp: takes_def ls_pointer_def kMaxNumericSize_def)
qed

lemma signed_takes:
  fixes i :: "'a::len word"
  assumes "fb_ok b" and "LENGTH('a) \<le> 64"
  shows "takes (formatInteger (sint i)) (dec_int (sint i)) b"
proof -
  have "(2 :: int) ^ (LENGTH('a) - 1) \<le> 2 ^ 63" using assms(2) by (intro power_increasing) auto
  then show ?thesis using sint_greater_eq [of i] sint_less [of i] by (intro formatInteger_takes [OF assms(1)]) simp_all
qed

lemma unsigned_takes:
  fixes i :: "'a::len word"
  assumes "fb_ok b" and "LENGTH('a) \<le> 64"
  shows "takes (formatInteger (uint i)) (dec_int (uint i)) b"
proof -
  have "(2 :: int) ^ LENGTH('a) \<le> 2 ^ 64" using assms(2) by (intro power_increasing) auto
  then show ?thesis using uint_lt2p [of i] uint_ge_0 [of i] by (intro formatInteger_takes [OF assms(1)]) linarith+
qed

lemma put_takes:
  assumes "fb_ok b"
  shows "takes (put x) (render x) b"
proof -
  have s: "sint (scast v :: 32 word) = sint (v :: 16 word)" "uint (ucast v :: 32 word) = uint (v :: 16 word)" for v
  proof -
    have "- (2 ^ 31) \<le> sint v" "sint v < 2 ^ 31" using sint_greater_eq [of v] sint_less [of v] by simp_all
    moreover have "uint v < 2 ^ 32" using uint_lt2p [of v] by simp
    ultimately show "sint (scast v :: 32 word) = sint v" "uint (ucast v :: 32 word) = uint v"
      by (simp_all add: signed_scast_eq unsigned_ucast_eq signed_take_bit_int_eq_self take_bit_int_eq_self)
  qed
  show ?thesis
    using fb_append_takes [OF assms] ls_pointer_takes [OF assms]
    by (cases x) (simp_all add: signed_takes unsigned_takes assms ls_bool_def ls_short_def ls_ushort_def ls_int_def ls_uint_def ls_long_def ls_ulong_def
        ls_longlong_def ls_ulonglong_def ls_char_def ls_cstr_def ls_string_def s)
qed

section \<open>Properties\<close>

text \<open>
  C35. Streaming into a \<^verbatim>\<open>LogStream\<close> (the operators, \<^verbatim>\<open>formatInteger\<close>, \<^verbatim>\<open>convert\<close>, \<^verbatim>\<open>convertHex\<close>, \<^verbatim>\<open>FixedBuffer::append\<close>): for every
  sequence of values, nothing is written outside the buffer; each value is taken as a whole or dropped as a whole, in
  order, and all are taken when their texts and 32 more characters fit. Integers of every width appear
  as their decimal digits, the smallest negative ones included, and pointers as hexadecimal digits that have their value.
\<close>

theorem log_stream_text:
  assumes "fb_ok b"
  shows "\<exists>b' kept. foldE put items b = Inr b' \<and> fb_ok b' \<and> subseq kept items
    \<and> fb_asString b' = fb_asString b @ concat (map render kept)
    \<and> (fb_length b + length (concat (map render items)) + 32 \<le> length (fb_data b) \<longrightarrow> kept = items)
    \<and> hex_value (convertHex_text p) = unat p"
proof -
  have "\<exists>b' kept. foldE put items b = Inr b' \<and> fb_ok b' \<and> subseq kept items
    \<and> fb_asString b' = fb_asString b @ concat (map render kept)
    \<and> (fb_length b + length (concat (map render items)) + 32 \<le> length (fb_data b) \<longrightarrow> kept = items)"
    using assms
  proof (induction items arbitrary: b)
    case Nil
    then show ?case by (intro exI [of _ b] exI [of _ "[]"]) simp
  next
    case (Cons x items)
    obtain b1 where b1: "put x b = Inr b1" "grows b (render x) b1 \<or> b1 = b \<and> fb_avail b \<le> max 31 (int (length (render x)))"
      using put_takes [OF Cons.prems, of x] by (auto simp: takes_def)
    then have "fb_ok b1" using Cons.prems by (auto simp: grows_def)
    from Cons.IH [OF this] obtain b' kept where ih: "foldE put items b1 = Inr b'" "fb_ok b'" "subseq kept items"
      "fb_asString b' = fb_asString b1 @ concat (map render kept)"
      "fb_length b1 + length (concat (map render items)) + 32 \<le> length (fb_data b1) \<longrightarrow> kept = items" by blast
    from b1(2) show ?case
    proof
      assume "grows b (render x) b1"
      then show ?thesis using b1(1) ih
        by (intro exI [of _ b'] exI [of _ "x # kept"]) (auto simp: grows_def)
    next
      assume "b1 = b \<and> fb_avail b \<le> max 31 (int (length (render x)))"
      then show ?thesis using b1(1) ih
        by (intro exI [of _ b'] exI [of _ kept]) (auto simp: fb_avail_def fb_length_def)
    qed
  qed
  then show ?thesis by (simp add: convertHex_text_def convertHex_loop_value)
qed

theorem log_stream_text_witness:
  "\<exists>b'. foldE put [LString ''n='', LInt (- 2147483648), LPtr 255] (FixedBuffer_new (replicate 80 CHR ''?'')) = Inr b'
    \<and> fb_asString b' = ''n=-2147483648'' @ ''0x'' @ convertHex_text 255 \<and> hex_value (convertHex_text 255) = 255"
proof -
  have d: "dec_int (sint (- 2147483648 :: 32 word)) = ''-2147483648''"
    by (simp add: dec_int_def dec_nat.simps digit_char_def char_of_def bit_Suc_0_iff)
  let ?b = "FixedBuffer_new (replicate 80 CHR ''?'')"
  let ?items = "[LString ''n='', LInt (- 2147483648), LPtr 255]"
  have "fb_ok ?b" by (simp add: fb_ok_def FixedBuffer_new_def)
  moreover have "fb_length ?b + length (concat (map render ?items)) + 32 \<le> length (fb_data ?b)"
    using convertHex_text_length [of 255] by (simp add: FixedBuffer_new_def fb_length_def d [simplified])
  moreover have "fb_asString ?b = ''''" by (simp add: fb_asString_def fb_length_def FixedBuffer_new_def)
  ultimately show ?thesis using log_stream_text [of ?b ?items 255] d by fastforce
qed

end
