(* ===== verification/Calendar.thy ===== *)
theory Calendar
  imports Cobra_Prelude "HOL-Library.Signed_Division"
begin

text \<open>
  \<^verbatim>\<open>Date\<close> of \<^verbatim>\<open>base/Date.h\<close> and \<^verbatim>\<open>base/Date.cc\<close>: a day of the Gregorian calendar as a Julian day
  number. Division is C's, which truncates. The reference is the calendar itself: the days of each month of
  each year. The code computes with \<^verbatim>\<open>int\<close>; the
  days of the years 1900 to 2500, for which the class is documented, are far below the ones that overflow.
\<close>

section \<open>The code\<close>

record YearMonthDay =
  ymd_year :: int
  ymd_month :: int
  ymd_day :: int

definition getJulianDayNumber :: "int \<Rightarrow> int \<Rightarrow> int \<Rightarrow> int" where
  "getJulianDayNumber year month day =
     (let a = (14 - month) sdiv 12;
          y = year + 4800 - a;
          m = month + 12 * a - 3
      in day + (153 * m + 2) sdiv 5 + y * 365 + y sdiv 4 - y sdiv 100 + y sdiv 400 - 32045)"

definition getYearMonthDay :: "int \<Rightarrow> YearMonthDay" where
  "getYearMonthDay julianDayNumber =
     (let a = julianDayNumber + 32044;
          b = (4 * a + 3) sdiv 146097;
          c = a - ((b * 146097) sdiv 4);
          d = (4 * c + 3) sdiv 1461;
          e = c - ((1461 * d) sdiv 4);
          m = (5 * e + 2) sdiv 153
      in \<lparr>ymd_year = b * 100 + d - 4800 + (m sdiv 10),
          ymd_month = m + 3 - 12 * (m sdiv 10),
          ymd_day = e - ((153 * m + 2) sdiv 5) + 1\<rparr>)"

text \<open>A \<^verbatim>\<open>Date\<close> is its Julian day number.\<close>

type_synonym date = int

definition Date_none :: date where "Date_none = 0"

definition Date_ymd :: "int \<Rightarrow> int \<Rightarrow> int \<Rightarrow> date" where
  "Date_ymd y m d = getJulianDayNumber y m d"

definition Date_tm :: "int \<Rightarrow> int \<Rightarrow> int \<Rightarrow> date" where
  "Date_tm tm_year tm_mon tm_mday = getJulianDayNumber (tm_year + 1900) (tm_mon + 1) tm_mday"

definition Date_julian :: "int \<Rightarrow> date" where "Date_julian julianDayNum = julianDayNum"

definition Date_swap :: "date \<Rightarrow> date \<Rightarrow> date \<times> date" where "Date_swap this that = (that, this)"

definition kJulianDayOf1970_01_01 :: int where
  "kJulianDayOf1970_01_01 = getJulianDayNumber 1970 1 1"

definition Date_valid :: "date \<Rightarrow> bool" where "Date_valid d \<longleftrightarrow> 0 < d"

definition yearMonthDay :: "date \<Rightarrow> YearMonthDay" where "yearMonthDay d = getYearMonthDay d"

definition Date_year :: "date \<Rightarrow> int" where "Date_year d = ymd_year (yearMonthDay d)"
definition Date_month :: "date \<Rightarrow> int" where "Date_month d = ymd_month (yearMonthDay d)"
definition Date_day :: "date \<Rightarrow> int" where "Date_day d = ymd_day (yearMonthDay d)"

definition kDaysPerWeek :: int where "kDaysPerWeek = 7"

definition weekDay :: "date \<Rightarrow> int" where "weekDay d = (d + 1) smod kDaysPerWeek"

definition Date_less :: "date \<Rightarrow> date \<Rightarrow> bool" where "Date_less x y \<longleftrightarrow> x < y"
definition Date_eq :: "date \<Rightarrow> date \<Rightarrow> bool" where "Date_eq x y \<longleftrightarrow> x = y"

text \<open>\<^verbatim>\<open>%4d\<close> pads with blanks, \<^verbatim>\<open>%02d\<close> with zeros; the sign counts.\<close>

definition pad_left :: "nat \<Rightarrow> char \<Rightarrow> string \<Rightarrow> string" where
  "pad_left n c s = replicate (n - length s) c @ s"

definition toIsoString :: "date \<Rightarrow> string" where
  "toIsoString date =
     (let ymd = yearMonthDay date
      in take 31 (pad_left 4 CHR '' '' (dec_int (ymd_year ymd)) @ ''-'' @ pad_left 2 CHR ''0'' (dec_int (ymd_month ymd))
           @ ''-'' @ pad_left 2 CHR ''0'' (dec_int (ymd_day ymd))))"

section \<open>The calendar\<close>

definition leap_year :: "int \<Rightarrow> bool" where
  "leap_year y \<longleftrightarrow> y mod 4 = 0 \<and> (y mod 100 \<noteq> 0 \<or> y mod 400 = 0)"

definition month_days :: "int \<Rightarrow> int \<Rightarrow> int" where
  "month_days y m = (if m = 2 then if leap_year y then 29 else 28 else if m \<in> {4, 6, 9, 11} then 30 else 31)"

definition valid_ymd :: "int \<Rightarrow> int \<Rightarrow> int \<Rightarrow> bool" where
  "valid_ymd y m d \<longleftrightarrow> 1 \<le> m \<and> m \<le> 12 \<and> 1 \<le> d \<and> d \<le> month_days y m"

text \<open>The day after a day, as the calendar has it.\<close>

definition next_ymd :: "YearMonthDay \<Rightarrow> YearMonthDay" where
  "next_ymd t =
     (if ymd_day t < month_days (ymd_year t) (ymd_month t) then t\<lparr>ymd_day := ymd_day t + 1\<rparr>
      else if ymd_month t < 12 then \<lparr>ymd_year = ymd_year t, ymd_month = ymd_month t + 1, ymd_day = 1\<rparr>
      else \<lparr>ymd_year = ymd_year t + 1, ymd_month = 1, ymd_day = 1\<rparr>)"

section \<open>Both conversions over the calendar\<close>

lemma sdiv_nonneg [simp]: "0 \<le> a \<Longrightarrow> 0 < b \<Longrightarrow> a sdiv b = a div (b :: int)"
  by (cases "a = 0") (simp_all add: signed_divide_int_def)

lemma smod_nonneg [simp]: "0 \<le> a \<Longrightarrow> 0 < b \<Longrightarrow> a smod b = a mod (b :: int)"
  by (cases "a = 0") (simp_all add: signed_modulo_int_def)

text \<open>
  The code counts years from March, so that the leap day is the last one: \<open>m\<close> is the month from March on
  (0 to 11), \<open>e\<close> the day of that year, \<open>b\<close> the century and \<open>d\<close> the year in it.
\<close>

definition march_day :: "int \<Rightarrow> int \<Rightarrow> int" where
  "march_day m day = (153 * m + 2) div 5 + day - 1"

definition march_julian :: "int \<Rightarrow> int \<Rightarrow> int \<Rightarrow> int" where
  "march_julian b d e = 146097 * b div 4 + 1461 * d div 4 + e - 32044"

lemma year_split:
  fixes b d :: int
  assumes "0 \<le> b" and "0 \<le> d" and "d \<le> 99"
  shows "(100 * b + d) div 4 = 25 * b + d div 4" and "(100 * b + d) div 100 = b" and "(100 * b + d) div 400 = b div 4"
    and "1461 * d div 4 = 365 * d + d div 4" and "146097 * b div 4 = 36524 * b + b div 4"
proof -
  have "(100 * b + d) div 100 = b" using assms by simp
  moreover have "(100 * b + d) div 400 = (100 * b + d) div 100 div 4" by (simp add: zdiv_zmult2_eq [symmetric])
  ultimately show "(100 * b + d) div 100 = b" "(100 * b + d) div 400 = b div 4" by simp_all
  have "100 * b + d = d + 25 * b * 4" "1461 * d = d + 365 * d * 4" "146097 * b = b + 36524 * b * 4" by simp_all
  then show "(100 * b + d) div 4 = 25 * b + d div 4" "1461 * d div 4 = 365 * d + d div 4"
    "146097 * b div 4 = 36524 * b + b div 4"
    by (simp_all only: div_mult_self1 zero_neq_numeral [symmetric] not_False_eq_True)
qed

lemma twelve_months:
  fixes m :: int
  assumes "0 \<le> m" and "m \<le> 11"
  shows "m \<in> {0, 1, 2, 3, 4, 5, 6, 7, 8, 9, 10, 11}"
proof -
  have "m = 0 \<or> m = 1 \<or> m = 2 \<or> m = 3 \<or> m = 4 \<or> m = 5 \<or> m = 6 \<or> m = 7 \<or> m = 8 \<or> m = 9 \<or> m = 10 \<or> m = 11"
    using assms by arith
  then show ?thesis by simp
qed

lemma quarter_div:
  fixes q x :: int
  assumes q: "4 * q = k * x - s" and k: "k = 4 * n + 1" and c: "0 \<le> c" "c \<le> n" and s: "0 \<le> s" "s \<le> 3" "c = n \<Longrightarrow> s = 3"
  shows "(4 * (q + c) + 3) div k = x"
proof -
  have e: "4 * (q + c) + 3 = (4 * c + 3 - s) + x * k" using q by (simp add: algebra_simps)
  have "0 \<le> 4 * c + 3 - s" "4 * c + 3 - s < k" using k c s by (cases "c = n", auto)+
  then have "(4 * c + 3 - s) div k = 0" "k \<noteq> 0" using k c by (auto intro: div_pos_pos_trivial)
  then show ?thesis unfolding e by (subst div_mult_self1) simp_all
qed

lemma julian_sum:
  fixes x :: int
  shows "day + x + (100 * b + d) * 365 + (25 * b + d4) - b + b4 - 32045 = (36524 * b + b4) + (365 * d + d4) + (x + day - 1) - 32044"
  by simp

lemma julian_march:
  assumes "0 \<le> b" and "0 \<le> d" and "d \<le> 99" and "0 \<le> m" and "m \<le> 11"
    and month: "month = m + 3 - 12 * (m div 10)" and year: "year = 100 * b + d - 4800 + m div 10"
  shows "getJulianDayNumber year month day = march_julian b d (march_day m day)"
proof -
  have "(14 - month) div 12 = m div 10" "0 \<le> 14 - month" using month twelve_months [OF assms(4,5)] by auto
  then have a: "(14 - month) sdiv 12 = m div 10" by simp
  have "year + 4800 - m div 10 = 100 * b + d" "month + 12 * (m div 10) - 3 = m" using month year by simp_all
  then have "getJulianDayNumber year month day =
      day + (153 * m + 2) sdiv 5 + (100 * b + d) * 365 + (100 * b + d) sdiv 4 - (100 * b + d) sdiv 100 + (100 * b + d) sdiv 400 - 32045"
    by (simp only: getJulianDayNumber_def a Let_def)
  moreover have "(153 * m + 2) sdiv 5 = (153 * m + 2) div 5" using assms(4) by (intro sdiv_nonneg) simp_all
  moreover have "(100 * b + d) sdiv k = (100 * b + d) div k" if "0 < k" for k
    using assms(1-4) that by (intro sdiv_nonneg) simp_all
  ultimately have "getJulianDayNumber year month day =
      day + (153 * m + 2) div 5 + (100 * b + d) * 365 + (25 * b + d div 4) - b + b div 4 - 32045"
    by (simp only: year_split [OF assms(1-3)] zero_less_numeral)
  also have "\<dots> = march_julian b d (march_day m day)"
    unfolding march_julian_def march_day_def year_split [OF assms(1-3)] by (rule julian_sum)
  finally show ?thesis .
qed

text \<open>A day of a year from March on: the year of the century that ends in a leap day has 366 of them.\<close>

definition march_ok :: "int \<Rightarrow> int \<Rightarrow> int \<Rightarrow> bool" where
  "march_ok b d e \<longleftrightarrow> 0 \<le> b \<and> 0 \<le> d \<and> d \<le> 99 \<and> 0 \<le> e \<and> e \<le> 365 \<and> (e = 365 \<longrightarrow> leap_year (100 * b + d + 1))"

lemma leap_march:
  assumes "0 \<le> d" and "d \<le> 99"
  shows "leap_year (100 * b + d + 1) \<longleftrightarrow> (d mod 4 = 3 \<and> (d \<noteq> 99 \<or> b mod 4 = 3))"
proof (cases "d = 99")
  case True
  have y: "100 * b + d + 1 = 100 * (b + 1)" using True by simp
  have "(100 * (b + 1)) mod (100 * 4) = 100 * ((b + 1) mod 4)" by (rule mult_mod_right [symmetric])
  moreover have "(b + 1) mod 4 = 0 \<longleftrightarrow> b mod 4 = 3" by presburger
  moreover have "100 * (b + 1) = 25 * (b + 1) * 4" by simp
  then have "(100 * (b + 1)) mod 4 = 0" by (simp only: mod_mult_self2_is_0)
  ultimately show ?thesis using True unfolding y leap_year_def by simp
next
  case False
  have "100 * b + d + 1 = d + 1 + b * 100" by simp
  then have "(100 * b + d + 1) mod 100 = (d + 1) mod 100" by (simp only: mod_mult_self1)
  moreover have "100 * b + d + 1 = d + 1 + 25 * b * 4" by simp
  then have "(100 * b + d + 1) mod 4 = (d + 1) mod 4" by (simp only: mod_mult_self1)
  moreover have "(d + 1) mod 100 \<noteq> 0" using False assms by simp
  moreover have "(d + 1) mod 4 = 0 \<longleftrightarrow> d mod 4 = 3" by presburger
  ultimately show ?thesis using False by (simp add: leap_year_def)
qed

lemma leap_year_4800: "leap_year (y + 4800) = leap_year y"
proof -
  have "(y + 1200 * 4) mod 4 = y mod 4" "(y + 48 * 100) mod 100 = y mod 100" "(y + 12 * 400) mod 400 = y mod 400"
    by (rule mod_mult_self1)+
  then show ?thesis by (simp add: leap_year_def)
qed

lemma ymd_march:
  assumes ok: "march_ok b d e"
  shows "getYearMonthDay (march_julian b d e) =
    (let m = (5 * e + 2) div 153
     in \<lparr>ymd_year = 100 * b + d - 4800 + m div 10, ymd_month = m + 3 - 12 * (m div 10), ymd_day = e - (153 * m + 2) div 5 + 1\<rparr>)"
proof -
  have r: "0 \<le> b" "0 \<le> d" "d \<le> 99" "0 \<le> e" "e \<le> 365" using ok by (simp_all add: march_ok_def)
  have leap: "e = 365 \<Longrightarrow> d mod 4 = 3 \<and> (d \<noteq> 99 \<or> b mod 4 = 3)" using ok leap_march [OF r(2,3)] by (simp add: march_ok_def)
  let ?c = "1461 * d div 4 + e" let ?a = "146097 * b div 4 + ?c"
  have c: "0 \<le> ?c" "?c \<le> 36524" using r by linarith+
  have full: "?c = 36524 \<Longrightarrow> b mod 4 = 3"
  proof -
    assume "?c = 36524"
    then have s: "365 * d + d div 4 + e = 36524" using year_split(4) [OF r(1-3)] by simp
    moreover have "d div 4 \<le> 24" using r by linarith
    ultimately have "d = 99" using r by linarith
    moreover from this s have "e = 365" by simp
    ultimately have "d = 99" "e = 365" by simp_all
    then show ?thesis using leap by simp
  qed
  have s: "0 \<le> b mod 4" "b mod 4 \<le> 3" "0 \<le> d mod 4" "d mod 4 \<le> 3" by presburger+
  have "4 * (146097 * b div 4) = 146097 * b - b mod 4"
    unfolding year_split(5) [OF r(1-3)] using mult_div_mod_eq [of 4 b] by (simp add: algebra_simps)
  then have "(4 * ?a + 3) div 146097 = b"
    by (rule quarter_div [where n = 36524]) (use c full s in simp_all)
  moreover have "4 * (1461 * d div 4) = 1461 * d - d mod 4"
    unfolding year_split(4) [OF r(1-3)] using mult_div_mod_eq [of 4 d] by (simp add: algebra_simps)
  then have "(4 * ?c + 3) div 1461 = d"
    by (rule quarter_div [where n = 365]) (use r leap s in simp_all)
  moreover have a: "march_julian b d e + 32044 = ?a" by (simp add: march_julian_def)
  moreover have "0 \<le> ?a" using r by simp
  then have "(4 * ?a + 3) sdiv 146097 = (4 * ?a + 3) div 146097" by (intro sdiv_nonneg) simp_all
  moreover have "(4 * ?c + 3) sdiv 1461 = (4 * ?c + 3) div 1461" using c by (intro sdiv_nonneg) simp_all
  moreover have "(b * 146097) sdiv 4 = 146097 * b div 4" using r by (simp add: mult.commute)
  moreover have "(1461 * d) sdiv 4 = 1461 * d div 4" using r by (intro sdiv_nonneg) simp_all
  moreover have "?a - 146097 * b div 4 = ?c" "?c - 1461 * d div 4 = e" by simp_all
  moreover have "(5 * e + 2) sdiv 153 = (5 * e + 2) div 153" using r by (intro sdiv_nonneg) simp_all
  moreover have "(5 * e + 2) div 153 sdiv 10 = (5 * e + 2) div 153 div 10"
    "(153 * ((5 * e + 2) div 153) + 2) sdiv 5 = (153 * ((5 * e + 2) div 153) + 2) div 5"
    using r by (auto intro!: sdiv_nonneg add_nonneg_nonneg)
  ultimately show ?thesis
    by (simp only: getYearMonthDay_def Let_def mult.commute [of b 100])
qed

text \<open>The month and the day of a day of the year, from March on.\<close>

lemma month_of_march_day:
  assumes "0 \<le> m" and "m \<le> 11" and "1 \<le> day" and "day \<le> (if m \<in> {1, 3, 6, 8} then 30 else if m = 11 then 29 else 31)"
  shows "(5 * march_day m day + 2) div 153 = m" and "0 \<le> march_day m day" and "march_day m day \<le> 365"
    and "march_day m day = 365 \<longleftrightarrow> m = 11 \<and> day = 29" and "march_day m day - (153 * m + 2) div 5 + 1 = day"
proof -
  have m: "m \<in> {0, 1, 2, 3, 4, 5, 6, 7, 8, 9, 10, 11}" by (rule twelve_months [OF assms(1,2)])
  have "153 * m \<le> 5 * march_day m day + 2" "5 * march_day m day + 2 < 153 * m + 153"
    using m assms(3,4) by (auto simp: march_day_def)
  then show "(5 * march_day m day + 2) div 153 = m"
    by (intro int_div_pos_eq [where r = "5 * march_day m day + 2 - 153 * m"]) auto
  show "0 \<le> march_day m day" "march_day m day \<le> 365" "march_day m day = 365 \<longleftrightarrow> m = 11 \<and> day = 29"
    using m assms(3,4) by (auto simp: march_day_def)
  show "march_day m day - (153 * m + 2) div 5 + 1 = day" by (simp add: march_day_def)
qed

lemma century_split:
  fixes y :: int
  assumes "0 \<le> y"
  obtains b d where "y = 100 * b + d" "0 \<le> b" "0 \<le> d" "d \<le> 99"
  using assms that [of "y div 100" "y mod 100"] by simp

text \<open>Every valid date is one of a year from March on.\<close>

lemma march_of_ymd:
  assumes v: "valid_ymd year month day" and y: "- 4799 \<le> year"
  obtains b d m where "march_ok b d (march_day m day)" "0 \<le> m" "m \<le> 11" "(5 * march_day m day + 2) div 153 = m"
    "year = 100 * b + d - 4800 + m div 10" "month = m + 3 - 12 * (m div 10)"
    "march_day m day - (153 * m + 2) div 5 + 1 = day"
proof -
  define m where "m = (if 3 \<le> month then month - 3 else month + 9)"
  have mo: "1 \<le> month" "month \<le> 12" "1 \<le> day" "day \<le> month_days year month" using v by (simp_all add: valid_ymd_def)
  have m: "0 \<le> m" "m \<le> 11" using mo by (auto simp: m_def)
  have d10: "m div 10 = (if 3 \<le> month then 0 else 1)" "month = m + 3 - 12 * (m div 10)"
    using twelve_months [OF m] mo by (auto simp: m_def split: if_splits)
  have "0 \<le> year + 4800 - m div 10" using y d10(1) by simp
  then obtain b d where bd: "year + 4800 - m div 10 = 100 * b + d" "0 \<le> b" "0 \<le> d" "d \<le> 99" by (rule century_split)
  have len: "day \<le> (if m \<in> {1, 3, 6, 8} then 30 else if m = 11 then 29 else 31)"
    using mo by (auto simp: month_days_def m_def split: if_splits)
  note md = month_of_march_day [OF m mo(3) len]
  have "march_day m day = 365 \<Longrightarrow> leap_year (100 * b + d + 1)"
  proof -
    assume "march_day m day = 365"
    then have m11: "m = 11" "day = 29" using md(4) by blast+
    have "month = 2" unfolding d10(2) m11(1) by simp
    moreover have "100 * b + d + 1 = year + 4800" unfolding bd(1) [symmetric] m11(1) by simp
    moreover from this have "leap_year year" using mo(4) m11(2) \<open>month = 2\<close> by (simp add: month_days_def split: if_splits)
    ultimately show ?thesis by (simp only: leap_year_4800)
  qed
  then have "march_ok b d (march_day m day)" using md bd by (simp add: march_ok_def)
  moreover have "year = 100 * b + d - 4800 + m div 10" using bd(1) by simp
  ultimately show thesis using that m md d10 by blast
qed

lemma ymd_of_julian:
  assumes v: "valid_ymd year month day" and y: "- 4799 \<le> year"
  shows "getYearMonthDay (getJulianDayNumber year month day) = \<lparr>ymd_year = year, ymd_month = month, ymd_day = day\<rparr>"
proof -
  obtain b d m where m: "march_ok b d (march_day m day)" "0 \<le> m" "m \<le> 11" "(5 * march_day m day + 2) div 153 = m"
    "year = 100 * b + d - 4800 + m div 10" "month = m + 3 - 12 * (m div 10)" "march_day m day - (153 * m + 2) div 5 + 1 = day"
    using march_of_ymd [OF assms] by blast
  then have "getJulianDayNumber year month day = march_julian b d (march_day m day)"
    by (intro julian_march) (simp_all add: march_ok_def)
  then show ?thesis using ymd_march [OF m(1)] m(4-7) by (simp add: Let_def)
qed

text \<open>Every day from day 0 on is one of a year from March on.\<close>

lemma quarter_rest:
  fixes a :: int
  assumes p: "4 * p = k * ((4 * a + 3) div k) - s" and k: "k = 4 * n + 1" "0 < n" and s: "0 \<le> s" "s \<le> 3"
  shows "0 \<le> a - p" and "a - p \<le> n" and "a - p = n \<Longrightarrow> s = 3"
proof -
  define x where "x = k * ((4 * a + 3) div k)"
  define r where "r = (4 * a + 3) mod k"
  have "x + r = 4 * a + 3" unfolding x_def r_def by simp
  moreover have "4 * p = x - s" using p by (simp only: x_def)
  moreover have "0 < k" using k by simp
  then have "0 \<le> r" "r < k" unfolding r_def by (rule pos_mod_sign pos_mod_bound)+
  ultimately show "0 \<le> a - p" "a - p \<le> n" "a - p = n \<Longrightarrow> s = 3" using k s by linarith+
qed

lemma march_of_julian:
  assumes "0 \<le> j"
  obtains b d e where "march_ok b d e" "march_julian b d e = j"
proof -
  define a where "a = j + 32044"
  define b where "b = (4 * a + 3) div 146097"
  define c where "c = a - 146097 * b div 4"
  define d where "d = (4 * c + 3) div 1461"
  define e where "e = c - 1461 * d div 4"
  have b: "0 \<le> b" using assms by (simp add: b_def a_def)
  have s: "0 \<le> b mod 4" "b mod 4 \<le> 3" "0 \<le> d mod 4" "d mod 4 \<le> 3" by presburger+
  have "4 * (146097 * b div 4) = 146097 * b - b mod 4"
    unfolding year_split(5) [OF b order_refl zero_le_numeral] using mult_div_mod_eq [of 4 b] by (simp add: algebra_simps)
  then have "4 * (146097 * b div 4) = 146097 * ((4 * a + 3) div 146097) - b mod 4" by (simp only: b_def)
  note c = quarter_rest [OF this, of 36524, folded c_def, simplified s, simplified]
  have d: "0 \<le> d" "d \<le> 99" using c by (auto simp: d_def)
  have "4 * (1461 * d div 4) = 1461 * d - d mod 4"
    unfolding year_split(4) [OF b d] using mult_div_mod_eq [of 4 d] by (simp add: algebra_simps)
  then have "4 * (1461 * d div 4) = 1461 * ((4 * c + 3) div 1461) - d mod 4" by (simp only: d_def)
  note e = quarter_rest [OF this, of 365, folded e_def, simplified s, simplified]
  have "leap_year (100 * b + d + 1)" if "e = 365"
  proof -
    have "c = 36524" if "d = 99" using \<open>e = 365\<close> that by (simp add: e_def)
    then show ?thesis unfolding leap_march [OF d] using e(3) c(3) that by auto
  qed
  then have "march_ok b d e" using b d e by (simp add: march_ok_def)
  moreover have "march_julian b d e = j" by (simp add: march_julian_def e_def c_def a_def)
  ultimately show thesis by (rule that)
qed

lemma valid_of_march:
  assumes "march_ok b d e"
  shows "let t = getYearMonthDay (march_julian b d e) in valid_ymd (ymd_year t) (ymd_month t) (ymd_day t)
    \<and> getJulianDayNumber (ymd_year t) (ymd_month t) (ymd_day t) = march_julian b d e"
proof -
  define m where "m = (5 * e + 2) div 153"
  define day where "day = e - (153 * m + 2) div 5 + 1"
  define year where "year = 100 * b + d - 4800 + m div 10"
  have e: "0 \<le> e" "e \<le> 365" using assms by (simp_all add: march_ok_def)
  then have m: "0 \<le> m" "m \<le> 11" by (auto simp: m_def)
  note twelve = twelve_months [OF m]
  have "153 * m + (5 * e + 2) mod 153 = 5 * e + 2" unfolding m_def by simp
  moreover have "0 \<le> (5 * e + 2) mod 153" "(5 * e + 2) mod 153 < 153" by simp_all
  ultimately have re: "153 * m \<le> 5 * e + 2" "5 * e + 2 < 153 * m + 153" by linarith+
  have leap: "leap_year (100 * b + d - 4799)" if "e = 365"
    using assms that leap_year_4800 [of "100 * b + d - 4799"] by (simp add: march_ok_def algebra_simps)
  have day: "day \<le> (if m \<in> {1, 3, 6, 8} then 30 else if m = 11 then if e = 365 then 29 else 28 else 31)" "1 \<le> day"
    using twelve re e(2) unfolding day_def by auto
  have "day \<le> month_days year (m + 3 - 12 * (m div 10))"
    using twelve day(1) leap by (auto simp: month_days_def year_def split: if_splits)
  moreover have "1 \<le> m + 3 - 12 * (m div 10)" "m + 3 - 12 * (m div 10) \<le> 12" using twelve by auto
  ultimately have v: "valid_ymd year (m + 3 - 12 * (m div 10)) day" using day(2) by (simp add: valid_ymd_def)
  have "getJulianDayNumber year (m + 3 - 12 * (m div 10)) day = march_julian b d (march_day m day)"
    by (rule julian_march) (use assms m in \<open>simp_all add: march_ok_def year_def\<close>)
  moreover have "march_day m day = e" by (simp add: march_day_def day_def)
  ultimately have j: "getJulianDayNumber year (m + 3 - 12 * (m div 10)) day = march_julian b d e" by (simp only:)
  have "getYearMonthDay (march_julian b d e) = \<lparr>ymd_year = year, ymd_month = m + 3 - 12 * (m div 10), ymd_day = day\<rparr>"
    using ymd_march [OF assms] by (simp only: Let_def m_def day_def year_def)
  then show ?thesis using v j by (simp only: Let_def YearMonthDay.simps)
qed

section \<open>The next day\<close>

definition year_days :: "int \<Rightarrow> int" where
  "year_days y = y * 365 + y div 4 - y div 100 + y div 400"

lemma div_pred:
  fixes x k :: int
  assumes "0 < k"
  shows "(x - 1) div k = (if x mod k = 0 then x div k - 1 else x div k)"
proof -
  define q r where "q = x div k" and "r = x mod k"
  have x: "x = q * k + r" and r: "0 \<le> r" "r < k" using assms by (simp_all add: q_def r_def)
  show ?thesis
  proof (cases "r = 0")
    case True
    have "x - 1 = (q - 1) * k + (k - 1)" using x True by (simp add: algebra_simps)
    then have "(x - 1) div k = q - 1" using assms by (simp only:) simp
    then show ?thesis using True by (simp add: q_def r_def)
  next
    case False
    have "x - 1 = q * k + (r - 1)" using x by simp
    then have "(x - 1) div k = q" using False r by (simp only:) simp
    then show ?thesis using False by (simp add: q_def r_def)
  qed
qed

lemma year_days_pred: "year_days y = year_days (y - 1) + (if leap_year y then 366 else 365)"
proof -
  have "y mod 4 = 0" if "y mod 100 = 0" using that by presburger
  moreover have "y mod 100 = 0" if "y mod 400 = 0"
  proof -
    have "400 dvd y" using that by auto
    then have "100 dvd y" by (rule dvd_trans [rotated]) simp
    then show ?thesis by simp
  qed
  ultimately show ?thesis
    unfolding year_days_def leap_year_def div_pred [of 4 y, simplified] div_pred [of 100 y, simplified] div_pred [of 400 y, simplified]
    by (auto simp: algebra_simps)
qed

lemma julian_month:
  assumes "1 \<le> month" and "month \<le> 12" and "- 4799 \<le> year"
  shows "getJulianDayNumber year month day =
    (if month \<le> 2 then year_days (year + 4799) + (153 * (month + 9) + 2) div 5
     else year_days (year + 4800) + (153 * (month - 3) + 2) div 5) + day - 32045"
proof -
  have j: "getJulianDayNumber year month day = day + (153 * m + 2) div 5 + year_days y - 32045"
    if a: "(14 - month) div 12 = a" "y = year + 4800 - a" "m = month + 12 * a - 3" and nonneg: "0 \<le> m" "0 \<le> y" for a y m
  proof -
    have "(14 - month) sdiv 12 = a" using assms(2) a(1) by simp
    moreover have "(153 * m + 2) sdiv 5 = (153 * m + 2) div 5" using nonneg(1) by (intro sdiv_nonneg) simp_all
    moreover have "y sdiv k = y div k" if "0 < k" for k using nonneg(2) that by (rule sdiv_nonneg)
    ultimately show ?thesis
      by (simp only: getJulianDayNumber_def Let_def a(2,3) [symmetric] zero_less_numeral) (simp add: year_days_def)
  qed
  show ?thesis
  proof (cases "month \<le> 2")
    case True
    then have "(14 - month) div 12 = 1" using assms(1) by simp
    then show ?thesis using True assms by (subst j [of 1 "year + 4799" "month + 9"]) auto
  next
    case False
    then have "(14 - month) div 12 = 0" using assms(2) by simp
    then show ?thesis using False assms by (subst j [of 0 "year + 4800" "month - 3"]) auto
  qed
qed

lemma julian_next:
  assumes "valid_ymd year month day" and "- 4799 \<le> year"
  shows "let t = next_ymd \<lparr>ymd_year = year, ymd_month = month, ymd_day = day\<rparr>
    in getJulianDayNumber (ymd_year t) (ymd_month t) (ymd_day t) = getJulianDayNumber year month day + 1
      \<and> valid_ymd (ymd_year t) (ymd_month t) (ymd_day t) \<and> - 4799 \<le> ymd_year t"
proof -
  have v: "1 \<le> month" "month \<le> 12" "1 \<le> day" "day \<le> month_days year month" using assms(1) by (simp_all add: valid_ymd_def)
  consider "day < month_days year month" | "day = month_days year month" "month = 12" | "day = month_days year month" "month < 12"
    using v by linarith
  then show ?thesis
  proof cases
    case 1
    then show ?thesis using v assms(2) by (simp add: next_ymd_def Let_def julian_month valid_ymd_def)
  next
    case 2
    then have "month_days year 12 = 31" by (simp add: month_days_def)
    then show ?thesis using 2 assms(2)
      by (simp add: next_ymd_def Let_def julian_month valid_ymd_def month_days_def add.commute [of year])
  next
    case 3
    have m: "month \<in> {1, 2, 3, 4, 5, 6, 7, 8, 9, 10, 11}" using twelve_months [of month] v(1) 3(2) by auto
    have y: "year_days (year + 4800) = year_days (year + 4799) + (if leap_year year then 366 else 365)"
    proof -
      have "year + 4800 - 1 = year + 4799" by simp
      then show ?thesis using year_days_pred [of "year + 4800"] by (simp only: leap_year_4800)
    qed
    have "getJulianDayNumber year (month + 1) 1 = getJulianDayNumber year month day + 1"
      using m assms(2) by (auto simp: julian_month y 3(1) month_days_def)
    moreover have "1 \<le> month_days year (month + 1)" by (simp add: month_days_def)
    ultimately show ?thesis using 3 v(1) assms(2) by (simp add: next_ymd_def Let_def valid_ymd_def)
  qed
qed

section \<open>Properties\<close>

text \<open>
  C29. \<^verbatim>\<open>Date\<close> is the Gregorian calendar (\<^verbatim>\<open>getJulianDayNumber\<close>, \<^verbatim>\<open>getYearMonthDay\<close>): a valid date of any year from
  4800 B.C. on has a day number that converts back to it; every day number from 0 on is the number of the valid date it
  converts to; and the date of the next day number is the next date of the calendar, leap years included. So
  the two conversions are inverse to each other and dates follow each other without gaps. (The code's \<^verbatim>\<open>int\<close> holds every value up to
  day \<open>536838867\<close>, for which \<open>4 * a + 3\<close> is the largest.)
\<close>

theorem date_gregorian:
  assumes "valid_ymd y m d" and "- 4799 \<le> y" and "0 \<le> j"
  shows "yearMonthDay (Date_ymd y m d) = \<lparr>ymd_year = y, ymd_month = m, ymd_day = d\<rparr>
    \<and> yearMonthDay (Date_ymd y m d + 1) = next_ymd \<lparr>ymd_year = y, ymd_month = m, ymd_day = d\<rparr>
    \<and> valid_ymd (Date_year j) (Date_month j) (Date_day j)
    \<and> Date_ymd (Date_year j) (Date_month j) (Date_day j) = j"
proof -
  define t where "t = next_ymd \<lparr>ymd_year = y, ymd_month = m, ymd_day = d\<rparr>"
  have t: "getJulianDayNumber (ymd_year t) (ymd_month t) (ymd_day t) = getJulianDayNumber y m d + 1"
    "valid_ymd (ymd_year t) (ymd_month t) (ymd_day t)" "- 4799 \<le> ymd_year t"
    using julian_next [OF assms(1,2)] by (simp_all add: Let_def t_def)
  have next_day: "yearMonthDay (Date_ymd y m d + 1) = t"
    using ymd_of_julian [OF t(2,3)] unfolding t(1) yearMonthDay_def Date_ymd_def by (cases t) (simp only: YearMonthDay.simps unit_eq)
  obtain b c e where "march_ok b c e" "march_julian b c e = j" using march_of_julian [OF assms(3)] .
  then show ?thesis
    using valid_of_march [of b c e] ymd_of_julian [OF assms(1,2)] next_day
    unfolding t_def by (simp only: Let_def yearMonthDay_def Date_ymd_def Date_year_def Date_month_def Date_day_def)
qed

theorem date_gregorian_witness:
  "yearMonthDay (Date_ymd 2000 2 29) = \<lparr>ymd_year = 2000, ymd_month = 2, ymd_day = 29\<rparr>
   \<and> yearMonthDay (Date_ymd 2000 2 29 + 1) = \<lparr>ymd_year = 2000, ymd_month = 3, ymd_day = 1\<rparr>
   \<and> Date_ymd (Date_year 2440588) (Date_month 2440588) (Date_day 2440588) = 2440588"
proof -
  have "valid_ymd 2000 2 29" by (simp add: valid_ymd_def month_days_def leap_year_def)
  moreover have "next_ymd \<lparr>ymd_year = 2000, ymd_month = 2, ymd_day = 29\<rparr> = \<lparr>ymd_year = 2000, ymd_month = 3, ymd_day = 1\<rparr>"
    by (simp add: next_ymd_def month_days_def leap_year_def)
  ultimately show ?thesis using date_gregorian [of 2000 2 29 2440588] by simp
qed

end
