(* ===== verification/Time_Zone.thy ===== *)
theory Time_Zone
  imports Calendar
begin

text \<open>
  \<^verbatim>\<open>TimeZone\<close> of \<^verbatim>\<open>base/TimeZone.h\<close> and \<^verbatim>\<open>base/TimeZone.cc\<close>, without the reading of a zone file, which is in
  the theory \<^verbatim>\<open>Zone_File\<close>. \<^verbatim>\<open>time_t\<close> is an integer. \<^verbatim>\<open>std::lower_bound\<close> is the binary search of the
  standard library; \<^verbatim>\<open>gmtime_r\<close> and \<^verbatim>\<open>timegm\<close> of the C library are arguments.
\<close>

section \<open>Data\<close>

record transition =
  gmttime :: int
  localtime :: int
  localtimeIdx :: int

definition Comp :: "bool \<Rightarrow> transition \<Rightarrow> transition \<Rightarrow> bool" where
  "Comp compareGmt lhs rhs = (if compareGmt then gmttime lhs < gmttime rhs else localtime lhs < localtime rhs)"

definition Comp_equal :: "bool \<Rightarrow> transition \<Rightarrow> transition \<Rightarrow> bool" where
  "Comp_equal compareGmt lhs rhs = (if compareGmt then gmttime lhs = gmttime rhs else localtime lhs = localtime rhs)"

record local_time =
  gmtOffset :: int
  isDst :: bool
  arrbIdx :: int

record tz_data =
  transitions :: "transition list"
  localtimes :: "local_time list"
  zone_names :: "string list"
  tz_abbreviation :: "byte list"

definition tz_empty :: tz_data where
  "tz_empty = \<lparr>transitions = [], localtimes = [], zone_names = [], tz_abbreviation = []\<rparr>"

record tm =
  tm_sec :: int
  tm_min :: int
  tm_hour :: int
  tm_mday :: int
  tm_mon :: int
  tm_year :: int
  tm_wday :: int
  tm_yday :: int
  tm_isdst :: bool
  tm_gmtoff :: int
  tm_zone :: "byte list"

definition tm_zero :: tm where
  "tm_zero = \<lparr>tm_sec = 0, tm_min = 0, tm_hour = 0, tm_mday = 0, tm_mon = 0, tm_year = 0, tm_wday = 0, tm_yday = 0,
     tm_isdst = False, tm_gmtoff = 0, tm_zone = []\<rparr>"

section \<open>UTC\<close>

definition kSecondsPerDay :: int where "kSecondsPerDay = 24 * 60 * 60"

text \<open>The argument is \<^verbatim>\<open>unsigned\<close>.\<close>

definition fillHMS :: "int \<Rightarrow> tm \<Rightarrow> tm" where
  "fillHMS seconds utc =
     (let minutes = seconds div 60
      in utc\<lparr>tm_sec := seconds mod 60, tm_min := minutes mod 60, tm_hour := minutes div 60\<rparr>)"

definition toUtcTime :: "int \<Rightarrow> bool \<Rightarrow> tm" where
  "toUtcTime secondsSinceEpoch yday =
     (let utc = tm_zero\<lparr>tm_zone := [71, 77, 84]\<rparr>;
          seconds = secondsSinceEpoch smod kSecondsPerDay;
          days = secondsSinceEpoch sdiv kSecondsPerDay;
          (seconds, days) = (if seconds < 0 then (seconds + kSecondsPerDay, days - 1) else (seconds, days));
          utc = fillHMS seconds utc;
          date = days + kJulianDayOf1970_01_01;
          ymd = yearMonthDay date;
          utc = utc\<lparr>tm_year := ymd_year ymd - 1900, tm_mon := ymd_month ymd - 1, tm_mday := ymd_day ymd, tm_wday := weekDay date\<rparr>
      in if yday then utc\<lparr>tm_yday := date - Date_ymd (ymd_year ymd) 1 1\<rparr> else utc)"

definition fromUtcTime :: "int \<Rightarrow> int \<Rightarrow> int \<Rightarrow> int \<Rightarrow> int \<Rightarrow> int \<Rightarrow> int" where
  "fromUtcTime year month day hour minute seconds =
     (let date = Date_ymd year month day;
          secondsInDay = hour * 3600 + minute * 60 + seconds;
          days = date - kJulianDayOf1970_01_01
      in days * kSecondsPerDay + secondsInDay)"

definition fromUtcTime_tm :: "tm \<Rightarrow> int" where
  "fromUtcTime_tm utc = fromUtcTime (tm_year utc + 1900) (tm_mon utc + 1) (tm_mday utc) (tm_hour utc) (tm_min utc) (tm_sec utc)"

section \<open>Local time\<close>

text \<open>\<^verbatim>\<open>std::lower_bound\<close> on the part of \<open>xs\<close> of length \<open>len\<close> from \<open>first\<close> on.\<close>

function lower_bound_loop :: "('a \<Rightarrow> 'a \<Rightarrow> bool) \<Rightarrow> 'a list \<Rightarrow> 'a \<Rightarrow> nat \<Rightarrow> nat \<Rightarrow> nat" where
  "lower_bound_loop lt xs v first len =
     (if 0 < len
      then let half = len div 2; middle = first + half
           in if lt (xs ! middle) v then lower_bound_loop lt xs v (middle + 1) (len - half - 1)
              else lower_bound_loop lt xs v first half
      else first)"
  by pat_completeness auto

termination by (relation "measure (\<lambda>(lt, xs, v, first, len). len)") auto

declare lower_bound_loop.simps [simp del]

definition lower_bound :: "('a \<Rightarrow> 'a \<Rightarrow> bool) \<Rightarrow> 'a list \<Rightarrow> 'a \<Rightarrow> nat" where
  "lower_bound lt xs v = lower_bound_loop lt xs v 0 (length xs)"

text \<open>\<^verbatim>\<open>data.localtimes[i]\<close> and \<^verbatim>\<open>front()\<close> of a vector, which have no value out of range.\<close>

definition local_at :: "tz_data \<Rightarrow> int \<Rightarrow> local_time res" where
  "local_at data i = (if 0 \<le> i \<and> nat i < length (localtimes data) then Inr (localtimes data ! nat i) else Inl OutOfBounds)"

definition findLocaltime :: "tz_data \<Rightarrow> transition \<Rightarrow> bool \<Rightarrow> local_time res" where
  "findLocaltime data sentry gmt =
     (if transitions data = [] \<or> Comp gmt sentry (hd (transitions data)) then local_at data 0
      else let transI = lower_bound (Comp gmt) (transitions data) sentry
           in if transI \<noteq> length (transitions data)
              then if \<not> Comp_equal gmt sentry (transitions data ! transI)
                   then cassert (transI \<noteq> 0) (local_at data (localtimeIdx (transitions data ! (transI - 1))))
                   else local_at data (localtimeIdx (transitions data ! transI))
              else local_at data (localtimeIdx (last (transitions data))))"

definition toLocalTime :: "(int \<Rightarrow> tm) \<Rightarrow> tz_data option \<Rightarrow> int \<Rightarrow> tm res" where
  "toLocalTime gmtime_r tzd seconds =
     (case tzd of
        None \<Rightarrow> Inl AssertFailed
      | Some data \<Rightarrow>
          bindE (findLocaltime data \<lparr>gmttime = seconds, localtime = 0, localtimeIdx = 0\<rparr> True) (\<lambda>local.
            let localSeconds = seconds + gmtOffset local
            in Inr ((gmtime_r localSeconds)\<lparr>tm_isdst := isDst local, tm_gmtoff := gmtOffset local,
                     tm_zone := drop (nat (arrbIdx local)) (tz_abbreviation data)\<rparr>)))"

definition fromLocalTime :: "(int \<Rightarrow> tm) \<Rightarrow> (tm \<Rightarrow> int) \<Rightarrow> tz_data option \<Rightarrow> tm \<Rightarrow> int res" where
  "fromLocalTime gmtime_r timegm tzd localTm =
     (case tzd of
        None \<Rightarrow> Inl AssertFailed
      | Some data \<Rightarrow>
          let seconds = timegm localTm
          in bindE (findLocaltime data \<lparr>gmttime = 0, localtime = seconds, localtimeIdx = 0\<rparr> False) (\<lambda>local.
            if tm_isdst localTm
            then bindE (toLocalTime gmtime_r tzd (seconds - gmtOffset local)) (\<lambda>tryTm.
              let seconds = (if \<not> tm_isdst tryTm \<and> tm_hour tryTm = tm_hour localTm \<and> tm_min tryTm = tm_min localTm
                             then seconds - 3600 else seconds)
              in Inr (seconds - gmtOffset local))
            else Inr (seconds - gmtOffset local)))"

section \<open>Binary search\<close>

text \<open>On a list that is ordered with respect to the value, the loop finds the first position that is not less.\<close>

lemma lower_bound_loop_first:
  assumes "first \<le> k" and "k \<le> first + len" and "\<And>i. first \<le> i \<Longrightarrow> i < k \<Longrightarrow> lt (xs ! i) v"
    and "\<And>i. k \<le> i \<Longrightarrow> i < first + len \<Longrightarrow> \<not> lt (xs ! i) v"
  shows "lower_bound_loop lt xs v first len = k"
  using assms
proof (induction lt xs v first len rule: lower_bound_loop.induct)
  case (1 lt xs v first len)
  show ?case
  proof (cases "len = 0")
    case True
    then show ?thesis using 1(3,4) by (simp add: lower_bound_loop.simps)
  next
    case False
    define half where "half = len div 2"
    have half: "half < len" using False by (simp add: half_def)
    show ?thesis
    proof (cases "lt (xs ! (first + half)) v")
      case True
      then have "first + half < k" using 1(6) [of "first + half"] half by (meson add_strict_left_mono not_le)
      then have "lower_bound_loop lt xs v (first + half + 1) (len - half - 1) = k"
        using False True half 1(3-6) by (intro 1(1)) (auto simp: half_def)
      then show ?thesis using False True by (subst lower_bound_loop.simps) (simp add: half_def Let_def)
    next
      case nlt: False
      then have "k \<le> first + half" using 1(5) [of "first + half"] by (meson le_add1 not_le)
      then have "lower_bound_loop lt xs v first half = k"
        using False nlt half 1(3-6) by (intro 1(2)) (auto simp: half_def)
      then show ?thesis using False nlt by (subst lower_bound_loop.simps) (simp add: half_def Let_def)
    qed
  qed
qed

text \<open>The time a transition has in the order that \<^verbatim>\<open>Comp\<close> uses.\<close>

definition trans_key :: "bool \<Rightarrow> transition \<Rightarrow> int" where
  "trans_key gmt t = (if gmt then gmttime t else localtime t)"

lemma Comp_key: "Comp gmt l r \<longleftrightarrow> trans_key gmt l < trans_key gmt r" "Comp_equal gmt l r \<longleftrightarrow> trans_key gmt l = trans_key gmt r"
  by (simp_all add: Comp_def Comp_equal_def trans_key_def)

lemma lower_bound_sorted:
  assumes "sorted (map (trans_key gmt) ts)"
  shows "lower_bound (Comp gmt) ts v = length (takeWhile (\<lambda>t. trans_key gmt t < trans_key gmt v) ts)"
  unfolding lower_bound_def
proof (rule lower_bound_loop_first)
  let ?k = "length (takeWhile (\<lambda>t. trans_key gmt t < trans_key gmt v) ts)"
  show "Comp gmt (ts ! i) v" if "i < ?k" for i
    using that by (metis (mono_tags, lifting) Comp_key(1) nth_mem set_takeWhileD takeWhile_nth)
  show "\<not> Comp gmt (ts ! i) v" if "?k \<le> i" "i < 0 + length ts" for i
  proof -
    have "\<not> trans_key gmt (ts ! ?k) < trans_key gmt v" using that by (intro nth_length_takeWhile) simp
    moreover have "trans_key gmt (ts ! ?k) \<le> trans_key gmt (ts ! i)"
      using sorted_nth_mono [OF assms, of ?k i] that by simp
    ultimately show ?thesis by (simp add: Comp_key)
  qed
qed (simp_all add: length_takeWhile_le)

section \<open>Properties\<close>

text \<open>The transitions that have happened at a time, in an order without repetitions.\<close>

lemma takeWhile_le_strict:
  fixes f :: "'a \<Rightarrow> int"
  assumes "sorted_wrt (<) (map f xs)"
  shows "takeWhile (\<lambda>x. f x \<le> v) xs =
    (let k = length (takeWhile (\<lambda>x. f x < v) xs) in take (if k < length xs \<and> f (xs ! k) = v then k + 1 else k) xs)"
  using assms
proof (induction xs)
  case (Cons x xs)
  have none: "takeWhile (\<lambda>y. f y \<le> v) xs = []" if "f x = v"
    using Cons.prems that by (cases xs) auto
  then show ?case using Cons by (auto simp: Let_def)
qed simp

text \<open>
  C28. The zone that applies at a time (\<^verbatim>\<open>findLocaltime\<close> with \<^verbatim>\<open>std::lower_bound\<close>), by UTC or by local time: when the
  transitions are in increasing order and refer to zones of the table, it is the zone of the
  last transition that is not later than the time, and the first zone of the table when there is none. The
  assertion holds and no index is out of range.
\<close>

theorem findLocaltime_zone:
  assumes "sorted_wrt (<) (map (trans_key gmt) (transitions data))" and "localtimes data \<noteq> []"
    and "\<forall>t \<in> set (transitions data). 0 \<le> localtimeIdx t \<and> nat (localtimeIdx t) < length (localtimes data)"
  shows "findLocaltime data v gmt =
    (let past = takeWhile (\<lambda>t. trans_key gmt t \<le> trans_key gmt v) (transitions data)
     in Inr (localtimes data ! (if past = [] then 0 else nat (localtimeIdx (last past)))))"
proof -
  let ?ts = "transitions data"
  let ?k = "length (takeWhile (\<lambda>t. trans_key gmt t < trans_key gmt v) ?ts)"
  let ?past = "takeWhile (\<lambda>t. trans_key gmt t \<le> trans_key gmt v) ?ts"
  have at: "local_at data (localtimeIdx t) = Inr (localtimes data ! nat (localtimeIdx t))" if "t \<in> set ?ts" for t
    using assms(3) that by (simp add: local_at_def)
  show ?thesis
  proof (cases "?ts = [] \<or> Comp gmt v (hd ?ts)")
    case True
    then have "?past = []" by (cases ?ts) (auto simp: Comp_key)
    with True assms(2) show ?thesis by (simp add: findLocaltime_def local_at_def)
  next
    case False
    then obtain t0 ts where ts: "?ts = t0 # ts" "trans_key gmt t0 \<le> trans_key gmt v" by (cases ?ts) (auto simp: Comp_key)
    have "sorted (map (trans_key gmt) ?ts)" using assms(1) by (rule strict_sorted_imp_sorted)
    note lb = lower_bound_sorted [OF this, of v]
    have past: "?past = take (if ?k < length ?ts \<and> trans_key gmt (?ts ! ?k) = trans_key gmt v then ?k + 1 else ?k) ?ts"
      using takeWhile_le_strict [OF assms(1)] by (simp add: Let_def)
    have ne: "?past \<noteq> []" using ts by simp
    have kle: "?k \<le> length ?ts" by (rule length_takeWhile_le)
    have "findLocaltime data v gmt = local_at data (localtimeIdx (last ?past))"
    proof (cases "?k < length ?ts \<and> trans_key gmt (?ts ! ?k) = trans_key gmt v")
      case True
      then have "last ?past = ?ts ! ?k" unfolding past by (simp add: take_Suc_conv_app_nth)
      then show ?thesis using True False lb by (simp add: findLocaltime_def Comp_key)
    next
      case neq: False
      then have "?past = take ?k ?ts" using past unfolding if_not_P [OF neq] by blast
      then have k: "?k \<noteq> 0" "last ?past = ?ts ! (?k - 1)" using ne kle by (auto simp: last_conv_nth)
      show ?thesis
      proof (cases "?k = length ?ts")
        case True
        then show ?thesis using False lb k by (simp add: findLocaltime_def last_conv_nth)
      next
        case lt: False
        then have "\<not> Comp_equal gmt v (?ts ! ?k)" using neq kle by (auto simp: Comp_key)
        then show ?thesis using False lb k lt by (simp add: findLocaltime_def)
      qed
    qed
    moreover have "last ?past \<in> set ?ts" using ne last_in_set set_takeWhileD by fastforce
    ultimately show ?thesis using ne at by (simp add: Let_def)
  qed
qed

definition tz_demo :: tz_data where
  "tz_demo = \<lparr>transitions = [\<lparr>gmttime = 100, localtime = 3700, localtimeIdx = 1\<rparr>, \<lparr>gmttime = 200, localtime = 200, localtimeIdx = 0\<rparr>],
     localtimes = [\<lparr>gmtOffset = 0, isDst = False, arrbIdx = 0\<rparr>, \<lparr>gmtOffset = 3600, isDst = True, arrbIdx = 4\<rparr>],
     zone_names = [], tz_abbreviation = []\<rparr>"

theorem findLocaltime_zone_witness:
  "findLocaltime tz_demo \<lparr>gmttime = 150, localtime = 0, localtimeIdx = 0\<rparr> True = Inr \<lparr>gmtOffset = 3600, isDst = True, arrbIdx = 4\<rparr>"
  using findLocaltime_zone [of True tz_demo "\<lparr>gmttime = 150, localtime = 0, localtimeIdx = 0\<rparr>"]
  by (simp add: tz_demo_def trans_key_def)

text \<open>The seconds and the days of a time, as the truncating operators and the correction give them.\<close>

lemma day_split:
  fixes s :: int
  shows "(let seconds = s smod kSecondsPerDay; days = s sdiv kSecondsPerDay
      in if seconds < 0 then (seconds + kSecondsPerDay, days - 1) else (seconds, days))
    = (s mod 86400, s div 86400)"
proof (cases "0 \<le> s")
  case True
  then show ?thesis by (simp add: kSecondsPerDay_def Let_def)
next
  case False
  define u where "u = - s"
  have u: "0 < u" "s = - u" using False by (simp_all add: u_def)
  have "s smod kSecondsPerDay = - (u mod 86400)" "s sdiv kSecondsPerDay = - (u div 86400)"
    using u by (simp_all add: signed_modulo_int_def signed_divide_int_def kSecondsPerDay_def)
  moreover have "s mod 86400 = (if u mod 86400 = 0 then 0 else 86400 - u mod 86400)"
    unfolding u(2) by (simp add: zmod_zminus1_eq_if)
  moreover have "s div 86400 = (if u mod 86400 = 0 then - (u div 86400) else - (u div 86400) - 1)"
    unfolding u(2) by (simp add: zdiv_zminus1_eq_if)
  moreover have "0 \<le> u mod 86400" by simp
  ultimately show ?thesis by (auto simp: Let_def kSecondsPerDay_def)
qed

lemma hms_sum: "0 \<le> r \<Longrightarrow> r div 60 div 60 * 3600 + r div 60 mod 60 * 60 + r mod 60 = (r :: int)"
  by presburger

lemma hms_join:
  fixes hh :: int
  assumes "0 \<le> hh" "hh < 24" "0 \<le> mm" "mm < 60" "0 \<le> ss" "ss < 60"
  shows "0 \<le> hh * 3600 + mm * 60 + ss \<and> hh * 3600 + mm * 60 + ss < 86400 \<and> (hh * 3600 + mm * 60 + ss) mod 60 = ss
    \<and> (hh * 3600 + mm * 60 + ss) div 60 mod 60 = mm \<and> (hh * 3600 + mm * 60 + ss) div 60 div 60 = hh"
proof -
  have "hh * 3600 + mm * 60 + ss = ss + (hh * 60 + mm) * 60" by simp
  then have d: "(hh * 3600 + mm * 60 + ss) div 60 = hh * 60 + mm" "(hh * 3600 + mm * 60 + ss) mod 60 = ss"
    using assms(5,6) by (simp_all only: div_mult_self1 mod_mult_self1 zero_neq_numeral [symmetric] not_False_eq_True) simp_all
  have "hh * 60 + mm = mm + hh * 60" by simp
  then have "(hh * 60 + mm) div 60 = hh" "(hh * 60 + mm) mod 60 = mm" using assms(3,4) by simp_all
  then show ?thesis using d assms by simp
qed

text \<open>What the conversion to UTC computes, without the truncating operators.\<close>

lemma toUtcTime_fields:
  assumes "t = toUtcTime s yday"
  shows "tm_sec t = s mod 86400 mod 60" "tm_min t = s mod 86400 div 60 mod 60" "tm_hour t = s mod 86400 div 60 div 60"
    "tm_year t + 1900 = Date_year (s div 86400 + kJulianDayOf1970_01_01)"
    "tm_mon t + 1 = Date_month (s div 86400 + kJulianDayOf1970_01_01)"
    "tm_mday t = Date_day (s div 86400 + kJulianDayOf1970_01_01)"
    "tm_wday t = weekDay (s div 86400 + kJulianDayOf1970_01_01)"
  using day_split [of s] unfolding assms toUtcTime_def fillHMS_def Date_year_def Date_month_def Date_day_def
  by (simp_all add: Let_def split: prod.split)

text \<open>
  UTC conversion (\<^verbatim>\<open>TimeZone::toUtcTime\<close>, \<^verbatim>\<open>fromUtcTime\<close>) for times before and after 1970, from day 0 of the
  Julian count on: the broken-down time of \<open>s\<close> has its fields in range and a valid date, and converts back to \<open>s\<close>; the
  day of the week is right (day 0 of the count is a Monday); and a valid date and time of day that are converted to seconds come back
  unchanged.
\<close>

theorem utc_roundtrip:
  assumes "- 2440588 * 86400 \<le> s" and "t = toUtcTime s yday"
    and "valid_ymd y m d" and "- 4713 \<le> y" and "0 \<le> hh" "hh < 24" and "0 \<le> mm" "mm < 60" and "0 \<le> ss" "ss < 60"
  shows "fromUtcTime_tm t = s
    \<and> 0 \<le> tm_sec t \<and> tm_sec t < 60 \<and> 0 \<le> tm_min t \<and> tm_min t < 60 \<and> 0 \<le> tm_hour t \<and> tm_hour t < 24
    \<and> valid_ymd (tm_year t + 1900) (tm_mon t + 1) (tm_mday t)
    \<and> tm_wday t = (s div 86400 + 4) mod 7
    \<and> (let u = toUtcTime (fromUtcTime y m d hh mm ss) yday
       in tm_year u + 1900 = y \<and> tm_mon u + 1 = m \<and> tm_mday u = d \<and> tm_hour u = hh \<and> tm_min u = mm \<and> tm_sec u = ss)"
proof -
  have epoch: "kJulianDayOf1970_01_01 = 2440588" by (simp add: kJulianDayOf1970_01_01_def getJulianDayNumber_def)
  define j where "j = s div 86400 + kJulianDayOf1970_01_01"
  have j: "0 \<le> j" using assms(1) by (simp add: j_def epoch)
  define r where "r = s mod 86400"
  have r: "0 \<le> r" "r < 86400" by (simp_all add: r_def)
  obtain b c e where "march_ok b c e" "march_julian b c e = j" using march_of_julian [OF j] .
  then have vd: "valid_ymd (Date_year j) (Date_month j) (Date_day j)" "Date_ymd (Date_year j) (Date_month j) (Date_day j) = j"
    using valid_of_march [of b c e] by (simp_all only: Let_def Date_year_def Date_month_def Date_day_def Date_ymd_def yearMonthDay_def)
  note f = toUtcTime_fields [OF assms(2), folded j_def r_def]
  have "fromUtcTime_tm t = (j - kJulianDayOf1970_01_01) * 86400 + (r div 60 div 60 * 3600 + r div 60 mod 60 * 60 + r mod 60)"
    unfolding fromUtcTime_tm_def fromUtcTime_def f vd(2) Let_def kSecondsPerDay_def by simp
  also have "\<dots> = s div 86400 * 86400 + s mod 86400" unfolding hms_sum [OF r(1)] by (simp add: j_def r_def)
  finally have same: "fromUtcTime_tm t = s" by simp
  have hms: "0 \<le> tm_sec t \<and> tm_sec t < 60" "0 \<le> tm_min t \<and> tm_min t < 60" "0 \<le> tm_hour t \<and> tm_hour t < 24"
    unfolding f using r by auto
  have wday: "tm_wday t = (s div 86400 + 4) mod 7"
    unfolding f weekDay_def kDaysPerWeek_def using j mod_mult_self1 [of "s div 86400 + 4" 348655 7]
    by (simp add: j_def epoch)
  define q where "q = hh * 3600 + mm * 60 + ss"
  have q: "0 \<le> q" "q < 86400" "q mod 60 = ss" "q div 60 mod 60 = mm" "q div 60 div 60 = hh" using hms_join [OF assms(5-10)] by (simp_all add: q_def)
  let ?s = "fromUtcTime y m d hh mm ss"
  have s2: "?s = q + (Date_ymd y m d - kJulianDayOf1970_01_01) * 86400"
    by (simp add: fromUtcTime_def Let_def kSecondsPerDay_def q_def)
  have s2': "?s mod 86400 = q" "?s div 86400 + kJulianDayOf1970_01_01 = Date_ymd y m d"
    unfolding s2 by (simp_all only: mod_mult_self1 div_mult_self1 zero_neq_numeral [symmetric] not_False_eq_True)
      (use q(1,2) in simp_all)
  have "yearMonthDay (Date_ymd y m d) = \<lparr>ymd_year = y, ymd_month = m, ymd_day = d\<rparr>"
    using ymd_of_julian [OF assms(3)] assms(4) by (simp add: yearMonthDay_def Date_ymd_def)
  then have "let u = toUtcTime ?s yday
       in tm_year u + 1900 = y \<and> tm_mon u + 1 = m \<and> tm_mday u = d \<and> tm_hour u = hh \<and> tm_min u = mm \<and> tm_sec u = ss"
    using toUtcTime_fields [OF refl, of ?s yday] q
    by (simp only: Let_def s2' Date_year_def Date_month_def Date_day_def YearMonthDay.simps simp_thms)
  then show ?thesis using same hms wday vd(1) f(4-6) by (simp only: simp_thms)
qed

theorem utc_roundtrip_witness:
  "fromUtcTime_tm (toUtcTime (- 1) False) = - 1 \<and> tm_wday (toUtcTime (- 1) False) = 3
   \<and> tm_mday (toUtcTime (fromUtcTime 2024 2 29 23 59 58) False) = 29"
proof -
  have "valid_ymd 2024 2 29" by (simp add: valid_ymd_def month_days_def leap_year_def)
  then show ?thesis using utc_roundtrip [of "- 1" _ False 2024 2 29 23 59 58, OF _ refl] by (simp add: Let_def)
qed

end
