(* ===== verification/Logging.thy ===== *)
theory Logging
  imports Log_Stream Time_Zone
begin

text \<open>
  \<^verbatim>\<open>Logger\<close> of \<^verbatim>\<open>base/Logging.h\<close> and \<^verbatim>\<open>base/Logging.cc\<close>, the \<^verbatim>\<open>LOG_\<close> macros, and the thread identifier that a line shows, from
  \<^verbatim>\<open>base/CurrentThread.h\<close> and \<^verbatim>\<open>base/Thread.cc\<close>. \<^verbatim>\<open>gmtime_r\<close>, \<^verbatim>\<open>gettid\<close>, \<^verbatim>\<open>strerror_r\<close> and \<^verbatim>\<open>getenv\<close> are arguments; the time is the
  value that \<^verbatim>\<open>Timestamp::now\<close> gave. What the output function is called with is kept in \<open>g_out\<close>.
\<close>

section \<open>Levels and source files\<close>

datatype LogLevel = TRACE | DEBUG | INFO | WARN | ERROR | FATAL

fun level_no :: "LogLevel \<Rightarrow> nat" where
  "level_no TRACE = 0"
| "level_no DEBUG = 1"
| "level_no INFO = 2"
| "level_no WARN = 3"
| "level_no ERROR = 4"
| "level_no FATAL = 5"

instantiation LogLevel :: linorder
begin

definition less_eq_LogLevel :: "LogLevel \<Rightarrow> LogLevel \<Rightarrow> bool" where "less_eq_LogLevel a b \<longleftrightarrow> level_no a \<le> level_no b"
definition less_LogLevel :: "LogLevel \<Rightarrow> LogLevel \<Rightarrow> bool" where "less_LogLevel a b \<longleftrightarrow> level_no a < level_no b"

instance
proof
  fix a b :: LogLevel
  show "a \<le> b \<Longrightarrow> b \<le> a \<Longrightarrow> a = b" by (cases a; cases b) (simp_all add: less_eq_LogLevel_def)
qed (auto simp: less_eq_LogLevel_def less_LogLevel_def)

end

definition initLogLevel :: "(string \<Rightarrow> bool) \<Rightarrow> LogLevel" where
  "initLogLevel getenv =
     (if getenv ''COBRA_LOG_TRACE'' then TRACE else if getenv ''COBRA_LOG_DEBUG'' then DEBUG else INFO)"

fun LogLevelName :: "LogLevel \<Rightarrow> string" where
  "LogLevelName TRACE = ''TRACE ''"
| "LogLevelName DEBUG = ''DEBUG ''"
| "LogLevelName INFO = ''INFO  ''"
| "LogLevelName WARN = ''WARN  ''"
| "LogLevelName ERROR = ''ERROR ''"
| "LogLevelName FATAL = ''FATAL ''"

text \<open>The place of the last \<open>c\<close>; a literal of type \<^verbatim>\<open>char[N]\<close> has \<open>N - 1\<close> characters and a zero.\<close>

definition strrchr :: "string \<Rightarrow> char \<Rightarrow> nat option" where
  "strrchr s c = (if c \<in> set s then Some (length s - 1 - length (takeWhile (\<lambda>d. d \<noteq> c) (rev s))) else None)"

record source_file =
  sf_data :: string
  sf_size :: int

definition SourceFile_array :: "string \<Rightarrow> source_file" where
  "SourceFile_array arr =
     (case strrchr arr CHR ''/'' of
        None \<Rightarrow> \<lparr>sf_data = arr, sf_size = int (length arr)\<rparr>
      | Some slash \<Rightarrow> \<lparr>sf_data = drop (slash + 1) arr, sf_size = int (length arr) - int (slash + 1)\<rparr>)"

definition SourceFile_cstr :: "string \<Rightarrow> source_file" where
  "SourceFile_cstr filename =
     (let d = (case strrchr filename CHR ''/'' of None \<Rightarrow> filename | Some slash \<Rightarrow> drop (slash + 1) filename)
      in \<lparr>sf_data = d, sf_size = int (length d)\<rparr>)"

definition ls_SourceFile :: "source_file \<Rightarrow> fixed_buffer \<Rightarrow> fixed_buffer res" where
  "ls_SourceFile v = fb_append (take (nat (sf_size v)) (sf_data v))"

text \<open>The helper class \<^verbatim>\<open>T\<close>, and putting it into a stream.\<close>

definition ls_T :: "string \<Rightarrow> nat \<Rightarrow> fixed_buffer \<Rightarrow> fixed_buffer res" where
  "ls_T str len b = cassert (length str = len) (fb_append (take len str) b)"

section \<open>The thread\<close>

record log_thread =
  t_lastSecond :: int
  t_time :: string
  t_cachedTid :: int
  t_tidString :: string

definition log_thread_new :: log_thread where
  "log_thread_new = \<lparr>t_lastSecond = 0, t_time = '''', t_cachedTid = 0, t_tidString = ''''\<rparr>"

definition cacheTid :: "int \<Rightarrow> log_thread \<Rightarrow> log_thread res" where
  "cacheTid gettid th =
     (if t_cachedTid th = 0
      then let str = pad_left 5 CHR '' '' (dec_int gettid) @ '' ''
           in cassert (length str = 6) (Inr (th\<lparr>t_cachedTid := gettid, t_tidString := str\<rparr>))
      else Inr th)"

definition tid :: "int \<Rightarrow> log_thread \<Rightarrow> log_thread res" where
  "tid gettid th = (if t_cachedTid th = 0 then cacheTid gettid th else Inr th)"

section \<open>Logger\<close>

record log_env =
  le_gmtime_r :: "int \<Rightarrow> tm"
  le_gettid :: int
  le_strerror :: "int \<Rightarrow> string"
  le_errno :: "32 word"
  le_now :: int

record log_globals =
  g_logLevel :: LogLevel
  g_out :: "string list"
  g_flushes :: nat

record logger =
  lg_stream :: fixed_buffer
  lg_level :: LogLevel
  lg_line :: "32 word"
  lg_basename :: source_file

definition setLogLevel :: "LogLevel \<Rightarrow> log_globals \<Rightarrow> log_globals" where
  "setLogLevel level g = g\<lparr>g_logLevel := level\<rparr>"

definition time_text :: "tm \<Rightarrow> string" where
  "time_text t =
     (let p2 = (\<lambda>v. pad_left 2 CHR ''0'' (dec_int v))
      in pad_left 4 CHR '' '' (dec_int (tm_year t + 1900)) @ p2 (tm_mon t + 1) @ p2 (tm_mday t) @ '' ''
           @ p2 (tm_hour t) @ '':'' @ p2 (tm_min t) @ '':'' @ p2 (tm_sec t))"

definition us_text :: "int \<Rightarrow> string" where "us_text us = ''.'' @ pad_left 6 CHR ''0'' (dec_int us) @ ''Z ''"

definition refresh_time :: "log_env \<Rightarrow> int \<Rightarrow> log_thread \<Rightarrow> log_thread res" where
  "refresh_time env seconds th =
     (if seconds \<noteq> t_lastSecond th
      then let str = time_text (le_gmtime_r env seconds)
           in cassert (length str = 17) (Inr (th\<lparr>t_lastSecond := seconds, t_time := take 31 str\<rparr>))
      else Inr th)"

definition formatTime :: "log_env \<Rightarrow> log_thread \<Rightarrow> fixed_buffer \<Rightarrow> (log_thread \<times> fixed_buffer) res" where
  "formatTime env th b =
     (let seconds = le_now env sdiv 1000000; microseconds = le_now env smod 1000000
      in bindE (refresh_time env seconds th) (\<lambda>th1.
         bindE (Fmt_new (us_text microseconds)) (\<lambda>us.
           cassert (fmt_length us = 9)
            (bindE (ls_T (t_time th1) 17 b) (\<lambda>b1.
             bindE (ls_T (take (fmt_length us) (fmt_buf us)) 9 b1) (\<lambda>b2. Inr (th1, b2)))))))"

definition ls_errno :: "log_env \<Rightarrow> 32 word \<Rightarrow> fixed_buffer \<Rightarrow> fixed_buffer res" where
  "ls_errno env savedErrno b =
     (if savedErrno \<noteq> 0
      then bindE (ls_cstr (le_strerror env (sint savedErrno)) b) (\<lambda>b1.
           bindE (ls_cstr '' (errno='' b1) (\<lambda>b2. bindE (ls_int savedErrno b2) (ls_cstr '') '')))
      else Inr b)"

definition Impl_new :: "log_env \<Rightarrow> LogLevel \<Rightarrow> 32 word \<Rightarrow> source_file \<Rightarrow> 32 word \<Rightarrow> char list \<Rightarrow> log_thread \<Rightarrow> (logger \<times> log_thread) res" where
  "Impl_new env level savedErrno file line mem th =
     bindE (formatTime env th (FixedBuffer_new mem)) (\<lambda>(th1, b1).
     bindE (tid (le_gettid env) th1) (\<lambda>th2.
     bindE (ls_T (t_tidString th2) 6 b1) (\<lambda>b2.
     bindE (ls_T (LogLevelName level) 6 b2) (\<lambda>b3.
     bindE (ls_errno env savedErrno b3) (\<lambda>b4.
       Inr (\<lparr>lg_stream = b4, lg_level = level, lg_line = line, lg_basename = file\<rparr>, th2))))))"

definition finish :: "logger \<Rightarrow> logger res" where
  "finish lg =
     bindE (ls_cstr '' - '' (lg_stream lg)) (\<lambda>b1.
     bindE (ls_SourceFile (lg_basename lg) b1) (\<lambda>b2.
     bindE (ls_char CHR '':'' b2) (\<lambda>b3.
     bindE (ls_int (lg_line lg) b3) (\<lambda>b4.
     bindE (ls_char (CHR 0x0A) b4) (\<lambda>b5. Inr (lg\<lparr>lg_stream := b5\<rparr>))))))"

text \<open>The constructors: plain, with a level, with a level and the name of the function, and for system errors.\<close>

definition Logger_plain :: "log_env \<Rightarrow> source_file \<Rightarrow> 32 word \<Rightarrow> char list \<Rightarrow> log_thread \<Rightarrow> (logger \<times> log_thread) res" where
  "Logger_plain env file line = Impl_new env INFO 0 file line"

definition Logger_level :: "log_env \<Rightarrow> source_file \<Rightarrow> 32 word \<Rightarrow> LogLevel \<Rightarrow> char list \<Rightarrow> log_thread \<Rightarrow> (logger \<times> log_thread) res" where
  "Logger_level env file line level = Impl_new env level 0 file line"

definition Logger_func :: "log_env \<Rightarrow> source_file \<Rightarrow> 32 word \<Rightarrow> LogLevel \<Rightarrow> string \<Rightarrow> char list \<Rightarrow> log_thread \<Rightarrow> (logger \<times> log_thread) res" where
  "Logger_func env file line level func mem th =
     bindE (Impl_new env level 0 file line mem th) (\<lambda>(lg, th1).
     bindE (ls_cstr func (lg_stream lg)) (\<lambda>b1. bindE (ls_char CHR '' '' b1) (\<lambda>b2. Inr (lg\<lparr>lg_stream := b2\<rparr>, th1))))"

definition Logger_sys :: "log_env \<Rightarrow> source_file \<Rightarrow> 32 word \<Rightarrow> bool \<Rightarrow> char list \<Rightarrow> log_thread \<Rightarrow> (logger \<times> log_thread) res" where
  "Logger_sys env file line toAbort = Impl_new env (if toAbort then FATAL else ERROR) (le_errno env) file line"

text \<open>The destructor; the second component says that the program was aborted.\<close>

definition Logger_dtor :: "logger \<Rightarrow> log_globals \<Rightarrow> (log_globals \<times> bool) res" where
  "Logger_dtor lg g =
     bindE (finish lg) (\<lambda>lg1.
       let g1 = g\<lparr>g_out := g_out g @ [fb_asString (lg_stream lg1)]\<rparr>
       in if lg_level lg1 = FATAL then Inr (g1\<lparr>g_flushes := g_flushes g1 + 1\<rparr>, True) else Inr (g1, False))"

datatype log_macro = LOG_TRACE | LOG_DEBUG | LOG_INFO | LOG_WARN | LOG_ERROR | LOG_FATAL | LOG_SYSERR | LOG_SYSFATAL

fun log_enabled :: "log_macro \<Rightarrow> log_globals \<Rightarrow> bool" where
  "log_enabled LOG_TRACE g = (g_logLevel g \<le> TRACE)"
| "log_enabled LOG_DEBUG g = (g_logLevel g \<le> DEBUG)"
| "log_enabled LOG_INFO g = (g_logLevel g \<le> INFO)"
| "log_enabled _ g = True"

fun log_construct :: "log_macro \<Rightarrow> log_env \<Rightarrow> source_file \<Rightarrow> 32 word \<Rightarrow> string \<Rightarrow> char list \<Rightarrow> log_thread \<Rightarrow> (logger \<times> log_thread) res" where
  "log_construct LOG_TRACE env file line func = Logger_func env file line TRACE func"
| "log_construct LOG_DEBUG env file line func = Logger_func env file line DEBUG func"
| "log_construct LOG_INFO env file line func = Logger_plain env file line"
| "log_construct LOG_WARN env file line func = Logger_level env file line WARN"
| "log_construct LOG_ERROR env file line func = Logger_level env file line ERROR"
| "log_construct LOG_FATAL env file line func = Logger_level env file line FATAL"
| "log_construct LOG_SYSERR env file line func = Logger_sys env file line False"
| "log_construct LOG_SYSFATAL env file line func = Logger_sys env file line True"

text \<open>A statement \<^verbatim>\<open>LOG_X << item << ...;\<close>.\<close>

definition log_statement ::
  "log_macro \<Rightarrow> log_env \<Rightarrow> source_file \<Rightarrow> 32 word \<Rightarrow> string \<Rightarrow> char list \<Rightarrow> log_item list \<Rightarrow> log_thread \<times> log_globals \<Rightarrow> (log_thread \<times> log_globals \<times> bool) res" where
  "log_statement m env file line func mem items = (\<lambda>(th, g).
     if log_enabled m g
     then bindE (log_construct m env file line func mem th) (\<lambda>(lg, th1).
          bindE (foldE put items (lg_stream lg)) (\<lambda>b.
          bindE (Logger_dtor (lg\<lparr>lg_stream := b\<rparr>) g) (\<lambda>(g1, aborted). Inr (th1, g1, aborted))))
     else Inr (th, g, False))"

text \<open>\<^verbatim>\<open>CHECK_NOTNULL\<close>: a null pointer is logged at the fatal level; a pointer is given back.\<close>

definition CheckNotNull ::
  "log_env \<Rightarrow> source_file \<Rightarrow> 32 word \<Rightarrow> string \<Rightarrow> char list \<Rightarrow> 'p option \<Rightarrow> log_thread \<times> log_globals
     \<Rightarrow> ('p option \<times> log_thread \<times> log_globals \<times> bool) res" where
  "CheckNotNull env file line names mem ptr = (\<lambda>(th, g).
     if ptr = None
     then bindE (Logger_level env file line FATAL mem th) (\<lambda>(lg, th1).
          bindE (ls_cstr names (lg_stream lg)) (\<lambda>b.
          bindE (Logger_dtor (lg\<lparr>lg_stream := b\<rparr>) g) (\<lambda>(g1, aborted). Inr (ptr, th1, g1, aborted))))
     else Inr (ptr, th, g, False))"

lemma CheckNotNull_null:
  "CheckNotNull env file line names mem None st
     = bindE (log_statement LOG_FATAL env file line func mem [LCStr names] st) (\<lambda>(th, g, aborted). Inr (None, th, g, aborted))"
  by (cases st) (simp add: CheckNotNull_def log_statement_def bindE_assoc split_beta, simp add: bindE_def split_beta split: sum.splits)

lemma CheckNotNull_some: "CheckNotNull env file line names mem (Some p) (th, g) = Inr (Some p, th, g, False)"
  by (simp add: CheckNotNull_def)

section \<open>Texts that fit\<close>

text \<open>\<open>writes f s\<close>: in a buffer with room for it, \<open>f\<close> puts exactly \<open>s\<close> behind what is there.\<close>

definition writes :: "(fixed_buffer \<Rightarrow> fixed_buffer res) \<Rightarrow> string \<Rightarrow> bool" where
  "writes f s \<longleftrightarrow> (\<forall>b. fb_ok b \<longrightarrow> fb_length b + length s + 32 \<le> length (fb_data b) \<longrightarrow> (\<exists>b'. f b = Inr b' \<and> grows b s b'))"

lemma writesD: "writes f s \<Longrightarrow> fb_ok b \<Longrightarrow> fb_length b + length s + 32 \<le> length (fb_data b) \<Longrightarrow> \<exists>b'. f b = Inr b' \<and> grows b s b'"
  by (simp add: writes_def)

lemma writes_takes: "(\<And>b. fb_ok b \<Longrightarrow> takes f s b) \<Longrightarrow> writes f s"
  by (fastforce simp: writes_def takes_def fb_avail_def fb_length_def)

lemma grows_trans: "grows b s b' \<Longrightarrow> grows b' t b'' \<Longrightarrow> grows b (s @ t) b''"
  by (simp add: grows_def)

lemma writes_seq:
  assumes "writes f s" and "writes g t"
  shows "writes (\<lambda>b. bindE (f b) g) (s @ t)"
  unfolding writes_def
proof (intro allI impI)
  fix b assume b: "fb_ok b" "fb_length b + length (s @ t) + 32 \<le> length (fb_data b)"
  then obtain b1 where b1: "f b = Inr b1" "grows b s b1" using writesD [OF assms(1)] by fastforce
  then have "fb_ok b1" "fb_length b1 + length t + 32 \<le> length (fb_data b1)" using b(2) by (auto simp: grows_def)
  then obtain b2 where "g b1 = Inr b2" "grows b1 t b2" using writesD [OF assms(2)] by blast
  then show "\<exists>b'. bindE (f b) g = Inr b' \<and> grows b (s @ t) b'" using b1 grows_trans by auto
qed

lemma writes_nothing: "writes Inr []"
  by (auto simp: writes_def grows_def fb_ok_def)

lemma writes_append: "writes (fb_append s) s"
  by (rule writes_takes) (rule fb_append_takes)

lemma writes_put: "writes (put x) (render x)"
  by (rule writes_takes) (rule put_takes)

lemma writes_items: "writes (foldE put items) (concat (map render items))"
proof (induction items)
  case Nil
  have "foldE put [] = Inr" by (rule ext) simp
  then show ?case using writes_nothing by simp
next
  case (Cons x items)
  have "foldE put (x # items) = (\<lambda>b. bindE (put x b) (foldE put items))" by (rule ext) simp
  then show ?case using writes_seq [OF writes_put [of x] Cons.IH] by simp
qed

lemma writes_T: "length str = n \<Longrightarrow> writes (ls_T str n) str"
  using writes_append [of str] by (simp add: ls_T_def [abs_def])

lemma writes_cstr: "CHR 0x00 \<notin> set s \<Longrightarrow> writes (ls_cstr s) s"
proof -
  assume "CHR 0x00 \<notin> set s"
  then have eq: "takeWhile (\<lambda>c. c \<noteq> CHR 0x00) s = s" by (subst takeWhile_eq_all_conv) auto
  show ?thesis unfolding ls_cstr_def eq by (rule writes_append)
qed

lemma writes_char: "writes (ls_char c) [c]"
  using writes_append [of "[c]"] by (simp add: ls_char_def)

lemma writes_int: "writes (ls_int v) (dec_int (sint v))"
  using writes_put [of "LInt v"] by simp

section \<open>The parts of a line\<close>

definition basename_of :: "string \<Rightarrow> string" where "basename_of s = rev (takeWhile (\<lambda>c. c \<noteq> CHR ''/'') (rev s))"

lemma takeWhile_shorter: "c \<in> set xs \<Longrightarrow> length (takeWhile (\<lambda>d. d \<noteq> c) xs) < length xs"
  by (induction xs) auto

lemma strrchr_drop:
  assumes "strrchr s CHR ''/'' = Some i"
  shows "drop (i + 1) s = basename_of s \<and> i < length s"
proof -
  let ?t = "takeWhile (\<lambda>c. c \<noteq> CHR ''/'') (rev s)"
  have i: "CHR ''/'' \<in> set s" "i = length s - 1 - length ?t" using assms by (auto simp: strrchr_def split: if_splits)
  have lt: "length ?t < length s"
    using takeWhile_shorter [of "CHR ''/''" "rev s"] i(1) by simp
  then have "i + 1 = length s - length ?t" using i(2) by simp
  then have "drop (i + 1) s = rev (take (length ?t) (rev s))" by (simp only: take_rev rev_rev_ident)
  also have "\<dots> = basename_of s" by (simp add: basename_of_def takeWhile_eq_take [symmetric])
  finally show ?thesis using lt i(2) by simp
qed

lemma strrchr_none: "strrchr s CHR ''/'' = None \<Longrightarrow> basename_of s = s"
proof -
  assume "strrchr s CHR ''/'' = None"
  then have eq: "takeWhile (\<lambda>c. c \<noteq> CHR ''/'') (rev s) = rev s"
    by (subst takeWhile_eq_all_conv) (auto simp: strrchr_def split: if_splits)
  show ?thesis unfolding basename_of_def eq by simp
qed

text \<open>Both constructors give the part of the path behind the last slash.\<close>

lemma SourceFile_basename:
  "SourceFile_array s = \<lparr>sf_data = basename_of s, sf_size = int (length (basename_of s))\<rparr>"
  "SourceFile_cstr s = \<lparr>sf_data = basename_of s, sf_size = int (length (basename_of s))\<rparr>"
proof -
  have "int (length s) - int (i + 1) = int (length (basename_of s))" if "strrchr s CHR ''/'' = Some i" for i
    using strrchr_drop [OF that] by (metis Suc_eq_plus1 Suc_leI length_drop of_nat_diff)
  then show "SourceFile_array s = \<lparr>sf_data = basename_of s, sf_size = int (length (basename_of s))\<rparr>"
    "SourceFile_cstr s = \<lparr>sf_data = basename_of s, sf_size = int (length (basename_of s))\<rparr>"
    using strrchr_drop [of s] strrchr_none [of s]
    by (auto simp: SourceFile_array_def SourceFile_cstr_def Let_def split: option.splits)
qed

lemma writes_SourceFile: "writes (ls_SourceFile (SourceFile_array s)) (basename_of s)"
  using writes_append [of "basename_of s"] by (simp add: ls_SourceFile_def SourceFile_basename)

lemma length_pad: "length (pad_left n c s) = max n (length s)"
  by (simp add: pad_left_def)

lemma dec_int_digits:
  assumes "0 \<le> v" and "v < 10 ^ k" and "0 < k"
  shows "length (dec_int v) \<le> k"
  using dec_nat_length [of "nat v" k] assms by (simp add: dec_int_def nat_less_iff)


definition tm_ok :: "tm \<Rightarrow> bool" where
  "tm_ok t \<longleftrightarrow> 0 \<le> tm_year t + 1900 \<and> tm_year t + 1900 < 10000 \<and> 0 \<le> tm_mon t \<and> tm_mon t < 12 \<and> 0 \<le> tm_mday t \<and> tm_mday t < 32
     \<and> 0 \<le> tm_hour t \<and> tm_hour t < 24 \<and> 0 \<le> tm_min t \<and> tm_min t < 60 \<and> 0 \<le> tm_sec t \<and> tm_sec t < 61"

lemma two_digits: "0 \<le> v \<Longrightarrow> v < 100 \<Longrightarrow> max 2 (length (dec_int v)) = 2"
  using dec_int_digits [of v 2] by simp

lemma time_text_length: "tm_ok t \<Longrightarrow> length (time_text t) = 17"
  using dec_int_digits [of "tm_year t + 1900" 4] by (simp add: time_text_def tm_ok_def two_digits length_pad)

lemma us_text_length: "0 \<le> us \<Longrightarrow> us < 1000000 \<Longrightarrow> length (us_text us) = 9"
  using dec_int_digits [of us 6] by (simp add: us_text_def length_pad)

definition tid_text :: "int \<Rightarrow> string" where "tid_text v = pad_left 5 CHR '' '' (dec_int v) @ '' ''"

lemma tid_text_length: "0 < v \<Longrightarrow> v < 100000 \<Longrightarrow> length (tid_text v) = 6"
  using dec_int_digits [of v 5] by (simp add: tid_text_def length_pad)

lemma dec_nat_long: "10 ^ k \<le> n \<Longrightarrow> k < length (dec_nat n)"
proof (induction k arbitrary: n)
  case 0
  then show ?case by (subst dec_nat.simps) simp
next
  case (Suc k)
  then have "10 \<le> n" by (metis mult_le_mono2 one_le_numeral one_le_power mult.right_neutral order_trans power_Suc)
  moreover have "10 ^ k \<le> n div 10" using Suc.prems by (simp add: less_eq_div_iff_mult_less_eq mult.commute)
  ultimately show ?case using Suc.IH [of "n div 10"] by (subst dec_nat.simps) simp
qed

lemma tid_text_long: "100000 \<le> v \<Longrightarrow> length (tid_text v) \<noteq> 6"
  using dec_nat_long [of 5 "nat v"] by (simp add: tid_text_def length_pad dec_int_def le_nat_iff)

text \<open>What a thread has cached is right.\<close>

definition log_thread_ok :: "log_env \<Rightarrow> log_thread \<Rightarrow> bool" where
  "log_thread_ok env th \<longleftrightarrow>
     (t_lastSecond th = 0 \<or> t_time th = time_text (le_gmtime_r env (t_lastSecond th)))
     \<and> (t_cachedTid th = 0 \<or> t_cachedTid th = le_gettid env \<and> t_tidString th = tid_text (le_gettid env))"

definition clock_ok :: "log_env \<Rightarrow> bool" where
  "clock_ok env \<longleftrightarrow> 1000000 \<le> le_now env \<and> tm_ok (le_gmtime_r env (le_now env div 1000000))"

definition log_env_ok :: "log_env \<Rightarrow> bool" where
  "log_env_ok env \<longleftrightarrow> clock_ok env \<and> 0 < le_gettid env \<and> le_gettid env < 100000 \<and> (\<forall>e. CHR 0x00 \<notin> set (le_strerror env e))"

definition now_text :: "log_env \<Rightarrow> string" where
  "now_text env = time_text (le_gmtime_r env (le_now env div 1000000)) @ us_text (le_now env mod 1000000)"

definition errno_text :: "log_env \<Rightarrow> 32 word \<Rightarrow> string" where
  "errno_text env e = (if e = 0 then '''' else le_strerror env (sint e) @ '' (errno='' @ dec_int (sint e) @ '') '')"

definition head_text :: "log_env \<Rightarrow> LogLevel \<Rightarrow> 32 word \<Rightarrow> string" where
  "head_text env level e = now_text env @ tid_text (le_gettid env) @ LogLevelName level @ errno_text env e"

lemma refresh_time_ok:
  assumes "clock_ok env" and "log_thread_ok env th"
  shows "\<exists>th'. refresh_time env (le_now env div 1000000) th = Inr th' \<and> log_thread_ok env th'
    \<and> t_time th' = time_text (le_gmtime_r env (le_now env div 1000000)) \<and> t_cachedTid th' = t_cachedTid th"
proof -
  have "le_now env div 1000000 \<noteq> 0" using assms(1) by (auto simp: clock_ok_def)
  moreover have "length (time_text (le_gmtime_r env (le_now env div 1000000))) = 17"
    using assms(1) by (simp add: clock_ok_def time_text_length)
  ultimately show ?thesis using assms(2) by (auto simp: refresh_time_def log_thread_ok_def Let_def)
qed

lemma tid_ok:
  assumes "log_env_ok env" and "log_thread_ok env th"
  shows "\<exists>th'. tid (le_gettid env) th = Inr th' \<and> log_thread_ok env th' \<and> t_tidString th' = tid_text (le_gettid env)"
  using assms tid_text_length [of "le_gettid env"]
  by (auto simp: tid_def cacheTid_def log_thread_ok_def log_env_ok_def tid_text_def Let_def)

lemma writes_errno: "log_env_ok env \<Longrightarrow> writes (ls_errno env e) (errno_text env e)"
proof (cases "e = 0")
  case True
  then show ?thesis using writes_nothing by (simp add: ls_errno_def [abs_def] errno_text_def)
next
  case False
  assume "log_env_ok env"
  then have "writes (ls_cstr (le_strerror env (sint e))) (le_strerror env (sint e))" by (simp add: writes_cstr log_env_ok_def)
  from writes_seq [OF this writes_seq [OF writes_cstr [of "'' (errno=''"] writes_seq [OF writes_int [of e] writes_cstr [of "'') ''"]]]]
  show ?thesis using False by (simp add: ls_errno_def [abs_def] errno_text_def)
qed

lemma new_stream:
  assumes "length mem = kSmallBuffer"
  shows "fb_ok (FixedBuffer_new mem)" "fb_length (FixedBuffer_new mem) = 0" "length (fb_data (FixedBuffer_new mem)) = kSmallBuffer"
    "fb_asString (FixedBuffer_new mem) = ''''"
  using assms by (simp_all add: fb_ok_def FixedBuffer_new_def fb_length_def fb_asString_def kSmallBuffer_def)

lemma formatTime_text:
  assumes env: "clock_ok env" and th: "log_thread_ok env th" and mem: "length mem = kSmallBuffer"
  shows "\<exists>b th'. formatTime env th (FixedBuffer_new mem) = Inr (th', b) \<and> log_thread_ok env th' \<and> t_cachedTid th' = t_cachedTid th
    \<and> grows (FixedBuffer_new mem) (now_text env) b"
proof -
  let ?sec = "le_now env div 1000000" and ?us = "us_text (le_now env mod 1000000)" and ?t = "time_text (le_gmtime_r env (le_now env div 1000000))"
  have now: "le_now env sdiv 1000000 = ?sec" "le_now env smod 1000000 = le_now env mod 1000000" using env by (simp_all add: clock_ok_def)
  have us: "length ?us = 9" by (rule us_text_length) simp_all
  have t: "length ?t = 17" using env by (simp add: clock_ok_def time_text_length)
  obtain th1 where th1: "refresh_time env ?sec th = Inr th1" "log_thread_ok env th1" "t_time th1 = ?t" "t_cachedTid th1 = t_cachedTid th"
    using refresh_time_ok [OF env th] by blast
  have w: "writes (\<lambda>b. bindE (ls_T ?t 17 b) (ls_T ?us 9)) (now_text env)"
    using writes_seq [OF writes_T [OF t] writes_T [OF us]] by (simp add: now_text_def)
  have "length (now_text env) = 26" using us t by (simp add: now_text_def)
  then obtain b where b: "bindE (ls_T ?t 17 (FixedBuffer_new mem)) (ls_T ?us 9) = Inr b" "grows (FixedBuffer_new mem) (now_text env) b"
    using writesD [OF w new_stream(1) [OF mem]] new_stream [OF mem] by (auto simp: kSmallBuffer_def)
  have "formatTime env th (FixedBuffer_new mem) = bindE (bindE (ls_T ?t 17 (FixedBuffer_new mem)) (ls_T ?us 9)) (\<lambda>b. Inr (th1, b))"
    by (simp add: formatTime_def now th1(1,3) Fmt_new_def us bindE_assoc Let_def)
  then show ?thesis using b th1 by auto
qed

lemma Impl_new_text:
  assumes env: "log_env_ok env" and th: "log_thread_ok env th" and mem: "length mem = kSmallBuffer"
    and fits: "length (head_text env level e) + 32 \<le> kSmallBuffer"
  shows "\<exists>b th'. Impl_new env level e file line mem th
      = Inr (\<lparr>lg_stream = b, lg_level = level, lg_line = line, lg_basename = file\<rparr>, th')
    \<and> log_thread_ok env th' \<and> grows (FixedBuffer_new mem) (head_text env level e) b"
proof -
  obtain th1 b1 where th1: "formatTime env th (FixedBuffer_new mem) = Inr (th1, b1)" "log_thread_ok env th1"
    "grows (FixedBuffer_new mem) (now_text env) b1"
    using formatTime_text [of env th mem] env th mem by (auto simp: log_env_ok_def)
  obtain th2 where th2: "tid (le_gettid env) th1 = Inr th2" "log_thread_ok env th2" "t_tidString th2 = tid_text (le_gettid env)"
    using tid_ok [OF env th1(2)] by blast
  have tt: "length (tid_text (le_gettid env)) = 6" using env by (simp add: log_env_ok_def tid_text_length)
  have ll: "length (LogLevelName level) = 6" by (cases level) simp_all
  let ?w = "\<lambda>b. bindE (ls_T (tid_text (le_gettid env)) 6 b) (\<lambda>b. bindE (ls_T (LogLevelName level) 6 b) (ls_errno env e))"
  let ?s = "tid_text (le_gettid env) @ LogLevelName level @ errno_text env e"
  have "writes ?w ?s" by (rule writes_seq [OF writes_T [OF tt] writes_seq [OF writes_T [OF ll] writes_errno [OF env]]])
  moreover have "fb_ok b1" "fb_length b1 + length ?s + 32 \<le> length (fb_data b1)"
    using th1(3) fits new_stream [OF mem] by (simp_all add: grows_def head_text_def)
  ultimately obtain b where b: "?w b1 = Inr b" "grows b1 ?s b" using writesD by blast
  have "Impl_new env level e file line mem th = bindE (?w b1)
      (\<lambda>b. Inr (\<lparr>lg_stream = b, lg_level = level, lg_line = line, lg_basename = file\<rparr>, th2))"
    by (simp add: Impl_new_def th1(1) th2(1,3) bindE_assoc)
  then show ?thesis using b th2(2) grows_trans [OF th1(3) b(2)] by (auto simp: head_text_def)
qed

section \<open>A whole line\<close>

fun level_of :: "log_macro \<Rightarrow> LogLevel" where
  "level_of LOG_TRACE = TRACE"
| "level_of LOG_DEBUG = DEBUG"
| "level_of LOG_INFO = INFO"
| "level_of LOG_WARN = WARN"
| "level_of LOG_ERROR = ERROR"
| "level_of LOG_FATAL = FATAL"
| "level_of LOG_SYSERR = ERROR"
| "level_of LOG_SYSFATAL = FATAL"

definition errno_of :: "log_macro \<Rightarrow> log_env \<Rightarrow> 32 word" where
  "errno_of m env = (if m \<in> {LOG_SYSERR, LOG_SYSFATAL} then le_errno env else 0)"

definition func_text :: "log_macro \<Rightarrow> string \<Rightarrow> string" where
  "func_text m func = (if m \<in> {LOG_TRACE, LOG_DEBUG} then func @ '' '' else '''')"

definition tail_text :: "string \<Rightarrow> 32 word \<Rightarrow> string" where
  "tail_text path line = '' - '' @ basename_of path @ '':'' @ dec_int (sint line) @ [CHR 0x0A]"

definition line_text :: "log_macro \<Rightarrow> log_env \<Rightarrow> string \<Rightarrow> 32 word \<Rightarrow> string \<Rightarrow> log_item list \<Rightarrow> string" where
  "line_text m env path line func items =
     head_text env (level_of m) (errno_of m env) @ func_text m func @ concat (map render items) @ tail_text path line"

lemma log_construct_Impl:
  "m \<notin> {LOG_TRACE, LOG_DEBUG} \<Longrightarrow>
     log_construct m env file line func mem th = Impl_new env (level_of m) (errno_of m env) file line mem th \<and> func_text m func = ''''"
  by (cases m) (simp_all add: Logger_plain_def Logger_level_def Logger_sys_def errno_of_def func_text_def)

lemma log_construct_text:
  assumes env: "log_env_ok env" and th: "log_thread_ok env th" and mem: "length mem = kSmallBuffer" and func: "CHR 0x00 \<notin> set func"
    and fits: "length (head_text env (level_of m) (errno_of m env) @ func_text m func) + 32 \<le> kSmallBuffer"
  shows "\<exists>b th'. log_construct m env file line func mem th
      = Inr (\<lparr>lg_stream = b, lg_level = level_of m, lg_line = line, lg_basename = file\<rparr>, th')
    \<and> log_thread_ok env th' \<and> grows (FixedBuffer_new mem) (head_text env (level_of m) (errno_of m env) @ func_text m func) b"
proof -
  obtain b1 th1 where 1: "Impl_new env (level_of m) (errno_of m env) file line mem th
      = Inr (\<lparr>lg_stream = b1, lg_level = level_of m, lg_line = line, lg_basename = file\<rparr>, th1)" "log_thread_ok env th1"
    "grows (FixedBuffer_new mem) (head_text env (level_of m) (errno_of m env)) b1"
    using Impl_new_text [OF env th mem, of "level_of m" "errno_of m env" "file" line] fits by auto
  show ?thesis
  proof (cases "m \<in> {LOG_TRACE, LOG_DEBUG}")
    case False
    then show ?thesis using 1 log_construct_Impl [OF False] by simp
  next
    case True
    have "writes (\<lambda>b. bindE (ls_cstr func b) (ls_char CHR '' '')) (func @ '' '')" by (rule writes_seq [OF writes_cstr [OF func] writes_char])
    moreover have "fb_ok b1" "fb_length b1 + length (func @ '' '') + 32 \<le> length (fb_data b1)"
      using 1(3) fits new_stream [OF mem] True by (auto simp: grows_def func_text_def)
    ultimately obtain b2 where b2: "bindE (ls_cstr func b1) (ls_char CHR '' '') = Inr b2" "grows b1 (func @ '' '') b2" using writesD by blast
    have "log_construct m env file line func mem th = Logger_func env file line (level_of m) func mem th" using True by auto
    then have "log_construct m env file line func mem th
        = bindE (bindE (ls_cstr func b1) (ls_char CHR '' '')) (\<lambda>b. Inr (\<lparr>lg_stream = b, lg_level = level_of m, lg_line = line, lg_basename = file\<rparr>, th1))"
      using True 1(1) by (auto simp: Logger_func_def errno_of_def bindE_assoc)
    then show ?thesis using 1(2) b2 grows_trans [OF 1(3) b2(2)] True by (auto simp: func_text_def)
  qed
qed

lemma Logger_dtor_text:
  assumes "fb_ok (lg_stream lg)" and "lg_basename lg = SourceFile_array path"
    and "fb_length (lg_stream lg) + length (tail_text path (lg_line lg)) + 32 \<le> length (fb_data (lg_stream lg))"
  shows "Logger_dtor lg g =
    Inr (g\<lparr>g_out := g_out g @ [fb_asString (lg_stream lg) @ tail_text path (lg_line lg)],
           g_flushes := g_flushes g + (if lg_level lg = FATAL then 1 else 0)\<rparr>, lg_level lg = FATAL)"
proof -
  let ?w = "\<lambda>b. bindE (ls_cstr '' - '' b) (\<lambda>b. bindE (ls_SourceFile (SourceFile_array path) b) (\<lambda>b. bindE (ls_char CHR '':'' b)
    (\<lambda>b. bindE (ls_int (lg_line lg) b) (ls_char (CHR 0x0A)))))"
  have "writes ?w (tail_text path (lg_line lg))"
    using writes_seq [OF writes_cstr [of "'' - ''"] writes_seq [OF writes_SourceFile [of path] writes_seq [OF writes_char [of "CHR '':''"]
          writes_seq [OF writes_int [of "lg_line lg"] writes_char [of "CHR 0x0A"]]]]]
    by (simp add: tail_text_def)
  then obtain b where b: "?w (lg_stream lg) = Inr b" "grows (lg_stream lg) (tail_text path (lg_line lg)) b" using writesD assms by blast
  have "finish lg = bindE (?w (lg_stream lg)) (\<lambda>b. Inr (lg\<lparr>lg_stream := b\<rparr>))" by (simp add: finish_def assms(2) bindE_assoc)
  then show ?thesis using b by (simp add: Logger_dtor_def grows_def)
qed

lemma log_statement_text:
  assumes env: "log_env_ok env" and th: "log_thread_ok env th" and mem: "length mem = kSmallBuffer" and func: "CHR 0x00 \<notin> set func"
    and fits: "length (line_text m env path line func items) + 32 \<le> kSmallBuffer" and on: "log_enabled m g"
  shows "\<exists>th'. log_thread_ok env th' \<and> log_statement m env (SourceFile_array path) line func mem items (th, g) =
    Inr (th', g\<lparr>g_out := g_out g @ [line_text m env path line func items],
                g_flushes := g_flushes g + (if level_of m = FATAL then 1 else 0)\<rparr>, level_of m = FATAL)"
proof -
  let ?h = "head_text env (level_of m) (errno_of m env) @ func_text m func" and ?body = "concat (map render items)"
  obtain b th' where 1: "log_construct m env (SourceFile_array path) line func mem th
      = Inr (\<lparr>lg_stream = b, lg_level = level_of m, lg_line = line, lg_basename = SourceFile_array path\<rparr>, th')"
    "log_thread_ok env th'" "grows (FixedBuffer_new mem) ?h b"
    using log_construct_text [OF env th mem func, of m "SourceFile_array path" line] fits by (auto simp: line_text_def)
  have "fb_ok b" "fb_length b + length ?body + 32 \<le> length (fb_data b)"
    using 1(3) fits new_stream [OF mem] by (auto simp: grows_def line_text_def)
  then obtain b2 where 2: "foldE put items b = Inr b2" "grows b ?body b2" using writesD [OF writes_items] by blast
  have g: "grows (FixedBuffer_new mem) (?h @ ?body) b2" by (rule grows_trans [OF 1(3) 2(2)])
  have "fb_ok b2" "fb_length b2 + length (tail_text path line) + 32 \<le> length (fb_data b2)" "fb_asString b2 = ?h @ ?body"
    using g fits new_stream [OF mem] by (auto simp: grows_def line_text_def)
  then show ?thesis
    using Logger_dtor_text [of "\<lparr>lg_stream = b2, lg_level = level_of m, lg_line = line, lg_basename = SourceFile_array path\<rparr>" path g]
      1(1,2) 2(1) on by (auto simp: log_statement_def line_text_def)
qed

section \<open>Properties\<close>

text \<open>
  A log statement (the \<^verbatim>\<open>LOG_\<close> macros, \<^verbatim>\<open>Logger\<close>, \<^verbatim>\<open>Impl\<close>): when the level is enabled and the line fits in the stream, the output function gets
  exactly one line, made of the UTC date and time with microseconds, the thread, the level, for system errors the text and number of the error, for the two lowest levels the
  name of the function, the values that were streamed, and the file name without its directories and the line number; every assertion about lengths holds. The
  date and the thread identifier that a thread has cached stay right for its next line. Fatal
  levels flush the output and abort, the others do not; a statement that is not enabled does nothing.
\<close>

theorem log_statement_line:
  assumes "log_env_ok env" and "log_thread_ok env th" and "length mem = kSmallBuffer" and "CHR 0x00 \<notin> set func"
    and "length (line_text m env path line func items) + 32 \<le> kSmallBuffer"
  shows "\<exists>th'. log_thread_ok env th' \<and> log_statement m env (SourceFile_array path) line func mem items (th, g) =
    Inr (if log_enabled m g
         then (th', g\<lparr>g_out := g_out g @ [line_text m env path line func items],
                      g_flushes := g_flushes g + (if level_of m = FATAL then 1 else 0)\<rparr>, level_of m = FATAL)
         else (th, g, False))"
proof (cases "log_enabled m g")
  case True
  then show ?thesis using log_statement_text [OF assms True] by simp
next
  case False
  then show ?thesis using assms(2) by (auto simp: log_statement_def)
qed

text \<open>
  Thread identifiers of six digits and more (\<^verbatim>\<open>CurrentThread::cacheTid\<close>), which a Linux system may give out: the assertion that the identifier is
  printed in five columns and a blank fails, so the first log statement of such a thread stops the program.
\<close>

theorem log_tid_assert:
  assumes "clock_ok env" and "log_thread_ok env th" and "length mem = kSmallBuffer" and "t_cachedTid th = 0" and "100000 \<le> le_gettid env"
    and "log_enabled m g"
  shows "tid (le_gettid env) th = Inl AssertFailed
    \<and> log_statement m env (SourceFile_array path) line func mem items (th, g) = Inl AssertFailed"
proof -
  have t: "tid (le_gettid env) th' = Inl AssertFailed" if "t_cachedTid th' = 0" for th'
    using that tid_text_long [OF assms(5)] by (simp add: tid_def cacheTid_def tid_text_def)
  obtain b th1 where 1: "formatTime env th (FixedBuffer_new mem) = Inr (th1, b)" "t_cachedTid th1 = 0"
    using formatTime_text [OF assms(1-3)] assms(4) by auto
  have impl: "Impl_new env level e f line mem th = Inl AssertFailed" for level e f
    using 1 t by (simp add: Impl_new_def)
  have "log_construct m env (SourceFile_array path) line func mem th = Inl AssertFailed"
    using impl by (cases m) (simp_all add: Logger_plain_def Logger_level_def Logger_sys_def Logger_func_def)
  then show ?thesis using t [OF assms(4)] assms(6) by (simp add: log_statement_def)
qed

section \<open>Examples\<close>

definition log_demo_day :: tm where
  "log_demo_day = \<lparr>tm_sec = 0, tm_min = 0, tm_hour = 0, tm_mday = 2, tm_mon = 0, tm_year = 70, tm_wday = 5, tm_yday = 1, tm_isdst = False,
     tm_gmtoff = 0, tm_zone = []\<rparr>"

definition log_demo_env :: "int \<Rightarrow> log_env" where
  "log_demo_env n = \<lparr>le_gmtime_r = \<lambda>_. log_demo_day, le_gettid = n, le_strerror = \<lambda>_. ''Interrupted'', le_errno = 4, le_now = 86400000007\<rparr>"

definition log_demo_globals :: log_globals where
  "log_demo_globals = \<lparr>g_logLevel = INFO, g_out = [], g_flushes = 0\<rparr>"

lemma log_demo_tm: "tm_ok log_demo_day"
  by (simp add: tm_ok_def log_demo_day_def)

lemma log_demo_clock: "clock_ok (log_demo_env n)"
  using log_demo_tm by (simp add: clock_ok_def log_demo_env_def)

lemma log_demo_thread: "log_thread_ok env log_thread_new"
  by (simp add: log_thread_ok_def log_thread_new_def)


lemma log_demo_length: "length (line_text LOG_INFO (log_demo_env 42) ''src/a.cc'' 7 ''f'' [LString ''hi'']) = 50"
proof -
  have "length (time_text log_demo_day) = 17" by (rule time_text_length [OF log_demo_tm])
  moreover have "length (us_text 7) = 9" "length (tid_text 42) = 6" by (simp_all add: us_text_length tid_text_length)
  moreover have "basename_of ''src/a.cc'' = ''a.cc''" by (simp add: basename_of_def)
  ultimately show ?thesis
    by (simp add: line_text_def head_text_def now_text_def errno_of_def errno_text_def func_text_def tail_text_def log_demo_env_def dec_int_def dec_nat.simps)
qed

theorem log_statement_line_witness:
  "\<exists>th'. log_statement LOG_INFO (log_demo_env 42) (SourceFile_array ''src/a.cc'') 7 ''f'' (replicate 4000 CHR 0x00) [LString ''hi''] (log_thread_new, log_demo_globals)
     = Inr (th', log_demo_globals\<lparr>g_out := [line_text LOG_INFO (log_demo_env 42) ''src/a.cc'' 7 ''f'' [LString ''hi'']]\<rparr>, False)"
proof -
  have "log_env_ok (log_demo_env 42)" using log_demo_clock [of 42] by (simp add: log_env_ok_def log_demo_env_def)
  moreover have "length (replicate 4000 CHR 0x00) = kSmallBuffer" by (simp only: kSmallBuffer_def length_replicate)
  moreover have "log_enabled LOG_INFO log_demo_globals" by (simp add: log_demo_globals_def)
  ultimately show ?thesis
    using log_statement_line [of "log_demo_env 42" log_thread_new "replicate 4000 CHR 0x00" "''f''" LOG_INFO "''src/a.cc''" 7 "[LString ''hi'']" log_demo_globals]
      log_demo_thread log_demo_length
    by (auto simp: kSmallBuffer_def log_demo_globals_def simp del: length_replicate)
qed

theorem log_tid_assert_witness:
  "tid 4194303 log_thread_new = Inl AssertFailed"
proof -
  have "length (replicate 4000 CHR 0x00) = kSmallBuffer" by (simp only: kSmallBuffer_def length_replicate)
  moreover have "log_enabled LOG_INFO log_demo_globals" by (simp add: log_demo_globals_def)
  ultimately show ?thesis
    using log_tid_assert [OF log_demo_clock [of 4194303] log_demo_thread, of "replicate 4000 CHR 0x00" LOG_INFO log_demo_globals]
    by (simp add: log_demo_env_def log_thread_new_def)
qed


end
