(* ===== verification/Timestamp_Text.thy ===== *)
theory Timestamp_Text
  imports Timestamp Logging
begin

text \<open>
  The rest of \<^verbatim>\<open>Timestamp\<close> (\<^verbatim>\<open>base/timestamp.h\<close>, \<^verbatim>\<open>base/timestamp.cpp\<close>): its constructors and comparisons, its two texts, and the difference of two
  timestamps as a \<^verbatim>\<open>double\<close>. \<^verbatim>\<open>gmtime_r\<close> is an argument. A quotient of doubles is rounded to 53 bits like the product in \<open>Timestamp\<close>:
  76 more bits of the quotient than it needs and one bit for a remainder decide the rounding.
\<close>

section \<open>Definitions\<close>

definition Timestamp_default :: int where
  "Timestamp_default = 0"

definition Timestamp_of :: "int \<Rightarrow> int" where
  "Timestamp_of microseconds = microseconds"

definition Timestamp_swap :: "int \<Rightarrow> int \<Rightarrow> int \<times> int" where
  "Timestamp_swap this that = (that, this)"

definition Timestamp_less :: "int \<Rightarrow> int \<Rightarrow> bool" where
  "Timestamp_less lhs rhs \<longleftrightarrow> lhs < rhs"

definition Timestamp_eq :: "int \<Rightarrow> int \<Rightarrow> bool" where
  "Timestamp_eq lhs rhs \<longleftrightarrow> lhs = rhs"

text \<open>\<^verbatim>\<open>printf\<close> with a width and zeros: they go between the sign and the digits.\<close>

definition zero_padded :: "nat \<Rightarrow> int \<Rightarrow> string" where
  "zero_padded n i =
     (if i < 0 then ''-'' @ pad_left (n - 1) CHR ''0'' (dec_nat (nat (- i))) else pad_left n CHR ''0'' (dec_nat (nat i)))"

definition Timestamp_toString :: "int \<Rightarrow> string" where
  "Timestamp_toString t =
     take 30 (dec_int (tdiv t kMicroSecondsPerSecond) @ ''.'' @ zero_padded 6 (tmod t kMicroSecondsPerSecond))"

definition toFormattedString :: "(int \<Rightarrow> tm) \<Rightarrow> int \<Rightarrow> string" where
  "toFormattedString gmtime_r t =
     (let seconds = tdiv t kMicroSecondsPerSecond; microseconds = tmod t kMicroSecondsPerSecond
      in take 31 (time_text (gmtime_r seconds) @ ''.'' @ zero_padded 6 microseconds))"

definition dbl_of_int :: "int \<Rightarrow> dbl" where
  "dbl_of_int i = dbl_mul (i, 0) (1, 0)"

definition dbl_div_int :: "dbl \<Rightarrow> nat \<Rightarrow> dbl" where
  "dbl_div_int a d =
     (let n = nat \<bar>fst a\<bar> * 2 ^ 76;
          q = 2 * (n div d) + (if n mod d = 0 then 0 else 1);
          k = nbits q - 53
      in (sgn (fst a) * int (round_shift q k), snd a - 77 + int k))"

definition timeDifference :: "int \<Rightarrow> int \<Rightarrow> dbl res" where
  "timeDifference high low =
     bindE (i64 (high - low)) (\<lambda>diff. Inr (dbl_div_int (dbl_of_int diff) (nat kMicroSecondsPerSecond)))"

section \<open>Texts\<close>

lemma dec_value_zeros: "dec_value (replicate k CHR ''0'' @ s) = dec_value s"
  by (induction k) (simp_all add: dec_value_def)

lemma zero_padded_value: "0 \<le> i \<Longrightarrow> dec_value (zero_padded n i) = nat i"
  by (simp add: zero_padded_def pad_left_def dec_value_zeros)

lemma zero_padded_length: "0 \<le> i \<Longrightarrow> i < 1000000 \<Longrightarrow> length (zero_padded 6 i) = 6"
  using dec_nat_length [of "nat i" 6] by (simp add: zero_padded_def length_pad nat_less_iff)

lemma toString_parts:
  assumes "0 \<le> t" and "t < 2 ^ 63"
  shows "Timestamp_toString t = dec_nat (nat (t div 1000000)) @ ''.'' @ zero_padded 6 (t mod 1000000)"
proof -
  have q: "tdiv t kMicroSecondsPerSecond = t div 1000000" "tmod t kMicroSecondsPerSecond = t mod 1000000"
    using assms(1) by (simp_all add: kMicroSecondsPerSecond_def tdiv_pos tmod_pos)
  have "t div 1000000 < 10 ^ 13" using assms by (simp add: int_div_less_self div_less_iff_less_mult)
  then have "length (dec_nat (nat (t div 1000000))) \<le> 13"
    using dec_nat_length [of "nat (t div 1000000)" 13] assms(1) by (simp add: nat_less_iff)
  then show ?thesis
    unfolding Timestamp_toString_def q using assms(1) zero_padded_length [of "t mod 1000000"]
    by (simp add: dec_int_def pos_imp_zdiv_neg_iff not_less [symmetric])
qed

text \<open>The microseconds that a text of \<^verbatim>\<open>toString\<close> stands for.\<close>

definition stamp_value :: "string \<Rightarrow> nat" where
  "stamp_value s =
     dec_value (takeWhile (\<lambda>c. c \<noteq> CHR ''.'') s) * 1000000 + dec_value (tl (dropWhile (\<lambda>c. c \<noteq> CHR ''.'') s))"

lemma dec_nat_no_dot: "c \<in> set (dec_nat n) \<Longrightarrow> c \<noteq> CHR ''.''"
proof
  assume "c \<in> set (dec_nat n)" "c = CHR ''.''"
  then obtain d where "d < 10" "CHR ''.'' = digit_char d" using dec_nat_digits by blast
  then have "(of_char CHR ''.'' :: nat) = 48 + d" by (metis of_char_digit)
  then show False by simp
qed

text \<open>
  The two texts of a timestamp. The text of \<^verbatim>\<open>toString\<close> is the seconds, a dot and six digits; the number of microseconds can be read
  back from it, for every timestamp from 0 to the end of the type, so different timestamps have different texts. The text of \<^verbatim>\<open>toFormattedString\<close> is
  24 characters long, within its buffer, for every broken-down time with a year of four digits.
\<close>

theorem timestamp_texts:
  assumes "0 \<le> t" and "t < 2 ^ 63" and "tm_ok (gmtime_r (t div 1000000))"
  shows "int (stamp_value (Timestamp_toString t)) = t
    \<and> length (toFormattedString gmtime_r t) = 24
    \<and> toFormattedString gmtime_r t = time_text (gmtime_r (t div 1000000)) @ ''.'' @ zero_padded 6 (t mod 1000000)"
proof -
  let ?s = "dec_nat (nat (t div 1000000))" and ?u = "zero_padded 6 (t mod 1000000)"
  have "takeWhile (\<lambda>c. c \<noteq> CHR ''.'') (?s @ ''.'' @ ?u) = ?s" "dropWhile (\<lambda>c. c \<noteq> CHR ''.'') (?s @ ''.'' @ ?u) = ''.'' @ ?u"
    using dec_nat_no_dot by (simp_all add: takeWhile_append2 dropWhile_append2)
  then have "int (stamp_value (Timestamp_toString t)) = t div 1000000 * 1000000 + t mod 1000000"
    using assms(1) by (simp add: toString_parts [OF assms(1,2)] stamp_value_def zero_padded_value pos_imp_zdiv_nonneg_iff)
  moreover have q: "tdiv t kMicroSecondsPerSecond = t div 1000000" "tmod t kMicroSecondsPerSecond = t mod 1000000"
    using assms(1) by (simp_all add: kMicroSecondsPerSecond_def tdiv_pos tmod_pos)
  moreover have "length (time_text (gmtime_r (t div 1000000)) @ ''.'' @ ?u) = 24"
    using time_text_length [OF assms(3)] zero_padded_length [of "t mod 1000000"] by simp
  ultimately show ?thesis by (simp add: toFormattedString_def)
qed

section \<open>Differences\<close>

text \<open>Swapping the timestamps changes the sign only.\<close>

lemma dbl_div_int_neg: "dbl_div_int (- m, e) d = (- fst (dbl_div_int (m, e) d), snd (dbl_div_int (m, e) d))"
  by (simp add: dbl_div_int_def Let_def)

lemma dbl_of_int_neg: "dbl_of_int (- i) = (- fst (dbl_of_int i), snd (dbl_of_int i))"
  by (simp add: dbl_of_int_def dbl_mul_def Let_def)

lemma timeDifference_swap:
  assumes "\<bar>high - low\<bar> < 2 ^ 63"
  shows "\<exists>m e. timeDifference high low = Inr (m, e) \<and> timeDifference low high = Inr (- m, e)"
proof -
  have "low - high = - (high - low)" by simp
  then show ?thesis
    using assms dbl_of_int_neg [of "high - low"] dbl_div_int_neg [of "fst (dbl_of_int (high - low))" "snd (dbl_of_int (high - low))"]
    by (auto simp: timeDifference_def abs_less_iff intro: prod.exhaust)
qed

text \<open>
  Adding a difference back can lose a microsecond, because \<^verbatim>\<open>addTime\<close> cuts the product off: 249 microseconds are given back as 248.
\<close>

lemma nbits_eq: "2 ^ k \<le> n \<Longrightarrow> n < 2 ^ Suc k \<Longrightarrow> nbits n = Suc k"
proof (induction k arbitrary: n)
  case 0
  then have "n = 1" by simp
  then show ?case by (simp add: nbits.simps)
next
  case (Suc k)
  then have "2 ^ k \<le> n div 2" "n div 2 < 2 ^ Suc k" "n \<noteq> 0" by auto
  with Suc.IH [of "n div 2"] show ?case by (subst nbits.simps) simp
qed

lemma difference_249: "timeDifference 249 0 = Inr (4593239274353678, - 64)"
proof -
  let ?q = "37627816135505333063 :: nat"
  have d: "dbl_of_int 249 = (249, 0)" using dbl_mul_exact [of "(249, 0)" "(1, 0)"] by (simp add: dbl_of_int_def)
  have n: "(249 :: nat) * 2 ^ 76 div 1000000 = 18813908067752666531" "(249 :: nat) * 2 ^ 76 mod 1000000 \<noteq> 0" by simp_all
  have b: "nbits ?q = 66" using nbits_eq [of 65 ?q] by simp
  have "round_shift ?q 13 = 4593239274353678" by (simp add: round_shift_def)
  then show ?thesis
    using n b by (simp add: timeDifference_def d kMicroSecondsPerSecond_def dbl_div_int_def i64_def Let_def)
qed

lemma addTime_loses_microsecond: "bindE (timeDifference 249 0) (addTime 0) = Inr 248"
proof -
  let ?p = "4593239274353678000000 :: nat"
  have b: "nbits ?p = 72" using nbits_eq [of 71 ?p] by simp
  have "round_shift ?p 19 = 8760908650119167" by (simp add: round_shift_def)
  then have "dbl_mul (4593239274353678, - 64) (kMicroSecondsPerSecond, 0) = (8760908650119167, - 45)"
    using b by (simp add: dbl_mul_def kMicroSecondsPerSecond_def Let_def)
  then show ?thesis
    unfolding difference_249 by (simp add: addTime_def dbl_trunc_def tdiv_def)
qed

theorem timestamp_texts_witness:
  "stamp_value (Timestamp_toString 5000001) = 5000001 \<and> length (toFormattedString (\<lambda>_. log_demo_day) 5000001) = 24"
proof -
  have "tm_ok log_demo_day" by (simp add: tm_ok_def log_demo_day_def)
  from timestamp_texts [of 5000001 "\<lambda>_. log_demo_day", OF _ _ this] show ?thesis by auto
qed

end
