(* ===== verification/Worker_Start.thy ===== *)
theory Worker_Start
  imports Default_Poller Worker Timer_Queue Timestamp_Text
begin

text \<open>
  The constructor and the destructor of \<^verbatim>\<open>Worker\<close> (\<^verbatim>\<open>cobra/worker.h\<close>, \<^verbatim>\<open>cobra/worker.cpp\<close>) with the objects that it builds: the timer queue, the
  poller and the wakeup channel, over the poller that \<^verbatim>\<open>newDefaultPoller\<close> chooses. C++ initialises the members in the order in which the class declares
  them; \<open>source_order\<close> is that order. A member that has not been initialised holds no pointer yet: \<open>wm_poller = None\<close>.
\<close>

section \<open>Definitions\<close>

record ('cb, 'k) worker_mem = "'cb chan_store" +
  wm_poller :: "'k poller_obj option"
  wm_timerfd :: "int option"
  wm_wakeupFd :: "int option"
  wm_closed :: "int list"

text \<open>What the constructor gets from its surroundings: its address, the addresses of the two channels, the results of the system calls, the environment variable and the kernel.\<close>

record ('cb, 'k) ctor_env =
  ce_this :: nat
  ce_timer_chan :: nat
  ce_wakeup_chan :: nat
  ce_timerfd :: int
  ce_eventfd :: int
  ce_epollfd :: int
  ce_use_poll :: bool
  ce_kernel :: 'k
  ce_timer_cb :: 'cb
  ce_wakeup_cb :: 'cb

definition createTimerfd :: "int \<Rightarrow> int res" where
  "createTimerfd r = (if r < 0 then Inl Fatal else Inr r)"

definition createEventfd :: "int \<Rightarrow> int res" where
  "createEventfd r = (if r < 0 then Inl Fatal else Inr r)"

text \<open>\<open>n\<close> is what \<^verbatim>\<open>read\<close> returned; the result is what is logged.\<close>

definition readTimerfd :: "int \<Rightarrow> 64 word \<Rightarrow> int \<Rightarrow> (LogLevel \<times> string) list" where
  "readTimerfd n howmany now =
     (TRACE, ''TimerQueue::handleRead() '' @ dec_nat (unat howmany) @ '' at '' @ Timestamp_toString now)
     # (if n \<noteq> 8 then [(ERROR, ''TimerQueue::handleRead() reads '' @ dec_int n @ '' bytes instead of 8'')] else [])"

text \<open>\<^verbatim>\<open>poller_->UpdateChannel(channel)\<close>, and \<^verbatim>\<open>Worker::UpdateChannel\<close> around it.\<close>

definition poller_deref :: "'k epoll_ctl \<Rightarrow> nat \<Rightarrow> ('cb, 'k) worker_mem \<Rightarrow> ('cb, 'k) worker_mem res" where
  "poller_deref ctl c s =
     (case wm_poller s of
        None \<Rightarrow> Inl NullDeref
      | Some p \<Rightarrow> bindE (Poller_UpdateChannel ctl c \<lparr>heap = heap s, ap_obj = p\<rparr>) (\<lambda>a. Inr (s\<lparr>heap := heap a, wm_poller := Some (ap_obj a)\<rparr>)))"

definition ctor_UpdateChannel :: "'k epoll_ctl \<Rightarrow> nat \<Rightarrow> nat \<Rightarrow> ('cb, 'k) worker_mem \<Rightarrow> ('cb, 'k) worker_mem res" where
  "ctor_UpdateChannel ctl this c s = bindE (get_ch c s) (\<lambda>ch. cassert (ch_loop ch = this) (poller_deref ctl c s))"

datatype init_step = InitTimerQueue | InitPoller | InitWakeupFd | InitWakeupChannel | CtorBody

definition ctor_step ::
  "'k epoll_ctl \<Rightarrow> ('cb, 'k) ctor_env \<Rightarrow> init_step \<Rightarrow> ('cb, 'k) worker_mem \<times> nat option \<Rightarrow> (('cb, 'k) worker_mem \<times> nat option) res" where
  "ctor_step ctl e i st =
     (case st of (s, t_loop) \<Rightarrow>
        (case i of
           InitTimerQueue \<Rightarrow>
             bindE (createTimerfd (ce_timerfd e)) (\<lambda>fd.
             bindE (TimerQueue_watch (ctor_UpdateChannel ctl (ce_this e)) (ce_timer_chan e) (ce_timer_cb e)
                     (s\<lparr>wm_timerfd := Some fd, heap := (heap s)(ce_timer_chan e \<mapsto> Channel_new (ce_this e) fd)\<rparr>)) (\<lambda>s1.
               Inr (s1, t_loop)))
         | InitPoller \<Rightarrow>
             bindE (newDefaultPoller (ce_use_poll e) (heap s) (ce_epollfd e) (ce_kernel e)) (\<lambda>p. Inr (s\<lparr>wm_poller := Some (ap_obj p)\<rparr>, t_loop))
         | InitWakeupFd \<Rightarrow> bindE (createEventfd (ce_eventfd e)) (\<lambda>fd. Inr (s\<lparr>wm_wakeupFd := Some fd\<rparr>, t_loop))
         | InitWakeupChannel \<Rightarrow>
             (case wm_wakeupFd s of
                None \<Rightarrow> Inl NullDeref
              | Some fd \<Rightarrow> Inr (s\<lparr>heap := (heap s)(ce_wakeup_chan e \<mapsto> Channel_new (ce_this e) fd)\<rparr>, t_loop))
         | CtorBody \<Rightarrow>
             bindE (SetReadCb (ce_wakeup_chan e) (ce_wakeup_cb e) s) (\<lambda>s1.
             bindE (enableReading (ctor_UpdateChannel ctl (ce_this e)) (ce_wakeup_chan e) s1) (\<lambda>s2.
               Inr (s2, case t_loop of None \<Rightarrow> Some (ce_this e) | Some w \<Rightarrow> Some w)))))"

definition source_order :: "init_step list" where
  "source_order = [InitTimerQueue, InitPoller, InitWakeupFd, InitWakeupChannel, CtorBody]"

definition raw_worker :: "('cb, 'k) worker_mem" where
  "raw_worker = \<lparr>heap = Map.empty, wm_poller = None, wm_timerfd = None, wm_wakeupFd = None, wm_closed = []\<rparr>"

definition Worker_ctor :: "'k epoll_ctl \<Rightarrow> ('cb, 'k) ctor_env \<Rightarrow> init_step list \<Rightarrow> nat option \<Rightarrow> (('cb, 'k) worker_mem \<times> nat option) res" where
  "Worker_ctor ctl e order t_loop = foldE (ctor_step ctl e) order (raw_worker, t_loop)"

definition Worker_dtor :: "('cb, 'k) worker_mem \<times> nat option \<Rightarrow> ('cb, 'k) worker_mem \<times> nat option" where
  "Worker_dtor st = (case st of (s, t_loop) \<Rightarrow> (s\<lparr>wm_closed := wm_closed s @ (case wm_wakeupFd s of None \<Rightarrow> [] | Some fd \<Rightarrow> [fd])\<rparr>, None))"

definition getWorkerOfCurrentThread :: "nat option \<Rightarrow> nat option" where
  "getWorkerOfCurrentThread t_loop = t_loop"

section \<open>The order of the members\<close>

lemma new_channel_events: "events (Channel_new loop fd) = 0" "ch_index (Channel_new loop fd) = - 1" "ch_fd (Channel_new loop fd) = fd"
  "ch_loop (Channel_new loop fd) = loop"
  by (simp_all add: Channel_new_def)

lemma ctor_source_order: "0 \<le> ce_timerfd e \<Longrightarrow> Worker_ctor ctl e source_order t_loop = Inl NullDeref"
  by (simp add: Worker_ctor_def source_order_def raw_worker_def ctor_step_def createTimerfd_def TimerQueue_watch_def SetReadCb_def
      enableReading_def mod_ch_def get_ch_def ctor_UpdateChannel_def poller_deref_def new_channel_events)

text \<open>The order that would be needed: the poller before the objects that use it.\<close>

definition poller_first :: "init_step list" where
  "poller_first = [InitPoller, InitTimerQueue, InitWakeupFd, InitWakeupChannel, CtorBody]"

definition registered :: "'k poller_obj \<Rightarrow> int \<rightharpoonup> nat" where
  "registered p = (case p of PollObj pfds chs \<Rightarrow> chs | EPollObj n chs k \<Rightarrow> chs)"

lemmas ctor_eval = Worker_ctor_def poller_first_def raw_worker_def ctor_step_def createTimerfd_def createEventfd_def TimerQueue_watch_def
  SetReadCb_def enableReading_def mod_ch_def get_ch_def ctor_UpdateChannel_def poller_deref_def new_channel_events
  newDefaultPoller_def put_poll_def put_epoll_def poll_view_def epoll_view_def Poller_UpdateChannel_def

lemma ctor_poller_first_poll:
  assumes "ce_use_poll e" and "0 \<le> ce_timerfd e" and "0 \<le> ce_eventfd e" and "ce_timerfd e \<noteq> ce_eventfd e" and "ce_timer_chan e \<noteq> ce_wakeup_chan e"
  shows "\<exists>s p. Worker_ctor ctl e poller_first None = Inr (s, Some (ce_this e)) \<and> wm_poller s = Some p
    \<and> registered p = [ce_timerfd e \<mapsto> ce_timer_chan e, ce_eventfd e \<mapsto> ce_wakeup_chan e]"
  using assms
  by (simp add: ctor_eval PollPoller_new_def PollPoller_UpdateChannel_def set_index_def registered_def Let_def)

lemma ctor_poller_first_epoll:
  assumes "\<not> ce_use_poll e" and "0 \<le> ce_epollfd e" and "0 \<le> ce_timerfd e" and "0 \<le> ce_eventfd e" and "ce_timerfd e \<noteq> ce_eventfd e" and "ce_timer_chan e \<noteq> ce_wakeup_chan e"
    and "\<And>fd ev k. 0 \<le> fst (ctl EPOLL_CTL_ADD fd ev k)"
  shows "\<exists>s p. Worker_ctor ctl e poller_first None = Inr (s, Some (ce_this e)) \<and> wm_poller s = Some p
    \<and> registered p = [ce_timerfd e \<mapsto> ce_timer_chan e, ce_eventfd e \<mapsto> ce_wakeup_chan e]"
  using assms
  by (simp add: ctor_eval EPollPoller_new_def EPollPoller_UpdateChannel_def ep_update_def ep_index_defs set_index_def registered_def Let_def case_prod_unfold not_less)

text \<open>
  C22. The members of a \<^verbatim>\<open>Worker\<close> are initialised in the wrong order. \<^verbatim>\<open>timerQueue_\<close> is declared before \<^verbatim>\<open>poller_\<close>, and the constructor of the
  timer queue enables reading on its channel, which calls \<^verbatim>\<open>poller_->UpdateChannel\<close>: whatever the system calls return and whichever poller is to be made, as long
  as the timer descriptor could be created, the constructor dereferences \<^verbatim>\<open>poller_\<close> before it has been initialised. With the poller first the same constructor
  succeeds, and both of its channels are registered with the poller.
\<close>

theorem worker_member_order:
  assumes "0 \<le> ce_timerfd e" and "0 \<le> ce_eventfd e" and "ce_timerfd e \<noteq> ce_eventfd e" and "ce_timer_chan e \<noteq> ce_wakeup_chan e"
    and "0 \<le> ce_epollfd e" and "\<And>fd ev k. 0 \<le> fst (ctl EPOLL_CTL_ADD fd ev k)"
  shows "Worker_ctor ctl e source_order t_loop = Inl NullDeref
    \<and> (\<exists>s p. Worker_ctor ctl e poller_first None = Inr (s, Some (ce_this e)) \<and> wm_poller s = Some p
        \<and> registered p = [ce_timerfd e \<mapsto> ce_timer_chan e, ce_eventfd e \<mapsto> ce_wakeup_chan e])"
proof (cases "ce_use_poll e")
  case True
  then show ?thesis using ctor_source_order [OF assms(1)] ctor_poller_first_poll [OF True assms(1-4)] by simp
next
  case False
  then show ?thesis using ctor_source_order [OF assms(1)] ctor_poller_first_epoll [of e ctl] assms by simp
qed

definition ctor_demo :: "bool \<Rightarrow> (unit, int \<rightharpoonup> epoll_event) ctor_env" where
  "ctor_demo use_poll = \<lparr>ce_this = 1, ce_timer_chan = 10, ce_wakeup_chan = 11, ce_timerfd = 4, ce_eventfd = 5, ce_epollfd = 3, ce_use_poll = use_poll,
     ce_kernel = Map.empty, ce_timer_cb = (), ce_wakeup_cb = ()\<rparr>"

theorem worker_member_order_witness:
  "Worker_ctor (\<lambda>op fd ev k. (0, k)) (ctor_demo False) source_order None = Inl NullDeref
     \<and> Worker_ctor (\<lambda>op fd ev k. (0, k)) (ctor_demo True) source_order None = Inl NullDeref"
  using worker_member_order [of "ctor_demo False" "\<lambda>op fd ev k. (0, k)" None] worker_member_order [of "ctor_demo True" "\<lambda>op fd ev k. (0, k)" None]
  by (simp add: ctor_demo_def)

text \<open>
  The check that a thread has one worker only is commented out: a second one is accepted, and when it is destroyed the thread has no worker any more,
  although the first one is alive.
\<close>

lemma second_worker_clears_slot:
  assumes "Worker_ctor ctl e poller_first (Some w) = Inr st"
  shows "snd st = Some w \<and> getWorkerOfCurrentThread (snd (Worker_dtor st)) = None"
proof -
  have "\<exists>t. snd st = (case snd t of None \<Rightarrow> Some (ce_this e) | Some v \<Rightarrow> Some v) \<and> snd t = Some w"
    using assms
    by (auto simp: Worker_ctor_def poller_first_def ctor_step_def bindE_eq_Inr split: prod.splits option.splits)
  then show ?thesis by (auto simp: Worker_dtor_def getWorkerOfCurrentThread_def split: prod.splits)
qed


end
