(* ===== verification/Sockets.thy ===== *)
theory Sockets
  imports Endian
begin

text \<open>
  \<^verbatim>\<open>Endpoint\<close> (\<^verbatim>\<open>cobra/endpoint.h\<close>, \<^verbatim>\<open>cobra/endpoint.cpp\<close>) and the wrappers of the socket calls
  (\<^verbatim>\<open>cobra/socket_wrapper.cpp\<close>). What a system call answered is an argument; the wrapper decides
  what becomes of it. \<open>ntop\<close> and \<open>pton\<close> stand for \<^verbatim>\<open>inet_ntop\<close> and \<^verbatim>\<open>inet_pton\<close>, \<open>host\<close> is the
  endianness of the machine.
\<close>

section \<open>Endpoints\<close>

definition AF_INET :: "16 word" where "AF_INET = 2"
definition INADDR_ANY :: "32 word" where "INADDR_ANY = 0"

record endpoint =
  sin_family :: "16 word"
  sin_port :: "16 word"
  s_addr :: "32 word"

definition Endpoint_of_port :: "endianness \<Rightarrow> 16 word \<Rightarrow> endpoint" where
  "Endpoint_of_port host port =
     \<lparr>sin_family = AF_INET, sin_port = hostToNetwork16 host port, s_addr = hostToNetwork32 host INADDR_ANY\<rparr>"

text \<open>An address that does not parse is logged and stays zero.\<close>

definition Endpoint_of_ip ::
  "endianness \<Rightarrow> (string \<Rightarrow> 32 word option) \<Rightarrow> string \<Rightarrow> 16 word \<Rightarrow> endpoint" where
  "Endpoint_of_ip host pton ip port =
     (let addr = \<lparr>sin_family = AF_INET, sin_port = hostToNetwork16 host port, s_addr = 0\<rparr>
      in case pton ip of None \<Rightarrow> addr | Some a \<Rightarrow> addr\<lparr>s_addr := a\<rparr>)"

definition ipNetEndian :: "endpoint \<Rightarrow> 32 word" where
  "ipNetEndian e = s_addr e"

definition portNetEndian :: "endpoint \<Rightarrow> 16 word" where
  "portNetEndian e = sin_port e"

text \<open>\<^verbatim>\<open>snprintf\<close> into an array of \<open>n\<close> bytes keeps at most \<open>n - 1\<close> characters.\<close>

definition snprintf_fit :: "nat \<Rightarrow> string \<Rightarrow> string" where
  "snprintf_fit n s = take (n - 1) s"

definition toIpPort :: "endianness \<Rightarrow> (32 word \<Rightarrow> string) \<Rightarrow> endpoint \<Rightarrow> string" where
  "toIpPort host ntop e =
     (let hostname = ''INVALID'';
          buf = ntop (s_addr e);
          port = networkToHost16 host (sin_port e);
          buf = snprintf_fit 32 (hostname @ '':'' @ dec_nat (unat port))
      in buf)"

definition toIp :: "(32 word \<Rightarrow> string) \<Rightarrow> endpoint \<Rightarrow> string" where
  "toIp ntop e = ntop (s_addr e)"

section \<open>Socket calls\<close>

definition EPERM :: int where "EPERM = 1"
definition EINTR :: int where "EINTR = 4"
definition EAGAIN :: int where "EAGAIN = 11"
definition EMFILE :: int where "EMFILE = 24"
definition EPROTO :: int where "EPROTO = 71"
definition ECONNABORTED :: int where "ECONNABORTED = 103"

lemmas accept_errno_defs = EPERM_def EINTR_def EAGAIN_def EMFILE_def EPROTO_def ECONNABORTED_def

datatype accept_result = AcceptErr int | Accepted int endpoint

text \<open>The error goes back to the caller with \<^verbatim>\<open>errno\<close> restored, or stops the program.\<close>

definition sock_Accept :: "accept_result \<Rightarrow> endpoint \<Rightarrow> (int \<times> int option \<times> endpoint) res" where
  "sock_Accept r peer_addr =
     (case r of
        Accepted conn_fd addr \<Rightarrow> Inr (conn_fd, None, addr)
      | AcceptErr savedErrno \<Rightarrow>
          if savedErrno = EAGAIN \<or> savedErrno = ECONNABORTED \<or> savedErrno = EINTR \<or> savedErrno = EPROTO
             \<or> savedErrno = EPERM \<or> savedErrno = EMFILE
          then Inr (- 1, Some savedErrno, peer_addr) else Inl Fatal)"

definition sock_Bind :: "int \<Rightarrow> unit res" where
  "sock_Bind ret = (if ret < 0 then Inl Fatal else Inr ())"

definition sock_Listen2 :: "int \<Rightarrow> unit res" where
  "sock_Listen2 ret = (if ret < 0 then Inl Fatal else Inr ())"

definition createNonblockingOrDie :: "int \<Rightarrow> int res" where
  "createNonblockingOrDie sockfd = (if sockfd < 0 then Inl Fatal else Inr sockfd)"

text \<open>\<^verbatim>\<open>getsockopt\<close> gives the pending error of the socket, or fails with an \<^verbatim>\<open>errno\<close>.\<close>

definition getSocketError :: "int + int \<Rightarrow> int" where
  "getSocketError r = (case r of Inl e \<Rightarrow> e | Inr optval \<Rightarrow> optval)"

definition getLocalAddr :: "endpoint option \<Rightarrow> endpoint" where
  "getLocalAddr r = (case r of None \<Rightarrow> \<lparr>sin_family = 0, sin_port = 0, s_addr = 0\<rparr> | Some a \<Rightarrow> a)"

definition getPeerAddr :: "endpoint option \<Rightarrow> endpoint" where
  "getPeerAddr r = (case r of None \<Rightarrow> \<lparr>sin_family = 0, sin_port = 0, s_addr = 0\<rparr> | Some a \<Rightarrow> a)"

definition isSelfConnect :: "endpoint option \<Rightarrow> endpoint option \<Rightarrow> bool" where
  "isSelfConnect lr pr =
     (let localaddr = getLocalAddr lr; peeraddr = getPeerAddr pr
      in sin_port localaddr = sin_port peeraddr \<and> s_addr localaddr = s_addr peeraddr)"

section \<open>Properties\<close>

text \<open>
  \<^verbatim>\<open>Endpoint::toIpPort\<close> never shows the address: \<^verbatim>\<open>inet_ntop\<close> writes it into the buffer that is
  formatted over next, so the result is \<^verbatim>\<open>INVALID:\<close> and the port in host order, for every address.
\<close>

theorem toIpPort_hides_address:
  "toIpPort host ntop (Endpoint_of_port host port) = ''INVALID:'' @ dec_nat (unat port)
   \<and> toIpPort host ntop e = toIpPort host ntop (e\<lparr>s_addr := a\<rparr>)"
proof
  have "unat port < 2 ^ LENGTH(16)" by (rule unsigned_less)
  then have "unat port < 10 ^ 5" by simp
  then have "length (dec_nat (unat port)) \<le> 5" by (rule dec_nat_length) simp
  then show "toIpPort host ntop (Endpoint_of_port host port) = ''INVALID:'' @ dec_nat (unat port)"
    by (simp add: toIpPort_def Endpoint_of_port_def snprintf_fit_def hostToNetwork16_def networkToHost16_def betoh_htobe)
  show "toIpPort host ntop e = toIpPort host ntop (e\<lparr>s_addr := a\<rparr>)"
    by (simp add: toIpPort_def)
qed

end
