(* ===== verification/Acceptor.thy ===== *)
theory Acceptor
  imports Sockets Tcp_Stream
begin

text \<open>
  \<^verbatim>\<open>Acceptor\<close> of \<^verbatim>\<open>cobra/acceptor.h\<close> and \<^verbatim>\<open>cobra/acceptor.cpp\<close>: the listening socket of a server. Its channel
  is in the store \<open>ac_io\<close> at \<open>ac_chan\<close>; \<open>ac_open\<close> is the set of the descriptors it holds open. What the
  system calls answered are arguments. Logging does not change \<^verbatim>\<open>errno\<close>.
\<close>

section \<open>State and operations\<close>

record 's acceptor =
  ac_io :: 's
  ac_chan :: nat
  ac_loop :: nat
  listen_fd :: int
  new_conn_cb :: bool
  listenning :: bool
  idle_fd :: int
  ac_open :: "int set"

definition ac_close :: "int \<Rightarrow> 's acceptor \<Rightarrow> 's acceptor" where
  "ac_close fd ac = ac\<lparr>ac_open := ac_open ac - {fd}\<rparr>"

text \<open>A call that gives a new descriptor, or a negative number.\<close>

definition opened :: "int \<Rightarrow> 's acceptor \<Rightarrow> 's acceptor" where
  "opened fd ac = (if 0 \<le> fd then ac\<lparr>ac_open := insert fd (ac_open ac)\<rparr> else ac)"

text \<open>The constructor: \<open>sockfd\<close> from \<^verbatim>\<open>socket\<close>, \<open>nullfd\<close> from \<^verbatim>\<open>open\<close>, \<open>bound\<close> from \<^verbatim>\<open>bind\<close>; a failing
  \<^verbatim>\<open>setsockopt\<close> is ignored.\<close>

definition Acceptor_new ::
  "nat \<Rightarrow> nat \<Rightarrow> 'cb \<Rightarrow> int \<Rightarrow> int \<Rightarrow> int \<Rightarrow> ('cb, 'z) chan_store_scheme \<Rightarrow> ('cb, 'z) chan_store_scheme acceptor res" where
  "Acceptor_new loop a rd sockfd nullfd bound s =
     bindE (createNonblockingOrDie sockfd) (\<lambda>lfd.
       let s1 = s\<lparr>heap := (heap s)(a \<mapsto> Channel_new loop lfd)\<rparr>
       in cassert (0 \<le> nullfd)
            (bindE (sock_Bind bound) (\<lambda>_.
             bindE (SetReadCb a rd s1) (\<lambda>s2.
             Inr \<lparr>ac_io = s2, ac_chan = a, ac_loop = loop, listen_fd = lfd, new_conn_cb = False,
                  listenning = False, idle_fd = nullfd, ac_open = {lfd, nullfd}\<rparr>))))"

definition SetNewConnectionCb :: "'s acceptor \<Rightarrow> 's acceptor" where
  "SetNewConnectionCb ac = ac\<lparr>new_conn_cb := True\<rparr>"

definition Acceptor_dtor ::
  "(nat \<Rightarrow> ('cb, 'z) chan_store_scheme \<Rightarrow> ('cb, 'z) chan_store_scheme res)
     \<Rightarrow> (nat \<Rightarrow> ('cb, 'z) chan_store_scheme \<Rightarrow> ('cb, 'z) chan_store_scheme res)
     \<Rightarrow> ('cb, 'z) chan_store_scheme acceptor \<Rightarrow> ('cb, 'z) chan_store_scheme acceptor res" where
  "Acceptor_dtor upd rmv ac =
     bindE (disableAll upd (ac_chan ac) (ac_io ac)) (\<lambda>s1.
     bindE (Channel_remove rmv (ac_chan ac) s1) (\<lambda>s2.
     bindE (Channel_dtor (ac_chan ac) s2) (\<lambda>s3.
     Inr (ac_close (idle_fd ac) (ac\<lparr>ac_io := s3\<rparr>)))))"

definition Acceptor_Listen ::
  "(nat \<Rightarrow> ('cb, 'z) chan_store_scheme \<Rightarrow> ('cb, 'z) chan_store_scheme res) \<Rightarrow> int
     \<Rightarrow> ('cb, 'z) chan_store_scheme acceptor \<Rightarrow> ('cb, 'z) chan_store_scheme acceptor res" where
  "Acceptor_Listen upd ret ac =
     (let ac1 = ac\<lparr>listenning := True\<rparr>
      in bindE (sock_Listen2 ret) (\<lambda>_.
         bindE (enableReading upd (ac_chan ac1) (ac_io ac1)) (\<lambda>s. Inr (ac1\<lparr>ac_io := s\<rparr>))))"

text \<open>\<open>r\<close> is the answer of \<^verbatim>\<open>accept\<close>; \<open>fd2\<close> and \<open>nullfd\<close> are those of the second \<^verbatim>\<open>accept\<close> and of
  \<^verbatim>\<open>open\<close>, made when there are no descriptors left. A descriptor given to the callback is its own from
  then on.\<close>

definition Acceptor_HandleRead ::
  "(int \<Rightarrow> endpoint \<Rightarrow> 's acceptor \<Rightarrow> 's acceptor res) \<Rightarrow> accept_result \<Rightarrow> int \<Rightarrow> int \<Rightarrow> endianness
     \<Rightarrow> 's acceptor \<Rightarrow> 's acceptor res" where
  "Acceptor_HandleRead cb r fd2 nullfd host ac =
     bindE (sock_Accept r (Endpoint_of_port host 0)) (\<lambda>(connfd, errno, peer_address).
       if 0 \<le> connfd
       then let ac1 = opened connfd ac
            in if new_conn_cb ac1 then cb connfd peer_address ac1 else Inr (ac_close connfd ac1)
       else if errno = Some EMFILE
       then let ac1 = ac_close (idle_fd ac) ac;
                ac2 = (opened fd2 ac1)\<lparr>idle_fd := fd2\<rparr>;
                ac3 = ac_close (idle_fd ac2) ac2
            in Inr ((opened nullfd ac3)\<lparr>idle_fd := nullfd\<rparr>)
       else Inr ac)"

section \<open>Properties\<close>

text \<open>
  The read event of the listening socket (\<^verbatim>\<open>Acceptor::HandleRead\<close>, \<^verbatim>\<open>Accept\<close>) on every branch, for an acceptor with
  a callback. An accepted connection goes to the callback once, with its address. When the process has
  no descriptor left (\<^verbatim>\<open>EMFILE\<close>), the reserve descriptor is given up, the pending connection is accepted
  and closed at once, and the reserve is opened again: the descriptors held open are the same as before,
  with the new reserve in the place of the old one. The other transient errors change nothing, and any
  other error stops the program.
\<close>

theorem acceptor_handleRead:
  assumes "new_conn_cb ac" and "idle_fd ac \<in> ac_open ac"
    and "\<forall>fd peer. r = Accepted fd peer \<longrightarrow> 0 \<le> fd" and "0 \<le> nullfd"
    and "fd2 \<notin> ac_open ac - {idle_fd ac}"
  shows "Acceptor_HandleRead cb r fd2 nullfd host ac =
    (case r of
       Accepted fd peer \<Rightarrow> cb fd peer (ac\<lparr>ac_open := insert fd (ac_open ac)\<rparr>)
     | AcceptErr e \<Rightarrow>
         if e = EMFILE then Inr (ac\<lparr>idle_fd := nullfd, ac_open := insert nullfd (ac_open ac - {idle_fd ac})\<rparr>)
         else if e \<in> {EAGAIN, ECONNABORTED, EINTR, EPROTO, EPERM} then Inr ac
         else Inl Fatal)"
proof (cases r)
  case (AcceptErr e)
  have "ac_open ac - {idle_fd ac} - {fd2} = ac_open ac - {idle_fd ac}" using assms(5) by blast
  moreover have "insert fd2 (ac_open ac - {idle_fd ac}) - {fd2} = ac_open ac - {idle_fd ac}" using assms(5) by blast
  ultimately have "Acceptor_HandleRead cb r fd2 nullfd host ac
      = Inr (ac\<lparr>idle_fd := nullfd, ac_open := insert nullfd (ac_open ac - {idle_fd ac})\<rparr>)" if "e = EMFILE"
    using that assms(4) AcceptErr
    by (cases ac) (simp add: Acceptor_HandleRead_def sock_Accept_def ac_close_def opened_def Let_def)
  then show ?thesis using AcceptErr
    by (auto simp: Acceptor_HandleRead_def sock_Accept_def accept_errno_defs)
next
  case (Accepted fd peer)
  then show ?thesis using assms(1,3) by (simp add: Acceptor_HandleRead_def sock_Accept_def opened_def Let_def)
qed

definition ac_demo :: "unit acceptor" where
  "ac_demo = \<lparr>ac_io = (), ac_chan = 0, ac_loop = 1, listen_fd = 3, new_conn_cb = True, listenning = True, idle_fd = 4, ac_open = {3, 4}\<rparr>"

theorem acceptor_handleRead_witness:
  "Acceptor_HandleRead (\<lambda>_ _ ac. Inr ac) (AcceptErr 24) 4 4 LittleEndian ac_demo = Inr ac_demo"
  using acceptor_handleRead [of ac_demo "AcceptErr 24" 4 4 "\<lambda>_ _ ac. Inr ac" LittleEndian]
  by (simp add: ac_demo_def EMFILE_def insert_Diff_if insert_commute)

text \<open>
  An acceptor over EPollPoller through its life (\<^verbatim>\<open>Acceptor::Listen\<close>, \<^verbatim>\<open>~Acceptor\<close>): \<^verbatim>\<open>Listen\<close> makes the poller
  watch the listening socket for reading; the destructor ends the watching, gives the channel and the
  reserve descriptor back, and leaves the listening socket open: nothing closes it.
\<close>

theorem acceptor_leaks_listen_fd:
  assumes "epoll_ctl_spec ctl km" and "ep_inv km s" and "heap s a = None" and "ep_channels s fd = None"
    and "0 \<le> fd" and "0 \<le> nullfd" and "fd \<noteq> nullfd"
    and "0 \<le> fst (ctl EPOLL_CTL_ADD fd (kReadEvent, a) (ep_kernel s))"
  shows "\<exists>ac ac1 ac2. Acceptor_new loop a rd fd nullfd 0 s = Inr ac \<and> ac_open ac = {fd, nullfd}
    \<and> Acceptor_Listen (EPollPoller_UpdateChannel ctl) 0 ac = Inr ac1
    \<and> ep_interest km (ac_io ac1) fd = kReadEvent
    \<and> Acceptor_dtor (EPollPoller_UpdateChannel ctl) (EPollPoller_removeChannel ctl) ac1 = Inr ac2
    \<and> ep_interest km (ac_io ac2) fd = 0 \<and> ep_channels (ac_io ac2) fd = None \<and> heap (ac_io ac2) a = None
    \<and> ac_open ac2 = {fd}"
proof -
  define ch where "ch = (Channel_new loop fd)\<lparr>readCb := Some rd\<rparr>"
  let ?ch = "ch\<lparr>events := kReadEvent\<rparr>"
  have chf: "ch_fd ch = fd" "ch_index ch = kNew" "events ch = 0" "\<not> ch_eventHandling ch"
    by (simp_all add: ch_def Channel_new_def kNew_def)
  let ?ac = "\<lparr>ac_io = s\<lparr>heap := (heap s)(a \<mapsto> ch)\<rparr>, ac_chan = a, ac_loop = loop, listen_fd = fd, new_conn_cb = False,
    listenning = False, idle_fd = nullfd, ac_open = {fd, nullfd}\<rparr>"
  have new: "Acceptor_new loop a rd fd nullfd 0 s = Inr ?ac"
    using assms by (simp add: Acceptor_new_def createNonblockingOrDie_def sock_Bind_def SetReadCb_def ch_def Let_def)
  obtain s1 where s1: "EPollPoller_UpdateChannel ctl a (s\<lparr>heap := (heap s)(a \<mapsto> ?ch)\<rparr>) = Inr s1" "ep_inv km s1"
    "heap s1 a = Some (?ch\<lparr>ch_index := kAdded\<rparr>)" "ep_reg s1 a" "ep_interest km s1 = (ep_interest km s)(fd := kReadEvent)"
    using open_channel [OF assms(1,2,3), of ?ch] assms chf by auto
  then have listen: "Acceptor_Listen (EPollPoller_UpdateChannel ctl) 0 ?ac = Inr (?ac\<lparr>listenning := True, ac_io := s1\<rparr>)"
    using chf by (simp add: Acceptor_Listen_def sock_Listen2_def enableReading_def Let_def)
  obtain s2 s3 where s3: "disableAll (EPollPoller_UpdateChannel ctl) a s1 = Inr s2" "Channel_remove (EPollPoller_removeChannel ctl) a s2 = Inr s3"
    "ep_channels s3 fd = None" "ep_interest km s3 fd = 0"
    "heap s3 a = Some (?ch\<lparr>ch_index := kAdded, events := kNoneEvent, ch_index := kNew\<rparr>)"
    using close_channel [OF assms(1) s1(2,4,3)] chf by auto
  let ?s4 = "s3\<lparr>heap := (heap s3)(a := None)\<rparr>"
  have "Acceptor_dtor (EPollPoller_UpdateChannel ctl) (EPollPoller_removeChannel ctl) (?ac\<lparr>listenning := True, ac_io := s1\<rparr>)
      = Inr (?ac\<lparr>listenning := True, ac_io := ?s4, ac_open := {fd}\<rparr>)"
    using s3 chf assms(7) by (simp add: Acceptor_dtor_def Channel_dtor_def ac_close_def insert_Diff_if)
  moreover have "ep_interest km ?s4 fd = 0" using s3(4) by (simp add: ep_interest_def)
  ultimately show ?thesis using new listen s1(5) s3(3) by auto
qed

theorem acceptor_leaks_listen_fd_witness:
  "\<exists>ac ac1 ac2. Acceptor_new 1 8 () 3 4 0 ep_demo1 = Inr ac
    \<and> Acceptor_Listen (EPollPoller_UpdateChannel table_ctl) 0 ac = Inr ac1
    \<and> Acceptor_dtor (EPollPoller_UpdateChannel table_ctl) (EPollPoller_removeChannel table_ctl) ac1 = Inr ac2
    \<and> ac_open ac2 = {3}"
  using acceptor_leaks_listen_fd [OF table_ctl_spec ep_demo1_inv, of 8 3 4 1 "()"]
  by (fastforce simp: ep_demo1_def table_ctl_def)

end
