(* ===== verification/Worker_Pool.thy ===== *)
theory Worker_Pool
  imports Cobra_Prelude
begin

text \<open>
  \<^verbatim>\<open>WorkerThread\<close> (\<^verbatim>\<open>cobra/worker_thread.h\<close>, \<^verbatim>\<open>cobra/worker_thread.cpp\<close>) and \<^verbatim>\<open>WorkerThreadPool\<close>
  (\<^verbatim>\<open>cobra/worker_thread_pool.h\<close>, \<^verbatim>\<open>cobra/worker_thread_pool.cpp\<close>).

  \<^verbatim>\<open>StartLoop\<close> and \<^verbatim>\<open>ThreadFunc\<close> run in two threads that meet at a mutex and a condition variable. Each
  piece of code between two such points is one function; the relation \<open>tstep\<close> interleaves them, with
  the spurious wake-ups a condition variable allows. A worker is known by its address.
\<close>

section \<open>WorkerThread\<close>

text \<open>Where the starting thread is in \<^verbatim>\<open>StartLoop\<close>, and where the new thread is in \<^verbatim>\<open>ThreadFunc\<close>.\<close>

datatype start_pc = SNew | STest | SWait | SLeft | SRet "nat option"
datatype func_pc = FNone | FInit | FPublish | FLoop | FClear | FDone

record worker_thread =
  wt_worker :: "nat option"
  wt_exiting :: bool
  wt_quit :: bool
  wt_start :: start_pc
  wt_func :: func_pc
  wt_inits :: "nat list"

definition WorkerThread_new :: worker_thread where
  "WorkerThread_new = \<lparr>wt_worker = None, wt_exiting = False, wt_quit = False, wt_start = SNew, wt_func = FNone, wt_inits = []\<rparr>"

text \<open>\<^verbatim>\<open>StartLoop\<close>: the thread is created; \<^verbatim>\<open>worker_\<close> is tested under the mutex, and the wait releases it;
  the last line reads \<^verbatim>\<open>worker_\<close> again, without the mutex.\<close>

definition start_spawn :: "worker_thread \<Rightarrow> worker_thread res" where
  "start_spawn t = cassert (wt_func t = FNone) (Inr (t\<lparr>wt_func := FInit, wt_start := STest\<rparr>))"

definition start_test :: "worker_thread \<Rightarrow> worker_thread" where
  "start_test t = (case wt_worker t of None \<Rightarrow> t\<lparr>wt_start := SWait\<rparr> | Some _ \<Rightarrow> t\<lparr>wt_start := SLeft\<rparr>)"

definition start_return :: "worker_thread \<Rightarrow> worker_thread" where
  "start_return t = t\<lparr>wt_start := SRet (wt_worker t)\<rparr>"

text \<open>\<^verbatim>\<open>ThreadFunc\<close>, with its local worker at the address \<open>a\<close>: the callback runs if there is one, the
  address is published and the waiter notified, the loop runs, and the member is cleared.\<close>

definition func_init :: "bool \<Rightarrow> nat \<Rightarrow> worker_thread \<Rightarrow> worker_thread" where
  "func_init cb a t = (if cb then t\<lparr>wt_inits := wt_inits t @ [a], wt_func := FPublish\<rparr> else t\<lparr>wt_func := FPublish\<rparr>)"

definition func_publish :: "nat \<Rightarrow> worker_thread \<Rightarrow> worker_thread" where
  "func_publish a t =
     (let t1 = t\<lparr>wt_worker := Some a, wt_func := FLoop\<rparr>
      in if wt_start t1 = SWait then t1\<lparr>wt_start := STest\<rparr> else t1)"

definition func_loop_end :: "worker_thread \<Rightarrow> worker_thread" where
  "func_loop_end t = t\<lparr>wt_func := FClear\<rparr>"

definition func_clear :: "worker_thread \<Rightarrow> worker_thread" where
  "func_clear t = t\<lparr>wt_worker := None, wt_func := FDone\<rparr>"

text \<open>The destructor up to the join: the worker is told to quit if it is known.\<close>

definition WorkerThread_dtor :: "worker_thread \<Rightarrow> worker_thread" where
  "WorkerThread_dtor t =
     (let t1 = t\<lparr>wt_exiting := True\<rparr> in case wt_worker t1 of None \<Rightarrow> t1 | Some _ \<Rightarrow> t1\<lparr>wt_quit := True\<rparr>)"

definition returned :: "worker_thread \<Rightarrow> bool" where
  "returned t \<longleftrightarrow> (case wt_start t of SRet _ \<Rightarrow> True | _ \<Rightarrow> False)"

text \<open>
  One step of the two threads. \<open>early\<close> says whether someone may make the loop quit before
  \<^verbatim>\<open>StartLoop\<close> has returned: only code that runs in the loop itself, like a functor that the
  initial callback queued, knows the worker then.
\<close>

inductive tstep :: "bool \<Rightarrow> bool \<Rightarrow> nat \<Rightarrow> worker_thread \<Rightarrow> worker_thread \<Rightarrow> bool" for early cb a where
  spawn: "wt_start t = SNew \<Longrightarrow> start_spawn t = Inr t' \<Longrightarrow> tstep early cb a t t'"
| test: "wt_start t = STest \<Longrightarrow> tstep early cb a t (start_test t)"
| spurious: "wt_start t = SWait \<Longrightarrow> tstep early cb a t (t\<lparr>wt_start := STest\<rparr>)"
| ret: "wt_start t = SLeft \<Longrightarrow> tstep early cb a t (start_return t)"
| init: "wt_func t = FInit \<Longrightarrow> tstep early cb a t (func_init cb a t)"
| publish: "wt_func t = FPublish \<Longrightarrow> tstep early cb a t (func_publish a t)"
| user_quit: "returned t \<or> early \<Longrightarrow> wt_func t = FLoop \<Longrightarrow> tstep early cb a t (t\<lparr>wt_quit := True\<rparr>)"
| dtor: "returned t \<Longrightarrow> tstep early cb a t (WorkerThread_dtor t)"
| loop_end: "wt_func t = FLoop \<Longrightarrow> wt_quit t \<Longrightarrow> tstep early cb a t (func_loop_end t)"
| clear: "wt_func t = FClear \<Longrightarrow> tstep early cb a t (func_clear t)"

inductive_cases tstepE: "tstep early cb a t t'"

text \<open>The callback has run when the worker is known, the starting thread does not wait for a worker that is there, and the loop ends before
  \<^verbatim>\<open>StartLoop\<close> has returned only when it was told to quit that early.\<close>

definition start_inv :: "bool \<Rightarrow> bool \<Rightarrow> nat \<Rightarrow> worker_thread \<Rightarrow> bool" where
  "start_inv early cb a t \<longleftrightarrow>
     (wt_start t = SNew \<longleftrightarrow> wt_func t = FNone)
     \<and> (wt_func t \<in> {FNone, FInit, FPublish} \<longrightarrow> wt_worker t = None \<and> wt_start t \<in> {SNew, STest, SWait} \<and> \<not> wt_quit t)
     \<and> (wt_func t \<in> {FNone, FInit} \<longrightarrow> wt_inits t = [])
     \<and> (wt_func t \<notin> {FNone, FInit} \<longrightarrow> wt_inits t = (if cb then [a] else []))
     \<and> (wt_func t \<in> {FLoop, FClear} \<longrightarrow> wt_worker t = Some a \<and> wt_start t \<noteq> SWait)
     \<and> (wt_func t \<in> {FClear, FDone} \<longrightarrow> wt_quit t) \<and> (wt_func t = FDone \<longrightarrow> wt_worker t = None)
     \<and> (\<not> returned t \<and> \<not> early \<longrightarrow> \<not> wt_quit t)
     \<and> (\<forall>r. wt_start t = SRet r \<longrightarrow> r = Some a \<or> early \<and> r = None \<and> wt_quit t)"

lemmas thread_defs = start_spawn_def start_test_def start_return_def func_init_def func_publish_def
  func_loop_end_def func_clear_def WorkerThread_dtor_def returned_def cassert_def

lemma start_inv_step: "tstep early cb a t t' \<Longrightarrow> start_inv early cb a t \<Longrightarrow> start_inv early cb a t'"
  by (erule tstepE; cases "wt_start t"; cases "wt_func t")
    (auto simp: start_inv_def thread_defs Let_def split: if_splits option.splits)

lemma start_inv_reach: "(tstep early cb a)\<^sup>*\<^sup>* WorkerThread_new t \<Longrightarrow> start_inv early cb a t"
proof (induction rule: rtranclp_induct)
  case base
  show ?case by (simp add: start_inv_def WorkerThread_new_def returned_def)
next
  case (step t t')
  from start_inv_step [OF step(2,3)] show ?case .
qed

text \<open>The loop has ended and \<^verbatim>\<open>worker_\<close> is null again, while \<^verbatim>\<open>StartLoop\<close> has not yet seen it set: it never will.\<close>

definition start_lost :: "worker_thread \<Rightarrow> bool" where
  "start_lost t \<longleftrightarrow> wt_func t = FDone \<and> wt_worker t = None \<and> wt_start t \<in> {STest, SWait}"

lemma lost_start_step: "tstep early cb a t t' \<Longrightarrow> start_lost t \<Longrightarrow> start_lost t'"
  unfolding start_lost_def by (auto elim!: tstepE simp: thread_defs)

lemma lost_start_forever: "(tstep early cb a)\<^sup>*\<^sup>* t t' \<Longrightarrow> start_lost t \<Longrightarrow> start_lost t'"
  by (induction rule: rtranclp_induct) (blast dest: lost_start_step)+

lemma lost_not_returned: "start_lost t \<Longrightarrow> \<not> returned t"
  by (auto simp: start_lost_def returned_def)

text \<open>The work left before \<^verbatim>\<open>StartLoop\<close> returns; only a spurious wake-up does not make it smaller.\<close>

definition start_rank :: "worker_thread \<Rightarrow> nat" where
  "start_rank t =
     (case wt_start t of SNew \<Rightarrow> 3 | STest \<Rightarrow> 2 | SWait \<Rightarrow> 1 | SLeft \<Rightarrow> 1 | SRet _ \<Rightarrow> 0)
     + (case wt_func t of FNone \<Rightarrow> 9 | FInit \<Rightarrow> 6 | FPublish \<Rightarrow> 3 | _ \<Rightarrow> 0)"

lemma start_progress:
  assumes "start_inv early cb a t" and "\<not> returned t" and "\<not> start_lost t"
  shows "\<exists>t'. tstep early cb a t t' \<and> start_rank t' < start_rank t"
proof -
  consider "wt_func t = FPublish" | "wt_func t = FInit" | "wt_start t = SNew" "wt_func t = FNone"
    | "wt_worker t = Some a" "wt_start t = STest" | "wt_start t = SLeft"
    using assms by (cases "wt_start t"; cases "wt_func t") (auto simp: start_inv_def returned_def start_lost_def)
  then show ?thesis
  proof cases
    case 1
    with tstep.publish [OF this] show ?thesis
      by (intro exI [of _ "func_publish a t"]) (auto simp: start_rank_def func_publish_def Let_def split: start_pc.split)
  next
    case 2
    with tstep.init [OF this] show ?thesis
      by (intro exI [of _ "func_init cb a t"]) (auto simp: start_rank_def func_init_def split: start_pc.split)
  next
    case 3
    with tstep.spawn [OF this(1)] show ?thesis
      by (intro exI [of _ "t\<lparr>wt_func := FInit, wt_start := STest\<rparr>"]) (auto simp: start_rank_def start_spawn_def cassert_def)
  next
    case 4
    with tstep.test [OF this(2)] show ?thesis
      by (intro exI [of _ "start_test t"]) (auto simp: start_rank_def start_test_def)
  next
    case 5
    with tstep.ret [OF this] show ?thesis
      by (intro exI [of _ "start_return t"]) (auto simp: start_rank_def start_return_def)
  qed
qed

section \<open>WorkerThreadPool\<close>

record worker_pool =
  baseLoop :: nat
  wp_started :: bool
  numThreads :: int
  wp_next :: int
  loops :: "nat list"
  wp_inits :: "nat list"

definition WorkerThreadPool_new :: "nat \<Rightarrow> worker_pool" where
  "WorkerThreadPool_new base = \<lparr>baseLoop = base, wp_started = False, numThreads = 0, wp_next = 0, loops = [], wp_inits = []\<rparr>"

definition setThreadNum :: "int \<Rightarrow> worker_pool \<Rightarrow> worker_pool" where
  "setThreadNum n p = p\<lparr>numThreads := n\<rparr>"

text \<open>\<open>starts i\<close> is what \<^verbatim>\<open>StartLoop\<close> of the thread number \<open>i\<close> returns; \<open>cb\<close> is whether there is a
  callback, which each thread runs on its own worker, and the pool on the base loop when it has no thread.\<close>

definition pool_start :: "(nat \<Rightarrow> nat) \<Rightarrow> bool \<Rightarrow> worker_pool \<Rightarrow> worker_pool res" where
  "pool_start starts cb p =
     cassert (\<not> wp_started p)
       (let p1 = p\<lparr>wp_started := True\<rparr>;
            p2 = fold (\<lambda>i q. q\<lparr>loops := loops q @ [starts i], wp_inits := (if cb then wp_inits q @ [starts i] else wp_inits q)\<rparr>)
                   [0..<nat (numThreads p1)] p1
        in Inr (if numThreads p2 = 0 \<and> cb then p2\<lparr>wp_inits := wp_inits p2 @ [baseLoop p2]\<rparr> else p2))"

definition getNextLoop :: "worker_pool \<Rightarrow> (nat \<times> worker_pool) res" where
  "getNextLoop p =
     (if loops p \<noteq> []
      then if 0 \<le> wp_next p \<and> nat (wp_next p) < length (loops p)
           then let loop = loops p ! nat (wp_next p);
                    next' = wp_next p + 1
                in Inr (loop, p\<lparr>wp_next := (if length (loops p) \<le> nat next' then 0 else next')\<rparr>)
           else Inl OutOfBounds
      else Inr (baseLoop p, p))"

text \<open>The loops that \<open>n\<close> connections get, one after the other.\<close>

fun next_loops :: "nat \<Rightarrow> worker_pool \<Rightarrow> (nat list \<times> worker_pool) res" where
  "next_loops 0 p = Inr ([], p)"
| "next_loops (Suc n) p = bindE (next_loops n p) (\<lambda>(ls, q). bindE (getNextLoop q) (\<lambda>(l, q'). Inr (ls @ [l], q')))"

lemma pool_start_fold:
  "fold (\<lambda>i q. q\<lparr>loops := loops q @ [f i], wp_inits := (if cb then wp_inits q @ [f i] else wp_inits q)\<rparr>) is p
   = p\<lparr>loops := loops p @ map f is, wp_inits := (if cb then wp_inits p @ map f is else wp_inits p)\<rparr>"
  by (induction "is" arbitrary: p) auto

lemma next_loops_mod:
  assumes "loops p \<noteq> []" and "wp_next p = 0"
  shows "next_loops n p = Inr (map (\<lambda>k. loops p ! (k mod length (loops p))) [0..<n],
    p\<lparr>wp_next := int (n mod length (loops p))\<rparr>)"
proof (induction n)
  case 0
  then show ?case using assms(2) by (cases p) simp
next
  case (Suc n)
  have "n mod length (loops p) < length (loops p)" using assms(1) by simp
  then have "length (loops p) \<le> Suc (n mod length (loops p)) \<longleftrightarrow> Suc (n mod length (loops p)) = length (loops p)"
    by linarith
  with \<open>n mod length (loops p) < length (loops p)\<close> show ?case
    using Suc assms(1) by (auto simp: getNextLoop_def Let_def mod_Suc nat_add_distrib)
qed

section \<open>Properties\<close>

text \<open>
  C34. The hand-shake of \<^verbatim>\<open>WorkerThread::StartLoop\<close> and \<^verbatim>\<open>ThreadFunc\<close>, over every interleaving, with spurious wake-ups and (when \<open>early\<close>) with a loop that
  is told to quit before \<^verbatim>\<open>StartLoop\<close> has returned. When \<^verbatim>\<open>StartLoop\<close> has returned, the initial callback has run once on the worker, and the result is the address of the
  worker, or null when the loop was told to quit so early. As long as it has not returned, one of the two threads can make a step that leaves less work, so it never waits
  for a worker that has been published (no notification is lost); or the loop was told to quit early and has ended unseen, and then \<^verbatim>\<open>StartLoop\<close> never returns. Without an early quit it always
  returns the worker.
\<close>

theorem startLoop_handshake:
  assumes "(tstep early cb a)\<^sup>*\<^sup>* WorkerThread_new t"
  shows "case wt_start t of
      SRet r \<Rightarrow> wt_inits t = (if cb then [a] else []) \<and> (r = Some a \<or> early \<and> r = None \<and> wt_quit t)
    | _ \<Rightarrow> (\<exists>t'. tstep early cb a t t' \<and> start_rank t' < start_rank t)
        \<or> early \<and> wt_quit t \<and> wt_func t = FDone \<and> (\<forall>t'. (tstep early cb a)\<^sup>*\<^sup>* t t' \<longrightarrow> \<not> returned t')"
proof -
  note i = start_inv_reach [OF assms]
  show ?thesis
  proof (cases "returned t")
    case True
    then show ?thesis using i by (auto simp: returned_def start_inv_def split: start_pc.splits)
  next
    case False
    have "early \<and> wt_quit t \<and> wt_func t = FDone \<and> (\<forall>t'. (tstep early cb a)\<^sup>*\<^sup>* t t' \<longrightarrow> \<not> returned t')" if "start_lost t"
      using i that False lost_start_forever [OF _ that] lost_not_returned by (auto simp: start_inv_def start_lost_def)
    then have "(\<exists>t'. tstep early cb a t t' \<and> start_rank t' < start_rank t)
        \<or> early \<and> wt_quit t \<and> wt_func t = FDone \<and> (\<forall>t'. (tstep early cb a)\<^sup>*\<^sup>* t t' \<longrightarrow> \<not> returned t')"
      using start_progress [OF i False] by blast
    then show ?thesis using False by (cases "wt_start t") (simp_all only: returned_def start_pc.case simp_thms)
  qed
qed

definition started_demo :: worker_thread where
  "started_demo = \<lparr>wt_worker = Some 9, wt_exiting = False, wt_quit = False, wt_start = SRet (Some 9), wt_func = FLoop, wt_inits = [9]\<rparr>"

lemma started_demo_reach: "(tstep False True 9)\<^sup>*\<^sup>* WorkerThread_new started_demo"
proof -
  let ?t = "\<lambda>w st f i. \<lparr>wt_worker = w, wt_exiting = False, wt_quit = False, wt_start = st, wt_func = f, wt_inits = i\<rparr>"
  note s = thread_defs Let_def
  have "tstep False True 9 WorkerThread_new (?t None STest FInit [])"
    using tstep.spawn [of WorkerThread_new] by (simp add: WorkerThread_new_def s)
  moreover have "tstep False True 9 (?t None STest FInit []) (?t None SWait FInit [])"
    using tstep.test [of "?t None STest FInit []"] by (simp add: s)
  moreover have "tstep False True 9 (?t None SWait FInit []) (?t None SWait FPublish [9])"
    using tstep.init [of "?t None SWait FInit []" False True 9] by (simp add: s)
  moreover have "tstep False True 9 (?t None SWait FPublish [9]) (?t (Some 9) STest FLoop [9])"
    using tstep.publish [of "?t None SWait FPublish [9]" False True 9] by (simp add: s)
  moreover have "tstep False True 9 (?t (Some 9) STest FLoop [9]) (?t (Some 9) SLeft FLoop [9])"
    using tstep.test [of "?t (Some 9) STest FLoop [9]"] by (simp add: s)
  moreover have "tstep False True 9 (?t (Some 9) SLeft FLoop [9]) started_demo"
    using tstep.ret [of "?t (Some 9) SLeft FLoop [9]"] by (simp add: s started_demo_def)
  ultimately show ?thesis by (meson converse_rtranclp_into_rtranclp rtranclp.rtrancl_refl)
qed

theorem startLoop_handshake_witness: "wt_start started_demo = SRet (Some 9) \<and> wt_inits started_demo = [9]"
  using startLoop_handshake [OF started_demo_reach] by (simp add: started_demo_def)

text \<open>
  Round robin (\<^verbatim>\<open>WorkerThreadPool::start\<close>, \<^verbatim>\<open>getNextLoop\<close>): in a pool of \<open>n\<close> threads, the connection
  number \<open>k\<close> gets the loop of the thread number \<open>k mod n\<close>, with no index out of range, and every full round of \<open>n\<close>
  connections gives one to each loop; with no threads, every connection gets the base loop. The initial
  callback runs once on each loop of the pool, or on the base loop when there is no thread.
\<close>

theorem pool_round_robin:
  "\<exists>p q. pool_start starts cb (setThreadNum (int n) (WorkerThreadPool_new base)) = Inr p
    \<and> wp_inits p = (if cb then if n = 0 then [base] else map starts [0..<n] else [])
    \<and> next_loops m p = Inr (map (\<lambda>k. if n = 0 then base else starts (k mod n)) [0..<m], q)
    \<and> loops q = map starts [0..<n]"
proof (cases "n = 0")
  case True
  let ?p = "(WorkerThreadPool_new base)\<lparr>wp_started := True, wp_inits := (if cb then [base] else [])\<rparr>"
  have start: "pool_start starts cb (setThreadNum (int n) (WorkerThreadPool_new base)) = Inr ?p"
    by (simp add: True pool_start_def setThreadNum_def WorkerThreadPool_new_def Let_def)
  have "next_loops m ?p = Inr (map (\<lambda>k. base) [0..<m], ?p)"
    by (induction m) (simp_all add: getNextLoop_def WorkerThreadPool_new_def)
  then show ?thesis using start by (simp add: True WorkerThreadPool_new_def)
next
  case False
  let ?p = "(WorkerThreadPool_new base)\<lparr>wp_started := True, numThreads := int n, loops := map starts [0..<n],
    wp_inits := (if cb then map starts [0..<n] else [])\<rparr>"
  have start: "pool_start starts cb (setThreadNum (int n) (WorkerThreadPool_new base)) = Inr ?p"
    using False by (simp add: pool_start_def setThreadNum_def WorkerThreadPool_new_def pool_start_fold Let_def)
  have "next_loops m ?p = Inr (map (\<lambda>k. loops ?p ! (k mod length (loops ?p))) [0..<m],
      ?p\<lparr>wp_next := int (m mod length (loops ?p))\<rparr>)"
    by (rule next_loops_mod) (use False in \<open>simp_all add: WorkerThreadPool_new_def\<close>)
  then show ?thesis using start False by (simp add: WorkerThreadPool_new_def)
qed

text \<open>
  When the loop is told to quit before \<^verbatim>\<open>StartLoop\<close> has seen the worker (a functor queued by the initial
  callback can do it), \<^verbatim>\<open>ThreadFunc\<close> sets \<^verbatim>\<open>worker_\<close> back to null, and the test of \<^verbatim>\<open>StartLoop\<close>
  misses the moment at which it was set: there is a run after which \<^verbatim>\<open>StartLoop\<close> never returns.
\<close>

theorem startLoop_early_quit_hangs:
  "\<exists>t. (tstep True cb a)\<^sup>*\<^sup>* WorkerThread_new t \<and> wt_func t = FDone
    \<and> \<not> (\<exists>t'. (tstep True cb a)\<^sup>*\<^sup>* t t' \<and> returned t')"
proof -
  let ?i = "if cb then [a] else []"
  let ?t = "\<lambda>w q st f i. \<lparr>wt_worker = w, wt_exiting = False, wt_quit = q, wt_start = st, wt_func = f, wt_inits = i\<rparr>"
  note s = thread_defs Let_def
  have "tstep True cb a WorkerThread_new (?t None False STest FInit [])"
    using tstep.spawn [of WorkerThread_new] by (simp add: WorkerThread_new_def s)
  moreover have "tstep True cb a (?t None False STest FInit []) (?t None False STest FPublish ?i)"
    using tstep.init [of "?t None False STest FInit []" True cb a] by (simp add: s split: if_splits)
  moreover have "tstep True cb a (?t None False STest FPublish ?i) (?t (Some a) False STest FLoop ?i)"
    using tstep.publish [of "?t None False STest FPublish ?i" True cb a] by (simp add: s)
  moreover have "tstep True cb a (?t (Some a) False STest FLoop ?i) (?t (Some a) True STest FLoop ?i)"
    using tstep.user_quit [of "?t (Some a) False STest FLoop ?i" True cb a] by (simp add: s)
  moreover have "tstep True cb a (?t (Some a) True STest FLoop ?i) (?t (Some a) True STest FClear ?i)"
    using tstep.loop_end [of "?t (Some a) True STest FLoop ?i" True cb a] by (simp add: s)
  moreover have "tstep True cb a (?t (Some a) True STest FClear ?i) (?t None True STest FDone ?i)"
    using tstep.clear [of "?t (Some a) True STest FClear ?i" True cb a] by (simp add: s)
  ultimately have "(tstep True cb a)\<^sup>*\<^sup>* WorkerThread_new (?t None True STest FDone ?i)"
    by (meson converse_rtranclp_into_rtranclp rtranclp.rtrancl_refl)
  moreover have "\<not> returned t'" if "(tstep True cb a)\<^sup>*\<^sup>* (?t None True STest FDone ?i) t'" for t'
    using lost_not_returned [OF lost_start_forever [OF that]] by (simp add: start_lost_def)
  ultimately show ?thesis by (intro exI [of _ "?t None True STest FDone ?i"]) auto
qed

end
