(* ===== verification/Server.thy ===== *)
theory Server
  imports Acceptor Worker_Pool "HOL-Library.AList" "HOL-Library.List_Lexorder" "HOL-Library.Char_ord"
begin

text \<open>
  \<^verbatim>\<open>Server\<close> of \<^verbatim>\<open>cobra/server.h\<close> and \<^verbatim>\<open>cobra/server.cpp\<close>: it accepts connections in its own loop and
  spreads them over the loops of a pool. The record holds the members, and what they point to: the
  connections by address (\<open>sv_conns\<close>) and the functors waiting in each loop (\<open>sv_queues\<close>). Of a connection the
  server uses the name, the loop and the callbacks; its life is the state of \<^verbatim>\<open>TcpConnection\<close> and whether its channel was
  removed, with the assertions of the operations the server calls. \<open>sv_log\<close> records the functors
  that have run, with the loop that ran them.

  The second part is about the loops together: \<open>sstep\<close> is one step of one of the loop threads.
\<close>

section \<open>State\<close>

record 'cb srv_conn =
  sc_loop :: nat
  sc_name :: string
  sc_fd :: int
  sc_local :: endpoint
  sc_peer :: endpoint
  sc_state :: conn_state
  sc_removed :: bool
  sc_connectionCb :: "'cb option"
  sc_messageCb :: "'cb option"
  sc_writeCompleteCb :: "'cb option"
  sc_closeCb :: bool

datatype srv_functor = FListen | FEstablished nat | FRemove nat | FDestroyed nat

record ('s, 'cb) server =
  sv_started :: bool
  sv_loop :: nat
  hostport :: string
  sv_name :: string
  sv_acceptor :: "'s acceptor"
  thread_pool :: worker_pool
  sv_threadInitCb :: bool
  sv_connectionCb :: "'cb option"
  sv_messageCb :: "'cb option"
  sv_writeCompleteCb :: "'cb option"
  connections :: "(string \<times> nat) list"
  next_conn_id :: "32 word"
  sv_conns :: "nat \<rightharpoonup> 'cb srv_conn"
  sv_queues :: "nat \<Rightarrow> srv_functor list"
  sv_log :: "(nat \<times> srv_functor) list"

text \<open>The constructor, with the acceptor already made; \<open>defConn\<close> and \<open>defMsg\<close> are the default callbacks.\<close>

definition Server_new ::
  "endianness \<Rightarrow> (32 word \<Rightarrow> string) \<Rightarrow> nat \<Rightarrow> endpoint \<Rightarrow> string \<Rightarrow> 's acceptor \<Rightarrow> 'cb \<Rightarrow> 'cb \<Rightarrow> 32 word \<Rightarrow> ('s, 'cb) server" where
  "Server_new host ntop loop listenAddr server_name acceptor defConn defMsg ids =
     \<lparr>sv_started = False, sv_loop = loop, hostport = toIpPort host ntop listenAddr, sv_name = server_name,
      sv_acceptor = SetNewConnectionCb acceptor, thread_pool = WorkerThreadPool_new loop, sv_threadInitCb = False,
      sv_connectionCb = Some defConn, sv_messageCb = Some defMsg, sv_writeCompleteCb = None,
      connections = [], next_conn_id = ids, sv_conns = Map.empty, sv_queues = (\<lambda>_. []), sv_log = []\<rparr>"

definition SetConnectionCb :: "'cb \<Rightarrow> ('s, 'cb) server \<Rightarrow> ('s, 'cb) server" where
  "SetConnectionCb cb w = w\<lparr>sv_connectionCb := Some cb\<rparr>"

definition SetMessageCb :: "'cb \<Rightarrow> ('s, 'cb) server \<Rightarrow> ('s, 'cb) server" where
  "SetMessageCb cb w = w\<lparr>sv_messageCb := Some cb\<rparr>"

definition SetWriteCompleteCb :: "'cb \<Rightarrow> ('s, 'cb) server \<Rightarrow> ('s, 'cb) server" where
  "SetWriteCompleteCb cb w = w\<lparr>sv_writeCompleteCb := Some cb\<rparr>"

definition SetThreadInitCb :: "('s, 'cb) server \<Rightarrow> ('s, 'cb) server" where
  "SetThreadInitCb w = w\<lparr>sv_threadInitCb := True\<rparr>"

text \<open>The \<^verbatim>\<open>uint32\<close> becomes the \<^verbatim>\<open>int\<close> of the pool.\<close>

definition SetThreadNum :: "32 word \<Rightarrow> ('s, 'cb) server \<Rightarrow> ('s, 'cb) server" where
  "SetThreadNum threads w = w\<lparr>thread_pool := setThreadNum (sint threads) (thread_pool w)\<rparr>"

section \<open>Operations\<close>

definition sv_queueInLoop :: "nat \<Rightarrow> srv_functor \<Rightarrow> ('s, 'cb) server \<Rightarrow> ('s, 'cb) server" where
  "sv_queueInLoop loop f w = w\<lparr>sv_queues := (sv_queues w)(loop := sv_queues w loop @ [f])\<rparr>"

definition mod_conn ::
  "nat \<Rightarrow> ('cb srv_conn \<Rightarrow> 'cb srv_conn res) \<Rightarrow> ('s, 'cb) server \<Rightarrow> ('s, 'cb) server res" where
  "mod_conn c f w =
     (case sv_conns w c of
        None \<Rightarrow> Inl NullDeref
      | Some sc \<Rightarrow> bindE (f sc) (\<lambda>sc'. Inr (w\<lparr>sv_conns := (sv_conns w)(c \<mapsto> sc')\<rparr>)))"

text \<open>The states of \<^verbatim>\<open>TcpConnection::ConnectionEstablished\<close>, \<^verbatim>\<open>ConnectionDestroyed\<close> and \<^verbatim>\<open>handleClose\<close>. The channel
  can only be removed when it is registered and wants no event, that is after \<^verbatim>\<open>disableAll\<close> and once.\<close>

definition conn_established :: "'cb srv_conn \<Rightarrow> 'cb srv_conn res" where
  "conn_established sc = cassert (sc_state sc = kConnecting) (Inr (sc\<lparr>sc_state := kConnected\<rparr>))"

definition conn_destroyed :: "'cb srv_conn \<Rightarrow> 'cb srv_conn res" where
  "conn_destroyed sc =
     (let sc1 = (if sc_state sc = kConnected then sc\<lparr>sc_state := kDisconnected\<rparr> else sc)
      in cassert (sc_state sc1 = kDisconnected \<and> \<not> sc_removed sc1) (Inr (sc1\<lparr>sc_removed := True\<rparr>)))"

definition conn_closed :: "'cb srv_conn \<Rightarrow> 'cb srv_conn res" where
  "conn_closed sc =
     cassert (sc_state sc = kConnected \<or> sc_state sc = kDisconnecting) (Inr (sc\<lparr>sc_state := kDisconnected\<rparr>))"

definition RemoveConnectionInLoop :: "nat \<Rightarrow> ('s, 'cb) server \<Rightarrow> ('s, 'cb) server res" where
  "RemoveConnectionInLoop c w =
     (case sv_conns w c of
        None \<Rightarrow> Inl NullDeref
      | Some sc \<Rightarrow>
          let n = (if map_of (connections w) (sc_name sc) = None then 0 else 1 :: nat);
              w1 = w\<lparr>connections := AList.delete (sc_name sc) (connections w)\<rparr>
          in cassert (n = 1) (Inr (sv_queueInLoop (sc_loop sc) (FDestroyed c) w1)))"

text \<open>A loop runs a functor; \<open>upd\<close> is the poller below the server's loop, \<open>ret\<close> the answer of \<^verbatim>\<open>listen\<close>.\<close>

definition run_functor ::
  "(nat \<Rightarrow> ('e, 'z) chan_store_scheme \<Rightarrow> ('e, 'z) chan_store_scheme res) \<Rightarrow> int \<Rightarrow> nat \<Rightarrow> srv_functor
     \<Rightarrow> (('e, 'z) chan_store_scheme, 'cb) server \<Rightarrow> (('e, 'z) chan_store_scheme, 'cb) server res" where
  "run_functor upd ret self f w =
     bindE (case f of
          FListen \<Rightarrow> bindE (Acceptor_Listen upd ret (sv_acceptor w)) (\<lambda>ac. Inr (w\<lparr>sv_acceptor := ac\<rparr>))
        | FEstablished c \<Rightarrow> mod_conn c conn_established w
        | FRemove c \<Rightarrow> RemoveConnectionInLoop c w
        | FDestroyed c \<Rightarrow> mod_conn c conn_destroyed w)
       (\<lambda>w1. Inr (w1\<lparr>sv_log := sv_log w1 @ [(self, f)]\<rparr>))"

definition sv_runInLoop ::
  "(nat \<Rightarrow> ('e, 'z) chan_store_scheme \<Rightarrow> ('e, 'z) chan_store_scheme res) \<Rightarrow> int \<Rightarrow> nat \<Rightarrow> nat \<Rightarrow> srv_functor
     \<Rightarrow> (('e, 'z) chan_store_scheme, 'cb) server \<Rightarrow> (('e, 'z) chan_store_scheme, 'cb) server res" where
  "sv_runInLoop upd ret self loop f w =
     (if self = loop then run_functor upd ret self f w else Inr (sv_queueInLoop loop f w))"

definition Server_start ::
  "(nat \<Rightarrow> ('e, 'z) chan_store_scheme \<Rightarrow> ('e, 'z) chan_store_scheme res) \<Rightarrow> int \<Rightarrow> (nat \<Rightarrow> nat) \<Rightarrow> nat
     \<Rightarrow> (('e, 'z) chan_store_scheme, 'cb) server \<Rightarrow> (('e, 'z) chan_store_scheme, 'cb) server res" where
  "Server_start upd ret starts self w =
     (if sv_started w then Inr w
      else bindE (pool_start starts (sv_threadInitCb w) (thread_pool w)) (\<lambda>p.
        let w1 = w\<lparr>thread_pool := p\<rparr>
        in cassert (\<not> listenning (sv_acceptor w1))
             (bindE (sv_runInLoop upd ret self (sv_loop w1) FListen w1) (\<lambda>w2. Inr (w2\<lparr>sv_started := True\<rparr>)))))"

definition conn_name :: "string \<Rightarrow> string \<Rightarrow> 32 word \<Rightarrow> string" where
  "conn_name name hp i = name @ snprintf_fit 32 ('':'' @ hp @ ''#'' @ dec_int (sint i))"

text \<open>A new connection on \<open>conn_fd\<close>, in the loop thread of the server; \<open>a\<close> is the address of the new object,
  \<open>lr\<close> the answer of \<^verbatim>\<open>getsockname\<close>.\<close>

definition EstablishConnection ::
  "(nat \<Rightarrow> ('e, 'z) chan_store_scheme \<Rightarrow> ('e, 'z) chan_store_scheme res) \<Rightarrow> int \<Rightarrow> nat \<Rightarrow> endpoint option \<Rightarrow> int \<Rightarrow> endpoint
     \<Rightarrow> (('e, 'z) chan_store_scheme, 'cb) server \<Rightarrow> (('e, 'z) chan_store_scheme, 'cb) server res" where
  "EstablishConnection upd ret a lr fd peer_address w =
     bindE (getNextLoop (thread_pool w)) (\<lambda>(ioLoop, p).
       let connName = conn_name (sv_name w) (hostport w) (next_conn_id w);
           conn = \<lparr>sc_loop = ioLoop, sc_name = connName, sc_fd = fd, sc_local = getLocalAddr lr, sc_peer = peer_address,
                   sc_state = kConnecting, sc_removed = False, sc_connectionCb = sv_connectionCb w, sc_messageCb = sv_messageCb w,
                   sc_writeCompleteCb = sv_writeCompleteCb w, sc_closeCb = True\<rparr>;
           w1 = w\<lparr>thread_pool := p, next_conn_id := next_conn_id w + 1, connections := AList.update connName a (connections w),
                 sv_conns := (sv_conns w)(a \<mapsto> conn)\<rparr>
       in sv_runInLoop upd ret (sv_loop w1) ioLoop (FEstablished a) w1)"

definition RemoveConnection ::
  "(nat \<Rightarrow> ('e, 'z) chan_store_scheme \<Rightarrow> ('e, 'z) chan_store_scheme res) \<Rightarrow> int \<Rightarrow> nat \<Rightarrow> nat
     \<Rightarrow> (('e, 'z) chan_store_scheme, 'cb) server \<Rightarrow> (('e, 'z) chan_store_scheme, 'cb) server res" where
  "RemoveConnection upd ret self c w = sv_runInLoop upd ret self (sv_loop w) (FRemove c) w"

text \<open>The destructor visits the connections in the order of their names.\<close>

definition Server_dtor ::
  "(nat \<Rightarrow> ('e, 'z) chan_store_scheme \<Rightarrow> ('e, 'z) chan_store_scheme res) \<Rightarrow> int
     \<Rightarrow> (('e, 'z) chan_store_scheme, 'cb) server \<Rightarrow> (('e, 'z) chan_store_scheme, 'cb) server res" where
  "Server_dtor upd ret w =
     foldE (\<lambda>(name, c) w'. case sv_conns w' c of
          None \<Rightarrow> Inl NullDeref
        | Some sc \<Rightarrow> sv_runInLoop upd ret (sv_loop w') (sc_loop sc) (FDestroyed c) w')
       (sort_key fst (connections w)) w"

section \<open>The names of connections\<close>

lemma dec_int_inj: "dec_int i = dec_int j \<Longrightarrow> i = j"
proof -
  have dash: "CHR ''-'' # s \<noteq> dec_nat n" for s n
  proof
    assume "CHR ''-'' # s = dec_nat n"
    then have "CHR ''-'' \<in> set (dec_nat n)" by (metis list.set_intros(1))
    then obtain d where "d < 10" "CHR ''-'' = digit_char d" using dec_nat_digits by blast
    then have "(of_char CHR ''-'' :: nat) = 48 + d" by (simp only: of_char_digit)
    then show False by simp
  qed
  assume eq: "dec_int i = dec_int j"
  show ?thesis
  proof (cases "i < 0"; cases "j < 0")
    assume "i < 0" "j < 0" then show ?thesis using eq by (auto simp: dec_int_def dest: dec_nat_inj)
  next
    assume "i < 0" "\<not> j < 0" then show ?thesis using eq dash by (simp add: dec_int_def)
  next
    assume "\<not> i < 0" "j < 0" then show ?thesis using eq dash [symmetric] by (simp add: dec_int_def)
  next
    assume "\<not> i < 0" "\<not> j < 0" then show ?thesis using eq by (auto simp: dec_int_def dest: dec_nat_inj)
  qed
qed

lemma dec_sint_length: "length (dec_int (sint (i :: 32 word))) \<le> 11"
proof -
  have b: "- (2 ^ 31) \<le> sint i" "sint i < 2 ^ 31" using sint_greater_eq [of i] sint_less [of i] by simp_all
  then have "nat (- sint i) < 10 ^ 10" "nat (sint i) < 10 ^ 10" by simp_all
  then show ?thesis using dec_nat_length [of "nat (- sint i)" 10] dec_nat_length [of "nat (sint i)" 10]
    by (simp add: dec_int_def)
qed

lemma toIpPort_length: "length (toIpPort host ntop e) \<le> 13"
proof -
  let ?p = "unat (networkToHost16 host (sin_port e))"
  have "?p < 2 ^ LENGTH(16)" by (rule unsigned_less)
  then have "?p < 10 ^ 5" by simp
  then have "length (dec_nat ?p) \<le> 5" by (rule dec_nat_length) simp
  then show ?thesis by (simp add: toIpPort_def snprintf_fit_def)
qed

lemma conn_name_fits:
  assumes "length hp \<le> 13"
  shows "conn_name name hp i = name @ '':'' @ hp @ ''#'' @ dec_int (sint i)"
  using dec_sint_length [of i] assms by (simp add: conn_name_def snprintf_fit_def)

lemma conn_name_inj:
  assumes "length hp \<le> 13" and "conn_name name hp i = conn_name name hp j"
  shows "i = j"
proof -
  have "sint i = sint j" using assms by (auto simp: conn_name_fits dest: dec_int_inj)
  then show ?thesis by (rule signed_word_eqI)
qed

section \<open>The loops together\<close>

text \<open>
  The steps of the loop threads: the acceptor hands over a new connection; a loop runs its next
  functor; a connection sees its end in its own loop, and its close callback runs; a connection is
  shut down. A step has the result of the code that runs, which can be a failed assertion. The server accepts less than \<open>2 ^ 32\<close>
  connections in its life, counted from the identity \<open>0\<close>.
\<close>

inductive sstep ::
  "(nat \<Rightarrow> ('e, 'z) chan_store_scheme \<Rightarrow> ('e, 'z) chan_store_scheme res) \<Rightarrow> int
     \<Rightarrow> (('e, 'z) chan_store_scheme, 'cb) server \<Rightarrow> (('e, 'z) chan_store_scheme, 'cb) server res \<Rightarrow> bool" for upd ret where
  accept: "sv_conns w a = None \<Longrightarrow> unat (next_conn_id w) + 1 < 2 ^ 32 \<Longrightarrow>
     sstep upd ret w (EstablishConnection upd ret a lr fd peer w)"
| turn: "sv_queues w l = f # fs \<Longrightarrow> f \<noteq> FListen \<Longrightarrow>
     sstep upd ret w (run_functor upd ret l f (w\<lparr>sv_queues := (sv_queues w)(l := fs)\<rparr>))"
| close: "sv_conns w c = Some sc \<Longrightarrow> sc_state sc = kConnected \<or> sc_state sc = kDisconnecting \<Longrightarrow>
     sstep upd ret w (bindE (mod_conn c conn_closed w) (RemoveConnection upd ret (sc_loop sc) c))"
| shut: "sv_conns w c = Some sc \<Longrightarrow> sc_state sc = kConnected \<Longrightarrow>
     sstep upd ret w (Inr (w\<lparr>sv_conns := (sv_conns w)(c \<mapsto> sc\<lparr>sc_state := kDisconnecting\<rparr>)\<rparr>))"

inductive_cases sstepE: "sstep upd ret w r"

inductive sreach for upd ret w0 where
  start: "sreach upd ret w0 w0"
| step: "sreach upd ret w0 w \<Longrightarrow> sstep upd ret w (Inr w') \<Longrightarrow> sreach upd ret w0 w'"

definition about :: "nat \<Rightarrow> srv_functor \<Rightarrow> bool" where
  "about c f \<longleftrightarrow> f = FEstablished c \<or> f = FRemove c \<or> f = FDestroyed c"

definition pending :: "('s, 'cb) server \<Rightarrow> nat \<Rightarrow> nat \<Rightarrow> srv_functor list" where
  "pending w c l = filter (about c) (sv_queues w l)"

definition history :: "('s, 'cb) server \<Rightarrow> nat \<Rightarrow> (nat \<times> srv_functor) list" where
  "history w c = filter (\<lambda>(l, f). about c f) (sv_log w)"

text \<open>The life of a connection: established, removed and destroyed, each in the right loop. \<open>h\<close> is the part
  that has run and \<open>p\<close> the part that waits in the queues; \<open>inm\<close> says that the server lists the connection.\<close>

definition life :: "nat \<Rightarrow> nat \<Rightarrow> 'cb srv_conn \<Rightarrow> (nat \<times> srv_functor) list" where
  "life sl c sc = [(sc_loop sc, FEstablished c), (sl, FRemove c), (sc_loop sc, FDestroyed c)]"

definition only :: "nat \<Rightarrow> 'f \<Rightarrow> nat \<Rightarrow> 'f list" where
  "only l f = (\<lambda>k. if k = l then [f] else [])"

definition phase_ok :: "nat \<Rightarrow> nat \<Rightarrow> 'cb srv_conn \<Rightarrow> bool \<Rightarrow> (nat \<times> srv_functor) list \<Rightarrow> (nat \<Rightarrow> srv_functor list) \<Rightarrow> bool" where
  "phase_ok sl c sc inm h p \<longleftrightarrow>
     (case sc_state sc of
        kConnecting \<Rightarrow> inm \<and> \<not> sc_removed sc \<and> h = [] \<and> p = only (sc_loop sc) (FEstablished c)
      | kConnected \<Rightarrow> inm \<and> \<not> sc_removed sc \<and> h = take 1 (life sl c sc) \<and> p = (\<lambda>_. [])
      | kDisconnecting \<Rightarrow> inm \<and> \<not> sc_removed sc \<and> h = take 1 (life sl c sc) \<and> p = (\<lambda>_. [])
      | kDisconnected \<Rightarrow>
          if inm then \<not> sc_removed sc \<and> h = take 1 (life sl c sc) \<and> p = only sl (FRemove c)
          else if \<not> sc_removed sc then h = take 2 (life sl c sc) \<and> p = only (sc_loop sc) (FDestroyed c)
          else h = life sl c sc \<and> p = (\<lambda>_. []))"

definition conn_ok :: "('s, 'cb) server \<Rightarrow> nat \<Rightarrow> 'cb srv_conn \<Rightarrow> bool" where
  "conn_ok w c sc \<longleftrightarrow>
     phase_ok (sv_loop w) c sc (map_of (connections w) (sc_name sc) = Some c) (history w c) (pending w c)
     \<and> (\<exists>i < unat (next_conn_id w). sc_name sc = conn_name (sv_name w) (hostport w) (of_nat i))"

definition pool_ok :: "worker_pool \<Rightarrow> bool" where
  "pool_ok p \<longleftrightarrow> (loops p \<noteq> [] \<longrightarrow> 0 \<le> wp_next p \<and> nat (wp_next p) < length (loops p))"

definition server_inv :: "('s, 'cb) server \<Rightarrow> bool" where
  "server_inv w \<longleftrightarrow>
     (\<forall>c sc. sv_conns w c = Some sc \<longrightarrow> conn_ok w c sc)
     \<and> (\<forall>c. sv_conns w c = None \<longrightarrow> history w c = [] \<and> pending w c = (\<lambda>_. []))
     \<and> (\<forall>n c. map_of (connections w) n = Some c \<longrightarrow> (\<exists>sc. sv_conns w c = Some sc \<and> sc_name sc = n))
     \<and> (\<forall>c d sc sd. sv_conns w c = Some sc \<longrightarrow> sv_conns w d = Some sd \<longrightarrow> sc_name sc = sc_name sd \<longrightarrow> c = d)
     \<and> length (hostport w) \<le> 13 \<and> pool_ok (thread_pool w)"

lemma server_invD:
  assumes "server_inv w"
  shows "sv_conns w c = Some sc \<Longrightarrow> conn_ok w c sc"
    and "sv_conns w c = None \<Longrightarrow> history w c = [] \<and> pending w c = (\<lambda>_. [])"
    and "map_of (connections w) n = Some c \<Longrightarrow> \<exists>sc. sv_conns w c = Some sc \<and> sc_name sc = n"
    and "sv_conns w c = Some sc \<Longrightarrow> sv_conns w d = Some sd \<Longrightarrow> sc_name sc = sc_name sd \<Longrightarrow> c = d"
    and "length (hostport w) \<le> 13" and "pool_ok (thread_pool w)"
  using assms unfolding server_inv_def by blast+

text \<open>A step changes one connection \<open>c\<close>, and only the functors about it.\<close>

lemma server_inv_update:
  assumes inv: "server_inv w"
    and conns: "sv_conns w' = (sv_conns w)(c \<mapsto> sc')"
    and name: "\<And>d sd. sv_conns w d = Some sd \<Longrightarrow> (sc_name sd = sc_name sc') = (d = c)"
    and other: "\<And>d. d \<noteq> c \<Longrightarrow> history w' d = history w d \<and> pending w' d = pending w d"
    and cmap: "\<And>n. n \<noteq> sc_name sc' \<Longrightarrow> map_of (connections w') n = map_of (connections w) n"
      "map_of (connections w') (sc_name sc') \<in> {None, Some c}"
    and same: "sv_loop w' = sv_loop w" "sv_name w' = sv_name w" "hostport w' = hostport w"
      "unat (next_conn_id w) \<le> unat (next_conn_id w')" "pool_ok (thread_pool w')"
    and new: "conn_ok w' c sc'"
  shows "server_inv w'"
proof -
  have "conn_ok w' d sd" if d: "sv_conns w' d = Some sd" for d sd
  proof (cases "d = c")
    case True
    with d new conns show ?thesis by simp
  next
    case False
    with d conns have old: "sv_conns w d = Some sd" by simp
    then have "sc_name sd \<noteq> sc_name sc'" using name False by auto
    then have m: "map_of (connections w') (sc_name sd) = map_of (connections w) (sc_name sd)" by (rule cmap(1))
    obtain i where "i < unat (next_conn_id w)" "sc_name sd = conn_name (sv_name w) (hostport w) (of_nat i)"
      using server_invD(1) [OF inv old] by (auto simp: conn_ok_def)
    then have "\<exists>i < unat (next_conn_id w'). sc_name sd = conn_name (sv_name w') (hostport w') (of_nat i)"
      using same by (intro exI [of _ i]) simp
    with server_invD(1) [OF inv old] other [OF False] same(1) m show ?thesis by (simp add: conn_ok_def)
  qed
  moreover have "\<exists>sc. sv_conns w' d = Some sc \<and> sc_name sc = n" if "map_of (connections w') n = Some d" for n d
  proof (cases "n = sc_name sc'")
    case True
    with that cmap(2) conns show ?thesis by auto
  next
    case False
    with that cmap(1) have "map_of (connections w) n = Some d" by simp
    then obtain sd where "sv_conns w d = Some sd" "sc_name sd = n" using server_invD(3) [OF inv] by blast
    with False name [of d sd] conns show ?thesis by auto
  qed
  moreover have "d = e" if "sv_conns w' d = Some sd" "sv_conns w' e = Some se" "sc_name sd = sc_name se" for d e sd se
    using that conns name server_invD(4) [OF inv, of d sd e se] by (auto split: if_splits)
  moreover have "history w' d = [] \<and> pending w' d = (\<lambda>_. [])" if "sv_conns w' d = None" for d
    using that conns other [of d] server_invD(2) [OF inv, of d] by (auto split: if_splits)
  ultimately show ?thesis using server_invD(5) [OF inv] same by (simp add: server_inv_def)
qed

lemma pending_pop:
  "sv_queues w l = f # fs \<Longrightarrow> pending (w\<lparr>sv_queues := (sv_queues w)(l := fs)\<rparr>) d
     = (if about d f then (pending w d)(l := tl (pending w d l)) else pending w d)"
  by (rule ext) (simp add: pending_def)

lemma pending_queue:
  "pending (sv_queueInLoop l f w) d = (if about d f then (pending w d)(l := pending w d l @ [f]) else pending w d)"
  by (rule ext) (simp add: pending_def sv_queueInLoop_def)

lemma pending_frame [simp]:
  "pending (w\<lparr>sv_conns := x\<rparr>) = pending w" "pending (w\<lparr>connections := y\<rparr>) = pending w" "pending (w\<lparr>sv_log := z\<rparr>) = pending w"
  "pending (w\<lparr>thread_pool := p\<rparr>) = pending w" "pending (w\<lparr>next_conn_id := i\<rparr>) = pending w"
  by (simp_all add: pending_def fun_eq_iff)

lemma history_frame [simp]:
  "history (w\<lparr>sv_conns := x\<rparr>) = history w" "history (w\<lparr>connections := y\<rparr>) = history w"
  "history (w\<lparr>sv_queues := q\<rparr>) = history w" "history (sv_queueInLoop l f w) = history w"
  "history (w\<lparr>thread_pool := p\<rparr>) = history w" "history (w\<lparr>next_conn_id := i\<rparr>) = history w"
  "history (w\<lparr>sv_log := sv_log w @ [(l, f)]\<rparr>) d = history w d @ (if about d f then [(l, f)] else [])"
  by (simp_all add: history_def sv_queueInLoop_def fun_eq_iff)

lemma queue_frame [simp]:
  "sv_conns (sv_queueInLoop l f w) = sv_conns w" "connections (sv_queueInLoop l f w) = connections w"
  "sv_loop (sv_queueInLoop l f w) = sv_loop w" "sv_name (sv_queueInLoop l f w) = sv_name w"
  "hostport (sv_queueInLoop l f w) = hostport w" "next_conn_id (sv_queueInLoop l f w) = next_conn_id w"
  "thread_pool (sv_queueInLoop l f w) = thread_pool w" "sv_log (sv_queueInLoop l f w) = sv_log w"
  by (simp_all add: sv_queueInLoop_def)

lemma about_simps [simp]:
  "about d (FEstablished c) = (d = c)" "about d (FRemove c) = (d = c)" "about d (FDestroyed c) = (d = c)" "\<not> about d FListen"
  by (auto simp: about_def)

lemma map_of_delete [simp]: "map_of (AList.delete k xs) n = (if n = k then None else map_of xs n)"
  by (simp add: AList.delete_conv')

lemma map_of_update [simp]: "map_of (AList.update k v xs) n = (if n = k then Some v else map_of xs n)"
  by (simp add: AList.update_conv')

lemma only_simps [simp]: "(only l f)(l := []) = (\<lambda>_. [])" "only l f l = [f]" "(\<lambda>_. [])(l := [f]) = only l f"
  by (auto simp: only_def)

text \<open>The connection of a functor that is next in a queue, and what is known of it.\<close>

lemma next_functor:
  assumes "server_inv w" and "sv_queues w l = f # fs" and "about c f"
  obtains sc where "sv_conns w c = Some sc" "conn_ok w c sc"
    "f = FEstablished c \<Longrightarrow> sc_state sc = kConnecting \<and> l = sc_loop sc"
    "f = FRemove c \<Longrightarrow> sc_state sc = kDisconnected \<and> l = sv_loop w \<and> map_of (connections w) (sc_name sc) = Some c"
    "f = FDestroyed c \<Longrightarrow> sc_state sc = kDisconnected \<and> l = sc_loop sc \<and> map_of (connections w) (sc_name sc) \<noteq> Some c \<and> \<not> sc_removed sc"
proof -
  have p: "pending w c l = f # filter (about c) fs" using assms(2,3) by (simp add: pending_def)
  then have "\<not> (\<forall>k. pending w c k = [])" by (metis list.distinct(1))
  then obtain sc where sc: "sv_conns w c = Some sc"
    using server_invD(2) [OF assms(1), of c] by (cases "sv_conns w c") auto
  have ok: "conn_ok w c sc" by (rule server_invD(1) [OF assms(1) sc])
  then have "phase_ok (sv_loop w) c sc (map_of (connections w) (sc_name sc) = Some c) (history w c) (pending w c)"
    by (simp add: conn_ok_def)
  then show ?thesis using p
    by (intro that [OF sc ok]) (auto simp: phase_ok_def only_def split: conn_state.splits if_splits)
qed

lemma same_name:
  assumes "server_inv w" and "sv_conns w c = Some sc" and "sc_name sc' = sc_name sc" and "sv_conns w d = Some sd"
  shows "(sc_name sd = sc_name sc') = (d = c)"
  using server_invD(4) [OF assms(1,4,2)] assms by auto

lemma turn_established:
  assumes inv: "server_inv w" and q: "sv_queues w l = FEstablished c # fs"
  shows "\<exists>w'. run_functor upd ret l (FEstablished c) (w\<lparr>sv_queues := (sv_queues w)(l := fs)\<rparr>) = Inr w' \<and> server_inv w'"
proof -
  let ?w = "w\<lparr>sv_queues := (sv_queues w)(l := fs)\<rparr>"
  obtain sc where sc: "sv_conns w c = Some sc" "conn_ok w c sc" "sc_state sc = kConnecting" "l = sc_loop sc"
    using next_functor [OF inv q, of c] by auto
  let ?w' = "?w\<lparr>sv_conns := (sv_conns w)(c \<mapsto> sc\<lparr>sc_state := kConnected\<rparr>), sv_log := sv_log w @ [(l, FEstablished c)]\<rparr>"
  have "run_functor upd ret l (FEstablished c) ?w = Inr ?w'"
    using sc by (simp add: run_functor_def mod_conn_def conn_established_def)
  moreover have h: "history ?w' d = history w d @ (if d = c then [(l, FEstablished c)] else [])" for d
    by (simp add: history_def)
  moreover have p: "pending ?w' d = (if d = c then (pending w d)(l := tl (pending w d l)) else pending w d)" for d
    using pending_pop [OF q, of d] by simp
  moreover have "server_inv ?w'"
  proof (rule server_inv_update [OF inv])
    show "sv_conns ?w' = (sv_conns w)(c \<mapsto> sc\<lparr>sc_state := kConnected\<rparr>)" by simp
    show "conn_ok ?w' c (sc\<lparr>sc_state := kConnected\<rparr>)"
      using sc(2-4) h [of c] p [of c] by (auto simp: conn_ok_def phase_ok_def life_def)
    show "map_of (connections ?w') (sc_name (sc\<lparr>sc_state := kConnected\<rparr>)) \<in> {None, Some c}"
      using sc(2,3) by (auto simp: conn_ok_def phase_ok_def)
  qed (use same_name [OF inv sc(1)] h p server_invD(6) [OF inv] in auto)
  ultimately show ?thesis by blast
qed

lemma listed_same:
  assumes "server_inv w" and "sv_conns w c = Some sc" and "map_of (connections w) (sc_name sc) = Some d"
  shows "d = c"
  using server_invD(3) [OF assms(1,3)] server_invD(4) [OF assms(1,2)] by auto

lemma turn_destroyed:
  assumes inv: "server_inv w" and q: "sv_queues w l = FDestroyed c # fs"
  shows "\<exists>w'. run_functor upd ret l (FDestroyed c) (w\<lparr>sv_queues := (sv_queues w)(l := fs)\<rparr>) = Inr w' \<and> server_inv w'"
proof -
  let ?w = "w\<lparr>sv_queues := (sv_queues w)(l := fs)\<rparr>"
  obtain sc where sc: "sv_conns w c = Some sc" "conn_ok w c sc" "sc_state sc = kDisconnected" "l = sc_loop sc"
    "map_of (connections w) (sc_name sc) \<noteq> Some c" "\<not> sc_removed sc"
    using next_functor [OF inv q, of c] by auto
  let ?w' = "?w\<lparr>sv_conns := (sv_conns w)(c \<mapsto> sc\<lparr>sc_removed := True\<rparr>), sv_log := sv_log w @ [(l, FDestroyed c)]\<rparr>"
  have "run_functor upd ret l (FDestroyed c) ?w = Inr ?w'"
    using sc by (simp add: run_functor_def mod_conn_def conn_destroyed_def)
  moreover have h: "history ?w' d = history w d @ (if d = c then [(l, FDestroyed c)] else [])" for d
    by (simp add: history_def)
  moreover have p: "pending ?w' d = (if d = c then (pending w d)(l := tl (pending w d l)) else pending w d)" for d
    using pending_pop [OF q, of d] by simp
  moreover have "server_inv ?w'"
  proof (rule server_inv_update [OF inv])
    show "sv_conns ?w' = (sv_conns w)(c \<mapsto> sc\<lparr>sc_removed := True\<rparr>)" by simp
    show "conn_ok ?w' c (sc\<lparr>sc_removed := True\<rparr>)"
      using sc(2-6) h [of c] p [of c] by (auto simp: conn_ok_def phase_ok_def life_def)
    show "map_of (connections ?w') (sc_name (sc\<lparr>sc_removed := True\<rparr>)) \<in> {None, Some c}"
      using listed_same [OF inv sc(1)] by (cases "map_of (connections w) (sc_name sc)") auto
  qed (use same_name [OF inv sc(1)] h p server_invD(6) [OF inv] in auto)
  ultimately show ?thesis by blast
qed

text \<open>Removing a listed connection whose functors are all done, as a functor or called directly.\<close>

lemma remove_ok:
  assumes inv: "server_inv w" and sc: "sv_conns w c = Some sc" and listed: "map_of (connections w) (sc_name sc) = Some c"
    and w1: "sv_conns w1 = (sv_conns w)(c \<mapsto> sc\<lparr>sc_state := kDisconnected\<rparr>)" "connections w1 = connections w" "sv_log w1 = sv_log w"
      "pending w1 = (pending w)(c := \<lambda>_. [])"
      "sv_loop w1 = sv_loop w" "sv_name w1 = sv_name w" "hostport w1 = hostport w" "next_conn_id w1 = next_conn_id w" "thread_pool w1 = thread_pool w"
    and up: "history w c = take 1 (life (sv_loop w) c sc)" "\<not> sc_removed sc"
  shows "\<exists>w'. run_functor upd ret (sv_loop w) (FRemove c) w1 = Inr w' \<and> server_inv w'"
proof -
  let ?sc = "sc\<lparr>sc_state := kDisconnected\<rparr>"
  let ?w2 = "sv_queueInLoop (sc_loop sc) (FDestroyed c) (w1\<lparr>connections := AList.delete (sc_name sc) (connections w)\<rparr>)"
  let ?w' = "?w2\<lparr>sv_log := sv_log ?w2 @ [(sv_loop w, FRemove c)]\<rparr>"
  have "run_functor upd ret (sv_loop w) (FRemove c) w1 = Inr ?w'"
    using w1 listed by (simp add: run_functor_def RemoveConnectionInLoop_def)
  moreover have h: "history ?w' d = history w d @ (if d = c then [(sv_loop w, FRemove c)] else [])" for d
    by (simp add: history_def w1)
  moreover have p: "pending ?w' d = (if d = c then only (sc_loop sc) (FDestroyed c) else pending w d)" for d
    by (simp add: pending_queue w1)
  moreover have "server_inv ?w'"
  proof (rule server_inv_update [OF inv])
    show "sv_conns ?w' = (sv_conns w)(c \<mapsto> ?sc)" by (simp add: w1)
    show "conn_ok ?w' c ?sc"
      using server_invD(1) [OF inv sc] h [of c] p [of c] up by (auto simp: conn_ok_def phase_ok_def life_def w1)
  qed (use same_name [OF inv sc] h p server_invD(6) [OF inv] in \<open>auto simp: w1\<close>)
  ultimately show ?thesis by blast
qed

lemma turn_remove:
  assumes inv: "server_inv w" and q: "sv_queues w l = FRemove c # fs"
  shows "\<exists>w'. run_functor upd ret l (FRemove c) (w\<lparr>sv_queues := (sv_queues w)(l := fs)\<rparr>) = Inr w' \<and> server_inv w'"
proof -
  obtain sc where sc: "sv_conns w c = Some sc" "conn_ok w c sc" "sc_state sc = kDisconnected" "l = sv_loop w"
    "map_of (connections w) (sc_name sc) = Some c"
    using next_functor [OF inv q, of c] by auto
  have up: "history w c = take 1 (life (sv_loop w) c sc)" "\<not> sc_removed sc" "pending w c = only (sv_loop w) (FRemove c)"
    using sc by (auto simp: conn_ok_def phase_ok_def)
  have "pending (w\<lparr>sv_queues := (sv_queues w)(l := fs)\<rparr>) = (pending w)(c := \<lambda>_. [])"
    using pending_pop [OF q] up(3) sc(4) by (intro ext) (auto simp: only_def)
  moreover have "sc\<lparr>sc_state := kDisconnected\<rparr> = sc" using sc(3) by simp
  ultimately show ?thesis unfolding sc(4)
    using sc by (intro remove_ok [OF inv sc(1,5)]) (simp_all add: up fun_upd_idem)
qed

lemma close_ok:
  assumes inv: "server_inv w" and sc: "sv_conns w c = Some sc" and st: "sc_state sc = kConnected \<or> sc_state sc = kDisconnecting"
  shows "\<exists>w'. bindE (mod_conn c conn_closed w) (RemoveConnection upd ret (sc_loop sc) c) = Inr w' \<and> server_inv w'"
proof -
  let ?sc = "sc\<lparr>sc_state := kDisconnected\<rparr>" let ?w = "w\<lparr>sv_conns := (sv_conns w)(c \<mapsto> ?sc)\<rparr>"
  have cl: "mod_conn c conn_closed w = Inr ?w" using sc st by (auto simp: mod_conn_def conn_closed_def)
  have up: "history w c = take 1 (life (sv_loop w) c sc)" "\<not> sc_removed sc" "pending w c = (\<lambda>_. [])"
    "map_of (connections w) (sc_name sc) = Some c"
    using server_invD(1) [OF inv sc] st by (auto simp: conn_ok_def phase_ok_def)
  show ?thesis
  proof (cases "sc_loop sc = sv_loop w")
    case True
    have "pending ?w = (pending w)(c := \<lambda>_. [])" using up(3) by (simp add: fun_upd_idem)
    then have "\<exists>w'. run_functor upd ret (sv_loop w) (FRemove c) ?w = Inr w' \<and> server_inv w'"
      by (intro remove_ok [OF inv sc up(4)]) (simp_all add: up)
    then show ?thesis by (simp add: cl RemoveConnection_def sv_runInLoop_def True)
  next
    case False
    let ?w' = "sv_queueInLoop (sv_loop w) (FRemove c) ?w"
    have p: "pending ?w' d = (if d = c then only (sv_loop w) (FRemove c) else pending w d)" for d
      using up(3) by (simp add: pending_queue)
    have "server_inv ?w'"
    proof (rule server_inv_update [OF inv])
      show "sv_conns ?w' = (sv_conns w)(c \<mapsto> ?sc)" by simp
      show "conn_ok ?w' c ?sc"
        using server_invD(1) [OF inv sc] p [of c] up by (auto simp: conn_ok_def phase_ok_def life_def)
    qed (use same_name [OF inv sc] p up server_invD(6) [OF inv] in auto)
    then show ?thesis by (simp add: cl RemoveConnection_def sv_runInLoop_def False)
  qed
qed

lemma shut_ok:
  assumes inv: "server_inv w" and sc: "sv_conns w c = Some sc" and st: "sc_state sc = kConnected"
  shows "server_inv (w\<lparr>sv_conns := (sv_conns w)(c \<mapsto> sc\<lparr>sc_state := kDisconnecting\<rparr>)\<rparr>)"
proof (rule server_inv_update [OF inv])
  let ?w' = "w\<lparr>sv_conns := (sv_conns w)(c \<mapsto> sc\<lparr>sc_state := kDisconnecting\<rparr>)\<rparr>"
  show "conn_ok ?w' c (sc\<lparr>sc_state := kDisconnecting\<rparr>)" "map_of (connections ?w') (sc_name (sc\<lparr>sc_state := kDisconnecting\<rparr>)) \<in> {None, Some c}"
    using server_invD(1) [OF inv sc] st by (auto simp: conn_ok_def phase_ok_def life_def)
qed (use same_name [OF inv sc] server_invD(6) [OF inv] in auto)

lemma getNextLoop_ok: "pool_ok p \<Longrightarrow> \<exists>l p'. getNextLoop p = Inr (l, p') \<and> pool_ok p'"
  by (auto simp: pool_ok_def getNextLoop_def Let_def)

text \<open>The name that the next connection gets is new, and the state with it is good.\<close>

lemma next_name_fresh:
  assumes inv: "server_inv w" and id: "unat (next_conn_id w) + 1 < 2 ^ 32" and d: "sv_conns w d = Some sd"
  shows "sc_name sd \<noteq> conn_name (sv_name w) (hostport w) (next_conn_id w)"
proof
  assume n: "sc_name sd = conn_name (sv_name w) (hostport w) (next_conn_id w)"
  obtain i where i: "i < unat (next_conn_id w)" "sc_name sd = conn_name (sv_name w) (hostport w) (of_nat i)"
    using server_invD(1) [OF inv d] by (auto simp: conn_ok_def)
  then have "next_conn_id w = of_nat i" using n conn_name_inj [OF server_invD(5) [OF inv]] by metis
  moreover have "unat (of_nat i :: 32 word) = i" using i(1) id by (simp add: unat_of_nat)
  ultimately show False using i(1) by simp
qed

lemma accepted_inv:
  assumes inv: "server_inv w" and new: "sv_conns w a = None" and id: "unat (next_conn_id w) + 1 < 2 ^ 32" and p: "pool_ok p"
    and name: "name = conn_name (sv_name w) (hostport w) (next_conn_id w)"
    and w': "sv_conns w' = (sv_conns w)(a \<mapsto> sc')" "connections w' = AList.update name a (connections w)" "sv_loop w' = sv_loop w" "sv_name w' = sv_name w"
      "hostport w' = hostport w" "next_conn_id w' = next_conn_id w + 1" "thread_pool w' = p" "sc_name sc' = name"
      "phase_ok (sv_loop w) a sc' True (history w' a) (pending w' a)" "\<And>d. d \<noteq> a \<Longrightarrow> history w' d = history w d \<and> pending w' d = pending w d"
  shows "server_inv w'"
proof -
  have nxt: "unat (next_conn_id w + 1) = unat (next_conn_id w) + 1" using id by (simp add: unat_add_lem [THEN iffD1])
  have names: "\<exists>i < unat (next_conn_id w + 1). name = conn_name (sv_name w) (hostport w) (of_nat i)"
    using nxt by (intro exI [of _ "unat (next_conn_id w)"]) (simp add: name)
  show ?thesis
  proof (rule server_inv_update [OF inv w'(1)])
    show "conn_ok w' a sc'" using w' names by (simp add: conn_ok_def)
    show "(sc_name sd = sc_name sc') = (d = a)" if "sv_conns w d = Some sd" for d sd
      using next_name_fresh [OF inv id that] that new w'(8) name by auto
  qed (use w' nxt p in auto)
qed

lemma accept_ok:
  assumes inv: "server_inv w" and new: "sv_conns w a = None" and id: "unat (next_conn_id w) + 1 < 2 ^ 32"
  shows "\<exists>w'. EstablishConnection upd ret a lr fd peer w = Inr w' \<and> server_inv w'"
proof -
  obtain l p where l: "getNextLoop (thread_pool w) = Inr (l, p)" "pool_ok p"
    using getNextLoop_ok [OF server_invD(6) [OF inv]] by blast
  define name where "name = conn_name (sv_name w) (hostport w) (next_conn_id w)"
  define sc where "sc = \<lparr>sc_loop = l, sc_name = name, sc_fd = fd, sc_local = getLocalAddr lr, sc_peer = peer,
                   sc_state = kConnecting, sc_removed = False, sc_connectionCb = sv_connectionCb w, sc_messageCb = sv_messageCb w,
                   sc_writeCompleteCb = sv_writeCompleteCb w, sc_closeCb = True\<rparr>"
  let ?w1 = "\<lambda>sc. w\<lparr>thread_pool := p, next_conn_id := next_conn_id w + 1, connections := AList.update name a (connections w),
                 sv_conns := (sv_conns w)(a \<mapsto> sc)\<rparr>"
  have scf: "sc_name sc = name" "sc_loop sc = l" "sc_state sc = kConnecting" "\<not> sc_removed sc" by (simp_all add: sc_def)
  have est: "EstablishConnection upd ret a lr fd peer w = sv_runInLoop upd ret (sv_loop w) l (FEstablished a) (?w1 sc)"
    by (simp add: EstablishConnection_def l(1) Let_def name_def sc_def)
  have old: "history w a = []" "pending w a = (\<lambda>_. [])" using server_invD(2) [OF inv new] by auto
  note * = accepted_inv [OF inv new id l(2) name_def]
  show ?thesis
  proof (cases "sv_loop w = l")
    case True
    let ?w' = "(?w1 (sc\<lparr>sc_state := kConnected\<rparr>))\<lparr>sv_log := sv_log w @ [(l, FEstablished a)]\<rparr>"
    have "EstablishConnection upd ret a lr fd peer w = Inr ?w'"
      using scf by (simp add: est sv_runInLoop_def True run_functor_def mod_conn_def conn_established_def)
    moreover have h: "history ?w' d = history w d @ (if d = a then [(l, FEstablished a)] else [])" for d
      by (simp add: history_def)
    moreover have "server_inv ?w'"
      by (rule * [of _ "sc\<lparr>sc_state := kConnected\<rparr>"]) (use h old scf True in \<open>auto simp: phase_ok_def life_def\<close>)
    ultimately show ?thesis by blast
  next
    case False
    let ?w' = "sv_queueInLoop l (FEstablished a) (?w1 sc)"
    have "EstablishConnection upd ret a lr fd peer w = Inr ?w'" by (simp add: est sv_runInLoop_def False)
    moreover have "pending ?w' d = (if d = a then only l (FEstablished a) else pending w d)" for d
      using old by (simp add: pending_queue)
    then have "server_inv ?w'"
      by (intro * [of _ sc]) (use old scf in \<open>auto simp: phase_ok_def life_def\<close>)
    ultimately show ?thesis by blast
  qed
qed

lemma sstep_ok:
  assumes "sstep upd ret w r" and "server_inv w"
  shows "\<exists>w'. r = Inr w' \<and> server_inv w'"
  using assms(1)
proof cases
  case (accept a lr fd peer)
  then show ?thesis using accept_ok [OF assms(2)] by blast
next
  case (turn l f fs)
  then show ?thesis
    using turn_established [OF assms(2)] turn_remove [OF assms(2)] turn_destroyed [OF assms(2)] by (cases f) blast+
next
  case (close c sc)
  then show ?thesis using close_ok [OF assms(2)] by blast
next
  case (shut c sc)
  then show ?thesis using shut_ok [OF assms(2)] by blast
qed

lemma sreach_inv: "sreach upd ret w0 w \<Longrightarrow> server_inv w0 \<Longrightarrow> server_inv w"
  by (induction rule: sreach.induct) (auto dest: sstep_ok)

section \<open>The connections of the server and TcpConnection\<close>

text \<open>The states of a connection that the server model follows are those of the model of \<^verbatim>\<open>TcpConnection\<close>,
  for callbacks that leave the state of the connection alone.\<close>

definition conn_abs :: "'cb srv_conn \<Rightarrow> 's tcp_connection \<Rightarrow> bool" where
  "conn_abs sc w \<longleftrightarrow> sc_state sc = state w \<and> sc_fd sc = conn_fd w"

lemma conn_established_refines:
  assumes "conn_abs sc w" and "\<And>e v v'. call e v = Inr v' \<Longrightarrow> state v' = state v \<and> conn_fd v' = conn_fd v"
    and "ConnectionEstablished upd call self w = Inr w'"
  shows "\<exists>sc'. conn_established sc = Inr sc' \<and> conn_abs sc' w'"
  using assms(1,3)
  by (auto simp: ConnectionEstablished_def conn_established_def conn_abs_def lift_io_def Let_def bindE_eq_Inr cassert_eq_Inr
      dest!: assms(2))

lemma conn_closed_refines:
  assumes "conn_abs sc w" and "\<And>e v v'. call e v = Inr v' \<Longrightarrow> state v' = state v \<and> conn_fd v' = conn_fd v"
    and "conn_handleClose upd call w = Inr w'"
  shows "\<exists>sc'. conn_closed sc = Inr sc' \<and> conn_abs sc' w'"
  using assms(1,3)
  by (auto simp: conn_handleClose_def conn_closed_def conn_abs_def lift_io_def Let_def bindE_eq_Inr cassert_eq_Inr
      dest!: assms(2))

section \<open>Properties\<close>

lemma pool_start_ok: "pool_start starts cb p = Inr q \<Longrightarrow> wp_next p = 0 \<Longrightarrow> pool_ok q"
  by (auto simp: pool_start_def pool_start_fold Let_def pool_ok_def cassert_def split: if_splits)

lemma server_inv_start:
  assumes "Server_start upd ret starts loop (SetThreadNum n (Server_new host ntop loop addr name ac dc dm 0)) = Inr w"
  shows "server_inv w"
proof -
  let ?w0 = "SetThreadNum n (Server_new host ntop loop addr name ac dc dm 0)"
  obtain p ac1 where p: "pool_start starts False (thread_pool ?w0) = Inr p"
    and w: "w = ?w0\<lparr>thread_pool := p, sv_acceptor := ac1, sv_log := [(loop, FListen)], sv_started := True\<rparr>"
    using assms by (auto simp: Server_start_def SetThreadNum_def Server_new_def sv_runInLoop_def run_functor_def
        bindE_eq_Inr cassert_eq_Inr Let_def)
  have "pool_ok p" using pool_start_ok [OF p] by (simp add: SetThreadNum_def Server_new_def setThreadNum_def WorkerThreadPool_new_def)
  then show ?thesis
    using toIpPort_length
    by (simp add: w server_inv_def SetThreadNum_def Server_new_def history_def pending_def fun_eq_iff)
qed

text \<open>
  C3. The life of the connections of a server with any number of threads, over every interleaving of its
  loops (\<^verbatim>\<open>Server::EstablishConnection\<close>, \<^verbatim>\<open>RemoveConnection\<close>, \<^verbatim>\<open>RemoveConnectionInLoop\<close>, with
  \<^verbatim>\<open>getNextLoop\<close> and the names), while fewer than \<open>2 ^ 32\<close> connections are accepted: no step fails an assertion, so
  \<^verbatim>\<open>connections_.erase\<close> always finds exactly one connection and \<^verbatim>\<open>ConnectionEstablished\<close> and
  \<^verbatim>\<open>ConnectionDestroyed\<close> are called in the states they assert. The functors that have run for a connection are
  a prefix of: established in the connection's loop, removed in the server's loop, destroyed in
  the connection's loop, so each runs at most once and in that order; and the server lists a
  connection, under its own name, until it has removed it.
\<close>

theorem server_lifecycle:
  assumes "Server_start upd ret starts loop (SetThreadNum n (Server_new host ntop loop addr name ac dc dm 0)) = Inr w0"
    and "sreach upd ret w0 w"
  shows "(\<forall>r. sstep upd ret w r \<longrightarrow> (\<exists>w'. r = Inr w'))
    \<and> (\<forall>c sc. sv_conns w c = Some sc \<longrightarrow>
        history w c = take (length (history w c)) (life (sv_loop w) c sc)
        \<and> (map_of (connections w) (sc_name sc) = Some c \<longleftrightarrow> length (history w c) \<le> 1)
        \<and> (sc_state sc = kConnected \<longrightarrow> history w c = [(sc_loop sc, FEstablished c)])
        \<and> (\<forall>d sd. sv_conns w d = Some sd \<longrightarrow> sc_name sd = sc_name sc \<longrightarrow> d = c))"
proof -
  note inv = sreach_inv [OF assms(2) server_inv_start [OF assms(1)]]
  have "history w c = take (length (history w c)) (life (sv_loop w) c sc)
      \<and> (map_of (connections w) (sc_name sc) = Some c \<longleftrightarrow> length (history w c) \<le> 1)
      \<and> (sc_state sc = kConnected \<longrightarrow> history w c = [(sc_loop sc, FEstablished c)])" if c: "sv_conns w c = Some sc" for c sc
  proof -
    have "phase_ok (sv_loop w) c sc (map_of (connections w) (sc_name sc) = Some c) (history w c) (pending w c)"
      using server_invD(1) [OF inv c] by (simp add: conn_ok_def)
    then show ?thesis
      by (cases "sc_state sc") (auto simp: phase_ok_def life_def split: if_splits)
  qed
  then show ?thesis using sstep_ok [OF _ inv] server_invD(4) [OF inv] by blast
qed

definition sv_demo :: "(unit chan_store, unit) server res" where
  "sv_demo = Server_start (\<lambda>c s. Inr s) 0 (\<lambda>i. 10 + i) 1 (SetThreadNum 2 (Server_new LittleEndian (\<lambda>_. ''0.0.0.0'') 1 (Endpoint_of_port LittleEndian 80) ''web''
     \<lparr>ac_io = \<lparr>heap = [0 \<mapsto> Channel_new 1 3]\<rparr>, ac_chan = 0, ac_loop = 1, listen_fd = 3, new_conn_cb = False,
      listenning = False, idle_fd = 4, ac_open = {3, 4}\<rparr> () () 0))"

lemma sv_demo_ok: "\<exists>w0. sv_demo = Inr w0 \<and> sv_loop w0 = 1 \<and> loops (thread_pool w0) = [10, 11] \<and> wp_next (thread_pool w0) = 0
   \<and> sv_conns w0 = Map.empty \<and> next_conn_id w0 = 0"
  by (simp add: sv_demo_def Server_start_def SetThreadNum_def Server_new_def setThreadNum_def WorkerThreadPool_new_def
      pool_start_def pool_start_fold Let_def SetNewConnectionCb_def sv_runInLoop_def run_functor_def Acceptor_Listen_def
      sock_Listen2_def enableReading_def Channel_new_def numeral_eq_Suc)

theorem server_lifecycle_witness:
  "\<exists>w0 w sc. sv_demo = Inr w0 \<and> EstablishConnection (\<lambda>c s. Inr s) 0 7 None 9 (Endpoint_of_port LittleEndian 1) w0 = Inr w
    \<and> sv_conns w 7 = Some sc \<and> sc_loop sc = 10 \<and> history w 7 = [] \<and> map_of (connections w) (sc_name sc) = Some 7"
proof -
  obtain w0 where w0: "sv_demo = Inr w0" "sv_loop w0 = 1" "loops (thread_pool w0) = [10, 11]" "wp_next (thread_pool w0) = 0"
    "sv_conns w0 = Map.empty" "next_conn_id w0 = 0" using sv_demo_ok by blast
  then have "\<exists>w sc. EstablishConnection (\<lambda>c s. Inr s) 0 7 None 9 (Endpoint_of_port LittleEndian 1) w0 = Inr w
    \<and> sv_conns w 7 = Some sc \<and> sc_loop sc = 10 \<and> history w 7 = history w0 7"
    by (simp add: EstablishConnection_def getNextLoop_def Let_def sv_runInLoop_def)
  then obtain w sc where w: "EstablishConnection (\<lambda>c s. Inr s) 0 7 None 9 (Endpoint_of_port LittleEndian 1) w0 = Inr w"
    "sv_conns w 7 = Some sc" "sc_loop sc = 10" "history w 7 = history w0 7" by blast
  have "history w0 7 = []" using server_invD(2) [OF server_inv_start [OF w0(1) [unfolded sv_demo_def]]] w0(5) by simp
  moreover have "sstep (\<lambda>c s. Inr s) 0 w0 (Inr w)"
    using sstep.accept [of w0 7 "\<lambda>c s. Inr s" 0 None 9 "Endpoint_of_port LittleEndian 1"] w(1) w0(5,6) by simp
  then have "sreach (\<lambda>c s. Inr s) 0 w0 w" by (blast intro: sreach.intros)
  ultimately show ?thesis using server_lifecycle [OF w0(1) [unfolded sv_demo_def]] w w0(1) by auto
qed

end
