(* ===== verification/Connection_Refinement.thy ===== *)
theory Connection_Refinement
  imports Server
begin

text \<open>
  The server and the client follow a connection by its state, whether its channel has been removed, and its descriptor (\<open>srv_conn\<close>). Here every
  operation on this view is shown to be an operation that \<^verbatim>\<open>TcpConnection\<close> (\<^verbatim>\<open>cobra/tcp_connection.cpp\<close>), with its channel and an \<^verbatim>\<open>EPollPoller\<close>, can take: a forward simulation, whose
  relation \<open>conn_sim\<close> says what the channel and the poller look like in each state.
\<close>

unbundle bit_operations_syntax

section \<open>The relation\<close>

definition chan_sim :: "'cb srv_conn \<Rightarrow> ('e, 'k, 'z) epoll_poller_scheme tcp_connection \<Rightarrow> 'e channel \<Rightarrow> bool" where
  "chan_sim sc w ch \<longleftrightarrow>
     (case sc_state sc of
        kConnecting \<Rightarrow> \<not> sc_removed sc \<and> ch_fd ch = sc_fd sc \<and> ch_index ch = kNew \<and> events ch = 0 \<and> ep_channels (c_io w) (ch_fd ch) = None
          \<and> buf_inv (outputBuffer w) \<and> content (outputBuffer w) = [] \<and> \<not> write_shut w
      | kDisconnected \<Rightarrow> events ch = 0 \<and> ep_channels (c_io w) (ch_fd ch) = (if sc_removed sc then None else Some (c_chan w))
      | _ \<Rightarrow> \<not> sc_removed sc)"

definition conn_sim ::
  "'k epoll_ctl \<Rightarrow> ('k \<Rightarrow> int \<rightharpoonup> epoll_event) \<Rightarrow> 'cb srv_conn \<Rightarrow> ('e, 'k, 'z) epoll_poller_scheme tcp_connection \<Rightarrow> bool" where
  "conn_sim ctl km sc w \<longleftrightarrow> epoll_ctl_spec ctl km \<and> ep_inv km (c_io w) \<and> conn_abs sc w
     \<and> (\<exists>ch. heap (c_io w) (c_chan w) = Some ch \<and> chan_sim sc w ch)
     \<and> (sc_state sc = kConnected \<or> sc_state sc = kDisconnecting \<longrightarrow>
          conn_inv (\<lambda>s. epoll_ctl_spec ctl km \<and> ep_inv km s) ep_reg w)"

text \<open>Callbacks of the user that leave a connection in the state in which they found it: those that only send, for example.\<close>

definition call_keeps ::
  "'k epoll_ctl \<Rightarrow> ('k \<Rightarrow> int \<rightharpoonup> epoll_event)
     \<Rightarrow> (conn_event \<Rightarrow> ('e, 'k, 'z) epoll_poller_scheme tcp_connection \<Rightarrow> ('e, 'k, 'z) epoll_poller_scheme tcp_connection res) \<Rightarrow> 'cb srv_conn \<Rightarrow> bool" where
  "call_keeps ctl km call sc \<longleftrightarrow> (\<forall>e v. conn_sim ctl km sc v \<longrightarrow> (\<exists>v'. call e v = Inr v' \<and> conn_sim ctl km sc v'))"

section \<open>Steps\<close>

lemma sim_established:
  assumes sim: "conn_sim ctl km sc w" and abs: "conn_established sc = Inr sc'" and keep: "call_keeps ctl km call sc'"
    and add: "0 \<le> fst (ctl EPOLL_CTL_ADD fd (kReadEvent, c_chan w) (ep_kernel (c_io w)))"
    and fd: "heap (c_io w) (c_chan w) = Some ch" "ch_fd ch = fd"
  shows "\<exists>w'. ConnectionEstablished (EPollPoller_UpdateChannel ctl) call self w = Inr w' \<and> conn_sim ctl km sc' w'"
proof -
  from abs have st: "sc_state sc = kConnecting" and sc': "sc' = sc\<lparr>sc_state := kConnected\<rparr>"
    by (auto simp: conn_established_def cassert_eq_Inr)
  from sim st fd(1) have io: "epoll_ctl_spec ctl km" "ep_inv km (c_io w)" "state w = kConnecting" "sc_fd sc = conn_fd w"
    and c: "\<not> sc_removed sc" "ch_index ch = kNew" "events ch = 0" "ep_channels (c_io w) (ch_fd ch) = None"
      "buf_inv (outputBuffer w)" "content (outputBuffer w) = []" "\<not> write_shut w"
    by (auto simp: conn_sim_def conn_abs_def chan_sim_def)
  let ?ch = "ch\<lparr>tie := Some self, tied := True, events := kReadEvent\<rparr>"
  let ?s = "(c_io w)\<lparr>heap := (heap (c_io w))(c_chan w \<mapsto> ?ch)\<rparr>"
  have h: "heap ?s (c_chan w) = Some ?ch" by simp
  have inv: "ep_inv km ?s" using ep_inv_channel_update [OF io(2) fd(1), of ?ch] by simp
  obtain s' where s': "EPollPoller_UpdateChannel ctl (c_chan w) ?s = Inr s'" "ep_inv km s'"
    "heap s' (c_chan w) = Some (?ch\<lparr>ch_index := kAdded\<rparr>)" "ep_reg s' (c_chan w)"
    using ep_register [OF io(1) inv h] c(2,4) add fd(2) by auto
  let ?w = "w\<lparr>state := kConnected, c_io := s'\<rparr>"
  have "conn_sim ctl km sc' ?w"
    using io s' c by (auto simp: conn_sim_def conn_abs_def chan_sim_def conn_inv_def sc')
  with keep obtain w' where "call ConnectionCb ?w = Inr w'" "conn_sim ctl km sc' w'" by (auto simp: call_keeps_def)
  moreover have "ConnectionEstablished (EPollPoller_UpdateChannel ctl) call self w = call ConnectionCb ?w"
    using io(3) fd(1) c(3) s'(1)
    by (simp add: ConnectionEstablished_def lift_io_def Channel_tie_def enableReading_def mod_ch_def get_ch_def Let_def)
  ultimately show ?thesis by simp
qed

text \<open>Taking all events from a registered channel.\<close>

lemma ep_silence:
  assumes "epoll_ctl_spec ctl km" and "ep_inv km s" and "ep_reg s c" and ch: "heap s c = Some ch"
  shows "\<exists>s1 ch1. disableAll (EPollPoller_UpdateChannel ctl) c s = Inr s1 \<and> ep_inv km s1 \<and> heap s1 c = Some ch1
    \<and> events ch1 = 0 \<and> ep_channels s1 (ch_fd ch1) = Some c"
proof -
  let ?ch = "ch\<lparr>events := kNoneEvent\<rparr>" let ?s = "s\<lparr>heap := (heap s)(c \<mapsto> ?ch)\<rparr>"
  have h: "heap ?s c = Some ?ch" by simp
  have inv: "ep_inv km ?s" using ep_inv_channel_update [OF assms(2) ch, of ?ch] by simp
  have pre: "ep_update_pre ctl ?s c" using assms(3) ch by (simp add: ep_reg_def ep_update_pre_def ep_index_defs)
  obtain s1 i where "EPollPoller_UpdateChannel ctl c ?s = Inr s1" "ep_inv km s1" "heap s1 = (heap ?s)(c \<mapsto> ?ch\<lparr>ch_index := i\<rparr>)"
    "ep_channels s1 = (ep_channels ?s)(ch_fd ch \<mapsto> c)"
    using ep_update_ok [OF assms(1) inv h pre] by auto
  then show ?thesis using ch by (simp add: disableAll_def mod_ch_def get_ch_def kNoneEvent_def)
qed

lemma sim_silence:
  assumes "conn_sim ctl km sc w" and "sc_state sc = kConnected \<or> sc_state sc = kDisconnecting"
  shows "\<exists>w1. lift_io (disableAll (EPollPoller_UpdateChannel ctl) (c_chan w)) (w\<lparr>state := kDisconnected\<rparr>) = Inr w1
    \<and> conn_sim ctl km (sc\<lparr>sc_state := kDisconnected\<rparr>) w1"
proof -
  from assms obtain ch where ch: "heap (c_io w) (c_chan w) = Some ch" "\<not> sc_removed sc" "ep_reg (c_io w) (c_chan w)"
    "epoll_ctl_spec ctl km" "ep_inv km (c_io w)" "sc_fd sc = conn_fd w"
    by (auto simp: conn_sim_def conn_abs_def chan_sim_def conn_inv_def)
  obtain s1 ch1 where "disableAll (EPollPoller_UpdateChannel ctl) (c_chan w) (c_io w) = Inr s1" "ep_inv km s1" "heap s1 (c_chan w) = Some ch1"
    "events ch1 = 0" "ep_channels s1 (ch_fd ch1) = Some (c_chan w)"
    using ep_silence [OF ch(4,5,3,1)] by blast
  then show ?thesis using ch by (simp add: lift_io_def conn_sim_def conn_abs_def chan_sim_def)
qed

lemma sim_closed:
  assumes sim: "conn_sim ctl km sc w" and abs: "conn_closed sc = Inr sc'" and keep: "call_keeps ctl km call sc'"
  shows "\<exists>w'. conn_handleClose (EPollPoller_UpdateChannel ctl) call w = Inr w' \<and> conn_sim ctl km sc' w'"
proof -
  from abs have st: "sc_state sc = kConnected \<or> sc_state sc = kDisconnecting" and sc': "sc' = sc\<lparr>sc_state := kDisconnected\<rparr>"
    by (auto simp: conn_closed_def cassert_eq_Inr)
  obtain w1 where w1: "lift_io (disableAll (EPollPoller_UpdateChannel ctl) (c_chan w)) (w\<lparr>state := kDisconnected\<rparr>) = Inr w1"
    "conn_sim ctl km sc' w1" using sim_silence [OF sim st] sc' by blast
  from keep w1(2) obtain w2 where w2: "call ConnectionCb w1 = Inr w2" "conn_sim ctl km sc' w2" by (auto simp: call_keeps_def)
  from keep w2(2) obtain w3 where w3: "call CloseCb w2 = Inr w3" "conn_sim ctl km sc' w3" by (auto simp: call_keeps_def)
  have "state w = kConnected \<or> state w = kDisconnecting" using sim st by (auto simp: conn_sim_def conn_abs_def)
  then show ?thesis using w1(1) w2(1) w3 by (simp add: conn_handleClose_def)
qed

lemma sim_removed:
  assumes "conn_sim ctl km sc w" and "sc_state sc = kDisconnected" and "\<not> sc_removed sc"
  shows "\<exists>w'. lift_io (Channel_remove (EPollPoller_removeChannel ctl) (c_chan w)) w = Inr w' \<and> conn_sim ctl km (sc\<lparr>sc_removed := True\<rparr>) w'"
proof -
  from assms obtain ch where ch: "heap (c_io w) (c_chan w) = Some ch" "events ch = 0" "ep_channels (c_io w) (ch_fd ch) = Some (c_chan w)"
    and io: "epoll_ctl_spec ctl km" "ep_inv km (c_io w)" "conn_abs sc w"
    by (auto simp: conn_sim_def chan_sim_def)
  have none: "isNoneEvent ch" using ch(2) by (simp add: isNoneEvent_def kNoneEvent_def)
  have "ep_remove_pre (c_io w) (c_chan w)" using ch by (simp add: ep_remove_pre_def)
  from ep_remove_ok [OF io(1,2) ch(1) none this] obtain s' where
    "EPollPoller_removeChannel ctl (c_chan w) (c_io w) = Inr s'" "ep_inv km s'"
    "heap s' = (heap (c_io w))(c_chan w \<mapsto> ch\<lparr>ch_index := kNew\<rparr>)" "ep_channels s' = (ep_channels (c_io w))(ch_fd ch := None)" by auto
  then show ?thesis
    using ch none io assms(2) by (simp add: lift_io_def Channel_remove_def get_ch_def conn_sim_def conn_abs_def chan_sim_def)
qed

lemma sim_destroyed:
  assumes sim: "conn_sim ctl km sc w" and abs: "conn_destroyed sc = Inr sc'" and keep: "call_keeps ctl km call (sc\<lparr>sc_state := kDisconnected\<rparr>)"
  shows "\<exists>w'. ConnectionDestroyed (EPollPoller_UpdateChannel ctl) (EPollPoller_removeChannel ctl) call w = Inr w' \<and> conn_sim ctl km sc' w'"
proof -
  let ?d = "sc\<lparr>sc_state := kDisconnected\<rparr>"
  have st: "state w = sc_state sc" using sim by (simp add: conn_sim_def conn_abs_def)
  from abs have sc': "sc' = ?d\<lparr>sc_removed := True\<rparr>" "sc_state sc = kConnected \<or> sc_state sc = kDisconnected" "\<not> sc_removed sc"
    by (auto simp: conn_destroyed_def Let_def cassert_eq_Inr split: if_splits)
  have "\<exists>w1. (if state w = kConnected
            then bindE (lift_io (disableAll (EPollPoller_UpdateChannel ctl) (c_chan w)) (w\<lparr>state := kDisconnected\<rparr>)) (call ConnectionCb)
            else Inr w) = Inr w1 \<and> conn_sim ctl km ?d w1"
  proof (cases "sc_state sc = kConnected")
    case True
    obtain w1 where w1: "lift_io (disableAll (EPollPoller_UpdateChannel ctl) (c_chan w)) (w\<lparr>state := kDisconnected\<rparr>) = Inr w1"
      "conn_sim ctl km ?d w1" using sim_silence [OF sim] True by blast
    then show ?thesis using keep True st by (auto simp: call_keeps_def)
  next
    case False
    then have "?d = sc" using sc'(2) by simp
    then show ?thesis using sim False st by simp
  qed
  then obtain w1 where w1: "(if state w = kConnected
            then bindE (lift_io (disableAll (EPollPoller_UpdateChannel ctl) (c_chan w)) (w\<lparr>state := kDisconnected\<rparr>)) (call ConnectionCb)
            else Inr w) = Inr w1" "conn_sim ctl km ?d w1" by blast
  obtain w' where "lift_io (Channel_remove (EPollPoller_removeChannel ctl) (c_chan w1)) w1 = Inr w'" "conn_sim ctl km (?d\<lparr>sc_removed := True\<rparr>) w'"
    using sim_removed [OF w1(2)] sc'(3) by auto
  then show ?thesis using w1(1) by (simp add: ConnectionDestroyed_def sc'(1))
qed

lemma sim_shutdown:
  assumes sim: "conn_sim ctl km sc w" and st: "sc_state sc = kConnected"
  shows "\<exists>w'. shutdown inLoop w = Inr w' \<and> conn_sim ctl km (sc\<lparr>sc_state := kDisconnecting\<rparr>) w'"
proof -
  from sim st obtain ch where ch: "heap (c_io w) (c_chan w) = Some ch" "\<not> sc_removed sc" "sc_fd sc = conn_fd w" "state w = kConnected"
    and inv: "conn_inv (\<lambda>s. epoll_ctl_spec ctl km \<and> ep_inv km s) ep_reg w"
    by (auto simp: conn_sim_def conn_abs_def chan_sim_def)
  from inv ch(1) have ev: "events ch = (if content (outputBuffer w) = [] then kReadEvent else kReadEvent OR kWriteEvent)"
    by (simp add: conn_inv_def)
  have wr: "isWriting ch \<longleftrightarrow> content (outputBuffer w) \<noteq> []" using eps.isWriting_iff [OF ev] .
  show ?thesis
    using ch inv wr ev sim st
    by (cases inLoop) (auto simp: shutdown_def shutdownInLoop_def queue_functor_def get_ch_def Let_def conn_sim_def conn_abs_def chan_sim_def conn_inv_def)
qed

text \<open>A new connection, on a descriptor that the poller does not know.\<close>

lemma sim_new:
  assumes "TcpConnection_new loop fd c rd wr cl er s = Inr w" and "epoll_ctl_spec ctl km" and "ep_inv km s" and "heap s c = None"
    and "ep_channels s fd = None" and "sc_state sc = kConnecting" and "sc_fd sc = fd" and "\<not> sc_removed sc"
  shows "conn_sim ctl km sc w \<and> (\<exists>ch. heap (c_io w) (c_chan w) = Some ch \<and> ch_fd ch = fd)"
proof -
  obtain ch where w: "c_io w = s\<lparr>heap := (heap s)(c \<mapsto> ch)\<rparr>" "c_chan w = c" "state w = kConnecting" "conn_fd w = fd" "\<not> write_shut w"
    "Buffer_new = Inr (outputBuffer w)" and ch: "ch_fd ch = fd" "ch_index ch = kNew" "events ch = 0"
    using assms(1)
    by (auto simp: TcpConnection_new_def SetReadCb_def SetWriteCb_def SetCloseCb_def SetErrorCb_def mod_ch_def get_ch_def bindE_eq_Inr
        Channel_new_def kNew_def)
  have "buf_inv (outputBuffer w)" "content (outputBuffer w) = []"
    using Buffer_new_ok w(6) by (metis sum.inject(2))+
  then show ?thesis
    using w ch assms ep_inv_new_channel [OF assms(3,4), of ch] by (auto simp: conn_sim_def conn_abs_def chan_sim_def)
qed


section \<open>Lives of a connection\<close>

text \<open>The operations by which the server's view of a connection changes, on the view and on \<^verbatim>\<open>TcpConnection\<close>.\<close>

datatype view_op = VEstablished | VShutdown | VClosed | VDestroyed

definition view_step :: "view_op \<Rightarrow> 'cb srv_conn \<Rightarrow> 'cb srv_conn res" where
  "view_step a sc =
     (case a of
        VEstablished \<Rightarrow> conn_established sc
      | VShutdown \<Rightarrow> cassert (sc_state sc = kConnected) (Inr (sc\<lparr>sc_state := kDisconnecting\<rparr>))
      | VClosed \<Rightarrow> conn_closed sc
      | VDestroyed \<Rightarrow> conn_destroyed sc)"

definition conn_step ::
  "'k epoll_ctl \<Rightarrow> (conn_event \<Rightarrow> ('e, 'k, 'z) epoll_poller_scheme tcp_connection \<Rightarrow> ('e, 'k, 'z) epoll_poller_scheme tcp_connection res)
     \<Rightarrow> nat \<Rightarrow> view_op \<Rightarrow> ('e, 'k, 'z) epoll_poller_scheme tcp_connection \<Rightarrow> ('e, 'k, 'z) epoll_poller_scheme tcp_connection res" where
  "conn_step ctl call self a w =
     (case a of
        VEstablished \<Rightarrow> ConnectionEstablished (EPollPoller_UpdateChannel ctl) call self w
      | VShutdown \<Rightarrow> shutdown True w
      | VClosed \<Rightarrow> conn_handleClose (EPollPoller_UpdateChannel ctl) call w
      | VDestroyed \<Rightarrow> ConnectionDestroyed (EPollPoller_UpdateChannel ctl) (EPollPoller_removeChannel ctl) call w)"

lemma sim_step:
  assumes "conn_sim ctl km sc w" and "view_step a sc = Inr sc'" and keep: "\<And>sc :: 'cb srv_conn. call_keeps ctl km call sc"
    and add: "\<And>ev k. km k (sc_fd sc) = None \<Longrightarrow> 0 \<le> fst (ctl EPOLL_CTL_ADD (sc_fd sc) ev k)"
  shows "\<exists>w'. conn_step ctl call self a w = Inr w' \<and> conn_sim ctl km (sc' :: 'cb srv_conn) w'"
proof (cases a)
  case VEstablished
  with assms(2) have "sc_state sc = kConnecting" by (simp add: view_step_def conn_established_def cassert_eq_Inr)
  with assms(1) obtain ch where ch: "heap (c_io w) (c_chan w) = Some ch" "ch_fd ch = sc_fd sc" and inv: "ep_inv km (c_io w)"
    and new: "ep_channels (c_io w) (sc_fd sc) = None" by (auto simp: conn_sim_def chan_sim_def)
  from sim_established [OF assms(1) _ keep add [OF ep_invD_kernel [OF inv new]] ch] VEstablished assms(2)
  show ?thesis by (simp add: view_step_def conn_step_def)
next
  case VShutdown
  then have "sc_state sc = kConnected" "sc' = sc\<lparr>sc_state := kDisconnecting\<rparr>" using assms(2) by (auto simp: view_step_def cassert_eq_Inr)
  with sim_shutdown [OF assms(1)] VShutdown show ?thesis by (simp add: conn_step_def)
next
  case VClosed
  with sim_closed [OF assms(1) _ keep] assms(2) show ?thesis by (simp add: view_step_def conn_step_def)
next
  case VDestroyed
  with sim_destroyed [OF assms(1) _ keep] assms(2) show ?thesis by (simp add: view_step_def conn_step_def)
qed

lemma view_step_fd: "view_step a sc = Inr sc' \<Longrightarrow> sc_fd sc' = sc_fd sc"
  by (auto simp: view_step_def conn_established_def conn_closed_def conn_destroyed_def cassert_eq_Inr split: view_op.splits if_splits)

lemma sim_life:
  assumes keep: "\<And>sc :: 'cb srv_conn. call_keeps ctl km call sc"
    and add: "\<And>ev k. km k fd = None \<Longrightarrow> 0 \<le> fst (ctl EPOLL_CTL_ADD fd ev k)"
  shows "sc_fd sc = fd \<Longrightarrow> conn_sim ctl km sc w \<Longrightarrow> foldE view_step ops sc = Inr (sc' :: 'cb srv_conn) \<Longrightarrow>
    \<exists>w'. foldE (conn_step ctl call self) ops w = Inr w' \<and> conn_sim ctl km sc' w'"
proof (induction ops arbitrary: sc w)
  case (Cons a ops)
  from Cons.prems(3) obtain sc1 where sc1: "view_step a sc = Inr sc1" "foldE view_step ops sc1 = Inr sc'"
    by (auto simp: bindE_eq_Inr)
  from sim_step [OF Cons.prems(2) sc1(1) keep] add Cons.prems(1)
  obtain w1 where w1: "conn_step ctl call self a w = Inr w1" "conn_sim ctl km sc1 w1" by blast
  from view_step_fd [OF sc1(1)] Cons.prems(1) have "sc_fd sc1 = fd" by simp
  from Cons.IH [OF this w1(2) sc1(2)] w1(1) show ?case by simp
qed simp

text \<open>
  C6. The view that a server has of its connections is refined by \<^verbatim>\<open>TcpConnection\<close>. From the constructor on, every sequence of \<^verbatim>\<open>ConnectionEstablished\<close>,
  \<^verbatim>\<open>shutdown\<close>, \<^verbatim>\<open>handleClose\<close> and \<^verbatim>\<open>ConnectionDestroyed\<close> that passes the checks of the view is a sequence in which the connection, its channel and the \<^verbatim>\<open>EPollPoller\<close> fail no assertion and
  end in the state and with the descriptor of the view; the channel is registered exactly from the first to the last, as the relation says. So the life that the server gives to each of its connections
  is a life of the class.
\<close>

theorem connection_refines:
  assumes "TcpConnection_new loop fd c rd wr cl er s = Inr w" and "epoll_ctl_spec ctl km" and "ep_inv km s" and "heap s c = None"
    and "ep_channels s fd = None" and "sc_state sc = kConnecting" and "sc_fd sc = fd" and "\<not> sc_removed sc"
    and "\<And>sc :: 'cb srv_conn. call_keeps ctl km call sc" and "\<And>ev k. km k fd = None \<Longrightarrow> 0 \<le> fst (ctl EPOLL_CTL_ADD fd ev k)"
    and "foldE view_step ops sc = Inr (sc' :: 'cb srv_conn)"
  shows "\<exists>w'. foldE (conn_step ctl call self) ops w = Inr w' \<and> conn_sim ctl km sc' w'
    \<and> state w' = sc_state sc' \<and> conn_fd w' = sc_fd sc'"
proof -
  have "conn_sim ctl km sc w" using sim_new [OF assms(1-8)] by simp
  from sim_life [of ctl km call fd, OF assms(9,10,7) this assms(11)] obtain w' where
    "foldE (conn_step ctl call self) ops w = Inr w'" "conn_sim ctl km sc' w'" by blast
  then show ?thesis by (auto simp: conn_sim_def conn_abs_def)
qed

text \<open>A whole life over a kernel whose interest list is a map.\<close>

definition life_store :: "(unit, int \<rightharpoonup> epoll_event) epoll_poller" where
  "life_store = \<lparr>heap = Map.empty, ep_events_size = 16, ep_channels = Map.empty, ep_kernel = Map.empty\<rparr>"

definition life_view :: "unit srv_conn" where
  "life_view = \<lparr>sc_loop = 0, sc_name = ''c'', sc_fd = 5, sc_local = \<lparr>sin_family = 2, sin_port = 0, s_addr = 0\<rparr>,
     sc_peer = \<lparr>sin_family = 2, sin_port = 0, s_addr = 0\<rparr>, sc_state = kConnecting, sc_removed = False, sc_connectionCb = None,
     sc_messageCb = None, sc_writeCompleteCb = None, sc_closeCb = True\<rparr>"

definition life_ops :: "view_op list" where
  "life_ops = [VEstablished, VShutdown, VClosed, VDestroyed]"

lemma life_new: "\<exists>w. TcpConnection_new 0 5 7 () () () () life_store = Inr w"
proof -
  obtain b where "Buffer_new = Inr b" using Buffer_new_ok by blast
  then show ?thesis
    by (auto simp: TcpConnection_new_def SetReadCb_def SetWriteCb_def SetCloseCb_def SetErrorCb_def mod_ch_def get_ch_def bindE_eq_Inr)
qed

theorem connection_refines_witness:
  "\<exists>w w'. TcpConnection_new 0 5 7 () () () () life_store = Inr w
    \<and> foldE (conn_step table_ctl (\<lambda>e v. Inr v) 9) life_ops w = Inr w' \<and> state w' = kDisconnected"
proof -
  obtain w where w: "TcpConnection_new 0 5 7 () () () () life_store = Inr w" using life_new by blast
  have v: "foldE view_step life_ops life_view = Inr (life_view\<lparr>sc_state := kDisconnected, sc_removed := True\<rparr>)"
    by (simp add: life_ops_def life_view_def view_step_def conn_established_def conn_closed_def conn_destroyed_def)
  have inv: "ep_inv (\<lambda>k. k) life_store" by (simp add: ep_inv_def life_store_def)
  have "\<exists>w'. foldE (conn_step table_ctl (\<lambda>e v. Inr v) 9) life_ops w = Inr w'
    \<and> conn_sim table_ctl (\<lambda>k. k) (life_view\<lparr>sc_state := kDisconnected, sc_removed := True\<rparr>) w'
    \<and> state w' = sc_state (life_view\<lparr>sc_state := kDisconnected, sc_removed := True\<rparr>)
    \<and> conn_fd w' = sc_fd (life_view\<lparr>sc_state := kDisconnected, sc_removed := True\<rparr>)"
    by (rule connection_refines [OF w table_ctl_spec inv _ _ _ _ _ _ _ v])
      (simp_all add: life_store_def life_view_def call_keeps_def table_ctl_def)
  then show ?thesis using w by auto
qed


end
