(* ===== verification/Connector.thy ===== *)
theory Connector
  imports Sockets Tcp_Stream
begin

text \<open>
  \<^verbatim>\<open>Connector\<close> of \<^verbatim>\<open>cobra/connector.h\<close> and \<^verbatim>\<open>cobra/connector.cpp\<close>: a non-blocking connect that is
  retried with a growing delay. \<open>co_queue\<close> holds the functors handed to the worker, \<open>co_timers\<close> the
  delays, in milliseconds, of the \<^verbatim>\<open>runAfter\<close> calls that will run \<^verbatim>\<open>startInLoop\<close> again, \<open>open_socks\<close>
  the sockets the connector has created and not closed, and \<open>new_conns\<close> the ones it gave to its
  user. The answers of \<^verbatim>\<open>socket\<close>, \<^verbatim>\<open>connect\<close> and \<^verbatim>\<open>getsockopt\<close> are arguments, collected for one
  attempt in \<open>attempt\<close>, with the address \<^verbatim>\<open>new Channel\<close> returned.
\<close>

unbundle bit_operations_syntax

section \<open>State\<close>

datatype connector_state = CDisconnected | CConnecting | CConnected

datatype connector_functor = StartInLoop | StopInLoop | ResetChannel

record 's connector =
  co_io :: 's
  co_loop :: nat
  co_state :: connector_state
  co_connect :: bool
  co_channel :: "nat option"
  retryDelayMs :: int
  co_queue :: "connector_functor list"
  co_timers :: "int list"
  open_socks :: "int set"
  new_conns :: "int list"

definition kMaxRetryDelayMs :: int where "kMaxRetryDelayMs = 30000"
definition kInitRetryDelayMs :: int where "kInitRetryDelayMs = 500"

record 'cb attempt =
  at_sockfd :: int
  at_errno :: int
  at_chan :: nat
  at_writeCb :: 'cb
  at_errorCb :: 'cb

definition Connector_new :: "'s \<Rightarrow> nat \<Rightarrow> 's connector" where
  "Connector_new io loop =
     \<lparr>co_io = io, co_loop = loop, co_state = CDisconnected, co_connect = False, co_channel = None,
      retryDelayMs = kInitRetryDelayMs, co_queue = [], co_timers = [], open_socks = {}, new_conns = []\<rparr>"

definition Connector_dtor :: "'s connector \<Rightarrow> unit res" where
  "Connector_dtor w = cassert (co_channel w = None) (Inr ())"

section \<open>Operations\<close>

definition in_progress :: "int \<Rightarrow> bool" where
  "in_progress e \<longleftrightarrow> e = 0 \<or> e = 115 \<or> e = 4 \<or> e = 106"

definition try_later :: "int \<Rightarrow> bool" where
  "try_later e \<longleftrightarrow> e = 11 \<or> e = 98 \<or> e = 99 \<or> e = 111 \<or> e = 101"

definition co_close :: "int \<Rightarrow> 's connector \<Rightarrow> 's connector" where
  "co_close sockfd w = w\<lparr>open_socks := open_socks w - {sockfd}\<rparr>"

definition retry :: "int \<Rightarrow> 's connector \<Rightarrow> 's connector" where
  "retry sockfd w =
     (let w1 = (co_close sockfd w)\<lparr>co_state := CDisconnected\<rparr>
      in if co_connect w1
         then w1\<lparr>co_timers := co_timers w1 @ [retryDelayMs w1],
                retryDelayMs := min (retryDelayMs w1 * 2) kMaxRetryDelayMs\<rparr>
         else w1)"

definition connecting ::
  "(nat \<Rightarrow> ('cb, 'z) chan_store_scheme \<Rightarrow> ('cb, 'z) chan_store_scheme res) \<Rightarrow> 'cb attempt
     \<Rightarrow> ('cb, 'z) chan_store_scheme connector \<Rightarrow> ('cb, 'z) chan_store_scheme connector res" where
  "connecting upd at w =
     (let w1 = w\<lparr>co_state := CConnecting\<rparr>; a = at_chan at
      in cassert (co_channel w1 = None)
        (let s1 = (co_io w1)\<lparr>heap := (heap (co_io w1))(a \<mapsto> Channel_new (co_loop w1) (at_sockfd at))\<rparr>
         in bindE (SetWriteCb a (at_writeCb at) s1) (\<lambda>s2.
            bindE (SetErrorCb a (at_errorCb at) s2) (\<lambda>s3.
            bindE (enableWriting upd a s3) (\<lambda>s4.
            Inr (w1\<lparr>co_channel := Some a, co_io := s4\<rparr>))))))"

definition Connector_connect ::
  "(nat \<Rightarrow> ('cb, 'z) chan_store_scheme \<Rightarrow> ('cb, 'z) chan_store_scheme res) \<Rightarrow> 'cb attempt
     \<Rightarrow> ('cb, 'z) chan_store_scheme connector \<Rightarrow> ('cb, 'z) chan_store_scheme connector res" where
  "Connector_connect upd at w =
     bindE (createNonblockingOrDie (at_sockfd at)) (\<lambda>sockfd.
       let w1 = w\<lparr>open_socks := insert sockfd (open_socks w)\<rparr>; savedErrno = at_errno at
       in if in_progress savedErrno then connecting upd at w1
          else if try_later savedErrno then Inr (retry sockfd w1)
          else Inr (co_close sockfd w1))"

definition startInLoop ::
  "(nat \<Rightarrow> ('cb, 'z) chan_store_scheme \<Rightarrow> ('cb, 'z) chan_store_scheme res) \<Rightarrow> 'cb attempt
     \<Rightarrow> ('cb, 'z) chan_store_scheme connector \<Rightarrow> ('cb, 'z) chan_store_scheme connector res" where
  "startInLoop upd at w =
     cassert (co_state w = CDisconnected) (if co_connect w then Connector_connect upd at w else Inr w)"

definition Connector_start ::
  "(nat \<Rightarrow> ('cb, 'z) chan_store_scheme \<Rightarrow> ('cb, 'z) chan_store_scheme res) \<Rightarrow> bool \<Rightarrow> 'cb attempt
     \<Rightarrow> ('cb, 'z) chan_store_scheme connector \<Rightarrow> ('cb, 'z) chan_store_scheme connector res" where
  "Connector_start upd inLoop at w =
     (let w1 = w\<lparr>co_connect := True\<rparr>
      in if inLoop then startInLoop upd at w1 else Inr (w1\<lparr>co_queue := co_queue w1 @ [StartInLoop]\<rparr>))"

definition Connector_restart ::
  "(nat \<Rightarrow> ('cb, 'z) chan_store_scheme \<Rightarrow> ('cb, 'z) chan_store_scheme res) \<Rightarrow> 'cb attempt
     \<Rightarrow> ('cb, 'z) chan_store_scheme connector \<Rightarrow> ('cb, 'z) chan_store_scheme connector res" where
  "Connector_restart upd at w =
     startInLoop upd at (w\<lparr>co_state := CDisconnected, retryDelayMs := kInitRetryDelayMs, co_connect := True\<rparr>)"

definition Connector_stop :: "'s connector \<Rightarrow> 's connector" where
  "Connector_stop w = w\<lparr>co_connect := False, co_queue := co_queue w @ [StopInLoop]\<rparr>"

definition removeAndResetChannel ::
  "(nat \<Rightarrow> ('cb, 'z) chan_store_scheme \<Rightarrow> ('cb, 'z) chan_store_scheme res)
     \<Rightarrow> (nat \<Rightarrow> ('cb, 'z) chan_store_scheme \<Rightarrow> ('cb, 'z) chan_store_scheme res)
     \<Rightarrow> ('cb, 'z) chan_store_scheme connector \<Rightarrow> (int \<times> ('cb, 'z) chan_store_scheme connector) res" where
  "removeAndResetChannel upd rmv w =
     (case co_channel w of
        None \<Rightarrow> Inl NullDeref
      | Some a \<Rightarrow>
          bindE (disableAll upd a (co_io w)) (\<lambda>s1.
          bindE (Channel_remove rmv a s1) (\<lambda>s2.
          bindE (get_ch a s2) (\<lambda>ch.
          Inr (ch_fd ch, w\<lparr>co_io := s2, co_queue := co_queue w @ [ResetChannel]\<rparr>)))))"

definition resetChannel ::
  "('cb, 'z) chan_store_scheme connector \<Rightarrow> ('cb, 'z) chan_store_scheme connector res" where
  "resetChannel w =
     (case co_channel w of
        None \<Rightarrow> Inr w
      | Some a \<Rightarrow> bindE (Channel_dtor a (co_io w)) (\<lambda>s. Inr (w\<lparr>co_io := s, co_channel := None\<rparr>)))"

definition stopInLoop ::
  "(nat \<Rightarrow> ('cb, 'z) chan_store_scheme \<Rightarrow> ('cb, 'z) chan_store_scheme res)
     \<Rightarrow> (nat \<Rightarrow> ('cb, 'z) chan_store_scheme \<Rightarrow> ('cb, 'z) chan_store_scheme res)
     \<Rightarrow> ('cb, 'z) chan_store_scheme connector \<Rightarrow> ('cb, 'z) chan_store_scheme connector res" where
  "stopInLoop upd rmv w =
     (if co_state w = CConnecting
      then bindE (removeAndResetChannel upd rmv (w\<lparr>co_state := CDisconnected\<rparr>))
             (\<lambda>(sockfd, w1). Inr (retry sockfd w1))
      else Inr w)"

text \<open>\<open>so\<close> is the answer of \<^verbatim>\<open>getsockopt\<close>, \<open>self\<close> whether the socket is connected to itself.\<close>

definition Connector_handleWrite ::
  "(nat \<Rightarrow> ('cb, 'z) chan_store_scheme \<Rightarrow> ('cb, 'z) chan_store_scheme res)
     \<Rightarrow> (nat \<Rightarrow> ('cb, 'z) chan_store_scheme \<Rightarrow> ('cb, 'z) chan_store_scheme res) \<Rightarrow> int + int \<Rightarrow> bool
     \<Rightarrow> ('cb, 'z) chan_store_scheme connector \<Rightarrow> ('cb, 'z) chan_store_scheme connector res" where
  "Connector_handleWrite upd rmv so self w =
     (if co_state w = CConnecting
      then bindE (removeAndResetChannel upd rmv w) (\<lambda>(sockfd, w1).
        let err = getSocketError so
        in if err \<noteq> 0 then Inr (retry sockfd w1)
           else if self then Inr (retry sockfd w1)
           else let w2 = w1\<lparr>co_state := CConnected\<rparr>
                in Inr (if co_connect w2 then w2\<lparr>new_conns := new_conns w2 @ [sockfd]\<rparr> else co_close sockfd w2))
      else cassert (co_state w = CDisconnected) (Inr w))"

definition Connector_handleError ::
  "(nat \<Rightarrow> ('cb, 'z) chan_store_scheme \<Rightarrow> ('cb, 'z) chan_store_scheme res)
     \<Rightarrow> (nat \<Rightarrow> ('cb, 'z) chan_store_scheme \<Rightarrow> ('cb, 'z) chan_store_scheme res)
     \<Rightarrow> ('cb, 'z) chan_store_scheme connector \<Rightarrow> ('cb, 'z) chan_store_scheme connector res" where
  "Connector_handleError upd rmv w =
     (if co_state w = CConnecting
      then bindE (removeAndResetChannel upd rmv w) (\<lambda>(sockfd, w1). Inr (retry sockfd w1))
      else Inr w)"

section \<open>One attempt with EPollPoller\<close>

text \<open>A connector between attempts, with a new socket and a new channel that the poller does not know.\<close>

definition co_idle ::
  "'k epoll_ctl \<Rightarrow> ('k \<Rightarrow> int \<rightharpoonup> epoll_event) \<Rightarrow> 'cb attempt \<Rightarrow> ('cb, 'k, 'z) epoll_poller_scheme connector \<Rightarrow> bool" where
  "co_idle ctl km at w \<longleftrightarrow> co_state w = CDisconnected \<and> co_connect w \<and> co_channel w = None
     \<and> epoll_ctl_spec ctl km \<and> ep_inv km (co_io w) \<and> 0 \<le> at_sockfd at \<and> at_sockfd at \<notin> open_socks w
     \<and> ep_channels (co_io w) (at_sockfd at) = None \<and> heap (co_io w) (at_chan at) = None
     \<and> 0 \<le> fst (ctl EPOLL_CTL_ADD (at_sockfd at) (kWriteEvent, at_chan at) (ep_kernel (co_io w)))"

definition co_waiting ::
  "'k epoll_ctl \<Rightarrow> ('k \<Rightarrow> int \<rightharpoonup> epoll_event) \<Rightarrow> int \<Rightarrow> ('cb, 'k, 'z) epoll_poller_scheme connector \<Rightarrow> bool" where
  "co_waiting ctl km fd w \<longleftrightarrow> co_state w = CConnecting \<and> epoll_ctl_spec ctl km \<and> ep_inv km (co_io w)
     \<and> fd \<in> open_socks w
     \<and> (\<exists>a ch. co_channel w = Some a \<and> heap (co_io w) a = Some ch \<and> ch_fd ch = fd \<and> ep_reg (co_io w) a)"

lemma connecting_ok:
  assumes idle: "co_idle ctl km at w" and prog: "in_progress (at_errno at)"
  shows "\<exists>w1. startInLoop (EPollPoller_UpdateChannel ctl) at w = Inr w1 \<and> co_waiting ctl km (at_sockfd at) w1
    \<and> open_socks w1 = insert (at_sockfd at) (open_socks w) \<and> co_timers w1 = co_timers w
    \<and> retryDelayMs w1 = retryDelayMs w \<and> new_conns w1 = new_conns w \<and> co_connect w1
    \<and> ep_channels (co_io w1) = (ep_channels (co_io w))(at_sockfd at \<mapsto> at_chan at)"
proof -
  let ?s = "co_io w" and ?a = "at_chan at" and ?fd = "at_sockfd at"
  define ch where "ch = (Channel_new (co_loop w) ?fd)\<lparr>writeCb := Some (at_writeCb at), errorCb := Some (at_errorCb at), events := kWriteEvent\<rparr>"
  have chf: "ch_fd ch = ?fd" "ch_index ch = kNew" "events ch = kWriteEvent"
    by (simp_all add: ch_def Channel_new_def kNew_def)
  have spec: "epoll_ctl_spec ctl km" using idle by (simp add: co_idle_def)
  obtain s4 where s4: "EPollPoller_UpdateChannel ctl ?a (?s\<lparr>heap := (heap ?s)(?a \<mapsto> ch)\<rparr>) = Inr s4" "ep_inv km s4"
    "heap s4 ?a = Some (ch\<lparr>ch_index := kAdded\<rparr>)" "ep_channels s4 = (ep_channels ?s)(?fd \<mapsto> ?a)" "ep_reg s4 ?a"
    using open_channel [OF spec, of ?s ?a ch] idle chf by (auto simp: co_idle_def)
  let ?w1 = "w\<lparr>open_socks := insert ?fd (open_socks w), co_state := CConnecting, co_channel := Some ?a, co_io := s4\<rparr>"
  have "startInLoop (EPollPoller_UpdateChannel ctl) at w = Inr ?w1"
    using idle prog s4(1) unfolding co_idle_def
    by (simp add: startInLoop_def Connector_connect_def createNonblockingOrDie_def connecting_def SetWriteCb_def
        SetErrorCb_def enableWriting_def ch_def Channel_new_def Let_def)
  moreover have "co_waiting ctl km ?fd ?w1"
    using spec s4(2,3,5) chf by (simp add: co_waiting_def)
  ultimately show ?thesis using idle s4(4) by (intro exI [of _ ?w1]) (simp add: co_idle_def)
qed

lemma co_waiting_upd: "co_waiting ctl km fd w \<Longrightarrow> co_waiting ctl km fd (w\<lparr>co_state := CConnecting\<rparr>)"
  by (simp add: co_waiting_def)

lemma removeAndReset_ok:
  assumes "co_waiting ctl km fd (w\<lparr>co_state := CConnecting\<rparr>)"
  shows "\<exists>w1. removeAndResetChannel (EPollPoller_UpdateChannel ctl) (EPollPoller_removeChannel ctl) w = Inr (fd, w1)
    \<and> ep_inv km (co_io w1) \<and> ep_channels (co_io w1) = (ep_channels (co_io w))(fd := None)
    \<and> ep_interest km (co_io w1) = (ep_interest km (co_io w))(fd := 0)
    \<and> co_queue w1 = co_queue w @ [ResetChannel] \<and> open_socks w1 = open_socks w \<and> co_timers w1 = co_timers w
    \<and> retryDelayMs w1 = retryDelayMs w \<and> new_conns w1 = new_conns w \<and> co_connect w1 = co_connect w"
proof -
  from assms obtain a ch where a: "co_channel w = Some a" "heap (co_io w) a = Some ch" "ch_fd ch = fd" "ep_reg (co_io w) a"
    and io: "epoll_ctl_spec ctl km" "ep_inv km (co_io w)"
    by (auto simp: co_waiting_def)
  obtain s1 s2 where s: "disableAll (EPollPoller_UpdateChannel ctl) a (co_io w) = Inr s1"
    "Channel_remove (EPollPoller_removeChannel ctl) a s1 = Inr s2" "ep_inv km s2"
    "ep_channels s2 = (ep_channels (co_io w))(ch_fd ch := None)"
    "ep_interest km s2 = (ep_interest km (co_io w))(ch_fd ch := 0)"
    "heap s2 a = Some (ch\<lparr>events := kNoneEvent, ch_index := kNew\<rparr>)"
    using close_channel [OF io a(4,2)] by blast
  with a show ?thesis
    by (intro exI [of _ "w\<lparr>co_io := s2, co_queue := co_queue w @ [ResetChannel]\<rparr>"]) (simp add: removeAndResetChannel_def)
qed


section \<open>Properties\<close>

lemma co_waiting_state: "co_waiting ctl km fd w \<Longrightarrow> co_state w = CConnecting"
  by (simp add: co_waiting_def)

lemma startInLoop_refused:
  assumes "co_state w = CDisconnected" and "co_connect w" and "0 \<le> at_sockfd at" and "try_later (at_errno at)"
  shows "startInLoop upd at w = Inr (retry (at_sockfd at) (w\<lparr>open_socks := insert (at_sockfd at) (open_socks w)\<rparr>))"
proof -
  have "\<not> in_progress (at_errno at)" using assms(4) by (auto simp: try_later_def in_progress_def)
  with assms show ?thesis
    by (simp add: startInLoop_def Connector_connect_def createNonblockingOrDie_def Let_def)
qed

definition co_demo :: "(unit, int \<rightharpoonup> epoll_event) epoll_poller connector" where
  "co_demo = (Connector_new (ep_demo\<lparr>heap := Map.empty\<rparr>) 1)\<lparr>co_connect := True\<rparr>"

definition at_demo :: "int \<Rightarrow> unit attempt" where
  "at_demo e = \<lparr>at_sockfd = 7, at_errno = e, at_chan = 4, at_writeCb = (), at_errorCb = ()\<rparr>"

lemma co_demo_idle: "co_idle table_ctl (\<lambda>k. k) (at_demo e) co_demo"
  using table_ctl_spec
  by (auto simp: co_idle_def co_demo_def at_demo_def Connector_new_def ep_inv_def ep_demo_def table_ctl_def)

text \<open>
  C16. A connection attempt in progress (\<^verbatim>\<open>Connector::connect\<close>, \<^verbatim>\<open>connecting\<close>) and the write event that ends it
  (\<^verbatim>\<open>Connector::handleWrite\<close>), over EPollPoller. The socket waits in the poller in between, and after the event the
  poller is back to the channels it had. When \<^verbatim>\<open>SO_ERROR\<close> is clear and the socket is not connected to
  itself, the socket is given to the user exactly once and stays open; otherwise it is closed, no
  connection is reported, a retry is scheduled after the current delay, and the delay doubles up to 30 seconds.
\<close>

theorem connector_attempt:
  assumes "co_idle ctl km at w" and "in_progress (at_errno at)"
  shows "\<exists>w1 w2. startInLoop (EPollPoller_UpdateChannel ctl) at w = Inr w1 \<and> co_state w1 = CConnecting
    \<and> ep_channels (co_io w1) = (ep_channels (co_io w))(at_sockfd at \<mapsto> at_chan at)
    \<and> Connector_handleWrite (EPollPoller_UpdateChannel ctl) (EPollPoller_removeChannel ctl) so self w1 = Inr w2
    \<and> ep_inv km (co_io w2) \<and> ep_channels (co_io w2) = ep_channels (co_io w)
    \<and> ep_interest km (co_io w2) (at_sockfd at) = 0
    \<and> (if getSocketError so = 0 \<and> \<not> self
       then co_state w2 = CConnected \<and> new_conns w2 = new_conns w @ [at_sockfd at]
         \<and> open_socks w2 = insert (at_sockfd at) (open_socks w) \<and> co_timers w2 = co_timers w
       else co_state w2 = CDisconnected \<and> new_conns w2 = new_conns w
         \<and> open_socks w2 = open_socks w \<and> co_timers w2 = co_timers w @ [retryDelayMs w]
         \<and> retryDelayMs w2 = min (2 * retryDelayMs w) 30000)"
proof -
  from connecting_ok [OF assms] obtain w1 where
    1: "startInLoop (EPollPoller_UpdateChannel ctl) at w = Inr w1" "co_waiting ctl km (at_sockfd at) w1"
    "open_socks w1 = insert (at_sockfd at) (open_socks w)" "co_timers w1 = co_timers w"
    "retryDelayMs w1 = retryDelayMs w" "new_conns w1 = new_conns w" "co_connect w1"
    "ep_channels (co_io w1) = (ep_channels (co_io w))(at_sockfd at \<mapsto> at_chan at)"
    by blast
  from removeAndReset_ok [OF co_waiting_upd [OF 1(2)]] obtain w' where
    2: "removeAndResetChannel (EPollPoller_UpdateChannel ctl) (EPollPoller_removeChannel ctl) w1 = Inr (at_sockfd at, w')"
    "ep_inv km (co_io w')" "ep_channels (co_io w') = (ep_channels (co_io w1))(at_sockfd at := None)"
    "ep_interest km (co_io w') = (ep_interest km (co_io w1))(at_sockfd at := 0)"
    "open_socks w' = open_socks w1" "co_timers w' = co_timers w1"
    "retryDelayMs w' = retryDelayMs w1" "new_conns w' = new_conns w1" "co_connect w' = co_connect w1"
    by blast
  have fresh: "ep_channels (co_io w) (at_sockfd at) = None" "at_sockfd at \<notin> open_socks w"
    using assms(1) by (auto simp: co_idle_def)
  then have "ep_channels (co_io w') = ep_channels (co_io w)" by (simp add: 1 2 fun_upd_idem)
  then show ?thesis
    using 1 2 fresh co_waiting_state [OF 1(2)]
    by (auto simp: Connector_handleWrite_def Let_def retry_def co_close_def kMaxRetryDelayMs_def mult.commute)
qed

theorem connector_attempt_witness:
  "\<exists>w1 w2. startInLoop (EPollPoller_UpdateChannel table_ctl) (at_demo 115) co_demo = Inr w1
    \<and> Connector_handleWrite (EPollPoller_UpdateChannel table_ctl) (EPollPoller_removeChannel table_ctl) (Inr 111) False w1 = Inr w2
    \<and> co_timers w2 = [500] \<and> retryDelayMs w2 = 1000"
proof -
  have "in_progress (at_errno (at_demo 115))" by (simp add: in_progress_def at_demo_def)
  moreover have "co_timers co_demo = []" "retryDelayMs co_demo = 500"
    by (simp_all add: co_demo_def Connector_new_def kInitRetryDelayMs_def)
  moreover have "getSocketError (Inr 111) = 111" by (simp add: getSocketError_def)
  ultimately show ?thesis
    using connector_attempt [OF co_demo_idle [of 115], of "Inr 111" False] by auto
qed

text \<open>The attempts a connector makes, each run by the timer that the one before it left.\<close>

fun run_attempts ::
  "(nat \<Rightarrow> ('cb, 'z) chan_store_scheme \<Rightarrow> ('cb, 'z) chan_store_scheme res) \<Rightarrow> 'cb attempt list
     \<Rightarrow> ('cb, 'z) chan_store_scheme connector \<Rightarrow> ('cb, 'z) chan_store_scheme connector res" where
  "run_attempts upd [] w = Inr w"
| "run_attempts upd (at # ats) w = bindE (startInLoop upd at w) (run_attempts upd ats)"

definition backoff :: "nat \<Rightarrow> int" where "backoff k = min (500 * 2 ^ k) 30000"

lemma backoff_double: "min (backoff k * 2) 30000 = backoff (Suc k)"
  by (auto simp: backoff_def min_def)

lemma run_attempts_refused:
  assumes "\<forall>at \<in> set ats. 0 \<le> at_sockfd at \<and> at_sockfd at \<notin> open_socks w \<and> try_later (at_errno at)"
    and "co_state w = CDisconnected" and "co_connect w" and "retryDelayMs w = backoff k"
  shows "run_attempts upd ats w = Inr (w\<lparr>retryDelayMs := backoff (k + length ats),
    co_timers := co_timers w @ map backoff [k..<k + length ats]\<rparr>)"
  using assms
proof (induction ats arbitrary: w k)
  case Nil
  then show ?case by (cases w) simp
next
  case (Cons at ats)
  let ?w1 = "w\<lparr>retryDelayMs := backoff (Suc k), co_timers := co_timers w @ [backoff k]\<rparr>"
  have "retry (at_sockfd at) (w\<lparr>open_socks := insert (at_sockfd at) (open_socks w)\<rparr>) = ?w1"
    using Cons.prems by (cases w) (simp add: retry_def co_close_def kMaxRetryDelayMs_def backoff_double)
  then have "startInLoop upd at w = Inr ?w1" using Cons.prems by (simp add: startInLoop_refused)
  moreover have "[k..<Suc (k + length ats)] = k # [Suc k..<Suc (k + length ats)]" by (simp add: upt_rec)
  ultimately show ?case using Cons.prems Cons.IH [of ?w1 "Suc k"] by simp
qed

text \<open>
  C33. Exponential back-off (\<^verbatim>\<open>Connector::start\<close>, \<^verbatim>\<open>Connector::retry\<close>): when a new connector is started on its
  loop thread and the first \<open>n\<close> attempts are refused by \<^verbatim>\<open>connect(2)\<close>, the retries are scheduled after
  0.5, 1, 2, ... seconds, each the double of the one before and never more than 30 seconds, no socket
  stays open, no connection is reported, and the connector is ready for the next attempt.
\<close>

theorem connector_backoff:
  assumes "0 \<le> at_sockfd at" and "try_later (at_errno at)"
    and "\<forall>a \<in> set ats. 0 \<le> at_sockfd a \<and> try_later (at_errno a)"
  shows "bindE (Connector_start upd True at (Connector_new io loop)) (run_attempts upd ats)
    = Inr ((Connector_new io loop)\<lparr>co_connect := True,
        retryDelayMs := min (500 * 2 ^ Suc (length ats)) 30000,
        co_timers := map (\<lambda>k. min (500 * 2 ^ k) 30000) [0..<Suc (length ats)]\<rparr>)"
proof -
  let ?w = "(Connector_new io loop)\<lparr>co_connect := True\<rparr>"
  have start: "Connector_start upd True at (Connector_new io loop) = startInLoop upd at ?w"
    by (simp add: Connector_start_def)
  have b: "(\<lambda>k. min (500 * 2 ^ k) 30000) = backoff" by (simp add: fun_eq_iff backoff_def)
  have "run_attempts upd (at # ats) ?w
    = Inr (?w\<lparr>retryDelayMs := backoff (Suc (length ats)), co_timers := map backoff [0..<Suc (length ats)]\<rparr>)"
    using assms run_attempts_refused [of "at # ats" ?w 0 upd]
    by (simp add: Connector_new_def kInitRetryDelayMs_def backoff_def del: upt_Suc)
  then show ?thesis unfolding start b by (simp add: backoff_def del: upt_Suc power_Suc)
qed

theorem connector_backoff_witness:
  "bindE (Connector_start (EPollPoller_UpdateChannel table_ctl) True (at_demo 111) (Connector_new ep_demo 1))
      (run_attempts (EPollPoller_UpdateChannel table_ctl) (replicate 7 (at_demo 111)))
    = Inr ((Connector_new ep_demo 1)\<lparr>co_connect := True, retryDelayMs := 30000,
        co_timers := [500, 1000, 2000, 4000, 8000, 16000, 30000, 30000]\<rparr>)"
  using connector_backoff [of "at_demo 111" "replicate 7 (at_demo 111)" "EPollPoller_UpdateChannel table_ctl" ep_demo 1]
  by (simp add: at_demo_def try_later_def upt_rec)

text \<open>
  Stopping a connector (\<^verbatim>\<open>Connector::stop\<close>, \<^verbatim>\<open>stopInLoop\<close>) while an attempt is in progress: once
  \<^verbatim>\<open>stopInLoop\<close> has run, the socket is closed and unregistered, no retry is scheduled and no connection is
  reported, and a retry timer that is still pending does nothing when it fires.
\<close>

theorem connector_stop_quiet:
  assumes "co_waiting ctl km fd w"
  shows "\<exists>w1. stopInLoop (EPollPoller_UpdateChannel ctl) (EPollPoller_removeChannel ctl) (Connector_stop w) = Inr w1
    \<and> co_state w1 = CDisconnected \<and> open_socks w1 = open_socks w - {fd} \<and> co_timers w1 = co_timers w
    \<and> new_conns w1 = new_conns w \<and> ep_inv km (co_io w1)
    \<and> ep_channels (co_io w1) = (ep_channels (co_io w))(fd := None)
    \<and> ep_interest km (co_io w1) fd = 0
    \<and> startInLoop (EPollPoller_UpdateChannel ctl) at w1 = Inr w1"
proof -
  let ?w = "(Connector_stop w)\<lparr>co_state := CDisconnected\<rparr>"
  have "co_waiting ctl km fd (?w\<lparr>co_state := CConnecting\<rparr>)" using assms by (simp add: co_waiting_def Connector_stop_def)
  from removeAndReset_ok [OF this] obtain w' where
    "removeAndResetChannel (EPollPoller_UpdateChannel ctl) (EPollPoller_removeChannel ctl) ?w = Inr (fd, w')"
    "ep_inv km (co_io w')" "ep_channels (co_io w') = (ep_channels (co_io ?w))(fd := None)"
    "ep_interest km (co_io w') = (ep_interest km (co_io ?w))(fd := 0)"
    "open_socks w' = open_socks ?w" "co_timers w' = co_timers ?w"
    "new_conns w' = new_conns ?w" "co_connect w' = co_connect ?w"
    by blast
  then show ?thesis using co_waiting_state [OF assms]
    by (auto simp: stopInLoop_def Connector_stop_def retry_def co_close_def startInLoop_def Let_def)
qed

theorem connector_stop_quiet_witness:
  "\<exists>w w1. startInLoop (EPollPoller_UpdateChannel table_ctl) (at_demo 115) co_demo = Inr w
    \<and> stopInLoop (EPollPoller_UpdateChannel table_ctl) (EPollPoller_removeChannel table_ctl) (Connector_stop w) = Inr w1
    \<and> open_socks w1 = {} \<and> co_timers w1 = []"
proof -
  have "in_progress (at_errno (at_demo 115))" by (simp add: in_progress_def at_demo_def)
  from connecting_ok [OF co_demo_idle this] obtain w where w:
    "startInLoop (EPollPoller_UpdateChannel table_ctl) (at_demo 115) co_demo = Inr w"
    "co_waiting table_ctl (\<lambda>k. k) (at_sockfd (at_demo 115)) w"
    "open_socks w = insert (at_sockfd (at_demo 115)) (open_socks co_demo)" "co_timers w = co_timers co_demo"
    by blast
  from connector_stop_quiet [OF w(2)] w show ?thesis
    by (fastforce simp: co_demo_def Connector_new_def)
qed

text \<open>
  \<^verbatim>\<open>Connector::stop\<close> leaves the retry timer of a refused attempt pending (its FIXME says so). If the
  connector is started again and the new attempt is in progress when that timer fires, \<^verbatim>\<open>startInLoop\<close>
  fails its assertion that the connector is disconnected.
\<close>

theorem connector_stale_retry:
  assumes "co_idle ctl km at w" and "try_later (at_errno at)"
    and "in_progress (at_errno at2)" and "at_sockfd at2 = at_sockfd at" and "at_chan at2 = at_chan at"
  shows "\<exists>w1 w2 w3. startInLoop (EPollPoller_UpdateChannel ctl) at w = Inr w1
    \<and> co_timers w1 = co_timers w @ [retryDelayMs w]
    \<and> stopInLoop (EPollPoller_UpdateChannel ctl) (EPollPoller_removeChannel ctl) (Connector_stop w1) = Inr w2
    \<and> co_timers w2 = co_timers w1
    \<and> Connector_start (EPollPoller_UpdateChannel ctl) True at2 w2 = Inr w3
    \<and> startInLoop (EPollPoller_UpdateChannel ctl) at3 w3 = Inl AssertFailed"
proof -
  have w: "co_state w = CDisconnected" "co_connect w" "0 \<le> at_sockfd at" "at_sockfd at \<notin> open_socks w"
    using assms(1) by (auto simp: co_idle_def)
  let ?w1 = "w\<lparr>co_timers := co_timers w @ [retryDelayMs w], retryDelayMs := min (retryDelayMs w * 2) kMaxRetryDelayMs\<rparr>"
  have "retry (at_sockfd at) (w\<lparr>open_socks := insert (at_sockfd at) (open_socks w)\<rparr>) = ?w1"
    using w by (cases w) (simp add: retry_def co_close_def)
  then have 1: "startInLoop (EPollPoller_UpdateChannel ctl) at w = Inr ?w1"
    using startInLoop_refused [OF w(1-3) assms(2)] by simp
  let ?w2 = "Connector_stop ?w1"
  have 2: "stopInLoop (EPollPoller_UpdateChannel ctl) (EPollPoller_removeChannel ctl) ?w2 = Inr ?w2"
    using w by (simp add: stopInLoop_def Connector_stop_def)
  have "co_idle ctl km at2 (?w2\<lparr>co_connect := True\<rparr>)"
    using assms by (simp add: co_idle_def Connector_stop_def)
  from connecting_ok [OF this assms(3)] obtain w3 where
    3: "startInLoop (EPollPoller_UpdateChannel ctl) at2 (?w2\<lparr>co_connect := True\<rparr>) = Inr w3" "co_waiting ctl km (at_sockfd at2) w3"
    by blast
  then show ?thesis using 1 2 co_waiting_state [OF 3(2)]
    by (intro exI [of _ ?w1] exI [of _ ?w2] exI [of _ w3])
      (simp add: Connector_start_def startInLoop_def [of _ at3] Connector_stop_def cassert_def)
qed

theorem connector_stale_retry_witness:
  "\<exists>w1 w2 w3. startInLoop (EPollPoller_UpdateChannel table_ctl) (at_demo 111) co_demo = Inr w1
    \<and> stopInLoop (EPollPoller_UpdateChannel table_ctl) (EPollPoller_removeChannel table_ctl) (Connector_stop w1) = Inr w2
    \<and> Connector_start (EPollPoller_UpdateChannel table_ctl) True (at_demo 115) w2 = Inr w3
    \<and> startInLoop (EPollPoller_UpdateChannel table_ctl) (at_demo 0) w3 = Inl AssertFailed"
  using connector_stale_retry [OF co_demo_idle [of 111], of "at_demo 115" "at_demo 0"]
  by (auto simp: at_demo_def try_later_def in_progress_def)

end
