(* ===== verification/Tcp_Client.thy ===== *)
theory Tcp_Client
  imports Connector Server
begin

text \<open>
  \<^verbatim>\<open>TcpClient\<close> of \<^verbatim>\<open>cobra/tcp_client.h\<close> and \<^verbatim>\<open>cobra/tcp_client.cpp\<close>: a \<^verbatim>\<open>Connector\<close> and at most one connection. As in the theory \<^verbatim>\<open>Server\<close>, the
  connections are kept by address, with the state that \<^verbatim>\<open>TcpConnection\<close> gives them. \<open>cl_closeCbs\<close> says which
  function is the close callback of a connection, \<open>cl_queue\<close> holds the functors handed to the worker, and \<open>cl_timers\<close> counts the
  \<^verbatim>\<open>runAfter\<close> calls of the destructor. The source calls \<^verbatim>\<open>connectEstablished\<close> and \<^verbatim>\<open>connectDestroyed\<close>; the
  operations of \<^verbatim>\<open>TcpConnection\<close> are \<^verbatim>\<open>ConnectionEstablished\<close> and \<^verbatim>\<open>ConnectionDestroyed\<close>.
\<close>

section \<open>State\<close>

datatype close_callback = RemoveByClient | RemoveDetached

datatype cl_functor = CDestroyed nat | CSetCloseCb nat

record ('s, 'cb) tcp_client =
  cl_loop :: nat
  cl_connector :: "'s connector"
  cl_name :: string
  cl_connectionCb :: "'cb option"
  cl_messageCb :: "'cb option"
  cl_writeCompleteCb :: "'cb option"
  cl_retry :: bool
  cl_connect :: bool
  nextConnId :: "32 word"
  connection :: "nat option"
  cl_conns :: "nat \<rightharpoonup> 'cb srv_conn"
  cl_closeCbs :: "nat \<rightharpoonup> close_callback"
  cl_queue :: "cl_functor list"
  cl_timers :: nat

definition TcpClient_new :: "'s \<Rightarrow> nat \<Rightarrow> string \<Rightarrow> 'cb \<Rightarrow> 'cb \<Rightarrow> ('s, 'cb) tcp_client" where
  "TcpClient_new io loop name defConn defMsg =
     \<lparr>cl_loop = loop, cl_connector = Connector_new io loop, cl_name = name, cl_connectionCb = Some defConn, cl_messageCb = Some defMsg,
      cl_writeCompleteCb = None, cl_retry = False, cl_connect = True, nextConnId = 1, connection = None, cl_conns = Map.empty,
      cl_closeCbs = Map.empty, cl_queue = [], cl_timers = 0\<rparr>"

definition enableRetry :: "('s, 'cb) tcp_client \<Rightarrow> ('s, 'cb) tcp_client" where "enableRetry w = w\<lparr>cl_retry := True\<rparr>"

definition setConnectionCb :: "'cb \<Rightarrow> ('s, 'cb) tcp_client \<Rightarrow> ('s, 'cb) tcp_client" where
  "setConnectionCb cb w = w\<lparr>cl_connectionCb := Some cb\<rparr>"

definition setMessageCb :: "'cb \<Rightarrow> ('s, 'cb) tcp_client \<Rightarrow> ('s, 'cb) tcp_client" where
  "setMessageCb cb w = w\<lparr>cl_messageCb := Some cb\<rparr>"

definition setWriteCompleteCb :: "'cb \<Rightarrow> ('s, 'cb) tcp_client \<Rightarrow> ('s, 'cb) tcp_client" where
  "setWriteCompleteCb cb w = w\<lparr>cl_writeCompleteCb := Some cb\<rparr>"

section \<open>Operations\<close>

definition TcpClient_connection :: "('s, 'cb) tcp_client \<Rightarrow> nat option" where
  "TcpClient_connection w = connection w"

definition cl_queueInLoop :: "cl_functor \<Rightarrow> ('s, 'cb) tcp_client \<Rightarrow> ('s, 'cb) tcp_client" where
  "cl_queueInLoop f w = w\<lparr>cl_queue := cl_queue w @ [f]\<rparr>"

definition mod_cl_conn ::
  "nat \<Rightarrow> ('cb srv_conn \<Rightarrow> 'cb srv_conn res) \<Rightarrow> ('s, 'cb) tcp_client \<Rightarrow> ('s, 'cb) tcp_client res" where
  "mod_cl_conn c f w =
     (case cl_conns w c of
        None \<Rightarrow> Inl NullDeref
      | Some sc \<Rightarrow> bindE (f sc) (\<lambda>sc'. Inr (w\<lparr>cl_conns := (cl_conns w)(c \<mapsto> sc')\<rparr>)))"

definition TcpClient_connect ::
  "(nat \<Rightarrow> ('e, 'z) chan_store_scheme \<Rightarrow> ('e, 'z) chan_store_scheme res) \<Rightarrow> bool \<Rightarrow> 'e attempt
     \<Rightarrow> (('e, 'z) chan_store_scheme, 'cb) tcp_client \<Rightarrow> (('e, 'z) chan_store_scheme, 'cb) tcp_client res" where
  "TcpClient_connect upd inLoop at w =
     (let w1 = w\<lparr>cl_connect := True\<rparr>
      in bindE (Connector_start upd inLoop at (cl_connector w1)) (\<lambda>co. Inr (w1\<lparr>cl_connector := co\<rparr>)))"

text \<open>\<^verbatim>\<open>TcpConnection::shutdown\<close> changes the state at once, the rest in the loop.\<close>

definition conn_shutdown :: "'cb srv_conn \<Rightarrow> 'cb srv_conn" where
  "conn_shutdown sc = (if sc_state sc = kConnected then sc\<lparr>sc_state := kDisconnecting\<rparr> else sc)"

definition disconnect :: "('s, 'cb) tcp_client \<Rightarrow> ('s, 'cb) tcp_client res" where
  "disconnect w =
     (let w1 = w\<lparr>cl_connect := False\<rparr>
      in case connection w1 of None \<Rightarrow> Inr w1 | Some c \<Rightarrow> mod_cl_conn c (\<lambda>sc. Inr (conn_shutdown sc)) w1)"

definition TcpClient_stop :: "('s, 'cb) tcp_client \<Rightarrow> ('s, 'cb) tcp_client" where
  "TcpClient_stop w = w\<lparr>cl_connect := False, cl_connector := Connector_stop (cl_connector w)\<rparr>"

text \<open>\<open>a\<close> is the address of the new object; \<open>pr\<close> and \<open>lr\<close> are the answers of \<^verbatim>\<open>getpeername\<close> and \<^verbatim>\<open>getsockname\<close>.\<close>

definition newConnection ::
  "endianness \<Rightarrow> (32 word \<Rightarrow> string) \<Rightarrow> nat \<Rightarrow> endpoint option \<Rightarrow> endpoint option \<Rightarrow> int \<Rightarrow> ('s, 'cb) tcp_client \<Rightarrow> ('s, 'cb) tcp_client res" where
  "newConnection host ntop a pr lr sockfd w =
     (let peerAddr = getPeerAddr pr;
          connName = cl_name w @ snprintf_fit 32 ('':'' @ toIpPort host ntop peerAddr @ ''#'' @ dec_int (sint (nextConnId w)));
          localAddr = getLocalAddr lr;
          conn = \<lparr>sc_loop = cl_loop w, sc_name = connName, sc_fd = sockfd, sc_local = localAddr, sc_peer = peerAddr,
                  sc_state = kConnecting, sc_removed = False, sc_connectionCb = cl_connectionCb w, sc_messageCb = cl_messageCb w,
                  sc_writeCompleteCb = cl_writeCompleteCb w, sc_closeCb = True\<rparr>;
          w1 = w\<lparr>nextConnId := nextConnId w + 1, cl_conns := (cl_conns w)(a \<mapsto> conn),
                cl_closeCbs := (cl_closeCbs w)(a \<mapsto> RemoveByClient), connection := Some a\<rparr>
      in mod_cl_conn a conn_established w1)"

definition removeConnection ::
  "(nat \<Rightarrow> ('e, 'z) chan_store_scheme \<Rightarrow> ('e, 'z) chan_store_scheme res) \<Rightarrow> 'e attempt \<Rightarrow> nat
     \<Rightarrow> (('e, 'z) chan_store_scheme, 'cb) tcp_client \<Rightarrow> (('e, 'z) chan_store_scheme, 'cb) tcp_client res" where
  "removeConnection upd at c w =
     (case cl_conns w c of
        None \<Rightarrow> Inl NullDeref
      | Some sc \<Rightarrow>
          cassert (cl_loop w = sc_loop sc) (cassert (connection w = Some c)
            (let w1 = cl_queueInLoop (CDestroyed c) (w\<lparr>connection := None\<rparr>)
             in if cl_retry w1 \<and> cl_connect w1
                then bindE (Connector_restart upd at (cl_connector w1)) (\<lambda>co. Inr (w1\<lparr>cl_connector := co\<rparr>))
                else Inr w1)))"

definition detail_removeConnection :: "nat \<Rightarrow> ('s, 'cb) tcp_client \<Rightarrow> ('s, 'cb) tcp_client" where
  "detail_removeConnection c w = cl_queueInLoop (CDestroyed c) w"

text \<open>A connection sees its end: \<^verbatim>\<open>handleClose\<close>, with the close callback that is set.\<close>

definition client_close ::
  "(nat \<Rightarrow> ('e, 'z) chan_store_scheme \<Rightarrow> ('e, 'z) chan_store_scheme res) \<Rightarrow> 'e attempt \<Rightarrow> nat
     \<Rightarrow> (('e, 'z) chan_store_scheme, 'cb) tcp_client \<Rightarrow> (('e, 'z) chan_store_scheme, 'cb) tcp_client res" where
  "client_close upd at c w =
     bindE (mod_cl_conn c conn_closed w) (\<lambda>w1.
       case cl_closeCbs w1 c of
         Some RemoveByClient \<Rightarrow> removeConnection upd at c w1
       | Some RemoveDetached \<Rightarrow> Inr (detail_removeConnection c w1)
       | None \<Rightarrow> Inr w1)"

definition run_cl_functor :: "cl_functor \<Rightarrow> ('s, 'cb) tcp_client \<Rightarrow> ('s, 'cb) tcp_client res" where
  "run_cl_functor f w =
     (case f of
        CDestroyed c \<Rightarrow> mod_cl_conn c conn_destroyed w
      | CSetCloseCb c \<Rightarrow> Inr (w\<lparr>cl_closeCbs := (cl_closeCbs w)(c \<mapsto> RemoveDetached)\<rparr>))"

definition TcpClient_dtor :: "bool \<Rightarrow> ('s, 'cb) tcp_client \<Rightarrow> ('s, 'cb) tcp_client res" where
  "TcpClient_dtor inLoop w =
     (case connection w of
        Some c \<Rightarrow> if inLoop then run_cl_functor (CSetCloseCb c) w else Inr (cl_queueInLoop (CSetCloseCb c) w)
      | None \<Rightarrow> Inr (w\<lparr>cl_connector := Connector_stop (cl_connector w), cl_timers := cl_timers w + 1\<rparr>))"

section \<open>Properties\<close>

text \<open>A client with an open connection; its connector is done with it.\<close>

definition client_open :: "('s, 'cb) tcp_client \<Rightarrow> nat \<Rightarrow> 'cb srv_conn \<Rightarrow> bool" where
  "client_open w c sc \<longleftrightarrow> connection w = Some c \<and> cl_conns w c = Some sc \<and> cl_closeCbs w c = Some RemoveByClient
     \<and> sc_loop sc = cl_loop w \<and> (sc_state sc = kConnected \<or> sc_state sc = kDisconnecting) \<and> \<not> sc_removed sc
     \<and> co_state (cl_connector w) = CConnected"

definition ready_again :: "'s connector \<Rightarrow> 's connector" where
  "ready_again co = co\<lparr>co_state := CDisconnected, retryDelayMs := kInitRetryDelayMs, co_connect := True\<rparr>"

lemma newConnection_open:
  assumes "co_state (cl_connector w) = CConnected"
  shows "\<exists>w' sc. newConnection host ntop a pr lr fd w = Inr w' \<and> client_open w' a sc \<and> sc_fd sc = fd \<and> sc_state sc = kConnected
    \<and> nextConnId w' = nextConnId w + 1 \<and> cl_conns w' = (cl_conns w)(a \<mapsto> sc) \<and> cl_connector w' = cl_connector w"
  using assms
  by (simp add: newConnection_def mod_cl_conn_def conn_established_def client_open_def Let_def)

lemma client_close_eq:
  assumes "client_open w c sc"
  shows "client_close upd at c w =
    (let w1 = w\<lparr>cl_conns := (cl_conns w)(c \<mapsto> sc\<lparr>sc_state := kDisconnected\<rparr>), connection := None, cl_queue := cl_queue w @ [CDestroyed c]\<rparr>
     in if cl_retry w \<and> cl_connect w
        then bindE (startInLoop upd at (ready_again (cl_connector w))) (\<lambda>co. Inr (w1\<lparr>cl_connector := co\<rparr>))
        else Inr w1)"
proof -
  have "mod_cl_conn c conn_closed w = Inr (w\<lparr>cl_conns := (cl_conns w)(c \<mapsto> sc\<lparr>sc_state := kDisconnected\<rparr>)\<rparr>)"
    using assms by (auto simp: mod_cl_conn_def conn_closed_def client_open_def)
  then show ?thesis using assms
    by (simp add: client_close_def removeConnection_def client_open_def cl_queueInLoop_def Connector_restart_def ready_again_def Let_def)
qed

lemma run_destroyed:
  assumes "cl_conns w c = Some sc" and "sc_state sc = kDisconnected" and "\<not> sc_removed sc"
  shows "run_cl_functor (CDestroyed c) w = Inr (w\<lparr>cl_conns := (cl_conns w)(c \<mapsto> sc\<lparr>sc_removed := True\<rparr>)\<rparr>)"
  using assms by (simp add: run_cl_functor_def mod_cl_conn_def conn_destroyed_def Let_def)

text \<open>
  C17. A client with retry enabled reconnects (\<^verbatim>\<open>TcpClient::removeConnection\<close>, \<^verbatim>\<open>newConnection\<close>, with \<^verbatim>\<open>Connector\<close> over EPollPoller): when its connection
  is closed, by the peer or after \<^verbatim>\<open>shutdown\<close>, the assertions about the connection hold, the client lets go of it and queues its
  destruction, which succeeds, and the connector starts a new attempt with the initial delay; and when that attempt
  succeeds, the client has a new open connection on the new socket, with the next number in its name.
\<close>

theorem client_reconnects:
  assumes "client_open w c sc" and "cl_retry w" and "cl_connect w"
    and "co_idle ctl km at (ready_again (cl_connector w))" and "in_progress (at_errno at)" and "a \<noteq> c"
  shows "\<exists>w1 w2 co w3 sc'. client_close (EPollPoller_UpdateChannel ctl) at c w = Inr w1
    \<and> connection w1 = None \<and> cl_queue w1 = cl_queue w @ [CDestroyed c]
    \<and> co_state (cl_connector w1) = CConnecting \<and> retryDelayMs (cl_connector w1) = 500
    \<and> run_cl_functor (CDestroyed c) w1 = Inr w2
    \<and> Connector_handleWrite (EPollPoller_UpdateChannel ctl) (EPollPoller_removeChannel ctl) (Inr 0) False (cl_connector w2) = Inr co
    \<and> new_conns co = new_conns (cl_connector w) @ [at_sockfd at]
    \<and> newConnection host ntop a pr lr (at_sockfd at) (w2\<lparr>cl_connector := co\<rparr>) = Inr w3
    \<and> client_open w3 a sc' \<and> sc_fd sc' = at_sockfd at \<and> nextConnId w3 = nextConnId w + 1
    \<and> cl_conns w3 c = Some (sc\<lparr>sc_state := kDisconnected, sc_removed := True\<rparr>)"
proof -
  let ?co = "ready_again (cl_connector w)"
  obtain co1 where co1: "startInLoop (EPollPoller_UpdateChannel ctl) at ?co = Inr co1" "co_waiting ctl km (at_sockfd at) co1"
    "retryDelayMs co1 = retryDelayMs ?co" "new_conns co1 = new_conns ?co" "co_connect co1"
    using connecting_ok [OF assms(4,5)] by blast
  obtain co2 where co2: "removeAndResetChannel (EPollPoller_UpdateChannel ctl) (EPollPoller_removeChannel ctl) co1 = Inr (at_sockfd at, co2)"
    "new_conns co2 = new_conns co1" "co_connect co2 = co_connect co1"
    using removeAndReset_ok [OF co_waiting_upd [OF co1(2)]] by blast
  let ?sd = "sc\<lparr>sc_state := kDisconnected\<rparr>"
  define w1 where "w1 = w\<lparr>cl_conns := (cl_conns w)(c \<mapsto> ?sd), connection := None, cl_queue := cl_queue w @ [CDestroyed c], cl_connector := co1\<rparr>"
  define w2 where "w2 = w1\<lparr>cl_conns := (cl_conns w1)(c \<mapsto> ?sd\<lparr>sc_removed := True\<rparr>)\<rparr>"
  define co where "co = co2\<lparr>co_state := CConnected, new_conns := new_conns co2 @ [at_sockfd at]\<rparr>"
  have 1: "client_close (EPollPoller_UpdateChannel ctl) at c w = Inr w1"
    using client_close_eq [OF assms(1)] assms(2,3) co1(1) by (simp add: w1_def)
  have 2: "run_cl_functor (CDestroyed c) w1 = Inr w2"
    using run_destroyed [of w1 c ?sd] assms(1) by (simp add: w1_def w2_def client_open_def)
  have 3: "Connector_handleWrite (EPollPoller_UpdateChannel ctl) (EPollPoller_removeChannel ctl) (Inr 0) False (cl_connector w2) = Inr co"
    using co_waiting_state [OF co1(2)] co2 co1(5) by (simp add: w2_def w1_def Connector_handleWrite_def getSocketError_def co_def)
  obtain w3 sc' where 4: "newConnection host ntop a pr lr (at_sockfd at) (w2\<lparr>cl_connector := co\<rparr>) = Inr w3" "client_open w3 a sc'"
    "sc_fd sc' = at_sockfd at" "nextConnId w3 = nextConnId w2 + 1" "cl_conns w3 = (cl_conns w2)(a \<mapsto> sc')"
    using newConnection_open [of "w2\<lparr>cl_connector := co\<rparr>" host ntop a pr lr "at_sockfd at"] by (auto simp: co_def)
  have "co_state (cl_connector w1) = CConnecting" "retryDelayMs (cl_connector w1) = 500"
    using co_waiting_state [OF co1(2)] co1(3) by (simp_all add: w1_def ready_again_def kInitRetryDelayMs_def)
  moreover have "new_conns co = new_conns (cl_connector w) @ [at_sockfd at]" using co1(4) co2(2) by (simp add: co_def ready_again_def)
  moreover have "cl_conns w3 c = Some (?sd\<lparr>sc_removed := True\<rparr>)" using 4(5) assms(6) by (simp add: w2_def)
  ultimately show ?thesis using 1 2 3 4 by (auto simp: w1_def w2_def)
qed

text \<open>
  A client without retry cannot connect again (\<^verbatim>\<open>TcpClient::connect\<close>): after its connection is closed the connector still counts as
  connected, and calling \<^verbatim>\<open>connect\<close> fails the assertion of \<^verbatim>\<open>Connector::startInLoop\<close>, in the loop thread at once and from another thread when
  the loop runs the functor.
\<close>

theorem client_reconnect_asserts:
  assumes "client_open w c sc" and "\<not> cl_retry w"
  shows "\<exists>w1. client_close upd at c w = Inr w1 \<and> TcpClient_connect upd True at' w1 = Inl AssertFailed
    \<and> (\<exists>w2. TcpClient_connect upd False at' w1 = Inr w2 \<and> co_queue (cl_connector w2) = co_queue (cl_connector w) @ [StartInLoop]
        \<and> startInLoop upd at' (cl_connector w2) = Inl AssertFailed)"
  using assms client_close_eq [OF assms(1), of upd at]
  by (simp add: TcpClient_connect_def Connector_start_def startInLoop_def client_open_def Let_def)

section \<open>Examples\<close>

definition cl_demo_conn :: "unit srv_conn" where
  "cl_demo_conn = \<lparr>sc_loop = 1, sc_name = ''c'', sc_fd = 5, sc_local = getLocalAddr None, sc_peer = getPeerAddr None, sc_state = kConnected,
     sc_removed = False, sc_connectionCb = None, sc_messageCb = None, sc_writeCompleteCb = None, sc_closeCb = True\<rparr>"

definition cl_demo :: "((unit, int \<rightharpoonup> epoll_event) epoll_poller, unit) tcp_client" where
  "cl_demo = (TcpClient_new (ep_demo\<lparr>heap := Map.empty\<rparr>) 1 ''c'' () ())\<lparr>cl_connector := co_demo\<lparr>co_state := CConnected\<rparr>, connection := Some 0,
     cl_conns := [0 \<mapsto> cl_demo_conn], cl_closeCbs := [0 \<mapsto> RemoveByClient]\<rparr>"

lemma cl_demo_open: "client_open cl_demo 0 cl_demo_conn" "client_open (enableRetry cl_demo) 0 cl_demo_conn"
  by (simp_all add: client_open_def cl_demo_def cl_demo_conn_def TcpClient_new_def enableRetry_def)

theorem client_reconnects_witness:
  "\<exists>w1. client_close (EPollPoller_UpdateChannel table_ctl) (at_demo 115) 0 (enableRetry cl_demo) = Inr w1
    \<and> connection w1 = None \<and> co_state (cl_connector w1) = CConnecting"
proof -
  have "ready_again (cl_connector (enableRetry cl_demo)) = co_demo"
    by (simp add: ready_again_def cl_demo_def enableRetry_def co_demo_def Connector_new_def)
  then have "co_idle table_ctl (\<lambda>k. k) (at_demo 115) (ready_again (cl_connector (enableRetry cl_demo)))" using co_demo_idle by metis
  moreover have "in_progress (at_errno (at_demo 115))" by (simp add: in_progress_def at_demo_def)
  moreover have "cl_retry (enableRetry cl_demo)" "cl_connect (enableRetry cl_demo)" by (simp_all add: enableRetry_def cl_demo_def TcpClient_new_def)
  ultimately show ?thesis using client_reconnects [OF cl_demo_open(2), of table_ctl "\<lambda>k. k" "at_demo 115" 1 LittleEndian "\<lambda>_. []" None None] by auto
qed

theorem client_reconnect_asserts_witness:
  "\<exists>w1. client_close (EPollPoller_UpdateChannel table_ctl) (at_demo 115) 0 cl_demo = Inr w1
    \<and> TcpClient_connect (EPollPoller_UpdateChannel table_ctl) True (at_demo 115) w1 = Inl AssertFailed"
proof -
  have "\<not> cl_retry cl_demo" by (simp add: cl_demo_def TcpClient_new_def)
  then show ?thesis using client_reconnect_asserts [OF cl_demo_open(1)] by blast
qed

end
