(* ===== verification/Socket_Options.thy ===== *)
theory Socket_Options
  imports Sockets
begin

unbundle bit_operations_syntax

text \<open>
  The wrappers of \<^verbatim>\<open>cobra/socket_wrapper.cpp\<close> that hand a call to the kernel: the socket options, the descriptor flags, \<^verbatim>\<open>connect\<close>, \<^verbatim>\<open>read\<close>,
  \<^verbatim>\<open>readv\<close>, \<^verbatim>\<open>write\<close> and \<^verbatim>\<open>ShutdownWrite\<close>; and the rest of \<^verbatim>\<open>cobra/endpoint.h\<close>. The system calls are arguments over a state \<open>'k\<close> of the kernel; a call
  gives its result with the new state. What is logged is returned with the state.
\<close>

section \<open>Options and flags\<close>

datatype sock_opt = TCP_NODELAY | SO_REUSEADDR | SO_REUSEPORT | SO_KEEPALIVE

type_synonym 'k set_call = "int \<Rightarrow> sock_opt \<Rightarrow> 32 word \<Rightarrow> 'k \<Rightarrow> int \<times> 'k"

definition SetTcpNoDelay :: "'k set_call \<Rightarrow> int \<Rightarrow> bool \<Rightarrow> 'k \<Rightarrow> 'k" where
  "SetTcpNoDelay setsockopt sock_fd on k = (let optval = (if on then 1 else 0) in snd (setsockopt sock_fd TCP_NODELAY optval k))"

definition SetReuseAddr :: "'k set_call \<Rightarrow> int \<Rightarrow> bool \<Rightarrow> 'k \<Rightarrow> 'k" where
  "SetReuseAddr setsockopt sock_fd on k = (let optval = (if on then 1 else 0) in snd (setsockopt sock_fd SO_REUSEADDR optval k))"

text \<open>\<open>supported\<close> is whether \<^verbatim>\<open>SO_REUSEPORT\<close> is defined at compile time.\<close>

definition SetReusePort :: "bool \<Rightarrow> 'k set_call \<Rightarrow> int \<Rightarrow> bool \<Rightarrow> 'k \<Rightarrow> string list \<times> 'k" where
  "SetReusePort supported setsockopt sock_fd on k =
     (if supported
      then let optval = (if on then 1 else 0); (ret, k1) = setsockopt sock_fd SO_REUSEPORT optval k
           in (if ret < 0 then [''SO_REUSEPORT failed.''] else [], k1)
      else (if on then [''SO_REUSEPORT is not supported.''] else [], k))"

definition SetKeepAlive :: "'k set_call \<Rightarrow> int \<Rightarrow> bool \<Rightarrow> 'k \<Rightarrow> 'k" where
  "SetKeepAlive setsockopt sock_fd on k = (let optval = (if on then 1 else 0) in snd (setsockopt sock_fd SO_KEEPALIVE optval k))"

datatype fcntl_cmd = F_GETFL | F_SETFL "32 word" | F_GETFD | F_SETFD "32 word"

definition O_NONBLOCK :: "32 word" where "O_NONBLOCK = 0x800"
definition FD_CLOEXEC :: "32 word" where "FD_CLOEXEC = 1"

definition setNonBlockAndCloseOnExec :: "(int \<Rightarrow> fcntl_cmd \<Rightarrow> 'k \<Rightarrow> 32 word \<times> 'k) \<Rightarrow> int \<Rightarrow> 'k \<Rightarrow> 'k" where
  "setNonBlockAndCloseOnExec fcntl sockfd k =
     (let (flags, k1) = fcntl sockfd F_GETFL k;
          (ret, k2) = fcntl sockfd (F_SETFL (flags OR O_NONBLOCK)) k1;
          (fdflags, k3) = fcntl sockfd F_GETFD k2
      in snd (fcntl sockfd (F_SETFD (fdflags OR FD_CLOEXEC)) k3))"

section \<open>Calls that are passed on\<close>

definition sock_connect :: "(int \<Rightarrow> endpoint \<Rightarrow> 'k \<Rightarrow> int \<times> 'k) \<Rightarrow> int \<Rightarrow> endpoint \<Rightarrow> 'k \<Rightarrow> int \<times> 'k" where
  "sock_connect conn sockfd addr k = conn sockfd addr k"

definition sock_read :: "(int \<Rightarrow> nat \<Rightarrow> 'k \<Rightarrow> (int + byte list) \<times> 'k) \<Rightarrow> int \<Rightarrow> nat \<Rightarrow> 'k \<Rightarrow> (int + byte list) \<times> 'k" where
  "sock_read rd sockfd n k = rd sockfd n k"

definition sock_readv :: "(int \<Rightarrow> nat list \<Rightarrow> 'k \<Rightarrow> (int + byte list) \<times> 'k) \<Rightarrow> int \<Rightarrow> nat list \<Rightarrow> 'k \<Rightarrow> (int + byte list) \<times> 'k" where
  "sock_readv rdv sockfd iov k = rdv sockfd iov k"

definition sock_write :: "(int \<Rightarrow> byte list \<Rightarrow> 'k \<Rightarrow> int \<times> 'k) \<Rightarrow> int \<Rightarrow> byte list \<Rightarrow> 'k \<Rightarrow> int \<times> 'k" where
  "sock_write wr sockfd buf k = wr sockfd buf k"

definition ShutdownWrite :: "(int \<Rightarrow> 'k \<Rightarrow> int \<times> 'k) \<Rightarrow> int \<Rightarrow> 'k \<Rightarrow> string list \<times> 'k" where
  "ShutdownWrite shut_wr sock_fd k =
     (let (ret, k1) = shut_wr sock_fd k in (if ret < 0 then [''shutdownWrite''] else [], k1))"

definition Endpoint_of_sockaddr :: "endpoint \<Rightarrow> endpoint" where
  "Endpoint_of_sockaddr addr = addr"

definition toHostPort :: "endianness \<Rightarrow> (32 word \<Rightarrow> string) \<Rightarrow> endpoint \<Rightarrow> string" where
  "toHostPort host ntop e = toIpPort host ntop e"

definition getSockAddrInet :: "endpoint \<Rightarrow> endpoint" where
  "getSockAddrInet e = e"

definition setSockAddrInet :: "endpoint \<Rightarrow> endpoint \<Rightarrow> endpoint" where
  "setSockAddrInet addr e = addr"

section \<open>What the calls achieve\<close>

text \<open>\<open>opt_of\<close> reads an option of a socket: a successful \<^verbatim>\<open>setsockopt\<close> sets it and no other, a failing one changes nothing.\<close>

definition setsockopt_spec :: "'k set_call \<Rightarrow> ('k \<Rightarrow> int \<Rightarrow> sock_opt \<Rightarrow> 32 word) \<Rightarrow> bool" where
  "setsockopt_spec setsockopt opt_of \<longleftrightarrow>
     (\<forall>fd opt v k. case setsockopt fd opt v k of (r, k1) \<Rightarrow>
        if r < 0 then k1 = k else opt_of k1 = (opt_of k)(fd := (opt_of k fd)(opt := v)))"

text \<open>The flags of a descriptor: both settings are read back as they were set.\<close>

definition fcntl_spec :: "(int \<Rightarrow> fcntl_cmd \<Rightarrow> 'k \<Rightarrow> 32 word \<times> 'k) \<Rightarrow> ('k \<Rightarrow> int \<Rightarrow> 32 word) \<Rightarrow> ('k \<Rightarrow> int \<Rightarrow> 32 word) \<Rightarrow> bool" where
  "fcntl_spec fcntl fl fdfl \<longleftrightarrow>
     (\<forall>fd k v. fcntl fd F_GETFL k = (fl k fd, k) \<and> fcntl fd F_GETFD k = (fdfl k fd, k)
        \<and> (case fcntl fd (F_SETFL v) k of (r, k1) \<Rightarrow> fl k1 = (fl k)(fd := v) \<and> fdfl k1 = fdfl k)
        \<and> (case fcntl fd (F_SETFD v) k of (r, k1) \<Rightarrow> fdfl k1 = (fdfl k)(fd := v) \<and> fl k1 = fl k))"

text \<open>Exactly the two bits are added; the other flags and the other descriptors stay as they are.\<close>

lemma setNonBlockAndCloseOnExec_flags:
  assumes "fcntl_spec fcntl fl fdfl"
  shows "fl (setNonBlockAndCloseOnExec fcntl fd k) = (fl k)(fd := fl k fd OR O_NONBLOCK)
    \<and> fdfl (setNonBlockAndCloseOnExec fcntl fd k) = (fdfl k)(fd := fdfl k fd OR FD_CLOEXEC)"
proof -
  obtain r k2 where k2: "fcntl fd (F_SETFL (fl k fd OR O_NONBLOCK)) k = (r, k2)" by force
  obtain r' k3 where k3: "fcntl fd (F_SETFD (fdfl k2 fd OR FD_CLOEXEC)) k2 = (r', k3)" by force
  have "fl k2 = (fl k)(fd := fl k fd OR O_NONBLOCK)" "fdfl k2 = fdfl k"
    using assms k2 unfolding fcntl_spec_def by (metis (mono_tags, lifting) case_prod_conv)+
  moreover have "fdfl k3 = (fdfl k2)(fd := fdfl k2 fd OR FD_CLOEXEC)" "fl k3 = fl k2"
    using assms k3 unfolding fcntl_spec_def by (metis (mono_tags, lifting) case_prod_conv)+
  moreover have "setNonBlockAndCloseOnExec fcntl fd k = k3"
    using assms k2 k3 by (simp add: setNonBlockAndCloseOnExec_def fcntl_spec_def)
  ultimately show ?thesis by simp
qed

text \<open>Each setter sets its own option of its own socket, or leaves everything as it was.\<close>

lemma set_option:
  assumes "setsockopt_spec setsockopt opt_of"
  shows "SetTcpNoDelay setsockopt fd on k = k \<or> opt_of (SetTcpNoDelay setsockopt fd on k) = (opt_of k)(fd := (opt_of k fd)(TCP_NODELAY := of_bool on))"
    and "SetReuseAddr setsockopt fd on k = k \<or> opt_of (SetReuseAddr setsockopt fd on k) = (opt_of k)(fd := (opt_of k fd)(SO_REUSEADDR := of_bool on))"
    and "SetKeepAlive setsockopt fd on k = k \<or> opt_of (SetKeepAlive setsockopt fd on k) = (opt_of k)(fd := (opt_of k fd)(SO_KEEPALIVE := of_bool on))"
proof -
  have s: "snd (setsockopt fd opt v k) = k \<or> opt_of (snd (setsockopt fd opt v k)) = (opt_of k)(fd := (opt_of k fd)(opt := v))" for opt v
    using assms unfolding setsockopt_spec_def by (metis (mono_tags, lifting) case_prod_unfold)
  have b: "(if on then 1 else 0) = (of_bool on :: 32 word)" by simp
  show "SetTcpNoDelay setsockopt fd on k = k \<or> opt_of (SetTcpNoDelay setsockopt fd on k) = (opt_of k)(fd := (opt_of k fd)(TCP_NODELAY := of_bool on))"
    unfolding SetTcpNoDelay_def Let_def b by (rule s)
  show "SetReuseAddr setsockopt fd on k = k \<or> opt_of (SetReuseAddr setsockopt fd on k) = (opt_of k)(fd := (opt_of k fd)(SO_REUSEADDR := of_bool on))"
    unfolding SetReuseAddr_def Let_def b by (rule s)
  show "SetKeepAlive setsockopt fd on k = k \<or> opt_of (SetKeepAlive setsockopt fd on k) = (opt_of k)(fd := (opt_of k fd)(SO_KEEPALIVE := of_bool on))"
    unfolding SetKeepAlive_def Let_def b by (rule s)
qed

text \<open>\<^verbatim>\<open>SetReusePort\<close> reports every way in which the option was not set.\<close>

lemma SetReusePort_reports:
  assumes "setsockopt_spec setsockopt opt_of" and "SetReusePort supported setsockopt fd True k = ([], k1)"
  shows "opt_of k1 fd SO_REUSEPORT = 1"
proof -
  obtain r k2 where s: "setsockopt fd SO_REUSEPORT 1 k = (r, k2)" by force
  then have "0 \<le> r" "k1 = k2" using assms(2) by (auto simp: SetReusePort_def split: if_splits)
  moreover have "if r < 0 then k2 = k else opt_of k2 = (opt_of k)(fd := (opt_of k fd)(SO_REUSEPORT := 1))"
    using assms(1) s unfolding setsockopt_spec_def by (metis (mono_tags, lifting) case_prod_conv)
  ultimately show ?thesis by simp
qed

end
