(* ===== verification/Zone_File.thy ===== *)
theory Zone_File
  imports Time_Zone Endian
begin

text \<open>
  The reading of a zone file: \<^verbatim>\<open>File\<close> and \<^verbatim>\<open>readTimeZoneFile\<close> of \<^verbatim>\<open>base/TimeZone.cc\<close>, and the constructor of
  \<^verbatim>\<open>TimeZone\<close>. A reader is a function on the bytes that are left and the \<^verbatim>\<open>Data\<close> read so far. It
  ends normally, with a thrown \<^verbatim>\<open>logic_error\<close> (\<open>Throw\<close>), or in undefined behaviour; the data that was
  stored before an exception stays. The host's byte order is a parameter.
\<close>

section \<open>Readers\<close>

datatype 'a outcome = Got 'a | Throw string | Undefined err

type_synonym 'a reader = "byte list \<times> tz_data \<Rightarrow> 'a outcome \<times> byte list \<times> tz_data"

definition rd_return :: "'a \<Rightarrow> 'a reader" where
  "rd_return a s = (Got a, s)"

definition rd_throw :: "string \<Rightarrow> 'a reader" where
  "rd_throw e s = (Throw e, s)"

definition rd_bind :: "'a reader \<Rightarrow> ('a \<Rightarrow> 'b reader) \<Rightarrow> 'b reader" where
  "rd_bind m k s =
     (case m s of (Got a, s') \<Rightarrow> k a s' | (Throw e, s') \<Rightarrow> (Throw e, s') | (Undefined u, s') \<Rightarrow> (Undefined u, s'))"

text \<open>A counting loop that collects what its body reads, and one that only changes the data.\<close>

fun rd_times :: "nat \<Rightarrow> 'a reader \<Rightarrow> 'a list reader" where
  "rd_times 0 m = rd_return []"
| "rd_times (Suc n) m = rd_bind m (\<lambda>x. rd_bind (rd_times n m) (\<lambda>xs. rd_return (x # xs)))"

fun rd_each :: "'a list \<Rightarrow> ('a \<Rightarrow> unit reader) \<Rightarrow> unit reader" where
  "rd_each [] f = rd_return ()"
| "rd_each (x # xs) f = rd_bind (f x) (\<lambda>_. rd_each xs f)"

section \<open>The file\<close>

text \<open>An array of a negative length has no meaning.\<close>

definition File_readBytes :: "int \<Rightarrow> byte list reader" where
  "File_readBytes n s =
     (if n < 0 then (Undefined OutOfBounds, s)
      else let (rest, data) = s
           in if length rest < nat n then (Throw ''no enough data'', [], data)
              else (Got (take (nat n) rest), drop (nat n) rest, data))"

definition File_readInt32 :: "endianness \<Rightarrow> int reader" where
  "File_readInt32 host s =
     (let (rest, data) = s
      in if length rest < 4 then (Throw ''bad int32_t data'', [], data)
         else (Got (sint (betoh host (of_mem host (take 4 rest)) :: 32 word)), drop 4 rest, data))"

definition File_readUInt8 :: "int reader" where
  "File_readUInt8 s =
     (let (rest, data) = s
      in case rest of [] \<Rightarrow> (Throw ''bad uint8_t data'', [], data) | b # bs \<Rightarrow> (Got (uint b), bs, data))"

definition push_localtime :: "local_time \<Rightarrow> unit reader" where
  "push_localtime l s = (let (rest, data) = s in (Got (), rest, data\<lparr>localtimes := localtimes data @ [l]\<rparr>))"

definition read_localtime :: "endianness \<Rightarrow> unit reader" where
  "read_localtime host =
     rd_bind (File_readInt32 host) (\<lambda>gmtoff. rd_bind File_readUInt8 (\<lambda>isdst. rd_bind File_readUInt8 (\<lambda>abbrind.
       push_localtime \<lparr>gmtOffset = gmtoff, isDst = isdst \<noteq> 0, arrbIdx = abbrind\<rparr>)))"

definition push_transition :: "int \<times> int \<Rightarrow> unit reader" where
  "push_transition p s =
     (let (rest, data) = s; (trans, localIdx) = p
      in case local_at data localIdx of
           Inl e \<Rightarrow> (Undefined e, s)
         | Inr l \<Rightarrow> (Got (), rest, data\<lparr>transitions := transitions data
                     @ [\<lparr>gmttime = trans, localtime = trans + gmtOffset l, localtimeIdx = localIdx\<rparr>]\<rparr>))"

definition store_abbreviation :: "byte list \<Rightarrow> unit reader" where
  "store_abbreviation bs s = (let (rest, data) = s in (Got (), rest, data\<lparr>tz_abbreviation := bs\<rparr>))"

text \<open>\<^verbatim>\<open>reserve\<close> of a negative count throws a \<^verbatim>\<open>length_error\<close>, which is a \<^verbatim>\<open>logic_error\<close>.\<close>

definition tz_reserve :: "int \<Rightarrow> unit reader" where
  "tz_reserve n = (if n < 0 then rd_throw ''vector::reserve'' else rd_return ())"

definition TZif :: "byte list" where "TZif = [84, 90, 105, 102]"

definition read_zone :: "endianness \<Rightarrow> unit reader" where
  "read_zone host =
     rd_bind (File_readBytes 4) (\<lambda>head.
     if head \<noteq> TZif then rd_throw ''bad head'' else
     rd_bind (File_readBytes 1) (\<lambda>version.
     rd_bind (File_readBytes 15) (\<lambda>_.
     rd_bind (File_readInt32 host) (\<lambda>isgmtcnt.
     rd_bind (File_readInt32 host) (\<lambda>isstdcnt.
     rd_bind (File_readInt32 host) (\<lambda>leapcnt.
     rd_bind (File_readInt32 host) (\<lambda>timecnt.
     rd_bind (File_readInt32 host) (\<lambda>typecnt.
     rd_bind (File_readInt32 host) (\<lambda>charcnt.
     rd_bind (tz_reserve timecnt) (\<lambda>_.
     rd_bind (rd_times (nat timecnt) (File_readInt32 host)) (\<lambda>trans.
     rd_bind (rd_times (nat timecnt) File_readUInt8) (\<lambda>idxs.
     rd_bind (rd_times (nat typecnt) (read_localtime host)) (\<lambda>_.
     rd_bind (rd_each (zip trans idxs) push_transition) (\<lambda>_.
     rd_bind (File_readBytes charcnt) store_abbreviation))))))))))))))"

text \<open>An unreadable file and a thrown exception both leave what was stored, and the result is true.\<close>

definition readTimeZoneFile :: "endianness \<Rightarrow> byte list option \<Rightarrow> tz_data \<Rightarrow> (bool \<times> tz_data) res" where
  "readTimeZoneFile host f data =
     (case f of
        None \<Rightarrow> Inr (True, data)
      | Some bytes \<Rightarrow>
          (case read_zone host (bytes, data) of
             (Undefined e, _) \<Rightarrow> Inl e
           | (_, _, data') \<Rightarrow> Inr (True, data')))"

definition TimeZone_new :: "endianness \<Rightarrow> byte list option \<Rightarrow> tz_data option res" where
  "TimeZone_new host f =
     bindE (readTimeZoneFile host f tz_empty) (\<lambda>(r, data). Inr (if \<not> r then None else Some data))"

definition TimeZone_valid :: "tz_data option \<Rightarrow> bool" where
  "TimeZone_valid tzd \<longleftrightarrow> tzd \<noteq> None"

section \<open>What a reader does on the bytes of a value\<close>

definition fits32 :: "int \<Rightarrow> bool" where "fits32 i \<longleftrightarrow> - (2 ^ 31) \<le> i \<and> i < 2 ^ 31"

definition int32_bytes :: "int \<Rightarrow> byte list" where "int32_bytes i = be_bytes (of_int i :: 32 word)"

text \<open>Each rule runs one reader on the bytes of a value that precede the rest.\<close>

lemma bind_got: "m s = (Got a, s') \<Longrightarrow> rd_bind m k s = k a s'"
  by (simp add: rd_bind_def)

lemma got_int32:
  assumes "fits32 i"
  shows "File_readInt32 host (int32_bytes i @ rest, data) = (Got i, rest, data)"
proof -
  have "betoh host (of_mem host (be_bytes (of_int i :: 32 word))) = (of_int i :: 32 word)"
    by (simp add: betoh_of_mem be_bytes_inverse)
  moreover have "sint (of_int i :: 32 word) = i"
    using assms by (simp add: fits32_def signed_of_int signed_take_bit_int_eq_self)
  ultimately show ?thesis by (simp add: int32_bytes_def File_readInt32_def)
qed

lemma got_uint8: "0 \<le> i \<Longrightarrow> i < 256 \<Longrightarrow> File_readUInt8 (of_int i # rest, data) = (Got i, rest, data)"
  by (simp add: File_readUInt8_def unsigned_of_int take_bit_int_eq_self)

lemma got_bytes: "n = int (length bs) \<Longrightarrow> File_readBytes n (bs @ rest, data) = (Got bs, rest, data)"
  by (simp add: File_readBytes_def)

lemma got_times:
  assumes "\<And>x rest data. x \<in> set xs \<Longrightarrow> m (enc x @ rest, data) = (Got (val x), rest, g x data)"
  shows "rd_times (length xs) m (concat (map enc xs) @ rest, data) = (Got (map val xs), rest, fold g xs data)"
  using assms
proof (induction xs arbitrary: data)
  case Nil
  then show ?case by (simp add: rd_return_def)
next
  case (Cons x xs)
  then show ?case by (simp add: rd_bind_def rd_return_def)
qed

lemma got_transitions:
  assumes "\<forall>(t, i) \<in> set ps. 0 \<le> i \<and> nat i < length (localtimes data)"
  shows "rd_each ps push_transition (rest, data) = (Got (), rest, data\<lparr>transitions := transitions data
    @ map (\<lambda>(t, i). \<lparr>gmttime = t, localtime = t + gmtOffset (localtimes data ! nat i), localtimeIdx = i\<rparr>) ps\<rparr>)"
  using assms
proof (induction ps arbitrary: data)
  case Nil
  then show ?case by (simp add: rd_return_def)
next
  case (Cons p ps)
  obtain t i where p: "p = (t, i)" by (cases p)
  let ?data = "data\<lparr>transitions := transitions data @ [\<lparr>gmttime = t, localtime = t + gmtOffset (localtimes data ! nat i), localtimeIdx = i\<rparr>]\<rparr>"
  have "push_transition p (rest, data) = (Got (), rest, ?data)" using Cons.prems by (simp add: p push_transition_def local_at_def)
  then show ?case using Cons.prems Cons.IH [of ?data] by (simp add: bind_got p)
qed

section \<open>Zone files\<close>

text \<open>A zone as the file format has it: transitions with the index of their type, types, abbreviations, and the parts that are skipped.\<close>

record zone =
  z_version :: byte
  z_reserved :: "byte list"
  z_counts :: "int \<times> int \<times> int"
  z_trans :: "(int \<times> int) list"
  z_types :: "local_time list"
  z_chars :: "byte list"

definition enc_type :: "local_time \<Rightarrow> byte list" where
  "enc_type l = int32_bytes (gmtOffset l) @ [if isDst l then 1 else 0] @ [of_int (arrbIdx l)]"

definition enc_zone :: "zone \<Rightarrow> byte list" where
  "enc_zone z =
     (let (isgmtcnt, isstdcnt, leapcnt) = z_counts z
      in TZif @ [z_version z] @ z_reserved z @ int32_bytes isgmtcnt @ int32_bytes isstdcnt @ int32_bytes leapcnt
         @ int32_bytes (int (length (z_trans z))) @ int32_bytes (int (length (z_types z))) @ int32_bytes (int (length (z_chars z)))
         @ concat (map (int32_bytes \<circ> fst) (z_trans z)) @ concat (map (\<lambda>p. [of_int (snd p)]) (z_trans z))
         @ concat (map enc_type (z_types z)) @ z_chars z)"

definition zone_ok :: "zone \<Rightarrow> bool" where
  "zone_ok z \<longleftrightarrow>
     length (z_reserved z) = 15 \<and> (let (a, b, c) = z_counts z in fits32 a \<and> fits32 b \<and> fits32 c)
     \<and> fits32 (int (length (z_trans z))) \<and> fits32 (int (length (z_types z))) \<and> fits32 (int (length (z_chars z)))
     \<and> (\<forall>(t, i) \<in> set (z_trans z). fits32 t \<and> 0 \<le> i \<and> i < 256 \<and> nat i < length (z_types z))
     \<and> (\<forall>l \<in> set (z_types z). fits32 (gmtOffset l) \<and> 0 \<le> arrbIdx l \<and> arrbIdx l < 256)"

definition zone_data :: "zone \<Rightarrow> tz_data" where
  "zone_data z =
     \<lparr>transitions = map (\<lambda>(t, i). \<lparr>gmttime = t, localtime = t + gmtOffset (z_types z ! nat i), localtimeIdx = i\<rparr>) (z_trans z),
      localtimes = z_types z, zone_names = [], tz_abbreviation = z_chars z\<rparr>"

lemma got_type:
  assumes "fits32 (gmtOffset l)" and "0 \<le> arrbIdx l" and "arrbIdx l < 256"
  shows "read_localtime host (enc_type l @ rest, data) = (Got (), rest, data\<lparr>localtimes := localtimes data @ [l]\<rparr>)"
proof -
  have "File_readUInt8 ((if isDst l then 1 else 0) # xs, data) = (Got (if isDst l then 1 else 0), xs, data)" for xs
    using got_uint8 [of "if isDst l then 1 else 0" xs data] by (auto split: if_splits)
  then show ?thesis
    using assms unfolding read_localtime_def enc_type_def
    by (simp add: rd_bind_def got_int32 got_uint8 push_localtime_def)
qed

lemma fold_push: "fold (\<lambda>l data. data\<lparr>localtimes := localtimes data @ [l]\<rparr>) ls data = data\<lparr>localtimes := localtimes data @ ls\<rparr>"
  by (induction ls arbitrary: data) simp_all

lemma got_zone:
  assumes ok: "zone_ok z"
  shows "read_zone host (enc_zone z @ rest, tz_empty) = (Got (), rest, zone_data z)"
proof -
  obtain a b c where counts: "z_counts z = (a, b, c)" by (cases "z_counts z")
  let ?ts = "z_trans z" and ?ls = "z_types z"
  have fits: "fits32 a" "fits32 b" "fits32 c" "fits32 (int (length ?ts))" "fits32 (int (length ?ls))" "fits32 (int (length (z_chars z)))"
    "length (z_reserved z) = 15"
    and ts: "\<And>p. p \<in> set ?ts \<Longrightarrow> fits32 (fst p) \<and> 0 \<le> snd p \<and> snd p < 256 \<and> nat (snd p) < length ?ls"
    and ls: "\<And>l. l \<in> set ?ls \<Longrightarrow> fits32 (gmtOffset l) \<and> 0 \<le> arrbIdx l \<and> arrbIdx l < 256"
    using ok counts by (auto simp: zone_ok_def)
  have head: "File_readBytes 4 (TZif @ xs, d) = (Got TZif, xs, d)" "File_readBytes 1 (z_version z # xs, d) = (Got [z_version z], xs, d)"
    "File_readBytes 15 (z_reserved z @ xs, d) = (Got (z_reserved z), xs, d)" for xs d
    using got_bytes [of 4 TZif xs d] got_bytes [of 1 "[z_version z]" xs d] got_bytes [of 15 "z_reserved z" xs d] fits(7)
    by (simp_all add: TZif_def)
  have trans: "rd_times (length ?ts) (File_readInt32 host) (concat (map (int32_bytes \<circ> fst) ?ts) @ xs, d) = (Got (map fst ?ts), xs, d)" for xs d
    using got_times [of ?ts "File_readInt32 host" "int32_bytes \<circ> fst" fst "\<lambda>_. id" xs d] ts by (simp add: got_int32 fold_id)
  have idxs: "rd_times (length ?ts) File_readUInt8 (concat (map (\<lambda>p. [of_int (snd p)]) ?ts) @ xs, d) = (Got (map snd ?ts), xs, d)" for xs d
    using got_times [of ?ts File_readUInt8 "\<lambda>p. [of_int (snd p)]" snd "\<lambda>_. id" xs d] ts by (simp add: got_uint8 fold_id)
  have types: "rd_times (length ?ls) (read_localtime host) (concat (map enc_type ?ls) @ xs, d)
      = (Got (map (\<lambda>_. ()) ?ls), xs, d\<lparr>localtimes := localtimes d @ ?ls\<rparr>)" for xs d
    using got_times [of ?ls "read_localtime host" enc_type "\<lambda>_. ()" "\<lambda>l d. d\<lparr>localtimes := localtimes d @ [l]\<rparr>" xs d] ls
    by (simp add: got_type fold_push)
  let ?d = "tz_empty\<lparr>localtimes := ?ls\<rparr>"
  have push: "rd_each ?ts push_transition (xs, ?d) = (Got (), xs, ?d\<lparr>transitions := transitions (zone_data z)\<rparr>)" for xs
  proof -
    have "\<forall>(t, i) \<in> set ?ts. 0 \<le> i \<and> nat i < length (localtimes ?d)" using ts by fastforce
    from got_transitions [OF this, of xs] show ?thesis by (simp add: tz_empty_def zone_data_def)
  qed
  have empty: "localtimes tz_empty = []"
    and stored: "?d\<lparr>transitions := transitions (zone_data z), tz_abbreviation := z_chars z\<rparr> = zone_data z"
    by (simp_all add: tz_empty_def zone_data_def)
  show ?thesis
    unfolding read_zone_def enc_zone_def counts
    by (simp add: rd_bind_def head got_int32 fits tz_reserve_def rd_return_def trans idxs [simplified] types empty zip_map_fst_snd push
        got_bytes store_abbreviation_def stored)
qed

section \<open>Properties\<close>

text \<open>
  C30. Reading a zone file (\<^verbatim>\<open>readTimeZoneFile\<close>, \<^verbatim>\<open>TimeZone::TimeZone\<close>): for every zone whose numbers fit their fields and whose
  transitions refer to types it has, the bytes of its \<^verbatim>\<open>TZif\<close> file, with anything behind them, are read back as
  the transitions with their UTC and local times, the types and the abbreviations, on a host of
  either byte order.
\<close>

theorem zone_file_roundtrip:
  assumes "zone_ok z"
  shows "TimeZone_new host (Some (enc_zone z @ rest)) = Inr (Some (zone_data z))"
  by (simp add: TimeZone_new_def readTimeZoneFile_def got_zone [OF assms])

definition zone_demo :: zone where
  "zone_demo = \<lparr>z_version = 50, z_reserved = replicate 15 0, z_counts = (1, 1, 0), z_trans = [(- 1000, 1), (1000, 0)],
     z_types = [\<lparr>gmtOffset = 3600, isDst = False, arrbIdx = 0\<rparr>, \<lparr>gmtOffset = 7200, isDst = True, arrbIdx = 4\<rparr>], z_chars = [67, 69, 84, 0]\<rparr>"

theorem zone_file_roundtrip_witness:
  "TimeZone_new BigEndian (Some (enc_zone zone_demo @ [1, 2, 3])) = Inr (Some (zone_data zone_demo))"
  by (rule zone_file_roundtrip) (simp add: zone_ok_def zone_demo_def fits32_def)

text \<open>
  What becomes of a file that is no zone file (\<^verbatim>\<open>readTimeZoneFile\<close>): a file that cannot be opened and one without the \<^verbatim>\<open>TZif\<close> head give
  a time zone that is valid and has no zones, and every conversion of such a time zone reads the first entry of an empty
  vector.
\<close>

theorem bad_zone_file_valid:
  assumes "take 4 bytes \<noteq> TZif" and "f = None \<or> f = Some bytes"
  shows "\<exists>tzd. TimeZone_new host f = Inr tzd \<and> TimeZone_valid tzd \<and> toLocalTime gmtime_r tzd s = Inl OutOfBounds
    \<and> fromLocalTime gmtime_r timegm tzd t = Inl OutOfBounds"
proof -
  have "TimeZone_new host f = Inr (Some tz_empty)"
    using assms
    by (auto simp: TimeZone_new_def readTimeZoneFile_def read_zone_def rd_bind_def rd_throw_def File_readBytes_def)
  then show ?thesis
    by (simp add: TimeZone_valid_def toLocalTime_def fromLocalTime_def findLocaltime_def tz_empty_def local_at_def Let_def)
qed

theorem bad_zone_file_valid_witness:
  "\<exists>tzd. TimeZone_new LittleEndian (Some [1, 2, 3, 4, 5]) = Inr tzd \<and> TimeZone_valid tzd
    \<and> toLocalTime (\<lambda>_. tm_zero) tzd 0 = Inl OutOfBounds"
  using bad_zone_file_valid [of "[1, 2, 3, 4, 5]" "Some [1, 2, 3, 4, 5]" LittleEndian "\<lambda>_. tm_zero" 0 "\<lambda>_. 0" tm_zero]
  by (auto simp: TZif_def)

end
