(* ===== verification/Log_File.thy ===== *)
theory Log_File
  imports Time_Zone
begin

text \<open>
  \<^verbatim>\<open>LogFile\<close> and its \<^verbatim>\<open>File\<close> of \<^verbatim>\<open>base/LogFile.h\<close> and \<^verbatim>\<open>base/LogFile.cc\<close>. \<^verbatim>\<open>fwrite_unlocked\<close> is an argument with a state of its own: from the
  number of bytes it is given it returns how many it took. \<^verbatim>\<open>fopen\<close>, \<^verbatim>\<open>gmtime_r\<close> and \<^verbatim>\<open>time\<close> are arguments too, the last one as
  the value of each call. The files are kept in the order in which they were opened; \<open>f_bytes\<close> is what the C library has taken for a
  file and \<open>f_flushed\<close> how much of it was flushed. The mutex only makes the calls follow each other, so it is left out.
\<close>

section \<open>The file\<close>

record log_out =
  f_name :: string
  f_bytes :: "char list"
  f_flushed :: nat
  writtenBytes :: nat

record 'o lf_env =
  env_fopen :: "string \<Rightarrow> bool"
  env_fwrite :: "'o \<Rightarrow> nat \<Rightarrow> nat \<times> 'o"
  env_gmtime_r :: "int \<Rightarrow> tm"
  env_hostname :: string
  env_pid :: int

definition File_new :: "'o lf_env \<Rightarrow> string \<Rightarrow> log_out res" where
  "File_new env filename =
     cassert (env_fopen env filename) (Inr \<lparr>f_name = filename, f_bytes = [], f_flushed = 0, writtenBytes = 0\<rparr>)"

text \<open>Closing a file flushes it.\<close>

definition File_dtor :: "log_out \<Rightarrow> log_out" where
  "File_dtor f = f\<lparr>f_flushed := length (f_bytes f)\<rparr>"

definition File_flush :: "log_out \<Rightarrow> log_out" where
  "File_flush f = f\<lparr>f_flushed := length (f_bytes f)\<rparr>"

definition File_write :: "'o lf_env \<Rightarrow> char list \<Rightarrow> 'o \<times> log_out \<Rightarrow> nat \<times> 'o \<times> log_out" where
  "File_write env logline = (\<lambda>(os, f).
     (let (x, os') = env_fwrite env os (length logline) in (x, os', f\<lparr>f_bytes := f_bytes f @ take x logline\<rparr>)))"

text \<open>The loop of \<^verbatim>\<open>append\<close>, on what remains of the line.\<close>

function File_append_loop :: "'o lf_env \<Rightarrow> char list \<Rightarrow> 'o \<times> log_out \<Rightarrow> 'o \<times> log_out" where
  "File_append_loop env remain s =
     (if remain = [] then s
      else let (x, s') = File_write env remain s
           in if x = 0 then s' else File_append_loop env (drop x remain) s')"
  by pat_completeness auto

termination by (relation "measure (\<lambda>(_, remain, _). length remain)") auto

declare File_append_loop.simps [simp del]

definition File_append :: "'o lf_env \<Rightarrow> char list \<Rightarrow> 'o \<times> log_out \<Rightarrow> 'o \<times> log_out" where
  "File_append env logline s =
     (let (n, s1) = File_write env logline s;
          (os, f) = File_append_loop env (drop n logline) s1
      in (os, f\<lparr>writtenBytes := sz_add (writtenBytes f) (length logline)\<rparr>))"

section \<open>LogFile\<close>

definition kCheckTimeRoll :: nat where "kCheckTimeRoll = 1024"
definition kRollPerSeconds :: int where "kRollPerSeconds = 60 * 60 * 24"

record 'o log_file =
  lf_basename :: string
  rollSize :: nat
  flushInterval :: int
  lf_count :: nat
  startOfPeriod :: int
  lastRoll :: int
  lastFlush :: int
  lf_file :: "log_out option"
  lf_closed :: "log_out list"
  lf_os :: 'o

definition getLogFileName :: "'o lf_env \<Rightarrow> string \<Rightarrow> int \<Rightarrow> string" where
  "getLogFileName env basename now =
     (let t = env_gmtime_r env now; p2 = (\<lambda>v. pad_left 2 CHR ''0'' (dec_int v))
      in basename @ ''.'' @ dec_int (tm_year t + 1900) @ p2 (tm_mon t + 1) @ p2 (tm_mday t) @ ''-''
           @ p2 (tm_hour t) @ p2 (tm_min t) @ p2 (tm_sec t) @ ''.''
           @ env_hostname env @ ''.'' @ dec_int (env_pid env) @ ''.log'')"

text \<open>The day of a time, as \<^verbatim>\<open>now / kRollPerSeconds_ * kRollPerSeconds_\<close>; the new file is opened before the old one is closed.\<close>

definition period :: "int \<Rightarrow> int" where "period now = now sdiv kRollPerSeconds * kRollPerSeconds"

definition rollFile :: "'o lf_env \<Rightarrow> int \<Rightarrow> 'o log_file \<Rightarrow> 'o log_file res" where
  "rollFile env now s =
     (let filename = getLogFileName env (lf_basename s) now; start = period now
      in if lastRoll s < now
         then bindE (File_new env filename) (\<lambda>f.
                Inr (s\<lparr>lastRoll := now, lastFlush := now, startOfPeriod := start, lf_file := Some f,
                       lf_closed := lf_closed s @ (case lf_file s of None \<Rightarrow> [] | Some old \<Rightarrow> [File_dtor old])\<rparr>))
         else Inr s)"

definition LogFile_new :: "'o lf_env \<Rightarrow> string \<Rightarrow> nat \<Rightarrow> int \<Rightarrow> 'o \<Rightarrow> int \<Rightarrow> 'o log_file res" where
  "LogFile_new env basename roll interval os now =
     cassert (CHR ''/'' \<notin> set basename)
       (rollFile env now \<lparr>lf_basename = basename, rollSize = roll, flushInterval = interval, lf_count = 0, startOfPeriod = 0, lastRoll = 0,
          lastFlush = 0, lf_file = None, lf_closed = [], lf_os = os\<rparr>)"

definition on_file :: "(log_out \<Rightarrow> 'o log_file res) \<Rightarrow> 'o log_file \<Rightarrow> 'o log_file res" where
  "on_file k s = (case lf_file s of None \<Rightarrow> Inl NullDeref | Some f \<Rightarrow> k f)"

definition LogFile_flush :: "'o log_file \<Rightarrow> 'o log_file res" where
  "LogFile_flush s = on_file (\<lambda>f. Inr (s\<lparr>lf_file := Some (File_flush f)\<rparr>)) s"

text \<open>The test of the time: \<open>now\<close> is the time read here, \<open>now_roll\<close> the one that \<^verbatim>\<open>rollFile\<close> reads.\<close>

definition check_time :: "'o lf_env \<Rightarrow> int \<Rightarrow> int \<Rightarrow> 'o log_file \<Rightarrow> 'o log_file res" where
  "check_time env now now_roll s =
     (if kCheckTimeRoll < lf_count s
      then let s1 = s\<lparr>lf_count := 0\<rparr>; thisPeriod = period now
           in if thisPeriod \<noteq> startOfPeriod s1 then rollFile env now_roll s1
              else if flushInterval s1 < now - lastFlush s1 then LogFile_flush (s1\<lparr>lastFlush := now\<rparr>)
              else Inr s1
      else Inr (s\<lparr>lf_count := lf_count s + 1\<rparr>))"

definition append_unlocked :: "'o lf_env \<Rightarrow> char list \<times> int \<times> int \<Rightarrow> 'o log_file \<Rightarrow> 'o log_file res" where
  "append_unlocked env = (\<lambda>(logline, now, now_roll) s.
     on_file (\<lambda>f.
       let (os, f') = File_append env logline (lf_os s, f);
           s1 = s\<lparr>lf_os := os, lf_file := Some f'\<rparr>
       in if rollSize s1 < writtenBytes f' then rollFile env now_roll s1 else check_time env now now_roll s1) s)"

definition LogFile_append :: "'o lf_env \<Rightarrow> char list \<times> int \<times> int \<Rightarrow> 'o log_file \<Rightarrow> 'o log_file res" where
  "LogFile_append env = append_unlocked env"

section \<open>What the file holds\<close>

text \<open>Documented behaviour of \<^verbatim>\<open>fwrite\<close> on a stream without an error: it takes something, and not more than it is given.\<close>

definition fwrite_ok :: "'o lf_env \<Rightarrow> bool" where
  "fwrite_ok env \<longleftrightarrow> (\<forall>os n. fst (env_fwrite env os n) \<le> n \<and> (0 < n \<longrightarrow> 0 < fst (env_fwrite env os n)))"

lemma File_append_loop_all:
  "fwrite_ok env \<Longrightarrow>
     \<exists>os'. File_append_loop env remain (os, f) = (os', f\<lparr>f_bytes := f_bytes f @ remain\<rparr>)"
proof (induction "length remain" arbitrary: remain os f rule: less_induct)
  case less
  show ?case
  proof (cases "remain = []")
    case True
    then show ?thesis by (simp add: File_append_loop.simps)
  next
    case False
    obtain x os1 where w: "env_fwrite env os (length remain) = (x, os1)" by (cases "env_fwrite env os (length remain)")
    then have x: "0 < x" using less.prems False by (metis fwrite_ok_def fst_conv length_greater_0_conv)
    obtain os2 where o2: "File_append_loop env (drop x remain) (os1, f\<lparr>f_bytes := f_bytes f @ take x remain\<rparr>)
        = (os2, f\<lparr>f_bytes := (f_bytes f @ take x remain) @ drop x remain\<rparr>)"
      using less.hyps [OF _ less.prems, of "drop x remain" os1 "f\<lparr>f_bytes := f_bytes f @ take x remain\<rparr>"] x False by auto
    show ?thesis using o2 x False w by (subst File_append_loop.simps) (auto simp: File_write_def)
  qed
qed

lemma File_append_all:
  assumes "fwrite_ok env"
  obtains os' where "File_append env line (os, f) =
    (os', f\<lparr>f_bytes := f_bytes f @ line, writtenBytes := sz_add (writtenBytes f) (length line)\<rparr>)"
proof -
  obtain x os1 where w: "env_fwrite env os (length line) = (x, os1)" by (cases "env_fwrite env os (length line)")
  obtain os2 where "File_append_loop env (drop x line) (os1, f\<lparr>f_bytes := f_bytes f @ take x line\<rparr>)
      = (os2, f\<lparr>f_bytes := (f_bytes f @ take x line) @ drop x line\<rparr>)"
    using File_append_loop_all [OF assms, of "drop x line" os1 "f\<lparr>f_bytes := f_bytes f @ take x line\<rparr>"] by auto
  then show ?thesis using that w by (auto simp: File_append_def File_write_def)
qed

section \<open>Volumes\<close>

text \<open>
  What a \<^verbatim>\<open>LogFile\<close> promises: its files are volumes, each with the time at which it was opened and the lines in it. \<open>volumes_ok roll lines t vols\<close>: the volumes hold
  the lines in order, each line in one volume; they were opened at increasing times; one was followed by another only when it was
  over the limit or a day had begun; and the last one is over the limit only if it was opened at the time \<open>t\<close> of the last line.
\<close>

type_synonym volume = "int \<times> char list list"

definition vol_bytes :: "volume \<Rightarrow> char list" where "vol_bytes v = concat (snd v)"

definition may_follow :: "nat \<Rightarrow> volume \<Rightarrow> volume \<Rightarrow> bool" where
  "may_follow roll v w \<longleftrightarrow> roll < length (vol_bytes v) \<or> period (fst v) \<noteq> period (fst w)"

definition volumes_ok :: "nat \<Rightarrow> char list list \<Rightarrow> int \<Rightarrow> volume list \<Rightarrow> bool" where
  "volumes_ok roll lines t vols \<longleftrightarrow> vols \<noteq> [] \<and> concat (map snd vols) = lines \<and> sorted_wrt (<) (map fst vols)
     \<and> (\<forall>i. Suc i < length vols \<longrightarrow> may_follow roll (vols ! i) (vols ! Suc i))
     \<and> (roll < length (vol_bytes (last vols)) \<longrightarrow> fst (last vols) = t)"

definition holds_volumes :: "'o lf_env \<Rightarrow> volume list \<Rightarrow> 'o log_file \<Rightarrow> bool" where
  "holds_volumes env vols s \<longleftrightarrow> (\<exists>f. lf_file s = Some f
     \<and> map f_bytes (lf_closed s @ [f]) = map vol_bytes vols
     \<and> map f_name (lf_closed s @ [f]) = map (\<lambda>v. getLogFileName env (lf_basename s) (fst v)) vols
     \<and> (\<forall>g \<in> set (lf_closed s). f_flushed g = length (f_bytes g))
     \<and> writtenBytes f = length (f_bytes f))"

definition lf_inv :: "'o lf_env \<Rightarrow> string \<Rightarrow> nat \<Rightarrow> int \<Rightarrow> volume list \<Rightarrow> 'o log_file \<Rightarrow> bool" where
  "lf_inv env base roll t vols s \<longleftrightarrow> lf_basename s = base \<and> rollSize s = roll \<and> holds_volumes env vols s
     \<and> lf_count s \<le> kCheckTimeRoll + 1 \<and> vols \<noteq> [] \<and> lastRoll s = fst (last vols) \<and> startOfPeriod s = period (lastRoll s)
     \<and> 0 < lastRoll s \<and> lastRoll s \<le> t \<and> (\<forall>v \<in> set vols. fst v \<le> lastRoll s)"

definition add_line :: "char list \<Rightarrow> volume list \<Rightarrow> volume list" where
  "add_line line vols = butlast vols @ [(fst (last vols), snd (last vols) @ [line])]"

lemma period_mono: "0 \<le> a \<Longrightarrow> a \<le> b \<Longrightarrow> period a \<le> period b"
  by (simp add: period_def kRollPerSeconds_def sdiv_nonneg zdiv_mono1)

lemma vols_snoc:
  assumes "vols \<noteq> []"
  obtains us v where "vols = us @ [v]"
  using assms by (metis append_butlast_last_id)

lemma volumes_add_line:
  assumes "volumes_ok roll lines t vols" and "roll < length (vol_bytes (last (add_line line vols))) \<Longrightarrow> fst (last vols) = t'"
  shows "volumes_ok roll (lines @ [line]) t' (add_line line vols)"
proof -
  obtain us v where v: "vols = us @ [v]" using assms(1) vols_snoc [of vols] unfolding volumes_ok_def by blast
  have "may_follow roll (add_line line vols ! i) (add_line line vols ! Suc i)" if "Suc i < length (add_line line vols)" for i
    using that assms(1) by (auto simp: volumes_ok_def add_line_def v nth_append may_follow_def split: if_splits)
  then show ?thesis using assms by (auto simp: volumes_ok_def add_line_def v)
qed

lemma volumes_new:
  assumes "volumes_ok roll lines t vols" and "fst (last vols) < now" and "may_follow roll (last vols) (now, [])"
  shows "volumes_ok roll lines t' (vols @ [(now, [])])"
proof -
  obtain us v where v: "vols = us @ [v]" using assms(1) vols_snoc [of vols] unfolding volumes_ok_def by blast
  have "may_follow roll ((vols @ [(now, [])]) ! i) ((vols @ [(now, [])]) ! Suc i)" if "Suc i < length (vols @ [(now, [])])" for i
    using that assms(1,3) by (cases "Suc i < length vols") (auto simp: volumes_ok_def v nth_append less_Suc_eq)
  moreover have "sorted_wrt (<) (map fst (vols @ [(now, [])]))"
    using assms(1,2) by (fastforce simp: volumes_ok_def v sorted_wrt_append)
  ultimately show ?thesis using assms(1) by (auto simp: volumes_ok_def vol_bytes_def)
qed


definition lf_env_ok :: "'o lf_env \<Rightarrow> bool" where
  "lf_env_ok env \<longleftrightarrow> fwrite_ok env \<and> (\<forall>name. env_fopen env name)"

lemma rollFile_inv:
  assumes "lf_env_ok env" and "lf_inv env base roll t vols s" and "t \<le> now"
  shows "\<exists>s'. rollFile env now s = Inr s'
    \<and> lf_inv env base roll now (if lastRoll s < now then vols @ [(now, [])] else vols) s'"
  using assms
  by (auto simp: rollFile_def File_new_def lf_env_ok_def lf_inv_def holds_volumes_def vol_bytes_def File_dtor_def Let_def)

lemma flush_inv:
  "lf_inv env base roll t vols s \<Longrightarrow> \<exists>s'. LogFile_flush s = Inr s' \<and> lf_inv env base roll t vols s'"
  by (auto simp: LogFile_flush_def on_file_def lf_inv_def holds_volumes_def File_flush_def)

lemma lf_inv_later: "lf_inv env base roll t vols s \<Longrightarrow> t \<le> t' \<Longrightarrow> lf_inv env base roll t' vols s"
  by (auto simp: lf_inv_def)

lemma lf_inv_fields:
  "lf_inv env base roll t vols s \<Longrightarrow> n \<le> kCheckTimeRoll + 1 \<Longrightarrow> lf_inv env base roll t vols (s\<lparr>lf_count := n\<rparr>)"
  "lf_inv env base roll t vols (s\<lparr>lastFlush := u\<rparr>) = lf_inv env base roll t vols s"
  by (auto simp: lf_inv_def holds_volumes_def)

lemma append_inv:
  assumes "lf_inv env base roll t vols s" and "lf_file s = Some f"
    and "length (f_bytes f) + length line < SIZE_MOD"
    and "f' = f\<lparr>f_bytes := f_bytes f @ line, writtenBytes := sz_add (writtenBytes f) (length line)\<rparr>"
  shows "lf_inv env base roll t (add_line line vols) (s\<lparr>lf_os := os, lf_file := Some f'\<rparr>)
    \<and> writtenBytes f' = length (vol_bytes (last (add_line line vols)))"
proof -
  obtain us v where v: "vols = us @ [v]" using assms(1) vols_snoc [of vols] unfolding lf_inv_def by blast
  have w: "sz_add (writtenBytes f) (length line) = length (f_bytes f) + length line"
    using assms(1-3) by (auto simp: lf_inv_def holds_volumes_def sz_simps)
  show ?thesis using assms(1,2) w unfolding assms(4) v
    by (auto simp: lf_inv_def holds_volumes_def add_line_def vol_bytes_def)
qed

lemma add_line_last: "fst (last (add_line line vols)) = fst (last vols)"
  by (simp add: add_line_def)

text \<open>The decision about a new file, once the line is in the old one.\<close>

lemma volumes_roll:
  assumes "volumes_ok roll lines t vols" and "now > fst (last vols) \<Longrightarrow> may_follow roll (last vols) (now, [])"
    and "fst (last vols) \<le> now"
  shows "volumes_ok roll lines now (if fst (last vols) < now then vols @ [(now, [])] else vols)"
  using assms volumes_new [of roll lines t vols now now] by (auto simp: volumes_ok_def)

lemma check_time_inv:
  assumes env: "lf_env_ok env" and inv: "lf_inv env base roll t vols s" and le: "t \<le> now" "now \<le> now_roll"
    and small: "length (vol_bytes (last vols)) \<le> roll" and vols: "volumes_ok roll lines t vols"
  shows "\<exists>s' vols'. check_time env now now_roll s = Inr s' \<and> lf_inv env base roll now_roll vols' s'
    \<and> volumes_ok roll lines now_roll vols'"
proof -
  have same: "volumes_ok roll lines now_roll vols" using vols small by (auto simp: volumes_ok_def)
  have late: "lf_inv env base roll now_roll vols s" by (rule lf_inv_later [OF inv]) (use le in simp)
  show ?thesis
  proof (cases "kCheckTimeRoll < lf_count s")
    case False
    then show ?thesis using same lf_inv_fields(1) [OF late, of "lf_count s + 1"] by (auto simp: check_time_def)
  next
    case True
    let ?s = "s\<lparr>lf_count := 0\<rparr>"
    have s: "lf_inv env base roll t vols ?s" "lf_inv env base roll now_roll vols ?s" using lf_inv_fields(1) [OF inv, of 0] lf_inv_fields(1) [OF late, of 0] by simp_all
    have roll: "lastRoll ?s = fst (last vols)" "0 < fst (last vols)" "fst (last vols) \<le> t" "startOfPeriod ?s = period (fst (last vols))"
      using s(1) by (auto simp: lf_inv_def)
    show ?thesis
    proof (cases "period now = startOfPeriod ?s")
      case eq: True
      then show ?thesis using True same s(2) flush_inv [of env base roll now_roll vols "?s\<lparr>lastFlush := now\<rparr>"]
        by (auto simp: check_time_def lf_inv_fields(2) Let_def)
    next
      case False
      then have "period (fst (last vols)) \<noteq> period now_roll"
        using period_mono [of "fst (last vols)" now] period_mono [of now now_roll] roll le by auto
      then have "volumes_ok roll lines now_roll (if fst (last vols) < now_roll then vols @ [(now_roll, [])] else vols)"
        using volumes_roll [OF vols, of now_roll] roll le by (simp add: may_follow_def)
      moreover obtain s' where "rollFile env now_roll ?s = Inr s'"
        "lf_inv env base roll now_roll (if fst (last vols) < now_roll then vols @ [(now_roll, [])] else vols) s'"
        using rollFile_inv [OF env s(2), of now_roll] roll(1) by auto
      ultimately show ?thesis using True False by (auto simp: check_time_def Let_def)
    qed
  qed
qed

lemma append_unlocked_inv:
  assumes env: "lf_env_ok env" and inv: "lf_inv env base roll t vols s" and le: "t \<le> now" "now \<le> now_roll"
    and vols: "volumes_ok roll lines t vols" and fits: "length (concat (lines @ [line])) < SIZE_MOD"
  shows "\<exists>s' vols'. append_unlocked env (line, now, now_roll) s = Inr s' \<and> lf_inv env base roll now_roll vols' s'
    \<and> volumes_ok roll (lines @ [line]) now_roll vols'"
proof -
  obtain f where f: "lf_file s = Some f" using inv by (auto simp: lf_inv_def holds_volumes_def)
  obtain us v where v: "vols = us @ [v]" using inv vols_snoc [of vols] unfolding lf_inv_def by blast
  have "f_bytes f = vol_bytes v" using inv f by (auto simp: lf_inv_def holds_volumes_def v)
  then have len: "length (f_bytes f) + length line < SIZE_MOD" using fits vols by (auto simp: volumes_ok_def v vol_bytes_def)
  obtain os f' where a: "File_append env line (lf_os s, f) = (os, f')"
    and f': "f' = f\<lparr>f_bytes := f_bytes f @ line, writtenBytes := sz_add (writtenBytes f) (length line)\<rparr>"
    using File_append_all [of env line "lf_os s" f] env by (metis lf_env_ok_def)
  let ?s = "s\<lparr>lf_os := os, lf_file := Some f'\<rparr>" and ?vs = "add_line line vols"
  have i: "lf_inv env base roll t ?vs ?s" and w: "writtenBytes f' = length (vol_bytes (last ?vs))"
    using append_inv [OF inv f len f'] by auto
  have r: "rollSize ?s = roll" using i by (simp add: lf_inv_def)
  have last: "fst (last vols) \<le> t" "lastRoll ?s = fst (last vols)" using i by (auto simp: lf_inv_def add_line_last)
  show ?thesis
  proof (cases "roll < writtenBytes f'")
    case False
    have "volumes_ok roll (lines @ [line]) t ?vs" by (rule volumes_add_line [OF vols]) (use False w in simp)
    from check_time_inv [OF env i le _ this] show ?thesis
      using False w r by (auto simp: append_unlocked_def on_file_def f a Let_def)
  next
    case True
    then have "volumes_ok roll (lines @ [line]) (fst (last vols)) ?vs" by (intro volumes_add_line [OF vols]) simp
    from volumes_roll [OF this, of now_roll]
    have "volumes_ok roll (lines @ [line]) now_roll (if fst (last vols) < now_roll then ?vs @ [(now_roll, [])] else ?vs)"
      using True w last le by (simp add: may_follow_def add_line_last)
    moreover obtain s' where "rollFile env now_roll ?s = Inr s'"
      "lf_inv env base roll now_roll (if fst (last vols) < now_roll then ?vs @ [(now_roll, [])] else ?vs) s'"
      using rollFile_inv [OF env i, of now_roll] last le by auto
    ultimately show ?thesis using True r by (auto simp: append_unlocked_def on_file_def f a Let_def)
  qed
qed

fun op_times :: "(char list \<times> int \<times> int) list \<Rightarrow> int list" where
  "op_times [] = []"
| "op_times ((_, now, now_roll) # ops) = now # now_roll # op_times ops"

lemma appends_inv:
  assumes "lf_env_ok env" and "lf_inv env base roll t vols s" and "volumes_ok roll lines t vols"
    and "sorted (t # op_times ops)" and "length (concat (lines @ map fst ops)) < SIZE_MOD"
  shows "\<exists>s' vols'. foldE (LogFile_append env) ops s = Inr s'
    \<and> lf_inv env base roll (last (t # op_times ops)) vols' s' \<and> volumes_ok roll (lines @ map fst ops) (last (t # op_times ops)) vols'"
  using assms(2-)
proof (induction ops arbitrary: s t vols lines)
  case Nil
  then show ?case by auto
next
  case (Cons op ops)
  obtain line now now_roll where op: "op = (line, now, now_roll)" by (cases op)
  have "length (concat (lines @ [line])) < SIZE_MOD" using Cons.prems(4) by (simp add: op)
  then obtain s1 vols1 where 1: "append_unlocked env op s = Inr s1" "lf_inv env base roll now_roll vols1 s1"
    "volumes_ok roll (lines @ [line]) now_roll vols1"
    using append_unlocked_inv [OF assms(1) Cons.prems(1) _ _ Cons.prems(2), of now now_roll line] Cons.prems(3) by (auto simp: op)
  have "sorted (now_roll # op_times ops)" "length (concat ((lines @ [line]) @ map fst ops)) < SIZE_MOD"
    using Cons.prems(3,4) by (auto simp: op)
  from Cons.IH [OF 1(2,3) this] show ?case using 1(1) by (simp add: LogFile_append_def op)
qed


text \<open>From the constructor on.\<close>

lemma log_file_run:
  assumes "lf_env_ok env" and "CHR ''/'' \<notin> set base" and "0 < t0" and "sorted (t0 # op_times ops)"
    and "length (concat (map fst ops)) < SIZE_MOD"
  shows "\<exists>s vols. bindE (LogFile_new env base roll interval os t0) (foldE (LogFile_append env) ops) = Inr s
    \<and> volumes_ok roll (map fst ops) (last (t0 # op_times ops)) vols \<and> holds_volumes env vols s \<and> lf_count s \<le> 1025"
proof -
  obtain s0 where s0: "LogFile_new env base roll interval os t0 = Inr s0" "lf_inv env base roll t0 [(t0, [])] s0"
    using assms(1-3)
    by (auto simp: LogFile_new_def rollFile_def File_new_def lf_env_ok_def lf_inv_def holds_volumes_def vol_bytes_def kCheckTimeRoll_def Let_def)
  have "volumes_ok roll [] t0 [(t0, [])]" by (simp add: volumes_ok_def vol_bytes_def)
  from appends_inv [OF assms(1) s0(2) this assms(4)] assms(5) show ?thesis
    using s0(1) by (auto simp: lf_inv_def kCheckTimeRoll_def)
qed

section \<open>Properties\<close>

text \<open>
  C13. \<^verbatim>\<open>LogFile\<close> (constructor, \<^verbatim>\<open>append\<close>, \<^verbatim>\<open>rollFile\<close>, \<^verbatim>\<open>File::append\<close>) for every sequence of lines, with a clock that does not go back and an \<^verbatim>\<open>fwrite\<close> that
  may take a line in pieces: no assertion fails and there is always an open file; the files hold the lines in order, each line
  whole and in one file; the files were opened in different seconds, which their names show; a file is left only
  when it is over the roll size or a new day has begun; a file over the roll size is still in use only in the second in which
  it was opened; files that were left are flushed; and at most 1025 lines go by before the time is looked at again.
\<close>

theorem log_file_volumes:
  assumes "lf_env_ok env" and "CHR ''/'' \<notin> set base" and "0 < t0" and "sorted (t0 # op_times ops)"
    and "length (concat (map fst ops)) < SIZE_MOD"
  shows "\<exists>s vols. bindE (LogFile_new env base roll interval os t0) (foldE (LogFile_append env) ops) = Inr s
    \<and> volumes_ok roll (map fst ops) (last (t0 # op_times ops)) vols \<and> holds_volumes env vols s \<and> lf_count s \<le> 1025"
  by (rule log_file_run [OF assms])

text \<open>A library that takes one byte at a time.\<close>

definition lf_demo :: "unit lf_env" where
  "lf_demo = \<lparr>env_fopen = \<lambda>_. True, env_fwrite = \<lambda>os n. (min 1 n, os), env_gmtime_r = \<lambda>t. toUtcTime t False, env_hostname = ''host'', env_pid = 7\<rparr>"

theorem log_file_volumes_witness:
  "\<exists>s vols. bindE (LogFile_new lf_demo ''log'' 2 3 () 86399) (foldE (LogFile_append lf_demo) [(''ab'', 86400, 86400), (''c'', 86400, 86401)]) = Inr s
    \<and> volumes_ok 2 [''ab'', ''c''] 86401 vols \<and> holds_volumes lf_demo vols s \<and> lf_count s \<le> 1025"
proof -
  have "lf_env_ok lf_demo" by (auto simp: lf_env_ok_def fwrite_ok_def lf_demo_def)
  then show ?thesis
    using log_file_volumes [of lf_demo "''log''" 86399 "[(''ab'', 86400, 86400), (''c'', 86400, 86401)]" 2 3 "()"]
    by (simp add: SIZE_MOD_def)
qed


end
