(* ===== verification/Async_Logging.thy ===== *)
theory Async_Logging
  imports Log_Stream Log_File
begin

text \<open>
  \<^verbatim>\<open>AsyncLogging\<close> of \<^verbatim>\<open>base/AsyncLogging.h\<close> and \<^verbatim>\<open>base/AsyncLogging.cc\<close>: threads append lines to a buffer, a thread of its own takes the full buffers and writes them to a
  \<^verbatim>\<open>LogFile\<close>. The parts under the mutex are steps; what the writing thread does with its own variables is one step. The wait of
  the writing thread has a time limit and its result is not looked at, so it can end at any time and \<^verbatim>\<open>notify\<close> has no
  effect that matters. \<open>cap\<close> is the size of a buffer (\<open>kLargeBuffer\<close> in the program), and the content of the memory of a
  new buffer is arbitrary. Pointers that own a buffer are options.

  \<open>al_in\<close>, \<open>al_out\<close> and \<open>al_rounds\<close> record the lines that were appended, the texts that were given to the \<^verbatim>\<open>LogFile\<close>,
  and for each turn of the writing thread the text of its notice and the contents of the buffers that it took.
\<close>

section \<open>State and operations\<close>

datatype backend = BOff | BInit | BTest | BWait | BWrite | BDone

record async_log =
  al_running :: bool
  al_pc :: backend
  currentBuffer :: "fixed_buffer option"
  nextBuffer :: "fixed_buffer option"
  buffers :: "fixed_buffer list"
  newBuffer1 :: "fixed_buffer option"
  newBuffer2 :: "fixed_buffer option"
  buffersToWrite :: "fixed_buffer list"
  al_in :: "char list list"
  al_out :: "char list list"
  al_rounds :: "(string \<times> char list list) list"

definition new_Buffer :: "char list \<Rightarrow> fixed_buffer" where
  "new_Buffer mem = fb_bzero (FixedBuffer_new mem)"

definition AsyncLogging_new :: "char list \<Rightarrow> char list \<Rightarrow> async_log" where
  "AsyncLogging_new mem1 mem2 =
     \<lparr>al_running = False, al_pc = BOff, currentBuffer = Some (new_Buffer mem1), nextBuffer = Some (new_Buffer mem2), buffers = [],
      newBuffer1 = None, newBuffer2 = None, buffersToWrite = [], al_in = [], al_out = [], al_rounds = []\<rparr>"

definition al_start :: "async_log \<Rightarrow> async_log" where
  "al_start s = s\<lparr>al_running := True, al_pc := BInit\<rparr>"

definition al_stop :: "async_log \<Rightarrow> async_log" where
  "al_stop s = s\<lparr>al_running := False\<rparr>"

definition AsyncLogging_dtor :: "async_log \<Rightarrow> async_log" where
  "AsyncLogging_dtor s = (if al_running s then al_stop s else s)"

definition deref :: "'a option \<Rightarrow> ('a \<Rightarrow> 'b res) \<Rightarrow> 'b res" where
  "deref p k = (case p of None \<Rightarrow> Inl NullDeref | Some x \<Rightarrow> k x)"

definition al_append :: "char list \<Rightarrow> char list \<Rightarrow> async_log \<Rightarrow> async_log res" where
  "al_append mem logline s = deref (currentBuffer s) (\<lambda>cur.
     if int (length logline) < fb_avail cur
     then bindE (fb_append logline cur) (\<lambda>cur'. Inr (s\<lparr>currentBuffer := Some cur', al_in := al_in s @ [logline]\<rparr>))
     else let s1 = s\<lparr>buffers := buffers s @ [cur], currentBuffer := None\<rparr>;
              s2 = (case nextBuffer s1 of
                      Some nb \<Rightarrow> s1\<lparr>currentBuffer := Some nb, nextBuffer := None\<rparr>
                    | None \<Rightarrow> s1\<lparr>currentBuffer := Some (FixedBuffer_new mem)\<rparr>)
          in deref (currentBuffer s2) (\<lambda>b.
               bindE (fb_append logline b) (\<lambda>b'. Inr (s2\<lparr>currentBuffer := Some b', al_in := al_in s @ [logline]\<rparr>))))"

text \<open>\<^verbatim>\<open>threadFunc\<close>: up to the loop, the test of the loop with the assertions and the test for buffers, the exchange of the buffers, the rest.\<close>

definition func_begin :: "char list \<Rightarrow> char list \<Rightarrow> async_log \<Rightarrow> async_log res" where
  "func_begin mem1 mem2 s =
     cassert (al_running s)
       (Inr (s\<lparr>newBuffer1 := Some (new_Buffer mem1), newBuffer2 := Some (new_Buffer mem2), buffersToWrite := [], al_pc := BTest\<rparr>))"

definition func_swap :: "async_log \<Rightarrow> async_log res" where
  "func_swap s = deref (currentBuffer s) (\<lambda>cur.
     let s1 = s\<lparr>buffers := buffers s @ [cur], currentBuffer := newBuffer1 s, newBuffer1 := None\<rparr>;
         s2 = s1\<lparr>buffersToWrite := buffers s1, buffers := buffersToWrite s1\<rparr>;
         s3 = (if nextBuffer s2 = None then s2\<lparr>nextBuffer := newBuffer2 s2, newBuffer2 := None\<rparr> else s2)
     in Inr (s3\<lparr>al_pc := BWrite\<rparr>))"

definition is_fresh :: "fixed_buffer option \<Rightarrow> bool" where
  "is_fresh p \<longleftrightarrow> (case p of None \<Rightarrow> False | Some b \<Rightarrow> fb_length b = 0)"

definition func_test :: "async_log \<Rightarrow> async_log res" where
  "func_test s =
     (if \<not> al_running s then Inr (s\<lparr>al_pc := BDone\<rparr>)
      else cassert (is_fresh (newBuffer1 s)) (cassert (is_fresh (newBuffer2 s)) (cassert (buffersToWrite s = [])
        (if buffers s = [] then Inr (s\<lparr>al_pc := BWait\<rparr>) else func_swap s))))"

definition refill :: "fixed_buffer option \<Rightarrow> fixed_buffer list \<Rightarrow> (fixed_buffer option \<times> fixed_buffer list) res" where
  "refill p bs =
     (if p = None then cassert (bs \<noteq> []) (Inr (Some (fb_reset (last bs)), butlast bs)) else Inr (p, bs))"

definition func_write :: "string \<Rightarrow> async_log \<Rightarrow> async_log res" where
  "func_write notice s =
     cassert (buffersToWrite s \<noteq> [])
      (let (out1, bs1) = (if 25 < length (buffersToWrite s) then ([notice], take 2 (buffersToWrite s)) else ([], buffersToWrite s));
           out2 = out1 @ map fb_asString bs1;
           bs2 = (if 2 < length bs1 then take 2 bs1 else bs1)
       in bindE (refill (newBuffer1 s) bs2) (\<lambda>(new1, bs3).
          bindE (refill (newBuffer2 s) bs3) (\<lambda>(new2, bs4).
            Inr (s\<lparr>newBuffer1 := new1, newBuffer2 := new2, buffersToWrite := [], al_out := al_out s @ out2,
                   al_rounds := al_rounds s @ [(notice, map fb_asString (buffersToWrite s))], al_pc := BTest\<rparr>))))"

section \<open>The threads\<close>

text \<open>Lines are shorter than a buffer: they come from a \<^verbatim>\<open>LogStream\<close> of \<open>kSmallBuffer\<close> bytes. \<^verbatim>\<open>start\<close> waits for the latch, so \<^verbatim>\<open>stop\<close> comes after it.\<close>

inductive al_step :: "nat \<Rightarrow> async_log \<Rightarrow> async_log res \<Rightarrow> bool" for cap where
  start: "al_pc s = BOff \<Longrightarrow> al_step cap s (Inr (al_start s))"
| enter: "al_pc s = BInit \<Longrightarrow> length mem1 = cap \<Longrightarrow> length mem2 = cap \<Longrightarrow> al_step cap s (func_begin mem1 mem2 s)"
| append: "length mem = cap \<Longrightarrow> length line < cap \<Longrightarrow> al_step cap s (al_append mem line s)"
| test: "al_pc s = BTest \<Longrightarrow> al_step cap s (func_test s)"
| wake: "al_pc s = BWait \<Longrightarrow> al_step cap s (func_swap s)"
| write_out: "al_pc s = BWrite \<Longrightarrow> al_step cap s (func_write notice s)"
| stop: "al_pc s \<notin> {BOff, BInit} \<Longrightarrow> al_step cap s (Inr (al_stop s))"

inductive al_reach :: "nat \<Rightarrow> async_log \<Rightarrow> bool" for cap where
  init: "length mem1 = cap \<Longrightarrow> length mem2 = cap \<Longrightarrow> al_reach cap (AsyncLogging_new mem1 mem2)"
| next_state: "al_reach cap s \<Longrightarrow> al_step cap s (Inr s') \<Longrightarrow> al_reach cap s'"

section \<open>Invariant\<close>

definition buf_ok :: "nat \<Rightarrow> fixed_buffer \<Rightarrow> bool" where "buf_ok cap b \<longleftrightarrow> length (fb_data b) = cap \<and> fb_ok b"

definition spare_ok :: "nat \<Rightarrow> fixed_buffer option \<Rightarrow> bool" where
  "spare_ok cap p \<longleftrightarrow> (case p of None \<Rightarrow> True | Some b \<Rightarrow> buf_ok cap b \<and> fb_length b = 0)"

definition pending_text :: "async_log \<Rightarrow> char list" where
  "pending_text s = concat (map fb_asString (buffersToWrite s @ buffers s @ (case currentBuffer s of None \<Rightarrow> [] | Some b \<Rightarrow> [b])))"

definition round_out :: "string \<times> char list list \<Rightarrow> char list list" where
  "round_out r = (if 25 < length (snd r) then fst r # take 2 (snd r) else snd r)"

text \<open>The spare buffers of the writing thread, at the places of its code.\<close>

definition spares_inv :: "async_log \<Rightarrow> bool" where
  "spares_inv s \<longleftrightarrow>
     (if al_pc s \<in> {BTest, BWait} then newBuffer1 s \<noteq> None \<and> newBuffer2 s \<noteq> None else True)
     \<and> (if al_pc s = BWrite then newBuffer1 s = None \<and> buffersToWrite s \<noteq> [] \<and> (newBuffer2 s = None \<longrightarrow> 2 \<le> length (buffersToWrite s))
        else buffersToWrite s = [])"

definition al_inv :: "nat \<Rightarrow> async_log \<Rightarrow> bool" where
  "al_inv cap s \<longleftrightarrow> (\<exists>cur. currentBuffer s = Some cur \<and> buf_ok cap cur)
     \<and> spare_ok cap (nextBuffer s) \<and> spare_ok cap (newBuffer1 s) \<and> spare_ok cap (newBuffer2 s)
     \<and> (\<forall>b \<in> set (buffers s @ buffersToWrite s). buf_ok cap b)
     \<and> (nextBuffer s = None \<longrightarrow> buffers s \<noteq> []) \<and> spares_inv s
     \<and> (al_pc s = BInit \<longrightarrow> al_running s)
     \<and> concat (al_in s) = concat (concat (map snd (al_rounds s))) @ pending_text s
     \<and> al_out s = concat (map round_out (al_rounds s))"

lemmas al_inv_defs = al_inv_def spares_inv_def pending_text_def

lemma new_Buffer_ok: "length mem = cap \<Longrightarrow> 0 < cap \<Longrightarrow> buf_ok cap (new_Buffer mem) \<and> fb_asString (new_Buffer mem) = [] \<and> fb_length (new_Buffer mem) = 0"
  by (simp add: new_Buffer_def buf_ok_def fb_ok_def fb_bzero_def FixedBuffer_new_def fb_asString_def fb_length_def)

lemma fresh_text: "fb_length b = 0 \<Longrightarrow> fb_asString b = []"
  by (simp add: fb_asString_def fb_length_def)

lemma fb_append_ok:
  assumes "buf_ok cap b" and "int (length line) < fb_avail b"
  shows "\<exists>b'. fb_append line b = Inr b' \<and> buf_ok cap b' \<and> fb_asString b' = fb_asString b @ line"
proof -
  obtain b' where "fb_append line b = Inr b'" "grows b line b' \<or> b' = b \<and> fb_avail b \<le> max 31 (int (length line))"
    using fb_append_takes [of b line] assms(1) by (auto simp: takes_def buf_ok_def)
  moreover have "grows b line b'" if "fb_append line b = Inr b'" for b'
    using that assms by (auto simp: fb_append_def poke_def grows_def fb_ok_def buf_ok_def fb_asString_def fb_length_def fb_avail_def)
  ultimately show ?thesis using assms(1) by (auto simp: grows_def buf_ok_def)
qed

lemma fb_append_fresh:
  assumes "buf_ok cap b" and "fb_length b = 0" and "length line < cap"
  shows "\<exists>b'. fb_append line b = Inr b' \<and> buf_ok cap b' \<and> fb_asString b' = line"
  using fb_append_ok [OF assms(1), of line] assms fresh_text [of b] by (auto simp: buf_ok_def fb_avail_def fb_length_def)

lemma al_append_inv:
  assumes inv: "al_inv cap s" and "length mem = cap" and line: "length line < cap"
  shows "\<exists>s'. al_append mem line s = Inr s' \<and> al_inv cap s'"
proof -
  obtain cur where cur: "currentBuffer s = Some cur" "buf_ok cap cur" using inv by (auto simp: al_inv_def)
  show ?thesis
  proof (cases "int (length line) < fb_avail cur")
    case True
    then show ?thesis using fb_append_ok [OF cur(2) True] inv cur
      by (auto simp: al_append_def deref_def al_inv_defs)
  next
    case False
    define nb where "nb = (case nextBuffer s of None \<Rightarrow> FixedBuffer_new mem | Some b \<Rightarrow> b)"
    have "buf_ok cap nb" "fb_length nb = 0"
      using inv assms(2) line by (auto simp: nb_def al_inv_def spare_ok_def buf_ok_def fb_ok_def FixedBuffer_new_def fb_length_def split: option.splits)
    then obtain b' where b': "fb_append line nb = Inr b'" "buf_ok cap b'" "fb_asString b' = line" using fb_append_fresh line by blast
    then have "al_append mem line s = Inr (s\<lparr>buffers := buffers s @ [cur], currentBuffer := Some b', nextBuffer := None, al_in := al_in s @ [line]\<rparr>)"
      using False cur by (auto simp: al_append_def deref_def nb_def split: option.splits)
    then show ?thesis using inv cur b' by (auto simp: al_inv_defs spare_ok_def)
  qed
qed

lemma func_swap_inv:
  assumes "al_inv cap s" and "newBuffer1 s \<noteq> None" and "newBuffer2 s \<noteq> None" and "buffersToWrite s = []"
  shows "\<exists>s'. func_swap s = Inr s' \<and> al_inv cap s'"
proof -
  obtain cur n1 n2 where c: "currentBuffer s = Some cur" "buf_ok cap cur" "newBuffer1 s = Some n1" "newBuffer2 s = Some n2"
    using assms(1-3) by (auto simp: al_inv_def)
  have n: "buf_ok cap n1" "fb_asString n1 = []" "buf_ok cap n2" "fb_length n1 = 0" "fb_length n2 = 0"
    using assms(1) c(3,4) fresh_text by (auto simp: al_inv_def spare_ok_def)
  show ?thesis
  proof (cases "nextBuffer s")
    case None
    then have "buffers s \<noteq> []" using assms(1) by (auto simp: al_inv_def)
    then show ?thesis using assms(1,4) c n None
      by (auto simp: func_swap_def deref_def al_inv_defs spare_ok_def Suc_le_eq)
  next
    case (Some nb)
    then show ?thesis using assms(1,4) c n by (auto simp: func_swap_def deref_def al_inv_defs spare_ok_def)
  qed
qed

lemma func_test_inv:
  assumes "al_inv cap s" and "al_pc s = BTest"
  shows "\<exists>s'. func_test s = Inr s' \<and> al_inv cap s'"
proof -
  obtain n1 n2 where n: "newBuffer1 s = Some n1" "newBuffer2 s = Some n2" using assms by (auto simp: al_inv_def spares_inv_def)
  then have "fb_length n1 = 0" "fb_length n2 = 0" using assms(1) by (auto simp: al_inv_def spare_ok_def)
  moreover have w: "buffersToWrite s = []" using assms by (simp add: al_inv_def spares_inv_def)
  ultimately have t: "func_test s =
      (if \<not> al_running s then Inr (s\<lparr>al_pc := BDone\<rparr>) else if buffers s = [] then Inr (s\<lparr>al_pc := BWait\<rparr>) else func_swap s)"
    using n by (simp add: func_test_def is_fresh_def)
  have "al_inv cap (s\<lparr>al_pc := BDone\<rparr>)" "al_inv cap (s\<lparr>al_pc := BWait\<rparr>)" using assms n w by (simp_all add: al_inv_defs)
  then show ?thesis using t func_swap_inv [OF assms(1)] n w by simp
qed

lemma refill_ok:
  assumes "spare_ok cap p" and "p = None \<longrightarrow> bs \<noteq> []" and "\<forall>b \<in> set bs. buf_ok cap b"
  shows "\<exists>b. refill p bs = Inr (Some b, if p = None then butlast bs else bs) \<and> spare_ok cap (Some b)"
proof (cases p)
  case None
  then have "buf_ok cap (last bs)" using assms by simp
  then show ?thesis using None assms(2) by (auto simp: refill_def spare_ok_def buf_ok_def fb_ok_def fb_reset_def fb_length_def)
qed (use assms in \<open>simp add: refill_def\<close>)

lemma func_write_inv:
  assumes inv: "al_inv cap s" and pc: "al_pc s = BWrite"
  shows "\<exists>s'. func_write notice s = Inr s' \<and> al_inv cap s'"
proof -
  define bs where "bs = buffersToWrite s"
  define bs1 where "bs1 = (if 25 < length bs then take 2 bs else bs)"
  define bs2 where "bs2 = (if 2 < length bs1 then take 2 bs1 else bs1)"
  have bs2: "bs2 = take 2 bs" by (simp add: bs2_def bs1_def)
  have n1: "newBuffer1 s = None" and ne: "bs \<noteq> []" and two: "newBuffer2 s = None \<longrightarrow> 2 \<le> length bs"
    using inv pc by (auto simp: al_inv_def spares_inv_def bs_def)
  have len: "bs2 \<noteq> []" "newBuffer2 s = None \<longrightarrow> butlast bs2 \<noteq> []" "set bs2 \<subseteq> set bs"
    using ne two set_take_subset [of 2 bs] by (auto simp: bs2_def bs1_def butlast_conv_take)
  have okb: "\<forall>b \<in> set bs2. buf_ok cap b" using inv len(3) by (auto simp: al_inv_def bs_def)
  obtain b1 where 1: "refill (newBuffer1 s) bs2 = Inr (Some b1, butlast bs2)" "spare_ok cap (Some b1)"
    using refill_ok [of cap "newBuffer1 s" bs2] n1 len(1) okb by (auto simp: spare_ok_def)
  have "\<forall>b \<in> set (butlast bs2). buf_ok cap b" using okb by (meson in_set_butlastD)
  then obtain b2 rest where 2: "refill (newBuffer2 s) (butlast bs2) = Inr (Some b2, rest)" "spare_ok cap (Some b2)"
    using refill_ok [of cap "newBuffer2 s" "butlast bs2"] inv len(2) by (auto simp: al_inv_def)
  let ?s = "s\<lparr>newBuffer1 := Some b1, newBuffer2 := Some b2, buffersToWrite := [], al_out := al_out s @ round_out (notice, map fb_asString bs),
    al_rounds := al_rounds s @ [(notice, map fb_asString bs)], al_pc := BTest\<rparr>"
  have "func_write notice s = Inr ?s"
    using ne 1(1) 2(1) unfolding bs2
    by (cases "25 < length bs"; cases "2 < length bs") (simp_all add: func_write_def bs_def [symmetric] round_out_def take_map)
  moreover have "al_inv cap ?s" using inv pc 1(2) 2(2) by (auto simp: al_inv_defs bs_def)
  ultimately show ?thesis by blast
qed

lemma al_inv_step:
  assumes "al_step cap s r" and inv: "al_inv cap s" and "0 < cap"
  shows "\<exists>s'. r = Inr s' \<and> al_inv cap s'"
  using assms(1)
proof cases
  case (append mem line)
  then show ?thesis using al_append_inv [OF inv] by blast
next
  case test
  then show ?thesis using func_test_inv [OF inv] by blast
next
  case wake
  then show ?thesis using func_swap_inv [OF inv] inv by (auto simp: al_inv_def spares_inv_def)
next
  case (write_out notice)
  then show ?thesis using func_write_inv [OF inv] by blast
next
  case (enter mem1 mem2)
  have "spare_ok cap (Some (new_Buffer mem1))" "spare_ok cap (Some (new_Buffer mem2))"
    using new_Buffer_ok [of mem1 cap] new_Buffer_ok [of mem2 cap] enter assms(3) by (simp_all add: spare_ok_def)
  then show ?thesis using inv enter by (auto simp: func_begin_def al_inv_defs)
qed (use inv in \<open>auto simp: al_inv_defs al_start_def al_stop_def\<close>)

lemma al_reach_inv: "al_reach cap s \<Longrightarrow> 0 < cap \<Longrightarrow> al_inv cap s"
proof (induction rule: al_reach.induct)
  case (init mem1 mem2)
  then show ?case using new_Buffer_ok [of mem1 cap] new_Buffer_ok [of mem2 cap]
    by (simp add: AsyncLogging_new_def al_inv_defs spare_ok_def)
next
  case (next_state s s')
  then show ?case using al_inv_step by fastforce
qed


text \<open>When the writing thread is at its end it stays there.\<close>

lemma al_done_step:
  assumes "al_step cap s (Inr s')" and "al_pc s = BDone"
  shows "al_pc s' = BDone \<and> al_out s' = al_out s"
  using assms(1)
proof cases
  case (append mem line)
  then have "al_append mem line s = Inr s'" by simp
  then show ?thesis using assms(2)
    by (auto simp: al_append_def deref_def bindE_eq_Inr Let_def split: option.splits if_splits)
qed (use assms(2) in \<open>auto simp: al_stop_def\<close>)

inductive al_later :: "nat \<Rightarrow> async_log \<Rightarrow> async_log \<Rightarrow> bool" for cap s where
  now: "al_later cap s s"
| later: "al_later cap s t \<Longrightarrow> al_step cap t (Inr u) \<Longrightarrow> al_later cap s u"

lemma al_later_trans: "al_later cap s t \<Longrightarrow> al_later cap t u \<Longrightarrow> al_later cap s u"
  by (rotate_tac, induction rule: al_later.induct) (auto intro: al_later.intros)

text \<open>After \<^verbatim>\<open>stop\<close> the writing thread ends its turn with the buffers that it had taken, and takes no others.\<close>

definition last_turn :: "async_log \<Rightarrow> async_log \<Rightarrow> bool" where
  "last_turn s t \<longleftrightarrow> \<not> al_running t \<and> (\<exists>xs. al_in t = al_in s @ xs)
     \<and> (al_pc t = BWrite \<and> buffersToWrite t = buffersToWrite s \<and> al_out t = al_out s
        \<or> al_pc t \<in> {BTest, BDone} \<and> (\<exists>notice. al_out t = al_out s @ round_out (notice, map fb_asString (buffersToWrite s))))"

lemma al_append_frame:
  assumes "al_append mem line s = Inr s'"
  shows "al_running s' = al_running s \<and> al_pc s' = al_pc s \<and> buffersToWrite s' = buffersToWrite s \<and> al_out s' = al_out s \<and> al_in s' = al_in s @ [line]"
  using assms by (auto simp: al_append_def deref_def bindE_eq_Inr Let_def split: option.splits if_splits)

lemma func_write_out:
  assumes "func_write notice s = Inr s'"
  shows "al_running s' = al_running s \<and> al_pc s' = BTest \<and> al_in s' = al_in s \<and> al_out s' = al_out s @ round_out (notice, map fb_asString (buffersToWrite s))"
  using assms by (auto simp: func_write_def round_out_def take_map cassert_eq_Inr bindE_eq_Inr Let_def split: prod.splits if_splits)

lemma last_turn_step:
  assumes "last_turn s t" and "al_step cap t (Inr u)"
  shows "last_turn s u"
  using assms(2)
proof cases
  case (append mem line)
  then show ?thesis using assms(1) al_append_frame [of mem line t u] by (auto simp: last_turn_def)
next
  case test
  then show ?thesis using assms(1) by (auto simp: last_turn_def func_test_def)
next
  case (write_out notice)
  then show ?thesis using assms(1) func_write_out [of notice t u] by (auto simp: last_turn_def)
qed (use assms(1) in \<open>auto simp: last_turn_def al_stop_def\<close>)

lemma last_turn_later: "al_later cap t u \<Longrightarrow> last_turn s t \<Longrightarrow> last_turn s u"
  by (induction rule: al_later.induct) (auto dest: last_turn_step)

lemma al_later_reach: "al_later cap s t \<Longrightarrow> al_reach cap s \<Longrightarrow> al_reach cap t"
  by (induction rule: al_later.induct) (auto intro: al_reach.next_state)

text \<open>A thread that writes can come to its end, whatever was appended meanwhile.\<close>

lemma last_turn_ends:
  assumes "al_reach cap s" and "0 < cap" and "al_pc s = BWrite" and "\<not> al_running s"
  shows "\<exists>t. al_later cap s t \<and> al_pc t = BDone"
proof -
  obtain t where t: "func_write [] s = Inr t" using func_write_inv [OF al_reach_inv [OF assms(1,2)] assms(3)] by blast
  have 1: "al_step cap s (Inr t)" using al_step.write_out [OF assms(3), of cap "[]"] t by simp
  have "\<not> al_running t" "al_pc t = BTest" using func_write_out [OF t] assms(4) by simp_all
  then have 2: "al_step cap t (Inr (t\<lparr>al_pc := BDone\<rparr>))" using al_step.test [of t cap] by (simp add: func_test_def)
  have "al_later cap s (t\<lparr>al_pc := BDone\<rparr>)" by (rule al_later.later [OF al_later.later [OF al_later.now 1] 2])
  then show ?thesis by (intro exI [of _ "t\<lparr>al_pc := BDone\<rparr>"]) simp
qed

text \<open>Without dropped buffers, what was written is what was taken.\<close>

lemma round_out_all: "\<forall>r \<in> set rounds. length (snd r) \<le> 25 \<Longrightarrow> concat (map round_out rounds) = concat (map snd rounds)"
  by (induction rounds) (auto simp: round_out_def)

section \<open>Properties\<close>

text \<open>
  C14. \<^verbatim>\<open>AsyncLogging\<close> over every interleaving of \<^verbatim>\<open>append\<close>, \<^verbatim>\<open>stop\<close> and the writing thread: no assertion of \<^verbatim>\<open>threadFunc\<close> fails, no null buffer is
  used and nothing is written outside a buffer, so the four buffers are always enough for the exchange; the lines that were
  appended are, byte for byte and in order, what the writing thread has taken, what it is about to write and what is still in the
  buffers; and each turn gives to the \<^verbatim>\<open>LogFile\<close> all that it took, or a notice and the first two buffers when there were
  more than 25.
\<close>

theorem async_logging_accounts:
  assumes "al_reach cap s" and "0 < cap"
  shows "(\<forall>r. al_step cap s r \<longrightarrow> (\<exists>s'. r = Inr s'))
    \<and> concat (al_in s) = concat (concat (map snd (al_rounds s))) @ pending_text s
    \<and> al_out s = concat (map round_out (al_rounds s))"
proof -
  have inv: "al_inv cap s" by (rule al_reach_inv [OF assms])
  have "\<forall>r. al_step cap s r \<longrightarrow> (\<exists>s'. r = Inr s')" using al_inv_step [OF _ inv assms(2)] by blast
  then show ?thesis using inv by (simp add: al_inv_def)
qed

text \<open>
  C7. From the loggers to the files (\<^verbatim>\<open>AsyncLogging\<close> with its \<^verbatim>\<open>LogFile\<close>): as long as the writing thread has never found more than 25
  buffers, what is in the log files, read in the order in which they were opened, is at every moment a prefix of the lines in the order in
  which they were appended, and the rest is in the buffers.
\<close>

theorem async_log_files:
  assumes "al_reach cap s" and "0 < cap" and "\<forall>r \<in> set (al_rounds s). length (snd r) \<le> 25"
    and "lf_env_ok env" and "CHR ''/'' \<notin> set base" and "0 < t0" and "sorted (t0 # op_times ops)"
    and "map fst ops = al_out s" and "length (concat (al_in s)) < SIZE_MOD"
  shows "\<exists>f vols. bindE (LogFile_new env base roll interval os t0) (foldE (LogFile_append env) ops) = Inr f
    \<and> holds_volumes env vols f \<and> concat (al_in s) = concat (map vol_bytes vols) @ pending_text s"
proof -
  have "al_inv cap s" by (rule al_reach_inv [OF assms(1,2)])
  then have eq: "concat (al_in s) = concat (al_out s) @ pending_text s"
    using round_out_all [OF assms(3)] by (simp add: al_inv_def)
  then have "length (concat (map fst ops)) < SIZE_MOD" using assms(8,9) by simp
  from log_file_run [OF assms(4-7) this]
  obtain f vols where f: "bindE (LogFile_new env base roll interval os t0) (foldE (LogFile_append env) ops) = Inr f"
    "volumes_ok roll (map fst ops) (last (t0 # op_times ops)) vols" "holds_volumes env vols f" by blast
  have "concat (map vol_bytes vols) = concat (concat (map snd vols))" by (induction vols) (simp_all add: vol_bytes_def)
  also have "\<dots> = concat (al_out s)" using f(2) assms(8) by (simp add: volumes_ok_def)
  finally show ?thesis using f eq by auto
qed

text \<open>
  C40. What \<^verbatim>\<open>stop\<close> leaves: the writing thread ends as soon as it finds \<^verbatim>\<open>running_\<close> false, without another look at the buffers. In every state in which the
  thread is writing, a line that is then appended, before \<^verbatim>\<open>stop\<close> is called, is lost: in every state that can follow, the \<^verbatim>\<open>LogFile\<close> has got no more than before
  and the buffers that were being written at the moment of the append. And the thread can come to its end then, with the line appended and never written.
\<close>

theorem async_stop_loses:
  assumes "al_reach cap s" and "al_pc s = BWrite" and "length mem = cap" and "length line < cap" and "al_append mem line s = Inr s1"
  shows "(\<forall>t. al_later cap (al_stop s1) t \<longrightarrow> (\<exists>xs. al_in t = al_in s @ line # xs)
      \<and> (al_out t = al_out s \<or> (\<exists>notice. al_out t = al_out s @ round_out (notice, map fb_asString (buffersToWrite s)))))
    \<and> (\<exists>t. al_later cap (al_stop s1) t \<and> al_pc t = BDone)"
proof
  note f = al_append_frame [OF assms(5)]
  have l: "last_turn s1 (al_stop s1)" using f assms(2) by (simp add: last_turn_def al_stop_def)
  have "(\<exists>xs. al_in t = al_in s @ line # xs) \<and> (al_out t = al_out s \<or> (\<exists>notice. al_out t = al_out s @ round_out (notice, map fb_asString (buffersToWrite s))))"
    if "al_later cap (al_stop s1) t" for t using last_turn_later [OF that l] f by (auto simp: last_turn_def)
  then show "\<forall>t. al_later cap (al_stop s1) t \<longrightarrow> (\<exists>xs. al_in t = al_in s @ line # xs)
      \<and> (al_out t = al_out s \<or> (\<exists>notice. al_out t = al_out s @ round_out (notice, map fb_asString (buffersToWrite s))))" by blast
  have "al_reach cap s1" using al_reach.next_state [OF assms(1)] al_step.append [OF assms(3,4), of s] assms(5) by simp
  then have "al_reach cap (al_stop s1)" by (rule al_reach.next_state) (rule al_step.stop, use f assms(2) in simp)
  then show "\<exists>t. al_later cap (al_stop s1) t \<and> al_pc t = BDone"
    by (rule last_turn_ends) (use f assms(2,4) in \<open>simp_all add: al_stop_def\<close>)
qed

section \<open>Examples\<close>

text \<open>The constructor with one line appended, the thread waiting, and the thread writing that line.\<close>

definition al_mem :: "char list" where
  "al_mem = [CHR ''a'', CHR ''b'', CHR ''c'', CHR ''d'']"

definition al_demo :: async_log where
  "al_demo = (case al_append al_mem ''x'' (AsyncLogging_new al_mem al_mem) of Inr s \<Rightarrow> s | Inl e \<Rightarrow> AsyncLogging_new al_mem al_mem)"

lemma al_demo_eq: "al_append al_mem ''x'' (AsyncLogging_new al_mem al_mem) = Inr al_demo"
  "al_in al_demo = [''x'']" "al_rounds al_demo = []" "al_out al_demo = []" "al_pc al_demo = BOff"
  by (simp_all add: al_demo_def al_append_def AsyncLogging_new_def deref_def al_mem_def new_Buffer_def FixedBuffer_new_def fb_bzero_def fb_avail_def fb_append_def poke_def)

lemma al_demo_reach: "al_reach 4 al_demo"
proof (rule al_reach.next_state)
  show "al_reach 4 (AsyncLogging_new al_mem al_mem)" by (rule al_reach.init) (simp_all add: al_mem_def)
  show "al_step 4 (AsyncLogging_new al_mem al_mem) (Inr al_demo)"
    using al_step.append [of al_mem 4 "''x''" "AsyncLogging_new al_mem al_mem"] al_demo_eq(1) by (simp add: al_mem_def)
qed

theorem async_logging_accounts_witness:
  "al_reach 4 al_demo \<and> ''x'' = concat (concat (map snd (al_rounds al_demo))) @ pending_text al_demo"
  using al_demo_reach async_logging_accounts [OF al_demo_reach] by (simp add: al_demo_eq)

lemma al_writing_reach:
  "\<exists>s. al_reach 4 s \<and> al_pc s = BWrite \<and> al_in s = [''x''] \<and> map fb_asString (buffersToWrite s) = [''x''] \<and> al_out s = [] \<and> al_rounds s = []"
proof -
  define e where "e = new_Buffer al_mem"
  define s1 where "s1 = (al_start al_demo)\<lparr>newBuffer1 := Some e, newBuffer2 := Some e, buffersToWrite := [], al_pc := BTest\<rparr>"
  define s2 where "s2 = s1\<lparr>al_pc := BWait\<rparr>"
  have l: "length al_mem = 4" by (simp add: al_mem_def)
  obtain b where b: "currentBuffer al_demo = Some b" "fb_asString b = ''x''" "nextBuffer al_demo \<noteq> None" "buffers al_demo = []"
    by (simp add: al_demo_def al_append_def AsyncLogging_new_def deref_def al_mem_def new_Buffer_def FixedBuffer_new_def fb_bzero_def fb_avail_def fb_append_def poke_def fb_asString_def fb_length_def)
  have e: "fb_length e = 0" using new_Buffer_ok [OF l] by (simp add: e_def)
  have "al_reach 4 (al_start al_demo)" by (rule al_reach.next_state [OF al_demo_reach al_step.start]) (simp add: al_demo_eq)
  then have "al_reach 4 s1"
    by (rule al_reach.next_state) (use al_step.enter [of "al_start al_demo" al_mem 4 al_mem] l in \<open>simp add: func_begin_def al_start_def s1_def e_def\<close>)
  then have "al_reach 4 s2"
    by (rule al_reach.next_state) (use al_step.test [of s1 4] b e in \<open>simp add: func_test_def is_fresh_def al_start_def s1_def s2_def\<close>)
  moreover obtain s where s: "func_swap s2 = Inr s" "al_pc s = BWrite" "al_in s = [''x'']" "map fb_asString (buffersToWrite s) = [''x'']" "al_out s = []" "al_rounds s = []"
    using b by (simp add: func_swap_def deref_def s2_def s1_def al_start_def al_demo_eq)
  have "al_step 4 s2 (Inr s)" using al_step.wake [of s2 4] s(1) by (simp add: s2_def)
  ultimately have "al_reach 4 s" by (rule al_reach.next_state)
  then show ?thesis using s by (intro exI [of _ s]) simp
qed

theorem async_log_files_witness:
  "\<exists>s f vols. al_reach 4 s \<and> al_in s = [''x'']
    \<and> bindE (LogFile_new lf_demo ''log'' 2 3 () 86399) (foldE (LogFile_append lf_demo) [(''x'', 86400, 86400)]) = Inr f
    \<and> holds_volumes lf_demo vols f \<and> ''x'' = concat (map vol_bytes vols) @ pending_text s"
proof -
  obtain s where "al_reach 4 s \<and> al_pc s = BWrite \<and> al_in s = [''x''] \<and> map fb_asString (buffersToWrite s) = [''x''] \<and> al_out s = [] \<and> al_rounds s = []"
    using al_writing_reach ..
  then have s: "al_reach 4 s" "al_pc s = BWrite" "al_in s = [''x'']" "map fb_asString (buffersToWrite s) = [''x'']" "al_out s = []" "al_rounds s = []" by simp_all
  have inv: "al_inv 4 s" by (rule al_reach_inv [OF s(1)]) simp
  obtain t where t: "func_write [] s = Inr t" using func_write_inv [OF inv s(2), of "[]"] by blast
  have r: "al_reach 4 t" using al_reach.next_state [OF s(1)] al_step.write_out [OF s(2), of 4 "[]"] t by simp
  have o: "al_in t = [''x'']" "al_out t = [''x'']" using func_write_out [OF t] s(3-5) by (simp_all add: round_out_def)
  have "al_rounds t = [([], [''x''])]"
    using t s(4,6) by (auto simp: func_write_def cassert_eq_Inr bindE_eq_Inr Let_def split: prod.splits if_splits)
  then have "\<exists>f vols. bindE (LogFile_new lf_demo ''log'' 2 3 () 86399) (foldE (LogFile_append lf_demo) [(''x'', 86400, 86400)]) = Inr f
      \<and> holds_volumes lf_demo vols f \<and> concat (al_in t) = concat (map vol_bytes vols) @ pending_text t"
    by (intro async_log_files [OF r]) (auto simp: o lf_env_ok_def fwrite_ok_def lf_demo_def SIZE_MOD_def)
  then show ?thesis using r o(1) by auto
qed

theorem async_stop_loses_witness:
  "\<exists>s s1. al_reach 4 s \<and> al_pc s = BWrite \<and> al_append al_mem ''y'' s = Inr s1
    \<and> (\<forall>t. al_later 4 (al_stop s1) t \<longrightarrow> (\<exists>xs. al_in t = ''x'' # ''y'' # xs) \<and> (al_out t = [] \<or> al_out t = [''x'']))
    \<and> (\<exists>t. al_later 4 (al_stop s1) t \<and> al_pc t = BDone)"
proof -
  obtain s where "al_reach 4 s \<and> al_pc s = BWrite \<and> al_in s = [''x''] \<and> map fb_asString (buffersToWrite s) = [''x''] \<and> al_out s = [] \<and> al_rounds s = []"
    using al_writing_reach ..
  then have s: "al_reach 4 s" "al_pc s = BWrite" "al_in s = [''x'']" "map fb_asString (buffersToWrite s) = [''x'']" "al_out s = []" "al_rounds s = []" by simp_all
  have l: "length al_mem = 4" by (simp add: al_mem_def)
  have inv: "al_inv 4 s" by (rule al_reach_inv [OF s(1)]) simp
  have "length ''y'' < (4 :: nat)" by simp
  then obtain s1 where s1: "al_append al_mem ''y'' s = Inr s1" using al_append_inv [OF inv l] by blast
  from async_stop_loses [OF s(1,2) l _ s1] s show ?thesis using s1 by (auto simp: round_out_def)
qed

end
