(* ===== verification/Log_Output.thy ===== *)
theory Log_Output
  imports Logging Async_Logging
begin

text \<open>
  Where the lines of \<^verbatim>\<open>Logger\<close> go (\<^verbatim>\<open>base/Logging.cc\<close>): the function pointers \<^verbatim>\<open>g_output\<close> and \<^verbatim>\<open>g_flush\<close>, their first values, which use
  \<^verbatim>\<open>stdout\<close>, and the setters. The theory \<^verbatim>\<open>Logging\<close> records the lines that the output function gets; here the function is
  called, with \<open>'w\<close> the part of the world it works on. \<open>log_output\<close> is what such a function has to promise; it is kept by the default function
  and by \<^verbatim>\<open>AsyncLogging::append\<close>.
\<close>

section \<open>Output functions\<close>

record 'w log_sys =
  sys_level :: LogLevel
  g_output :: "string \<Rightarrow> 'w \<Rightarrow> 'w res"
  g_flush :: "'w \<Rightarrow> 'w res"
  sys_world :: 'w

definition setOutput :: "(string \<Rightarrow> 'w \<Rightarrow> 'w res) \<Rightarrow> 'w log_sys \<Rightarrow> 'w log_sys" where
  "setOutput out s = s\<lparr>g_output := out\<rparr>"

definition setFlush :: "('w \<Rightarrow> 'w res) \<Rightarrow> 'w log_sys \<Rightarrow> 'w log_sys" where
  "setFlush flush s = s\<lparr>g_flush := flush\<rparr>"

text \<open>\<^verbatim>\<open>stdout\<close>: what was put into the stream, and how much of it has been flushed. \<^verbatim>\<open>fwrite\<close> is an argument with a state of its own and says how
  many bytes it took.\<close>

record 'o c_stdout =
  so_text :: string
  so_flushed :: nat
  so_os :: 'o

definition defaultOutput :: "('o \<Rightarrow> nat \<Rightarrow> nat \<times> 'o) \<Rightarrow> string \<Rightarrow> 'o c_stdout \<Rightarrow> 'o c_stdout res" where
  "defaultOutput fwrite msg f =
     (case fwrite (so_os f) (length msg) of (n, os) \<Rightarrow> Inr (f\<lparr>so_text := so_text f @ take n msg, so_os := os\<rparr>))"

definition defaultFlush :: "'o c_stdout \<Rightarrow> 'o c_stdout res" where
  "defaultFlush f = Inr (f\<lparr>so_flushed := length (so_text f)\<rparr>)"

definition log_sys_init :: "('o \<Rightarrow> nat \<Rightarrow> nat \<times> 'o) \<Rightarrow> (string \<Rightarrow> bool) \<Rightarrow> 'o c_stdout \<Rightarrow> 'o c_stdout log_sys" where
  "log_sys_init fwrite getenv f = \<lparr>sys_level = initLogLevel getenv, g_output = defaultOutput fwrite, g_flush = defaultFlush, sys_world = f\<rparr>"

text \<open>The destructor of \<^verbatim>\<open>Logger\<close> with the two calls.\<close>

definition Logger_dtor_calls :: "logger \<Rightarrow> 'w log_sys \<Rightarrow> ('w log_sys \<times> bool) res" where
  "Logger_dtor_calls lg s =
     bindE (finish lg) (\<lambda>lg1.
     bindE (g_output s (fb_asString (lg_stream lg1)) (sys_world s)) (\<lambda>w.
       if lg_level lg1 = FATAL then bindE (g_flush s w) (\<lambda>w1. Inr (s\<lparr>sys_world := w1\<rparr>, True))
       else Inr (s\<lparr>sys_world := w\<rparr>, False)))"

definition sys_globals :: "'w log_sys \<Rightarrow> log_globals" where
  "sys_globals s = \<lparr>g_logLevel = sys_level s, g_out = [], g_flushes = 0\<rparr>"

text \<open>A log statement of a program: the macro, the place, the values, and the time and \<^verbatim>\<open>errno\<close> at which it runs. \<open>st_mem\<close> is the
  memory in which its stream is made.\<close>

record log_stmt =
  st_macro :: log_macro
  st_path :: string
  st_line :: "32 word"
  st_func :: string
  st_items :: "log_item list"
  st_now :: int
  st_errno :: "32 word"
  st_mem :: "char list"

definition st_env :: "log_env \<Rightarrow> log_stmt \<Rightarrow> log_env" where
  "st_env env x = env\<lparr>le_now := st_now x, le_errno := st_errno x\<rparr>"

definition log_statement_calls :: "log_env \<Rightarrow> log_stmt \<Rightarrow> log_thread \<times> 'w log_sys \<Rightarrow> (log_thread \<times> 'w log_sys \<times> bool) res" where
  "log_statement_calls env x = (\<lambda>(th, s).
     if log_enabled (st_macro x) (sys_globals s)
     then bindE (log_construct (st_macro x) (st_env env x) (SourceFile_array (st_path x)) (st_line x) (st_func x) (st_mem x) th) (\<lambda>(lg, th1).
          bindE (foldE put (st_items x) (lg_stream lg)) (\<lambda>b.
          bindE (Logger_dtor_calls (lg\<lparr>lg_stream := b\<rparr>) s) (\<lambda>(s1, aborted). Inr (th1, s1, aborted))))
     else Inr (th, s, False))"

text \<open>The statements of a thread, one after the other, until one of them aborts the program.\<close>

fun log_program :: "log_env \<Rightarrow> log_stmt list \<Rightarrow> log_thread \<times> 'w log_sys \<Rightarrow> (log_thread \<times> 'w log_sys \<times> bool) res" where
  "log_program env [] (th, s) = Inr (th, s, False)"
| "log_program env (x # xs) (th, s) =
     bindE (log_statement_calls env x (th, s)) (\<lambda>(th1, s1, aborted).
       if aborted then Inr (th1, s1, True) else log_program env xs (th1, s1))"

section \<open>The calls follow the recorded lines\<close>

lemma dtor_calls:
  "Logger_dtor_calls lg s =
     bindE (Logger_dtor lg (sys_globals s)) (\<lambda>(g, aborted).
     bindE (foldE (g_output s) (g_out g) (sys_world s)) (\<lambda>w.
     bindE (if aborted then g_flush s w else Inr w) (\<lambda>w1. Inr (s\<lparr>sys_world := w1\<rparr>, aborted))))"
  by (auto simp: Logger_dtor_calls_def Logger_dtor_def sys_globals_def bindE_assoc Let_def bindE_def split: sum.splits)

lemma statement_calls:
  "log_statement_calls env x (th, s) =
     bindE (log_statement (st_macro x) (st_env env x) (SourceFile_array (st_path x)) (st_line x) (st_func x) (st_mem x) (st_items x) (th, sys_globals s))
     (\<lambda>(th1, g, aborted).
        bindE (foldE (g_output s) (g_out g) (sys_world s)) (\<lambda>w.
        bindE (if aborted then g_flush s w else Inr w) (\<lambda>w1. Inr (th1, s\<lparr>sys_world := w1\<rparr>, aborted))))"
proof (cases "log_enabled (st_macro x) (sys_globals s)")
  case True
  then show ?thesis
    by (simp add: log_statement_calls_def log_statement_def dtor_calls)
      (auto simp: bindE_def split_beta split: sum.splits)
next
  case False
  then show ?thesis by (simp add: log_statement_calls_def log_statement_def sys_globals_def)
qed

section \<open>Specification\<close>

definition st_text :: "log_env \<Rightarrow> log_stmt \<Rightarrow> string" where
  "st_text env x = line_text (st_macro x) (st_env env x) (st_path x) (st_line x) (st_func x) (st_items x)"

definition stmt_ok :: "log_env \<Rightarrow> log_stmt \<Rightarrow> bool" where
  "stmt_ok env x \<longleftrightarrow> log_env_ok (st_env env x) \<and> length (st_mem x) = kSmallBuffer \<and> CHR 0x00 \<notin> set (st_func x)
     \<and> length (st_text env x) + 32 \<le> kSmallBuffer"

text \<open>The lines that a program logs: those of the enabled statements, up to the first fatal one.\<close>

fun program_lines :: "log_env \<Rightarrow> log_globals \<Rightarrow> log_stmt list \<Rightarrow> string list" where
  "program_lines env g [] = []"
| "program_lines env g (x # xs) =
     (if \<not> log_enabled (st_macro x) g then program_lines env g xs
      else if level_of (st_macro x) = FATAL then [st_text env x]
      else st_text env x # program_lines env g xs)"

definition program_aborts :: "log_stmt list \<Rightarrow> bool" where
  "program_aborts xs \<longleftrightarrow> (\<exists>x \<in> set xs. level_of (st_macro x) = FATAL)"

lemma fatal_enabled: "level_of m = FATAL \<Longrightarrow> log_enabled m g"
  by (cases m) simp_all

lemma thread_ok_env: "log_thread_ok (st_env env x) th \<longleftrightarrow> log_thread_ok env th"
  by (simp add: log_thread_ok_def st_env_def)

text \<open>One statement: the output function is called once, with the text of the line, and the flush function after it when the level is fatal.\<close>

lemma statement_output:
  assumes "stmt_ok env x" and "log_thread_ok env th"
  shows "\<exists>th'. log_thread_ok env th' \<and> log_statement_calls env x (th, s) =
    (if log_enabled (st_macro x) (sys_globals s)
     then bindE (g_output s (st_text env x) (sys_world s)) (\<lambda>w.
          bindE (if level_of (st_macro x) = FATAL then g_flush s w else Inr w) (\<lambda>w1.
            Inr (th', s\<lparr>sys_world := w1\<rparr>, level_of (st_macro x) = FATAL)))
     else Inr (th, s, False))"
proof (cases "log_enabled (st_macro x) (sys_globals s)")
  case True
  obtain th' where th': "log_thread_ok env th'"
    "log_statement (st_macro x) (st_env env x) (SourceFile_array (st_path x)) (st_line x) (st_func x) (st_mem x) (st_items x) (th, sys_globals s) =
      Inr (th', (sys_globals s)\<lparr>g_out := g_out (sys_globals s) @ [st_text env x],
             g_flushes := g_flushes (sys_globals s) + (if level_of (st_macro x) = FATAL then 1 else 0)\<rparr>, level_of (st_macro x) = FATAL)"
    using log_statement_text [OF _ _ _ _ _ True, of "st_env env x" th "st_mem x" "st_func x" "st_path x" "st_line x" "st_items x"] assms thread_ok_env
    by (auto simp: stmt_ok_def st_text_def)
  have "log_statement_calls env x (th, s) =
      bindE (foldE (g_output s) [st_text env x] (sys_world s)) (\<lambda>w.
      bindE (if level_of (st_macro x) = FATAL then g_flush s w else Inr w) (\<lambda>w1.
        Inr (th', s\<lparr>sys_world := w1\<rparr>, level_of (st_macro x) = FATAL)))"
    unfolding statement_calls th'(2) by (simp add: sys_globals_def)
  moreover have "foldE (g_output s) [st_text env x] (sys_world s) = g_output s (st_text env x) (sys_world s)"
    by (simp add: bindE_def split: sum.splits)
  ultimately show ?thesis using th'(1) True by auto
next
  case False
  then show ?thesis using assms(2) by (auto simp: log_statement_calls_def)
qed

text \<open>
  The contract of an output and a flush function: a line that a \<^verbatim>\<open>LogStream\<close> can hold is added to the text, as a whole and without failing. \<open>good\<close> is what
  holds of the world, \<open>said\<close> the text that is in it.
\<close>

locale log_output =
  fixes emit :: "string \<Rightarrow> 'w \<Rightarrow> 'w res" and flush :: "'w \<Rightarrow> 'w res" and good :: "'w \<Rightarrow> bool" and said :: "'w \<Rightarrow> string"
  assumes out_adds: "good w \<Longrightarrow> length line < kSmallBuffer \<Longrightarrow> \<exists>w'. emit line w = Inr w' \<and> good w' \<and> said w' = said w @ line"
    and flush_keeps: "good w \<Longrightarrow> \<exists>w'. flush w = Inr w' \<and> good w' \<and> said w' = said w"
begin

lemma program_output:
  assumes "\<forall>x \<in> set xs. stmt_ok env x"
  shows "log_thread_ok env th \<Longrightarrow> g_output s = emit \<Longrightarrow> g_flush s = flush \<Longrightarrow> good (sys_world s) \<Longrightarrow>
    \<exists>th' w'. log_program env xs (th, s) = Inr (th', s\<lparr>sys_world := w'\<rparr>, program_aborts xs) \<and> log_thread_ok env th' \<and> good w'
      \<and> said w' = said (sys_world s) @ concat (program_lines env (sys_globals s) xs)
      \<and> (program_aborts xs \<longrightarrow> (\<exists>w. good w \<and> said w = said w' \<and> flush w = Inr w'))"
  using assms
proof (induction xs arbitrary: th s)
  case Nil
  then show ?case by (auto simp: program_aborts_def intro!: exI [of _ "sys_world s"])
next
  case (Cons x xs)
  from statement_output [of env x th s] Cons.prems obtain th1 where th1: "log_thread_ok env th1"
    "log_statement_calls env x (th, s) =
      (if log_enabled (st_macro x) (sys_globals s)
       then bindE (emit (st_text env x) (sys_world s)) (\<lambda>w.
            bindE (if level_of (st_macro x) = FATAL then flush w else Inr w) (\<lambda>w1.
              Inr (th1, s\<lparr>sys_world := w1\<rparr>, level_of (st_macro x) = FATAL)))
       else Inr (th, s, False))" by auto
  show ?case
  proof (cases "log_enabled (st_macro x) (sys_globals s)")
    case False
    then have "level_of (st_macro x) \<noteq> FATAL" using fatal_enabled by blast
    with False th1(2) Cons show ?thesis by (simp add: program_aborts_def)
  next
    case True
    have "length (st_text env x) < kSmallBuffer" using Cons.prems(5) by (simp add: stmt_ok_def)
    then obtain w where w: "emit (st_text env x) (sys_world s) = Inr w" "good w" "said w = said (sys_world s) @ st_text env x"
      using out_adds [OF Cons.prems(4)] by blast
    obtain w1 where w1: "flush w = Inr w1" "good w1" "said w1 = said w" using flush_keeps [OF w(2)] by blast
    show ?thesis
    proof (cases "level_of (st_macro x) = FATAL")
      case True
      then show ?thesis using th1 w w1 \<open>log_enabled (st_macro x) (sys_globals s)\<close> 
        by (intro exI [of _ th1] exI [of _ w1]) (auto simp: program_aborts_def)
    next
      case False
      then show ?thesis using th1 w \<open>log_enabled (st_macro x) (sys_globals s)\<close> Cons.IH [OF th1(1), of "s\<lparr>sys_world := w\<rparr>"] Cons.prems
        by (auto simp: program_aborts_def sys_globals_def)
    qed
  qed
qed

end


section \<open>Standard output and the logging thread\<close>

text \<open>\<^verbatim>\<open>fwrite\<close> on a stream without errors takes all the bytes.\<close>

definition fwrite_all :: "('o \<Rightarrow> nat \<Rightarrow> nat \<times> 'o) \<Rightarrow> bool" where
  "fwrite_all fwrite \<longleftrightarrow> (\<forall>os n. fst (fwrite os n) = n)"

interpretation std: log_output "defaultOutput fwrite" defaultFlush "\<lambda>_. fwrite_all fwrite" so_text for fwrite :: "'o \<Rightarrow> nat \<Rightarrow> nat \<times> 'o"
proof unfold_locales
  fix w :: "'o c_stdout" and line :: string
  assume "fwrite_all fwrite"
  then have "fst (fwrite (so_os w) (length line)) = length line" by (simp add: fwrite_all_def)
  then show "\<exists>w'. defaultOutput fwrite line w = Inr w' \<and> fwrite_all fwrite \<and> so_text w' = so_text w @ line"
    using \<open>fwrite_all fwrite\<close> by (simp add: defaultOutput_def split_beta)
qed (simp add: defaultFlush_def)

text \<open>
  A program that has given \<^verbatim>\<open>AsyncLogging::append\<close> to \<^verbatim>\<open>setOutput\<close>: the world is the logging object and \<^verbatim>\<open>stdout\<close>, to which the flush function still belongs.
\<close>

definition async_output :: "char list \<Rightarrow> string \<Rightarrow> async_log \<times> 'o c_stdout \<Rightarrow> (async_log \<times> 'o c_stdout) res" where
  "async_output mem line = (\<lambda>(a, f). bindE (al_append mem line a) (\<lambda>a'. Inr (a', f)))"

definition async_flush :: "async_log \<times> 'o c_stdout \<Rightarrow> (async_log \<times> 'o c_stdout) res" where
  "async_flush = (\<lambda>(a, f). bindE (defaultFlush f) (\<lambda>f'. Inr (a, f')))"

definition async_good :: "char list \<Rightarrow> async_log \<times> 'o c_stdout \<Rightarrow> bool" where
  "async_good mem w \<longleftrightarrow> al_inv (length mem) (fst w) \<and> kSmallBuffer \<le> length mem"

lemma al_append_in: "al_append mem line s = Inr s' \<Longrightarrow> al_in s' = al_in s @ [line]"
  by (auto simp: al_append_def deref_def bindE_eq_Inr Let_def split: option.splits if_splits)

interpretation async: log_output "async_output mem" async_flush "async_good mem" "\<lambda>w. concat (al_in (fst w))" for mem
proof unfold_locales
  fix w :: "async_log \<times> 'o c_stdout" and line :: string
  assume "async_good mem w" and "length line < kSmallBuffer"
  then obtain a' where a': "al_append mem line (fst w) = Inr a'" "al_inv (length mem) a'"
    using al_append_inv [of "length mem" "fst w" mem line] by (auto simp: async_good_def)
  then show "\<exists>w'. async_output mem line w = Inr w' \<and> async_good mem w' \<and> concat (al_in (fst w')) = concat (al_in (fst w)) @ line"
    using \<open>async_good mem w\<close> al_append_in [OF a'(1)] by (simp add: async_output_def async_good_def split_beta)
next
  fix w :: "async_log \<times> 'o c_stdout"
  assume "async_good mem w"
  then show "\<exists>w'. async_flush w = Inr w' \<and> async_good mem w' \<and> concat (al_in (fst w')) = concat (al_in (fst w))"
    by (simp add: async_flush_def defaultFlush_def async_good_def split_beta)
qed

section \<open>Properties\<close>

text \<open>The conditions on a statement but for the length of the thread identifier.\<close>

definition stmt_fits :: "log_env \<Rightarrow> log_stmt \<Rightarrow> bool" where
  "stmt_fits env x \<longleftrightarrow> clock_ok (st_env env x) \<and> (\<forall>e. CHR 0x00 \<notin> set (le_strerror env e)) \<and> length (st_mem x) = kSmallBuffer
     \<and> CHR 0x00 \<notin> set (st_func x) \<and> length (st_text env x) + 32 \<le> kSmallBuffer"

lemma stmt_ok_fits: "stmt_ok env x \<longleftrightarrow> stmt_fits env x \<and> 0 < le_gettid env \<and> le_gettid env < 100000"
  by (auto simp: stmt_ok_def stmt_fits_def log_env_ok_def st_env_def)

lemma program_disabled:
  "\<forall>x \<in> set xs. \<not> log_enabled (st_macro x) (sys_globals s) \<Longrightarrow>
     log_program env xs (th, s) = Inr (th, s, False) \<and> program_lines env (sys_globals s) xs = [] \<and> \<not> program_aborts xs"
  using fatal_enabled by (induction xs) (fastforce simp: log_statement_calls_def program_aborts_def)+

lemma program_long_tid:
  assumes "100000 \<le> le_gettid env" and "t_cachedTid th = 0" and "log_thread_ok env th"
  shows "\<forall>x \<in> set xs. stmt_fits env x \<Longrightarrow> \<exists>x \<in> set xs. log_enabled (st_macro x) (sys_globals s) \<Longrightarrow> log_program env xs (th, s) = Inl AssertFailed"
proof (induction xs)
  case (Cons x xs)
  show ?case
  proof (cases "log_enabled (st_macro x) (sys_globals s)")
    case False
    then show ?thesis using Cons by (simp add: log_statement_calls_def)
  next
    case True
    have f: "clock_ok (st_env env x)" "length (st_mem x) = kSmallBuffer" using Cons.prems(1) by (simp_all add: stmt_fits_def)
    have "100000 \<le> le_gettid (st_env env x)" using assms(1) by (simp add: st_env_def)
    then have "log_statement_calls env x (th, s) = Inl AssertFailed"
      using log_tid_assert [OF f(1) _ f(2) assms(2) _ True, of "st_path x" "st_line x" "st_func x" "st_items x"] assms(3) thread_ok_env
      by (simp add: statement_calls)
    then show ?thesis by simp
  qed
qed simp

text \<open>
  C27. What a thread logs (the \<^verbatim>\<open>LOG_\<close> macros, \<^verbatim>\<open>Logger\<close>, \<^verbatim>\<open>Impl\<close>, \<^verbatim>\<open>defaultOutput\<close>, \<^verbatim>\<open>defaultFlush\<close>): for every sequence of statements whose lines fit in
  their streams of 4000 bytes with 32 to spare, later than the first second of 1970, and with \<^verbatim>\<open>fwrite\<close> taking what it is given. When the identifier of the thread has more than five digits and some statement
  is enabled, the first of those fails the assertion of \<^verbatim>\<open>cacheTid\<close>. Otherwise the standard output has grown by exactly the lines of the enabled statements, in order, each with the UTC time, the thread, the level, for system errors the text and number of the
  error, for the two lowest levels the function, the values, and file and line number. The first fatal statement is the last: after its line the output is flushed and the program aborted, and without a
  fatal one it is not. No assertion fails, and what the thread has cached of the time and its identifier stays right.
\<close>

theorem log_program_stdout:
  assumes "fwrite_all fwrite" and "log_thread_ok env th" and "\<forall>x \<in> set xs. stmt_fits env x" and "0 < le_gettid env"
    and "le_gettid env < 100000 \<or> t_cachedTid th = 0"
  shows "if 100000 \<le> le_gettid env \<and> (\<exists>x \<in> set xs. log_enabled (st_macro x) (sys_globals (log_sys_init fwrite getenv f)))
    then log_program env xs (th, log_sys_init fwrite getenv f) = Inl AssertFailed
    else \<exists>th' f'. log_program env xs (th, log_sys_init fwrite getenv f)
      = Inr (th', (log_sys_init fwrite getenv f)\<lparr>sys_world := f'\<rparr>, program_aborts xs) \<and> log_thread_ok env th'
      \<and> so_text f' = so_text f @ concat (program_lines env (sys_globals (log_sys_init fwrite getenv f)) xs)
      \<and> (program_aborts xs \<longrightarrow> so_flushed f' = length (so_text f'))"
proof -
  let ?s = "log_sys_init fwrite getenv f"
  have w: "sys_world ?s = f" by (simp add: log_sys_init_def)
  consider "100000 \<le> le_gettid env" "\<exists>x \<in> set xs. log_enabled (st_macro x) (sys_globals ?s)"
    | "100000 \<le> le_gettid env" "\<forall>x \<in> set xs. \<not> log_enabled (st_macro x) (sys_globals ?s)" | "le_gettid env < 100000" by fastforce
  then show ?thesis
  proof cases
    case 1
    then show ?thesis using program_long_tid [OF 1(1) _ assms(2,3)] assms(5) by auto
  next
    case 2
    have "?s\<lparr>sys_world := f\<rparr> = ?s" by (simp add: log_sys_init_def)
    then show ?thesis using 2 program_disabled [OF 2(2), of env th] assms(2) by (auto intro!: exI [of _ th] exI [of _ f])
  next
    case 3
    have x: "\<forall>x \<in> set xs. stmt_ok env x" using 3 assms(3,4) by (simp add: stmt_ok_fits)
    have "g_output ?s = defaultOutput fwrite" "g_flush ?s = defaultFlush" by (simp_all add: log_sys_init_def)
    from std.program_output [OF x assms(2) this] assms(1) obtain th' f' where
      "log_program env xs (th, ?s) = Inr (th', ?s\<lparr>sys_world := f'\<rparr>, program_aborts xs)" "log_thread_ok env th'"
      "so_text f' = so_text (sys_world ?s) @ concat (program_lines env (sys_globals ?s) xs)"
      "program_aborts xs \<longrightarrow> (\<exists>w. so_text w = so_text f' \<and> defaultFlush w = Inr f')" by blast
    moreover have "so_flushed f' = length (so_text f')" if "defaultFlush w = Inr f'" for w using that by (auto simp: defaultFlush_def)
    ultimately show ?thesis using w 3 by auto
  qed
qed

text \<open>
  The same with \<^verbatim>\<open>AsyncLogging::append\<close> as output function: the lines are appended to the logging object, from where \<open>async_log_files\<close> follows them to the files.
\<close>

theorem log_program_async:
  assumes "al_inv (length mem) a" and "kSmallBuffer \<le> length mem" and "log_thread_ok env th" and "\<forall>x \<in> set xs. stmt_ok env x"
    and sd: "s = setFlush async_flush (setOutput (async_output mem) \<lparr>sys_level = level, g_output = g, g_flush = h, sys_world = (a, f)\<rparr>)"
  shows "\<exists>th' a' f'. log_program env xs (th, s) = Inr (th', s\<lparr>sys_world := (a', f')\<rparr>, program_aborts xs)
    \<and> al_inv (length mem) a' \<and> concat (al_in a') = concat (al_in a) @ concat (program_lines env (sys_globals s) xs)"
proof -
  have s: "g_output s = async_output mem" "g_flush s = async_flush" "sys_world s = (a, f)" by (simp_all add: sd setOutput_def setFlush_def)
  have "async_good mem (sys_world s)" using assms(1,2) s(3) by (simp add: async_good_def)
  from async.program_output [OF assms(4,3) s(1,2) this] s(3) show ?thesis by (auto simp: async_good_def)
qed


section \<open>Example\<close>

definition demo_stmt :: "log_macro \<Rightarrow> log_stmt" where
  "demo_stmt m = \<lparr>st_macro = m, st_path = ''src/a.cc'', st_line = 7, st_func = ''f'', st_items = [LString ''hi''], st_now = 86400000007, st_errno = 4,
     st_mem = replicate 4000 CHR 0x00\<rparr>"

lemma demo_stmt_env: "st_env (log_demo_env 42) (demo_stmt m) = log_demo_env 42"
  by (simp add: st_env_def demo_stmt_def log_demo_env_def)

lemma demo_stmt_length:
  assumes "m = LOG_INFO \<or> m = LOG_FATAL"
  shows "length (st_text (log_demo_env 42) (demo_stmt m)) = 50"
proof -
  have "st_text (log_demo_env 42) (demo_stmt m) = line_text m (log_demo_env 42) ''src/a.cc'' 7 ''f'' [LString ''hi'']"
    unfolding st_text_def demo_stmt_env by (simp add: demo_stmt_def)
  moreover have "length (line_text LOG_FATAL env path line func items) = length (line_text LOG_INFO env path line func items)"
    for env path line func items by (simp add: line_text_def head_text_def errno_of_def func_text_def)
  ultimately show ?thesis using assms log_demo_length by auto
qed

lemma demo_stmt_ok:
  assumes "m = LOG_INFO \<or> m = LOG_FATAL"
  shows "stmt_ok (log_demo_env 42) (demo_stmt m)"
proof -
  have "log_env_ok (log_demo_env 42)" using log_demo_clock [of 42] by (simp add: log_env_ok_def log_demo_env_def)
  moreover have "length (st_mem (demo_stmt m)) = kSmallBuffer" by (simp only: demo_stmt_def log_stmt.simps kSmallBuffer_def length_replicate)
  moreover have "CHR 0x00 \<notin> set (st_func (demo_stmt m))" by (simp add: demo_stmt_def)
  ultimately show ?thesis using demo_stmt_length [OF assms] by (simp add: stmt_ok_def demo_stmt_env kSmallBuffer_def)
qed

theorem log_program_stdout_witness:
  "\<exists>th' f'. log_program (log_demo_env 42) [demo_stmt LOG_INFO, demo_stmt LOG_FATAL, demo_stmt LOG_INFO]
      (log_thread_new, log_sys_init (\<lambda>os n. (n, os)) (\<lambda>_. False) \<lparr>so_text = '''', so_flushed = 0, so_os = ()\<rparr>)
    = Inr (th', (log_sys_init (\<lambda>os n. (n, os)) (\<lambda>_. False) \<lparr>so_text = '''', so_flushed = 0, so_os = ()\<rparr>)\<lparr>sys_world := f'\<rparr>, True)
    \<and> length (so_text f') = 100 \<and> so_flushed f' = 100"
proof -
  let ?xs = "[demo_stmt LOG_INFO, demo_stmt LOG_FATAL, demo_stmt LOG_INFO]"
  let ?s = "log_sys_init (\<lambda>os n. (n, os)) (\<lambda>_. False) \<lparr>so_text = '''', so_flushed = 0, so_os = ()\<rparr>"
  have m: "st_macro (demo_stmt m) = m" for m by (simp add: demo_stmt_def)
  have a: "program_aborts ?xs" by (simp add: program_aborts_def m)
  have "g_logLevel (sys_globals ?s) = INFO" by (simp add: sys_globals_def log_sys_init_def initLogLevel_def)
  then have l: "program_lines (log_demo_env 42) (sys_globals ?s) ?xs
      = [st_text (log_demo_env 42) (demo_stmt LOG_INFO), st_text (log_demo_env 42) (demo_stmt LOG_FATAL)]" by (simp add: m)
  have n: "length (st_text (log_demo_env 42) (demo_stmt LOG_INFO)) = 50" "length (st_text (log_demo_env 42) (demo_stmt LOG_FATAL)) = 50"
    by (simp_all add: demo_stmt_length)
  have f: "fwrite_all (\<lambda>(os :: unit) n. (n, os))" by (simp add: fwrite_all_def)
  have x: "\<forall>x \<in> set ?xs. stmt_fits (log_demo_env 42) x" using demo_stmt_ok by (simp add: stmt_ok_fits)
  have t: "le_gettid (log_demo_env 42) = 42" by (simp add: log_demo_env_def)
  from log_program_stdout [OF f log_demo_thread x, of "\<lambda>_. False" "\<lparr>so_text = '''', so_flushed = 0, so_os = ()\<rparr>"]
  obtain th' f' where "log_program (log_demo_env 42) ?xs (log_thread_new, ?s) = Inr (th', ?s\<lparr>sys_world := f'\<rparr>, True)"
    "so_text f' = concat [st_text (log_demo_env 42) (demo_stmt LOG_INFO), st_text (log_demo_env 42) (demo_stmt LOG_FATAL)]"
    "so_flushed f' = length (so_text f')" unfolding l by (auto simp: a t)
  then show ?thesis using n by (intro exI [of _ th'] exI [of _ f']) simp
qed

end
