(* ===== verification/File_Util.thy ===== *)
theory File_Util
  imports String_Piece "HOL-Library.Sublist"
begin

text \<open>
  \<^verbatim>\<open>FileUtil::SmallFile\<close> and \<^verbatim>\<open>readFile\<close> of \<^verbatim>\<open>base/FileUtil.h\<close> and \<^verbatim>\<open>base/FileUtil.cc\<close>. The calls of the
  operating system are the record \<open>file_calls\<close>; its type argument is what the kernel keeps of an open
  file, so \<^verbatim>\<open>fd_ >= 0\<close> is \<open>smf_fd = Some k\<close>. A call gives \<open>Inl errno\<close> where the C function returns a
  negative number. An out parameter that may be \<^verbatim>\<open>NULL\<close> is an option: \<open>None\<close> is the null pointer, \<open>Some v\<close>
  the value it points to. \<open>reads_file\<close> states what \<^verbatim>\<open>read\<close> promises about a file of a given content, with
  short reads and failures allowed.
\<close>

section \<open>Definitions\<close>

datatype file_kind = RegFile | DirFile | OtherFile

record file_stat =
  st_kind :: file_kind
  st_size :: int
  st_mtime :: int
  st_ctime :: int

record 'k file_calls =
  fc_open :: "byte list \<Rightarrow> int + 'k"
  fc_fstat :: "'k \<Rightarrow> int + file_stat"
  fc_read :: "'k \<Rightarrow> nat \<Rightarrow> (int + string) \<times> 'k"
  fc_pread :: "'k \<Rightarrow> nat \<Rightarrow> nat \<Rightarrow> int + string"

record 'k small_file =
  smf_fd :: "'k option"
  smf_err :: int
  smf_buf :: string

record read_out =
  ro_content :: "string option"
  ro_fileSize :: "int option"
  ro_modifyTime :: "int option"
  ro_createTime :: "int option"

definition kBufferSize :: nat where
  "kBufferSize = 65536"

definition EISDIR :: int where
  "EISDIR = 21"

text \<open>\<open>junk\<close> is what the member array holds before the constructor body runs.\<close>

definition SmallFile_new :: "'k file_calls \<Rightarrow> string \<Rightarrow> string_piece \<Rightarrow> 'k small_file res" where
  "SmallFile_new os junk filename =
     bindE (strlen_at (sp_mem filename) (sp_off filename)) (\<lambda>n.
       Inr (case fc_open os (take n (drop (sp_off filename) (sp_mem filename))) of
              Inl errno \<Rightarrow> \<lparr>smf_fd = None, smf_err = errno, smf_buf = junk[0 := CHR 0x00]\<rparr>
            | Inr k \<Rightarrow> \<lparr>smf_fd = Some k, smf_err = 0, smf_buf = junk[0 := CHR 0x00]\<rparr>))"

text \<open>The files handed to \<^verbatim>\<open>close\<close>.\<close>

definition SmallFile_dtor :: "'k small_file \<Rightarrow> 'k list" where
  "SmallFile_dtor f = (case smf_fd f of Some k \<Rightarrow> [k] | None \<Rightarrow> [])"

definition str_reserve :: "int \<Rightarrow> 'a res \<Rightarrow> 'a res" where
  "str_reserve n k = (if vec_max < int_to_size n then Inl LengthError else k)"

definition stat_file :: "'k file_calls \<Rightarrow> 'k \<Rightarrow> int \<Rightarrow> int \<Rightarrow> read_out \<Rightarrow> (int \<times> read_out) res" where
  "stat_file os k maxSize err out =
     (case fc_fstat os k of
        Inl errno \<Rightarrow> Inr (errno, out)
      | Inr statbuf \<Rightarrow>
          (let times = (\<lambda>o1. o1\<lparr>ro_modifyTime := map_option (\<lambda>_. st_mtime statbuf) (ro_modifyTime o1),
                               ro_createTime := map_option (\<lambda>_. st_ctime statbuf) (ro_createTime o1)\<rparr>)
           in case st_kind statbuf of
                RegFile \<Rightarrow> str_reserve (to_int32 (int_to_size (min maxSize (st_size statbuf))))
                            (Inr (err, times (out\<lparr>ro_fileSize := Some (st_size statbuf)\<rparr>)))
              | DirFile \<Rightarrow> Inr (EISDIR, times out)
              | OtherFile \<Rightarrow> Inr (err, times out)))"

function read_loop ::
  "'k file_calls \<Rightarrow> nat \<Rightarrow> 'k \<Rightarrow> string \<Rightarrow> string \<Rightarrow> int \<Rightarrow> (int \<times> string \<times> string \<times> 'k) res" where
  "read_loop os maxSize k content buf err =
     (if length content < maxSize
      then (case fc_read os k (min (maxSize - length content) kBufferSize) of
              (Inl errno, k1) \<Rightarrow> Inr (errno, content, buf, k1)
            | (Inr got, k1) \<Rightarrow>
                if got = [] then Inr (err, content, buf, k1)
                else (case mem_write buf 0 got of
                        Inl e \<Rightarrow> Inl e
                      | Inr buf1 \<Rightarrow>
                          if vec_max < length content + length got then Inl LengthError
                          else read_loop os maxSize k1 (content @ take (length got) buf1) buf1 err))
      else Inr (err, content, buf, k))"
  by pat_completeness auto
termination
  by (relation "measure (\<lambda>(os, maxSize, k, content, buf, err). maxSize - length content)")
    (auto simp: mem_write_def neq_Nil_conv split: if_splits)

declare read_loop.simps [simp del]

definition readToString ::
  "'k file_calls \<Rightarrow> int \<Rightarrow> read_out \<Rightarrow> 'k small_file \<Rightarrow> (int \<times> read_out \<times> 'k small_file) res" where
  "readToString os maxSize out f =
     cassert (ro_content out \<noteq> None)
      (case smf_fd f of
         None \<Rightarrow> Inr (smf_err f, out, f)
       | Some k \<Rightarrow>
           bindE (if ro_fileSize out \<noteq> None then stat_file os k maxSize (smf_err f) (out\<lparr>ro_content := Some []\<rparr>)
                  else Inr (smf_err f, out\<lparr>ro_content := Some []\<rparr>)) (\<lambda>(err, out1).
           bindE (read_loop os (int_to_size maxSize) k [] (smf_buf f) err) (\<lambda>(err1, content, buf, k1).
             Inr (err1, out1\<lparr>ro_content := Some content\<rparr>, f\<lparr>smf_fd := Some k1, smf_buf := buf\<rparr>))))"

definition readToBuffer :: "'k file_calls \<Rightarrow> int option \<Rightarrow> 'k small_file \<Rightarrow> (int \<times> int option \<times> 'k small_file) res" where
  "readToBuffer os size0 f =
     (case smf_fd f of
        None \<Rightarrow> Inr (smf_err f, size0, f)
      | Some k \<Rightarrow>
          (case fc_pread os k (kBufferSize - 1) 0 of
             Inl errno \<Rightarrow> Inr (errno, size0, f)
           | Inr got \<Rightarrow>
               bindE (mem_write (smf_buf f) 0 got) (\<lambda>b1.
               bindE (mem_write b1 (length got) [CHR 0x00]) (\<lambda>b2.
                 Inr (smf_err f, map_option (\<lambda>_. to_int32 (length got)) size0, f\<lparr>smf_buf := b2\<rparr>)))))"

definition buffer_text :: "'k small_file \<Rightarrow> string" where
  "buffer_text f = takeWhile (\<lambda>c. c \<noteq> CHR 0x00) (smf_buf f)"

definition readFile ::
  "'k file_calls \<Rightarrow> string \<Rightarrow> string_piece \<Rightarrow> int \<Rightarrow> read_out \<Rightarrow> (int \<times> read_out) res" where
  "readFile os junk filename maxSize out =
     bindE (SmallFile_new os junk filename) (\<lambda>f.
     bindE (readToString os maxSize out f) (\<lambda>(err, out1, f1). Inr (err, out1)))"

section \<open>What the calls promise\<close>

text \<open>
  \<open>data\<close> is the content of the file and \<open>pos k\<close> the offset of the open file \<open>k\<close>: a successful \<^verbatim>\<open>read\<close> gives at
  most what was asked for, from the offset on, gives nothing only at the end, and a failing one sets a
  non-zero \<^verbatim>\<open>errno\<close>.
\<close>

definition reads_file :: "'k file_calls \<Rightarrow> ('k \<Rightarrow> nat) \<Rightarrow> string \<Rightarrow> bool" where
  "reads_file os pos data \<longleftrightarrow>
     (\<forall>k n. case fc_read os k n of
        (Inl errno, k1) \<Rightarrow> errno \<noteq> 0
      | (Inr got, k1) \<Rightarrow> length got \<le> n \<and> got = take (length got) (drop (pos k) data)
          \<and> pos k1 = pos k + length got \<and> (got = [] \<longrightarrow> 0 < n \<longrightarrow> length data \<le> pos k))"

definition never_fails :: "'k file_calls \<Rightarrow> bool" where
  "never_fails os \<longleftrightarrow> (\<forall>k n errno. fst (fc_read os k n) \<noteq> Inl errno)"

lemma reads_file_got:
  "reads_file os pos data \<Longrightarrow> fc_read os k n = (Inr got, k1) \<Longrightarrow>
     length got \<le> n \<and> got = take (length got) (drop (pos k) data) \<and> pos k1 = pos k + length got
       \<and> (got = [] \<longrightarrow> 0 < n \<longrightarrow> length data \<le> pos k)"
  unfolding reads_file_def by (drule spec [of _ k], drule spec [of _ n]) simp

lemma reads_file_errno: "reads_file os pos data \<Longrightarrow> fc_read os k n = (Inl errno, k1) \<Longrightarrow> errno \<noteq> 0"
  unfolding reads_file_def by (drule spec [of _ k], drule spec [of _ n]) simp

section \<open>The loop reads a prefix of the file\<close>

definition loop_good :: "'k file_calls \<Rightarrow> nat \<Rightarrow> int \<Rightarrow> string \<Rightarrow> (int \<times> string \<times> string \<times> 'k) res \<Rightarrow> bool" where
  "loop_good os maxSize err data r \<longleftrightarrow>
     (\<exists>e c b k. r = Inr (e, c, b, k) \<and> length b = kBufferSize \<and> prefix c (take maxSize data)
        \<and> (e = err \<and> c = take maxSize data \<or> e \<noteq> 0 \<and> \<not> never_fails os))"

lemma take_extend:
  assumes "got = take (length got) (drop n xs)"
  shows "take n xs @ got = take (n + length got) xs"
  using assms by (simp add: take_add)

lemma read_loop_good:
  assumes "reads_file os pos data" and "maxSize \<le> vec_max"
    and "length buf = kBufferSize" and "content = take (pos k) data" and "pos k \<le> length data" and "pos k \<le> maxSize"
  shows "loop_good os maxSize err data (read_loop os maxSize k content buf err)"
  using assms
proof (induction os maxSize k content buf err rule: read_loop.induct)
  case (1 os maxSize k content buf err)
  note law = "1.prems"(1)
  have len: "length content = pos k" using "1.prems" by simp
  show ?case
  proof (cases "length content < maxSize")
    case False
    with "1.prems" len have "content = take maxSize data" by simp
    with False "1.prems" show ?thesis
      by (subst read_loop.simps) (simp add: loop_good_def)
  next
    case more: True
    let ?n = "min (maxSize - length content) kBufferSize"
    obtain res k1 where rd: "fc_read os k ?n = (res, k1)" by force
    show ?thesis
    proof (cases res)
      case (Inl errno)
      with rd have "errno \<noteq> 0" "\<not> never_fails os"
        using reads_file_errno [OF law] by (auto simp: never_fails_def) (metis fst_conv)
      moreover have "prefix content (take maxSize data)"
        using "1.prems" by (metis take_is_prefix min.absorb1 take_take)
      ultimately show ?thesis using more rd Inl "1.prems"(3)
        by (subst read_loop.simps) (simp add: loop_good_def)
    next
      case (Inr got)
      have g: "length got \<le> ?n" "got = take (length got) (drop (pos k) data)" "pos k1 = pos k + length got"
        "got = [] \<Longrightarrow> length data \<le> pos k"
        using reads_file_got [OF law rd [unfolded Inr]] more by (auto simp: kBufferSize_def)
      show ?thesis
      proof (cases "got = []")
        case True
        with g(4) "1.prems" have "content = take maxSize data" by simp
        with True rd Inr more "1.prems"(3) show ?thesis
          by (subst read_loop.simps) (simp add: loop_good_def)
      next
        case False
        obtain b1 where b1: "mem_write buf 0 got = Inr b1" "take (length got) b1 = got" "length b1 = kBufferSize"
          using g(1) "1.prems"(3) by (auto simp: mem_write_def)
        have c1: "content @ got = take (pos k1) data"
          using take_extend [OF g(2)] "1.prems"(4) g(3) by simp
        have le: "pos k1 \<le> length data" "pos k1 \<le> maxSize" "length content + length got \<le> vec_max"
          using c1 len g(1,3) more "1.prems"(2)
          by (metis length_append length_take min.cobounded1) (use len g(1,3) more "1.prems"(2) in auto)
        have "loop_good os maxSize err data (read_loop os maxSize k1 (content @ take (length got) b1) b1 err)"
          using "1.IH" [OF more rd [symmetric] Inr False b1(1) _ law "1.prems"(2) b1(3)] le c1 b1(2)
          by simp
        then show ?thesis
          using more rd Inr False b1 le(3) by (subst read_loop.simps) simp
      qed
    qed
  qed
qed


section \<open>Reading a file\<close>

definition stat_sane :: "'k file_calls \<Rightarrow> bool" where
  "stat_sane os \<longleftrightarrow> (\<forall>k st. fc_fstat os k = Inr st \<longrightarrow> 0 \<le> st_size st)"

lemma to_int32_of_min: "0 \<le> m \<Longrightarrow> m < 2 ^ 31 \<Longrightarrow> 0 \<le> s \<Longrightarrow> to_int32 (int_to_size (min m s)) = min m s"
  by (simp add: int_to_size_nonneg min_def)

lemma str_reserve_ok: "0 \<le> n \<Longrightarrow> n < 2 ^ 31 \<Longrightarrow> str_reserve n k = k"
  by (auto simp: str_reserve_def int_to_size_nonneg vec_max_def)

lemma stat_reserve:
  "stat_sane os \<Longrightarrow> fc_fstat os k = Inr st \<Longrightarrow> 0 \<le> maxSize \<Longrightarrow> maxSize < 2 ^ 31 \<Longrightarrow>
     str_reserve (to_int32 (int_to_size (min maxSize (st_size st)))) r = r"
  by (subst to_int32_of_min) (auto simp: stat_sane_def intro!: str_reserve_ok)

lemma stat_file_ok:
  assumes "stat_sane os" and "0 \<le> maxSize" and "maxSize < 2 ^ 31" and "ro_content out = Some []"
  shows "\<exists>err1 out1. stat_file os k maxSize err out = Inr (err1, out1) \<and> ro_content out1 = Some []"
  using assms
  by (auto simp: stat_file_def Let_def stat_reserve [OF assms(1) _ assms(2,3)] split: sum.splits file_kind.splits)

lemma read_loop_file:
  assumes "reads_file os pos data" and "pos k = 0" and "length buf = kBufferSize" and "0 \<le> maxSize" and "maxSize < 2 ^ 31"
  shows "loop_good os (nat maxSize) err data (read_loop os (int_to_size maxSize) k [] buf err)"
proof -
  have "nat maxSize \<le> vec_max" using assms(4,5) by (simp add: vec_max_def)
  then show ?thesis
    using read_loop_good [OF assms(1), of "nat maxSize" buf "[]" k err] assms int_to_size_nonneg [OF assms(4,5)]
    by simp
qed

lemma readToString_file:
  assumes "reads_file os pos data" and "ro_fileSize out = None \<or> stat_sane os" and "smf_fd f = Some k" and "pos k = 0"
    and "length (smf_buf f) = kBufferSize" and "0 \<le> maxSize" and "maxSize < 2 ^ 31" and "ro_content out \<noteq> None"
  shows "\<exists>err out1 f1 c. readToString os maxSize out f = Inr (err, out1, f1) \<and> ro_content out1 = Some c
    \<and> prefix c (take (nat maxSize) data) \<and> (err = 0 \<longrightarrow> c = take (nat maxSize) data)
    \<and> (never_fails os \<longrightarrow> c = take (nat maxSize) data \<and> (ro_fileSize out = None \<longrightarrow> err = smf_err f))"
proof -
  let ?out = "out\<lparr>ro_content := Some []\<rparr>"
  obtain e0 o1 where s: "(if ro_fileSize out \<noteq> None then stat_file os k maxSize (smf_err f) ?out
      else Inr (smf_err f, ?out)) = Inr (e0, o1)"
    using stat_file_ok [OF _ assms(6,7), of os ?out k "smf_err f"] assms(2) by (cases "ro_fileSize out") auto
  obtain e c b k1 where r: "read_loop os (int_to_size maxSize) k [] (smf_buf f) e0 = Inr (e, c, b, k1)"
    and p: "prefix c (take (nat maxSize) data)"
    and d: "e = e0 \<and> c = take (nat maxSize) data \<or> e \<noteq> 0 \<and> \<not> never_fails os"
    using read_loop_file [OF assms(1,4,5,6,7), of e0] by (auto simp: loop_good_def)
  have "readToString os maxSize out f
      = Inr (e, o1\<lparr>ro_content := Some c\<rparr>, f\<lparr>smf_fd := Some k1, smf_buf := b\<rparr>)"
    using assms(3,8) s r by (simp add: readToString_def)
  moreover have "ro_fileSize out = None \<Longrightarrow> e0 = smf_err f" using s by simp
  ultimately show ?thesis using p d by auto
qed


lemma readFile_file:
  assumes "reads_file os pos data" and "ro_fileSize out = None \<or> stat_sane os"
    and "strlen_at (sp_mem name) (sp_off name) = Inr n" and "fc_open os (take n (drop (sp_off name) (sp_mem name))) = Inr k"
    and "pos k = 0" and "length junk = kBufferSize" and "0 \<le> maxSize" and "maxSize < 2 ^ 31" and "ro_content out \<noteq> None"
  shows "\<exists>err out1 c. readFile os junk name maxSize out = Inr (err, out1) \<and> ro_content out1 = Some c
    \<and> prefix c (take (nat maxSize) data) \<and> (err = 0 \<longrightarrow> c = take (nat maxSize) data)
    \<and> (never_fails os \<longrightarrow> c = take (nat maxSize) data \<and> (ro_fileSize out = None \<longrightarrow> err = 0))"
proof -
  let ?f = "\<lparr>smf_fd = Some k, smf_err = 0, smf_buf = junk[0 := CHR 0x00]\<rparr>"
  have "SmallFile_new os junk name = Inr ?f"
    using assms(3,4) by (simp add: SmallFile_new_def)
  then show ?thesis
    using readToString_file [OF assms(1,2), of ?f k maxSize] assms(5-9) by (fastforce simp: readFile_def)
qed

text \<open>
  C26. Reading a file returns its content. When the file opens, \<^verbatim>\<open>readFile\<close> comes back whatever the sizes
  of the short reads are and wherever a read fails: the string holds a prefix of the file of at most \<^verbatim>\<open>maxSize\<close>
  bytes, and it is the whole of the first \<^verbatim>\<open>maxSize\<close> bytes when the returned \<^verbatim>\<open>errno\<close> is 0 and when no read fails;
  with no \<^verbatim>\<open>fstat\<close> asked for and no failing read the result is 0. No write leaves the 64 KB member buffer.
\<close>

theorem readFile_content:
  assumes "reads_file os pos data" and "ro_fileSize out = None \<or> stat_sane os"
    and "strlen_at (sp_mem name) (sp_off name) = Inr n" and "fc_open os (take n (drop (sp_off name) (sp_mem name))) = Inr k"
    and "pos k = 0" and "length junk = kBufferSize" and "0 \<le> maxSize" and "maxSize < 2 ^ 31" and "ro_content out \<noteq> None"
  shows "\<exists>err out1 c. readFile os junk name maxSize out = Inr (err, out1) \<and> ro_content out1 = Some c
    \<and> prefix c (take (nat maxSize) data) \<and> (err = 0 \<longrightarrow> c = take (nat maxSize) data)
    \<and> (never_fails os \<longrightarrow> c = take (nat maxSize) data \<and> (ro_fileSize out = None \<longrightarrow> err = 0))"
  using assms by (rule readFile_file)

text \<open>A file served in reads of at most three bytes.\<close>

definition short_calls :: "string \<Rightarrow> nat file_calls" where
  "short_calls data =
     \<lparr>fc_open = (\<lambda>_. Inr 0),
      fc_fstat = (\<lambda>_. Inr \<lparr>st_kind = RegFile, st_size = int (length data), st_mtime = 0, st_ctime = 0\<rparr>),
      fc_read = (\<lambda>k n. let got = take (min 3 n) (drop k data) in (Inr got, k + length got)),
      fc_pread = (\<lambda>k n i. Inr (take n (drop i data)))\<rparr>"

lemma short_calls_reads: "reads_file (short_calls data) id data"
  by (simp add: reads_file_def short_calls_def Let_def min_def)

lemma short_calls_sane: "stat_sane (short_calls data)"
  by (simp add: stat_sane_def short_calls_def)

lemma short_calls_never_fails: "never_fails (short_calls data)"
  by (simp add: never_fails_def short_calls_def Let_def)

theorem readFile_content_witness:
  "\<exists>err out1. readFile (short_calls ''hello, world'') (replicate 65536 CHR ''x'')
       \<lparr>sp_mem = [0x2F, 0x66, 0], sp_off = 0, sp_length = 2\<rparr> 8
       \<lparr>ro_content = Some ''old'', ro_fileSize = None, ro_modifyTime = None, ro_createTime = None\<rparr>
     = Inr (err, out1) \<and> err = 0 \<and> ro_content out1 = Some ''hello, w''"
  using readFile_content [of "short_calls ''hello, world''" id "''hello, world''" "\<lparr>ro_content = Some ''old'', ro_fileSize = None, ro_modifyTime = None, ro_createTime = None\<rparr>"
        "\<lparr>sp_mem = [0x2F, 0x66, 0], sp_off = 0, sp_length = 2\<rparr>" 2 0 "replicate 65536 CHR ''x''" 8]
    short_calls_reads [of "''hello, world''"] short_calls_sane [of "''hello, world''"]
    short_calls_never_fails [of "''hello, world''"]
  by (auto simp: strlen_at_def kBufferSize_def short_calls_def)

text \<open>A file that does not open leaves the string as it was, and the result is the \<^verbatim>\<open>errno\<close> of \<^verbatim>\<open>open\<close>.\<close>

lemma readFile_unopened:
  "strlen_at (sp_mem name) (sp_off name) = Inr n \<Longrightarrow> fc_open os (take n (drop (sp_off name) (sp_mem name))) = Inl errno \<Longrightarrow>
     ro_content out \<noteq> None \<Longrightarrow> readFile os junk name maxSize out = Inr (errno, out)"
  by (auto simp: readFile_def SmallFile_new_def readToString_def)

text \<open>A negative limit with a file size asked for is an enormous reservation.\<close>

lemma int_to_size_neg:
  assumes "- (2 ^ 31) \<le> i" and "i < 0"
  shows "int_to_size i = nat (i + 2 ^ 64)"
proof -
  have "i mod 2 ^ 64 = (i + 2 ^ 64) mod 2 ^ 64" by simp
  also have "\<dots> = i + 2 ^ 64" using assms by (intro mod_pos_pos_trivial) auto
  finally show ?thesis by (simp add: int_to_size_def SIZE_MOD_def)
qed

lemma to_int32_int_to_size:
  assumes "- (2 ^ 31) \<le> i" and "i < 0"
  shows "to_int32 (int_to_size i) = i"
proof -
  have "(2 ^ 64 :: 32 word) = 0" by simp
  then have "(of_nat (int_to_size i) :: 32 word) = of_int i"
    using assms by (simp add: int_to_size_neg of_nat_nat)
  then show ?thesis
    using assms by (simp add: to_int32_def signed_of_int signed_take_bit_int_eq_self)
qed

lemma readToString_negative:
  assumes "smf_fd f = Some k" and "ro_content out \<noteq> None" and "ro_fileSize out \<noteq> None"
    and "fc_fstat os k = Inr st" and "st_kind st = RegFile" and "0 \<le> st_size st" and "maxSize < 0" and "- (2 ^ 31) \<le> maxSize"
  shows "readToString os maxSize out f = Inl LengthError"
proof -
  have "min maxSize (st_size st) = maxSize" using assms(6,7) by simp
  then have "to_int32 (int_to_size (min maxSize (st_size st))) = maxSize"
    using to_int32_int_to_size [OF assms(8,7)] by simp
  moreover have "vec_max < int_to_size maxSize"
    using assms(7,8) by (simp add: int_to_size_neg vec_max_def)
  ultimately show ?thesis
    using assms(1-5) by (auto simp: readToString_def stat_file_def str_reserve_def Let_def)
qed

section \<open>Reading into the member buffer\<close>

lemma takeWhile_terminated:
  "takeWhile (\<lambda>c. c \<noteq> z) (xs @ z # ys) = takeWhile (\<lambda>c. c \<noteq> z) xs"
  by (induction xs) auto

lemma readToBuffer_text:
  assumes "smf_fd f = Some k" and "fc_pread os k (kBufferSize - 1) 0 = Inr got" and "length got \<le> kBufferSize - 1"
    and "length (smf_buf f) = kBufferSize"
  shows "\<exists>f1. readToBuffer os size0 f = Inr (smf_err f, map_option (\<lambda>_. int (length got)) size0, f1)
    \<and> length (smf_buf f1) = kBufferSize \<and> take (length got) (smf_buf f1) = got
    \<and> buffer_text f1 = takeWhile (\<lambda>c. c \<noteq> CHR 0x00) got \<and> smf_fd f1 = smf_fd f"
proof -
  let ?b1 = "got @ drop (length got) (smf_buf f)" and ?b2 = "got @ CHR 0x00 # drop (length got + 1) (smf_buf f)"
  have lt: "length got < length (smf_buf f)" using assms(3,4) by (simp add: kBufferSize_def)
  have w1: "mem_write (smf_buf f) 0 got = Inr ?b1" using lt by (simp add: mem_write_def)
  have w2: "mem_write ?b1 (length got) [CHR 0x00] = Inr ?b2" using lt by (simp add: mem_write_def)
  have "to_int32 (length got) = int (length got)" using assms(3) by (simp add: kBufferSize_def)
  then have "readToBuffer os size0 f = Inr (smf_err f, map_option (\<lambda>_. int (length got)) size0, f\<lparr>smf_buf := ?b2\<rparr>)"
    using assms(1,2) w1 w2 by (simp add: readToBuffer_def)
  then show ?thesis
    using lt assms(4) by (simp add: buffer_text_def takeWhile_terminated)
qed


end
