(* ===== verification/Process_Info.thy ===== *)
theory Process_Info
  imports File_Util "HOL-Library.Multiset"
begin

text \<open>
  \<^verbatim>\<open>ProcessInfo\<close> of \<^verbatim>\<open>base/ProcessInfo.h\<close> and \<^verbatim>\<open>base/ProcessInfo.cc\<close>. The calls of the operating system are
  the record \<open>proc_calls\<close>, over the file calls of \<^verbatim>\<open>FileUtil\<close>; the two thread-local variables that the filters
  of \<^verbatim>\<open>scandir\<close> write are the record \<open>proc_state\<close>. \<^verbatim>\<open>atoi\<close> is \<^verbatim>\<open>(int)strtol(s, NULL, 10)\<close>.
\<close>

section \<open>The library functions\<close>

definition isdigit :: "char \<Rightarrow> bool" where
  "isdigit c \<longleftrightarrow> (48 :: nat) \<le> of_char c \<and> (of_char c :: nat) \<le> 57"

definition isspace :: "char \<Rightarrow> bool" where
  "isspace c \<longleftrightarrow> (of_char c :: nat) = 32 \<or> (9 \<le> (of_char c :: nat) \<and> (of_char c :: nat) \<le> 13)"

definition atoi :: "string \<Rightarrow> int" where
  "atoi s =
     (let s1 = dropWhile isspace s;
          neg = (s1 \<noteq> [] \<and> hd s1 = CHR ''-'');
          s2 = (if neg \<or> s1 \<noteq> [] \<and> hd s1 = CHR ''+'' then tl s1 else s1);
          v = int (dec_value (takeWhile isdigit s2));
          l = (if neg then max (- (2 ^ 63)) (- v) else min (2 ^ 63 - 1) v)
      in sint (word_of_int l :: 32 word))"

fun find_str :: "string \<Rightarrow> string \<Rightarrow> nat option" where
  "find_str pat s =
     (if take (length pat) s = pat then Some 0
      else case s of [] \<Rightarrow> None | c # r \<Rightarrow> map_option Suc (find_str pat r))"

declare find_str.simps [simp del]

definition substr :: "string \<Rightarrow> nat \<Rightarrow> nat \<Rightarrow> string" where
  "substr s start len = take len (drop start s)"

section \<open>State and calls\<close>

record proc_state =
  t_numOpenedFiles :: int
  t_pids :: "int list option"

record 'k proc_calls =
  pc_files :: "'k file_calls"
  pc_getpid :: int
  pc_getuid :: int
  pc_geteuid :: int
  pc_getpwuid :: "int \<Rightarrow> string option"
  pc_gethostname :: "string \<Rightarrow> string"
  pc_readlink :: "string \<Rightarrow> nat \<Rightarrow> int + string"
  pc_scandir :: "string \<Rightarrow> int + string list"
  pc_getrlimit :: "int + nat"

definition d_name_digit :: "string \<Rightarrow> bool" where
  "d_name_digit d \<longleftrightarrow> d \<noteq> [] \<and> isdigit (hd d)"

definition fdDirFilter :: "string \<Rightarrow> proc_state \<Rightarrow> (int \<times> proc_state) res" where
  "fdDirFilter d st =
     Inr (0, if d_name_digit d then st\<lparr>t_numOpenedFiles := t_numOpenedFiles st + 1\<rparr> else st)"

definition taskDirFilter :: "string \<Rightarrow> proc_state \<Rightarrow> (int \<times> proc_state) res" where
  "taskDirFilter d st =
     (if d_name_digit d
      then (case t_pids st of None \<Rightarrow> Inl NullDeref | Some ps \<Rightarrow> Inr (0, st\<lparr>t_pids := Some (ps @ [atoi d])\<rparr>))
      else Inr (0, st))"

text \<open>
  \<^verbatim>\<open>scandir\<close> hands every entry to the filter and allocates a list for the entries it selects; with none
  selected, and when the directory does not open, \<^verbatim>\<open>namelist\<close> stays null.
\<close>

definition scan_step ::
  "(string \<Rightarrow> proc_state \<Rightarrow> (int \<times> proc_state) res) \<Rightarrow> string \<Rightarrow> string list \<times> proc_state \<Rightarrow> (string list \<times> proc_state) res" where
  "scan_step filter_fn d s =
     bindE (filter_fn d (snd s)) (\<lambda>(r, st1). Inr (if r \<noteq> 0 then fst s @ [d] else fst s, st1))"

definition scanDir ::
  "'k proc_calls \<Rightarrow> string \<Rightarrow> (string \<Rightarrow> proc_state \<Rightarrow> (int \<times> proc_state) res) \<Rightarrow> proc_state \<Rightarrow> (int \<times> proc_state) res" where
  "scanDir os dirpath filter_fn st =
     (case pc_scandir os dirpath of
        Inl errno \<Rightarrow> Inr (- 1, st)
      | Inr names \<Rightarrow>
          bindE (foldE (scan_step filter_fn) names ([], st)) (\<lambda>(namelist, st1).
            cassert (namelist = []) (Inr (int (length namelist), st1))))"

section \<open>Operations\<close>

definition pi_pid :: "'k proc_calls \<Rightarrow> int" where
  "pi_pid os = pc_getpid os"

definition pidString :: "'k proc_calls \<Rightarrow> string" where
  "pidString os = take 31 (dec_int (pi_pid os))"

definition pi_uid :: "'k proc_calls \<Rightarrow> int" where
  "pi_uid os = pc_getuid os"

definition username :: "'k proc_calls \<Rightarrow> string" where
  "username os = (case pc_getpwuid os (pi_uid os) of Some name \<Rightarrow> name | None \<Rightarrow> ''unknownuser'')"

definition pi_euid :: "'k proc_calls \<Rightarrow> int" where
  "pi_euid os = pc_geteuid os"

text \<open>The array that \<^verbatim>\<open>gethostname\<close> fills; the result is read from it as a C string.\<close>

definition host_buf :: string where
  "host_buf = (''unknownhost'' @ replicate 53 CHR 0x00)[63 := CHR 0x00]"

definition hostname :: "'k proc_calls \<Rightarrow> string res" where
  "hostname os =
     (let buf = pc_gethostname os host_buf
      in if CHR 0x00 \<in> set buf then Inr (takeWhile (\<lambda>c. c \<noteq> CHR 0x00) buf) else Inl OutOfBounds)"

definition read_proc :: "'k proc_calls \<Rightarrow> string \<Rightarrow> string \<Rightarrow> string res" where
  "read_proc os junk path =
     bindE (StringPiece_cstr (map of_char path @ [0]) 0) (\<lambda>name.
     bindE (readFile (pc_files os) junk name 65536
              \<lparr>ro_content = Some [], ro_fileSize = None, ro_modifyTime = None, ro_createTime = None\<rparr>) (\<lambda>(err, out).
       Inr (case ro_content out of Some c \<Rightarrow> c | None \<Rightarrow> [])))"

definition procStatus :: "'k proc_calls \<Rightarrow> string \<Rightarrow> string res" where
  "procStatus os junk = read_proc os junk ''/proc/self/status''"

definition procStat :: "'k proc_calls \<Rightarrow> string \<Rightarrow> string res" where
  "procStat os junk = read_proc os junk ''/proc/self/stat''"

definition stat_name :: "string \<Rightarrow> string" where
  "stat_name stat =
     (case (find_str ''('' stat, find_str '')'' stat) of
        (Some lp, Some rp) \<Rightarrow> substr stat (lp + 1) (sz_sub (sz_sub rp lp) 1)
      | _ \<Rightarrow> [])"

definition procname :: "'k proc_calls \<Rightarrow> string \<Rightarrow> string res" where
  "procname os junk = bindE (procStat os junk) (\<lambda>stat. Inr (stat_name stat))"

definition exePath :: "'k proc_calls \<Rightarrow> string" where
  "exePath os =
     (case pc_readlink os ''/proc/self/exe'' 1024 of Inl errno \<Rightarrow> [] | Inr buf \<Rightarrow> buf)"

definition openedFiles :: "'k proc_calls \<Rightarrow> proc_state \<Rightarrow> (int \<times> proc_state) res" where
  "openedFiles os st =
     bindE (scanDir os ''/proc/self/fd'' fdDirFilter (st\<lparr>t_numOpenedFiles := 0\<rparr>)) (\<lambda>(r, st1).
       Inr (t_numOpenedFiles st1, st1))"

definition maxOpenFiles :: "'k proc_calls \<Rightarrow> proc_state \<Rightarrow> (int \<times> proc_state) res" where
  "maxOpenFiles os st =
     (case pc_getrlimit os of Inl errno \<Rightarrow> openedFiles os st | Inr rlim_cur \<Rightarrow> Inr (to_int32 rlim_cur, st))"

definition status_threads :: "string \<Rightarrow> int" where
  "status_threads status =
     (case find_str ''Threads:'' status of None \<Rightarrow> 0 | Some pos \<Rightarrow> atoi (drop (pos + 8) status))"

definition numThreads :: "'k proc_calls \<Rightarrow> string \<Rightarrow> int res" where
  "numThreads os junk = bindE (procStatus os junk) (\<lambda>status. Inr (status_threads status))"

definition pi_threads :: "'k proc_calls \<Rightarrow> proc_state \<Rightarrow> (int list \<times> proc_state) res" where
  "pi_threads os st =
     bindE (scanDir os ''/proc/self/task'' taskDirFilter (st\<lparr>t_pids := Some []\<rparr>)) (\<lambda>(r, st1).
       case t_pids st1 of
         None \<Rightarrow> Inl NullDeref
       | Some result \<Rightarrow> Inr (sort result, st1\<lparr>t_pids := None\<rparr>))"

section \<open>Numbers in text\<close>

lemma digit_char_isdigit [simp]: "d < 10 \<Longrightarrow> isdigit (digit_char d)"
  by (simp add: isdigit_def of_char_digit)

lemma dec_nat_isdigit: "\<forall>c \<in> set (dec_nat n). isdigit c"
  using dec_nat_digits by fastforce

lemma dec_nat_nonempty: "dec_nat n \<noteq> []"
  by (subst dec_nat.simps) simp

lemma hd_dec_nat: "isdigit (hd (dec_nat n))"
  using dec_nat_isdigit dec_nat_nonempty hd_in_set by blast

lemma isdigit_not_space [simp]: "isdigit c \<Longrightarrow> \<not> isspace c"
  by (auto simp: isdigit_def isspace_def)

lemma isdigit_not_sign: "isdigit c \<Longrightarrow> c \<noteq> CHR ''-'' \<and> c \<noteq> CHR ''+''"
  by (auto simp: isdigit_def)

lemma sint_word_of_int_31: "0 \<le> v \<Longrightarrow> v < 2 ^ 31 \<Longrightarrow> sint (word_of_int v :: 32 word) = v"
  by (simp add: signed_of_int signed_take_bit_int_eq_self)

text \<open>\<^verbatim>\<open>atoi\<close> reads back what \<^verbatim>\<open>printf\<close> wrote, behind white space and in front of anything but a digit.\<close>

lemma atoi_dec_nat:
  assumes "\<forall>c \<in> set sp. isspace c" and "rest = [] \<or> \<not> isdigit (hd rest)" and "n < 2 ^ 31"
  shows "atoi (sp @ dec_nat n @ rest) = int n"
proof -
  have "\<not> isspace (hd (dec_nat n))" using hd_dec_nat by simp
  then have d: "dropWhile isspace (sp @ dec_nat n @ rest) = dec_nat n @ rest"
    using assms(1) dec_nat_nonempty [of n]
    by (metis append_is_Nil_conv dropWhile_append2 dropWhile_eq_self_iff hd_append2)
  have t: "takeWhile isdigit (dec_nat n @ rest) = dec_nat n"
    using dec_nat_isdigit assms(2) by (cases rest) (auto simp: takeWhile_append2)
  have h: "hd (dec_nat n @ rest) \<noteq> CHR ''-'' \<and> hd (dec_nat n @ rest) \<noteq> CHR ''+''"
    using isdigit_not_sign [OF hd_dec_nat] dec_nat_nonempty [of n] by (simp add: hd_append2)
  have "min (2 ^ 63 - 1) (int n) = int n" using assms(3) by simp
  then show ?thesis
    unfolding atoi_def d Let_def using h t sint_word_of_int_31 [of "int n"] assms(3) by simp
qed

section \<open>Scanning a directory\<close>

lemma scan_task:
  "t_pids st = Some ps \<Longrightarrow> foldE (scan_step taskDirFilter) names (nl, st)
     = Inr (nl, st\<lparr>t_pids := Some (ps @ map atoi (filter d_name_digit names))\<rparr>)"
proof (induction names arbitrary: st ps)
  case (Cons d names)
  show ?case
  proof (cases "d_name_digit d")
    case True
    then show ?thesis
      using Cons.IH [of "st\<lparr>t_pids := Some (ps @ [atoi d])\<rparr>" "ps @ [atoi d]"] Cons.prems
      by (simp add: scan_step_def taskDirFilter_def)
  next
    case False
    then show ?thesis
      using Cons.IH [OF Cons.prems] by (simp add: scan_step_def taskDirFilter_def)
  qed
qed simp

lemma scan_fd:
  "foldE (scan_step fdDirFilter) names (nl, st)
     = Inr (nl, st\<lparr>t_numOpenedFiles := t_numOpenedFiles st + int (length (filter d_name_digit names))\<rparr>)"
proof (induction names arbitrary: st)
  case (Cons d names)
  then show ?case
    by (simp add: scan_step_def fdDirFilter_def)
qed simp

lemma atoi_pids: "\<forall>n \<in> set ps. n < 2 ^ 31 \<Longrightarrow> map atoi (map dec_nat ps) = map int ps"
  using atoi_dec_nat [of "[]" "[]"] by (induction ps) auto

text \<open>
  \<^verbatim>\<open>ProcessInfo::threads\<close> returns the thread identifiers in ascending order. \<^verbatim>\<open>/proc/self/task\<close> is listed in
  any order, together with names that are not numbers: the result is the sorted list of the numbers, each as often as it is listed, the
  assertion of \<^verbatim>\<open>scanDir\<close> holds and the thread-local pointer is null again; \<^verbatim>\<open>openedFiles\<close> returns how many names of \<^verbatim>\<open>/proc/self/fd\<close>
  are numbers, whatever the counter was before.
\<close>

theorem process_lists:
  assumes "pc_scandir os ''/proc/self/task'' = Inr tasks" and "filter d_name_digit tasks = map dec_nat ps" and "\<forall>n \<in> set ps. n < 2 ^ 31"
    and "pc_scandir os ''/proc/self/fd'' = Inr fds"
  shows "(\<exists>pids st1. pi_threads os st = Inr (pids, st1) \<and> sorted pids \<and> mset pids = mset (map int ps) \<and> t_pids st1 = None)
    \<and> (\<exists>st1. openedFiles os st = Inr (int (length (filter d_name_digit fds)), st1))"
proof -
  have "scanDir os ''/proc/self/task'' taskDirFilter (st\<lparr>t_pids := Some []\<rparr>)
      = Inr (0, st\<lparr>t_pids := Some (map int ps)\<rparr>)"
    using scan_task [of "st\<lparr>t_pids := Some []\<rparr>" "[]" tasks "[]"] assms(1-3) atoi_pids [OF assms(3)]
    by (simp add: scanDir_def)
  then have t: "pi_threads os st = Inr (sort (map int ps), st\<lparr>t_pids := None\<rparr>)"
    by (simp add: pi_threads_def)
  have o: "openedFiles os st = Inr (int (length (filter d_name_digit fds)),
      st\<lparr>t_numOpenedFiles := int (length (filter d_name_digit fds))\<rparr>)"
    using assms(4) by (simp add: openedFiles_def scanDir_def scan_fd)
  show ?thesis using t o by (auto intro!: exI [of _ "sort (map int ps)"])
qed

lemma openedFiles_no_dir:
  "pc_scandir os ''/proc/self/fd'' = Inl errno \<Longrightarrow> openedFiles os st = Inr (0, st\<lparr>t_numOpenedFiles := 0\<rparr>)"
  by (simp add: openedFiles_def scanDir_def)

definition demo_calls :: "string \<Rightarrow> nat proc_calls" where
  "demo_calls body =
     \<lparr>pc_files = short_calls body, pc_getpid = 7, pc_getuid = 0, pc_geteuid = 0, pc_getpwuid = (\<lambda>_. Some ''root''),
      pc_gethostname = (\<lambda>b. ''box'' @ drop 3 b), pc_readlink = (\<lambda>_ _. Inr ''/bin/x''),
      pc_scandir = (\<lambda>_. Inr [''.'', ''..'', ''12'', ''7'']), pc_getrlimit = Inr 1024\<rparr>"

lemma dec_nat_12_7: "dec_nat 12 = ''12''" "dec_nat 7 = ''7''"
  by code_simp+

theorem process_lists_witness:
  "\<exists>pids st1. pi_threads (demo_calls []) \<lparr>t_numOpenedFiles = 5, t_pids = None\<rparr> = Inr (pids, st1)
     \<and> sorted pids \<and> mset pids = {#7, 12#}"
proof -
  have "filter d_name_digit [''.'', ''..'', ''12'', ''7''] = map dec_nat [12, 7]"
    by (simp add: d_name_digit_def isdigit_def dec_nat_12_7)
  then show ?thesis
    using process_lists [of "demo_calls []" "[''.'', ''..'', ''12'', ''7'']" "[12, 7]"
        "[''.'', ''..'', ''12'', ''7'']" "\<lparr>t_numOpenedFiles = 5, t_pids = None\<rparr>"]
    by (auto simp: demo_calls_def add_mset_commute)
qed


section \<open>The files of /proc\<close>

lemma of_char_byte_zero: "(of_char c :: byte) = 0 \<longleftrightarrow> c = CHR 0x00"
proof -
  have lt: "(of_char c :: nat) < 256"
    by (metis mod_less_divisor of_char_mod_256 zero_less_numeral)
  have "(of_char c :: byte) = of_nat (of_char c)" by (simp only: of_nat_of_char)
  also have "\<dots> = 0 \<longleftrightarrow> (of_char c :: nat) = 0"
    using lt nat_dvd_not_less [of "of_char c" 256] by (auto simp: word_of_nat_eq_0_iff)
  also have "\<dots> \<longleftrightarrow> (of_char c :: nat) = of_char (CHR 0x00)" by simp
  also have "\<dots> \<longleftrightarrow> c = CHR 0x00" by (rule of_char_eq_iff)
  finally show ?thesis .
qed

lemma takeWhile_upto: "c \<notin> set xs \<Longrightarrow> takeWhile (\<lambda>d. d \<noteq> c) (xs @ c # ys) = xs"
  by (induction xs) auto

lemma strlen_literal: "CHR 0x00 \<notin> set path \<Longrightarrow> strlen_at (map of_char path @ [0]) 0 = Inr (length path)"
proof -
  assume "CHR 0x00 \<notin> set path"
  then have "takeWhile (\<lambda>b. b \<noteq> (0 :: byte)) (map of_char path @ [0]) = map of_char path"
    by (subst takeWhile_append2) (auto simp: of_char_byte_zero)
  then show ?thesis by (simp add: strlen_at_def)
qed

lemma read_proc_content:
  assumes "reads_file (pc_files os) pos data" and "never_fails (pc_files os)" and "fc_open (pc_files os) (map of_char path) = Inr k"
    and "pos k = 0" and "length junk = kBufferSize" and "length data \<le> 65536" and "CHR 0x00 \<notin> set path"
  shows "read_proc os junk path = Inr data"
proof -
  let ?name = "\<lparr>sp_mem = map of_char path @ [0], sp_off = 0, sp_length = to_int32 (length path)\<rparr>"
  let ?out = "\<lparr>ro_content = Some [], ro_fileSize = None, ro_modifyTime = None, ro_createTime = None\<rparr> :: read_out"
  have n: "StringPiece_cstr (map of_char path @ [0]) 0 = Inr ?name"
    using strlen_literal [OF assms(7)] by (simp add: StringPiece_cstr_def)
  obtain err out1 where "readFile (pc_files os) junk ?name 65536 ?out = Inr (err, out1)" "ro_content out1 = Some data"
    using readFile_file [OF assms(1), of ?out ?name "length path" k junk 65536] strlen_literal [OF assms(7)] assms(2-6)
    by auto
  then show ?thesis by (simp add: read_proc_def n)
qed

lemma find_str_char:
  "find_str [c] s = (if c \<in> set s then Some (length (takeWhile (\<lambda>d. d \<noteq> c) s)) else None)"
  by (induction s) (subst find_str.simps, auto)+

text \<open>The name of the process as the kernel prints it: a number, then the name in parentheses.\<close>

lemma stat_name_comm:
  assumes "CHR ''('' \<notin> set pre" and "CHR '')'' \<notin> set pre" and "CHR '')'' \<notin> set name" and "length pre + length name + 2 < SIZE_MOD"
  shows "stat_name (pre @ ''('' @ name @ '')'' @ rest) = name"
proof -
  let ?s = "pre @ ''('' @ name @ '')'' @ rest"
  have lp: "find_str ''('' ?s = Some (length pre)"
    using takeWhile_upto [OF assms(1)] by (simp add: find_str_char)
  have "takeWhile (\<lambda>d. d \<noteq> CHR '')'') ?s = pre @ ''('' @ name"
    using takeWhile_upto [of "CHR '')''" "pre @ ''('' @ name"] assms(2,3) by simp
  then have rp: "find_str '')'' ?s = Some (length pre + 1 + length name)"
    by (simp add: find_str_char)
  have "sz_sub (sz_sub (length pre + 1 + length name) (length pre)) 1 = length name"
    using assms(4) by (simp add: sz_sub_exact)
  moreover have "substr ?s (length pre + 1) (length name) = name" by (simp add: substr_def)
  ultimately show ?thesis by (simp only: stat_name_def lp rp prod.case option.case)
qed

text \<open>A name with a closing parenthesis in it is cut at its first one.\<close>

lemma stat_name_cut:
  assumes "CHR ''('' \<notin> set pre" and "CHR '')'' \<notin> set pre" and "CHR '')'' \<notin> set n1" and "length pre + length n1 + 2 < SIZE_MOD"
  shows "stat_name (pre @ ''('' @ (n1 @ '')'' @ n2) @ '')'' @ rest) = n1"
  using stat_name_comm [OF assms, of "n2 @ '')'' @ rest"] by simp

lemma stat_name_first:
  assumes "CHR ''('' \<notin> set pre" and "CHR '')'' \<notin> set pre" and "length pre + length name + 2 < SIZE_MOD"
  shows "stat_name (pre @ ''('' @ name @ '')'' @ rest) = takeWhile (\<lambda>c. c \<noteq> CHR '')'') name"
proof (cases "CHR '')'' \<in> set name")
  case False
  then have t: "takeWhile (\<lambda>c. c \<noteq> CHR '')'') name = name" by (auto simp: takeWhile_eq_all_conv)
  show ?thesis unfolding t by (rule stat_name_comm [OF assms(1,2) False assms(3)])
next
  case True
  then obtain n1 n2 where n: "name = n1 @ '')'' @ n2" "CHR '')'' \<notin> set n1" using split_list_first by force
  then show ?thesis using stat_name_cut [OF assms(1,2) n(2), of n2 rest] takeWhile_upto [OF n(2), of n2] assms(3) by simp
qed

lemma status_threads_value:
  assumes "find_str ''Threads:'' (pre @ ''Threads:'' @ sp @ dec_nat n @ rest) = Some (length pre)"
    and "\<forall>c \<in> set sp. isspace c" and "rest = [] \<or> \<not> isdigit (hd rest)" and "n < 2 ^ 31"
  shows "status_threads (pre @ ''Threads:'' @ sp @ dec_nat n @ rest) = int n"
proof -
  have "drop (length pre + 8) (pre @ ''Threads:'' @ sp @ dec_nat n @ rest) = sp @ dec_nat n @ rest" by simp
  then show ?thesis
    using atoi_dec_nat [OF assms(2-4)] by (simp only: status_threads_def assms(1) option.case)
qed

text \<open>
  C36. \<^verbatim>\<open>numThreads\<close> and \<^verbatim>\<open>procname\<close>, whatever the process is called. When \<^verbatim>\<open>/proc/self/status\<close> is any text up to its first \<^verbatim>\<open>Threads:\<close>, then
  white space and the decimal number \<open>n\<close>, \<^verbatim>\<open>numThreads\<close> returns \<open>n\<close>; when \<^verbatim>\<open>/proc/self/stat\<close> is a prefix without parentheses
  and the name in parentheses, \<^verbatim>\<open>procname\<close> returns the name up to the first closing parenthesis in it: all of the name exactly when it has none. Both hold for files of at most 64 KB,
  however the reads are cut, when no read fails.
\<close>

theorem proc_files_reported:
  assumes "reads_file (pc_files os) pos status" and "never_fails (pc_files os)"
    and "fc_open (pc_files os) (map of_char ''/proc/self/status'') = Inr k" and "pos k = 0"
    and "status = pre @ ''Threads:'' @ sp @ dec_nat n @ rest" and "find_str ''Threads:'' status = Some (length pre)"
    and "\<forall>c \<in> set sp. isspace c" and "rest = [] \<or> \<not> isdigit (hd rest)" and "n < 2 ^ 31" and "length status \<le> 65536"
    and "reads_file (pc_files os') pos' stat" and "never_fails (pc_files os')"
    and "fc_open (pc_files os') (map of_char ''/proc/self/stat'') = Inr k'" and "pos' k' = 0"
    and "stat = num @ ''('' @ name @ '')'' @ tail" and "CHR ''('' \<notin> set num" and "CHR '')'' \<notin> set num"
    and "length stat \<le> 65536" and "length junk = kBufferSize"
  shows "numThreads os junk = Inr (int n) \<and> procname os' junk = Inr (takeWhile (\<lambda>c. c \<noteq> CHR '')'') name)"
proof
  have "procStatus os junk = Inr status"
    unfolding procStatus_def by (rule read_proc_content [OF assms(1-4,19,10)]) simp
  then show "numThreads os junk = Inr (int n)"
    using status_threads_value [of pre sp n rest] assms(5-9) by (simp add: numThreads_def)
  have "procStat os' junk = Inr stat"
    unfolding procStat_def by (rule read_proc_content [OF assms(11-14,19,18)]) simp
  moreover have "stat_name stat = takeWhile (\<lambda>c. c \<noteq> CHR '')'') name"
    using stat_name_first [OF assms(16,17), of name tail] assms(15,18) by (simp add: SIZE_MOD_def)
  ultimately show "procname os' junk = Inr (takeWhile (\<lambda>c. c \<noteq> CHR '')'') name)"
    by (simp add: procname_def)
qed

lemma demo_calls_files:
  "reads_file (pc_files (demo_calls body)) id body" "never_fails (pc_files (demo_calls body))"
  "fc_open (pc_files (demo_calls body)) path = Inr 0"
  using short_calls_reads [of body] short_calls_never_fails [of body] by (simp_all add: demo_calls_def short_calls_def)

theorem proc_files_reported_witness:
  "numThreads (demo_calls ''Name: x Threads: 12 a'') (replicate 65536 CHR ''x'') = Inr 12
     \<and> procname (demo_calls ''7 (my(p)rog) S 1'') (replicate 65536 CHR ''x'') = Inr ''my(p''"
proof -
  have f: "find_str ''Threads:'' ''Name: x Threads: 12 a'' = Some (length ''Name: x '')"
    by code_simp
  have s: "''Name: x Threads: 12 a'' = ''Name: x '' @ ''Threads:'' @ '' '' @ dec_nat 12 @ '' a''"
    by (simp add: dec_nat_12_7)
  have "numThreads (demo_calls ''Name: x Threads: 12 a'') (replicate 65536 CHR ''x'') = Inr (int 12)
     \<and> procname (demo_calls ''7 (my(p)rog) S 1'') (replicate 65536 CHR ''x'') = Inr (takeWhile (\<lambda>c. c \<noteq> CHR '')'') ''my(p)rog'')"
    by (rule proc_files_reported [OF demo_calls_files _ s f _ _ _ _ demo_calls_files, of _ "''7 ''" _ "'' S 1''"])
      (simp_all add: isspace_def isdigit_def kBufferSize_def)
  then show ?thesis by simp
qed

section \<open>The name of the host\<close>

text \<open>
  What the C library's \<^verbatim>\<open>gethostname\<close> writes into an array of 64 bytes: the name with its zero byte when both fit,
  else the first 64 bytes of the name and no zero byte.
\<close>

definition host_copy :: "string \<Rightarrow> string \<Rightarrow> string" where
  "host_copy name buf = (let src = name @ [CHR 0x00] in take 64 (take (length src) src @ drop (length src) buf))"

lemma hostname_name:
  assumes "pc_gethostname os = host_copy name" and "length name < 64" and "CHR 0x00 \<notin> set name"
  shows "hostname os = Inr name"
proof -
  have b: "host_copy name host_buf = name @ CHR 0x00 # take (63 - length name) (drop (length name + 1) host_buf)"
    using assms(2) by (simp add: host_copy_def Let_def numeral_eq_Suc Suc_diff_le take_Cons')
  have "takeWhile (\<lambda>c. c \<noteq> CHR 0x00) (host_copy name host_buf) = name"
    unfolding b by (rule takeWhile_upto [OF assms(3)])
  then show ?thesis
    using assms(1) by (simp add: hostname_def b)
qed

lemma hostname_unterminated:
  "pc_gethostname os = host_copy name \<Longrightarrow> 64 \<le> length name \<Longrightarrow> CHR 0x00 \<notin> set name \<Longrightarrow> hostname os = Inl OutOfBounds"
  by (auto simp: hostname_def host_copy_def Let_def dest: in_set_takeD)

lemma hostname_unknown: "pc_gethostname os = (\<lambda>b. b) \<Longrightarrow> hostname os = Inr ''unknownhost''"
proof -
  have b: "host_buf = ''unknownhost'' @ CHR 0x00 # replicate 52 CHR 0x00" by code_simp
  assume "pc_gethostname os = (\<lambda>b. b)"
  then show ?thesis
    using takeWhile_upto [of "CHR 0x00" "''unknownhost''" "replicate 52 CHR 0x00"] by (simp add: hostname_def b)
qed

text \<open>No limit on the number of files is \<^verbatim>\<open>RLIM_INFINITY\<close>, which \<^verbatim>\<open>maxOpenFiles\<close> returns as -1.\<close>

lemma maxOpenFiles_infinity: "pc_getrlimit os = Inr (2 ^ 64 - 1) \<Longrightarrow> maxOpenFiles os st = Inr (- 1, st)"
  by (simp add: maxOpenFiles_def to_int32_def)

lemma maxOpenFiles_limit: "pc_getrlimit os = Inr n \<Longrightarrow> n < 2 ^ 31 \<Longrightarrow> maxOpenFiles os st = Inr (int n, st)"
  by (simp add: maxOpenFiles_def)


end
