(* ===== verification/Mutex_Lock.thy ===== *)
theory Mutex_Lock
  imports Cobra_Prelude
begin

text \<open>
  \<^verbatim>\<open>MutexLock\<close>, \<^verbatim>\<open>MutexLockGuard\<close> (\<^verbatim>\<open>base/Mutex.h\<close>) and \<^verbatim>\<open>Condition\<close> (\<^verbatim>\<open>base/Condition.h\<close>, \<^verbatim>\<open>base/Condition.cc\<close>): a pthread mutex with the
  identifier of the thread that holds it, which \<^verbatim>\<open>assertLocked\<close> reads. \<open>owner\<close> is what pthread knows, \<open>holder\<close> the
  member \<^verbatim>\<open>holder_\<close>. Every access to either is a step of its own, so all interleavings of the threads are there. A
  thread is identified by its \<^verbatim>\<open>tid()\<close>, a positive number. The calls of pthread give 0, their answer for a mutex that is used rightly.
\<close>

section \<open>State and operations\<close>

text \<open>Where a thread is: outside; behind \<^verbatim>\<open>pthread_mutex_lock\<close>; with the lock; in \<^verbatim>\<open>unlock\<close> before \<^verbatim>\<open>pthread_mutex_unlock\<close>; in \<^verbatim>\<open>wait\<close> before \<^verbatim>\<open>pthread_cond_wait\<close>,
  waiting, notified, and before the end of the guard in \<^verbatim>\<open>wait\<close>.\<close>

datatype mutex_pc = Outside | Acquired | Holding | Releasing | ToWait | CondWait | Notified | Returning

record mutex_sys =
  owner :: "int option"
  holder :: int
  mx_pc :: "int \<Rightarrow> mutex_pc"

definition MutexLock_new :: mutex_sys where
  "MutexLock_new = \<lparr>owner = None, holder = 0, mx_pc = (\<lambda>_. Outside)\<rparr>"

definition MutexLock_dtor :: "mutex_sys \<Rightarrow> mutex_sys res" where
  "MutexLock_dtor s = cassert (holder s = 0) (Inr s)"

definition isLockedByThisThread :: "int \<Rightarrow> mutex_sys \<Rightarrow> bool" where
  "isLockedByThisThread t s \<longleftrightarrow> holder s = t"

definition assertLocked :: "int \<Rightarrow> mutex_sys \<Rightarrow> mutex_sys res" where
  "assertLocked t s = cassert (isLockedByThisThread t s) (Inr s)"

definition unassignHolder :: "mutex_sys \<Rightarrow> mutex_sys" where "unassignHolder s = s\<lparr>holder := 0\<rparr>"
definition assignHolder :: "int \<Rightarrow> mutex_sys \<Rightarrow> mutex_sys" where "assignHolder t s = s\<lparr>holder := t\<rparr>"

definition at_pc :: "int \<Rightarrow> mutex_pc \<Rightarrow> mutex_sys \<Rightarrow> mutex_sys" where
  "at_pc t pc s = s\<lparr>mx_pc := (mx_pc s)(t := pc)\<rparr>"

text \<open>\<^verbatim>\<open>lock\<close> and \<^verbatim>\<open>unlock\<close>, which are the guard's constructor and destructor: two pieces each.\<close>

definition lock_acquire :: "int \<Rightarrow> mutex_sys \<Rightarrow> mutex_sys" where "lock_acquire t s = at_pc t Acquired (s\<lparr>owner := Some t\<rparr>)"
definition lock_assign :: "int \<Rightarrow> mutex_sys \<Rightarrow> mutex_sys" where "lock_assign t s = at_pc t Holding (assignHolder t s)"
definition unlock_unassign :: "int \<Rightarrow> mutex_sys \<Rightarrow> mutex_sys" where "unlock_unassign t s = at_pc t Releasing (unassignHolder s)"
definition unlock_release :: "int \<Rightarrow> mutex_sys \<Rightarrow> mutex_sys" where "unlock_release t s = at_pc t Outside (s\<lparr>owner := None\<rparr>)"

text \<open>\<^verbatim>\<open>Condition::wait\<close> and \<^verbatim>\<open>waitForSeconds\<close>: the constructor of \<^verbatim>\<open>UnassignGuard\<close>, the release by \<^verbatim>\<open>pthread_cond_wait\<close>, its return with the mutex, and
  the destructor of the guard.\<close>

definition wait_unassign :: "int \<Rightarrow> mutex_sys \<Rightarrow> mutex_sys" where "wait_unassign t s = at_pc t ToWait (unassignHolder s)"
definition wait_release :: "int \<Rightarrow> mutex_sys \<Rightarrow> mutex_sys" where "wait_release t s = at_pc t CondWait (s\<lparr>owner := None\<rparr>)"
definition wait_return :: "int \<Rightarrow> mutex_sys \<Rightarrow> mutex_sys" where "wait_return t s = at_pc t Returning (s\<lparr>owner := Some t\<rparr>)"
definition wait_assign :: "int \<Rightarrow> mutex_sys \<Rightarrow> mutex_sys" where "wait_assign t s = at_pc t Holding (assignHolder t s)"

text \<open>The time of \<^verbatim>\<open>waitForSeconds\<close>: \<open>clock\<close> is what \<^verbatim>\<open>clock_gettime\<close> gave, in seconds and nanoseconds; \<open>timedwait\<close> is \<^verbatim>\<open>pthread_cond_timedwait\<close>.\<close>

definition ETIMEDOUT :: int where "ETIMEDOUT = 110"

definition waitForSeconds :: "(int \<times> int \<Rightarrow> 'k \<Rightarrow> int \<times> 'k) \<Rightarrow> int \<times> int \<Rightarrow> int \<Rightarrow> 'k \<Rightarrow> bool \<times> 'k" where
  "waitForSeconds timedwait clock seconds k =
     (let abstime = (fst clock + seconds, snd clock); (r, k1) = timedwait abstime k in (r = ETIMEDOUT, k1))"

text \<open>When it reports a time-out, the clock has gone on by the seconds asked for; \<open>time_of\<close> reads the clock.\<close>

definition reached :: "int \<times> int \<Rightarrow> int \<times> int \<Rightarrow> bool" where
  "reached abstime t \<longleftrightarrow> fst abstime < fst t \<or> fst abstime = fst t \<and> snd abstime \<le> snd t"

lemma waitForSeconds_timeout:
  assumes "\<And>abstime k. fst (timedwait abstime k) = ETIMEDOUT \<Longrightarrow> reached abstime (time_of (snd (timedwait abstime k)))" and "waitForSeconds timedwait (time_of k) seconds k = (True, k1)"
  shows "fst (time_of k) + seconds \<le> fst (time_of k1)"
  using assms(1) [of "(fst (time_of k) + seconds, snd (time_of k))" k] assms(2)
  by (auto simp: waitForSeconds_def Let_def case_prod_unfold reached_def)

text \<open>\<^verbatim>\<open>notify\<close> wakes the thread that pthread chooses, \<^verbatim>\<open>notifyAll\<close> all of them.\<close>

definition cond_notify :: "int \<Rightarrow> mutex_sys \<Rightarrow> mutex_sys" where "cond_notify t s = at_pc t Notified s"
definition cond_notifyAll :: "mutex_sys \<Rightarrow> mutex_sys" where
  "cond_notifyAll s = s\<lparr>mx_pc := (\<lambda>t. if mx_pc s t = CondWait then Notified else mx_pc s t)\<rparr>"

text \<open>The mutex of pthread: it is given when it is free. A wait can also end by itself, or when its time is over.\<close>

inductive mx_step :: "mutex_sys \<Rightarrow> mutex_sys \<Rightarrow> bool" where
  acquire: "0 < t \<Longrightarrow> mx_pc s t = Outside \<Longrightarrow> owner s = None \<Longrightarrow> mx_step s (lock_acquire t s)"
| assign: "mx_pc s t = Acquired \<Longrightarrow> mx_step s (lock_assign t s)"
| unassign: "mx_pc s t = Holding \<Longrightarrow> mx_step s (unlock_unassign t s)"
| release: "mx_pc s t = Releasing \<Longrightarrow> mx_step s (unlock_release t s)"
| to_wait: "mx_pc s t = Holding \<Longrightarrow> mx_step s (wait_unassign t s)"
| waiting: "mx_pc s t = ToWait \<Longrightarrow> mx_step s (wait_release t s)"
| notify_one: "mx_pc s t = CondWait \<Longrightarrow> mx_step s (cond_notify t s)"
| notify_all: "mx_step s (cond_notifyAll s)"
| return: "mx_pc s t = Notified \<Longrightarrow> owner s = None \<Longrightarrow> mx_step s (wait_return t s)"
| return_assign: "mx_pc s t = Returning \<Longrightarrow> mx_step s (wait_assign t s)"

inductive_cases mx_stepE: "mx_step s s'"

section \<open>Invariant\<close>

definition has_mutex :: "mutex_pc \<Rightarrow> bool" where
  "has_mutex pc \<longleftrightarrow> pc \<notin> {Outside, CondWait, Notified}"

definition mx_inv :: "mutex_sys \<Rightarrow> bool" where
  "mx_inv s \<longleftrightarrow> (\<forall>t. has_mutex (mx_pc s t) \<longleftrightarrow> owner s = Some t)
     \<and> holder s = (case owner s of None \<Rightarrow> 0 | Some t \<Rightarrow> if mx_pc s t = Holding then t else 0)
     \<and> (\<forall>t. mx_pc s t \<noteq> Outside \<longrightarrow> 0 < t)"

lemmas mx_defs = lock_acquire_def lock_assign_def unlock_unassign_def unlock_release_def wait_unassign_def wait_release_def wait_return_def
  wait_assign_def cond_notify_def cond_notifyAll_def at_pc_def unassignHolder_def assignHolder_def

lemma mx_owner: "mx_inv s \<Longrightarrow> has_mutex (mx_pc s t) \<Longrightarrow> owner s = Some t"
  by (simp add: mx_inv_def)

text \<open>A thread with the mutex changes \<open>holder\<close> and \<open>owner\<close>; the others only move.\<close>

lemma mx_inv_owner_step:
  assumes inv: "mx_inv s" and t: "has_mutex (mx_pc s t)" and pc: "mx_pc s' = (mx_pc s)(t := pc)"
    and "owner s' = (if has_mutex pc then Some t else None)" and "holder s' = (if pc = Holding then t else 0)"
  shows "mx_inv s'"
  using assms mx_owner [OF inv t] by (auto simp: mx_inv_def has_mutex_def)

lemma mx_inv_free_step:
  assumes "mx_inv s" and "owner s = None" and "0 < t" and "pc \<in> {Acquired, Returning}"
  shows "mx_inv (at_pc t pc (s\<lparr>owner := Some t\<rparr>))"
  using assms by (auto simp: mx_inv_def at_pc_def has_mutex_def)

lemma mx_state:
  assumes "mx_inv s" and "has_mutex (mx_pc s t)"
  shows "owner s = Some t \<and> holder s = (if mx_pc s t = Holding then t else 0)"
  using assms mx_owner [OF assms] by (simp add: mx_inv_def)

lemma mx_inv_step: "mx_step s s' \<Longrightarrow> mx_inv s \<Longrightarrow> mx_inv s'"
proof (induction rule: mx_step.induct)
  case (acquire t s)
  then show ?case using mx_inv_free_step by (simp add: lock_acquire_def)
next
  case (return s t)
  then show ?case using mx_inv_free_step [of s t Returning] by (simp add: wait_return_def mx_inv_def)
next
  case (notify_all s)
  then show ?case by (auto simp: mx_inv_def cond_notifyAll_def has_mutex_def split: option.splits)
next
  case (notify_one s t)
  then show ?case by (auto simp: mx_inv_def cond_notify_def at_pc_def has_mutex_def split: option.splits)
next
  case (assign s t)
  then show ?case using mx_state [of s t] by - (rule mx_inv_owner_step [of s t _ Holding], auto simp: mx_defs has_mutex_def)
next
  case (unassign s t)
  then show ?case using mx_state [of s t] by - (rule mx_inv_owner_step [of s t _ Releasing], auto simp: mx_defs has_mutex_def)
next
  case (release s t)
  then show ?case using mx_state [of s t] by - (rule mx_inv_owner_step [of s t _ Outside], auto simp: mx_defs has_mutex_def)
next
  case (to_wait s t)
  then show ?case using mx_state [of s t] by - (rule mx_inv_owner_step [of s t _ ToWait], auto simp: mx_defs has_mutex_def)
next
  case (waiting s t)
  then show ?case using mx_state [of s t] by - (rule mx_inv_owner_step [of s t _ CondWait], auto simp: mx_defs has_mutex_def)
next
  case (return_assign s t)
  then show ?case using mx_state [of s t] by - (rule mx_inv_owner_step [of s t _ Holding], auto simp: mx_defs has_mutex_def)
qed

lemma mx_reach_inv: "mx_step\<^sup>*\<^sup>* MutexLock_new s \<Longrightarrow> mx_inv s"
proof (induction rule: rtranclp_induct)
  case base
  show ?case by (simp add: mx_inv_def MutexLock_new_def has_mutex_def)
qed (rule mx_inv_step)

section \<open>Properties\<close>

text \<open>
  C20. \<^verbatim>\<open>MutexLock\<close> and \<^verbatim>\<open>Condition\<close> over every interleaving of any threads: at most one thread is inside a critical section, and
  \<^verbatim>\<open>isLockedByThisThread\<close> is true for a thread exactly while it is inside one, also around a wait, in which the lock is given up and taken again; so \<^verbatim>\<open>assertLocked\<close> holds in a
  critical section and fails anywhere else, and the assertion of the destructor holds when no thread has the mutex.
\<close>

theorem mutex_holder:
  assumes "mx_step\<^sup>*\<^sup>* MutexLock_new s" and "0 < t"
  shows "(isLockedByThisThread t s \<longleftrightarrow> mx_pc s t = Holding)
    \<and> (\<forall>u. mx_pc s t = Holding \<and> mx_pc s u = Holding \<longrightarrow> u = t)
    \<and> assertLocked t s = (if mx_pc s t = Holding then Inr s else Inl AssertFailed)
    \<and> (owner s = None \<longrightarrow> MutexLock_dtor s = Inr s)"
proof -
  have inv: "mx_inv s" by (rule mx_reach_inv [OF assms(1)])
  have own: "owner s = Some u" if "mx_pc s u = Holding" for u using mx_owner [OF inv, of u] that by (simp add: has_mutex_def)
  have "holder s = t \<longleftrightarrow> mx_pc s t = Holding"
    using inv own [of t] assms(2) by (auto simp: mx_inv_def split: option.splits if_splits)
  moreover have "holder s = 0" if "owner s = None" using inv that by (simp add: mx_inv_def)
  moreover have "u = t" if "mx_pc s t = Holding" "mx_pc s u = Holding" for u using own [OF that(1)] own [OF that(2)] by simp
  ultimately show ?thesis by (auto simp: isLockedByThisThread_def assertLocked_def MutexLock_dtor_def)
qed

definition mx_demo :: mutex_sys where "mx_demo = lock_assign 7 (lock_acquire 7 MutexLock_new)"

theorem mutex_holder_witness: "isLockedByThisThread 7 mx_demo \<and> assertLocked 7 mx_demo = Inr mx_demo"
proof -
  have s1: "mx_step MutexLock_new (lock_acquire 7 MutexLock_new)" by (rule mx_step.acquire) (simp_all add: MutexLock_new_def)
  have s2: "mx_step (lock_acquire 7 MutexLock_new) mx_demo" unfolding mx_demo_def by (rule mx_step.assign) (simp add: mx_defs)
  have r: "mx_step\<^sup>*\<^sup>* MutexLock_new mx_demo"
    by (rule converse_rtranclp_into_rtranclp [of mx_step, OF s1 r_into_rtranclp [of mx_step, OF s2]])
  have "mx_pc mx_demo 7 = Holding" by (simp add: mx_demo_def mx_defs)
  moreover have "(0 :: int) < 7" by simp
  ultimately show ?thesis using mutex_holder [OF r] by presburger
qed

end
