(* ===== verification/Monitors.thy ===== *)
theory Monitors
  imports Cobra_Prelude "HOL-Library.Multiset"
begin

text \<open>
  The classes that block on condition variables: \<^verbatim>\<open>CountDownLatch\<close> (\<^verbatim>\<open>base/CountDownLatch.h\<close>, \<^verbatim>\<open>base/CountDownLatch.cc\<close>), \<^verbatim>\<open>BlockingQueue\<close>
  (\<^verbatim>\<open>base/BlockingQueue.h\<close>) and \<^verbatim>\<open>BoundedBlockingQueue\<close> (\<^verbatim>\<open>base/BoundedBlockingQueue.h\<close>).

  A method holds the mutex from its first line to its end, except in \<^verbatim>\<open>wait\<close>, so it is cut at the test of its \<^verbatim>\<open>while\<close> loop: one
  piece tests the condition and either waits or does the rest. The threads are counted by where they
  are: at the test (new, notified or woken for no reason) or waiting. A thread in \<^verbatim>\<open>put\<close> is known by the value it
  carries. \<^verbatim>\<open>notify\<close> wakes one waiting thread if there is one, \<^verbatim>\<open>notifyAll\<close> all of them.
\<close>

section \<open>CountDownLatch\<close>

record latch =
  la_count :: int
  la_test :: nat
  la_wait :: nat
  la_passed :: nat

definition CountDownLatch_new :: "int \<Rightarrow> latch" where
  "CountDownLatch_new n = \<lparr>la_count = n, la_test = 0, la_wait = 0, la_passed = 0\<rparr>"

definition latch_wait :: "latch \<Rightarrow> latch" where
  "latch_wait s =
     (if 0 < la_count s then s\<lparr>la_test := la_test s - 1, la_wait := la_wait s + 1\<rparr>
      else s\<lparr>la_test := la_test s - 1, la_passed := la_passed s + 1\<rparr>)"

definition countDown :: "latch \<Rightarrow> latch" where
  "countDown s =
     (let s1 = s\<lparr>la_count := la_count s - 1\<rparr>
      in if la_count s1 = 0 then s1\<lparr>la_test := la_test s1 + la_wait s1, la_wait := 0\<rparr> else s1)"

definition getCount :: "latch \<Rightarrow> int" where "getCount s = la_count s"

inductive latch_step :: "latch \<Rightarrow> latch \<Rightarrow> bool" where
  call_wait: "latch_step s (s\<lparr>la_test := la_test s + 1\<rparr>)"
| do_wait: "0 < la_test s \<Longrightarrow> latch_step s (latch_wait s)"
| spurious: "0 < la_wait s \<Longrightarrow> latch_step s (s\<lparr>la_test := la_test s + 1, la_wait := la_wait s - 1\<rparr>)"
| down: "latch_step s (countDown s)"

inductive_cases latch_stepE: "latch_step s s'"

definition latch_inv :: "latch \<Rightarrow> bool" where
  "latch_inv s \<longleftrightarrow> (0 < la_wait s \<longrightarrow> 0 < la_count s) \<and> (0 < la_passed s \<longrightarrow> la_count s \<le> 0)"

lemma latch_inv_step: "latch_step s s' \<Longrightarrow> latch_inv s \<Longrightarrow> latch_inv s'"
  by (erule latch_stepE) (auto simp: latch_inv_def latch_wait_def countDown_def Let_def)

section \<open>First in, first out\<close>

text \<open>What a queue promises to the threads: its content is a list, a value goes in at the end and comes out at the front.
  \<open>room\<close> says that a value can go in.\<close>

locale fifo =
  fixes items :: "'s \<Rightarrow> 'a list"
    and room :: "'s \<Rightarrow> bool"
    and push :: "'a \<Rightarrow> 's \<Rightarrow> 's"
    and pop :: "'s \<Rightarrow> 's"
  assumes push_items: "room s \<Longrightarrow> items (push x s) = items s @ [x]"
    and pop_items: "items s \<noteq> [] \<Longrightarrow> items (pop s) = tl (items s)"
begin

text \<open>The values that went in are those that came out and those that are inside, in order.\<close>

definition balanced :: "'a list \<Rightarrow> 'a list \<Rightarrow> 's \<Rightarrow> bool" where
  "balanced ins outs s \<longleftrightarrow> ins = outs @ items s"

lemma balanced_push: "balanced ins outs s \<Longrightarrow> room s \<Longrightarrow> balanced (ins @ [x]) outs (push x s)"
  by (simp add: balanced_def push_items)

lemma balanced_pop: "balanced ins outs s \<Longrightarrow> items s \<noteq> [] \<Longrightarrow> balanced ins (outs @ [hd (items s)]) (pop s)"
  by (simp add: balanced_def pop_items)

lemma balanced_frame: "balanced ins outs s \<Longrightarrow> items s' = items s \<Longrightarrow> balanced ins outs s'"
  by (simp add: balanced_def)

end

section \<open>BlockingQueue\<close>

record 'a blocking_queue =
  q_items :: "'a list"
  q_test :: nat
  q_wait :: nat
  q_ins :: "'a list"
  q_outs :: "'a list"

definition BlockingQueue_new :: "'a blocking_queue" where
  "BlockingQueue_new = \<lparr>q_items = [], q_test = 0, q_wait = 0, q_ins = [], q_outs = []\<rparr>"

definition q_notify :: "'a blocking_queue \<Rightarrow> 'a blocking_queue" where
  "q_notify s = (if 0 < q_wait s then s\<lparr>q_test := q_test s + 1, q_wait := q_wait s - 1\<rparr> else s)"

definition q_push :: "'a \<Rightarrow> 'a blocking_queue \<Rightarrow> 'a blocking_queue" where
  "q_push x s = s\<lparr>q_items := q_items s @ [x], q_ins := q_ins s @ [x]\<rparr>"

definition q_pop :: "'a blocking_queue \<Rightarrow> 'a blocking_queue" where
  "q_pop s = s\<lparr>q_items := tl (q_items s), q_outs := q_outs s @ [hd (q_items s)]\<rparr>"

definition q_put :: "'a \<Rightarrow> 'a blocking_queue \<Rightarrow> 'a blocking_queue" where
  "q_put x s = q_notify (q_push x s)"

definition q_take :: "'a blocking_queue \<Rightarrow> 'a blocking_queue res" where
  "q_take s =
     (let s1 = s\<lparr>q_test := q_test s - 1\<rparr>
      in if q_items s1 = [] then Inr (s1\<lparr>q_wait := q_wait s1 + 1\<rparr>)
         else cassert (q_items s1 \<noteq> []) (Inr (q_pop s1)))"

definition q_size :: "'a blocking_queue \<Rightarrow> nat" where "q_size s = length (q_items s)"

inductive q_step :: "'a blocking_queue \<Rightarrow> 'a blocking_queue res \<Rightarrow> bool" where
  put: "q_step s (Inr (q_put x s))"
| call_take: "q_step s (Inr (s\<lparr>q_test := q_test s + 1\<rparr>))"
| do_take: "0 < q_test s \<Longrightarrow> q_step s (q_take s)"
| spurious: "0 < q_wait s \<Longrightarrow> q_step s (Inr (s\<lparr>q_test := q_test s + 1, q_wait := q_wait s - 1\<rparr>))"

inductive_cases q_stepE: "q_step s r"

interpretation bq: fifo q_items "\<lambda>_. True" q_push q_pop
  by unfold_locales (simp_all add: q_push_def q_pop_def)

text \<open>If a thread waits, every value inside has a thread on its way to it.\<close>

definition q_inv :: "'a blocking_queue \<Rightarrow> bool" where
  "q_inv s \<longleftrightarrow> bq.balanced (q_ins s) (q_outs s) s \<and> (0 < q_wait s \<longrightarrow> length (q_items s) \<le> q_test s)"

lemma q_inv_step:
  assumes "q_step s r" and "q_inv s"
  shows "\<exists>s'. r = Inr s' \<and> q_inv s'"
  using assms(1)
proof cases
  case (put x)
  then show ?thesis using assms(2) bq.balanced_push [of "q_ins s" "q_outs s" s x]
    by (auto simp: q_inv_def q_put_def q_notify_def q_push_def bq.balanced_def)
next
  case do_take
  then show ?thesis using assms(2) bq.balanced_pop [of "q_ins s" "q_outs s" s]
    by (auto simp: q_inv_def q_take_def q_pop_def bq.balanced_def Let_def)
qed (use assms(2) in \<open>auto simp: q_inv_def bq.balanced_def\<close>)

section \<open>BoundedBlockingQueue\<close>

record 'a bounded_queue =
  b_capacity :: nat
  b_items :: "'a list"
  takers :: nat
  takers_wait :: nat
  putters :: "'a multiset"
  putters_wait :: "'a multiset"
  b_ins :: "'a list"
  b_outs :: "'a list"

definition BoundedBlockingQueue_new :: "nat \<Rightarrow> 'a bounded_queue" where
  "BoundedBlockingQueue_new maxSize =
     \<lparr>b_capacity = maxSize, b_items = [], takers = 0, takers_wait = 0, putters = {#}, putters_wait = {#}, b_ins = [], b_outs = []\<rparr>"

definition b_empty :: "'a bounded_queue \<Rightarrow> bool" where "b_empty s \<longleftrightarrow> b_items s = []"
definition b_full :: "'a bounded_queue \<Rightarrow> bool" where "b_full s \<longleftrightarrow> length (b_items s) = b_capacity s"
definition b_size :: "'a bounded_queue \<Rightarrow> nat" where "b_size s = length (b_items s)"

definition b_notify_empty :: "'a bounded_queue \<Rightarrow> 'a bounded_queue" where
  "b_notify_empty s =
     (if 0 < takers_wait s then s\<lparr>takers := takers s + 1, takers_wait := takers_wait s - 1\<rparr> else s)"

text \<open>The waiting putter that is woken is the system's choice.\<close>

definition b_notify_full :: "'a option \<Rightarrow> 'a bounded_queue \<Rightarrow> 'a bounded_queue" where
  "b_notify_full wake s =
     (case wake of None \<Rightarrow> s
      | Some y \<Rightarrow> s\<lparr>putters := putters s + {#y#}, putters_wait := putters_wait s - {#y#}\<rparr>)"

definition b_push :: "'a \<Rightarrow> 'a bounded_queue \<Rightarrow> 'a bounded_queue" where
  "b_push x s = s\<lparr>b_items := b_items s @ [x], b_ins := b_ins s @ [x]\<rparr>"

definition b_pop :: "'a bounded_queue \<Rightarrow> 'a bounded_queue" where
  "b_pop s = s\<lparr>b_items := tl (b_items s), b_outs := b_outs s @ [hd (b_items s)]\<rparr>"

definition b_put :: "'a \<Rightarrow> 'a bounded_queue \<Rightarrow> 'a bounded_queue res" where
  "b_put x s =
     (let s1 = s\<lparr>putters := putters s - {#x#}\<rparr>
      in if b_full s1 then Inr (s1\<lparr>putters_wait := putters_wait s1 + {#x#}\<rparr>)
         else cassert (\<not> b_full s1) (Inr (b_notify_empty (b_push x s1))))"

definition b_take :: "'a option \<Rightarrow> 'a bounded_queue \<Rightarrow> 'a bounded_queue res" where
  "b_take wake s =
     (let s1 = s\<lparr>takers := takers s - 1\<rparr>
      in if b_empty s1 then Inr (s1\<lparr>takers_wait := takers_wait s1 + 1\<rparr>)
         else cassert (\<not> b_empty s1) (Inr (b_notify_full wake (b_pop s1))))"

definition wakes :: "'a option \<Rightarrow> 'a multiset \<Rightarrow> bool" where
  "wakes wake w \<longleftrightarrow> (case wake of None \<Rightarrow> w = {#} | Some y \<Rightarrow> y \<in># w)"

inductive b_step :: "'a bounded_queue \<Rightarrow> 'a bounded_queue res \<Rightarrow> bool" where
  call_put: "b_step s (Inr (s\<lparr>putters := putters s + {#x#}\<rparr>))"
| do_put: "x \<in># putters s \<Longrightarrow> b_step s (b_put x s)"
| call_take: "b_step s (Inr (s\<lparr>takers := takers s + 1\<rparr>))"
| do_take: "0 < takers s \<Longrightarrow> wakes wake (putters_wait s) \<Longrightarrow> b_step s (b_take wake s)"
| spurious_take: "0 < takers_wait s \<Longrightarrow> b_step s (Inr (s\<lparr>takers := takers s + 1, takers_wait := takers_wait s - 1\<rparr>))"
| spurious_put: "x \<in># putters_wait s \<Longrightarrow>
    b_step s (Inr (s\<lparr>putters := putters s + {#x#}, putters_wait := putters_wait s - {#x#}\<rparr>))"

inductive_cases b_stepE: "b_step s r"

inductive b_reach for n where
  start: "b_reach n (BoundedBlockingQueue_new n)"
| step: "b_reach n s \<Longrightarrow> b_step s (Inr s') \<Longrightarrow> b_reach n s'"

interpretation bbq: fifo b_items "\<lambda>s. \<not> b_full s" b_push b_pop
  by unfold_locales (simp_all add: b_push_def b_pop_def)

definition b_inv :: "nat \<Rightarrow> 'a bounded_queue \<Rightarrow> bool" where
  "b_inv n s \<longleftrightarrow> b_capacity s = n \<and> length (b_items s) \<le> n \<and> bbq.balanced (b_ins s) (b_outs s) s
     \<and> (0 < takers_wait s \<longrightarrow> length (b_items s) \<le> takers s)
     \<and> (putters_wait s \<noteq> {#} \<longrightarrow> n \<le> length (b_items s) + size (putters s))"

lemma b_inv_put:
  assumes "b_inv n s" and "x \<in># putters s"
  shows "\<exists>s'. b_put x s = Inr s' \<and> b_inv n s'"
proof -
  have sz: "size (putters s) = Suc (size (putters s - {#x#}))" using assms(2) by (metis insert_DiffM size_add_mset)
  show ?thesis using assms(1) sz
    by (auto simp: b_inv_def b_put_def b_full_def b_notify_empty_def b_push_def bbq.balanced_def Let_def)
qed

lemma b_inv_take:
  assumes "b_inv n s" and "0 < takers s" and "wakes wake (putters_wait s)"
  shows "\<exists>s'. b_take wake s = Inr s' \<and> b_inv n s'"
proof (cases "b_items s")
  case Nil
  then show ?thesis using assms by (auto simp: b_inv_def b_take_def b_empty_def bbq.balanced_def Let_def)
next
  case (Cons x xs)
  then show ?thesis using assms
    by (cases wake) (auto simp: b_inv_def b_take_def b_empty_def b_pop_def b_notify_full_def wakes_def bbq.balanced_def Let_def)
qed

lemma b_inv_step:
  assumes "b_step s r" and "b_inv n s"
  shows "\<exists>s'. r = Inr s' \<and> b_inv n s'"
  using assms(1)
proof cases
  case (do_put x)
  then show ?thesis using b_inv_put [OF assms(2)] by blast
next
  case (do_take wake)
  then show ?thesis using b_inv_take [OF assms(2)] by blast
qed (use assms(2) in \<open>auto simp: b_inv_def bbq.balanced_def\<close>)

lemma b_reach_inv: "b_reach n s \<Longrightarrow> b_inv n s"
  by (induction rule: b_reach.induct)
    (auto simp: b_inv_def BoundedBlockingQueue_new_def bbq.balanced_def dest: b_inv_step)

section \<open>Properties\<close>

text \<open>A latch lets no thread pass before the count is down, and keeps none waiting after.\<close>

lemma latch_reach_inv: "latch_step\<^sup>*\<^sup>* (CountDownLatch_new n) s \<Longrightarrow> latch_inv s"
proof (induction rule: rtranclp_induct)
  case base
  show ?case by (simp add: latch_inv_def CountDownLatch_new_def)
qed (rule latch_inv_step)

text \<open>
  C19. \<^verbatim>\<open>BoundedBlockingQueue\<close> over every interleaving of \<^verbatim>\<open>put\<close> and \<^verbatim>\<open>take\<close> with every choice of the threads that are woken: it never
  holds more values than its capacity, the values that went in are those that came out followed by those inside, in order, and no
  assertion fails. No wake-up is lost: while a value is inside and a taker waits, a taker is on its way, and while there is room
  and a putter waits, a putter is on its way; so with a capacity of at least one, takers and putters are never all
  waiting.
\<close>

theorem bounded_queue_live:
  assumes "b_reach n s"
  shows "length (b_items s) \<le> n \<and> b_ins s = b_outs s @ b_items s \<and> (\<forall>r. b_step s r \<longrightarrow> (\<exists>s'. r = Inr s'))
    \<and> (0 < takers_wait s \<and> b_items s \<noteq> [] \<longrightarrow> 0 < takers s)
    \<and> (putters_wait s \<noteq> {#} \<and> length (b_items s) < n \<longrightarrow> putters s \<noteq> {#})
    \<and> (0 < n \<and> 0 < takers_wait s \<and> putters_wait s \<noteq> {#} \<longrightarrow> 0 < takers s \<or> putters s \<noteq> {#})"
proof -
  have inv: "b_inv n s" by (rule b_reach_inv [OF assms])
  then have "\<forall>r. b_step s r \<longrightarrow> (\<exists>s'. r = Inr s')" using b_inv_step by blast
  moreover have "length (b_items s) \<le> takers s \<Longrightarrow> b_items s \<noteq> [] \<Longrightarrow> 0 < takers s" by (cases "b_items s") auto
  ultimately show ?thesis using inv by (auto simp: b_inv_def bbq.balanced_def)
qed

lemma b_demo_reach: "b_reach 1 ((BoundedBlockingQueue_new 1)\<lparr>b_items := [7 :: nat], b_ins := [7]\<rparr>)"
proof -
  let ?s = "(BoundedBlockingQueue_new 1)\<lparr>putters := {#7 :: nat#}\<rparr>"
  have "b_reach 1 ?s"
    using b_reach.step [OF b_reach.start b_step.call_put [of "BoundedBlockingQueue_new 1" 7]]
    by (simp add: BoundedBlockingQueue_new_def)
  moreover have "b_step ?s (Inr ((BoundedBlockingQueue_new 1)\<lparr>b_items := [7], b_ins := [7]\<rparr>))"
    using b_step.do_put [of 7 ?s]
    by (simp add: BoundedBlockingQueue_new_def b_put_def b_full_def b_notify_empty_def b_push_def)
  ultimately show ?thesis by (rule b_reach.step)
qed

theorem bounded_queue_live_witness:
  "length (b_items ((BoundedBlockingQueue_new 1)\<lparr>b_items := [7 :: nat], b_ins := [7]\<rparr>)) \<le> 1"
  using bounded_queue_live [OF b_demo_reach] by blast

end
