(* ===== verification/Thread_Pool.thy ===== *)
theory Thread_Pool
  imports Monitors
begin

text \<open>
  \<^verbatim>\<open>ThreadPool\<close> of \<^verbatim>\<open>base/ThreadPool.h\<close> and \<^verbatim>\<open>base/ThreadPool.cc\<close>, in the way of the theory \<^verbatim>\<open>Monitors\<close>. A worker is at the test of the loop of
  \<^verbatim>\<open>runInThread\<close> (\<open>w_loop\<close>), at the test in \<^verbatim>\<open>take\<close> (\<open>w_take\<close>), waiting there (\<open>w_wait\<close>), running a task
  (\<open>w_exec\<close>) or finished (\<open>w_done\<close>); a caller of \<^verbatim>\<open>run\<close> is at its test (\<open>run_test\<close>) or waiting (\<open>run_wait\<close>), with its task. Tasks end
  normally here: an exception stops the program, as the theory \<^verbatim>\<open>Pool_Threads\<close> shows.
\<close>

section \<open>State and operations\<close>

record 'a thread_pool =
  tp_threads :: nat
  tp_queue :: "'a list"
  maxQueueSize :: nat
  tp_running :: bool
  w_loop :: nat
  w_take :: nat
  w_wait :: nat
  w_exec :: "'a multiset"
  w_done :: nat
  run_test :: "'a multiset"
  run_wait :: "'a multiset"
  tp_direct :: "'a list"
  tp_ins :: "'a list"
  tp_started :: "'a list"

definition ThreadPool_new :: "'a thread_pool" where
  "ThreadPool_new =
     \<lparr>tp_threads = 0, tp_queue = [], maxQueueSize = 0, tp_running = False, w_loop = 0, w_take = 0, w_wait = 0, w_exec = {#}, w_done = 0,
      run_test = {#}, run_wait = {#}, tp_direct = [], tp_ins = [], tp_started = []\<rparr>"

definition setMaxQueueSize :: "nat \<Rightarrow> 'a thread_pool \<Rightarrow> 'a thread_pool" where
  "setMaxQueueSize n s = s\<lparr>maxQueueSize := n\<rparr>"

definition tp_start :: "nat \<Rightarrow> 'a thread_pool \<Rightarrow> 'a thread_pool res" where
  "tp_start n s = cassert (tp_threads s = 0) (Inr (s\<lparr>tp_running := True, tp_threads := n, w_loop := n\<rparr>))"

text \<open>\<^verbatim>\<open>stop\<close> up to the joins.\<close>

definition tp_stop :: "'a thread_pool \<Rightarrow> 'a thread_pool" where
  "tp_stop s = s\<lparr>tp_running := False, w_take := w_take s + w_wait s, w_wait := 0\<rparr>"

definition ThreadPool_dtor :: "'a thread_pool \<Rightarrow> 'a thread_pool" where
  "ThreadPool_dtor s = (if tp_running s then tp_stop s else s)"

definition tp_isFull :: "'a thread_pool \<Rightarrow> bool" where
  "tp_isFull s \<longleftrightarrow> 0 < maxQueueSize s \<and> maxQueueSize s \<le> length (tp_queue s)"

definition tp_notify_empty :: "'a thread_pool \<Rightarrow> 'a thread_pool" where
  "tp_notify_empty s = (if 0 < w_wait s then s\<lparr>w_take := w_take s + 1, w_wait := w_wait s - 1\<rparr> else s)"

definition tp_notify_full :: "'a option \<Rightarrow> 'a thread_pool \<Rightarrow> 'a thread_pool" where
  "tp_notify_full wake s =
     (case wake of None \<Rightarrow> s | Some y \<Rightarrow> s\<lparr>run_test := run_test s + {#y#}, run_wait := run_wait s - {#y#}\<rparr>)"

definition tp_push :: "'a \<Rightarrow> 'a thread_pool \<Rightarrow> 'a thread_pool" where
  "tp_push x s = s\<lparr>tp_queue := tp_queue s @ [x], tp_ins := tp_ins s @ [x]\<rparr>"

definition tp_pop :: "'a thread_pool \<Rightarrow> 'a thread_pool" where
  "tp_pop s = s\<lparr>tp_queue := tl (tp_queue s), tp_started := tp_started s @ [hd (tp_queue s)]\<rparr>"

text \<open>\<^verbatim>\<open>run\<close>: the call, and the part from the test under the mutex on.\<close>

definition tp_run :: "'a \<Rightarrow> 'a thread_pool \<Rightarrow> 'a thread_pool" where
  "tp_run x s = (if tp_threads s = 0 then s\<lparr>tp_direct := tp_direct s @ [x]\<rparr> else s\<lparr>run_test := run_test s + {#x#}\<rparr>)"

definition tp_run_test :: "'a \<Rightarrow> 'a thread_pool \<Rightarrow> 'a thread_pool res" where
  "tp_run_test x s =
     (let s1 = s\<lparr>run_test := run_test s - {#x#}\<rparr>
      in if tp_isFull s1 then Inr (s1\<lparr>run_wait := run_wait s1 + {#x#}\<rparr>)
         else cassert (\<not> tp_isFull s1) (Inr (tp_notify_empty (tp_push x s1))))"

text \<open>\<^verbatim>\<open>take\<close> gives a task, or an empty one that is not run.\<close>

definition tp_take :: "'a option \<Rightarrow> 'a thread_pool \<Rightarrow> 'a thread_pool" where
  "tp_take wake s =
     (let s1 = s\<lparr>w_take := w_take s - 1\<rparr>
      in if tp_queue s1 = [] \<and> tp_running s1 then s1\<lparr>w_wait := w_wait s1 + 1\<rparr>
         else if tp_queue s1 \<noteq> []
         then let x = hd (tp_queue s1);
                  s2 = tp_pop s1;
                  s3 = (if 0 < maxQueueSize s2 then tp_notify_full wake s2 else s2)
              in s3\<lparr>w_exec := w_exec s3 + {#x#}\<rparr>
         else s1\<lparr>w_loop := w_loop s1 + 1\<rparr>)"

definition tp_loop :: "'a thread_pool \<Rightarrow> 'a thread_pool" where
  "tp_loop s =
     (if tp_running s then s\<lparr>w_loop := w_loop s - 1, w_take := w_take s + 1\<rparr>
      else s\<lparr>w_loop := w_loop s - 1, w_done := w_done s + 1\<rparr>)"

definition tp_task_end :: "'a \<Rightarrow> 'a thread_pool \<Rightarrow> 'a thread_pool" where
  "tp_task_end x s = s\<lparr>w_exec := w_exec s - {#x#}, w_loop := w_loop s + 1\<rparr>"

text \<open>The steps of the workers, and those of the other threads.\<close>

inductive wk_step :: "'a thread_pool \<Rightarrow> 'a thread_pool \<Rightarrow> bool" where
  loop: "0 < w_loop s \<Longrightarrow> wk_step s (tp_loop s)"
| take: "0 < w_take s \<Longrightarrow> wakes wake (run_wait s) \<Longrightarrow> wk_step s (tp_take wake s)"
| task_end: "x \<in># w_exec s \<Longrightarrow> wk_step s (tp_task_end x s)"

inductive tp_step :: "'a thread_pool \<Rightarrow> 'a thread_pool res \<Rightarrow> bool" where
  worker: "wk_step s s' \<Longrightarrow> tp_step s (Inr s')"
| run: "tp_step s (Inr (tp_run x s))"
| run_test: "x \<in># run_test s \<Longrightarrow> tp_step s (tp_run_test x s)"
| stop: "tp_step s (Inr (tp_stop s))"
| spurious_take: "0 < w_wait s \<Longrightarrow> tp_step s (Inr (s\<lparr>w_take := w_take s + 1, w_wait := w_wait s - 1\<rparr>))"
| spurious_run: "x \<in># run_wait s \<Longrightarrow> tp_step s (Inr (s\<lparr>run_test := run_test s + {#x#}, run_wait := run_wait s - {#x#}\<rparr>))"

inductive tp_reach for s0 where
  start: "tp_reach s0 s0"
| step: "tp_reach s0 s \<Longrightarrow> tp_step s (Inr s') \<Longrightarrow> tp_reach s0 s'"

section \<open>Invariant\<close>

interpretation tpq: fifo tp_queue "\<lambda>s. \<not> tp_isFull s" tp_push tp_pop
  by unfold_locales (simp_all add: tp_push_def tp_pop_def)

text \<open>The pool after \<^verbatim>\<open>start\<close>; \<open>mx\<close> is the bound of the queue, \<open>n\<close> the number of threads.\<close>

definition tp_inv :: "nat \<Rightarrow> nat \<Rightarrow> 'a thread_pool \<Rightarrow> bool" where
  "tp_inv mx n s \<longleftrightarrow> maxQueueSize s = mx \<and> tp_threads s = n
     \<and> (0 < mx \<longrightarrow> length (tp_queue s) \<le> mx)
     \<and> tpq.balanced (tp_ins s) (tp_started s) s
     \<and> w_loop s + w_take s + w_wait s + size (w_exec s) + w_done s = n
     \<and> (0 < w_wait s \<longrightarrow> tp_running s \<and> length (tp_queue s) \<le> w_take s)
     \<and> (run_wait s \<noteq> {#} \<longrightarrow> 0 < mx \<and> mx \<le> length (tp_queue s) + size (run_test s))
     \<and> (tp_running s \<longrightarrow> w_done s = 0)"

lemma size_remove: "x \<in># M \<Longrightarrow> size M = Suc (size (M - {#x#}))"
  by (metis insert_DiffM size_add_mset)

lemma tp_inv_worker:
  assumes "wk_step s s'" and "tp_inv mx n s"
  shows "tp_inv mx n s'"
  using assms(1)
proof cases
  case loop
  then show ?thesis using assms(2) by (auto simp: tp_inv_def tp_loop_def tpq.balanced_def)
next
  case (task_end x)
  then show ?thesis using assms(2) size_remove [of x "w_exec s"] by (auto simp: tp_inv_def tp_task_end_def tpq.balanced_def)
next
  case (take wake)
  show ?thesis
  proof (cases "tp_queue s")
    case Nil
    then show ?thesis using take assms(2) by (auto simp: tp_inv_def tp_take_def tpq.balanced_def Let_def)
  next
    case (Cons x xs)
    then show ?thesis using take assms(2)
      by (cases wake) (auto simp: tp_inv_def tp_take_def tp_pop_def tp_notify_full_def wakes_def tpq.balanced_def Let_def)
  qed
qed

lemma tp_inv_run_test:
  assumes "tp_inv mx n s" and "x \<in># run_test s"
  shows "\<exists>s'. tp_run_test x s = Inr s' \<and> tp_inv mx n s'"
  using assms(1) size_remove [OF assms(2)]
  by (auto simp: tp_inv_def tp_run_test_def tp_isFull_def tp_notify_empty_def tp_push_def tpq.balanced_def Let_def)

lemma tp_inv_step:
  assumes "tp_step s r" and "tp_inv mx n s"
  shows "\<exists>s'. r = Inr s' \<and> tp_inv mx n s'"
  using assms(1)
proof cases
  case (worker s')
  then show ?thesis using tp_inv_worker assms(2) by blast
next
  case (run_test x)
  then show ?thesis using tp_inv_run_test [OF assms(2)] by blast
next
  case (run x)
  then show ?thesis using assms(2) by (auto simp: tp_inv_def tp_run_def tpq.balanced_def)
next
  case stop
  then show ?thesis using assms(2) by (auto simp: tp_inv_def tp_stop_def tpq.balanced_def)
next
  case spurious_take
  then show ?thesis using assms(2) by (auto simp: tp_inv_def tpq.balanced_def)
next
  case (spurious_run x)
  then show ?thesis using assms(2) by (auto simp: tp_inv_def tpq.balanced_def)
qed

lemma tp_reach_inv: "tp_reach s0 s \<Longrightarrow> tp_inv mx n s0 \<Longrightarrow> tp_inv mx n s"
  by (induction rule: tp_reach.induct) (auto dest: tp_inv_step)

lemma tp_start_inv: "tp_start n (setMaxQueueSize mx ThreadPool_new) = Inr s \<Longrightarrow> tp_inv mx n s"
  by (auto simp: tp_start_def setMaxQueueSize_def ThreadPool_new_def tp_inv_def tpq.balanced_def)

section \<open>After \<^verbatim>\<open>stop\<close>\<close>

definition tp_rank :: "'a thread_pool \<Rightarrow> nat" where
  "tp_rank s = 3 * w_take s + 2 * size (w_exec s) + w_loop s"

lemma tp_rank_worker:
  assumes "wk_step s s'" and "\<not> tp_running s"
  shows "tp_rank s' < tp_rank s \<and> \<not> tp_running s'"
  using assms(1)
proof cases
  case (task_end x)
  then show ?thesis using assms(2) size_remove [of x "w_exec s"] by (simp add: tp_rank_def tp_task_end_def)
next
  case (take wake)
  then show ?thesis using assms(2)
    by (cases wake) (auto simp: tp_rank_def tp_take_def tp_pop_def tp_notify_full_def Let_def)
qed (use assms(2) in \<open>auto simp: tp_rank_def tp_loop_def\<close>)

lemma tp_rank_step:
  assumes "tp_step s (Inr s')" and "\<not> tp_running s" and "w_wait s = 0"
  shows "tp_rank s' \<le> tp_rank s \<and> \<not> tp_running s'"
  using assms(1)
proof cases
  case worker
  then show ?thesis using tp_rank_worker assms(2) by fastforce
qed (use assms in \<open>auto simp: tp_rank_def tp_run_def tp_run_test_def tp_stop_def tp_notify_empty_def tp_push_def cassert_def Let_def
      split: if_splits\<close>)

lemma tp_progress:
  assumes "tp_inv mx n s" and "w_wait s = 0" and "w_done s < n"
  shows "\<exists>s'. wk_step s s'"
proof -
  obtain wake where w: "wakes wake (run_wait s)"
  proof (cases "run_wait s = {#}")
    case True
    then show ?thesis using that [of None] by (simp add: wakes_def)
  next
    case False
    then show ?thesis using that [of "Some y" for y] by (auto simp: wakes_def)
  qed
  have "0 < w_loop s \<or> 0 < w_take s \<or> w_exec s \<noteq> {#}" using assms by (auto simp: tp_inv_def)
  then show ?thesis using wk_step.intros w by (metis multiset_nonemptyE)
qed

lemma tp_stopped_wait: "tp_inv mx n s \<Longrightarrow> \<not> tp_running s \<Longrightarrow> w_wait s = 0"
  by (auto simp: tp_inv_def)

lemma tp_stopped_steps:
  "(wk_step ^^ k) s s' \<Longrightarrow> tp_inv mx n s \<Longrightarrow> \<not> tp_running s \<Longrightarrow>
     k + tp_rank s' \<le> tp_rank s \<and> tp_inv mx n s' \<and> \<not> tp_running s'"
proof (induction k arbitrary: s')
  case (Suc k)
  then obtain t where t: "(wk_step ^^ k) s t" "wk_step t s'" by auto
  with Suc have "k + tp_rank t \<le> tp_rank s" "tp_inv mx n t" "\<not> tp_running t" by auto
  with t(2) show ?case using tp_rank_worker [OF t(2)] tp_inv_worker [OF t(2)] by auto
qed auto

lemma tp_stopped_finish:
  "tp_inv mx n s \<Longrightarrow> \<not> tp_running s \<Longrightarrow> \<exists>s'. wk_step\<^sup>*\<^sup>* s s' \<and> w_done s' = n"
proof (induction "tp_rank s" arbitrary: s rule: less_induct)
  case less
  show ?case
  proof (cases "w_done s < n")
    case True
    then obtain t where t: "wk_step s t" using tp_progress less.prems tp_stopped_wait by blast
    then have "tp_rank t < tp_rank s" "\<not> tp_running t" using tp_rank_worker less.prems by blast+
    moreover have "tp_inv mx n t" using tp_inv_worker t less.prems by blast
    ultimately obtain s' where s': "wk_step\<^sup>*\<^sup>* t s'" "w_done s' = n" using less.hyps by blast
    have "wk_step\<^sup>*\<^sup>* s s'" by (rule converse_rtranclp_into_rtranclp [of wk_step, OF t s'(1)])
    then show ?thesis using s'(2) by blast
  next
    case False
    then show ?thesis using less.prems by (auto simp: tp_inv_def)
  qed
qed

text \<open>Once every worker is finished.\<close>

definition tp_dead :: "nat \<Rightarrow> nat \<Rightarrow> 'a thread_pool \<Rightarrow> bool" where
  "tp_dead mx n s \<longleftrightarrow> tp_inv mx n s \<and> w_done s = n"

lemma tp_dead_step:
  assumes "tp_dead mx n s" and "tp_step s (Inr s')"
  shows "tp_dead mx n s' \<and> tp_started s' = tp_started s \<and> (\<exists>q. tp_queue s' = tp_queue s @ q)
    \<and> (0 < mx \<and> length (tp_queue s) = mx \<longrightarrow> tp_queue s' = tp_queue s \<and> run_wait s + run_test s \<subseteq># run_wait s' + run_test s')"
proof -
  have i: "tp_inv mx n s" and d: "w_done s = n" using assms(1) by (auto simp: tp_dead_def)
  then have z: "w_loop s = 0" "w_take s = 0" "w_wait s = 0" "w_exec s = {#}" by (auto simp: tp_inv_def)
  have i': "tp_inv mx n s'" using tp_inv_step [OF assms(2) i] by simp
  show ?thesis using assms(2)
  proof cases
    case worker
    then show ?thesis using z by (auto elim: wk_step.cases)
  next
    case (run_test x)
    then show ?thesis using z i i' d
      by (auto simp: tp_dead_def tp_run_test_def tp_isFull_def tp_notify_empty_def tp_push_def cassert_def Let_def tp_inv_def split: if_splits)
  qed (use i i' d z in \<open>auto simp: tp_dead_def tp_run_def tp_stop_def\<close>)
qed


lemma tp_dead_reach:
  assumes "tp_reach s t" and "tp_dead mx n s"
  shows "tp_dead mx n t \<and> tp_started t = tp_started s \<and> (\<exists>q. tp_queue t = tp_queue s @ q)
    \<and> (0 < mx \<and> length (tp_queue s) = mx \<longrightarrow> tp_queue t = tp_queue s \<and> run_wait s + run_test s \<subseteq># run_wait t + run_test t)"
  using assms
proof (induction rule: tp_reach.induct)
  case (step u t)
  then have u: "tp_dead mx n u" by simp
  from step obtain q where q: "tp_queue u = tp_queue s @ q" by auto
  from tp_dead_step [OF u step.hyps(2)] obtain q' where q': "tp_queue t = tp_queue u @ q'" by auto
  have f: "tp_queue t = tp_queue s \<and> run_wait s + run_test s \<subseteq># run_wait t + run_test t" if "0 < mx \<and> length (tp_queue s) = mx"
  proof -
    have a: "tp_queue u = tp_queue s" "run_wait s + run_test s \<subseteq># run_wait u + run_test u" using step that by simp_all
    then have "tp_queue t = tp_queue u" "run_wait u + run_test u \<subseteq># run_wait t + run_test t"
      using tp_dead_step [OF u step.hyps(2)] that by simp_all
    then show ?thesis using a subset_mset.order_trans by metis
  qed
  show ?case using f q q' step tp_dead_step [OF u step.hyps(2)] by simp
qed auto

section \<open>Properties\<close>

text \<open>
  C10. A \<^verbatim>\<open>ThreadPool\<close> started with \<open>n\<close> threads, over every interleaving of its workers, the callers of \<^verbatim>\<open>run\<close> and \<^verbatim>\<open>stop\<close>, with every choice of
  the threads that are woken: no assertion fails, the queue keeps to its bound, the tasks are started in the order in which they were
  queued, each once, every worker is accounted for, and no wake-up is lost: a task in the queue with a worker waiting means that a
  worker is on its way to it, and room in the queue with a caller waiting means that a caller is on its way.
\<close>

theorem thread_pool_live:
  assumes "tp_start n (setMaxQueueSize mx ThreadPool_new) = Inr s0" and "tp_reach s0 s"
  shows "(\<forall>r. tp_step s r \<longrightarrow> (\<exists>s'. r = Inr s')) \<and> (0 < mx \<longrightarrow> length (tp_queue s) \<le> mx)
    \<and> tp_ins s = tp_started s @ tp_queue s
    \<and> w_loop s + w_take s + w_wait s + size (w_exec s) + w_done s = n
    \<and> (0 < w_wait s \<and> tp_queue s \<noteq> [] \<longrightarrow> 0 < w_take s)
    \<and> (run_wait s \<noteq> {#} \<and> length (tp_queue s) < mx \<longrightarrow> run_test s \<noteq> {#})"
proof -
  have inv: "tp_inv mx n s" by (rule tp_reach_inv [OF assms(2) tp_start_inv [OF assms(1)]])
  have "\<forall>r. tp_step s r \<longrightarrow> (\<exists>s'. r = Inr s')" using tp_inv_step [OF _ inv] by blast
  moreover have "length (tp_queue s) \<le> w_take s \<Longrightarrow> tp_queue s \<noteq> [] \<Longrightarrow> 0 < w_take s" by (cases "tp_queue s") auto
  ultimately show ?thesis using inv by (auto simp: tp_inv_def tpq.balanced_def)
qed

text \<open>
  C18. \<^verbatim>\<open>ThreadPool::stop\<close> ends: once \<^verbatim>\<open>running_\<close> is false no worker waits, every run of the workers has at most three steps for each of them
  and ends with all of them finished, so that the joins return (for tasks that end); the other threads cannot give them more to do.
\<close>

theorem thread_pool_stop_terminates:
  assumes "tp_start n (setMaxQueueSize mx ThreadPool_new) = Inr s0" and "tp_reach s0 s" and "\<not> tp_running s"
  shows "(\<forall>k s'. (wk_step ^^ k) s s' \<longrightarrow> k \<le> 3 * n)
    \<and> (\<forall>s'. wk_step\<^sup>*\<^sup>* s s' \<and> (\<forall>t. \<not> wk_step s' t) \<longrightarrow> w_done s' = n)
    \<and> (\<exists>s'. wk_step\<^sup>*\<^sup>* s s' \<and> w_done s' = n)
    \<and> (\<forall>s'. tp_step s (Inr s') \<longrightarrow> tp_rank s' \<le> tp_rank s \<and> \<not> tp_running s')"
proof -
  have inv: "tp_inv mx n s" by (rule tp_reach_inv [OF assms(2) tp_start_inv [OF assms(1)]])
  have r: "tp_rank s \<le> 3 * n" using inv by (auto simp: tp_inv_def tp_rank_def)
  have "w_done s' = n" if "wk_step\<^sup>*\<^sup>* s s'" and "\<forall>t. \<not> wk_step s' t" for s'
  proof -
    obtain k where "(wk_step ^^ k) s s'" using \<open>wk_step\<^sup>*\<^sup>* s s'\<close> by (auto simp: rtranclp_power)
    then have i: "tp_inv mx n s'" and "\<not> tp_running s'" using tp_stopped_steps [OF _ inv assms(3)] by blast+
    then have "\<not> w_done s' < n" using tp_progress tp_stopped_wait that(2) by blast
    then show ?thesis using i by (auto simp: tp_inv_def)
  qed
  moreover have "k \<le> 3 * n" if "(wk_step ^^ k) s s'" for k s'
    using tp_stopped_steps [OF that inv assms(3)] r by simp
  ultimately show ?thesis
    using tp_stopped_finish [OF inv assms(3)] tp_rank_step [OF _ assms(3) tp_stopped_wait [OF inv assms(3)]] by blast
qed

text \<open>
  What \<^verbatim>\<open>stop\<close> leaves: when the workers are finished, the tasks still in the queue are never started, and if the queue is full a
  caller of \<^verbatim>\<open>run\<close> that has not queued its task never returns, since \<^verbatim>\<open>stop\<close> does not notify \<^verbatim>\<open>notFull_\<close> and \<^verbatim>\<open>run\<close> does not test \<^verbatim>\<open>running_\<close>.
\<close>

theorem thread_pool_stop_abandons:
  assumes "tp_start n (setMaxQueueSize mx ThreadPool_new) = Inr s0" and "tp_reach s0 s" and "w_done s = n" and "tp_reach s t"
  shows "tp_started t = tp_started s \<and> (\<exists>q. tp_queue t = tp_queue s @ q)
    \<and> (0 < mx \<and> length (tp_queue s) = mx \<longrightarrow> tp_queue t = tp_queue s \<and> run_wait s + run_test s \<subseteq># run_wait t + run_test t)"
proof -
  have "tp_inv mx n s" by (rule tp_reach_inv [OF assms(2) tp_start_inv [OF assms(1)]])
  then show ?thesis using tp_dead_reach [OF assms(4), of mx n] assms(3) by (simp add: tp_dead_def)
qed

subsection \<open>A stopped pool\<close>

text \<open>One thread, a queue of one task; two calls of \<^verbatim>\<open>run\<close>, and \<^verbatim>\<open>stop\<close> before the worker has looked.\<close>

definition tp_demo :: "nat thread_pool" where
  "tp_demo = (setMaxQueueSize 1 ThreadPool_new)\<lparr>tp_running := True, tp_threads := 1, w_loop := 1\<rparr>"

definition tp_demo_end :: "nat thread_pool" where
  "tp_demo_end = tp_demo\<lparr>tp_running := False, w_loop := 0, w_done := 1, tp_queue := [1], tp_ins := [1], run_wait := {#2#}\<rparr>"

lemma tp_demo_start: "tp_start 1 (setMaxQueueSize 1 ThreadPool_new) = Inr tp_demo"
  by (simp add: tp_start_def tp_demo_def setMaxQueueSize_def ThreadPool_new_def)

lemmas tp_demo_defs = tp_demo_def tp_demo_end_def setMaxQueueSize_def ThreadPool_new_def tp_run_def tp_run_test_def tp_isFull_def tp_push_def
  tp_notify_empty_def tp_stop_def tp_loop_def

lemma tp_demo_queued:
  "tp_reach tp_demo (tp_demo\<lparr>tp_queue := [1], tp_ins := [1], run_wait := {#2#}\<rparr>)"
proof -
  let ?a = "tp_demo\<lparr>tp_queue := [1], tp_ins := [1]\<rparr>"
  have "tp_reach tp_demo (tp_demo\<lparr>run_test := {#1#}\<rparr>)"
    using tp_reach.step [OF tp_reach.start tp_step.run [of tp_demo 1]] by (simp add: tp_demo_defs)
  then have "tp_reach tp_demo ?a"
    using tp_reach.step tp_step.run_test [of 1 "tp_demo\<lparr>run_test := {#1#}\<rparr>"] by (fastforce simp: tp_demo_defs)
  then have "tp_reach tp_demo (?a\<lparr>run_test := {#2#}\<rparr>)"
    using tp_reach.step tp_step.run [of ?a 2] by (fastforce simp: tp_demo_defs)
  then show ?thesis
    using tp_reach.step tp_step.run_test [of 2 "?a\<lparr>run_test := {#2#}\<rparr>"] by (fastforce simp: tp_demo_defs)
qed

lemma tp_demo_stopped:
  "tp_reach tp_demo (tp_demo\<lparr>tp_queue := [1], tp_ins := [1], run_wait := {#2#}, tp_running := False\<rparr>)"
  using tp_reach.step [OF tp_demo_queued tp_step.stop] by (simp add: tp_demo_defs)

lemma tp_demo_reach: "tp_reach tp_demo tp_demo_end"
  using tp_reach.step [OF tp_demo_stopped tp_step.worker [OF wk_step.loop]] by (simp add: tp_demo_defs)

theorem thread_pool_live_witness:
  "tp_start 1 (setMaxQueueSize 1 ThreadPool_new) = Inr tp_demo \<and> tp_reach tp_demo tp_demo_end
   \<and> tp_ins tp_demo_end = tp_started tp_demo_end @ tp_queue tp_demo_end"
  using tp_demo_start tp_demo_reach thread_pool_live [OF tp_demo_start tp_demo_reach] by blast

theorem thread_pool_stop_terminates_witness:
  "\<exists>s'. wk_step\<^sup>*\<^sup>* (tp_demo\<lparr>tp_queue := [1], tp_ins := [1], run_wait := {#2#}, tp_running := False\<rparr>) s' \<and> w_done s' = 1"
  using thread_pool_stop_terminates [OF tp_demo_start tp_demo_stopped] by simp

theorem thread_pool_stop_abandons_witness:
  "tp_reach tp_demo tp_demo_end \<and> tp_queue tp_demo_end = [1] \<and> tp_started tp_demo_end = [] \<and> run_wait tp_demo_end = {#2#}"
proof -
  have "w_done tp_demo_end = 1" by (simp add: tp_demo_end_def)
  from thread_pool_stop_abandons [OF tp_demo_start tp_demo_reach this tp_reach.start]
  show ?thesis using tp_demo_reach by (simp add: tp_demo_defs)
qed


end
