(* ===== verification/Atomic_Integer.thy ===== *)
theory Atomic_Integer
  imports Cobra_Prelude "HOL-Library.Multiset"
begin

text \<open>
  \<^verbatim>\<open>AtomicIntegerT\<close> of \<^verbatim>\<open>base/Atomic.h\<close>, at any width (\<^verbatim>\<open>AtomicInt32\<close> is the width 32, \<^verbatim>\<open>AtomicInt64\<close> 64). An operation takes the
  stored word and gives the result with the word stored afterwards; one call of a \<^verbatim>\<open>__sync_\<close> builtin is one step, and each
  operation makes one. The builtins wrap; the sum that \<^verbatim>\<open>addAndGet\<close> returns is signed C++ arithmetic, which
  is undefined when it overflows (\<open>IntOverflow\<close>), after the stored value has changed.
\<close>

section \<open>Operations\<close>

definition AtomicIntegerT_new :: "'w::len word" where
  "AtomicIntegerT_new = 0"

text \<open>\<^verbatim>\<open>__sync_val_compare_and_swap(&value_, 0, 0)\<close>.\<close>

definition atomic_get :: "'w::len word \<Rightarrow> 'w word \<times> 'w word" where
  "atomic_get v = (v, if v = 0 then 0 else v)"

definition getAndAdd :: "'w::len word \<Rightarrow> 'w word \<Rightarrow> 'w word \<times> 'w word" where
  "getAndAdd x v = (v, v + x)"

definition addAndGet :: "'w::len word \<Rightarrow> 'w word \<Rightarrow> 'w word res \<times> 'w word" where
  "addAndGet x v =
     (case getAndAdd x v of
        (old, v1) \<Rightarrow> (if sint (old + x) = sint old + sint x then Inr (old + x) else Inl IntOverflow, v1))"

definition incrementAndGet :: "'w::len word \<Rightarrow> 'w word res \<times> 'w word" where
  "incrementAndGet = addAndGet 1"

definition decrementAndGet :: "'w::len word \<Rightarrow> 'w word res \<times> 'w word" where
  "decrementAndGet = addAndGet (- 1)"

definition atomic_add :: "'w::len word \<Rightarrow> 'w word \<Rightarrow> 'w word" where
  "atomic_add x v = snd (getAndAdd x v)"

definition atomic_increment :: "'w::len word \<Rightarrow> unit res \<times> 'w word" where
  "atomic_increment v = (case incrementAndGet v of (r, v1) \<Rightarrow> (bindE r (\<lambda>_. Inr ()), v1))"

definition atomic_decrement :: "'w::len word \<Rightarrow> unit res \<times> 'w word" where
  "atomic_decrement v = (case decrementAndGet v of (r, v1) \<Rightarrow> (bindE r (\<lambda>_. Inr ()), v1))"

definition getAndSet :: "'w::len word \<Rightarrow> 'w word \<Rightarrow> 'w word \<times> 'w word" where
  "getAndSet newValue v = (v, newValue)"

section \<open>Calls from several threads\<close>

text \<open>The calls that several threads make, in the order in which their builtins take effect; the results in the same order.\<close>

datatype 'v atomic_op = OpGet | OpGetAndAdd 'v | OpAddAndGet 'v | OpGetAndSet 'v

definition atomic_step :: "'w::len word atomic_op \<Rightarrow> 'w word \<Rightarrow> 'w word res \<times> 'w word" where
  "atomic_step c v =
     (case c of
        OpGet \<Rightarrow> apfst Inr (atomic_get v)
      | OpGetAndAdd x \<Rightarrow> apfst Inr (getAndAdd x v)
      | OpAddAndGet x \<Rightarrow> addAndGet x v
      | OpGetAndSet x \<Rightarrow> apfst Inr (getAndSet x v))"

fun atomic_run :: "'w::len word atomic_op list \<Rightarrow> 'w word \<Rightarrow> 'w word res list \<times> 'w word" where
  "atomic_run [] v = ([], v)"
| "atomic_run (c # cs) v = (case atomic_step c v of (r, v1) \<Rightarrow> apfst ((#) r) (atomic_run cs v1))"

fun op_delta :: "'w::len word atomic_op \<Rightarrow> 'w word" where
  "op_delta (OpGetAndAdd x) = x"
| "op_delta (OpAddAndGet x) = x"
| "op_delta _ = 0"

fun is_set :: "'v atomic_op \<Rightarrow> bool" where
  "is_set (OpGetAndSet x) = True"
| "is_set _ = False"

lemma atomic_step_value: "\<not> is_set c \<Longrightarrow> snd (atomic_step c v) = v + op_delta c"
  by (cases c) (simp_all add: atomic_step_def atomic_get_def getAndAdd_def addAndGet_def)

lemma atomic_run_append:
  "atomic_run (cs @ ds) v = (fst (atomic_run cs v) @ fst (atomic_run ds (snd (atomic_run cs v))),
     snd (atomic_run ds (snd (atomic_run cs v))))"
  by (induction cs arbitrary: v) (auto simp: split_beta)

lemma atomic_run_value:
  "\<forall>c \<in> set cs. \<not> is_set c \<Longrightarrow> snd (atomic_run cs v) = v + sum_list (map op_delta cs)"
  by (induction cs arbitrary: v) (auto simp: split_beta atomic_step_value add.assoc)

text \<open>Two interleavings of the same calls leave the same value.\<close>

lemma atomic_run_order:
  assumes "\<forall>c \<in> set cs. \<not> is_set c" and "mset cs = mset ds"
  shows "snd (atomic_run cs v) = snd (atomic_run ds v)"
proof -
  have "set ds = set cs" using assms(2) by (metis set_mset_mset)
  then have d: "\<forall>c \<in> set ds. \<not> is_set c" using assms(1) by simp
  have "mset (map op_delta cs) = mset (map op_delta ds)" using assms(2) by simp
  then have "sum_list (map op_delta cs) = sum_list (map op_delta ds)"
    by (metis sum_mset_sum_list)
  then show ?thesis using assms(1) d by (simp add: atomic_run_value)
qed

section \<open>Counting\<close>

lemma addAndGet_exact:
  "- (2 ^ (LENGTH('w) - 1)) \<le> sint v + sint x \<Longrightarrow> sint v + sint x < 2 ^ (LENGTH('w) - 1) \<Longrightarrow>
     addAndGet x (v :: 'w::len word) = (Inr (v + x), v + x)"
  by (simp add: addAndGet_def getAndAdd_def signed_take_bit_int_eq_self sint_word_ariths)

text \<open>The only failure: the stored value wraps and the sum that is returned has overflowed.\<close>

lemma incrementAndGet_max: "incrementAndGet (0x7FFFFFFF :: 32 word) = (Inl IntOverflow, 0x80000000)"
  by (simp add: incrementAndGet_def addAndGet_def getAndAdd_def)

lemma of_nat_Suc_sint: "Suc k < 2 ^ (LENGTH('w) - 1) \<Longrightarrow> sint (of_nat (Suc k) :: 'w::len word) = sint (of_nat k :: 'w word) + 1"
proof -
  assume k: "Suc k < 2 ^ (LENGTH('w) - 1)"
  have "sint (of_nat j :: 'w word) = int j" if "j \<le> Suc k" for j
  proof -
    have "int j < 2 ^ (LENGTH('w) - 1)" using that k
      by (metis le_less_trans of_nat_less_iff of_nat_numeral of_nat_power)
    then show ?thesis
      using signed_take_bit_int_eq_self [of "LENGTH('w) - 1" "int j"] order_trans [of "- (2 ^ (LENGTH('w) - 1))" 0 "int j"]
      by (simp add: signed_of_nat)
  qed
  from this [of k] this [of "Suc k"] show ?thesis by simp
qed

lemma incrementAndGet_of_nat:
  assumes "Suc k < 2 ^ (LENGTH('w) - 1)"
  shows "incrementAndGet (of_nat k :: 'w::len word) = (Inr (of_nat (Suc k)), of_nat (Suc k))"
  using of_nat_Suc_sint [OF assms] assms
  by (simp add: incrementAndGet_def addAndGet_def getAndAdd_def add.commute) auto

lemma tickets_from:
  assumes "k + n < 2 ^ (LENGTH('w) - 1)"
  shows "atomic_run (replicate n (OpAddAndGet 1)) (of_nat k :: 'w::len word)
    = (map (\<lambda>i. Inr (of_nat i)) [k + 1 ..< k + n + 1], of_nat (k + n))"
  using assms
proof (induction n arbitrary: k)
  case (Suc n)
  have "atomic_step (OpAddAndGet 1) (of_nat k :: 'w word) = (Inr (of_nat (Suc k)), of_nat (Suc k))"
    using incrementAndGet_of_nat [of k, where 'w = 'w] Suc.prems by (simp add: atomic_step_def incrementAndGet_def)
  then show ?case
    using Suc.IH [of "Suc k"] Suc.prems by (simp add: upt_rec)
qed simp

lemma of_nat_upt_distinct:
  assumes "n < 2 ^ (LENGTH('w) - 1)"
  shows "distinct (map (of_nat :: nat \<Rightarrow> 'w::len word) [1 ..< n + 1])"
proof -
  have "n < 2 ^ LENGTH('w)" using assms
    by (meson diff_le_self less_le_trans one_le_numeral power_increasing)
  then show ?thesis
    by (auto simp: distinct_map inj_on_def word_of_nat_eq_iff take_bit_nat_eq_self)
qed

lemma tickets_new:
  assumes "n < 2 ^ (LENGTH('w) - 1)"
  shows "atomic_run (replicate n (OpAddAndGet 1)) (AtomicIntegerT_new :: 'w::len word) = (map Inr (map of_nat [1 ..< n + 1]), of_nat n)"
proof -
  have "map (\<lambda>i. Inr (of_nat i) :: 'w word res) [1 ..< n + 1] = map Inr (map of_nat [1 ..< n + 1])" by simp
  then show ?thesis
    using tickets_from [of 0 n, where 'w = 'w] assms by (simp only: add_0 AtomicIntegerT_new_def semiring_1_class.of_nat_0)
qed

text \<open>
  An atomic counter gives every caller its own number. However the calls of \<^verbatim>\<open>incrementAndGet\<close> on a new counter are
  spread over threads, the results, in the order in which the calls take effect, are 1, 2, 3 and so on, all different, and \<^verbatim>\<open>get\<close>
  then returns how many calls there were, as long as that number fits the signed type; any two orders of the same calls of
  \<^verbatim>\<open>get\<close>, \<^verbatim>\<open>getAndAdd\<close> and \<^verbatim>\<open>addAndGet\<close> leave the same value.
\<close>

theorem atomic_counter:
  assumes "n < 2 ^ (LENGTH('w) - 1)" and "\<forall>c \<in> set cs. \<not> is_set c" and "mset cs = mset ds"
  shows "(\<exists>rs. atomic_run (replicate n (OpAddAndGet 1)) (AtomicIntegerT_new :: 'w::len word) = (map Inr rs, of_nat n)
      \<and> rs = map of_nat [1 ..< n + 1] \<and> distinct rs \<and> fst (atomic_get (of_nat n :: 'w word)) = of_nat n)
    \<and> snd (atomic_run cs (v :: 'w word)) = snd (atomic_run ds v)"
proof (intro conjI exI)
  show "snd (atomic_run cs v) = snd (atomic_run ds v)" using assms(2,3) by (rule atomic_run_order)
  show "fst (atomic_get (of_nat n :: 'w word)) = of_nat n" by (simp add: atomic_get_def)
qed (rule tickets_new [OF assms(1)] refl of_nat_upt_distinct [OF assms(1)])+

theorem atomic_counter_witness:
  "\<exists>rs. atomic_run [OpAddAndGet 1, OpAddAndGet 1] (AtomicIntegerT_new :: 32 word) = (map Inr rs, 2) \<and> rs = [1, 2]
     \<and> snd (atomic_run [OpAddAndGet 5, OpGet] (3 :: 32 word)) = snd (atomic_run [OpGet, OpAddAndGet 5] 3)"
proof -
  have r: "replicate 2 (OpAddAndGet (1 :: 32 word)) = [OpAddAndGet 1, OpAddAndGet 1]" "[1 ..< 2 + 1] = [1, 2 :: nat]"
    by (simp_all add: numeral_2_eq_2 upt_rec)
  show ?thesis
    using atomic_counter [where 'w = 32, of 2 "[OpAddAndGet 5, OpGet]" "[OpGet, OpAddAndGet 5]" 3] unfolding r
    by simp
qed

end
