(* ===== verification/Thread_Class.thy ===== *)
theory Thread_Class
  imports Logging Atomic_Integer
begin

text \<open>
  \<^verbatim>\<open>Thread\<close> and \<^verbatim>\<open>CurrentThread\<close> of \<^verbatim>\<open>base/Thread.h\<close>, \<^verbatim>\<open>base/Thread.cc\<close> and \<^verbatim>\<open>base/CurrentThread.h\<close>, and \<^verbatim>\<open>Exception\<close> of
  \<^verbatim>\<open>base/Exception.h\<close> and \<^verbatim>\<open>base/Exception.cc\<close>. The state is one \<^verbatim>\<open>Thread\<close> object together with the thread it starts: the object, until it is
  destroyed; the shared cell that holds the thread identifier; the \<^verbatim>\<open>ThreadData\<close> on the heap; and where the new thread is in
  \<^verbatim>\<open>startThread\<close>. The thread that owns the object and the new thread interleave. Cached thread identifiers are those of \<open>Logging\<close>.
\<close>

section \<open>Exception\<close>

record cobra_exception =
  ex_message :: string
  ex_stack :: string

text \<open>\<open>symbols\<close> is what \<^verbatim>\<open>backtrace_symbols\<close> gives for at most 200 frames, \<open>None\<close> for a null pointer.\<close>

definition fillStackTrace :: "string list option \<Rightarrow> cobra_exception \<Rightarrow> cobra_exception" where
  "fillStackTrace symbols e =
     (case symbols of
        None \<Rightarrow> e
      | Some strings \<Rightarrow> foldl (\<lambda>e1 str. e1\<lparr>ex_stack := (ex_stack e1 @ str) @ [CHR 0x0A]\<rparr>) e strings)"

definition Exception_new :: "string list option \<Rightarrow> string \<Rightarrow> cobra_exception" where
  "Exception_new symbols msg = fillStackTrace symbols \<lparr>ex_message = msg, ex_stack = []\<rparr>"

definition ex_what :: "cobra_exception \<Rightarrow> string" where
  "ex_what e = ex_message e"

definition ex_stackTrace :: "cobra_exception \<Rightarrow> string" where
  "ex_stackTrace e = ex_stack e"

lemma fillStackTrace_lines:
  "fillStackTrace (Some strings) e = e\<lparr>ex_stack := ex_stack e @ concat (map (\<lambda>s. s @ [CHR 0x0A]) strings)\<rparr>"
proof (induction strings arbitrary: e)
  case (Cons s strings)
  then show ?case using Cons.IH [of "e\<lparr>ex_stack := (ex_stack e @ s) @ [CHR 0x0A]\<rparr>"] by (simp add: fillStackTrace_def)
qed (simp add: fillStackTrace_def)

lemma Exception_new_what:
  "ex_what (Exception_new symbols msg) = msg
   \<and> ex_stackTrace (Exception_new (Some strings) msg) = concat (map (\<lambda>s. s @ [CHR 0x0A]) strings)"
  by (cases symbols) (simp_all add: Exception_new_def fillStackTrace_lines ex_what_def ex_stackTrace_def, simp add: fillStackTrace_def)

section \<open>CurrentThread\<close>

text \<open>\<^verbatim>\<open>t_threadName\<close> points to a literal or into the \<^verbatim>\<open>ThreadData\<close> of the thread.\<close>

datatype thread_name = Literal string | InThreadData

record cur_thread =
  ct_log :: log_thread
  t_threadName :: thread_name

definition cur_thread_new :: cur_thread where
  "cur_thread_new = \<lparr>ct_log = log_thread_new, t_threadName = Literal ''unknown''\<rparr>"

definition ct_tid :: "int \<Rightarrow> cur_thread \<Rightarrow> (int \<times> cur_thread) res" where
  "ct_tid gettid c = bindE (tid gettid (ct_log c)) (\<lambda>l. Inr (t_cachedTid l, c\<lparr>ct_log := l\<rparr>))"

definition afterFork :: "int \<Rightarrow> cur_thread \<Rightarrow> cur_thread res" where
  "afterFork gettid c =
     bindE (ct_tid gettid (c\<lparr>ct_log := (ct_log c)\<lparr>t_cachedTid := 0\<rparr>, t_threadName := Literal ''main''\<rparr>)) (\<lambda>(n, c1). Inr c1)"

text \<open>The initialiser of the main thread; it also registers \<^verbatim>\<open>afterFork\<close> for the child of a fork.\<close>

definition ThreadNameInitializer_new :: "int \<Rightarrow> cur_thread \<Rightarrow> cur_thread res" where
  "ThreadNameInitializer_new gettid c =
     bindE (ct_tid gettid (c\<lparr>t_threadName := Literal ''main''\<rparr>)) (\<lambda>(n, c1). Inr c1)"

definition isMainThread :: "int \<Rightarrow> int \<Rightarrow> cur_thread \<Rightarrow> (bool \<times> cur_thread) res" where
  "isMainThread gettid getpid c = bindE (ct_tid gettid c) (\<lambda>(n, c1). Inr (n = getpid, c1))"

text \<open>The \<^verbatim>\<open>timespec\<close> handed to \<^verbatim>\<open>nanosleep\<close>.\<close>

definition sleepUsec :: "int \<Rightarrow> int \<times> int" where
  "sleepUsec usec = (usec sdiv 1000000, (usec smod 1000000) * 1000)"

lemma cacheTid_five_digits:
  "0 < g \<Longrightarrow> g < 100000 \<Longrightarrow> t_cachedTid l = 0 \<Longrightarrow> \<exists>l1. tid g l = Inr l1 \<and> t_cachedTid l1 = g"
  using dec_nat_length [of "nat g" 5] by (auto simp: tid_def cacheTid_def pad_left_def dec_int_def Let_def)

lemma ct_tid_new: "0 < g \<Longrightarrow> g < 100000 \<Longrightarrow> t_cachedTid (ct_log c) = 0 \<Longrightarrow>
  \<exists>c1. ct_tid g c = Inr (g, c1) \<and> t_cachedTid (ct_log c1) = g \<and> t_threadName c1 = t_threadName c"
  using cacheTid_five_digits [of g "ct_log c"] by (auto simp: ct_tid_def)

lemma ct_tid_long: "100000 \<le> g \<Longrightarrow> t_cachedTid (ct_log c) = 0 \<Longrightarrow> ct_tid g c = Inl AssertFailed"
  using tid_text_long [of g] by (simp add: ct_tid_def tid_def cacheTid_def tid_text_def)

lemma ct_tid_cached: "t_cachedTid (ct_log c) \<noteq> 0 \<Longrightarrow> ct_tid g c = Inr (t_cachedTid (ct_log c), c)"
  by (simp add: ct_tid_def tid_def)

text \<open>The child of a fork drops the identifier it has inherited.\<close>

lemma afterFork_tid:
  "0 < g \<Longrightarrow> g < 100000 \<Longrightarrow> \<exists>c1. afterFork g c = Inr c1 \<and> t_cachedTid (ct_log c1) = g \<and> t_threadName c1 = Literal ''main''"
  using ct_tid_new [of g "c\<lparr>ct_log := (ct_log c)\<lparr>t_cachedTid := 0\<rparr>, t_threadName := Literal ''main''\<rparr>"]
  by (auto simp: afterFork_def)

lemma main_thread_tid:
  "0 < g \<Longrightarrow> g < 100000 \<Longrightarrow> \<exists>c1. ThreadNameInitializer_new g cur_thread_new = Inr c1 \<and> isMainThread g g c1 = Inr (True, c1)
     \<and> t_threadName c1 = Literal ''main''"
  using ct_tid_new [of g "cur_thread_new\<lparr>t_threadName := Literal ''main''\<rparr>"] ct_tid_cached
  by (auto simp: ThreadNameInitializer_new_def cur_thread_new_def log_thread_new_def isMainThread_def)

lemma sleepUsec_exact:
  assumes "0 \<le> usec"
  shows "fst (sleepUsec usec) * 1000000000 + snd (sleepUsec usec) = usec * 1000
    \<and> 0 \<le> snd (sleepUsec usec) \<and> snd (sleepUsec usec) < 1000000000"
proof -
  have q: "usec sdiv 1000000 = usec div 1000000" "usec smod 1000000 = usec mod 1000000"
    using assms by (simp_all add: signed_divide_int_def signed_modulo_int_def sgn_if)
  have "usec div 1000000 * 1000000 + usec mod 1000000 = usec" by (rule div_mult_mod_eq)
  moreover have "0 \<le> usec mod 1000000" "usec mod 1000000 < 1000000" by simp_all
  ultimately show ?thesis unfolding sleepUsec_def q fst_conv snd_conv by linarith
qed

section \<open>Thread\<close>

datatype thread_outcome = Returns | Throws cobra_exception | ThrowsStd string | ThrowsOther

text \<open>
  Where the new thread is: not started; at the four steps before \<^verbatim>\<open>func_()\<close> (its identifier, \<^verbatim>\<open>wkTid_.lock()\<close>, the write, the name);
  running the function; at \<^verbatim>\<open>delete data\<close>; finished; and after an exception, which ends the process.
\<close>

datatype child_pc = ChNone | ChTid | ChLock | ChWrite | ChName | ChRun | ChDelete | ChDone | ChAborted

record thread_obj =
  started :: bool
  joined :: bool
  pthreadId :: nat
  tname :: string

record thread_sys =
  th_obj :: "thread_obj option"
  th_cell :: "int option"
  child_ref :: bool
  child :: child_pc
  thread_data :: "string option"
  child_cur :: cur_thread
  joining :: bool
  pt_joined :: bool
  pt_detached :: bool
  th_stderr :: "string list"

definition Thread_new :: "string \<Rightarrow> 32 word \<Rightarrow> (thread_sys \<times> 32 word) res" where
  "Thread_new n numCreated =
     (case atomic_increment numCreated of
        (r, numCreated1) \<Rightarrow>
          bindE r (\<lambda>_. Inr (\<lparr>th_obj = Some \<lparr>started = False, joined = False, pthreadId = 0, tname = n\<rparr>, th_cell = Some 0, child_ref = False,
             child = ChNone, thread_data = None, child_cur = cur_thread_new, joining = False, pt_joined = False, pt_detached = False,
             th_stderr = []\<rparr>, numCreated1)))"

text \<open>\<open>create\<close> is the identifier that \<^verbatim>\<open>pthread_create\<close> gives, \<open>None\<close> when it fails.\<close>

definition Thread_start :: "nat option \<Rightarrow> thread_obj \<Rightarrow> thread_sys \<Rightarrow> thread_sys res" where
  "Thread_start create t s =
     cassert (\<not> started t)
      (case create of
         None \<Rightarrow> Inl Fatal
       | Some pid \<Rightarrow>
           Inr (s\<lparr>th_obj := Some (t\<lparr>started := True, pthreadId := pid\<rparr>), thread_data := Some (tname t), child := ChTid\<rparr>))"

text \<open>\<^verbatim>\<open>join\<close> up to \<^verbatim>\<open>pthread_join\<close>, and its return.\<close>

definition Thread_join :: "thread_obj \<Rightarrow> thread_sys \<Rightarrow> thread_sys res" where
  "Thread_join t s =
     cassert (started t) (cassert (\<not> joined t) (Inr (s\<lparr>th_obj := Some (t\<lparr>joined := True\<rparr>), joining := True\<rparr>)))"

definition join_return :: "thread_sys \<Rightarrow> thread_sys" where
  "join_return s = s\<lparr>joining := False, pt_joined := True\<rparr>"

definition Thread_dtor :: "thread_obj \<Rightarrow> thread_sys \<Rightarrow> thread_sys" where
  "Thread_dtor t s =
     s\<lparr>th_obj := None, pt_detached := (pt_detached s \<or> started t \<and> \<not> joined t),
       th_cell := (if child_ref s then th_cell s else None)\<rparr>"

definition Thread_tid :: "thread_sys \<Rightarrow> int res" where
  "Thread_tid s = (case th_cell s of None \<Rightarrow> Inl NullDeref | Some v \<Rightarrow> Inr v)"

text \<open>\<^verbatim>\<open>CurrentThread::name()\<close> in the new thread.\<close>

definition current_name :: "thread_sys \<Rightarrow> string res" where
  "current_name s =
     (case t_threadName (child_cur s) of
        Literal n \<Rightarrow> Inr n
      | InThreadData \<Rightarrow> (case thread_data s of None \<Rightarrow> Inl NullDeref | Some n \<Rightarrow> Inr n))"

definition crashed :: "string list \<Rightarrow> thread_sys \<Rightarrow> thread_sys" where
  "crashed ls s = s\<lparr>child_cur := (child_cur s)\<lparr>t_threadName := Literal ''crashed''\<rparr>, th_stderr := th_stderr s @ ls, child := ChAborted\<rparr>"

definition run_func :: "thread_outcome \<Rightarrow> string \<Rightarrow> thread_sys \<Rightarrow> thread_sys" where
  "run_func out n s =
     (case out of
        Returns \<Rightarrow> s\<lparr>child_cur := (child_cur s)\<lparr>t_threadName := Literal ''finished''\<rparr>, child := ChDelete\<rparr>
      | Throws ex \<Rightarrow> crashed [''exception caught in Thread '' @ n, ''reason: '' @ ex_what ex, ''stack trace: '' @ ex_stackTrace ex] s
      | ThrowsStd w \<Rightarrow> crashed [''exception caught in Thread '' @ n, ''reason: '' @ w] s
      | ThrowsOther \<Rightarrow> crashed [''unknown exception caught in Thread '' @ n] s)"

text \<open>The steps of \<^verbatim>\<open>startThread\<close> and \<^verbatim>\<open>runInThread\<close>; \<open>g\<close> is the identifier that the kernel gave the thread.\<close>

definition child_next :: "int \<Rightarrow> thread_outcome \<Rightarrow> thread_sys \<Rightarrow> thread_sys res" where
  "child_next g out s =
     (case child s of
        ChTid \<Rightarrow> bindE (ct_tid g (child_cur s)) (\<lambda>(n, c). Inr (s\<lparr>child_cur := c, child := ChLock\<rparr>))
      | ChLock \<Rightarrow> Inr (if th_obj s \<noteq> None then s\<lparr>child_ref := True, child := ChWrite\<rparr> else s\<lparr>child := ChName\<rparr>)
      | ChWrite \<Rightarrow>
          (case th_cell s of
             None \<Rightarrow> Inl NullDeref
           | Some v \<Rightarrow>
               Inr (s\<lparr>th_cell := (if th_obj s = None then None else Some (t_cachedTid (ct_log (child_cur s)))),
                     child_ref := False, child := ChName\<rparr>))
      | ChName \<Rightarrow> Inr (s\<lparr>child_cur := (child_cur s)\<lparr>t_threadName := InThreadData\<rparr>, child := ChRun\<rparr>)
      | ChRun \<Rightarrow> (case thread_data s of None \<Rightarrow> Inl NullDeref | Some n \<Rightarrow> Inr (run_func out n s))
      | ChDelete \<Rightarrow> Inr (s\<lparr>thread_data := None, child := ChDone\<rparr>)
      | _ \<Rightarrow> Inr s)"

definition child_active :: "thread_sys \<Rightarrow> bool" where
  "child_active s \<longleftrightarrow> child s \<notin> {ChNone, ChDone, ChAborted}"

inductive th_step :: "int \<Rightarrow> thread_outcome \<Rightarrow> thread_sys \<Rightarrow> thread_sys res \<Rightarrow> bool" for g out where
  start: "th_obj s = Some t \<Longrightarrow> \<not> joining s \<Longrightarrow> th_step g out s (Thread_start c t s)"
| join: "th_obj s = Some t \<Longrightarrow> \<not> joining s \<Longrightarrow> th_step g out s (Thread_join t s)"
| join_return: "joining s \<Longrightarrow> child s = ChDone \<Longrightarrow> th_step g out s (Inr (join_return s))"
| dtor: "th_obj s = Some t \<Longrightarrow> \<not> joining s \<Longrightarrow> th_step g out s (Inr (Thread_dtor t s))"
| child: "child_active s \<Longrightarrow> th_step g out s (child_next g out s)"

inductive th_reach :: "int \<Rightarrow> thread_outcome \<Rightarrow> thread_sys \<Rightarrow> bool" for g out where
  new: "Thread_new n k = Inr (s, k1) \<Longrightarrow> th_reach g out s"
| step: "th_reach g out s \<Longrightarrow> th_step g out s (Inr s1) \<Longrightarrow> th_reach g out s1"


section \<open>The life of a thread\<close>

definition obj_ok :: "int \<Rightarrow> thread_sys \<Rightarrow> thread_obj \<Rightarrow> bool" where
  "obj_ok g s t \<longleftrightarrow> (started t \<longleftrightarrow> child s \<noteq> ChNone) \<and> (joined t \<longrightarrow> started t) \<and> (joined t \<longleftrightarrow> joining s \<or> pt_joined s) \<and> \<not> pt_detached s
     \<and> th_cell s = Some (if child s \<in> {ChNone, ChTid, ChLock, ChWrite} then 0 else g)"

definition gone_ok :: "thread_sys \<Rightarrow> bool" where
  "gone_ok s \<longleftrightarrow> \<not> joining s \<and> (th_cell s \<noteq> None \<longleftrightarrow> child_ref s) \<and> (child s \<noteq> ChNone \<longrightarrow> pt_detached s \<noteq> pt_joined s)"

definition child_ok :: "int \<Rightarrow> thread_sys \<Rightarrow> bool" where
  "child_ok g s \<longleftrightarrow> (child_ref s \<longleftrightarrow> child s = ChWrite) \<and> (thread_data s = None \<longleftrightarrow> child s \<in> {ChNone, ChDone})
     \<and> (t_threadName (child_cur s) = InThreadData \<longrightarrow> child s = ChRun) \<and> (pt_joined s \<longrightarrow> child s = ChDone \<and> \<not> joining s)
     \<and> t_cachedTid (ct_log (child_cur s)) = (if child s \<in> {ChNone, ChTid} then 0 else g)"

definition th_inv :: "int \<Rightarrow> thread_sys \<Rightarrow> bool" where
  "th_inv g s \<longleftrightarrow> child_ok g s \<and> (case th_obj s of Some t \<Rightarrow> obj_ok g s t | None \<Rightarrow> gone_ok s)"

lemmas th_inv_defs = th_inv_def child_ok_def obj_ok_def gone_ok_def

lemma th_inv_new: "Thread_new n k = Inr (s, k1) \<Longrightarrow> th_inv g s"
  by (auto simp: Thread_new_def th_inv_defs cur_thread_new_def log_thread_new_def bindE_eq_Inr split: prod.splits)

text \<open>The new thread fails at one place only: \<^verbatim>\<open>cacheTid\<close> asserts that its identifier is printed in five columns.\<close>

definition tid_too_long :: "int \<Rightarrow> thread_sys \<Rightarrow> bool" where
  "tid_too_long g s \<longleftrightarrow> child s = ChTid \<and> 100000 \<le> g"

lemma child_next_ok:
  assumes "0 < g" and "th_inv g s" and "child_active s" and "\<not> tid_too_long g s"
  shows "\<exists>s1. child_next g out s = Inr s1 \<and> th_inv g s1"
proof (cases "child s")
  case ChTid
  then have "t_cachedTid (ct_log (child_cur s)) = 0" "g < 100000" using assms(2,4) by (simp_all add: th_inv_defs tid_too_long_def)
  from ct_tid_new [OF assms(1) this(2,1)] obtain c where
    "ct_tid g (child_cur s) = Inr (g, c)" "t_cachedTid (ct_log c) = g" "t_threadName c = t_threadName (child_cur s)" by blast
  then show ?thesis using assms(1,2) ChTid by (auto simp: child_next_def th_inv_defs split: option.splits)
next
  case ChRun
  then show ?thesis using assms(2)
    by (cases out; cases "th_obj s") (auto simp: child_next_def run_func_def crashed_def th_inv_defs)
qed (use assms(2,3) in \<open>auto simp: child_next_def child_active_def th_inv_defs split: option.splits\<close>)

lemma child_next_long:
  assumes "th_inv g s" and "tid_too_long g s"
  shows "child_next g out s = Inl AssertFailed"
  using assms ct_tid_long [of g "child_cur s"] by (simp add: child_next_def tid_too_long_def th_inv_defs)

lemma th_step_inv:
  assumes "0 < g" and "th_inv g s" and "th_step g out s (Inr s1)"
  shows "th_inv g s1"
  using assms(3)
proof cases
  case (start t c)
  then show ?thesis using assms(2) by (cases c) (auto simp: Thread_start_def cassert_def th_inv_defs split: if_splits)
next
  case (join t)
  then show ?thesis using assms(2) by (auto simp: Thread_join_def cassert_def th_inv_defs split: if_splits)
next
  case join_return
  then show ?thesis using assms(2) by (auto simp: join_return_def th_inv_defs split: option.splits)
next
  case (dtor t)
  then show ?thesis using assms(2) by (auto simp: Thread_dtor_def th_inv_defs)
next
  case child
  then have "\<not> tid_too_long g s" using child_next_long [OF assms(2), of out] by auto
  then show ?thesis using child_next_ok [OF assms(1,2) child(2), of out] child(1) by auto
qed

lemma th_reach_inv: "th_reach g out s \<Longrightarrow> 0 < g \<Longrightarrow> th_inv g s"
proof (induction rule: th_reach.induct)
  case (new n k s k1)
  then show ?case using th_inv_new by blast
next
  case (step s s1)
  then show ?case using th_step_inv by blast
qed

text \<open>
  C21. A \<^verbatim>\<open>Thread\<close> object and the thread it starts stay well formed over every interleaving of the two, from the constructor on, with
  every outcome of the thread's function and every identifier \<open>g\<close> that the kernel gives the thread. \<^verbatim>\<open>start\<close> passes its assertion exactly when the object has not been started, \<^verbatim>\<open>join\<close> its two exactly when it has been started and not
  joined; the steps of the new thread fail in one case only, the assertion of \<^verbatim>\<open>cacheTid\<close> on an identifier of more than five digits, so it never writes the identifier into memory that the destroyed object has freed; \<^verbatim>\<open>tid()\<close> is 0 or the
  identifier of the thread, and it is the identifier once the function runs; the thread's name can always be read; and the thread is never both joined and detached, and is one of the two
  once a started object is gone.
\<close>

theorem thread_well_formed:
  assumes "0 < g" and "th_reach g out s"
  shows "(th_obj s = Some t \<longrightarrow> (ok (Thread_start (Some pid) t s) \<longleftrightarrow> child s = ChNone)
        \<and> (ok (Thread_join t s) \<longleftrightarrow> child s \<noteq> ChNone \<and> \<not> joining s \<and> \<not> pt_joined s)
        \<and> (Thread_tid s = Inr 0 \<or> Thread_tid s = Inr g) \<and> (child s \<in> {ChRun, ChDelete, ChDone} \<longrightarrow> Thread_tid s = Inr g))
    \<and> (child_active s \<longrightarrow> (if child s = ChTid \<and> 100000 \<le> g then child_next g out s = Inl AssertFailed else ok (child_next g out s)))
    \<and> ok (current_name s)
    \<and> \<not> (pt_joined s \<and> pt_detached s) \<and> (th_obj s = None \<and> child s \<noteq> ChNone \<longrightarrow> pt_joined s \<or> pt_detached s)"
proof -
  have i: "th_inv g s" using th_reach_inv [OF assms(2,1)] .
  have c: "child_active s \<longrightarrow> (if child s = ChTid \<and> 100000 \<le> g then child_next g out s = Inl AssertFailed else ok (child_next g out s))"
    using child_next_ok [OF assms(1) i, of out] child_next_long [OF i, of out] by (auto simp: ok_def tid_too_long_def)
  have n: "ok (current_name s)" using i
    by (cases "t_threadName (child_cur s)") (auto simp: current_name_def th_inv_defs ok_def)
  have o: "th_obj s = Some t \<longrightarrow> (ok (Thread_start (Some pid) t s) \<longleftrightarrow> child s = ChNone)
        \<and> (ok (Thread_join t s) \<longleftrightarrow> child s \<noteq> ChNone \<and> \<not> joining s \<and> \<not> pt_joined s)
        \<and> (Thread_tid s = Inr 0 \<or> Thread_tid s = Inr g) \<and> (child s \<in> {ChRun, ChDelete, ChDone} \<longrightarrow> Thread_tid s = Inr g)"
    using i by (auto simp: Thread_start_def Thread_join_def cassert_def Thread_tid_def th_inv_defs)
  have d: "\<not> (pt_joined s \<and> pt_detached s) \<and> (th_obj s = None \<and> child s \<noteq> ChNone \<longrightarrow> pt_joined s \<or> pt_detached s)"
    using i by (cases "th_obj s") (auto simp: th_inv_defs)
  show ?thesis using c n o d by blast
qed

section \<open>Example\<close>

text \<open>A thread that has been started.\<close>

definition th_demo0 :: thread_sys where
  "th_demo0 = \<lparr>th_obj = Some \<lparr>started = False, joined = False, pthreadId = 0, tname = ''w''\<rparr>, th_cell = Some 0, child_ref = False,
     child = ChNone, thread_data = None, child_cur = cur_thread_new, joining = False, pt_joined = False, pt_detached = False, th_stderr = []\<rparr>"

definition th_demo1 :: thread_sys where
  "th_demo1 = th_demo0\<lparr>th_obj := Some \<lparr>started = True, joined = False, pthreadId = 9, tname = ''w''\<rparr>, thread_data := Some ''w'', child := ChTid\<rparr>"

lemma th_demo_reach: "th_reach g out th_demo1"
proof -
  have "Thread_new ''w'' 0 = Inr (th_demo0, 1)"
    by (simp add: Thread_new_def atomic_increment_def incrementAndGet_def addAndGet_def getAndAdd_def th_demo0_def)
  then have r0: "th_reach g out th_demo0" by (rule th_reach.new)
  have "th_step g out th_demo0 (Thread_start (Some 9) \<lparr>started = False, joined = False, pthreadId = 0, tname = ''w''\<rparr> th_demo0)"
    by (rule th_step.start) (simp_all add: th_demo0_def)
  then have "th_step g out th_demo0 (Inr th_demo1)" by (simp add: Thread_start_def th_demo1_def)
  then show ?thesis by (rule th_reach.step [OF r0])
qed

theorem thread_well_formed_witness:
  "ok (Thread_join \<lparr>started = True, joined = False, pthreadId = 9, tname = ''w''\<rparr> th_demo1) \<and> ok (child_next 42 ThrowsOther th_demo1)
    \<and> child_next 123456 ThrowsOther th_demo1 = Inl AssertFailed"
  using thread_well_formed [OF _ th_demo_reach [of 42 ThrowsOther], of "\<lparr>started = True, joined = False, pthreadId = 9, tname = ''w''\<rparr>" 0]
    thread_well_formed [OF _ th_demo_reach [of 123456 ThrowsOther], of "\<lparr>started = True, joined = False, pthreadId = 9, tname = ''w''\<rparr>" 0]
  by (simp add: th_demo1_def th_demo0_def child_active_def)

text \<open>\<^verbatim>\<open>tid()\<close> right after \<^verbatim>\<open>start()\<close> has returned can still be 0: the new thread has not come to its write yet.\<close>

lemma thread_tid_late: "th_reach 42 Returns th_demo1 \<and> Thread_tid th_demo1 = Inr 0"
  using th_demo_reach by (simp add: Thread_tid_def th_demo1_def th_demo0_def)


end
