(* ===== verification/Pool_Threads.thy ===== *)
theory Pool_Threads
  imports Thread_Pool Thread_Class
begin

text \<open>
  The threads of a \<^verbatim>\<open>ThreadPool\<close> (\<^verbatim>\<open>base/ThreadPool.cc\<close>) as objects of class \<^verbatim>\<open>Thread\<close>: how \<^verbatim>\<open>start\<close> makes and names them, how
  \<^verbatim>\<open>stop\<close> joins them, and what becomes of an exception that a task throws, through the handlers of \<^verbatim>\<open>ThreadPool::runInThread\<close> and of the
  function that runs a thread. The queue, \<^verbatim>\<open>running_\<close> and the waiting are in the theory \<^verbatim>\<open>Thread_Pool\<close>.
\<close>

section \<open>Start and stop\<close>

text \<open>The loop of \<^verbatim>\<open>start\<close> from thread number \<open>i\<close> on; the list has the identifiers that \<^verbatim>\<open>pthread_create\<close> gives, \<open>None\<close> when it fails.\<close>

fun start_threads :: "string \<Rightarrow> nat \<Rightarrow> nat option list \<Rightarrow> 32 word \<Rightarrow> (thread_sys list \<times> 32 word) res" where
  "start_threads name i [] num = Inr ([], num)"
| "start_threads name i (c # cs) num =
     bindE (Thread_new (name @ dec_nat i) num) (\<lambda>(s, num1).
       case th_obj s of
         None \<Rightarrow> Inl NullDeref
       | Some t \<Rightarrow>
           bindE (Thread_start c t s) (\<lambda>s1.
           bindE (start_threads name (Suc i) cs num1) (\<lambda>(ss, num2). Inr (s1 # ss, num2))))"

definition tpool_start :: "string \<Rightarrow> nat option list \<Rightarrow> thread_sys list \<Rightarrow> 32 word \<Rightarrow> (thread_sys list \<times> 32 word) res" where
  "tpool_start name cs threads num = cassert (threads = []) (start_threads name 0 cs num)"

text \<open>The joins of \<^verbatim>\<open>stop\<close>; each of them waits until the function of its thread has returned.\<close>

definition join_one :: "thread_sys \<Rightarrow> thread_sys res" where
  "join_one s =
     (case th_obj s of
        None \<Rightarrow> Inl NullDeref
      | Some t \<Rightarrow> bindE (Thread_join t s) (\<lambda>s1. Inr (join_return s1)))"

fun join_all :: "thread_sys list \<Rightarrow> thread_sys list res" where
  "join_all [] = Inr []"
| "join_all (s # ss) = bindE (join_one s) (\<lambda>s1. bindE (join_all ss) (\<lambda>ss1. Inr (s1 # ss1)))"

section \<open>Running tasks\<close>

text \<open>
  \<^verbatim>\<open>ThreadPool::runInThread\<close>. The list has, for each turn of the loop, the value of \<^verbatim>\<open>running_\<close> that the loop reads and what \<^verbatim>\<open>take\<close> gives (\<open>None\<close> for
  an empty task); \<open>out t\<close> is how task \<open>t\<close> ends. The result has the tasks that were called, the lines on \<^verbatim>\<open>stderr\<close>, and how the function ends.
\<close>

datatype pool_end = PoolReturns | PoolAborts | PoolRethrows | PoolRuns

definition pool_catch :: "string \<Rightarrow> thread_outcome \<Rightarrow> string list \<times> pool_end" where
  "pool_catch name e =
     (case e of
        Returns \<Rightarrow> ([], PoolRuns)
      | Throws ex \<Rightarrow>
          ([''exception caught in ThreadPool '' @ name, ''reason: '' @ ex_what ex, ''stack trace: '' @ ex_stackTrace ex], PoolAborts)
      | ThrowsStd w \<Rightarrow> ([''exception caught in ThreadPool '' @ name, ''reason: '' @ w], PoolAborts)
      | ThrowsOther \<Rightarrow> ([''unknown exception caught in ThreadPool '' @ name], PoolRethrows))"

fun pool_runInThread :: "string \<Rightarrow> ('a \<Rightarrow> thread_outcome) \<Rightarrow> (bool \<times> 'a option) list \<Rightarrow> 'a list \<times> string list \<times> pool_end" where
  "pool_runInThread name out [] = ([], [], PoolRuns)"
| "pool_runInThread name out ((running, task) # ts) =
     (if \<not> running then ([], [], PoolReturns)
      else case task of
             None \<Rightarrow> pool_runInThread name out ts
           | Some t \<Rightarrow>
               (if out t = Returns then (case pool_runInThread name out ts of (called, r) \<Rightarrow> (t # called, r))
                else ([t], pool_catch name (out t))))"

text \<open>The function as the function of a thread with name \<open>n\<close>: after an exception that is thrown again, the handlers of the thread are run.\<close>

definition pool_thread :: "string \<Rightarrow> ('a \<Rightarrow> thread_outcome) \<Rightarrow> (bool \<times> 'a option) list \<Rightarrow> string \<Rightarrow> thread_sys \<Rightarrow> 'a list \<times> thread_sys" where
  "pool_thread name out ts n s =
     (case pool_runInThread name out ts of
        (called, ls, e) \<Rightarrow>
          (let s1 = s\<lparr>th_stderr := th_stderr s @ ls\<rparr>
           in (called, case e of
                 PoolReturns \<Rightarrow> run_func Returns n s1
               | PoolAborts \<Rightarrow> s1\<lparr>child := ChAborted\<rparr>
               | PoolRethrows \<Rightarrow> run_func ThrowsOther n s1
               | PoolRuns \<Rightarrow> s1)))"

section \<open>Lemmas\<close>

lemma sint_inc: "sint num + 1 < 2 ^ 31 \<Longrightarrow> sint (num + 1) = sint num + 1" for num :: "32 word"
  using sint_ge [of num] by (simp add: sint_word_ariths signed_take_bit_int_eq_self)

text \<open>A thread that was started: its object, the name in its data, and the first step of its function.\<close>

definition just_started :: "string \<Rightarrow> nat option \<Rightarrow> thread_sys \<Rightarrow> bool" where
  "just_started n c s \<longleftrightarrow> (\<exists>p. c = Some p \<and> th_obj s = Some \<lparr>started = True, joined = False, pthreadId = p, tname = n\<rparr>
     \<and> thread_data s = Some n \<and> child s = ChTid)"

lemma new_start:
  assumes "sint num + 1 < 2 ^ 31"
  shows "\<exists>s. Thread_new n num = Inr (s, num + 1)
    \<and> (\<exists>t. th_obj s = Some t \<and> (\<exists>s1. Thread_start (Some p) t s = Inr s1 \<and> just_started n (Some p) s1) \<and> Thread_start None t s = Inl Fatal)"
  using sint_inc [OF assms]
  by (simp add: Thread_new_def atomic_increment_def incrementAndGet_def addAndGet_def getAndAdd_def Thread_start_def just_started_def)

lemma start_threads_ok:
  "None \<notin> set cs \<Longrightarrow> sint num + int (length cs) < 2 ^ 31 \<Longrightarrow>
    \<exists>ss num'. start_threads name i cs num = Inr (ss, num') \<and> length ss = length cs
      \<and> (\<forall>k < length cs. just_started (name @ dec_nat (i + k)) (cs ! k) (ss ! k))"
proof (induction cs arbitrary: i num)
  case (Cons c cs)
  then obtain p where c: "c = Some p" by (cases c) auto
  have num: "sint num + 1 < 2 ^ 31" using Cons.prems(2) by simp
  obtain s t s1 where s: "Thread_new (name @ dec_nat i) num = Inr (s, num + 1)" "th_obj s = Some t" "Thread_start c t s = Inr s1"
    "just_started (name @ dec_nat i) c s1" using new_start [OF num, of "name @ dec_nat i" p] c by blast
  obtain ss num' where ss: "start_threads name (Suc i) cs (num + 1) = Inr (ss, num')" "length ss = length cs"
    "\<forall>k < length cs. just_started (name @ dec_nat (Suc i + k)) (cs ! k) (ss ! k)"
    using Cons.IH [of "num + 1" "Suc i"] Cons.prems sint_inc [OF num] by auto
  have "\<forall>k < length (c # cs). just_started (name @ dec_nat (i + k)) ((c # cs) ! k) ((s1 # ss) ! k)"
    using s(4) ss(3) by (auto simp: less_Suc_eq_0_disj)
  then show ?case using s ss by auto
qed simp

lemma start_threads_fails:
  "None \<in> set cs \<Longrightarrow> sint num + int (length cs) < 2 ^ 31 \<Longrightarrow> start_threads name i cs num = Inl Fatal"
proof (induction cs arbitrary: i num)
  case (Cons c cs)
  have num: "sint num + 1 < 2 ^ 31" using Cons.prems(2) by simp
  show ?case
  proof (cases c)
    case None
    then show ?thesis using new_start [OF num, of "name @ dec_nat i" 0] by auto
  next
    case (Some p)
    then have "start_threads name (Suc i) cs (num + 1) = Inl Fatal" using Cons sint_inc [OF num] by simp
    then show ?thesis using Some new_start [OF num, of "name @ dec_nat i" p] by auto
  qed
qed simp

lemma join_all_ok:
  "\<forall>s \<in> set ss. \<exists>t. th_obj s = Some t \<and> started t \<and> \<not> joined t \<Longrightarrow>
    \<exists>ss'. join_all ss = Inr ss' \<and> length ss' = length ss \<and> (\<forall>s \<in> set ss'. pt_joined s \<and> (\<exists>t. th_obj s = Some t \<and> started t \<and> joined t))"
  by (induction ss) (auto simp: join_one_def Thread_join_def join_return_def)

lemma join_all_again:
  "ss \<noteq> [] \<Longrightarrow> \<forall>s \<in> set ss. \<exists>t. th_obj s = Some t \<and> joined t \<and> started t \<Longrightarrow> join_all ss = Inl AssertFailed"
  by (cases ss) (auto simp: join_one_def Thread_join_def)

lemma pool_run_prefix:
  assumes "\<forall>(r, k) \<in> set pre. r \<and> (\<forall>t. k = Some t \<longrightarrow> out t = Returns)"
  shows "pool_runInThread name out (pre @ ts) =
    (case pool_runInThread name out ts of (called, r) \<Rightarrow> (List.map_filter snd pre @ called, r))"
  using assms by (induction pre) (auto simp: List.map_filter_simps split: option.splits prod.splits)

section \<open>Properties\<close>

text \<open>
  \<^verbatim>\<open>ThreadPool::start\<close> and \<^verbatim>\<open>ThreadPool::stop\<close>: when every thread can be created, thread \<open>k\<close> is started with the name of the pool and the decimal number \<open>k\<close>, and these names differ; a
  creation that fails ends the program. Once the threads have come to their ends \<^verbatim>\<open>stop\<close> joins all of them; a second call of \<^verbatim>\<open>stop\<close> fails
  the assertion of \<^verbatim>\<open>Thread::join\<close>, and so does a second \<^verbatim>\<open>start\<close> that of its own.
\<close>

theorem pool_threads_life:
  assumes "sint num + int (length cs) < 2 ^ 31"
  shows "if None \<in> set cs then tpool_start name cs [] num = Inl Fatal
    else \<exists>ss num'. tpool_start name cs [] num = Inr (ss, num') \<and> length ss = length cs
      \<and> (\<forall>k < length cs. just_started (name @ dec_nat k) (cs ! k) (ss ! k)) \<and> distinct (map thread_data ss)
      \<and> (cs \<noteq> [] \<longrightarrow> tpool_start name cs' ss num' = Inl AssertFailed)
      \<and> (\<forall>ss1. map th_obj ss1 = map th_obj ss \<longrightarrow>
          (\<exists>ss2. join_all ss1 = Inr ss2 \<and> (\<forall>s \<in> set ss2. pt_joined s) \<and> (cs \<noteq> [] \<longrightarrow> join_all ss2 = Inl AssertFailed)))"
proof (cases "None \<in> set cs")
  case True
  then show ?thesis using start_threads_fails assms by (simp add: tpool_start_def)
next
  case False
  obtain ss num' where ss: "start_threads name 0 cs num = Inr (ss, num')" "length ss = length cs"
    "\<forall>k < length cs. just_started (name @ dec_nat k) (cs ! k) (ss ! k)" using start_threads_ok [OF False assms, of name 0] by auto
  have n: "thread_data (ss ! k) = Some (name @ dec_nat k)" if "k < length cs" for k using ss(3) that by (auto simp: just_started_def)
  have d: "distinct (map thread_data ss)" using ss(2) by (auto simp: distinct_conv_nth n dest: dec_nat_inj)
  have j: "\<exists>ss2. join_all ss1 = Inr ss2 \<and> (\<forall>s \<in> set ss2. pt_joined s) \<and> (cs \<noteq> [] \<longrightarrow> join_all ss2 = Inl AssertFailed)"
    if "map th_obj ss1 = map th_obj ss" for ss1
  proof -
    have len: "length ss1 = length cs" using that ss(2) by (metis length_map)
    have "th_obj (ss1 ! k) = th_obj (ss ! k)" if "k < length cs" for k
      using that \<open>map th_obj ss1 = map th_obj ss\<close> len ss(2) by (metis nth_map)
    then have "\<forall>s \<in> set ss1. \<exists>t. th_obj s = Some t \<and> started t \<and> \<not> joined t"
      using ss(3) len by (auto simp: in_set_conv_nth just_started_def) fastforce
    from join_all_ok [OF this] obtain ss2 where ss2: "join_all ss1 = Inr ss2" "length ss2 = length cs"
      "\<forall>s \<in> set ss2. pt_joined s \<and> (\<exists>t. th_obj s = Some t \<and> started t \<and> joined t)" using len by auto
    moreover have "join_all ss2 = Inl AssertFailed" if "cs \<noteq> []"
      by (rule join_all_again) (use that ss2 in auto)
    ultimately show ?thesis by blast
  qed
  have "cs \<noteq> [] \<longrightarrow> ss \<noteq> []" using ss(2) by auto
  then show ?thesis using False ss d j by (simp add: tpool_start_def)
qed

text \<open>
  C23. An exception of a task ends the program (\<^verbatim>\<open>ThreadPool::runInThread\<close> as the function of a thread): the tasks that the worker took before are called in order, then the one that throws, and
  none after it. An \<^verbatim>\<open>Exception\<close> or \<^verbatim>\<open>std::exception\<close> is reported on \<^verbatim>\<open>stderr\<close> with the name of the pool and its reason, and with the stack trace if it has one, before the program is
  aborted; any other exception is reported with the name of the pool, thrown again, and reported once more with the name of the
  thread. Without exceptions the function returns as soon as it finds the pool stopped, and the thread comes to its regular end.
\<close>

theorem pool_task_exception:
  assumes "\<forall>(r, k) \<in> set pre. r \<and> (\<forall>u. k = Some u \<longrightarrow> out u = Returns)"
  shows "(out t \<noteq> Returns \<longrightarrow>
      (\<exists>s'. pool_thread name out (pre @ (True, Some t) # rest) n s = (List.map_filter snd pre @ [t], s') \<and> child s' = ChAborted
        \<and> th_stderr s' = th_stderr s @
            (case out t of
               Throws ex \<Rightarrow> [''exception caught in ThreadPool '' @ name, ''reason: '' @ ex_what ex, ''stack trace: '' @ ex_stackTrace ex]
             | ThrowsStd w \<Rightarrow> [''exception caught in ThreadPool '' @ name, ''reason: '' @ w]
             | _ \<Rightarrow> [''unknown exception caught in ThreadPool '' @ name, ''unknown exception caught in Thread '' @ n])))
    \<and> pool_thread name out (pre @ (False, k) # rest) n s = (List.map_filter snd pre, run_func Returns n s)"
  using pool_run_prefix [OF assms]
  by (cases "out t") (simp_all add: pool_thread_def pool_catch_def run_func_def crashed_def Let_def)

definition pool_demo :: "thread_sys" where
  "pool_demo = th_demo0\<lparr>child := ChRun\<rparr>"

theorem pool_task_exception_witness:
  "fst (pool_thread ''io'' (\<lambda>t. if t = (2 :: nat) then ThrowsOther else Returns) ([(True, Some 1), (True, None)] @ (True, Some 2) # [(True, Some 3)]) ''io0'' pool_demo) = [1, 2]
   \<and> th_stderr (snd (pool_thread ''io'' (\<lambda>t. if t = (2 :: nat) then ThrowsOther else Returns) ([(True, Some 1), (True, None)] @ (True, Some 2) # [(True, Some 3)]) ''io0'' pool_demo))
     = [''unknown exception caught in ThreadPool io'', ''unknown exception caught in Thread io0'']"
proof -
  let ?out = "\<lambda>t. if t = (2 :: nat) then ThrowsOther else Returns"
  have "\<forall>(r, k) \<in> set [(True, Some 1), (True, None)]. r \<and> (\<forall>u. k = Some u \<longrightarrow> ?out u = Returns)" by auto
  from pool_task_exception [OF this, of 2 "''io''" "[(True, Some 3)]" "''io0''" pool_demo None] show ?thesis
    by (auto simp: List.map_filter_simps pool_demo_def th_demo0_def)
qed

end
