(* ===== verification/Shared_Objects.thy ===== *)
theory Shared_Objects
  imports Cobra_Prelude
begin

text \<open>
  The objects that threads share or keep to themselves: \<^verbatim>\<open>Singleton\<close> (\<^verbatim>\<open>base/Singleton.h\<close>), \<^verbatim>\<open>ThreadLocal\<close>
  (\<^verbatim>\<open>base/ThreadLocal.h\<close>) and \<^verbatim>\<open>ThreadLocalSingleton\<close> (\<^verbatim>\<open>base/ThreadLocalSingleton.h\<close>). A \<^verbatim>\<open>new T()\<close> gives the next number as the address
  of the object. \<^verbatim>\<open>pthread_once\<close> runs its function in the first caller and holds up the others until it is done; at the end of a thread, a
  non-null value of a live key is set to null and handed to the key's destructor. The two thread-local classes are two
  interpretations of the locale \<open>per_thread\<close>.
\<close>

section \<open>Singleton\<close>

datatype once_state = OnceInit | OnceBusy nat | OnceDone

text \<open>Where a thread is: outside, in \<^verbatim>\<open>init\<close> before and after the object is made, at the return, and outside with a reference.\<close>

datatype sg_pc = SgIdle | SgInit | SgAtexit | SgValue | SgHas nat

record singleton =
  ponce :: once_state
  sg_value :: "nat option"
  sg_created :: nat
  sg_atexit :: nat
  sg_deleted :: "nat list"
  sg_at :: "nat \<Rightarrow> sg_pc"

definition Singleton_initial :: singleton where
  "Singleton_initial = \<lparr>ponce = OnceInit, sg_value = None, sg_created = 0, sg_atexit = 0, sg_deleted = [], sg_at = (\<lambda>_. SgIdle)\<rparr>"

definition sg_goto :: "nat \<Rightarrow> sg_pc \<Rightarrow> singleton \<Rightarrow> singleton" where
  "sg_goto t pc s = s\<lparr>sg_at := (sg_at s)(t := pc)\<rparr>"

text \<open>\<^verbatim>\<open>instance\<close>: the call of \<^verbatim>\<open>pthread_once\<close>, the two statements of \<^verbatim>\<open>init\<close>, and the return of \<^verbatim>\<open>*value_\<close>.\<close>

definition sg_once :: "nat \<Rightarrow> singleton \<Rightarrow> singleton" where
  "sg_once t s =
     (case ponce s of
        OnceInit \<Rightarrow> sg_goto t SgInit (s\<lparr>ponce := OnceBusy t\<rparr>)
      | OnceBusy u \<Rightarrow> s
      | OnceDone \<Rightarrow> sg_goto t SgValue s)"

definition sg_init_new :: "nat \<Rightarrow> singleton \<Rightarrow> singleton" where
  "sg_init_new t s = sg_goto t SgAtexit (s\<lparr>sg_value := Some (sg_created s), sg_created := Suc (sg_created s)\<rparr>)"

definition sg_init_atexit :: "nat \<Rightarrow> singleton \<Rightarrow> singleton" where
  "sg_init_atexit t s = sg_goto t SgValue (s\<lparr>sg_atexit := Suc (sg_atexit s), ponce := OnceDone\<rparr>)"

definition sg_return :: "nat \<Rightarrow> singleton \<Rightarrow> singleton res" where
  "sg_return t s = (case sg_value s of None \<Rightarrow> Inl NullDeref | Some p \<Rightarrow> Inr (sg_goto t (SgHas p) s))"

text \<open>\<^verbatim>\<open>destroy\<close>, and the end of the process, which runs it as often as it was registered.\<close>

definition sg_destroy :: "singleton \<Rightarrow> singleton" where
  "sg_destroy s = s\<lparr>sg_deleted := sg_deleted s @ (case sg_value s of None \<Rightarrow> [] | Some p \<Rightarrow> [p])\<rparr>"

definition sg_exit :: "singleton \<Rightarrow> singleton" where
  "sg_exit s = (sg_destroy ^^ sg_atexit s) (s\<lparr>sg_atexit := 0\<rparr>)"

inductive sg_step :: "nat \<Rightarrow> singleton \<Rightarrow> singleton res \<Rightarrow> bool" where
  call: "sg_at s t = SgIdle \<or> sg_at s t = SgHas p \<Longrightarrow> (\<And>u. ponce s \<noteq> OnceBusy u) \<Longrightarrow> sg_step t s (Inr (sg_once t s))"
| new: "sg_at s t = SgInit \<Longrightarrow> sg_step t s (Inr (sg_init_new t s))"
| atexit: "sg_at s t = SgAtexit \<Longrightarrow> sg_step t s (Inr (sg_init_atexit t s))"
| ret: "sg_at s t = SgValue \<Longrightarrow> sg_step t s (sg_return t s)"

inductive sg_reach :: "singleton \<Rightarrow> bool" where
  start: "sg_reach Singleton_initial"
| step: "sg_reach s \<Longrightarrow> sg_step t s (Inr s') \<Longrightarrow> sg_reach s'"

definition sg_inv :: "singleton \<Rightarrow> bool" where
  "sg_inv s \<longleftrightarrow> sg_deleted s = [] \<and>
     (case ponce s of
        OnceInit \<Rightarrow> sg_value s = None \<and> sg_created s = 0 \<and> sg_atexit s = 0 \<and> (\<forall>t. sg_at s t = SgIdle)
      | OnceBusy u \<Rightarrow> sg_atexit s = 0 \<and> (\<forall>t. t \<noteq> u \<longrightarrow> sg_at s t = SgIdle)
          \<and> (sg_at s u = SgInit \<and> sg_value s = None \<and> sg_created s = 0
             \<or> sg_at s u = SgAtexit \<and> sg_value s = Some 0 \<and> sg_created s = 1)
      | OnceDone \<Rightarrow> sg_value s = Some 0 \<and> sg_created s = 1 \<and> sg_atexit s = 1
          \<and> (\<forall>t. sg_at s t \<in> {SgIdle, SgValue, SgHas 0}))"

lemmas sg_defs = sg_once_def sg_init_new_def sg_init_atexit_def sg_return_def sg_goto_def

lemma sg_inv_initial: "sg_inv Singleton_initial"
  by (simp add: sg_inv_def Singleton_initial_def)

lemma sg_inv_where:
  "sg_inv s \<Longrightarrow> sg_at s t = SgInit \<Longrightarrow> ponce s = OnceBusy t \<and> sg_value s = None \<and> sg_created s = 0"
  "sg_inv s \<Longrightarrow> sg_at s t = SgAtexit \<Longrightarrow> ponce s = OnceBusy t \<and> sg_value s = Some 0 \<and> sg_created s = 1"
  "sg_inv s \<Longrightarrow> sg_at s t = SgValue \<Longrightarrow> ponce s = OnceDone"
  by (auto simp: sg_inv_def split: once_state.splits dest!: spec [of _ t])

lemma sg_step_inv:
  assumes "sg_inv s" and "sg_step t s r"
  shows "\<exists>s'. r = Inr s' \<and> sg_inv s'"
  using assms(2)
proof cases
  case (call p)
  then show ?thesis using assms(1) by (cases "ponce s") (auto simp: sg_inv_def sg_defs)
next
  case new
  then show ?thesis using assms(1) sg_inv_where(1) [OF assms(1) new(2)] by (auto simp: sg_inv_def sg_defs)
next
  case atexit
  then show ?thesis using assms(1) sg_inv_where(2) [OF assms(1) atexit(2)] by (auto simp: sg_inv_def sg_defs)
next
  case ret
  then show ?thesis using assms(1) sg_inv_where(3) [OF assms(1) ret(2)] by (auto simp: sg_inv_def sg_defs)
qed

lemma sg_reach_inv: "sg_reach s \<Longrightarrow> sg_inv s"
  by (induction rule: sg_reach.induct) (use sg_inv_initial sg_step_inv in blast)+

lemma sg_exit_once: "sg_inv s \<Longrightarrow> ponce s = OnceDone \<Longrightarrow> sg_deleted (sg_exit s) = [0] \<and> sg_value (sg_exit s) = Some 0"
  by (simp add: sg_inv_def sg_exit_def sg_destroy_def)

text \<open>
  C25. \<^verbatim>\<open>Singleton::instance\<close> makes one object. Over every interleaving of any number of threads that call it, no
  thread dereferences a null pointer, at most one object is made, all threads that hold a reference hold the same object, which is then
  registered for deletion exactly once and not deleted; a thread that is inside the function can take its next step, and a call has to wait
  only while another thread is in \<^verbatim>\<open>init\<close>; and the end of the process deletes the object exactly once.
\<close>

theorem singleton_one_object:
  assumes "sg_reach s"
  shows "\<not> sg_step t s (Inl e)
    \<and> sg_created s \<le> 1 \<and> sg_deleted s = []
    \<and> (sg_at s t = SgHas p \<longrightarrow> p = 0 \<and> sg_created s = 1 \<and> sg_atexit s = 1 \<and> sg_deleted (sg_exit s) = [p])
    \<and> (sg_at s t \<in> {SgInit, SgAtexit, SgValue} \<longrightarrow> (\<exists>s'. sg_step t s (Inr s')))
    \<and> (ponce s = OnceBusy u \<longrightarrow> sg_at s u \<in> {SgInit, SgAtexit})"
proof (intro conjI impI)
  note i = sg_reach_inv [OF assms]
  show "\<not> sg_step t s (Inl e)" using sg_step_inv [OF i] by blast
  show "sg_created s \<le> 1" "sg_deleted s = []" using i by (auto simp: sg_inv_def split: once_state.splits)
  have dn: "ponce s = OnceDone" "p = 0" if "sg_at s t = SgHas p"
    using i that by (auto simp: sg_inv_def split: once_state.splits dest!: spec [of _ t])
  then show "p = 0" "sg_created s = 1" "sg_atexit s = 1" "sg_deleted (sg_exit s) = [p]" if "sg_at s t = SgHas p"
    using that i sg_exit_once [OF i] by (simp_all add: sg_inv_def)
  show "\<exists>s'. sg_step t s (Inr s')" if at: "sg_at s t \<in> {SgInit, SgAtexit, SgValue}"
  proof (cases "sg_at s t = SgValue")
    case True
    then show ?thesis
      using sg_step.ret [OF True] sg_step_inv [OF i sg_step.ret [OF True]] by auto
  qed (use at in \<open>auto intro: sg_step.new sg_step.atexit\<close>)
  show "sg_at s u \<in> {SgInit, SgAtexit}" if "ponce s = OnceBusy u"
    using i that by (auto simp: sg_inv_def)
qed

text \<open>Thread 1 makes the object while thread 2 waits; then both have it.\<close>

definition sg_demo :: singleton where
  "sg_demo = Singleton_initial\<lparr>ponce := OnceDone, sg_value := Some 0, sg_created := 1, sg_atexit := 1,
     sg_at := (\<lambda>_. SgIdle)(1 := SgHas 0, 2 := SgHas 0)\<rparr>"

lemma sg_demo_reach: "sg_reach sg_demo"
proof -
  have a: "sg_reach (sg_once 1 Singleton_initial)" (is "sg_reach ?s1")
    by (rule sg_reach.step [OF sg_reach.start sg_step.call]) (simp_all add: Singleton_initial_def)
  have b: "sg_reach (sg_init_new 1 ?s1)" (is "sg_reach ?s2")
    by (rule sg_reach.step [OF a sg_step.new]) (simp add: sg_defs Singleton_initial_def)
  have c: "sg_reach (sg_init_atexit 1 ?s2)" (is "sg_reach ?s3")
    by (rule sg_reach.step [OF b sg_step.atexit]) (simp add: sg_defs Singleton_initial_def)
  have d: "sg_reach (sg_once 2 ?s3)" (is "sg_reach ?s4")
    by (rule sg_reach.step [OF c sg_step.call]) (simp_all add: sg_defs Singleton_initial_def)
  have e: "sg_reach (sg_goto 1 (SgHas 0) ?s4)" (is "sg_reach ?s5")
    using sg_reach.step [OF d, of 1 ?s5] sg_step.ret [of ?s4 1] by (simp add: sg_defs Singleton_initial_def)
  have f: "sg_reach (sg_goto 2 (SgHas 0) ?s5)" (is "sg_reach ?s6")
    using sg_reach.step [OF e, of 2 ?s6] sg_step.ret [of ?s5 2] by (simp add: sg_defs Singleton_initial_def)
  moreover have "?s6 = sg_demo"
    by (simp add: sg_defs Singleton_initial_def sg_demo_def fun_eq_iff)
  ultimately show ?thesis by simp
qed

theorem singleton_one_object_witness: "sg_created sg_demo \<le> 1 \<and> sg_deleted (sg_exit sg_demo) = [0]"
  using singleton_one_object [OF sg_demo_reach, of 1 AssertFailed 0] by (simp add: sg_demo_def)

text \<open>After the end of the process has run \<^verbatim>\<open>destroy\<close>, \<^verbatim>\<open>value_\<close> still points to the deleted object.\<close>

lemma singleton_dangling:
  "sg_inv s \<Longrightarrow> ponce s = OnceDone \<Longrightarrow> \<exists>s'. sg_return t (sg_exit s) = Inr s' \<and> sg_at s' t = SgHas 0 \<and> 0 \<in> set (sg_deleted s')"
  using sg_exit_once [of s] by (simp add: sg_return_def sg_goto_def)


section \<open>ThreadLocal\<close>

record thread_local =
  pkey_values :: "nat \<Rightarrow> nat option"
  pkey_live :: bool
  tl_created :: nat
  tl_deleted :: "nat list"

definition ThreadLocal_new :: thread_local where
  "ThreadLocal_new = \<lparr>pkey_values = (\<lambda>_. None), pkey_live = True, tl_created = 0, tl_deleted = []\<rparr>"

definition ThreadLocal_dtor :: "thread_local \<Rightarrow> thread_local" where
  "ThreadLocal_dtor s = s\<lparr>pkey_live := False\<rparr>"

definition tl_value :: "nat \<Rightarrow> thread_local \<Rightarrow> (nat \<times> thread_local) res" where
  "tl_value t s =
     (case pkey_values s t of
        Some perThreadValue \<Rightarrow> Inr (perThreadValue, s)
      | None \<Rightarrow>
          (let newObj = tl_created s
           in Inr (newObj, s\<lparr>tl_created := Suc newObj, pkey_values := (pkey_values s)(t := Some newObj)\<rparr>)))"

definition tl_destructor :: "nat \<Rightarrow> thread_local \<Rightarrow> thread_local" where
  "tl_destructor x s = s\<lparr>tl_deleted := tl_deleted s @ [x]\<rparr>"

definition tl_thread_exit :: "nat \<Rightarrow> thread_local \<Rightarrow> thread_local res" where
  "tl_thread_exit t s =
     Inr (case pkey_values s t of
            None \<Rightarrow> s
          | Some x \<Rightarrow> if pkey_live s then tl_destructor x (s\<lparr>pkey_values := (pkey_values s)(t := None)\<rparr>) else s)"

section \<open>ThreadLocalSingleton\<close>

record tl_singleton =
  ts_value :: "nat \<Rightarrow> nat option"
  deleter_key :: "nat \<Rightarrow> nat option"
  ts_created :: nat
  ts_deleted :: "nat list"

definition ThreadLocalSingleton_initial :: tl_singleton where
  "ThreadLocalSingleton_initial = \<lparr>ts_value = (\<lambda>_. None), deleter_key = (\<lambda>_. None), ts_created = 0, ts_deleted = []\<rparr>"

definition deleter_set :: "nat \<Rightarrow> nat \<Rightarrow> tl_singleton \<Rightarrow> tl_singleton res" where
  "deleter_set t newObj s =
     cassert (deleter_key s t = None) (Inr (s\<lparr>deleter_key := (deleter_key s)(t := Some newObj)\<rparr>))"

definition ts_pointer :: "nat \<Rightarrow> tl_singleton \<Rightarrow> nat option" where
  "ts_pointer t s = ts_value s t"

definition ts_instance :: "nat \<Rightarrow> tl_singleton \<Rightarrow> (nat \<times> tl_singleton) res" where
  "ts_instance t s =
     bindE (if ts_value s t = None
            then deleter_set t (ts_created s) (s\<lparr>ts_value := (ts_value s)(t := Some (ts_created s)), ts_created := Suc (ts_created s)\<rparr>)
            else Inr s) (\<lambda>s1.
       case ts_value s1 t of None \<Rightarrow> Inl NullDeref | Some p \<Rightarrow> Inr (p, s1))"

definition ts_destructor :: "nat \<Rightarrow> nat \<Rightarrow> tl_singleton \<Rightarrow> tl_singleton res" where
  "ts_destructor t obj s =
     cassert (Some obj = ts_value s t)
      (Inr (s\<lparr>ts_deleted := ts_deleted s @ (case ts_value s t of None \<Rightarrow> [] | Some p \<Rightarrow> [p]), ts_value := (ts_value s)(t := None)\<rparr>))"

definition ts_thread_exit :: "nat \<Rightarrow> tl_singleton \<Rightarrow> tl_singleton res" where
  "ts_thread_exit t s =
     (case deleter_key s t of
        None \<Rightarrow> Inr s
      | Some obj \<Rightarrow> ts_destructor t obj (s\<lparr>deleter_key := (deleter_key s)(t := None)\<rparr>))"

section \<open>An object per thread\<close>

datatype tl_call = Access nat | ThreadExit nat

definition tl_run ::
  "(nat \<Rightarrow> 's \<Rightarrow> (nat \<times> 's) res) \<Rightarrow> (nat \<Rightarrow> 's \<Rightarrow> 's res) \<Rightarrow> tl_call list \<Rightarrow> 's \<Rightarrow> 's res" where
  "tl_run get texit =
     foldE (\<lambda>c s. case c of Access t \<Rightarrow> bindE (get t s) (\<lambda>(p, s1). Inr s1) | ThreadExit t \<Rightarrow> texit t s)"

text \<open>Every object made belongs to exactly one thread or has been deleted exactly once.\<close>

definition objects_owned :: "(nat \<Rightarrow> nat option) \<Rightarrow> nat \<Rightarrow> nat list \<Rightarrow> bool" where
  "objects_owned obj made del \<longleftrightarrow> distinct del \<and> (\<forall>t u p. obj t = Some p \<and> obj u = Some p \<longrightarrow> t = u)
     \<and> (\<forall>t p. obj t = Some p \<longrightarrow> p \<notin> set del)
     \<and> (\<forall>p. p < made \<longleftrightarrow> p \<in> set del \<or> (\<exists>t. obj t = Some p))"

text \<open>
  What both classes promise: the access of a thread finds the thread's object and makes one, with a new address, only when the thread has none;
  the end of the thread deletes the object; neither touches the objects of other threads.
\<close>

locale per_thread =
  fixes good :: "'s \<Rightarrow> bool" and obj_of :: "'s \<Rightarrow> nat \<Rightarrow> nat option" and created :: "'s \<Rightarrow> nat" and deleted :: "'s \<Rightarrow> nat list"
    and get :: "nat \<Rightarrow> 's \<Rightarrow> (nat \<times> 's) res" and texit :: "nat \<Rightarrow> 's \<Rightarrow> 's res"
  assumes get_some: "good s \<Longrightarrow> obj_of s t = Some p \<Longrightarrow> get t s = Inr (p, s)"
    and get_none: "good s \<Longrightarrow> obj_of s t = None \<Longrightarrow>
      \<exists>s1. get t s = Inr (created s, s1) \<and> good s1 \<and> obj_of s1 = (obj_of s)(t := Some (created s))
        \<and> created s1 = Suc (created s) \<and> deleted s1 = deleted s"
    and exit_some: "good s \<Longrightarrow> obj_of s t = Some p \<Longrightarrow>
      \<exists>s1. texit t s = Inr s1 \<and> good s1 \<and> obj_of s1 = (obj_of s)(t := None) \<and> created s1 = created s \<and> deleted s1 = deleted s @ [p]"
    and exit_none: "good s \<Longrightarrow> obj_of s t = None \<Longrightarrow> texit t s = Inr s"
begin

definition owned :: "'s \<Rightarrow> bool" where
  "owned s \<longleftrightarrow> good s \<and> objects_owned (obj_of s) (created s) (deleted s)"

lemma owned_access: "owned s \<Longrightarrow> \<exists>p s1. get t s = Inr (p, s1) \<and> owned s1 \<and> obj_of s1 t = Some p"
proof (cases "obj_of s t")
  case None
  assume o: "owned s"
  then obtain s1 where s1: "get t s = Inr (created s, s1)" "good s1" "obj_of s1 = (obj_of s)(t := Some (created s))"
    "created s1 = Suc (created s)" "deleted s1 = deleted s"
    using get_none [OF _ None] by (auto simp: owned_def)
  have new: "created s \<notin> set (deleted s)" "obj_of s u \<noteq> Some (created s)" for u
    using o less_irrefl [of "created s"] unfolding owned_def objects_owned_def by blast+
  have "p < Suc (created s) \<longleftrightarrow> p \<in> set (deleted s) \<or> (\<exists>u. ((obj_of s)(t := Some (created s))) u = Some p)" for p
    using o None unfolding owned_def objects_owned_def less_Suc_eq by (metis fun_upd_apply option.distinct(1) option.inject)
  then have "owned s1"
    using o s1 new unfolding owned_def objects_owned_def by (simp add: fun_upd_apply)
  then show ?thesis using s1 by auto
next
  case (Some p)
  then show "owned s \<Longrightarrow> ?thesis" using get_some [of s t p] by (auto simp: owned_def)
qed

lemma owned_exit: "owned s \<Longrightarrow> \<exists>s1. texit t s = Inr s1 \<and> owned s1 \<and> obj_of s1 t = None"
proof (cases "obj_of s t")
  case None
  then show "owned s \<Longrightarrow> ?thesis" using exit_none [of s t] by (auto simp: owned_def)
next
  case (Some p)
  assume o: "owned s"
  then obtain s1 where s1: "texit t s = Inr s1" "good s1" "obj_of s1 = (obj_of s)(t := None)" "created s1 = created s"
    "deleted s1 = deleted s @ [p]"
    using exit_some [OF _ Some] by (auto simp: owned_def)
  have "q < created s \<longleftrightarrow> q \<in> set (deleted s @ [p]) \<or> (\<exists>u. ((obj_of s)(t := None)) u = Some q)" for q
    using o Some unfolding owned_def objects_owned_def set_append by (metis Un_iff empty_iff fun_upd_apply insert_iff list.set option.distinct(1) option.inject)
  then have "owned s1"
    using o s1 Some unfolding owned_def objects_owned_def by (auto simp: fun_upd_apply)
  then show ?thesis using s1 by auto
qed

lemma run_owned: "owned s \<Longrightarrow> \<exists>s1. tl_run get texit cs s = Inr s1 \<and> owned s1"
  unfolding tl_run_def
proof (rule foldE_invariant)
  fix c s
  assume "owned s"
  then show "\<exists>s'. (case c of Access t \<Rightarrow> bindE (get t s) (\<lambda>(p, s1). Inr s1) | ThreadExit t \<Rightarrow> texit t s) = Inr s' \<and> owned s'"
    using owned_access [of s] owned_exit [of s] by (cases c) (fastforce simp: bindE_eq_Inr)+
qed

lemma all_exited: "owned s \<Longrightarrow> (\<And>t. obj_of s t = None) \<Longrightarrow> distinct (deleted s) \<and> set (deleted s) = {..< created s}"
  by (auto simp: owned_def objects_owned_def)

end

interpretation tlo: per_thread pkey_live pkey_values tl_created tl_deleted tl_value tl_thread_exit
  by unfold_locales (auto simp: tl_value_def tl_thread_exit_def tl_destructor_def Let_def)

interpretation tso: per_thread "\<lambda>s. deleter_key s = ts_value s" ts_value ts_created ts_deleted ts_instance ts_thread_exit
  by unfold_locales (auto simp: ts_instance_def ts_thread_exit_def ts_destructor_def deleter_set_def)


lemma tlo_start: "tlo.owned ThreadLocal_new"
  by (simp add: tlo.owned_def objects_owned_def ThreadLocal_new_def)

lemma tso_start: "tso.owned ThreadLocalSingleton_initial"
  by (simp add: tso.owned_def objects_owned_def ThreadLocalSingleton_initial_def)

text \<open>
  C24. Every thread has an object of its own. After any sequence of accesses by threads and ends of threads, of a \<^verbatim>\<open>ThreadLocal\<close> and of a
  \<^verbatim>\<open>ThreadLocalSingleton\<close>, no assertion has failed and no null pointer was dereferenced; every object that was made belongs to exactly one thread or has been
  deleted, never both, and none was deleted twice; and an access gives the thread's object, the same one when it is repeated.
\<close>

theorem thread_objects:
  "(\<exists>s. tl_run tl_value tl_thread_exit cs ThreadLocal_new = Inr s
      \<and> objects_owned (pkey_values s) (tl_created s) (tl_deleted s)
      \<and> (\<exists>p s1. tl_value t s = Inr (p, s1) \<and> pkey_values s1 t = Some p \<and> tl_value t s1 = Inr (p, s1)))
   \<and> (\<exists>s. tl_run ts_instance ts_thread_exit cs ThreadLocalSingleton_initial = Inr s
      \<and> objects_owned (ts_value s) (ts_created s) (ts_deleted s)
      \<and> (\<exists>p s1. ts_instance t s = Inr (p, s1) \<and> ts_pointer t s1 = Some p \<and> ts_instance t s1 = Inr (p, s1)))"
proof
  obtain s where s: "tl_run tl_value tl_thread_exit cs ThreadLocal_new = Inr s" "tlo.owned s"
    using tlo.run_owned [OF tlo_start] by blast
  moreover obtain p s1 where "tl_value t s = Inr (p, s1)" "tlo.owned s1" "pkey_values s1 t = Some p"
    using tlo.owned_access [OF s(2)] by blast
  ultimately show "\<exists>s. tl_run tl_value tl_thread_exit cs ThreadLocal_new = Inr s
      \<and> objects_owned (pkey_values s) (tl_created s) (tl_deleted s)
      \<and> (\<exists>p s1. tl_value t s = Inr (p, s1) \<and> pkey_values s1 t = Some p \<and> tl_value t s1 = Inr (p, s1))"
    using tlo.get_some [of s1 t p] by (auto simp: tlo.owned_def)
next
  obtain s where s: "tl_run ts_instance ts_thread_exit cs ThreadLocalSingleton_initial = Inr s" "tso.owned s"
    using tso.run_owned [OF tso_start] by blast
  moreover obtain p s1 where "ts_instance t s = Inr (p, s1)" "tso.owned s1" "ts_value s1 t = Some p"
    using tso.owned_access [OF s(2)] by blast
  ultimately show "\<exists>s. tl_run ts_instance ts_thread_exit cs ThreadLocalSingleton_initial = Inr s
      \<and> objects_owned (ts_value s) (ts_created s) (ts_deleted s)
      \<and> (\<exists>p s1. ts_instance t s = Inr (p, s1) \<and> ts_pointer t s1 = Some p \<and> ts_instance t s1 = Inr (p, s1))"
    using tso.get_some [of s1 t p] by (auto simp: tso.owned_def ts_pointer_def)
qed

text \<open>When all threads have ended, every object made has been deleted exactly once.\<close>

lemma thread_objects_freed:
  "tso.owned s \<Longrightarrow> (\<And>t. ts_value s t = None) \<Longrightarrow> distinct (ts_deleted s) \<and> set (ts_deleted s) = {..< ts_created s}"
  by (rule tso.all_exited)

text \<open>A \<^verbatim>\<open>ThreadLocal\<close> that is destroyed leaves the objects of the threads that are still running: their ends do not delete them.\<close>

lemma ThreadLocal_dtor_leaks: "tl_thread_exit t (ThreadLocal_dtor s) = Inr (ThreadLocal_dtor s)"
  by (simp add: tl_thread_exit_def ThreadLocal_dtor_def split: option.split)


end
