(* ===== verification/Event_Loop.thy ===== *)
theory Event_Loop
  imports Tcp_Stream Worker
begin

text \<open>
  A \<^verbatim>\<open>Worker\<close> with an \<^verbatim>\<open>EPollPoller\<close> and its \<^verbatim>\<open>TcpConnection\<close>s (\<^verbatim>\<open>cobra/worker.cpp\<close>, \<^verbatim>\<open>cobra/poller/epoll_poller.cpp\<close>, \<^verbatim>\<open>cobra/channel.cpp\<close>,
  \<^verbatim>\<open>cobra/tcp_connection.cpp\<close>) put together: the operations are those of the theories of the parts, and what was an argument there is here the part that provides it. The
  callbacks that a connection sets on its channel (\<^verbatim>\<open>boost::bind(&TcpConnection::handleRead, this, _1)\<close> and the others) are the values of \<open>conn_cb\<close>, with the
  address of the connection in them; \<open>lp_conns\<close> has the connections that exist, so that the use of one that does not is a null dereference.

  Left to the environment are the answers of the kernel and what the user's callbacks do: they send on, shut down and read from any connection of the loop.
\<close>

unbundle bit_operations_syntax

section \<open>State\<close>

datatype conn_cb = CbRead nat | CbWrite nat | CbClose nat | CbError nat | CbOther nat

text \<open>What is queued in the loop: \<^verbatim>\<open>ConnectionEstablished\<close> and \<^verbatim>\<open>ConnectionDestroyed\<close> by the owner of the connection, and what connections queue.\<close>

datatype loop_functor = FEstablish nat | FConn nat conn_functor | FDestroy nat

text \<open>\<open>lp_closed\<close> are the connections whose close callback has run and which their owner has not yet removed; \<open>lp_posts\<close> is
  what has been given to \<^verbatim>\<open>queueInLoop\<close> during the current call.\<close>

record 'k loop_io = "(conn_cb, 'k) epoll_poller" +
  lp_conns :: "nat \<rightharpoonup> unit tcp_connection"
  lp_closed :: "nat set"
  lp_posts :: "loop_functor list"

type_synonym 'k loop_worker = "('k loop_io, loop_functor) worker"

text \<open>A connection with the store it works on, and without.\<close>

definition attach :: "'s \<Rightarrow> 't tcp_connection \<Rightarrow> 's tcp_connection" where
  "attach s v =
     \<lparr>c_io = s, c_chan = c_chan v, state = state v, conn_fd = conn_fd v, highWaterMark = highWaterMark v,
      writeCompleteCb = writeCompleteCb v, highWaterMarkCb = highWaterMarkCb v, inputBuffer = inputBuffer v,
      outputBuffer = outputBuffer v, c_queue = c_queue v, written = written v, write_shut = write_shut v\<rparr>"

definition load :: "nat \<Rightarrow> 'k loop_io \<Rightarrow> 'k loop_io tcp_connection res" where
  "load this s = (case lp_conns s this of None \<Rightarrow> Inl NullDeref | Some v \<Rightarrow> Inr (attach s v))"

definition save :: "nat \<Rightarrow> 'k loop_io tcp_connection \<Rightarrow> 'k loop_io" where
  "save this w =
     (c_io w)\<lparr>lp_conns := (lp_conns (c_io w))(this \<mapsto> (attach () w)\<lparr>c_queue := []\<rparr>),
              lp_posts := lp_posts (c_io w) @ map (FConn this) (c_queue w)\<rparr>"

definition on_conn :: "nat \<Rightarrow> ('k loop_io tcp_connection \<Rightarrow> 'k loop_io tcp_connection res) \<Rightarrow> 'k loop_io \<Rightarrow> 'k loop_io res" where
  "on_conn this f s = bindE (load this s) (\<lambda>w. bindE (f w) (\<lambda>w1. Inr (save this w1)))"

section \<open>The environment\<close>

text \<open>Every answer that \<^verbatim>\<open>write\<close> and \<^verbatim>\<open>readv\<close> may give is one of these; an answer that they may not give is replaced.\<close>

definition kernel_write :: "'s tcp_connection \<Rightarrow> nat \<Rightarrow> write_result \<Rightarrow> write_result" where
  "kernel_write w len r =
     (if write_answer w len r then r else if write_shut w then WriteErr EPIPE else WriteErr EWOULDBLOCK)"

definition kernel_read :: "buffer \<Rightarrow> readv_result \<Rightarrow> readv_result" where
  "kernel_read b r = (case r of ReadvError e \<Rightarrow> ReadvError e | ReadvBytes ds \<Rightarrow> ReadvBytes (take (readFd_capacity b) ds))"

text \<open>What a callback of the user does with the connections it has pointers to.\<close>

datatype user_act = USend nat "byte list" write_result | UShutdown nat | URetrieve nat nat

fun act_target :: "user_act \<Rightarrow> nat" where
  "act_target (USend this _ _) = this"
| "act_target (UShutdown this) = this"
| "act_target (URetrieve this _) = this"

type_synonym 'k chan_call = "nat \<Rightarrow> 'k loop_io \<Rightarrow> 'k loop_io res"

fun act_conn :: "'k chan_call \<Rightarrow> user_act \<Rightarrow> 'k loop_io tcp_connection \<Rightarrow> 'k loop_io tcp_connection res" where
  "act_conn upd (USend _ data r) w = send upd True (kernel_write w (length data) r) data w"
| "act_conn upd (UShutdown _) w = shutdown True w"
| "act_conn upd (URetrieve _ n) w =
     bindE (retrieve (min n (readableBytes (inputBuffer w))) (inputBuffer w)) (\<lambda>b. Inr (w\<lparr>inputBuffer := b\<rparr>))"

definition user_act :: "'k chan_call \<Rightarrow> user_act \<Rightarrow> 'k loop_io \<Rightarrow> 'k loop_io res" where
  "user_act upd a s = (if lp_conns s (act_target a) = None then Inr s else on_conn (act_target a) (act_conn upd a) s)"

definition user_acts :: "'k chan_call \<Rightarrow> user_act list \<Rightarrow> 'k loop_io \<Rightarrow> 'k loop_io res" where
  "user_acts upd = foldE (user_act upd)"

record loop_env =
  e_read :: readv_result
  e_write :: write_result
  e_connection :: "user_act list"
  e_message :: "user_act list"
  e_other :: "user_act list"

section \<open>Operations\<close>

text \<open>\<^verbatim>\<open>Channel::update\<close> and \<^verbatim>\<open>Channel::remove\<close> go through the worker, whose flags do not change during a call.\<close>

definition loop_upd :: "'k epoll_ctl \<Rightarrow> nat \<Rightarrow> 'k loop_worker \<Rightarrow> 'k chan_call" where
  "loop_upd ctl self W c s =
     bindE (Worker_UpdateChannel (EPollPoller_UpdateChannel ctl) self c (W\<lparr>w_io := s\<rparr>)) (\<lambda>W1. Inr (w_io W1))"

definition loop_rmv :: "'k epoll_ctl \<Rightarrow> nat \<Rightarrow> 'k loop_worker \<Rightarrow> 'k chan_call" where
  "loop_rmv ctl self W c s =
     bindE (Worker_removeChannel (EPollPoller_removeChannel ctl) self c (W\<lparr>w_io := s\<rparr>)) (\<lambda>W1. Inr (w_io W1))"

text \<open>The callbacks of a connection: those of the user, and the close callback, by which its owner learns of the end.\<close>

definition conn_call ::
  "'k chan_call \<Rightarrow> loop_env \<Rightarrow> nat \<Rightarrow> conn_event \<Rightarrow> 'k loop_io tcp_connection \<Rightarrow> 'k loop_io tcp_connection res" where
  "conn_call upd env this ev w =
     (case ev of
        ConnectionCb \<Rightarrow> bindE (user_acts upd (e_connection env) (save this w)) (load this)
      | MessageCb t \<Rightarrow> bindE (user_acts upd (e_message env) (save this w)) (load this)
      | CloseCb \<Rightarrow> Inr (w\<lparr>c_io := (c_io w)\<lparr>lp_closed := insert this (lp_closed (c_io w))\<rparr>\<rparr>))"

definition lp_run :: "'k chan_call \<Rightarrow> loop_env \<Rightarrow> conn_cb \<Rightarrow> int option \<Rightarrow> 'k loop_io \<Rightarrow> 'k loop_io res" where
  "lp_run upd env cb t s =
     (case cb of
        CbRead this \<Rightarrow>
          on_conn this (\<lambda>w. conn_handleRead upd (conn_call upd env this) (kernel_read (inputBuffer w) (e_read env))
            (case t of None \<Rightarrow> 0 | Some t \<Rightarrow> t) w) s
      | CbWrite this \<Rightarrow>
          on_conn this (\<lambda>w. conn_handleWrite upd (kernel_write w (readableBytes (outputBuffer w)) (e_write env)) w) s
      | CbClose this \<Rightarrow> on_conn this (conn_handleClose upd (conn_call upd env this)) s
      | CbError this \<Rightarrow> on_conn this conn_handleError s
      | CbOther n \<Rightarrow> user_acts upd (e_other env) s)"

text \<open>What was queued during a call is pushed to the worker; a channel is handled with its events.\<close>

definition post_all :: "nat \<Rightarrow> 'k loop_worker \<Rightarrow> 'k loop_worker" where
  "post_all self W =
     foldl (\<lambda>W f. queueInLoop self f W) (W\<lparr>w_io := (w_io W)\<lparr>lp_posts := []\<rparr>\<rparr>) (lp_posts (w_io W))"

definition lp_handle :: "'k epoll_ctl \<Rightarrow> nat \<Rightarrow> loop_env \<Rightarrow> nat \<Rightarrow> int \<Rightarrow> 'k loop_worker \<Rightarrow> 'k loop_worker res" where
  "lp_handle ctl self env c t W =
     bindE (handleEvent (\<lambda>this. lp_conns (w_io W) this \<noteq> None) (lp_run (loop_upd ctl self W) env) c t (w_io W))
       (\<lambda>s. Inr (post_all self (W\<lparr>w_io := s\<rparr>)))"

definition call_functor :: "'k chan_call \<Rightarrow> 'k chan_call \<Rightarrow> loop_env \<Rightarrow> loop_functor \<Rightarrow> 'k loop_io \<Rightarrow> 'k loop_io res" where
  "call_functor upd rmv env f s =
     (case f of
        FEstablish this \<Rightarrow> on_conn this (ConnectionEstablished upd (conn_call upd env this) this) s
      | FDestroy this \<Rightarrow> on_conn this (ConnectionDestroyed upd rmv (conn_call upd env this)) s
      | FConn this g \<Rightarrow>
          (case g of
             SendInLoop data \<Rightarrow> on_conn this (\<lambda>w. sendInLoop upd (kernel_write w (length data) (e_write env)) data w) s
           | ShutdownInLoop \<Rightarrow> on_conn this shutdownInLoop s
           | _ \<Rightarrow> bindE (load this s) (\<lambda>w. user_acts upd (e_other env) s)))"

definition lp_functor :: "'k epoll_ctl \<Rightarrow> nat \<Rightarrow> loop_env \<Rightarrow> loop_functor \<Rightarrow> 'k loop_worker \<Rightarrow> 'k loop_worker res" where
  "lp_functor ctl self env f W =
     bindE (call_functor (loop_upd ctl self W) (loop_rmv ctl self W) env f (w_io W)) (\<lambda>s. Inr (post_all self (W\<lparr>w_io := s\<rparr>)))"

section \<open>Frames\<close>

text \<open>What an operation on the channel at \<open>c\<close> leaves alone: all other channels and descriptors, all of this channel but its events and its
  index, and the rest of the state.\<close>

definition core :: "'cb channel \<Rightarrow> 'cb channel" where
  "core ch = ch\<lparr>events := 0, ch_index := 0\<rparr>"

definition lp_frame :: "'k epoll_ctl \<Rightarrow> ('k \<Rightarrow> int \<rightharpoonup> epoll_event) \<Rightarrow> nat \<Rightarrow> 'k loop_io \<Rightarrow> 'k loop_io \<Rightarrow> bool" where
  "lp_frame ctl km c s0 s \<longleftrightarrow> epoll_ctl_spec ctl km \<and> ep_inv km s
     \<and> (\<forall>d. d \<noteq> c \<longrightarrow> heap s d = heap s0 d)
     \<and> (\<exists>ch ch0. heap s c = Some ch \<and> heap s0 c = Some ch0 \<and> core ch = core ch0 \<and> (\<forall>fd. fd \<noteq> ch_fd ch0 \<longrightarrow> ep_channels s fd = ep_channels s0 fd))
     \<and> epoll_poller.more s = epoll_poller.more s0"

definition on_loop :: "'k loop_worker \<Rightarrow> 'k loop_io \<Rightarrow> nat \<Rightarrow> bool" where
  "on_loop W s c \<longleftrightarrow> (\<forall>ch. heap s c = Some ch \<longrightarrow> ch_loop ch = w_this W)"

definition removable :: "'k loop_worker \<Rightarrow> nat \<Rightarrow> bool" where
  "removable W c \<longleftrightarrow> (eventHandling W \<longrightarrow> currentActiveChannel W = Some c \<or> c \<notin> set (activeChannels W))"

definition lp_update_pre :: "'k epoll_ctl \<Rightarrow> 'k loop_worker \<Rightarrow> nat \<Rightarrow> 'k loop_io \<Rightarrow> nat \<Rightarrow> bool" where
  "lp_update_pre ctl W c s d \<longleftrightarrow> d = c \<and> ep_update_pre ctl s c \<and> on_loop W s c"

definition lp_remove_pre :: "'k loop_worker \<Rightarrow> nat \<Rightarrow> 'k loop_io \<Rightarrow> nat \<Rightarrow> bool" where
  "lp_remove_pre W c s d \<longleftrightarrow> d = c \<and> ep_remove_pre s c \<and> on_loop W s c \<and> removable W c"

definition lp_reg :: "'k loop_worker \<Rightarrow> nat \<Rightarrow> 'k loop_io \<Rightarrow> nat \<Rightarrow> bool" where
  "lp_reg W c s d \<longleftrightarrow> d = c \<and> ep_reg s c \<and> on_loop W s c"

lemma core_fd: "core ch = core ch0 \<Longrightarrow> ch_fd ch = ch_fd ch0 \<and> ch_loop ch = ch_loop ch0"
  by (cases ch; cases ch0) (simp add: core_def)

lemma core_simps [simp]: "core (ch\<lparr>events := e\<rparr>) = core ch" "core (ch\<lparr>ch_index := i\<rparr>) = core ch"
  by (cases ch, simp add: core_def)+

lemma loop_upd_eq:
  "heap s c = Some ch \<Longrightarrow> loop_upd ctl self W c s = cassert (ch_loop ch = w_this W) (EPollPoller_UpdateChannel ctl c s)"
  by (simp add: loop_upd_def Worker_UpdateChannel_def assertInLoopThread_def abortNotInLoopThread_def cassert_def bindE_def split: sum.splits)

lemma loop_rmv_eq:
  "heap s c = Some ch \<Longrightarrow>
    loop_rmv ctl self W c s = cassert (ch_loop ch = w_this W) (cassert (removable W c) (EPollPoller_removeChannel ctl c s))"
  by (simp add: loop_rmv_def Worker_removeChannel_def assertInLoopThread_def abortNotInLoopThread_def removable_def cassert_def bindE_def split: sum.splits)

lemma ep_update_more: "EPollPoller_UpdateChannel ctl c s = Inr s' \<Longrightarrow> epoll_poller.more s' = epoll_poller.more s"
  by (auto simp: EPollPoller_UpdateChannel_def ep_update_def set_index_def mod_ch_def Let_def case_prod_unfold bindE_eq_Inr cassert_eq_Inr
      split: if_splits)

lemma ep_remove_more: "EPollPoller_removeChannel ctl c s = Inr s' \<Longrightarrow> epoll_poller.more s' = epoll_poller.more s"
  by (auto simp: EPollPoller_removeChannel_def ep_update_def set_index_def mod_ch_def Let_def case_prod_unfold bindE_eq_Inr cassert_eq_Inr
      split: if_splits)

text \<open>A registered channel that wants nothing any more leaves the kernel's list.\<close>

lemma ep_update_silenced:
  assumes "EPollPoller_UpdateChannel ctl c s = Inr s'" and "heap s c = Some ch" and "ch_index ch = kAdded" and "events ch = 0"
  shows "heap s' c = Some (ch\<lparr>ch_index := kDeleted\<rparr>)"
  using assms
  by (auto simp: EPollPoller_UpdateChannel_def ep_update_def set_index_def Let_def case_prod_unfold store_simps ep_index_defs isNoneEvent_def kNoneEvent_def
      split: if_splits)

interpretation lpw: watched_channel "lp_frame ctl km c0 s0" "ep_interest km" "loop_upd ctl self W" "loop_rmv ctl self W"
  "lp_update_pre ctl W c0" "lp_remove_pre W c0" "lp_reg W c0"
  for ctl :: "'k epoll_ctl" and km and c0 and s0 and self and W
proof unfold_locales
  fix s :: "'k loop_io" and c ch
  assume a: "lp_frame ctl km c0 s0 s" "heap s c = Some ch" "lp_update_pre ctl W c0 s c"
  then obtain ch0 where c: "c = c0" "ch_loop ch = w_this W" "ep_update_pre ctl s c" and f: "epoll_ctl_spec ctl km" "ep_inv km s"
    "heap s0 c0 = Some ch0" "core ch = core ch0"
    by (auto simp: lp_update_pre_def lp_frame_def on_loop_def)
  obtain s' i where s': "EPollPoller_UpdateChannel ctl c s = Inr s'" "ep_inv km s'"
    "ep_interest km s' = (ep_interest km s)(ch_fd ch := events ch)" "heap s' = (heap s)(c \<mapsto> ch\<lparr>ch_index := i\<rparr>)"
    "ep_channels s' = (ep_channels s)(ch_fd ch \<mapsto> c)"
    using ep_update_ok [OF f(1,2) a(2) c(3)] by blast
  have "lp_frame ctl km c0 s0 s'"
    using a(1,2) c f s' ep_update_more [OF s'(1)] core_fd [OF f(4)] by (auto simp: lp_frame_def)
  then show "\<exists>s'. loop_upd ctl self W c s = Inr s' \<and> lp_frame ctl km c0 s0 s' \<and> ep_interest km s' = (ep_interest km s)(ch_fd ch := events ch)
      \<and> same_channels s s'"
    using s' c(2) a(2) same_channels_index [OF a(2) s'(4)] by (simp add: loop_upd_eq cassert_def)
next
  fix s :: "'k loop_io" and c ch
  assume a: "lp_frame ctl km c0 s0 s" "heap s c = Some ch" "isNoneEvent ch" "lp_remove_pre W c0 s c"
  then obtain ch0 where c: "c = c0" "ch_loop ch = w_this W" "ep_remove_pre s c" "removable W c" and f: "epoll_ctl_spec ctl km" "ep_inv km s"
    "heap s0 c0 = Some ch0" "core ch = core ch0"
    by (auto simp: lp_remove_pre_def lp_frame_def on_loop_def)
  obtain s' where s': "EPollPoller_removeChannel ctl c s = Inr s'" "ep_inv km s'"
    "ep_interest km s' = (ep_interest km s)(ch_fd ch := 0)" "heap s' = (heap s)(c \<mapsto> ch\<lparr>ch_index := kNew\<rparr>)"
    "ep_channels s' = (ep_channels s)(ch_fd ch := None)"
    using ep_remove_ok [OF f(1,2) a(2,3) c(3)] by blast
  have "lp_frame ctl km c0 s0 s'"
    using a(1,2) c f s' ep_remove_more [OF s'(1)] core_fd [OF f(4)] by (auto simp: lp_frame_def)
  then show "\<exists>s'. loop_rmv ctl self W c s = Inr s' \<and> lp_frame ctl km c0 s0 s' \<and> ep_interest km s' = (ep_interest km s)(ch_fd ch := 0)
      \<and> same_channels s s'"
    using s' c(2,4) a(2) same_channels_index [OF a(2) s'(4)] by (simp add: loop_rmv_eq cassert_def)
next
  fix s :: "'k loop_io" and c ch e
  assume a: "lp_frame ctl km c0 s0 s" "heap s c = Some ch" "lp_update_pre ctl W c0 (s\<lparr>heap := (heap s)(c \<mapsto> ch\<lparr>events := e\<rparr>)\<rparr>) c"
  then have "ep_inv km (s\<lparr>heap := (heap s)(c \<mapsto> ch\<lparr>events := e\<rparr>)\<rparr>)" by (intro ep_inv_channel_update) (auto simp: lp_frame_def)
  then show "lp_frame ctl km c0 s0 (s\<lparr>heap := (heap s)(c \<mapsto> ch\<lparr>events := e\<rparr>)\<rparr>)
    \<and> ep_interest km (s\<lparr>heap := (heap s)(c \<mapsto> ch\<lparr>events := e\<rparr>)\<rparr>) = ep_interest km s"
    using a by (auto simp: lp_frame_def lp_update_pre_def ep_interest_def)
next
  fix s :: "'k loop_io" and c ch e
  assume "heap s c = Some ch" "lp_reg W c0 s c"
  then show "lp_update_pre ctl W c0 (s\<lparr>heap := (heap s)(c \<mapsto> ch\<lparr>events := e\<rparr>)\<rparr>) c"
    by (auto simp: lp_reg_def lp_update_pre_def on_loop_def ep_reg_def ep_update_pre_def ep_index_defs)
next
  fix s s' :: "'k loop_io" and c ch and e :: mask
  assume a: "lp_frame ctl km c0 s0 s" "heap s c = Some ch" "lp_reg W c0 s c" "e \<noteq> 0"
    "loop_upd ctl self W c (s\<lparr>heap := (heap s)(c \<mapsto> ch\<lparr>events := e\<rparr>)\<rparr>) = Inr s'"
  then have l: "ch_loop ch = w_this W" and u: "EPollPoller_UpdateChannel ctl c (s\<lparr>heap := (heap s)(c \<mapsto> ch\<lparr>events := e\<rparr>)\<rparr>) = Inr s'"
    by (auto simp: loop_upd_eq cassert_eq_Inr)
  have "ep_reg s' c0" using eps.reg_keep [of ctl km s c ch e s'] a u by (simp add: lp_frame_def lp_reg_def)
  moreover have "on_loop W s' c0"
    using u l a(2,3) unfolding EPollPoller_UpdateChannel_def
    by (auto simp: lp_reg_def on_loop_def ep_update_def set_index_def Let_def case_prod_unfold store_simps split: if_splits)
  ultimately show "lp_reg W c0 s' c" using a(3) by (simp add: lp_reg_def)
qed

section \<open>Invariant\<close>

text \<open>The callbacks on the channel of a connection are the ones its constructor has set; other channels of the loop (the wakeup channel, the timer
  queue's, the acceptor's) have callbacks of their own.\<close>

definition bound :: "nat \<Rightarrow> conn_cb channel \<Rightarrow> bool" where
  "bound this ch \<longleftrightarrow> readCb ch = Some (CbRead this) \<and> writeCb ch = Some (CbWrite this) \<and> closeCb ch = Some (CbClose this)
     \<and> errorCb ch = Some (CbError this)"

definition plain :: "conn_cb channel \<Rightarrow> bool" where
  "plain ch \<longleftrightarrow> \<not> tied ch \<and> (\<forall>cb. cb = readCb ch \<or> cb = writeCb ch \<or> cb = closeCb ch \<or> cb = errorCb ch \<longrightarrow> cb = None \<or> (\<exists>n. cb = Some (CbOther n)))"

text \<open>A connection and its channel, in each state.\<close>

definition conn_shape :: "'k loop_io \<Rightarrow> nat \<Rightarrow> unit tcp_connection \<Rightarrow> conn_cb channel \<Rightarrow> bool" where
  "conn_shape s this v ch \<longleftrightarrow>
     (case state v of
        kConnecting \<Rightarrow> 0 \<le> ch_fd ch \<and> ch_index ch = kNew \<and> events ch = 0 \<and> ep_channels s (ch_fd ch) = None \<and> content (outputBuffer v) = [] \<and> \<not> write_shut v
      | kDisconnected \<Rightarrow> events ch = 0
          \<and> (ep_channels s (ch_fd ch) = Some (c_chan v) \<and> ch_index ch = kDeleted \<or> ep_channels s (ch_fd ch) = None \<and> ch_index ch = kNew)
      | _ \<Rightarrow> ep_reg s (c_chan v) \<and> tied ch \<and> tie ch = Some this \<and> (write_shut v \<longrightarrow> content (outputBuffer v) = [])
          \<and> events ch = (if content (outputBuffer v) = [] then kReadEvent else kReadEvent OR kWriteEvent))"

definition conn_good :: "nat \<Rightarrow> 'k loop_io \<Rightarrow> nat \<Rightarrow> unit tcp_connection \<Rightarrow> bool" where
  "conn_good lid s this v \<longleftrightarrow> (\<exists>ch. heap s (c_chan v) = Some ch \<and> ch_loop ch = lid \<and> bound this ch \<and> conn_shape s this v ch)
     \<and> buf_inv (inputBuffer v) \<and> buf_inv (outputBuffer v) \<and> c_queue v = []"

definition apart :: "'k loop_io \<Rightarrow> bool" where
  "apart s \<longleftrightarrow> (\<forall>a b va vb. a \<noteq> b \<longrightarrow> lp_conns s a = Some va \<longrightarrow> lp_conns s b = Some vb \<longrightarrow>
     c_chan va \<noteq> c_chan vb \<and> map_option ch_fd (heap s (c_chan va)) \<noteq> map_option ch_fd (heap s (c_chan vb)))"

definition others_ok :: "'k loop_io \<Rightarrow> bool" where
  "others_ok s \<longleftrightarrow> (\<forall>d ch. heap s d = Some ch \<longrightarrow> (\<forall>this v. lp_conns s this = Some v \<longrightarrow> c_chan v \<noteq> d) \<longrightarrow> plain ch)"

definition loop_good :: "('k \<Rightarrow> int \<rightharpoonup> epoll_event) \<Rightarrow> nat \<Rightarrow> 'k loop_io \<Rightarrow> bool" where
  "loop_good km lid s \<longleftrightarrow> ep_inv km s \<and> (\<forall>this v. lp_conns s this = Some v \<longrightarrow> conn_good lid s this v) \<and> apart s \<and> others_ok s"

lemma attach_simps [simp]:
  "c_io (attach s v) = s" "c_chan (attach s v) = c_chan v" "state (attach s v) = state v" "inputBuffer (attach s v) = inputBuffer v"
  "outputBuffer (attach s v) = outputBuffer v" "c_queue (attach s v) = c_queue v" "written (attach s v) = written v"
  "write_shut (attach s v) = write_shut v" "conn_fd (attach s v) = conn_fd v"
  by (simp_all add: attach_def)

lemma attach_input: "(attach s v)\<lparr>inputBuffer := inputBuffer v\<rparr> = attach s v"
  by (simp add: attach_def)

lemma save_simps [simp]:
  "heap (save this w) = heap (c_io w)" "ep_channels (save this w) = ep_channels (c_io w)" "ep_kernel (save this w) = ep_kernel (c_io w)"
  "lp_conns (save this w) = (lp_conns (c_io w))(this \<mapsto> (attach () w)\<lparr>c_queue := []\<rparr>)"
  "lp_closed (save this w) = lp_closed (c_io w)" "ep_events_size (save this w) = ep_events_size (c_io w)"
  "lp_posts (save this w) = lp_posts (c_io w) @ map (FConn this) (c_queue w)"
  by (simp_all add: save_def)

lemma ep_inv_cong: "heap s' = heap s \<Longrightarrow> ep_channels s' = ep_channels s \<Longrightarrow> ep_kernel s' = ep_kernel s \<Longrightarrow> ep_inv km s' = ep_inv km s"
  by (simp add: ep_inv_def ep_chan_ok_def)

lemma core_bound: "core ch = core ch0 \<Longrightarrow> bound this ch = bound this ch0 \<and> plain ch = plain ch0 \<and> tied ch = tied ch0 \<and> tie ch = tie ch0
    \<and> revents ch = revents ch0 \<and> ch_eventHandling ch = ch_eventHandling ch0 \<and> ch_fd ch = ch_fd ch0 \<and> ch_loop ch = ch_loop ch0"
  by (cases ch; cases ch0) (simp add: core_def bound_def plain_def)

lemma conn_goodD:
  assumes "loop_good km lid s" and "lp_conns s this = Some v"
  obtains ch where "heap s (c_chan v) = Some ch" "ch_loop ch = lid" "bound this ch" "conn_shape s this v ch"
    "buf_inv (inputBuffer v)" "buf_inv (outputBuffer v)" "c_queue v = []" "ep_inv km s"
  using assms by (auto simp: loop_good_def conn_good_def)

lemma conn_good_frame:
  assumes "conn_good lid s b vb" and "heap s' (c_chan vb) = heap s (c_chan vb)"
    and "\<And>ch. heap s (c_chan vb) = Some ch \<Longrightarrow> ep_channels s' (ch_fd ch) = ep_channels s (ch_fd ch)"
  shows "conn_good lid s' b vb"
  using assms by (auto simp: conn_good_def conn_shape_def ep_reg_def split: conn_state.splits)

lemma apart_same:
  assumes "apart s" and "\<And>d. map_option ch_fd (heap s' d) = map_option ch_fd (heap s d)"
    and "\<And>b vb. lp_conns s' b = Some vb \<Longrightarrow> \<exists>v. lp_conns s b = Some v \<and> c_chan v = c_chan vb"
  shows "apart s'"
  unfolding apart_def assms(2)
proof (intro allI impI)
  fix a b va vb assume ab: "a \<noteq> b" "lp_conns s' a = Some va" "lp_conns s' b = Some vb"
  obtain va0 vb0 where o: "lp_conns s a = Some va0" "c_chan va0 = c_chan va" "lp_conns s b = Some vb0" "c_chan vb0 = c_chan vb"
    using assms(3) [OF ab(2)] assms(3) [OF ab(3)] by blast
  from assms(1) [unfolded apart_def, rule_format, OF ab(1) o(1,3)] o(2,4)
  show "c_chan va \<noteq> c_chan vb \<and> map_option ch_fd (heap s (c_chan va)) \<noteq> map_option ch_fd (heap s (c_chan vb))" by simp
qed

lemma loop_good_save_gen:
  assumes good: "loop_good km lid s" and v: "lp_conns s this = Some v"
    and frame: "lp_frame ctl km (c_chan v) s0 (c_io w)" and c: "c_chan w = c_chan v"
    and s0: "heap s0 = heap s" "ep_channels s0 = ep_channels s" "\<And>t. t \<noteq> this \<Longrightarrow> lp_conns s0 t = lp_conns s t"
    and me: "conn_good lid (save this w) this ((attach () w)\<lparr>c_queue := []\<rparr>)"
  shows "loop_good km lid (save this w)"
proof -
  let ?s = "save this w"
  have "lp_conns (c_io w) = lp_conns s0" using frame by (cases s0; cases "c_io w") (simp add: lp_frame_def)
  then have conns: "lp_conns (c_io w) t = lp_conns s t" if "t \<noteq> this" for t using s0(3) [OF that] by simp
  obtain ch ch0 where h: "heap (c_io w) (c_chan v) = Some ch" "heap s (c_chan v) = Some ch0" "core ch = core ch0"
    "\<And>d. d \<noteq> c_chan v \<Longrightarrow> heap (c_io w) d = heap s d" "\<And>fd. fd \<noteq> ch_fd ch0 \<Longrightarrow> ep_channels (c_io w) fd = ep_channels s fd"
    using frame s0(1,2) by (auto simp: lp_frame_def)
  have fds: "map_option ch_fd (heap ?s d) = map_option ch_fd (heap s d)" for d
    using h(1,2) h(4) [of d] core_fd [OF h(3)] by (cases "d = c_chan v") auto
  have "conn_good lid ?s b vb" if b: "lp_conns ?s b = Some vb" for b vb
  proof (cases "b = this")
    case True
    then show ?thesis using b me by simp
  next
    case False
    then have vb: "lp_conns s b = Some vb" using b conns by simp
    have a: "c_chan vb \<noteq> c_chan v" "map_option ch_fd (heap s (c_chan vb)) \<noteq> Some (ch_fd ch0)"
      using good v vb False h(2) unfolding loop_good_def apart_def by (metis option.simps(9))+
    show ?thesis
      by (rule conn_good_frame [of lid s]) (use good vb a h(4,5) in \<open>auto simp: loop_good_def\<close>)
  qed
  moreover have "apart ?s"
  proof (rule apart_same [OF _ fds])
    show "apart s" using good by (simp add: loop_good_def)
    show "\<exists>v. lp_conns s b = Some v \<and> c_chan v = c_chan vb" if "lp_conns ?s b = Some vb" for b vb
      using that v c conns by (auto split: if_splits)
  qed
  moreover have "others_ok ?s" unfolding others_ok_def
  proof (intro allI impI)
    fix d chd assume d: "heap ?s d = Some chd" "\<forall>b vb. lp_conns ?s b = Some vb \<longrightarrow> c_chan vb \<noteq> d"
    have dv: "d \<noteq> c_chan v" using d(2) [rule_format, of this] c by auto
    have "c_chan vb \<noteq> d" if "lp_conns s b = Some vb" for b vb
      using d(2) [rule_format, of b vb] that conns v dv by (cases "b = this") auto
    then show "plain chd" using good d(1) h(4) [OF dv] by (auto simp: loop_good_def others_ok_def)
  qed
  moreover have "ep_inv km ?s" using frame ep_inv_cong [of ?s "c_io w" km] by (simp add: lp_frame_def)
  ultimately show ?thesis by (simp add: loop_good_def)
qed

lemmas loop_good_save = loop_good_save_gen [of _ _ s _ _ _ s for s, OF _ _ _ _ refl refl refl]

section \<open>Calls of the user\<close>

fun soft :: "conn_functor \<Rightarrow> bool" where
  "soft WriteComplete = True"
| "soft (HighWater _) = True"
| "soft _ = False"

definition conn_keeps :: "nat \<Rightarrow> unit tcp_connection \<Rightarrow> unit tcp_connection \<Rightarrow> bool" where
  "conn_keeps n v v' \<longleftrightarrow> c_chan v' = c_chan v \<and> used (outputBuffer v') \<le> used (outputBuffer v) + n
     \<and> (state v' = state v \<or> state v = kConnected \<and> state v' = kDisconnecting)"

definition conns_keep :: "nat \<Rightarrow> (nat \<rightharpoonup> unit tcp_connection) \<Rightarrow> (nat \<rightharpoonup> unit tcp_connection) \<Rightarrow> bool" where
  "conns_keep n cs cs' \<longleftrightarrow> (\<forall>this. rel_option (conn_keeps n) (cs this) (cs' this))"

text \<open>What calls from the loop thread that bring in \<open>n\<close> bytes change: connections send, shut down and queue notifications.\<close>

definition lp_keeps :: "nat \<Rightarrow> 'k loop_io \<Rightarrow> 'k loop_io \<Rightarrow> bool" where
  "lp_keeps n s s' \<longleftrightarrow> (\<forall>d. map_option core (heap s' d) = map_option core (heap s d)) \<and> lp_closed s' = lp_closed s
     \<and> ep_channels s' = ep_channels s \<and> conns_keep n (lp_conns s) (lp_conns s')
     \<and> (\<exists>fs. lp_posts s' = lp_posts s @ fs \<and> (\<forall>f \<in> set fs. \<exists>this g. f = FConn this g \<and> soft g \<and> lp_conns s this \<noteq> None))"

lemma conn_keeps_refl: "conn_keeps n v v"
  by (simp add: conn_keeps_def)

lemma conn_keeps_trans: "conn_keeps m u v \<Longrightarrow> conn_keeps n v w \<Longrightarrow> conn_keeps (m + n) u w"
  by (auto simp: conn_keeps_def)

lemma conns_keep_refl: "conns_keep n cs cs"
  by (simp add: conns_keep_def conn_keeps_refl option.rel_refl)

lemma conns_keep_trans: "conns_keep m a b \<Longrightarrow> conns_keep n b c \<Longrightarrow> conns_keep (m + n) a c"
proof (unfold conns_keep_def, intro allI)
  fix t
  assume "\<forall>t. rel_option (conn_keeps m) (a t) (b t)" and "\<forall>t. rel_option (conn_keeps n) (b t) (c t)"
  then have "rel_option (conn_keeps m) (a t) (b t)" "rel_option (conn_keeps n) (b t) (c t)" by blast+
  then show "rel_option (conn_keeps (m + n)) (a t) (c t)"
    by (cases "a t"; cases "b t"; cases "c t") (auto intro: conn_keeps_trans)
qed

lemma conns_keep_dom: "conns_keep n cs cs' \<Longrightarrow> cs' t = None \<longleftrightarrow> cs t = None"
  by (auto simp: conns_keep_def rel_option_iff split: option.splits dest: spec [of _ t])

lemma conns_keepD: "conns_keep n cs cs' \<Longrightarrow> cs t = Some v \<Longrightarrow> \<exists>v'. cs' t = Some v' \<and> conn_keeps n v v'"
  unfolding conns_keep_def by (metis option_rel_Some1)

lemma conns_keepD2: "conns_keep n cs cs' \<Longrightarrow> cs' t = Some v' \<Longrightarrow> \<exists>v. cs t = Some v \<and> conn_keeps n v v'"
  unfolding conns_keep_def by (metis option_rel_Some2)

lemma lp_keeps_refl: "lp_keeps 0 s s"
  by (simp add: lp_keeps_def conns_keep_refl)

lemma lp_keeps_trans:
  assumes "lp_keeps m s s1" and "lp_keeps n s1 s2"
  shows "lp_keeps (m + n) s s2"
proof -
  obtain fs where fs: "lp_posts s1 = lp_posts s @ fs" "\<forall>f \<in> set fs. \<exists>this g. f = FConn this g \<and> soft g \<and> lp_conns s this \<noteq> None"
    using assms(1) by (auto simp: lp_keeps_def)
  obtain gs where gs: "lp_posts s2 = lp_posts s1 @ gs" "\<forall>f \<in> set gs. \<exists>this g. f = FConn this g \<and> soft g \<and> lp_conns s1 this \<noteq> None"
    using assms(2) by (auto simp: lp_keeps_def)
  have "conns_keep m (lp_conns s) (lp_conns s1)" using assms(1) by (simp add: lp_keeps_def)
  note dom = conns_keep_dom [OF this]
  have "lp_posts s2 = lp_posts s @ (fs @ gs)" "\<forall>f \<in> set (fs @ gs). \<exists>this g. f = FConn this g \<and> soft g \<and> lp_conns s this \<noteq> None"
    using fs gs dom by auto
  then have "\<exists>hs. lp_posts s2 = lp_posts s @ hs \<and> (\<forall>f \<in> set hs. \<exists>this g. f = FConn this g \<and> soft g \<and> lp_conns s this \<noteq> None)" by blast
  then show ?thesis using assms conns_keep_trans unfolding lp_keeps_def by auto
qed

lemma lp_frame_refl:
  "epoll_ctl_spec ctl km \<Longrightarrow> ep_inv km s \<Longrightarrow> heap s c = Some ch \<Longrightarrow> lp_frame ctl km c s s"
  by (simp add: lp_frame_def)

definition established :: "unit tcp_connection \<Rightarrow> bool" where
  "established v \<longleftrightarrow> state v = kConnected \<or> state v = kDisconnecting"

lemma established_inv:
  assumes "loop_good km lid s" and "lp_conns s this = Some v" and "established v" and "epoll_ctl_spec ctl km" and "w_this W = lid"
  shows "conn_inv (lp_frame ctl km (c_chan v) s) (lp_reg W (c_chan v)) (attach s v)"
proof -
  obtain ch where ch: "heap s (c_chan v) = Some ch" "ch_loop ch = lid" "conn_shape s this v ch" "buf_inv (outputBuffer v)" "ep_inv km s"
    using conn_goodD [OF assms(1,2)] by metis
  then show ?thesis
    using assms(3-5) lp_frame_refl [OF assms(4) ch(5,1)]
    by (auto simp: conn_inv_def lp_reg_def on_loop_def conn_shape_def established_def)
qed

lemma lp_keeps_save:
  assumes v: "lp_conns s this = Some v" and frame: "lp_frame ctl km (c_chan v) s (c_io w)"
    and keep: "conn_keeps n v ((attach () w)\<lparr>c_queue := []\<rparr>)" and q: "\<forall>g \<in> set (c_queue w). soft g"
    and ep: "\<And>ch. heap s (c_chan v) = Some ch \<Longrightarrow> ep_channels (c_io w) (ch_fd ch) = ep_channels s (ch_fd ch)"
  shows "lp_keeps n s (save this w)"
proof -
  have more: "lp_conns (c_io w) = lp_conns s" "lp_closed (c_io w) = lp_closed s" "lp_posts (c_io w) = lp_posts s"
    using frame by (cases s; cases "c_io w"; simp add: lp_frame_def)+
  obtain ch ch0 where h: "heap (c_io w) (c_chan v) = Some ch" "heap s (c_chan v) = Some ch0" "core ch = core ch0"
    "\<And>d. d \<noteq> c_chan v \<Longrightarrow> heap (c_io w) d = heap s d" "\<And>fd. fd \<noteq> ch_fd ch0 \<Longrightarrow> ep_channels (c_io w) fd = ep_channels s fd"
    using frame by (auto simp: lp_frame_def)
  have "map_option core (heap (c_io w) d) = map_option core (heap s d)" for d
    using h(1-3) h(4) [of d] by (cases "d = c_chan v") auto
  moreover have "ep_channels (c_io w) = ep_channels s" using h(5) ep [OF h(2)] by (metis ext)
  moreover have "conns_keep n (lp_conns s) ((lp_conns s)(this \<mapsto> (attach () w)\<lparr>c_queue := []\<rparr>))"
    using keep v by (auto simp: conns_keep_def option.rel_refl conn_keeps_refl)
  ultimately show ?thesis using more v q by (auto simp: lp_keeps_def)
qed

lemma established_save:
  assumes good: "loop_good km lid s" and v: "lp_conns s this = Some v" "established v" and W: "w_this W = lid"
    and inv: "conn_inv (lp_frame ctl km (c_chan v) s) (lp_reg W (c_chan v)) w" and inb: "buf_inv (inputBuffer w)"
    and q: "\<forall>g \<in> set (c_queue w). soft g" and used: "used (outputBuffer w) \<le> used (outputBuffer v) + n"
    and st: "state w = state v \<or> state v = kConnected \<and> state w = kDisconnecting"
  shows "loop_good km lid (save this w) \<and> lp_keeps n s (save this w)"
proof -
  obtain ch0 where ch0: "heap s (c_chan v) = Some ch0" "ch_loop ch0 = lid" "bound this ch0" "conn_shape s this v ch0"
    using conn_goodD [OF good v(1)] by metis
  obtain ch where ch: "heap (c_io w) (c_chan v) = Some ch" and c: "c_chan w = c_chan v" and reg: "ep_reg (c_io w) (c_chan v)"
    and frame: "lp_frame ctl km (c_chan v) s (c_io w)"
    and ev: "events ch = (if content (outputBuffer w) = [] then kReadEvent else kReadEvent OR kWriteEvent)"
    and b: "buf_inv (outputBuffer w)" "write_shut w \<longrightarrow> content (outputBuffer w) = []"
    using inv by (auto simp: conn_inv_def lp_reg_def)
  have core: "core ch = core ch0" using frame ch ch0(1) by (auto simp: lp_frame_def)
  have est0: "ep_reg s (c_chan v)" "tied ch0" "tie ch0 = Some this"
    using ch0(4) v(2) by (auto simp: conn_shape_def established_def)
  have est: "state w = kConnected \<or> state w = kDisconnecting" using st v(2) by (auto simp: established_def)
  have "conn_shape (save this w) this ((attach () w)\<lparr>c_queue := []\<rparr>) ch"
    using est reg c ev b(2) est0 core_bound [OF core] by (auto simp: conn_shape_def ep_reg_def)
  then have "conn_good lid (save this w) this ((attach () w)\<lparr>c_queue := []\<rparr>)"
    using ch c ch0(2,3) core_bound [OF core] inb b(1) by (auto simp: conn_good_def)
  then have "loop_good km lid (save this w)" by (rule loop_good_save [OF good v(1) frame c])
  moreover have "ep_channels (c_io w) (ch_fd ch0) = ep_channels s (ch_fd ch0)"
    using reg est0(1) ch ch0(1) core_fd [OF core] by (auto simp: ep_reg_def)
  then have "lp_keeps n s (save this w)"
    using ch0(1) st used c by (intro lp_keeps_save [OF v(1) frame _ q]) (auto simp: conn_keeps_def)
  ultimately show ?thesis by blast
qed

text \<open>What the operations of an established connection do besides sending.\<close>

definition soft_ext :: "'s tcp_connection \<Rightarrow> 's tcp_connection \<Rightarrow> bool" where
  "soft_ext w w' \<longleftrightarrow> inputBuffer w' = inputBuffer w \<and> (\<exists>q. c_queue w' = c_queue w @ q \<and> (\<forall>g \<in> set q. soft g))"

lemma soft_ext_refl: "soft_ext w w"
  by (simp add: soft_ext_def)

lemma soft_ext_trans: "soft_ext a b \<Longrightarrow> soft_ext b c \<Longrightarrow> soft_ext a c"
  unfolding soft_ext_def by (elim conjE exE) (simp add: ball_Un)

lemma soft_ext_upd:
  "soft_ext w w' \<Longrightarrow> soft_ext w (w'\<lparr>c_io := s\<rparr>)" "soft_ext w w' \<Longrightarrow> soft_ext w (w'\<lparr>outputBuffer := b\<rparr>)"
  "soft_ext w w' \<Longrightarrow> soft_ext w (w'\<lparr>written := xs\<rparr>)" "soft_ext w w' \<Longrightarrow> soft_ext w (w'\<lparr>write_shut := y\<rparr>)"
  "soft_ext w w' \<Longrightarrow> soft g \<Longrightarrow> soft_ext w (queue_functor g w')"
  by (auto simp: soft_ext_def queue_functor_def)

lemma lift_io_soft: "lift_io f w = Inr w' \<Longrightarrow> soft_ext w w' \<and> state w' = state w"
  by (auto simp: lift_io_def bindE_eq_Inr soft_ext_def)

lemma send_enqueue_soft: "send_enqueue upd data n r w = Inr w' \<Longrightarrow> soft_ext w w' \<and> state w' = state w"
  by (auto simp: send_enqueue_def Let_def bindE_eq_Inr split: if_splits dest!: lift_io_soft
      intro!: soft_ext_refl soft_ext_upd elim!: soft_ext_trans [rotated])

lemma send_direct_soft: "send_direct r data w = (n, rem, flt, w') \<Longrightarrow> soft_ext w w' \<and> state w' = state w"
  by (auto simp: send_direct_def Let_def split: write_result.splits if_splits intro!: soft_ext_refl soft_ext_upd)

lemma sendInLoop_soft:
  assumes "sendInLoop upd r data w = Inr w'"
  shows "soft_ext w w' \<and> state w' = state w"
proof (cases "state w = kDisconnected")
  case True
  then show ?thesis using assms by (simp add: sendInLoop_def soft_ext_refl)
next
  case False
  obtain ch where ch: "get_ch (c_chan w) (c_io w) = Inr ch" using assms False by (auto simp: sendInLoop_def bindE_eq_Inr)
  obtain n rem flt w1 where
    1: "(if \<not> isWriting ch \<and> readableBytes (outputBuffer w) = 0 then send_direct r data w else (0, length data, False, w)) = (n, rem, flt, w1)"
    by (metis prod_cases4)
  have 2: "(if \<not> flt \<and> 0 < rem then send_enqueue upd data n rem w1 else Inr w1) = Inr w'"
    using assms False ch 1 by (simp add: sendInLoop_def)
  have "soft_ext w w1 \<and> state w1 = state w" using 1 send_direct_soft [of r data w n rem flt w1] by (auto split: if_splits intro: soft_ext_refl)
  moreover have "soft_ext w1 w' \<and> state w' = state w1" using 2 send_enqueue_soft [of upd data n rem w1 w'] by (auto split: if_splits intro: soft_ext_refl)
  ultimately show ?thesis using soft_ext_trans by metis
qed

lemma shutdownInLoop_soft: "shutdownInLoop w = Inr w' \<Longrightarrow> soft_ext w w' \<and> state w' = state w"
  by (auto simp: shutdownInLoop_def bindE_eq_Inr intro!: soft_ext_refl soft_ext_upd)

lemma handleWrite_soft:
  assumes "conn_handleWrite upd r w = Inr w'"
  shows "soft_ext w w' \<and> state w' = state w"
proof -
  obtain ch where ch: "get_ch (c_chan w) (c_io w) = Inr ch" using assms by (auto simp: conn_handleWrite_def bindE_eq_Inr)
  show ?thesis
  proof (cases "isWriting ch \<and> (\<exists>n. r = Wrote n \<and> 0 < n)")
    case True
    then obtain n where n: "isWriting ch" "r = Wrote n" "0 < n" by blast
    then obtain data b where b: "mem_read (vec (outputBuffer w)) (BeginRead (outputBuffer w)) (readableBytes (outputBuffer w)) = Inr data"
      "retrieve n (outputBuffer w) = Inr b" using assms ch by (auto simp: conn_handleWrite_def bindE_eq_Inr)
    let ?w1 = "w\<lparr>outputBuffer := b, written := written w @ take n data\<rparr>"
    have w1: "soft_ext w ?w1" by (intro soft_ext_upd soft_ext_refl)
    show ?thesis
    proof (cases "readableBytes b = 0")
      case False
      then show ?thesis using assms ch n b w1 by (auto simp: conn_handleWrite_def)
    next
      case True
      then obtain w2 where w2: "lift_io (disableWriting upd (c_chan w)) ?w1 = Inr w2" using assms ch n b by (auto simp: conn_handleWrite_def bindE_eq_Inr)
      let ?w3 = "if writeCompleteCb w2 then queue_functor WriteComplete w2 else w2"
      have w': "(if state ?w3 = kDisconnecting then shutdownInLoop ?w3 else Inr ?w3) = Inr w'"
        using assms ch n b True w2 by (simp add: conn_handleWrite_def Let_def)
      have "soft_ext w ?w3 \<and> state ?w3 = state w"
        using soft_ext_trans [OF w1] lift_io_soft [OF w2] by (auto intro!: soft_ext_upd)
      moreover have "soft_ext ?w3 w' \<and> state w' = state ?w3"
        using w' shutdownInLoop_soft [of ?w3 w'] by (auto split: if_splits intro: soft_ext_refl)
      ultimately show ?thesis using soft_ext_trans by metis
    qed
  next
    case False
    then have "w' = w" using assms ch by (cases r) (auto simp: conn_handleWrite_def bindE_eq_Inr split: if_splits)
    then show ?thesis by (simp add: soft_ext_refl)
  qed
qed

lemma do_op_soft:
  assumes "do_op upd op w = Inr w'"
  shows "soft_ext w w' \<and> (state w' = state w \<or> state w = kConnected \<and> state w' = kDisconnecting)"
proof (cases op)
  case OShutdown
  have "soft_ext w (w\<lparr>state := kDisconnecting\<rparr>)" by (simp add: soft_ext_def)
  then show ?thesis using assms OShutdown shutdownInLoop_soft [of "w\<lparr>state := kDisconnecting\<rparr>" w'] soft_ext_trans
    by (auto simp: do_op_def shutdown_def Let_def split: if_splits intro: soft_ext_refl)
qed (use assms in \<open>auto simp: do_op_def send_def split: if_splits intro: soft_ext_refl dest: sendInLoop_soft shutdownInLoop_soft handleWrite_soft\<close>)

lemma kernel_write_ok: "write_answer w len (kernel_write w len r)"
  by (auto simp: kernel_write_def write_answer_def)

fun act_bytes :: "user_act \<Rightarrow> nat" where
  "act_bytes (USend _ data _) = length data"
| "act_bytes _ = 0"

definition acts_bytes :: "user_act list \<Rightarrow> nat" where
  "acts_bytes as = sum_list (map act_bytes as)"

text \<open>Memory for \<open>n\<close> more bytes of output on every connection.\<close>

definition room :: "nat \<Rightarrow> 'k loop_io \<Rightarrow> bool" where
  "room n s \<longleftrightarrow> (\<forall>this v. lp_conns s this = Some v \<longrightarrow> used (outputBuffer v) + n \<le> vec_max)"

lemma room_keeps: "room (m + n) s \<Longrightarrow> lp_keeps m s s' \<Longrightarrow> room n s'"
  by (fastforce simp: room_def lp_keeps_def conn_keeps_def dest: conns_keepD2)

text \<open>An operation on an established connection.\<close>

lemma on_conn_op:
  assumes good: "loop_good km lid s" and spec: "epoll_ctl_spec ctl km" and W: "w_this W = lid" and v: "lp_conns s this = Some v" "established v"
    and ans: "op_answer (attach s v) op" and rm: "used (outputBuffer v) + length (op_data op) \<le> vec_max"
  shows "\<exists>s'. on_conn this (do_op (loop_upd ctl self W) op) s = Inr s' \<and> loop_good km lid s' \<and> lp_keeps (length (op_data op)) s s'"
proof -
  have inv: "conn_inv (lp_frame ctl km (c_chan v) s) (lp_reg W (c_chan v)) (attach s v)" by (rule established_inv [OF good v spec W])
  obtain w where w: "do_op (loop_upd ctl self W) op (attach s v) = Inr w"
    "conn_inv (lp_frame ctl km (c_chan v) s) (lp_reg W (c_chan v)) w" "used (outputBuffer w) \<le> used (outputBuffer v) + length (op_data op)"
    using lpw.do_op_ok [OF inv, of op self] ans rm by (auto simp: lpw.sent_ok_def)
  have soft: "soft_ext (attach s v) w" "state w = state v \<or> state v = kConnected \<and> state w = kDisconnecting"
    using do_op_soft [OF w(1)] by auto
  have "c_queue v = []" "buf_inv (inputBuffer v)" using conn_goodD [OF good v(1)] by metis+
  then have q: "\<forall>g \<in> set (c_queue w). soft g" "buf_inv (inputBuffer w)" using soft(1) by (auto simp: soft_ext_def)
  have "loop_good km lid (save this w) \<and> lp_keeps (length (op_data op)) s (save this w)"
    by (rule established_save [OF good v W w(2) q(2,1) w(3) soft(2)])
  then show ?thesis using w(1) v(1) by (simp add: on_conn_def load_def)
qed

lemma save_attach:
  assumes good: "loop_good km lid s" and v: "lp_conns s this = Some v"
  shows "save this (attach s v) = s"
proof -
  have q: "c_queue v = []" using conn_goodD [OF good v] by metis
  then have "(attach () (attach s v))\<lparr>c_queue := []\<rparr> = v" by (simp add: attach_def)
  then show ?thesis using q v by (simp add: save_def map_upd_triv)
qed

text \<open>Changing the input buffer.\<close>

lemma input_good:
  assumes good: "loop_good km lid s" and v: "lp_conns s this = Some v" and spec: "epoll_ctl_spec ctl km" and b: "buf_inv b"
  shows "loop_good km lid (save this ((attach s v)\<lparr>inputBuffer := b\<rparr>)) \<and> lp_keeps 0 s (save this ((attach s v)\<lparr>inputBuffer := b\<rparr>))"
proof -
  let ?w = "(attach s v)\<lparr>inputBuffer := b\<rparr>"
  obtain ch where ch: "heap s (c_chan v) = Some ch" "ch_loop ch = lid" "bound this ch" "conn_shape s this v ch" "buf_inv (outputBuffer v)"
    "c_queue v = []" "ep_inv km s" using conn_goodD [OF good v] by metis
  have frame: "lp_frame ctl km (c_chan v) s (c_io ?w)" using lp_frame_refl [OF spec ch(7,1)] by simp
  have "conn_good lid (save this ?w) this ((attach () ?w)\<lparr>c_queue := []\<rparr>)"
    using ch b by (auto simp: conn_good_def conn_shape_def ep_reg_def split: conn_state.splits)
  then have "loop_good km lid (save this ?w)" by (rule loop_good_save [OF good v frame, rotated]) simp
  moreover have "lp_keeps 0 s (save this ?w)"
    by (rule lp_keeps_save [OF v frame]) (use ch(6) in \<open>simp_all add: conn_keeps_def\<close>)
  ultimately show ?thesis by blast
qed

text \<open>A call of the user on any connection that exists, in any state.\<close>

lemma user_act_good:
  assumes good: "loop_good km lid s" and spec: "epoll_ctl_spec ctl km" and W: "w_this W = lid" and rm: "room (act_bytes a) s"
  shows "\<exists>s'. user_act (loop_upd ctl self W) a s = Inr s' \<and> loop_good km lid s' \<and> lp_keeps (act_bytes a) s s'"
proof (cases "lp_conns s (act_target a)")
  case None
  then show ?thesis using good lp_keeps_refl [of s] by (cases a) (auto simp: user_act_def lp_keeps_def conns_keep_refl)
next
  case (Some v)
  show ?thesis
  proof (cases a)
    case (USend t data r)
    then have v: "lp_conns s t = Some v" and rm': "used (outputBuffer v) + length data \<le> vec_max" using Some rm by (auto simp: room_def)
    show ?thesis
    proof (cases "state v = kConnected")
      case True
      then show ?thesis
        using on_conn_op [OF good spec W v _ _, of "OSend data (kernel_write (attach s v) (length data) r)" self] rm' USend v
        by (auto simp: user_act_def op_answer_def op_data_def kernel_write_ok established_def on_conn_def load_def do_op_def)
    next
      case False
      then show ?thesis using v USend good save_attach [OF good v] lp_keeps_refl [of s]
        by (auto simp: user_act_def on_conn_def load_def send_def lp_keeps_def conns_keep_refl)
    qed
  next
    case (UShutdown t)
    then have v: "lp_conns s t = Some v" using Some by simp
    show ?thesis
    proof (cases "state v = kConnected")
      case True
      then show ?thesis
        using on_conn_op [OF good spec W v, of OShutdown self] rm UShutdown v
        by (auto simp: user_act_def op_answer_def op_data_def established_def room_def do_op_def on_conn_def load_def)
    next
      case False
      then show ?thesis using v UShutdown good save_attach [OF good v] lp_keeps_refl [of s]
        by (auto simp: user_act_def on_conn_def load_def shutdown_def)
    qed
  next
    case (URetrieve t n)
    then have v: "lp_conns s t = Some v" using Some by simp
    obtain b where b: "retrieve (min n (readableBytes (inputBuffer v))) (inputBuffer v) = Inr b" "buf_inv b"
      using retrieve_ok [of "inputBuffer v" "min n (readableBytes (inputBuffer v))"] readableBytes_eq [of "inputBuffer v"] conn_goodD [OF good v]
      by (metis min.cobounded2)
    then show ?thesis
      using URetrieve v input_good [OF good v spec b(2)] by (simp add: user_act_def on_conn_def load_def)
  qed
qed

lemma user_acts_good:
  assumes "epoll_ctl_spec ctl km" and "w_this W = lid"
  shows "loop_good km lid s \<Longrightarrow> room (acts_bytes as) s \<Longrightarrow>
    \<exists>s'. user_acts (loop_upd ctl self W) as s = Inr s' \<and> loop_good km lid s' \<and> lp_keeps (acts_bytes as) s s'"
proof (induction as arbitrary: s)
  case Nil
  then show ?case using lp_keeps_refl [of s] by (simp add: user_acts_def acts_bytes_def)
next
  case (Cons a as)
  have r: "room (act_bytes a + acts_bytes as) s" using Cons.prems(2) by (simp add: acts_bytes_def)
  then have "room (act_bytes a) s" by (fastforce simp: room_def)
  from user_act_good [OF Cons.prems(1) assms this] obtain s1 where
    s1: "user_act (loop_upd ctl self W) a s = Inr s1" "loop_good km lid s1" "lp_keeps (act_bytes a) s s1" by blast
  from Cons.IH [OF s1(2) room_keeps [OF r s1(3)]] obtain s' where
    "user_acts (loop_upd ctl self W) as s1 = Inr s'" "loop_good km lid s'" "lp_keeps (acts_bytes as) s1 s'" by blast
  then show ?case using s1 lp_keeps_trans [OF s1(3), of "acts_bytes as" s'] by (auto simp: user_acts_def acts_bytes_def)
qed

section \<open>Events of a connection\<close>

text \<open>
  The state around a handler of connection \<open>this\<close>: the connection has left \<open>lp_conns\<close>, and \<open>hold\<close> says that putting it back gives a good
  state. A callback of the user takes such a state to another.
\<close>

definition hold :: "('k \<Rightarrow> int \<rightharpoonup> epoll_event) \<Rightarrow> nat \<Rightarrow> nat \<Rightarrow> 'k loop_io tcp_connection \<Rightarrow> bool" where
  "hold km lid this w \<longleftrightarrow> loop_good km lid (save this w)"

lemma load_save_user:
  assumes "hold km lid this w" and "epoll_ctl_spec ctl km" and "w_this W = lid" and "room (acts_bytes as) (save this w)"
  shows "\<exists>w'. bindE (user_acts (loop_upd ctl self W) as (save this w)) (load this) = Inr w' \<and> hold km lid this w'
    \<and> lp_keeps (acts_bytes as) (save this w) (save this w')"
proof -
  obtain s' where s': "user_acts (loop_upd ctl self W) as (save this w) = Inr s'" "loop_good km lid s'" "lp_keeps (acts_bytes as) (save this w) s'"
    using user_acts_good [OF assms(2,3), of "save this w" as self] assms(1,4) by (auto simp: hold_def)
  have "conns_keep (acts_bytes as) (lp_conns (save this w)) (lp_conns s')" using s'(3) by (simp add: lp_keeps_def)
  then obtain v where v: "lp_conns s' this = Some v"
    using conns_keepD [of "acts_bytes as" "lp_conns (save this w)" "lp_conns s'" this] by auto
  have "save this (attach s' v) = s'" by (rule save_attach [OF s'(2) v])
  then show ?thesis using s' v by (simp add: load_def hold_def)
qed

text \<open>What an event of connection \<open>this\<close> changes: as for a call of the user, except that this connection may be closed, which its owner then knows.\<close>

definition lp_event :: "nat \<Rightarrow> nat \<Rightarrow> 'k loop_io \<Rightarrow> 'k loop_io \<Rightarrow> bool" where
  "lp_event n this s s' \<longleftrightarrow> (\<forall>d. map_option core (heap s' d) = map_option core (heap s d)) \<and> ep_channels s' = ep_channels s
     \<and> (\<forall>t. t \<noteq> this \<longrightarrow> rel_option (conn_keeps n) (lp_conns s t) (lp_conns s' t))
     \<and> (\<exists>v v'. lp_conns s this = Some v \<and> lp_conns s' this = Some v' \<and> c_chan v' = c_chan v \<and> used (outputBuffer v') \<le> used (outputBuffer v) + n
          \<and> (conn_keeps n v v' \<and> lp_closed s' = lp_closed s
             \<or> established v \<and> state v' = kDisconnected \<and> lp_closed s' = insert this (lp_closed s)))
     \<and> (\<exists>fs. lp_posts s' = lp_posts s @ fs \<and> (\<forall>f \<in> set fs. \<exists>t g. f = FConn t g \<and> soft g \<and> lp_conns s t \<noteq> None))"

lemma lp_keeps_event:
  assumes "lp_keeps n s s'" and v: "lp_conns s this = Some v"
  shows "lp_event n this s s'"
proof -
  have k: "conns_keep n (lp_conns s) (lp_conns s')" using assms(1) by (simp add: lp_keeps_def)
  obtain v' where "lp_conns s' this = Some v'" "conn_keeps n v v'" using conns_keepD [OF k v] by blast
  moreover have "\<forall>t. rel_option (conn_keeps n) (lp_conns s t) (lp_conns s' t)" using k by (simp add: conns_keep_def)
  ultimately show ?thesis using assms by (auto simp: lp_keeps_def lp_event_def conn_keeps_def)
qed

lemma lp_event_dom: "lp_event n this s s' \<Longrightarrow> lp_conns s' t = None \<longleftrightarrow> lp_conns s t = None"
  by (cases "t = this"; cases "lp_conns s t"; cases "lp_conns s' t") (auto simp: lp_event_def dest!: spec [of _ t])

lemma keeps_established: "conn_keeps n v v' \<Longrightarrow> established v' = established v"
  by (auto simp: conn_keeps_def established_def)

lemma lp_event_trans:
  assumes "lp_event m this s s1" and "lp_event n this s1 s2"
  shows "lp_event (m + n) this s s2"
proof -
  obtain fs where fs: "lp_posts s1 = lp_posts s @ fs" "\<forall>f \<in> set fs. \<exists>t g. f = FConn t g \<and> soft g \<and> lp_conns s t \<noteq> None"
    using assms(1) by (auto simp: lp_event_def)
  obtain gs where gs: "lp_posts s2 = lp_posts s1 @ gs" "\<forall>f \<in> set gs. \<exists>t g. f = FConn t g \<and> soft g \<and> lp_conns s1 t \<noteq> None"
    using assms(2) by (auto simp: lp_event_def)
  have posts: "\<exists>hs. lp_posts s2 = lp_posts s @ hs \<and> (\<forall>f \<in> set hs. \<exists>t g. f = FConn t g \<and> soft g \<and> lp_conns s t \<noteq> None)"
    using fs gs lp_event_dom [OF assms(1)] by (intro exI [of _ "fs @ gs"]) auto
  obtain v v1 v2 where v: "lp_conns s this = Some v" "lp_conns s1 this = Some v1" "lp_conns s2 this = Some v2"
    and c: "c_chan v1 = c_chan v" "c_chan v2 = c_chan v1" "used (outputBuffer v1) \<le> used (outputBuffer v) + m"
      "used (outputBuffer v2) \<le> used (outputBuffer v1) + n"
    and st: "conn_keeps m v v1 \<and> lp_closed s1 = lp_closed s \<or> established v \<and> state v1 = kDisconnected \<and> lp_closed s1 = insert this (lp_closed s)"
      "conn_keeps n v1 v2 \<and> lp_closed s2 = lp_closed s1 \<or> established v1 \<and> state v2 = kDisconnected \<and> lp_closed s2 = insert this (lp_closed s1)"
    using assms by (auto simp: lp_event_def)
  have "conn_keeps (m + n) v v2 \<and> lp_closed s2 = lp_closed s \<or> established v \<and> state v2 = kDisconnected \<and> lp_closed s2 = insert this (lp_closed s)"
    using st keeps_established [of m v v1] conn_keeps_trans [of m v v1 n v2] by (auto simp: conn_keeps_def established_def)
  moreover have "rel_option (conn_keeps (m + n)) (lp_conns s t) (lp_conns s2 t)" if "t \<noteq> this" for t
    using assms that conn_keeps_trans
    by (cases "lp_conns s t"; cases "lp_conns s1 t"; cases "lp_conns s2 t") (auto simp: lp_event_def dest!: spec [of _ t])
  ultimately show ?thesis using assms v c posts by (auto simp: lp_event_def)
qed

lemma room_event:
  assumes "room (m + n) s" and "lp_event m this s s'"
  shows "room n s'"
  unfolding room_def
proof (intro allI impI)
  fix t v' assume v': "lp_conns s' t = Some v'"
  then have "\<exists>v. lp_conns s t = Some v \<and> used (outputBuffer v') \<le> used (outputBuffer v) + m"
    using assms(2) by (cases "t = this"; cases "lp_conns s t") (auto simp: lp_event_def conn_keeps_def dest!: spec [of _ t])
  then show "used (outputBuffer v') + n \<le> vec_max" using assms(1) by (fastforce simp: room_def)
qed

text \<open>Taking all events from the channel of an established connection.\<close>

lemma loop_disable:
  assumes good: "hold km lid this w" and spec: "epoll_ctl_spec ctl km" and W: "w_this W = lid" and st: "state w = kConnected \<or> state w = kDisconnecting"
  shows "\<exists>s1 ch1. disableAll (loop_upd ctl self W) (c_chan w) (c_io w) = Inr s1 \<and> lp_frame ctl km (c_chan w) (c_io w) s1
    \<and> heap s1 (c_chan w) = Some ch1 \<and> events ch1 = 0 \<and> ep_channels s1 = ep_channels (c_io w) \<and> ep_channels (c_io w) (ch_fd ch1) = Some (c_chan w)
    \<and> ch_index ch1 = kDeleted"
proof -
  let ?c = "c_chan w" and ?io = "c_io w"
  obtain ch where ch: "heap ?io ?c = Some ch" "ch_loop ch = lid" "conn_shape (save this w) this ((attach () w)\<lparr>c_queue := []\<rparr>) ch" "ep_inv km (save this w)"
    using conn_goodD [OF good [unfolded hold_def], of this "(attach () w)\<lparr>c_queue := []\<rparr>"] by auto
  have inv0: "ep_inv km ?io" using ch(4) ep_inv_cong [of "save this w" ?io km] by simp
  have reg: "ep_reg ?io ?c" using ch(3) st by (auto simp: conn_shape_def ep_reg_def)
  let ?ch = "ch\<lparr>events := kNoneEvent\<rparr>" let ?s = "?io\<lparr>heap := (heap ?io)(?c \<mapsto> ?ch)\<rparr>"
  have h: "heap ?s ?c = Some ?ch" by simp
  have inv: "ep_inv km ?s" using ep_inv_channel_update [OF inv0 ch(1), of ?ch] by simp
  have pre: "ep_update_pre ctl ?s ?c" using reg ch(1) by (simp add: ep_reg_def ep_update_pre_def ep_index_defs)
  obtain s1 i where s1: "EPollPoller_UpdateChannel ctl ?c ?s = Inr s1" "ep_inv km s1" "heap s1 = (heap ?s)(?c \<mapsto> ?ch\<lparr>ch_index := i\<rparr>)"
    "ep_channels s1 = (ep_channels ?s)(ch_fd ch \<mapsto> ?c)" using ep_update_ok [OF spec inv h pre] by auto
  have fd: "ep_channels ?io (ch_fd ch) = Some ?c" using reg ch(1) by (simp add: ep_reg_def)
  have "heap s1 ?c = Some (?ch\<lparr>ch_index := kDeleted\<rparr>)"
    by (rule ep_update_silenced [OF s1(1) h]) (use reg ch(1) in \<open>simp_all add: ep_reg_def kNoneEvent_def\<close>)
  then have "ch_index (?ch\<lparr>ch_index := i\<rparr>) = kDeleted" using s1(3) by simp
  moreover have "lp_frame ctl km ?c ?io s1" using spec s1 ch(1) ep_update_more [OF s1(1)] by (auto simp: lp_frame_def)
  moreover have "disableAll (loop_upd ctl self W) ?c ?io = Inr s1"
    using s1(1) ch(1,2) W by (simp add: disableAll_def loop_upd_eq [OF h] cassert_def)
  moreover have "heap s1 ?c = Some (?ch\<lparr>ch_index := i\<rparr>)" "events (?ch\<lparr>ch_index := i\<rparr>) = 0" "ch_fd (?ch\<lparr>ch_index := i\<rparr>) = ch_fd ch"
    by (simp_all add: s1(3) kNoneEvent_def)
  moreover have "ep_channels s1 = ep_channels ?io" using s1(4) fd by (simp add: fun_upd_idem)
  ultimately show ?thesis using fd by metis
qed

text \<open>The channel of an established connection silenced, and the connection disconnected; what \<^verbatim>\<open>handleClose\<close> and \<^verbatim>\<open>ConnectionDestroyed\<close> begin with.\<close>

lemma disconnect_hold:
  assumes good: "hold km lid this w" and spec: "epoll_ctl_spec ctl km" and W: "w_this W = lid" and st: "state w = kConnected \<or> state w = kDisconnecting"
    and q: "c_queue w = []"
  shows "\<exists>s1. lift_io (disableAll (loop_upd ctl self W) (c_chan w)) (w\<lparr>state := kDisconnected\<rparr>) = Inr (w\<lparr>state := kDisconnected, c_io := s1\<rparr>)
    \<and> hold km lid this (w\<lparr>state := kDisconnected, c_io := s1\<rparr>) \<and> (\<forall>d. map_option core (heap s1 d) = map_option core (heap (c_io w) d))
    \<and> ep_channels s1 = ep_channels (c_io w) \<and> epoll_poller.more s1 = epoll_poller.more (c_io w)
    \<and> (\<exists>ch. heap s1 (c_chan w) = Some ch \<and> ep_channels s1 (ch_fd ch) = Some (c_chan w))"
proof -
  obtain s1 ch1 where s1: "disableAll (loop_upd ctl self W) (c_chan w) (c_io w) = Inr s1" "lp_frame ctl km (c_chan w) (c_io w) s1"
    "heap s1 (c_chan w) = Some ch1" "events ch1 = 0" "ep_channels s1 = ep_channels (c_io w)" "ep_channels (c_io w) (ch_fd ch1) = Some (c_chan w)"
    "ch_index ch1 = kDeleted"
    using loop_disable [OF good spec W st] by blast
  let ?v = "(attach () w)\<lparr>c_queue := []\<rparr>"
  have v: "lp_conns (save this w) this = Some ?v" by simp
  obtain ch where ch: "heap (c_io w) (c_chan w) = Some ch" "ch_loop ch = lid" "bound this ch" "buf_inv (inputBuffer w)" "buf_inv (outputBuffer w)"
    using conn_goodD [OF good [unfolded hold_def] v] by auto
  have core: "core ch1 = core ch" using s1(2,3) ch(1) by (auto simp: lp_frame_def)
  have cores: "map_option core (heap s1 d) = map_option core (heap (c_io w) d)" for d
    using s1(2,3) ch(1) core by (cases "d = c_chan w") (auto simp: lp_frame_def)
  let ?w1 = "w\<lparr>state := kDisconnected, c_io := s1\<rparr>"
  have "conn_good lid (save this ?w1) this ((attach () ?w1)\<lparr>c_queue := []\<rparr>)"
    using s1 ch core_bound [OF core] by (auto simp: conn_good_def conn_shape_def)
  then have "hold km lid this ?w1" unfolding hold_def
    by (rule loop_good_save_gen [OF good [unfolded hold_def] v, of ctl "c_io w", rotated 5]) (use s1(2) in simp_all)
  moreover have "epoll_poller.more s1 = epoll_poller.more (c_io w)" using s1(2) by (simp add: lp_frame_def)
  ultimately show ?thesis using s1 cores by (auto simp: lift_io_def)
qed

lemma conn_keeps_self:
  assumes "lp_keeps n (save this w) (save this w')"
  shows "conn_keeps n ((attach () w)\<lparr>c_queue := []\<rparr>) ((attach () w')\<lparr>c_queue := []\<rparr>)"
proof -
  have "rel_option (conn_keeps n) (lp_conns (save this w) this) (lp_conns (save this w') this)"
    using assms unfolding lp_keeps_def conns_keep_def by blast
  then show ?thesis by simp
qed

lemma lp_keeps_others:
  assumes "lp_keeps n (save this w) (save this w')" and "t \<noteq> this"
  shows "rel_option (conn_keeps n) (lp_conns (c_io w) t) (lp_conns (c_io w') t)"
proof -
  have "rel_option (conn_keeps n) (lp_conns (save this w) t) (lp_conns (save this w') t)"
    using assms(1) unfolding lp_keeps_def conns_keep_def by blast
  then show ?thesis using assms(2) by simp
qed

lemma lp_keeps_posts:
  assumes "lp_keeps n (save this w) (save this w')" and "c_queue w = []" and "lp_conns (c_io w) this \<noteq> None"
  shows "\<exists>fs. lp_posts (save this w') = lp_posts (c_io w) @ fs \<and> (\<forall>f \<in> set fs. \<exists>t g. f = FConn t g \<and> soft g \<and> lp_conns (c_io w) t \<noteq> None)"
proof -
  obtain fs where "lp_posts (save this w') = lp_posts (save this w) @ fs" "\<forall>f \<in> set fs. \<exists>t g. f = FConn t g \<and> soft g \<and> lp_conns (save this w) t \<noteq> None"
    using assms(1) unfolding lp_keeps_def by blast
  moreover have "lp_posts (save this w) = lp_posts (c_io w)" "lp_conns (save this w) t \<noteq> None \<longleftrightarrow> lp_conns (c_io w) t \<noteq> None" for t
    using assms(2,3) by auto
  ultimately show ?thesis by metis
qed

lemma handleClose_hold:
  assumes good: "hold km lid this w" and spec: "epoll_ctl_spec ctl km" and W: "w_this W = lid" and st: "state w = kConnected \<or> state w = kDisconnecting"
    and q: "c_queue w = []" "lp_conns (c_io w) this \<noteq> None" and rm: "room (acts_bytes (e_connection env)) (save this w)"
  shows "\<exists>w'. conn_handleClose (loop_upd ctl self W) (conn_call (loop_upd ctl self W) env this) w = Inr w'
    \<and> hold km lid this w' \<and> lp_event (acts_bytes (e_connection env)) this (save this w) (save this w') \<and> state w' = kDisconnected"
proof -
  let ?upd = "loop_upd ctl self W" and ?n = "acts_bytes (e_connection env)"
  obtain s1 where s1: "lift_io (disableAll ?upd (c_chan w)) (w\<lparr>state := kDisconnected\<rparr>) = Inr (w\<lparr>state := kDisconnected, c_io := s1\<rparr>)"
    "hold km lid this (w\<lparr>state := kDisconnected, c_io := s1\<rparr>)" "\<forall>d. map_option core (heap s1 d) = map_option core (heap (c_io w) d)"
    "ep_channels s1 = ep_channels (c_io w)" "epoll_poller.more s1 = epoll_poller.more (c_io w)"
    using disconnect_hold [OF good spec W st q(1)] by blast
  let ?w1 = "w\<lparr>state := kDisconnected, c_io := s1\<rparr>"
  have more: "lp_conns s1 = lp_conns (c_io w)" "lp_closed s1 = lp_closed (c_io w)" "lp_posts s1 = lp_posts (c_io w)"
    using s1(5) by (cases "c_io w"; cases s1; simp)+
  have rm1: "room ?n (save this ?w1)" using rm more by (auto simp: room_def split: if_splits)
  obtain w2 where w2: "conn_call ?upd env this ConnectionCb ?w1 = Inr w2" "hold km lid this w2" "lp_keeps ?n (save this ?w1) (save this w2)"
    using load_save_user [OF s1(2) spec W rm1] by (auto simp: conn_call_def)
  let ?w3 = "w2\<lparr>c_io := (c_io w2)\<lparr>lp_closed := insert this (lp_closed (c_io w2))\<rparr>\<rparr>"
  have s3: "save this ?w3 = (save this w2)\<lparr>lp_closed := insert this (lp_closed (c_io w2))\<rparr>" by (simp add: save_def attach_def)
  have "conn_handleClose ?upd (conn_call ?upd env this) w = Inr ?w3"
    using st s1(1) w2(1) by (simp add: conn_handleClose_def cassert_def conn_call_def)
  moreover have "hold km lid this ?w3"
    using w2(2) unfolding s3 hold_def
    by (simp add: loop_good_def conn_good_def conn_shape_def ep_reg_def apart_def others_ok_def ep_inv_def ep_chan_ok_def cong: conn_state.case_cong)
  moreover have st2: "state w2 = kDisconnected" "c_chan w2 = c_chan w" "used (outputBuffer w2) \<le> used (outputBuffer w) + ?n"
    using conn_keeps_self [OF w2(3)] by (auto simp: conn_keeps_def)
  moreover have "lp_event ?n this (save this w) (save this ?w3)"
  proof -
    have posts: "\<exists>fs. lp_posts (save this ?w3) = lp_posts (save this w) @ fs \<and> (\<forall>f \<in> set fs. \<exists>t g. f = FConn t g \<and> soft g \<and> lp_conns (save this w) t \<noteq> None)"
      using lp_keeps_posts [OF w2(3)] q more unfolding s3 by fastforce
    have others: "rel_option (conn_keeps ?n) (lp_conns (save this w) t) (lp_conns (save this ?w3) t)" if "t \<noteq> this" for t
      using lp_keeps_others [OF w2(3) that] that more unfolding s3 by simp
    have "map_option core (heap (save this ?w3) d) = map_option core (heap (save this w) d)" for d
      using w2(3) s1(3) unfolding s3 lp_keeps_def by simp
    moreover have "ep_channels (save this ?w3) = ep_channels (save this w)" "lp_closed (save this ?w3) = insert this (lp_closed (save this w))"
      using w2(3) s1(4) more unfolding s3 lp_keeps_def by simp_all
    ultimately show ?thesis unfolding lp_event_def using posts others st st2 by (auto simp: established_def)
  qed
  ultimately show ?thesis by auto
qed

definition env_bytes :: "loop_env \<Rightarrow> nat" where
  "env_bytes env = acts_bytes (e_message env) + acts_bytes (e_connection env) + acts_bytes (e_other env)"

definition room_in :: "'k loop_io \<Rightarrow> bool" where
  "room_in s \<longleftrightarrow> (\<forall>this v. lp_conns s this = Some v \<longrightarrow> length (vec (inputBuffer v)) + extrabuf_size \<le> vec_max)"

lemma conn_keeps_mono: "conn_keeps m v v' \<Longrightarrow> m \<le> n \<Longrightarrow> conn_keeps n v v'"
  by (auto simp: conn_keeps_def)

lemma lp_event_mono:
  assumes "lp_event m this s s'" and "m \<le> n"
  shows "lp_event n this s s'"
proof -
  have "rel_option (conn_keeps n) (lp_conns s t) (lp_conns s' t)" if "t \<noteq> this" for t
    using assms that conn_keeps_mono by (auto simp: lp_event_def intro: option.rel_mono_strong)
  moreover obtain v v' where "lp_conns s this = Some v" "lp_conns s' this = Some v'" "c_chan v' = c_chan v"
    "used (outputBuffer v') \<le> used (outputBuffer v) + m" "conn_keeps m v v' \<and> lp_closed s' = lp_closed s
      \<or> established v \<and> state v' = kDisconnected \<and> lp_closed s' = insert this (lp_closed s)" using assms(1) by (auto simp: lp_event_def)
  ultimately show ?thesis using assms conn_keeps_mono [of m v v' n] unfolding lp_event_def by fastforce
qed

lemma room_mono: "room n s \<Longrightarrow> m \<le> n \<Longrightarrow> room m s"
  by (fastforce simp: room_def)

lemma load_good:
  assumes "loop_good km lid s" and "lp_conns s this = Some v"
  shows "load this s = Inr (attach s v) \<and> hold km lid this (attach s v) \<and> save this (attach s v) = s \<and> c_queue v = []"
  using save_attach [OF assms] assms conn_goodD [OF assms] by (auto simp: load_def hold_def)

lemma handleClose_good:
  assumes good: "loop_good km lid s" and spec: "epoll_ctl_spec ctl km" and W: "w_this W = lid" and v: "lp_conns s this = Some v" "established v"
    and rm: "room (env_bytes env) s"
  shows "\<exists>s'. lp_run (loop_upd ctl self W) env (CbClose this) t s = Inr s' \<and> loop_good km lid s' \<and> lp_event (env_bytes env) this s s'
    \<and> (\<exists>v'. lp_conns s' this = Some v' \<and> state v' = kDisconnected)"
proof -
  note l = load_good [OF good v(1)]
  have "room (acts_bytes (e_connection env)) (save this (attach s v))" using room_mono [OF rm] l by (simp add: env_bytes_def)
  then obtain w' where w': "conn_handleClose (loop_upd ctl self W) (conn_call (loop_upd ctl self W) env this) (attach s v) = Inr w'"
    "hold km lid this w'" "lp_event (acts_bytes (e_connection env)) this s (save this w')" "state w' = kDisconnected"
    using handleClose_hold [of km lid this "attach s v" ctl W env self] l spec W v by (auto simp: established_def)
  have "lp_event (env_bytes env) this s (save this w')" using lp_event_mono [OF w'(3)] by (simp add: env_bytes_def)
  then show ?thesis using w' l by (auto simp: lp_run_def on_conn_def hold_def)
qed

text \<open>What \<^verbatim>\<open>handleRead\<close> does with the bytes it has read: the message callback, or the end of the connection.\<close>

lemma after_read_hold:
  assumes good: "hold km lid this w" and spec: "epoll_ctl_spec ctl km" and W: "w_this W = lid" and st: "ds = [] \<Longrightarrow> state w = kConnected \<or> state w = kDisconnecting"
    and q: "c_queue w = []" "lp_conns (c_io w) this \<noteq> None" and rm: "room (env_bytes env) (save this w)" and upd: "upd = loop_upd ctl self W"
  shows "\<exists>w'. (if ds \<noteq> [] then conn_call upd env this (MessageCb t) w else conn_handleClose upd (conn_call upd env this) w) = Inr w'
    \<and> hold km lid this w' \<and> lp_event (env_bytes env) this (save this w) (save this w')"
proof (cases "ds = []")
  case False
  have "room (acts_bytes (e_message env)) (save this w)" using room_mono [OF rm] by (simp add: env_bytes_def)
  then obtain w2 where w2: "conn_call upd env this (MessageCb t) w = Inr w2" "hold km lid this w2"
    "lp_keeps (acts_bytes (e_message env)) (save this w) (save this w2)"
    using load_save_user [OF good spec W] by (auto simp: conn_call_def upd)
  have "lp_event (acts_bytes (e_message env)) this (save this w) (save this w2)" by (rule lp_keeps_event [OF w2(3)]) simp
  then have "lp_event (env_bytes env) this (save this w) (save this w2)" by (rule lp_event_mono) (simp add: env_bytes_def)
  then show ?thesis using w2 False by auto
next
  case True
  have "room (acts_bytes (e_connection env)) (save this w)" using room_mono [OF rm] by (simp add: env_bytes_def)
  then obtain w2 where w2: "conn_handleClose upd (conn_call upd env this) w = Inr w2" "hold km lid this w2"
    "lp_event (acts_bytes (e_connection env)) this (save this w) (save this w2)"
    using handleClose_hold [OF good spec W st q] True unfolding upd by blast
  have "lp_event (env_bytes env) this (save this w) (save this w2)" by (rule lp_event_mono [OF w2(3)]) (simp add: env_bytes_def)
  then show ?thesis using w2 True by auto
qed

text \<open>\<^verbatim>\<open>readv\<close> always has somewhere to put a byte.\<close>

lemma capacity_pos: "0 < readFd_capacity b"
  by (simp add: readFd_capacity_def readFd_iovcnt_def extrabuf_size_def)

lemma handleRead_good:
  assumes good: "loop_good km lid s" and spec: "epoll_ctl_spec ctl km" and W: "w_this W = lid" and v: "lp_conns s this = Some v" "established v \<or> e_read env \<noteq> ReadvBytes []"
    and rm: "room (env_bytes env) s" "room_in s"
  shows "\<exists>s'. lp_run (loop_upd ctl self W) env (CbRead this) t s = Inr s' \<and> loop_good km lid s' \<and> lp_event (env_bytes env) this s s'"
proof -
  let ?upd = "loop_upd ctl self W" and ?t = "case t of None \<Rightarrow> 0 | Some t \<Rightarrow> t"
  note l = load_good [OF good v(1)]
  have run: "lp_run ?upd env (CbRead this) t s = bindE (conn_handleRead ?upd (conn_call ?upd env this) (kernel_read (inputBuffer v) (e_read env)) ?t (attach s v))
      (\<lambda>w1. Inr (save this w1))" using l by (simp add: lp_run_def on_conn_def)
  show ?thesis
  proof (cases "e_read env")
    case (ReadvError e)
    then have "lp_run ?upd env (CbRead this) t s = Inr s"
      using run l by (simp add: kernel_read_def conn_handleRead_def readFd_def conn_handleError_def attach_input)
    moreover have "lp_event (env_bytes env) this s s"
      using lp_event_mono [OF lp_keeps_event [OF lp_keeps_refl v(1)]] by simp
    ultimately show ?thesis using good by simp
  next
    case (ReadvBytes ds0)
    define ds where "ds = take (readFd_capacity (inputBuffer v)) ds0"
    have ne: "established v" if "ds = []" using that v(2) ReadvBytes capacity_pos [of "inputBuffer v"] by (cases ds0) (auto simp: ds_def)
    have inb: "buf_inv (inputBuffer v)" using conn_goodD [OF good v(1)] by metis
    obtain b where b: "readFd (ReadvBytes ds) (inputBuffer v) = Inr (int (length ds), None, b)" "buf_inv b"
      using readFd_ok [OF inb, of ds] rm(2) v(1) by (auto simp: ds_def room_in_def)
    let ?w1 = "(attach s v)\<lparr>inputBuffer := b\<rparr>"
    have g1: "hold km lid this ?w1" "lp_keeps 0 s (save this ?w1)" using input_good [OF good v(1) spec b(2)] by (auto simp: hold_def)
    note e1 = lp_keeps_event [OF g1(2) v(1)]
    have rm1: "room (env_bytes env) (save this ?w1)" using room_keeps [OF _ g1(2), of "env_bytes env"] rm(1) by simp
    have eq: "lp_run ?upd env (CbRead this) t s =
        bindE (if ds \<noteq> [] then conn_call ?upd env this (MessageCb ?t) ?w1 else conn_handleClose ?upd (conn_call ?upd env this) ?w1) (\<lambda>w1. Inr (save this w1))"
      using run ReadvBytes b(1) by (simp add: kernel_read_def conn_handleRead_def ds_def [symmetric])
    obtain w2 where w2: "(if ds \<noteq> [] then conn_call ?upd env this (MessageCb ?t) ?w1 else conn_handleClose ?upd (conn_call ?upd env this) ?w1) = Inr w2"
      "hold km lid this w2" "lp_event (env_bytes env) this (save this ?w1) (save this w2)"
      using after_read_hold [OF g1(1) spec W _ _ _ rm1 refl, of ds self ?t] l v(1) ne by (auto simp: established_def)
    have "lp_event (0 + env_bytes env) this s (save this w2)" by (rule lp_event_trans [OF e1 w2(3)])
    then show ?thesis using eq w2 by (auto simp: hold_def)
  qed
qed

text \<open>When there is nothing more to read, \<^verbatim>\<open>handleRead\<close> closes; a connection that is closed already fails its assertion.\<close>

lemma readFd_empty: "buf_inv b \<Longrightarrow> \<exists>b'. readFd (ReadvBytes []) b = Inr (0, None, b')"
  by (auto simp: readFd_def mem_write_def buf_inv_def Let_def)

lemma handleRead_twice:
  assumes good: "loop_good km lid s" and v: "lp_conns s this = Some v" "state v = kDisconnected" and eof: "e_read env = ReadvBytes []"
  shows "lp_run upd env (CbRead this) t s = Inl AssertFailed"
proof -
  have "buf_inv (inputBuffer v)" using conn_goodD [OF good v(1)] by metis
  then obtain inb where "readFd (ReadvBytes []) (inputBuffer v) = Inr (0, None, inb)" using readFd_empty by blast
  then show ?thesis
    using load_good [OF good v(1)] v(2) eof by (simp add: lp_run_def on_conn_def kernel_read_def conn_handleRead_def conn_handleClose_def cassert_def)
qed

section \<open>The size of the input\<close>

text \<open>Calls of the user and \<^verbatim>\<open>handleClose\<close> do not make the input buffers larger.\<close>

definition same_conns :: "'k loop_io tcp_connection \<Rightarrow> 'k loop_io tcp_connection \<Rightarrow> bool" where
  "same_conns w w' \<longleftrightarrow> lp_conns (c_io w') = lp_conns (c_io w) \<and> inputBuffer w' = inputBuffer w"

lemma same_conns_refl [simp]: "same_conns w w"
  by (simp add: same_conns_def)

lemma same_conns_trans: "same_conns a b \<Longrightarrow> same_conns b c \<Longrightarrow> same_conns a c"
  by (simp add: same_conns_def)

lemma loop_upd_conns:
  assumes "loop_upd ctl self W c s = Inr s'"
  shows "lp_conns s' = lp_conns s"
proof -
  obtain ch where ch: "heap s c = Some ch"
    using assms by (auto simp: loop_upd_def Worker_UpdateChannel_def bindE_eq_Inr get_ch_eq_Inr)
  then have "EPollPoller_UpdateChannel ctl c s = Inr s'" using assms by (auto simp: loop_upd_eq [OF ch] cassert_eq_Inr)
  from ep_update_more [OF this] show ?thesis by (cases s; cases s') simp
qed

lemma lift_io_conns:
  assumes "lift_io f w = Inr w'" and "\<And>s s'. f s = Inr s' \<Longrightarrow> lp_conns s' = lp_conns s"
  shows "same_conns w w'"
  using assms by (auto simp: lift_io_def bindE_eq_Inr same_conns_def)

lemma enableWriting_conns: "enableWriting (loop_upd ctl self W) c s = Inr s' \<Longrightarrow> lp_conns s' = lp_conns s"
  by (auto simp: enableWriting_def store_simps dest!: loop_upd_conns)

lemma disableAll_conns: "disableAll (loop_upd ctl self W) c s = Inr s' \<Longrightarrow> lp_conns s' = lp_conns s"
  by (auto simp: disableAll_def store_simps dest!: loop_upd_conns)

lemma queue_conns: "same_conns w (queue_functor g w)"
  by (simp add: same_conns_def queue_functor_def)

lemma send_direct_conns: "send_direct r data w = (n, rem, flt, w') \<Longrightarrow> same_conns w w'"
  by (auto simp: send_direct_def Let_def same_conns_def queue_functor_def split: write_result.splits if_splits)

lemma send_enqueue_conns:
  assumes "send_enqueue (loop_upd ctl self W) data n r w = Inr w'"
  shows "same_conns w w'"
proof -
  define w1 where "w1 = (if highWaterMark w \<le> sz_add (readableBytes (outputBuffer w)) r \<and> readableBytes (outputBuffer w) < highWaterMark w \<and> highWaterMarkCb w
    then queue_functor (HighWater (sz_add (readableBytes (outputBuffer w)) r)) w else w)"
  obtain out where "w' = w1\<lparr>outputBuffer := out\<rparr> \<or> lift_io (enableWriting (loop_upd ctl self W) (c_chan w1)) (w1\<lparr>outputBuffer := out\<rparr>) = Inr w'"
    using assms by (auto simp: send_enqueue_def w1_def Let_def bindE_eq_Inr split: if_splits)
  then have "same_conns (w1\<lparr>outputBuffer := out\<rparr>) w'" by (elim disjE) (simp, erule lift_io_conns, erule enableWriting_conns)
  moreover have "same_conns w (w1\<lparr>outputBuffer := out\<rparr>)" by (simp add: w1_def same_conns_def queue_functor_def)
  ultimately show ?thesis using same_conns_trans by blast
qed

lemma sendInLoop_conns:
  assumes "sendInLoop (loop_upd ctl self W) r data w = Inr w'"
  shows "same_conns w w'"
proof (cases "state w = kDisconnected")
  case True
  then show ?thesis using assms by (simp add: sendInLoop_def)
next
  case False
  obtain ch where ch: "get_ch (c_chan w) (c_io w) = Inr ch" using assms False by (auto simp: sendInLoop_def bindE_eq_Inr)
  obtain n rem flt w1 where
    1: "(if \<not> isWriting ch \<and> readableBytes (outputBuffer w) = 0 then send_direct r data w else (0, length data, False, w)) = (n, rem, flt, w1)"
    by (metis prod_cases4)
  have 2: "(if \<not> flt \<and> 0 < rem then send_enqueue (loop_upd ctl self W) data n rem w1 else Inr w1) = Inr w'"
    using assms False ch 1 by (simp add: sendInLoop_def)
  have "same_conns w w1" using 1 send_direct_conns [of r data w n rem flt w1] by (auto split: if_splits)
  moreover have "same_conns w1 w'" using 2 send_enqueue_conns [of ctl self W data n rem w1 w'] by (auto split: if_splits)
  ultimately show ?thesis by (rule same_conns_trans)
qed

lemma shutdown_conns: "shutdown True w = Inr w' \<Longrightarrow> same_conns w w'"
  by (auto simp: shutdown_def shutdownInLoop_def bindE_eq_Inr same_conns_def Let_def split: if_splits)

lemma room_in_save:
  assumes "room_in s" and "lp_conns (c_io w) = lp_conns s" and "lp_conns s this = Some v" and "length (vec (inputBuffer w)) = length (vec (inputBuffer v))"
  shows "room_in (save this w)"
  unfolding room_in_def
proof (intro allI impI)
  fix t u assume u: "lp_conns (save this w) t = Some u"
  show "length (vec (inputBuffer u)) + extrabuf_size \<le> vec_max"
  proof (cases "t = this")
    case True
    then show ?thesis using u assms by (auto simp: room_in_def)
  next
    case False
    then show ?thesis using u assms by (simp add: room_in_def)
  qed
qed

lemma user_act_room_in:
  assumes "user_act (loop_upd ctl self W) a s = Inr s'" and "room_in s"
  shows "room_in s'"
proof (cases "lp_conns s (act_target a)")
  case None
  then show ?thesis using assms by (simp add: user_act_def)
next
  case (Some v)
  then obtain w where w: "act_conn (loop_upd ctl self W) a (attach s v) = Inr w" "s' = save (act_target a) w"
    using assms(1) by (auto simp: user_act_def on_conn_def load_def bindE_eq_Inr)
  have "lp_conns (c_io w) = lp_conns s \<and> length (vec (inputBuffer w)) = length (vec (inputBuffer v))"
  proof (cases a)
    case (USend t data r)
    then have "same_conns (attach s v) w" using w(1) sendInLoop_conns by (auto simp: send_def split: if_splits)
    then show ?thesis by (simp add: same_conns_def)
  next
    case (UShutdown t)
    then show ?thesis using w(1) shutdown_conns [of "attach s v" w] by (simp add: same_conns_def)
  next
    case (URetrieve t n)
    then show ?thesis using w(1) by (auto simp: bindE_eq_Inr retrieve_def retrieveAll_def cassert_eq_Inr Let_def split: if_splits)
  qed
  then show ?thesis unfolding w(2) using room_in_save [OF assms(2) _ Some, of w] by blast
qed

lemma user_acts_room_in: "user_acts (loop_upd ctl self W) as s = Inr s' \<Longrightarrow> room_in s \<Longrightarrow> room_in s'"
  by (induction as arbitrary: s) (auto simp: user_acts_def bindE_eq_Inr dest: user_act_room_in)

lemma handleClose_room_in:
  assumes "lp_run (loop_upd ctl self W) env (CbClose this) t s = Inr s'" and "room_in s"
  shows "room_in s'"
proof -
  let ?upd = "loop_upd ctl self W"
  obtain v w1 s2 v2 where v: "lp_conns s this = Some v"
    and w1: "lift_io (disableAll ?upd (c_chan v)) ((attach s v)\<lparr>state := kDisconnected\<rparr>) = Inr w1"
    and s2: "user_acts ?upd (e_connection env) (save this w1) = Inr s2" "lp_conns s2 this = Some v2"
    and s': "s' = save this ((attach s2 v2)\<lparr>c_io := s2\<lparr>lp_closed := insert this (lp_closed s2)\<rparr>\<rparr>)"
    using assms(1)
    by (auto simp: lp_run_def on_conn_def load_def conn_handleClose_def conn_call_def cassert_eq_Inr bindE_eq_Inr split: option.splits)
  have "same_conns ((attach s v)\<lparr>state := kDisconnected\<rparr>) w1" by (rule lift_io_conns [OF w1]) (rule disableAll_conns)
  then have "room_in (save this w1)" by (intro room_in_save [OF assms(2) _ v]) (simp_all add: same_conns_def)
  then have "room_in s2" by (rule user_acts_room_in [OF s2(1)])
  then have "room_in (s2\<lparr>lp_closed := insert this (lp_closed s2)\<rparr>)" by (simp add: room_in_def)
  then show ?thesis unfolding s' by (rule room_in_save) (use s2(2) in simp_all)
qed

lemma handleWrite_good:
  assumes good: "loop_good km lid s" and spec: "epoll_ctl_spec ctl km" and W: "w_this W = lid" and v: "lp_conns s this = Some v" "state v \<noteq> kConnecting"
  shows "\<exists>s'. lp_run (loop_upd ctl self W) env (CbWrite this) t s = Inr s' \<and> loop_good km lid s' \<and> lp_keeps 0 s s'"
proof (cases "established v")
  case True
  let ?r = "kernel_write (attach s v) (readableBytes (outputBuffer v)) (e_write env)"
  have b: "buf_inv (outputBuffer v)" using conn_goodD [OF good v(1)] by metis
  have "op_answer (attach s v) (OWritable ?r)"
    using kernel_write_ok [of "attach s v" "readableBytes (outputBuffer v)"] readableBytes_eq [OF b] by (simp add: op_answer_def)
  moreover have "used (outputBuffer v) \<le> vec_max" using b by (auto simp: used_def buf_inv_def)
  ultimately obtain s' where "on_conn this (do_op (loop_upd ctl self W) (OWritable ?r)) s = Inr s'" "loop_good km lid s'" "lp_keeps 0 s s'"
    using on_conn_op [OF good spec W v(1) True, of "OWritable ?r" self] by (auto simp: op_data_def)
  then show ?thesis using v(1) by (simp add: lp_run_def on_conn_def load_def do_op_def)
next
  case False
  then have "state v = kDisconnected" using v(2) by (cases "state v") (auto simp: established_def)
  then obtain ch where "heap s (c_chan v) = Some ch" "events ch = 0" using conn_goodD [OF good v(1)] by (auto simp: conn_shape_def)
  then have "lp_run (loop_upd ctl self W) env (CbWrite this) t s = Inr s"
    using load_good [OF good v(1)] by (simp add: lp_run_def on_conn_def conn_handleWrite_def isWriting_def)
  then show ?thesis using good lp_keeps_refl by blast
qed

end
