(* ===== verification/Loop_Dispatch.thy ===== *)
theory Loop_Dispatch
  imports Event_Loop
begin

text \<open>
  One event and one functor of the loop of \<^verbatim>\<open>Event_Loop\<close>: \<^verbatim>\<open>Channel::handleEvent\<close> on the channel of a connection and on any other channel, and the
  functors that \<^verbatim>\<open>doPendingFunctors\<close> calls. Each takes a good state to a good state.
\<close>

unbundle bit_operations_syntax

section \<open>Events\<close>

text \<open>The handling flag and the reported events of a channel do not matter to the connections.\<close>

definition reported :: "'cb channel \<Rightarrow> 'cb channel" where
  "reported ch = ch\<lparr>ch_eventHandling := False, revents := 0\<rparr>"

lemma reported_eqD:
  "reported ch' = reported ch \<Longrightarrow> ch_fd ch' = ch_fd ch \<and> ch_loop ch' = ch_loop ch \<and> ch_index ch' = ch_index ch \<and> events ch' = events ch
    \<and> tied ch' = tied ch \<and> tie ch' = tie ch \<and> bound this ch' = bound this ch \<and> plain ch' = plain ch"
  by (cases ch; cases ch') (simp add: reported_def bound_def plain_def)

text \<open>A change of a channel that keeps what the connections rely on.\<close>

definition same_for :: "'k loop_io \<Rightarrow> nat \<Rightarrow> conn_cb channel \<Rightarrow> conn_cb channel \<Rightarrow> bool" where
  "same_for s c ch ch' \<longleftrightarrow> ch_fd ch' = ch_fd ch \<and> ch_loop ch' = ch_loop ch \<and> ch_index ch' = ch_index ch \<and> events ch' = events ch
     \<and> (\<forall>this. bound this ch' = bound this ch) \<and> (plain ch \<longrightarrow> plain ch')
     \<and> (\<forall>this v. lp_conns s this = Some v \<longrightarrow> c_chan v = c \<longrightarrow> established v \<longrightarrow> tied ch' = tied ch \<and> tie ch' = tie ch)"

lemma loop_good_chan:
  assumes good: "loop_good km lid s" and ch: "heap s c = Some ch" and ch': "same_for s c ch ch'"
  shows "loop_good km lid (s\<lparr>heap := (heap s)(c \<mapsto> ch')\<rparr>)"
proof -
  let ?s = "s\<lparr>heap := (heap s)(c \<mapsto> ch')\<rparr>"
  have r: "ch_fd ch' = ch_fd ch" "ch_loop ch' = ch_loop ch" "ch_index ch' = ch_index ch" "events ch' = events ch" "\<And>this. bound this ch' = bound this ch"
    "plain ch \<Longrightarrow> plain ch'" using ch' by (simp_all add: same_for_def)
  have shape: "conn_shape ?s this v ch'" if "conn_shape s this v ch" "c_chan v = c" "lp_conns s this = Some v" for this v
  proof -
    have "established v \<Longrightarrow> tied ch' = tied ch \<and> tie ch' = tie ch" using ch' that(2,3) by (auto simp: same_for_def)
    then show ?thesis using r ch that by (auto simp: conn_shape_def ep_reg_def established_def split: conn_state.splits)
  qed
  have other: "conn_shape ?s this v chd = conn_shape s this v chd" if "c_chan v \<noteq> c" for this v chd
    using that by (auto simp: conn_shape_def ep_reg_def split: conn_state.splits)
  have "conn_good lid ?s this v" if v: "lp_conns s this = Some v" for this v
  proof -
    have "conn_good lid s this v" using good v by (simp add: loop_good_def)
    then show ?thesis using shape [OF _ _ v] other ch r by (cases "c_chan v = c") (auto simp: conn_good_def)
  qed
  moreover have fds: "map_option ch_fd (heap ?s d) = map_option ch_fd (heap s d)" for d using ch r by simp
  have "apart ?s" using good fds unfolding loop_good_def apart_def by simp
  moreover have "others_ok ?s" using good ch r by (auto simp: loop_good_def others_ok_def)
  moreover have "ep_inv km ?s" using good ep_inv_channel_update [of km s c ch ch'] ch r by (simp add: loop_good_def)
  ultimately show ?thesis by (simp add: loop_good_def)
qed

lemma loop_good_reported:
  assumes "loop_good km lid s" and "heap s c = Some ch" and "reported ch' = reported ch"
  shows "loop_good km lid (s\<lparr>heap := (heap s)(c \<mapsto> ch')\<rparr>)"
  using loop_good_chan [OF assms(1,2)] reported_eqD [OF assms(3)] by (simp add: same_for_def)

lemma lp_event_core:
  assumes "lp_event n this s s'" and "heap s c = Some ch"
  shows "\<exists>ch'. heap s' c = Some ch' \<and> core ch' = core ch"
proof -
  have "map_option core (heap s' c) = map_option core (heap s c)" using assms(1) by (simp add: lp_event_def)
  then show ?thesis using assms(2) by auto
qed

lemma lp_event_refl: "lp_conns s this = Some v \<Longrightarrow> lp_event 0 this s s"
  using lp_keeps_event [OF lp_keeps_refl] by blast

lemma fire_bound:
  assumes "heap s c = Some ch" and "bound this ch"
  shows "fire run c want_close closeCb t s = (if want_close (revents ch) then run (CbClose this) t s else Inr s)"
    "fire run c want_error errorCb t s = (if want_error (revents ch) then run (CbError this) t s else Inr s)"
    "fire run c want_read readCb t s = (if want_read (revents ch) then run (CbRead this) t s else Inr s)"
    "fire run c want_write writeCb t s = (if want_write (revents ch) then run (CbWrite this) t s else Inr s)"
  using assms by (simp_all add: fire_def bound_def)

text \<open>The callbacks of an established connection, in the order of \<^verbatim>\<open>handleEventWithGuard\<close>.\<close>

text \<open>\<^verbatim>\<open>handleEventWithGuard\<close> may close the connection for a hang-up and then read from it, when urgent data or a half-close are reported too. It closes it a second time when
  that read finds the end.\<close>

definition closes_twice :: "loop_env \<Rightarrow> mask \<Rightarrow> bool" where
  "closes_twice env r \<longleftrightarrow> want_close r \<and> want_read r \<and> e_read env = ReadvBytes []"

lemma closed_then_read:
  assumes good: "loop_good km lid s" and spec: "epoll_ctl_spec ctl km" and W: "w_this W = lid" and v: "lp_conns s this = Some v" "established v"
    and rm: "room (2 * env_bytes env) s" "room_in s" and run: "run = lp_run (loop_upd ctl self W) env"
  shows "\<exists>s1 v1. run (CbClose this) None s = Inr s1 \<and> loop_good km lid s1 \<and> lp_event (env_bytes env) this s s1 \<and> lp_conns s1 this = Some v1 \<and> state v1 = kDisconnected
    \<and> (if e_read env = ReadvBytes [] then run (CbRead this) t s1 = Inl AssertFailed
       else \<exists>s2. run (CbRead this) t s1 = Inr s2 \<and> loop_good km lid s2 \<and> lp_event (2 * env_bytes env) this s s2)"
proof -
  have "room (env_bytes env + env_bytes env) s" using rm(1) by (simp add: mult_2)
  then have r: "room (env_bytes env) s" by (rule room_mono) simp
  obtain s1 v1 where s1: "run (CbClose this) None s = Inr s1" "loop_good km lid s1" "lp_event (env_bytes env) this s s1" "lp_conns s1 this = Some v1" "state v1 = kDisconnected"
    using handleClose_good [OF good spec W v r] unfolding run by blast
  have r1: "room (env_bytes env) s1" "room_in s1"
    using room_event [OF \<open>room (env_bytes env + env_bytes env) s\<close> s1(3)] handleClose_room_in [OF s1(1) [unfolded run] rm(2)] by simp_all
  show ?thesis
  proof (cases "e_read env = ReadvBytes []")
    case True
    then show ?thesis using s1 handleRead_twice [OF s1(2,4,5) True] unfolding run by auto
  next
    case False
    then obtain s2 where s2: "run (CbRead this) t s1 = Inr s2" "loop_good km lid s2" "lp_event (env_bytes env) this s1 s2"
      using handleRead_good [OF s1(2) spec W s1(4) _ r1, of self t] unfolding run by auto
    have "lp_event (env_bytes env + env_bytes env) this s s2" by (rule lp_event_trans [OF s1(3) s2(3)])
    then have "lp_event (2 * env_bytes env) this s s2" by (simp add: mult_2)
    then show ?thesis using s1 s2 False by auto
  qed
qed

lemma close_or_read:
  assumes good: "loop_good km lid s" and spec: "epoll_ctl_spec ctl km" and W: "w_this W = lid" and v: "lp_conns s this = Some v" "established v"
    and rm: "room (2 * env_bytes env) s" "room_in s" and ch: "heap s (c_chan v) = Some ch" and run: "run = lp_run (loop_upd ctl self W) env"
    and chain: "chain = bindE (fire run (c_chan v) want_close closeCb None s)
      (\<lambda>s. bindE (fire run (c_chan v) want_error errorCb None s) (fire run (c_chan v) want_read readCb (Some t)))"
  shows "if closes_twice env (revents ch) then chain = Inl AssertFailed
    else \<exists>s'. chain = Inr s' \<and> loop_good km lid s' \<and> lp_event (2 * env_bytes env) this s s'"
proof -
  have b: "bound this ch" using conn_goodD [OF good v(1)] ch by auto
  have error: "run (CbError this) None s1 = Inr s1" if "loop_good km lid s1" "lp_conns s1 this \<noteq> None" for s1
    using load_good [OF that(1)] that(2) by (auto simp: run lp_run_def on_conn_def conn_handleError_def)
  show ?thesis
  proof (cases "want_close (revents ch)")
    case True
    obtain s1 v1 where s1: "run (CbClose this) None s = Inr s1" "loop_good km lid s1" "lp_event (env_bytes env) this s s1" "lp_conns s1 this = Some v1"
      and rd: "if e_read env = ReadvBytes [] then run (CbRead this) (Some t) s1 = Inl AssertFailed
        else \<exists>s2. run (CbRead this) (Some t) s1 = Inr s2 \<and> loop_good km lid s2 \<and> lp_event (2 * env_bytes env) this s s2"
      using closed_then_read [OF good spec W v rm run, of "Some t"] by blast
    obtain ch1 where ch1: "heap s1 (c_chan v) = Some ch1" "core ch1 = core ch" using lp_event_core [OF s1(3) ch] by blast
    have b1: "bound this ch1" "revents ch1 = revents ch" using core_bound [OF ch1(2)] b by auto
    have "chain = (if want_read (revents ch) then run (CbRead this) (Some t) s1 else Inr s1)"
      using s1(1,4) True error [OF s1(2)] b1(2) by (simp add: chain fire_bound [OF ch b] fire_bound [OF ch1(1) b1(1)])
    moreover have "lp_event (2 * env_bytes env) this s s1" using lp_event_mono [OF s1(3)] by simp
    ultimately show ?thesis using s1(2) rd True by (auto simp: closes_twice_def)
  next
    case False
    have r: "room (env_bytes env) s" by (rule room_mono [OF rm(1)]) simp
    obtain s1 where "run (CbRead this) (Some t) s = Inr s1" "loop_good km lid s1" "lp_event (env_bytes env) this s s1"
      using handleRead_good [OF good spec W v(1) disjI1 [OF v(2)] r rm(2)] unfolding run by blast
    moreover have "lp_event (2 * env_bytes env) this s s" using lp_event_mono [OF lp_event_refl [OF v(1)]] by simp
    ultimately show ?thesis
      using False error [OF good] v(1) good lp_event_mono [of "env_bytes env" this s s1 "2 * env_bytes env"]
      by (auto simp: chain fire_bound [OF ch b] closes_twice_def)
  qed
qed

text \<open>The flag that a channel is being handled, set and reset.\<close>

definition idle :: "'k loop_io \<Rightarrow> bool" where
  "idle s \<longleftrightarrow> (\<forall>d ch. heap s d = Some ch \<longrightarrow> \<not> ch_eventHandling ch)"

abbreviation flag :: "nat \<Rightarrow> conn_cb channel \<Rightarrow> bool \<Rightarrow> 'k loop_io \<Rightarrow> 'k loop_io" where
  "flag c ch b s \<equiv> s\<lparr>heap := (heap s)(c \<mapsto> ch\<lparr>ch_eventHandling := b\<rparr>)\<rparr>"

lemma reported_flag [simp]: "reported (ch\<lparr>ch_eventHandling := b\<rparr>) = reported ch"
  by (simp add: reported_def)

lemma core_flag: "core ch4 = core (ch\<lparr>ch_eventHandling := True\<rparr>) \<Longrightarrow> \<not> ch_eventHandling ch \<Longrightarrow> core (ch4\<lparr>ch_eventHandling := False\<rparr>) = core ch"
  by (cases ch; cases ch4) (simp add: core_def)

lemma core_handling: "(\<forall>d. map_option core (heap s' d) = map_option core (heap s d)) \<Longrightarrow> idle s \<Longrightarrow> idle s'"
  unfolding idle_def
proof (intro allI impI)
  fix d ch' assume a: "\<forall>d. map_option core (heap s' d) = map_option core (heap s d)" "\<forall>d ch. heap s d = Some ch \<longrightarrow> \<not> ch_eventHandling ch"
    "heap s' d = Some ch'"
  then have "map_option core (heap s d) = Some (core ch')" by (metis option.simps(9))
  then obtain ch where "heap s d = Some ch" "core ch = core ch'" by auto
  then show "\<not> ch_eventHandling ch'" using a(2) core_bound [of ch ch'] by auto
qed

lemma flag_event:
  assumes "lp_event n this (flag c ch True s) s4" and "heap s c = Some ch" and "\<not> ch_eventHandling ch"
  shows "\<exists>ch4. heap s4 c = Some ch4 \<and> lp_event n this s (flag c ch4 False s4)"
proof -
  obtain ch4 where ch4: "heap s4 c = Some ch4" "core ch4 = core (ch\<lparr>ch_eventHandling := True\<rparr>)"
    using lp_event_core [OF assms(1), of c] by auto
  have "map_option core (heap (flag c ch4 False s4) d) = map_option core (heap s d)" for d
    using core_flag [OF ch4(2) assms(3)] assms(1,2) by (cases "d = c") (auto simp: lp_event_def)
  then have "lp_event n this s (flag c ch4 False s4)" using assms(1) unfolding lp_event_def by simp
  then show ?thesis using ch4(1) by blast
qed

lemma dispatch_conn:
  assumes good: "loop_good km lid s" and spec: "epoll_ctl_spec ctl km" and W: "w_this W = lid" and v: "lp_conns s this = Some v" "established v"
    and rm: "room (2 * env_bytes env) s" "room_in s" and ch: "heap s (c_chan v) = Some ch" and alive: "alive this" and idle: "idle s"
  shows "if closes_twice env (revents ch) then handleEvent alive (lp_run (loop_upd ctl self W) env) (c_chan v) t s = Inl AssertFailed
    else \<exists>s'. handleEvent alive (lp_run (loop_upd ctl self W) env) (c_chan v) t s = Inr s' \<and> loop_good km lid s' \<and> lp_event (2 * env_bytes env) this s s'"
proof -
  let ?run = "lp_run (loop_upd ctl self W) env" and ?c = "c_chan v" and ?s1 = "flag (c_chan v) ch True s" and ?n = "2 * env_bytes env"
  let ?chain = "bindE (fire ?run ?c want_close closeCb None ?s1) (\<lambda>s. bindE (fire ?run ?c want_error errorCb None s) (fire ?run ?c want_read readCb (Some t)))"
  have shape: "conn_good lid s this v" using good v(1) by (simp add: loop_good_def)
  have b: "bound this ch" "tied ch" "tie ch = Some this"
    using shape ch v(2) by (auto simp: conn_good_def conn_shape_def established_def)
  have good1: "loop_good km lid ?s1" by (rule loop_good_reported [OF good ch]) simp
  have rm1: "room ?n ?s1" "room_in ?s1" using rm by (auto simp: room_def room_in_def)
  have h: "handleEvent alive ?run ?c t s = bindE ?chain (\<lambda>s. bindE (fire ?run ?c want_write writeCb None s) (mod_ch ?c (\<lambda>ch. ch\<lparr>ch_eventHandling := False\<rparr>)))"
    using b alive ch by (simp add: handleEvent_def handleEventWithGuard_def bindE_assoc)
  have c: "if closes_twice env (revents ch) then ?chain = Inl AssertFailed else \<exists>s'. ?chain = Inr s' \<and> loop_good km lid s' \<and> lp_event ?n this ?s1 s'"
    using close_or_read [OF good1 spec W _ v(2) rm1 _ refl refl, of this "ch\<lparr>ch_eventHandling := True\<rparr>" self t] v(1) by simp
  show ?thesis
  proof (cases "closes_twice env (revents ch)")
    case True
    then show ?thesis using c h by simp
  next
    case False
    obtain s3 where s3: "?chain = Inr s3" "loop_good km lid s3" "lp_event ?n this ?s1 s3" using c False by auto
    obtain ch3 where ch3: "heap s3 ?c = Some ch3" "core ch3 = core (ch\<lparr>ch_eventHandling := True\<rparr>)" using lp_event_core [OF s3(3), of ?c] by auto
    have b3: "bound this ch3" using core_bound [OF ch3(2)] b(1) by (simp add: bound_def)
    obtain v3 where v3: "lp_conns s3 this = Some v3" "state v3 \<noteq> kConnecting"
      using s3(3) v by (auto simp: lp_event_def conn_keeps_def established_def)
    obtain s4 where s4: "fire ?run ?c want_write writeCb None s3 = Inr s4" "loop_good km lid s4" "lp_keeps 0 s3 s4"
      using handleWrite_good [OF s3(2) spec W v3, of self env None] s3(2) lp_keeps_refl
      by (cases "want_write (revents ch3)") (auto simp: fire_bound [OF ch3(1) b3])
    have "lp_event (?n + 0) this ?s1 s4" by (rule lp_event_trans [OF s3(3) lp_keeps_event [OF s4(3) v3(1)]])
    then obtain ch4 where ch4: "heap s4 ?c = Some ch4" "lp_event ?n this s (flag ?c ch4 False s4)"
      using flag_event [OF _ ch, of ?n this s4] idle ch by (auto simp: idle_def)
    moreover have "loop_good km lid (flag ?c ch4 False s4)" by (rule loop_good_reported [OF s4(2) ch4(1)]) simp
    moreover have "handleEvent alive ?run ?c t s = Inr (flag ?c ch4 False s4)" using h s3(1) s4(1) ch4(1) by simp
    ultimately show ?thesis using False by auto
  qed
qed

text \<open>Any other channel: at most four calls of its callbacks.\<close>

lemma plain_core: "lp_keeps n s s' \<Longrightarrow> heap s c = Some ch \<Longrightarrow> plain ch \<Longrightarrow> \<exists>ch'. heap s' c = Some ch' \<and> plain ch' \<and> revents ch' = revents ch"
proof -
  assume a: "lp_keeps n s s'" "heap s c = Some ch" "plain ch"
  have "map_option core (heap s' c) = map_option core (heap s c)" using a(1) by (simp add: lp_keeps_def)
  then obtain ch' where "heap s' c = Some ch'" "core ch' = core ch" using a(2) by auto
  then show ?thesis using a(3) core_bound [of ch' ch] by auto
qed

lemma fire_plain:
  assumes good: "loop_good km lid s" and spec: "epoll_ctl_spec ctl km" and W: "w_this W = lid" and ch: "heap s c = Some ch" "plain ch"
    and sel: "sel \<in> {readCb, writeCb, closeCb, errorCb}" and rm: "room (acts_bytes (e_other env) + n) s"
  shows "\<exists>s'. fire (lp_run (loop_upd ctl self W) env) c cond sel t s = Inr s' \<and> loop_good km lid s' \<and> lp_keeps (acts_bytes (e_other env)) s s'
    \<and> room n s' \<and> (\<exists>ch'. heap s' c = Some ch' \<and> plain ch')"
proof (cases "cond (revents ch) \<and> sel ch \<noteq> None")
  case True
  have "sel ch = readCb ch \<or> sel ch = writeCb ch \<or> sel ch = closeCb ch \<or> sel ch = errorCb ch" using sel by auto
  from ch(2) [unfolded plain_def, THEN conjunct2, rule_format, OF this] True obtain m where m: "sel ch = Some (CbOther m)" by auto
  obtain s' where s': "user_acts (loop_upd ctl self W) (e_other env) s = Inr s'" "loop_good km lid s'" "lp_keeps (acts_bytes (e_other env)) s s'"
    using user_acts_good [OF spec W good room_mono [OF rm, of "acts_bytes (e_other env)"]] by auto
  then show ?thesis using True m ch plain_core [OF s'(3) ch] room_keeps [OF rm s'(3)] by (auto simp: fire_def lp_run_def)
next
  case False
  have "lp_keeps (acts_bytes (e_other env)) s s" using lp_keeps_refl [of s] by (auto simp: lp_keeps_def conns_keep_refl)
  then show ?thesis using False ch good room_mono [OF rm] by (auto simp: fire_def split: option.splits)
qed

lemma flag_keeps:
  assumes "lp_keeps n (flag c ch True s) s4" and "heap s c = Some ch" and "\<not> ch_eventHandling ch"
  shows "\<exists>ch4. heap s4 c = Some ch4 \<and> lp_keeps n s (flag c ch4 False s4)"
proof -
  have "map_option core (heap s4 c) = Some (core (ch\<lparr>ch_eventHandling := True\<rparr>))" using assms(1) by (simp add: lp_keeps_def)
  then obtain ch4 where ch4: "heap s4 c = Some ch4" "core ch4 = core (ch\<lparr>ch_eventHandling := True\<rparr>)" by auto
  have "map_option core (heap (flag c ch4 False s4) d) = map_option core (heap s d)" for d
    using core_flag [OF ch4(2) assms(3)] assms(1,2) by (cases "d = c") (auto simp: lp_keeps_def)
  then have "lp_keeps n s (flag c ch4 False s4)" using assms(1) unfolding lp_keeps_def by simp
  then show ?thesis using ch4(1) by blast
qed

lemma dispatch_plain:
  assumes good: "loop_good km lid s" and spec: "epoll_ctl_spec ctl km" and W: "w_this W = lid" and ch: "heap s c = Some ch" "plain ch"
    and rm: "room (4 * acts_bytes (e_other env)) s" and idle: "idle s"
  shows "\<exists>s'. handleEvent alive (lp_run (loop_upd ctl self W) env) c t s = Inr s' \<and> loop_good km lid s' \<and> lp_keeps (4 * acts_bytes (e_other env)) s s'"
proof -
  let ?n = "acts_bytes (e_other env)" and ?run = "lp_run (loop_upd ctl self W) env" and ?s1 = "flag c ch True s"
  note fp = fire_plain [OF _ spec W]
  have good1: "loop_good km lid ?s1" by (rule loop_good_reported [OF good ch(1)]) simp
  have rm1: "room (?n + (?n + (?n + (?n + 0)))) ?s1"
    using rm by (simp add: room_def numeral_eq_Suc add.assoc)
  have p1: "heap ?s1 c = Some (ch\<lparr>ch_eventHandling := True\<rparr>)" "plain (ch\<lparr>ch_eventHandling := True\<rparr>)" using ch(2) by (auto simp: plain_def)
  obtain s2 ch2 where s2: "fire ?run c want_close closeCb None ?s1 = Inr s2" "loop_good km lid s2" "lp_keeps ?n ?s1 s2" "room (?n + (?n + (?n + 0))) s2"
    "heap s2 c = Some ch2" "plain ch2" using fp [OF good1 p1 _ rm1] by (metis insert_iff)
  obtain s3 ch3 where s3: "fire ?run c want_error errorCb None s2 = Inr s3" "loop_good km lid s3" "lp_keeps ?n s2 s3" "room (?n + (?n + 0)) s3"
    "heap s3 c = Some ch3" "plain ch3" using fp [OF s2(2,5,6) _ s2(4)] by (metis insert_iff)
  obtain s4 ch4 where s4: "fire ?run c want_read readCb (Some t) s3 = Inr s4" "loop_good km lid s4" "lp_keeps ?n s3 s4" "room (?n + 0) s4"
    "heap s4 c = Some ch4" "plain ch4" using fp [OF s3(2,5,6) _ s3(4)] by (metis insert_iff)
  obtain s5 ch5 where s5: "fire ?run c want_write writeCb None s4 = Inr s5" "loop_good km lid s5" "lp_keeps ?n s4 s5"
    "heap s5 c = Some ch5" "plain ch5" using fp [OF s4(2,5,6) _ s4(4)] by (metis insert_iff)
  have "lp_keeps (?n + ?n + ?n + ?n) ?s1 s5" by (rule lp_keeps_trans [OF lp_keeps_trans [OF lp_keeps_trans [OF s2(3) s3(3)] s4(3)] s5(3)])
  then have "lp_keeps (4 * ?n) ?s1 s5" by (simp add: numeral_eq_Suc add.assoc)
  then have k: "lp_keeps (4 * ?n) s (flag c ch5 False s5)" using flag_keeps [OF _ ch(1)] idle ch(1) s5(4) by (fastforce simp: idle_def)
  have "\<not> tied ch" using ch(2) by (simp add: plain_def)
  then have "handleEvent alive ?run c t s = Inr (flag c ch5 False s5)"
    using ch(1) s2(1) s3(1) s4(1) s5(1,4) by (simp add: handleEvent_def handleEventWithGuard_def)
  moreover have "loop_good km lid (flag c ch5 False s5)" by (rule loop_good_reported [OF s5(2,4)]) simp
  ultimately show ?thesis using k by blast
qed

section \<open>Phases\<close>

text \<open>Where a connection is in its life: not yet registered with the poller, in use, closed but still known to the poller, or taken out of it.\<close>

datatype phase = PConnecting | PEstablished | PClosed | PRemoved

definition registered :: "'k loop_io \<Rightarrow> nat \<Rightarrow> bool" where
  "registered s c \<longleftrightarrow> (\<exists>ch. heap s c = Some ch \<and> ep_channels s (ch_fd ch) = Some c)"

definition conn_phase :: "'k loop_io \<Rightarrow> unit tcp_connection \<Rightarrow> phase" where
  "conn_phase s v =
     (case state v of kConnecting \<Rightarrow> PConnecting | kDisconnected \<Rightarrow> if registered s (c_chan v) then PClosed else PRemoved | _ \<Rightarrow> PEstablished)"

definition phase :: "'k loop_io \<Rightarrow> nat \<Rightarrow> phase option" where
  "phase s this = map_option (conn_phase s) (lp_conns s this)"

lemma conn_phase_iff:
  "conn_phase s v = PConnecting \<longleftrightarrow> state v = kConnecting" "conn_phase s v = PEstablished \<longleftrightarrow> established v"
  "conn_phase s v = PClosed \<longleftrightarrow> state v = kDisconnected \<and> registered s (c_chan v)"
  "conn_phase s v = PRemoved \<longleftrightarrow> state v = kDisconnected \<and> \<not> registered s (c_chan v)"
  by (cases "state v"; simp add: conn_phase_def established_def)+

lemma registered_core:
  assumes "map_option core (heap s' c) = map_option core (heap s c)" and "ep_channels s' = ep_channels s"
  shows "registered s' c = registered s c"
proof (cases "heap s c")
  case None
  then show ?thesis using assms(1) by (simp add: registered_def)
next
  case (Some ch)
  then obtain ch' where ch': "heap s' c = Some ch'" "core ch' = core ch" using assms(1) by auto
  then show ?thesis using core_fd [OF ch'(2)] Some assms(2) by (simp add: registered_def)
qed

lemma conn_phase_keeps:
  assumes "conn_keeps n v v'" and "registered s' (c_chan v) = registered s (c_chan v)"
  shows "conn_phase s' v' = conn_phase s v"
  using assms by (auto simp: conn_keeps_def conn_phase_def split: conn_state.splits)

lemma phase_keeps:
  assumes "lp_keeps n s s'"
  shows "phase s' t = phase s t"
proof -
  have k: "conns_keep n (lp_conns s) (lp_conns s')" and r: "\<And>c. registered s' c = registered s c"
    using assms registered_core by (auto simp: lp_keeps_def)
  have "rel_option (conn_keeps n) (lp_conns s t) (lp_conns s' t)" using k by (simp add: conns_keep_def)
  then show ?thesis using conn_phase_keeps [OF _ r] by (cases "lp_conns s t"; cases "lp_conns s' t") (auto simp: phase_def)
qed

lemma phase_event:
  assumes "lp_event n this s s'"
  shows "t \<noteq> this \<Longrightarrow> phase s' t = phase s t"
    and "loop_good km lid s \<Longrightarrow> phase s' this = phase s this \<and> lp_closed s' = lp_closed s
      \<or> phase s this = Some PEstablished \<and> phase s' this = Some PClosed \<and> lp_closed s' = insert this (lp_closed s)"
proof -
  have r: "registered s' c = registered s c" for c using assms registered_core [of s' c s] by (simp add: lp_event_def)
  show "phase s' t = phase s t" if "t \<noteq> this"
  proof -
    have "rel_option (conn_keeps n) (lp_conns s t) (lp_conns s' t)" using assms that by (simp add: lp_event_def)
    then show ?thesis using conn_phase_keeps [OF _ r] by (cases "lp_conns s t"; cases "lp_conns s' t") (auto simp: phase_def)
  qed
  assume good: "loop_good km lid s"
  obtain v v' where v: "lp_conns s this = Some v" "lp_conns s' this = Some v'" "c_chan v' = c_chan v"
    "conn_keeps n v v' \<and> lp_closed s' = lp_closed s \<or> established v \<and> state v' = kDisconnected \<and> lp_closed s' = insert this (lp_closed s)"
    using assms by (auto simp: lp_event_def)
  have "registered s (c_chan v)" if "established v"
  proof -
    have "conn_good lid s this v" using good v(1) by (simp add: loop_good_def)
    then show ?thesis using that by (auto simp: conn_good_def conn_shape_def established_def ep_reg_def registered_def)
  qed
  then have reg: "established v \<Longrightarrow> registered s (c_chan v)" .
  from v(4) show "phase s' this = phase s this \<and> lp_closed s' = lp_closed s
      \<or> phase s this = Some PEstablished \<and> phase s' this = Some PClosed \<and> lp_closed s' = insert this (lp_closed s)"
  proof (elim disjE conjE)
    assume "conn_keeps n v v'" "lp_closed s' = lp_closed s"
    then show ?thesis using v(1,2) conn_phase_keeps [OF _ r, of n v v'] by (simp add: phase_def)
  next
    assume "established v" "state v' = kDisconnected" "lp_closed s' = insert this (lp_closed s)"
    then show ?thesis using v(1-3) r reg by (auto simp: phase_def conn_phase_def established_def)
  qed
qed

section \<open>Functors\<close>

definition soft_posts :: "'k loop_io \<Rightarrow> 'k loop_io \<Rightarrow> bool" where
  "soft_posts s s' \<longleftrightarrow> (\<exists>fs. lp_posts s' = lp_posts s @ fs \<and> (\<forall>f \<in> set fs. \<exists>t g. f = FConn t g \<and> soft g \<and> lp_conns s t \<noteq> None))"

text \<open>A functor of connection \<open>this\<close> moves it to a phase, leaves the others in theirs and queues notifications only.\<close>

definition lp_moves :: "nat \<Rightarrow> phase option \<Rightarrow> 'k loop_io \<Rightarrow> 'k loop_io \<Rightarrow> bool" where
  "lp_moves this p s s' \<longleftrightarrow> (idle s \<longrightarrow> idle s') \<and> lp_closed s' = lp_closed s \<and> phase s' = (phase s)(this := p) \<and> soft_posts s s'"

lemma lp_keeps_moves: "lp_keeps n s s' \<Longrightarrow> lp_moves this (phase s this) s s'"
  using core_handling [of s' s] by (auto simp: lp_moves_def soft_posts_def phase_keeps lp_keeps_def)

lemma lp_moves_keeps:
  assumes "lp_moves this p s s1" and "lp_keeps n s1 s2" and "\<And>t. lp_conns s1 t = None \<longleftrightarrow> lp_conns s t = None"
  shows "lp_moves this p s s2"
proof -
  obtain fs gs where "lp_posts s1 = lp_posts s @ fs" "\<forall>f \<in> set fs. \<exists>t g. f = FConn t g \<and> soft g \<and> lp_conns s t \<noteq> None"
    "lp_posts s2 = lp_posts s1 @ gs" "\<forall>f \<in> set gs. \<exists>t g. f = FConn t g \<and> soft g \<and> lp_conns s1 t \<noteq> None"
    using assms(1,2) by (auto simp: lp_moves_def soft_posts_def lp_keeps_def)
  then have "soft_posts s s2" unfolding soft_posts_def using assms(3) by (intro exI [of _ "fs @ gs"]) auto
  moreover have "phase s2 = phase s1" using phase_keeps [OF assms(2)] by auto
  ultimately show ?thesis using assms(1,2) core_handling [of s2 s1] by (simp add: lp_moves_def lp_keeps_def)
qed

text \<open>Putting back a connection whose channel was changed in the poller.\<close>

lemma moves_save:
  assumes good: "loop_good km lid s" and v: "lp_conns s this = Some v" and frame: "lp_frame ctl km (c_chan v) s (c_io w)" and c: "c_chan w = c_chan v"
    and q: "c_queue w = []"
  shows "lp_moves this (phase (save this w) this) s (save this w)"
proof -
  obtain ch ch0 where h: "heap (c_io w) (c_chan v) = Some ch" "heap s (c_chan v) = Some ch0" "core ch = core ch0"
    "\<And>d. d \<noteq> c_chan v \<Longrightarrow> heap (c_io w) d = heap s d" "\<And>fd. fd \<noteq> ch_fd ch0 \<Longrightarrow> ep_channels (c_io w) fd = ep_channels s fd"
    using frame by (auto simp: lp_frame_def)
  have more: "lp_conns (c_io w) = lp_conns s" "lp_closed (c_io w) = lp_closed s" "lp_posts (c_io w) = lp_posts s"
    using frame by (cases s; cases "c_io w"; simp add: lp_frame_def)+
  have "map_option core (heap (save this w) d) = map_option core (heap s d)" for d
    using h(1-3) h(4) [of d] by (cases "d = c_chan v") auto
  then have "idle s \<longrightarrow> idle (save this w)" using core_handling by blast
  moreover have "phase (save this w) t = phase s t" if t: "t \<noteq> this" for t
  proof (cases "lp_conns s t")
    case None
    then show ?thesis using t more by (simp add: phase_def)
  next
    case (Some vt)
    have a: "c_chan vt \<noteq> c_chan v" "map_option ch_fd (heap s (c_chan vt)) \<noteq> Some (ch_fd ch0)"
      using good v Some t h(2) unfolding loop_good_def apart_def by (metis option.simps(9))+
    then have "registered (save this w) (c_chan vt) = registered s (c_chan vt)" using h(4,5) by (auto simp: registered_def)
    then show ?thesis using t more Some by (simp add: phase_def conn_phase_def cong: conn_state.case_cong)
  qed
  ultimately show ?thesis using more q by (auto simp: lp_moves_def soft_posts_def)
qed

text \<open>\<^verbatim>\<open>ConnectionDestroyed\<close> on a closed connection takes its channel out of the poller.\<close>

lemma destroy_good:
  assumes good: "loop_good km lid s" and spec: "epoll_ctl_spec ctl km" and W: "w_this W = lid" "\<not> eventHandling W" and ph: "phase s this = Some PClosed"
  shows "\<exists>s'. call_functor (loop_upd ctl self W) (loop_rmv ctl self W) env (FDestroy this) s = Inr s' \<and> loop_good km lid s'
    \<and> lp_moves this (Some PRemoved) s s'"
proof -
  obtain v where v: "lp_conns s this = Some v" and st: "state v = kDisconnected" and reg: "registered s (c_chan v)"
    using ph by (auto simp: phase_def conn_phase_iff)
  have cg: "conn_good lid s this v" using good v by (simp add: loop_good_def)
  obtain ch where ch: "heap s (c_chan v) = Some ch" "ch_loop ch = lid" "bound this ch" "events ch = 0" "ep_channels s (ch_fd ch) = Some (c_chan v)"
    using cg reg st by (auto simp: conn_good_def conn_shape_def registered_def)
  have inv: "ep_inv km s" using good by (simp add: loop_good_def)
  have none: "isNoneEvent ch" using ch(4) by (simp add: isNoneEvent_def kNoneEvent_def)
  obtain s1 where s1: "EPollPoller_removeChannel ctl (c_chan v) s = Inr s1" "ep_inv km s1" "heap s1 = (heap s)(c_chan v \<mapsto> ch\<lparr>ch_index := kNew\<rparr>)"
    "ep_channels s1 = (ep_channels s)(ch_fd ch := None)" using ep_remove_ok [OF spec inv ch(1) none] ch by (auto simp: ep_remove_pre_def)
  have rmv: "loop_rmv ctl self W (c_chan v) s = Inr s1" using loop_rmv_eq [OF ch(1)] ch(2) W s1(1) by (simp add: cassert_def removable_def)
  let ?w = "(attach s v)\<lparr>c_io := s1\<rparr>"
  have frame: "lp_frame ctl km (c_chan v) s (c_io ?w)" using spec s1 ch(1) ep_remove_more [OF s1(1)] by (auto simp: lp_frame_def)
  have "conn_good lid (save this ?w) this ((attach () ?w)\<lparr>c_queue := []\<rparr>)"
    using cg st s1 ch by (auto simp: conn_good_def conn_shape_def bound_def)
  then have "loop_good km lid (save this ?w)" by (rule loop_good_save [OF good v frame, rotated]) simp
  moreover have "phase (save this ?w) this = Some PRemoved" using st s1 by (simp add: phase_def conn_phase_def registered_def)
  then have "lp_moves this (Some PRemoved) s (save this ?w)" using moves_save [OF good v frame] cg by (simp add: conn_good_def)
  moreover have "call_functor (loop_upd ctl self W) (loop_rmv ctl self W) env (FDestroy this) s = Inr (save this ?w)"
    using load_good [OF good v] st rmv none ch(1)
    by (simp add: call_functor_def on_conn_def ConnectionDestroyed_def lift_io_def Channel_remove_def cassert_def)
  ultimately show ?thesis by blast
qed

text \<open>The notifications and the raw functors of a connection that has been established.\<close>

lemma shut_good:
  assumes good: "loop_good km lid s" and v: "lp_conns s this = Some v" "state v = kDisconnected" and spec: "epoll_ctl_spec ctl km"
  shows "loop_good km lid (save this ((attach s v)\<lparr>write_shut := True\<rparr>)) \<and> lp_keeps 0 s (save this ((attach s v)\<lparr>write_shut := True\<rparr>))"
proof -
  let ?w = "(attach s v)\<lparr>write_shut := True\<rparr>"
  have cg: "conn_good lid s this v" using good v by (simp add: loop_good_def)
  then obtain ch where ch: "heap s (c_chan v) = Some ch" "c_queue v = []" by (auto simp: conn_good_def)
  have frame: "lp_frame ctl km (c_chan v) s (c_io ?w)" using lp_frame_refl [OF spec _ ch(1)] good by (simp add: loop_good_def)
  have "conn_good lid (save this ?w) this ((attach () ?w)\<lparr>c_queue := []\<rparr>)"
    using cg v(2) by (auto simp: conn_good_def conn_shape_def)
  then have "loop_good km lid (save this ?w)" by (rule loop_good_save [OF good v(1) frame, rotated]) simp
  moreover have "lp_keeps 0 s (save this ?w)" by (rule lp_keeps_save [OF v(1) frame]) (use ch(2) in \<open>simp_all add: conn_keeps_def\<close>)
  ultimately show ?thesis by blast
qed

fun functor_bytes :: "loop_env \<Rightarrow> loop_functor \<Rightarrow> nat" where
  "functor_bytes env (FConn this (SendInLoop data)) = length data"
| "functor_bytes env (FConn this ShutdownInLoop) = 0"
| "functor_bytes env (FConn this _) = acts_bytes (e_other env)"
| "functor_bytes env _ = acts_bytes (e_connection env)"

lemma conn_functor_good:
  assumes good: "loop_good km lid s" and spec: "epoll_ctl_spec ctl km" and W: "w_this W = lid" and v: "lp_conns s this = Some v"
    and raw: "soft g \<or> state v \<noteq> kConnecting" and rm: "room (functor_bytes env (FConn this g)) s"
  shows "\<exists>s'. call_functor (loop_upd ctl self W) (loop_rmv ctl self W) env (FConn this g) s = Inr s' \<and> loop_good km lid s'
    \<and> lp_keeps (functor_bytes env (FConn this g)) s s'"
proof (cases "soft g")
  case True
  then have n: "functor_bytes env (FConn this g) = acts_bytes (e_other env)" by (cases g) auto
  have c: "call_functor (loop_upd ctl self W) (loop_rmv ctl self W) env (FConn this g) s = user_acts (loop_upd ctl self W) (e_other env) s"
    using True v by (cases g) (auto simp: call_functor_def load_def)
  show ?thesis unfolding c n using user_acts_good [OF spec W good rm [unfolded n]] by blast
next
  case False
  note l = load_good [OF good v]
  have est: "established v \<or> state v = kDisconnected" using raw False by (cases "state v") (auto simp: established_def)
  show ?thesis
  proof (cases g)
    case (SendInLoop data)
    have "used (outputBuffer v) + length data \<le> vec_max" using rm v SendInLoop by (auto simp: room_def)
    then show ?thesis
      using est on_conn_op [OF good spec W v, of "ORunSend data (kernel_write (attach s v) (length data) (e_write env))" self] l good lp_keeps_refl [of s]
      by (auto simp: SendInLoop call_functor_def on_conn_def op_answer_def op_data_def kernel_write_ok do_op_def sendInLoop_def lp_keeps_def conns_keep_refl)
  next
    case ShutdownInLoop
    show ?thesis
    proof (cases "established v")
      case True
      have "used (outputBuffer v) \<le> vec_max" using rm v by (force simp: room_def)
      then show ?thesis
        using on_conn_op [OF good spec W v True, of ORunShutdown self] l by (auto simp: ShutdownInLoop call_functor_def on_conn_def op_answer_def op_data_def do_op_def)
    next
      case False
      then have st: "state v = kDisconnected" using est by blast
      have "conn_good lid s this v" using good v by (simp add: loop_good_def)
      then obtain ch where "heap s (c_chan v) = Some ch" "events ch = 0" using st by (auto simp: conn_good_def conn_shape_def)
      then show ?thesis
        using shut_good [OF good v st spec] l by (auto simp: ShutdownInLoop call_functor_def on_conn_def shutdownInLoop_def isWriting_def)
    qed
  qed (use False in simp_all)
qed

text \<open>\<^verbatim>\<open>ConnectionEstablished\<close>: the channel is tied to the connection and registered with the poller, and the user is told. The kernel must take the
  new descriptor: \<^verbatim>\<open>EPOLL_CTL_ADD\<close> fails only for want of memory or past the limit on watches, and then the program ends.\<close>

definition grants :: "'k epoll_ctl \<Rightarrow> ('k \<Rightarrow> int \<rightharpoonup> epoll_event) \<Rightarrow> bool" where
  "grants ctl km \<longleftrightarrow> (\<forall>fd ev k. 0 \<le> fd \<longrightarrow> km k fd = None \<longrightarrow> 0 \<le> fst (ctl EPOLL_CTL_ADD fd ev k))"

lemma register_hold:
  assumes good: "loop_good km lid s" and spec: "epoll_ctl_spec ctl km" and W: "w_this W = lid" and v: "lp_conns s this = Some v" "state v = kConnecting"
    and add: "grants ctl km" and ch: "heap s (c_chan v) = Some ch"
    and tied: "tied ch" "tie ch = Some this"
  shows "\<exists>s2. enableReading (loop_upd ctl self W) (c_chan v) s = Inr s2 \<and> hold km lid this ((attach s2 v)\<lparr>state := kConnected\<rparr>)
    \<and> lp_moves this (Some PEstablished) s (save this ((attach s2 v)\<lparr>state := kConnected\<rparr>)) \<and> lp_conns s2 = lp_conns s"
proof -
  have cg: "conn_good lid s this v" using good v(1) by (simp add: loop_good_def)
  have fd: "0 \<le> ch_fd ch" using cg ch v(2) by (auto simp: conn_good_def conn_shape_def)
  have c: "ch_loop ch = lid" "bound this ch" "ch_index ch = kNew" "events ch = 0" "ep_channels s (ch_fd ch) = None" "content (outputBuffer v) = []"
    "\<not> write_shut v" "c_queue v = []" using cg ch v(2) by (auto simp: conn_good_def conn_shape_def)
  have inv: "ep_inv km s" using good by (simp add: loop_good_def)
  let ?ch = "ch\<lparr>events := kReadEvent\<rparr>" let ?s1 = "s\<lparr>heap := (heap s)(c_chan v \<mapsto> ?ch)\<rparr>"
  have inv1: "ep_inv km ?s1" using ep_inv_channel_update [OF inv ch, of ?ch] by simp
  have ok: "0 \<le> fst (ctl EPOLL_CTL_ADD (ch_fd ?ch) (events ?ch, c_chan v) (ep_kernel ?s1))"
    using add fd ep_invD_kernel [OF inv c(5)] by (simp add: grants_def)
  obtain s2 where s2: "EPollPoller_UpdateChannel ctl (c_chan v) ?s1 = Inr s2" "ep_inv km s2" "heap s2 = (heap ?s1)(c_chan v \<mapsto> ?ch\<lparr>ch_index := kAdded\<rparr>)"
    "ep_channels s2 = (ep_channels s)(ch_fd ch \<mapsto> c_chan v)" "ep_reg s2 (c_chan v)"
    using ep_register [OF spec inv1, of "c_chan v" ?ch] c ok by auto
  have more: "epoll_poller.more s2 = epoll_poller.more s" using ep_update_more [OF s2(1)] by simp
  have upd: "enableReading (loop_upd ctl self W) (c_chan v) s = Inr s2"
    using ch c(1,4) W s2(1) loop_upd_eq [of ?s1 "c_chan v" ?ch] by (simp add: enableReading_def cassert_def)
  let ?w = "(attach s2 v)\<lparr>state := kConnected\<rparr>"
  have frame: "lp_frame ctl km (c_chan v) s (c_io ?w)" using spec s2 ch more by (auto simp: lp_frame_def)
  have "conn_good lid (save this ?w) this ((attach () ?w)\<lparr>c_queue := []\<rparr>)"
    using cg c s2 tied by (auto simp: conn_good_def conn_shape_def bound_def ep_reg_def)
  then have "hold km lid this ?w" unfolding hold_def by (rule loop_good_save [OF good v(1) frame, rotated]) simp
  moreover have "phase (save this ?w) this = Some PEstablished" by (simp add: phase_def conn_phase_def)
  then have "lp_moves this (Some PEstablished) s (save this ?w)" using moves_save [OF good v(1) frame] c(8) by simp
  moreover have "lp_conns s2 = lp_conns s" using more by (cases s; cases s2) simp
  ultimately show ?thesis using upd by blast
qed

lemma phase_heap:
  assumes "heap s c = Some ch" and "ch_fd ch' = ch_fd ch"
  shows "phase (s\<lparr>heap := (heap s)(c \<mapsto> ch')\<rparr>) = phase s"
proof -
  have "registered (s\<lparr>heap := (heap s)(c \<mapsto> ch')\<rparr>) d = registered s d" for d using assms by (auto simp: registered_def)
  then show ?thesis by (auto simp: phase_def conn_phase_def fun_eq_iff cong: option.map_cong conn_state.case_cong)
qed

lemma establish_good:
  assumes good: "loop_good km lid s" and spec: "epoll_ctl_spec ctl km" and W: "w_this W = lid" and add: "grants ctl km"
    and ph: "phase s this = Some PConnecting" and rm: "room (acts_bytes (e_connection env)) s"
  shows "\<exists>s'. call_functor (loop_upd ctl self W) (loop_rmv ctl self W) env (FEstablish this) s = Inr s' \<and> loop_good km lid s'
    \<and> lp_moves this (Some PEstablished) s s'"
proof -
  obtain v where v: "lp_conns s this = Some v" "state v = kConnecting" using ph by (auto simp: phase_def conn_phase_iff)
  have "conn_good lid s this v" using good v(1) by (simp add: loop_good_def)
  then obtain ch where ch: "heap s (c_chan v) = Some ch" by (auto simp: conn_good_def)
  let ?ch = "ch\<lparr>tie := Some this, tied := True\<rparr>" let ?s1 = "s\<lparr>heap := (heap s)(c_chan v \<mapsto> ?ch)\<rparr>"
  have mine: "\<not> established u" if "lp_conns s t = Some u" "c_chan u = c_chan v" for t u
  proof -
    have "u = v" using good v(1) that unfolding loop_good_def apart_def by (metis option.inject)
    then show ?thesis using v(2) by (simp add: established_def)
  qed
  have "bound this ch" using \<open>conn_good lid s this v\<close> ch by (simp add: conn_good_def)
  then have "same_for s (c_chan v) ch ?ch"
    using mine by (auto simp: same_for_def bound_def plain_def)
  then have good1: "loop_good km lid ?s1" by (rule loop_good_chan [OF good ch])
  have pre: "lp_conns ?s1 this = Some v" "heap ?s1 (c_chan v) = Some ?ch" "tied ?ch" "tie ?ch = Some this" using v(1) by simp_all
  obtain s2 where s2: "enableReading (loop_upd ctl self W) (c_chan v) ?s1 = Inr s2" "hold km lid this ((attach s2 v)\<lparr>state := kConnected\<rparr>)"
    "lp_moves this (Some PEstablished) ?s1 (save this ((attach s2 v)\<lparr>state := kConnected\<rparr>))" "lp_conns s2 = lp_conns ?s1"
    using register_hold [OF good1 spec W pre(1) v(2) add pre(2-4)] by blast
  let ?w = "(attach s2 v)\<lparr>state := kConnected\<rparr>" and ?upd = "loop_upd ctl self W"
  have "idle s \<Longrightarrow> idle ?s1" using ch by (auto simp: idle_def)
  then have m1: "lp_moves this (Some PEstablished) s (save this ?w)"
    using s2(3) phase_heap [OF ch, of ?ch] unfolding lp_moves_def soft_posts_def by simp
  have rm1: "room (acts_bytes (e_connection env)) (save this ?w)" using rm v(1) s2(4) by (auto simp: room_def)
  obtain w where w: "bindE (user_acts ?upd (e_connection env) (save this ?w)) (load this) = Inr w" "hold km lid this w"
    "lp_keeps (acts_bytes (e_connection env)) (save this ?w) (save this w)" using load_save_user [OF s2(2) spec W rm1] by blast
  have "call_functor ?upd (loop_rmv ctl self W) env (FEstablish this) s = Inr (save this w)"
    using load_good [OF good v(1)] v s2(1) ch w(1)
    by (simp add: call_functor_def on_conn_def ConnectionEstablished_def lift_io_def Channel_tie_def cassert_def conn_call_def attach_def)
  moreover have "lp_moves this (Some PEstablished) s (save this w)"
    by (rule lp_moves_keeps [OF m1 w(3)]) (use v(1) s2(4) in auto)
  ultimately show ?thesis using w(2) by (auto simp: hold_def)
qed

end
