(* ===== verification/Loop_System.thy ===== *)
theory Loop_System
  imports Loop_Dispatch
begin

text \<open>
  The event loop of \<^verbatim>\<open>Event_Loop\<close> among the threads that use it, as a transition system. The loop thread polls, handles the active channels one by one, swaps the
  pending functors and calls them; meanwhile the owner of the connections, in its own loop, makes new ones (\<^verbatim>\<open>Server::EstablishConnection\<close>), removes the closed ones
  (\<^verbatim>\<open>Server::RemoveConnectionInLoop\<close>) and drops its pointers, and other threads call \<^verbatim>\<open>send\<close> and \<^verbatim>\<open>shutdown\<close>. A call of another thread is interrupted between its
  test of \<^verbatim>\<open>state_\<close>, its write of \<^verbatim>\<open>state_\<close> and its post. One event or one functor is one step of the loop thread.
\<close>

unbundle bit_operations_syntax

section \<open>The system\<close>

text \<open>Where the loop thread is: before \<^verbatim>\<open>poll\<close>, with channels still to handle, or with functors still to call and those called. The vector of
  \<^verbatim>\<open>doPendingFunctors\<close> keeps them all until its end.\<close>

datatype loop_pos = LPoll | LEvents "nat list" | LRun "loop_functor list" "loop_functor list"

text \<open>
  Where another thread is in a call on a connection, after it has seen \<^verbatim>\<open>state_ == kConnected\<close>: in \<^verbatim>\<open>shutdown\<close> before \<^verbatim>\<open>setState(kDisconnecting)\<close>, or before the post of its
  functor, which has the raw \<^verbatim>\<open>this\<close> in it. The caller has a pointer to the connection as long as the call lasts.
\<close>

datatype call_stage = AtSetState | AtPost conn_functor

text \<open>\<open>ls_calls\<close> has the calls under way (thread, connection, stage). \<open>ls_raced\<close> is history: a \<^verbatim>\<open>shutdown\<close> has written \<^verbatim>\<open>kDisconnecting\<close> over the
  \<^verbatim>\<open>kDisconnected\<close> of a connection that was closed after its test (\<^verbatim>\<open>tcp_connection.h\<close> calls \<^verbatim>\<open>shutdown\<close> not thread safe).\<close>

record 'k loop_sys =
  ls_w :: "'k loop_worker"
  ls_pos :: loop_pos
  ls_calls :: "(nat \<times> nat \<times> call_stage) list"
  ls_raced :: bool

definition has_room :: "loop_env \<Rightarrow> 'k loop_io \<Rightarrow> bool" where
  "has_room env s \<longleftrightarrow> room (4 * env_bytes env) s \<and> room_in s"

text \<open>The functors that hold a pointer to the connection: all but the ones made of the raw \<^verbatim>\<open>this\<close>.\<close>

fun holds :: "loop_functor \<Rightarrow> nat \<Rightarrow> bool" where
  "holds (FEstablish t) this = (t = this)"
| "holds (FDestroy t) this = (t = this)"
| "holds (FConn t g) this = (t = this \<and> soft g)"

fun taken :: "loop_pos \<Rightarrow> loop_functor list" where
  "taken (LRun todo called) = called @ todo"
| "taken _ = []"

definition held :: "'k loop_sys \<Rightarrow> nat \<Rightarrow> bool" where
  "held S this \<longleftrightarrow> (\<exists>f \<in> set (taken (ls_pos S) @ pendingFunctors (ls_w S)). holds f this) \<or> (\<exists>p st. (p, this, st) \<in> set (ls_calls S))"

fun target :: "loop_functor \<Rightarrow> nat" where
  "target (FEstablish t) = t"
| "target (FDestroy t) = t"
| "target (FConn t g) = t"

text \<open>A new connection: the owner constructs it with a fresh channel and descriptor, and posts \<^verbatim>\<open>ConnectionEstablished\<close>. A \<open>this\<close> stands for an object and not for its address: the use of a
  connection that is gone is a failure also when another one lies where it was.\<close>

definition new_conn :: "nat \<Rightarrow> int \<Rightarrow> nat \<Rightarrow> bool \<Rightarrow> nat \<Rightarrow> 'k loop_worker \<Rightarrow> 'k loop_worker res" where
  "new_conn this fd c wc p W =
     bindE (TcpConnection_new (w_this W) fd c (CbRead this) (CbWrite this) (CbClose this) (CbError this) (w_io W)) (\<lambda>w.
       Inr (queueInLoop p (FEstablish this) (W\<lparr>w_io := save this (if wc then conn_SetWriteCompleteCb w else w)\<rparr>)))"

definition remove_conn :: "nat \<Rightarrow> nat \<Rightarrow> 'k loop_worker \<Rightarrow> 'k loop_worker" where
  "remove_conn this p W = queueInLoop p (FDestroy this) (W\<lparr>w_io := (w_io W)\<lparr>lp_closed := lp_closed (w_io W) - {this}\<rparr>\<rparr>)"

definition drop_conn :: "nat \<Rightarrow> 'k loop_worker \<Rightarrow> 'k loop_worker res" where
  "drop_conn this W =
     bindE (load this (w_io W)) (\<lambda>w. bindE (TcpConnection_dtor w) (\<lambda>w1. Inr (W\<lparr>w_io := (c_io w1)\<lparr>lp_conns := (lp_conns (c_io w1))(this := None)\<rparr>\<rparr>)))"

text \<open>The parts of \<^verbatim>\<open>send\<close> and \<^verbatim>\<open>shutdown\<close> in another thread: the test, \<^verbatim>\<open>setState(kDisconnecting)\<close>, and \<^verbatim>\<open>runInLoop\<close>, which queues.\<close>

definition call_test :: "nat \<Rightarrow> nat \<Rightarrow> call_stage \<Rightarrow> 'k loop_sys \<Rightarrow> 'k loop_sys res" where
  "call_test p this next S =
     bindE (load this (w_io (ls_w S))) (\<lambda>w. Inr (if state w = kConnected then S\<lparr>ls_calls := ls_calls S @ [(p, this, next)]\<rparr> else S))"

definition call_setState :: "nat \<Rightarrow> nat \<Rightarrow> 'k loop_sys \<Rightarrow> 'k loop_sys res" where
  "call_setState p this S =
     bindE (load this (w_io (ls_w S))) (\<lambda>w.
       Inr (S\<lparr>ls_w := (ls_w S)\<lparr>w_io := save this (w\<lparr>state := kDisconnecting\<rparr>)\<rparr>,
              ls_calls := remove1 (p, this, AtSetState) (ls_calls S) @ [(p, this, AtPost ShutdownInLoop)],
              ls_raced := ls_raced S \<or> state w = kDisconnected\<rparr>))"

definition call_post :: "nat \<Rightarrow> nat \<Rightarrow> conn_functor \<Rightarrow> 'k loop_sys \<Rightarrow> 'k loop_sys" where
  "call_post p this g S = S\<lparr>ls_w := queueInLoop p (FConn this g) (ls_w S), ls_calls := remove1 (p, this, AtPost g) (ls_calls S)\<rparr>"

inductive lstep :: "'k epoll_ctl \<Rightarrow> ('k \<Rightarrow> int \<rightharpoonup> epoll_event) \<Rightarrow> 'k loop_sys \<Rightarrow> 'k loop_sys \<Rightarrow> bool" for ctl km where
  poll: "ls_pos S = LPoll \<Longrightarrow> epoll_wait_spec wait km \<Longrightarrow> ep_events_size (w_io (ls_w S)) < 2 ^ 31 \<Longrightarrow>
    EPollPoller_poll wait kPollTimeMs now (w_io (ls_w S)) = Inr (t, active, io) \<Longrightarrow>
    lstep ctl km S (S\<lparr>ls_w := (ls_w S)\<lparr>w_io := io, activeChannels := active, pollReturnTime := t, eventHandling := True\<rparr>, ls_pos := LEvents active\<rparr>)"
| event: "ls_pos S = LEvents (c # cs) \<Longrightarrow> has_room env (w_io (ls_w S)) \<Longrightarrow>
    handle_active (lp_handle ctl (w_threadId (ls_w S)) env) c (ls_w S) = Inr W \<Longrightarrow> lstep ctl km S (S\<lparr>ls_w := W, ls_pos := LEvents cs\<rparr>)"
| swap: "ls_pos S = LEvents [] \<Longrightarrow>
    swap_functors ((ls_w S)\<lparr>currentActiveChannel := None, eventHandling := False, callingPendingFunctors := True\<rparr>) = (fs, W) \<Longrightarrow>
    lstep ctl km S (S\<lparr>ls_w := W, ls_pos := LRun fs []\<rparr>)"
| call: "ls_pos S = LRun (f # todo) called \<Longrightarrow> room (functor_bytes env f) (w_io (ls_w S)) \<Longrightarrow>
    lp_functor ctl (w_threadId (ls_w S)) env f (ls_w S) = Inr W \<Longrightarrow> lstep ctl km S (S\<lparr>ls_w := W, ls_pos := LRun todo (called @ [f])\<rparr>)"
| run_done: "ls_pos S = LRun [] called \<Longrightarrow> lstep ctl km S (S\<lparr>ls_w := (ls_w S)\<lparr>callingPendingFunctors := False\<rparr>, ls_pos := LPoll\<rparr>)"
| accept: "p \<noteq> w_threadId (ls_w S) \<Longrightarrow> 0 \<le> fd \<Longrightarrow> lp_conns (w_io (ls_w S)) this = None \<Longrightarrow> heap (w_io (ls_w S)) c = None \<Longrightarrow>
    (\<forall>d ch. heap (w_io (ls_w S)) d = Some ch \<longrightarrow> ch_fd ch \<noteq> fd) \<Longrightarrow> (\<forall>f \<in> set (taken (ls_pos S) @ pendingFunctors (ls_w S)). target f \<noteq> this) \<Longrightarrow>
    new_conn this fd c wc p (ls_w S) = Inr W \<Longrightarrow> lstep ctl km S (S\<lparr>ls_w := W\<rparr>)"
| remove: "this \<in> lp_closed (w_io (ls_w S)) \<Longrightarrow> lstep ctl km S (S\<lparr>ls_w := remove_conn this p (ls_w S)\<rparr>)"
| release: "phase (w_io (ls_w S)) this = Some PRemoved \<Longrightarrow> \<not> held S this \<Longrightarrow> drop_conn this (ls_w S) = Inr W \<Longrightarrow> lstep ctl km S (S\<lparr>ls_w := W\<rparr>)"
| send_test: "p \<noteq> w_threadId (ls_w S) \<Longrightarrow> call_test p this (AtPost (SendInLoop data)) S = Inr S' \<Longrightarrow> lstep ctl km S S'"
| shutdown_test: "p \<noteq> w_threadId (ls_w S) \<Longrightarrow> call_test p this AtSetState S = Inr S' \<Longrightarrow> lstep ctl km S S'"
| shutdown_set: "(p, this, AtSetState) \<in> set (ls_calls S) \<Longrightarrow> call_setState p this S = Inr S' \<Longrightarrow> lstep ctl km S S'"
| post: "(p, this, AtPost g) \<in> set (ls_calls S) \<Longrightarrow> lstep ctl km S (call_post p this g S)"

text \<open>The loop begins with no connection.\<close>

definition loop_start :: "('k \<Rightarrow> int \<rightharpoonup> epoll_event) \<Rightarrow> 'k loop_worker \<Rightarrow> bool" where
  "loop_start km W \<longleftrightarrow> ep_inv km (w_io W) \<and> lp_conns (w_io W) = Map.empty \<and> lp_closed (w_io W) = {} \<and> lp_posts (w_io W) = [] \<and> pendingFunctors W = []
     \<and> (\<forall>d ch. heap (w_io W) d = Some ch \<longrightarrow> plain ch \<and> \<not> ch_eventHandling ch)"

inductive lreach :: "'k epoll_ctl \<Rightarrow> ('k \<Rightarrow> int \<rightharpoonup> epoll_event) \<Rightarrow> 'k loop_worker \<Rightarrow> 'k loop_sys \<Rightarrow> bool" for ctl km W where
  start: "lreach ctl km W \<lparr>ls_w = W, ls_pos = LPoll, ls_calls = [], ls_raced = False\<rparr>"
| step: "lreach ctl km W S \<Longrightarrow> lstep ctl km S S' \<Longrightarrow> lreach ctl km W S'"

inductive_cases lstepE: "lstep ctl km S S'"

section \<open>The functors of one connection\<close>

definition sub :: "nat \<Rightarrow> loop_functor list \<Rightarrow> loop_functor list" where
  "sub this q = filter (\<lambda>f. target f = this) q"

definition raws :: "nat \<Rightarrow> loop_functor list \<Rightarrow> bool" where
  "raws this q \<longleftrightarrow> (\<forall>f \<in> set q. \<exists>g. f = FConn this g)"

definition softs :: "nat \<Rightarrow> loop_functor list \<Rightarrow> bool" where
  "softs this q \<longleftrightarrow> (\<forall>f \<in> set q. \<exists>g. f = FConn this g \<and> soft g)"

definition lates :: "nat \<Rightarrow> loop_functor list \<Rightarrow> bool" where
  "lates this q \<longleftrightarrow> (\<forall>f \<in> set q. \<exists>g. f = FConn this g \<and> \<not> soft g)"

text \<open>\<^verbatim>\<open>ConnectionDestroyed\<close> once; behind it what connections queue, and what other threads have posted late.\<close>

fun dying :: "nat \<Rightarrow> loop_functor list \<Rightarrow> bool" where
  "dying this [] = False"
| "dying this (f # q) = (if f = FDestroy this then raws this q else (\<exists>g. f = FConn this g) \<and> dying this q)"

text \<open>Which of them may still be queued, in each phase; \<open>cl\<close> says that the owner has been told of the close and has not yet posted \<^verbatim>\<open>ConnectionDestroyed\<close>.\<close>

definition allowed :: "nat \<Rightarrow> phase option \<Rightarrow> bool \<Rightarrow> loop_functor list \<Rightarrow> bool" where
  "allowed this p cl q \<longleftrightarrow>
     (case p of
        None \<Rightarrow> \<not> cl \<and> lates this q
      | Some PConnecting \<Rightarrow> \<not> cl \<and> (\<exists>ys. q = FEstablish this # ys \<and> softs this ys)
      | Some PEstablished \<Rightarrow> \<not> cl \<and> raws this q
      | Some PClosed \<Rightarrow> if cl then raws this q else dying this q
      | Some PRemoved \<Rightarrow> \<not> cl \<and> raws this q)"

definition queue_ok :: "'k loop_io \<Rightarrow> loop_functor list \<Rightarrow> bool" where
  "queue_ok s q \<longleftrightarrow> (\<forall>this. allowed this (phase s this) (this \<in> lp_closed s) (sub this q))"

lemma sub_simps [simp]: "sub this [] = []" "sub this (f # q) = (if target f = this then f # sub this q else sub this q)" "sub this (q @ r) = sub this q @ sub this r"
  by (simp_all add: sub_def)

lemma raws_simps [simp]: "raws this []" "raws this (f # q) \<longleftrightarrow> (\<exists>g. f = FConn this g) \<and> raws this q" "raws this (q @ r) \<longleftrightarrow> raws this q \<and> raws this r"
  by (auto simp: raws_def)

lemma softs_simps [simp]: "softs this []" "softs this (f # q) \<longleftrightarrow> (\<exists>g. f = FConn this g \<and> soft g) \<and> softs this q"
  "softs this (q @ r) \<longleftrightarrow> softs this q \<and> softs this r"
  by (auto simp: softs_def)

lemma softs_raws: "softs this q \<Longrightarrow> raws this q"
  by (auto simp: softs_def raws_def)

lemma lates_simps [simp]: "lates this []" "lates this (f # q) \<longleftrightarrow> (\<exists>g. f = FConn this g \<and> \<not> soft g) \<and> lates this q"
  by (auto simp: lates_def)

lemma dying_raw: "dying this q \<Longrightarrow> raws this ys \<Longrightarrow> dying this (q @ ys)"
  by (induction q) auto

lemma dying_post: "raws this q \<Longrightarrow> dying this (q @ [FDestroy this])"
  by (induction q) auto

lemma allowed_soft:
  assumes "allowed this p cl q" and "softs this ys" and "p = None \<Longrightarrow> ys = []"
  shows "allowed this p cl (q @ ys)"
  using assms softs_raws [OF assms(2)] dying_raw [of this q ys] by (auto simp: allowed_def split: option.splits phase.splits)

text \<open>Notifications may be queued for every connection that exists.\<close>

lemma queue_soft:
  assumes q: "queue_ok s q" and p: "\<forall>f \<in> set fs. \<exists>t g. f = FConn t g \<and> soft g \<and> lp_conns s t \<noteq> None"
  shows "queue_ok s (q @ fs)"
  unfolding queue_ok_def
proof
  fix this
  have "softs this (sub this fs)" using p by (auto simp: softs_def sub_def)
  moreover have "sub this fs = []" if "phase s this = None" using p that by (auto simp: sub_def phase_def filter_empty_conv)
  ultimately show "allowed this (phase s this) (this \<in> lp_closed s) (sub this (q @ fs))"
    using q allowed_soft by (simp add: queue_ok_def)
qed

lemma queue_ok_cong: "phase s' = phase s \<Longrightarrow> lp_closed s' = lp_closed s \<Longrightarrow> queue_ok s' q = queue_ok s q"
  by (simp add: queue_ok_def)

text \<open>The life of a connection, from its construction to its end.\<close>

fun advance :: "phase option \<Rightarrow> phase option \<Rightarrow> bool" where
  "advance None p = (p = None \<or> p = Some PConnecting)"
| "advance (Some PConnecting) p = (p = Some PConnecting \<or> p = Some PEstablished)"
| "advance (Some PEstablished) p = (p = Some PEstablished \<or> p = Some PClosed)"
| "advance (Some PClosed) p = (p = Some PClosed \<or> p = Some PRemoved)"
| "advance (Some PRemoved) p = (p = Some PRemoved \<or> p = None)"

definition progress :: "'k loop_io \<Rightarrow> 'k loop_io \<Rightarrow> bool" where
  "progress s s' \<longleftrightarrow> (\<forall>this. advance (phase s this) (phase s' this) \<and> (phase s this \<noteq> None \<longrightarrow> phase s' this \<noteq> None))"

lemma advance_refl [simp]: "advance p p"
  by (cases "(p, p)" rule: advance.cases) simp_all

lemma progress_same: "phase s' = phase s \<Longrightarrow> progress s s'"
  by (simp add: progress_def)

lemma progress_event:
  assumes "lp_event n this s s'" and "loop_good km lid s"
  shows "progress s s'"
  unfolding progress_def
proof
  fix t
  show "advance (phase s t) (phase s' t) \<and> (phase s t \<noteq> None \<longrightarrow> phase s' t \<noteq> None)"
    using phase_event(1) [OF assms(1), of t] phase_event(2) [OF assms] by (cases "t = this") (auto simp del: split_paired_All)
qed

section \<open>Events and functors keep the order\<close>

lemma queue_event:
  assumes q: "queue_ok s q" and good: "loop_good km lid s" and ev: "lp_event n this s s'" and none: "lp_posts s = []"
  shows "queue_ok s' (q @ lp_posts s')"
proof (rule queue_soft)
  show "queue_ok s' q" unfolding queue_ok_def
  proof
    fix t
    have a: "allowed t (phase s t) (t \<in> lp_closed s) (sub t q)" using q by (simp add: queue_ok_def)
    from phase_event(2) [OF ev good] show "allowed t (phase s' t) (t \<in> lp_closed s') (sub t q)"
    proof (elim disjE conjE)
      assume "phase s' this = phase s this" "lp_closed s' = lp_closed s"
      then show ?thesis using a phase_event(1) [OF ev, of t] by (cases "t = this") simp_all
    next
      assume "phase s this = Some PEstablished" "phase s' this = Some PClosed" "lp_closed s' = insert this (lp_closed s)"
      then show ?thesis using a phase_event(1) [OF ev, of t] by (cases "t = this") (simp_all add: allowed_def)
    qed
  qed
  show "\<forall>f \<in> set (lp_posts s'). \<exists>t g. f = FConn t g \<and> soft g \<and> lp_conns s' t \<noteq> None"
    using ev none lp_event_dom [OF ev] by (auto simp: lp_event_def)
qed

lemma queue_keeps:
  assumes q: "queue_ok s q" and k: "lp_keeps n s s'" and none: "lp_posts s = []"
  shows "queue_ok s' (q @ lp_posts s')"
proof (rule queue_soft)
  have "phase s' = phase s" "lp_closed s' = lp_closed s" using phase_keeps [OF k] k by (auto simp: lp_keeps_def)
  then show "queue_ok s' q" using q queue_ok_cong by blast
  have "conns_keep n (lp_conns s) (lp_conns s')" using k by (simp add: lp_keeps_def)
  note dom = conns_keep_dom [OF this]
  show "\<forall>f \<in> set (lp_posts s'). \<exists>t g. f = FConn t g \<and> soft g \<and> lp_conns s' t \<noteq> None"
    using k none unfolding lp_keeps_def dom by simp
qed

text \<open>The functor at the head of the queue finds its connection in the phase that it needs.\<close>

lemma allowed_head:
  assumes "allowed this p cl (f # q)"
  shows "f = FEstablish this \<Longrightarrow> p = Some PConnecting \<and> allowed this (Some PEstablished) cl q"
    and "f = FDestroy this \<Longrightarrow> p = Some PClosed \<and> allowed this (Some PRemoved) cl q"
    and "f = FConn this g \<Longrightarrow> (p = None \<longrightarrow> \<not> soft g) \<and> (soft g \<or> p \<noteq> Some PConnecting) \<and> allowed this p cl q"
proof -
  note a = assms [unfolded allowed_def]
  show "p = Some PConnecting \<and> allowed this (Some PEstablished) cl q" if "f = FEstablish this"
    using a that softs_raws by (auto simp: allowed_def split: option.splits phase.splits if_splits)
  show "p = Some PClosed \<and> allowed this (Some PRemoved) cl q" if "f = FDestroy this"
    using a that by (auto simp: allowed_def split: option.splits phase.splits if_splits)
  show "(p = None \<longrightarrow> \<not> soft g) \<and> (soft g \<or> p \<noteq> Some PConnecting) \<and> allowed this p cl q" if "f = FConn this g"
    using a that by (auto simp: allowed_def split: option.splits phase.splits if_splits)
qed

lemma queue_moves:
  assumes q: "queue_ok s (f # q)" and m: "lp_moves (target f) p s s'" and none: "lp_posts s = []" and some: "p \<noteq> None" "phase s (target f) \<noteq> None"
    and a: "allowed (target f) p (target f \<in> lp_closed s) (sub (target f) q)"
  shows "queue_ok s' (q @ lp_posts s')"
proof (rule queue_soft)
  have ph: "phase s' = (phase s)(target f := p)" "lp_closed s' = lp_closed s" using m by (simp_all add: lp_moves_def)
  show "queue_ok s' q" unfolding queue_ok_def
  proof
    fix t
    have "allowed t (phase s t) (t \<in> lp_closed s) (sub t (f # q))" using q by (simp add: queue_ok_def)
    then show "allowed t (phase s' t) (t \<in> lp_closed s') (sub t q)" using a ph by (cases "t = target f") auto
  qed
  have "phase s' t = None \<longleftrightarrow> phase s t = None" for t using ph some by auto
  then have "lp_conns s' t = None \<longleftrightarrow> lp_conns s t = None" for t by (simp add: phase_def)
  then show "\<forall>g \<in> set (lp_posts s'). \<exists>t h. g = FConn t h \<and> soft h \<and> lp_conns s' t \<noteq> None"
    using m none by (auto simp: lp_moves_def soft_posts_def)
qed

lemma functor_good:
  assumes good: "loop_good km lid s" and spec: "epoll_ctl_spec ctl km" and W: "w_this W = lid" "\<not> eventHandling W" and add: "grants ctl km"
    and q: "queue_ok s (f # q)" and none: "lp_posts s = []" and rm: "room (functor_bytes env f) s" and there: "lp_conns s (target f) \<noteq> None"
  shows "\<exists>s'. call_functor (loop_upd ctl self W) (loop_rmv ctl self W) env f s = Inr s' \<and> loop_good km lid s' \<and> (idle s \<longrightarrow> idle s')
    \<and> queue_ok s' (q @ lp_posts s') \<and> progress s s'"
proof -
  have a: "allowed (target f) (phase s (target f)) (target f \<in> lp_closed s) (f # sub (target f) q)" 
    using q [unfolded queue_ok_def, rule_format, of "target f"] by simp
  show ?thesis
  proof (cases f)
    case (FEstablish this)
    note h = allowed_head(1) [OF a, unfolded FEstablish, simplified]
    obtain s' where "call_functor (loop_upd ctl self W) (loop_rmv ctl self W) env f s = Inr s'" "loop_good km lid s'" "lp_moves this (Some PEstablished) s s'"
      using establish_good [OF good spec W(1) add, of this env self] h rm FEstablish by auto
    then show ?thesis using queue_moves [OF q _ none, of "Some PEstablished" s'] h FEstablish by (auto simp: lp_moves_def progress_def)
  next
    case (FDestroy this)
    note h = allowed_head(2) [OF a, unfolded FDestroy, simplified]
    obtain s' where "call_functor (loop_upd ctl self W) (loop_rmv ctl self W) env f s = Inr s'" "loop_good km lid s'" "lp_moves this (Some PRemoved) s s'"
      using destroy_good [OF good spec W, of this self env] h FDestroy by auto
    then show ?thesis using queue_moves [OF q _ none, of "Some PRemoved" s'] h FDestroy by (auto simp: lp_moves_def progress_def)
  next
    case (FConn this g)
    note h = allowed_head(3) [OF a, unfolded FConn, simplified]
    obtain v where v: "lp_conns s this = Some v" "soft g \<or> state v \<noteq> kConnecting" using h there FConn by (auto simp: phase_def conn_phase_iff)
    then have some: "phase s (target f) \<noteq> None" using FConn by (simp add: phase_def)
    obtain s' where s': "call_functor (loop_upd ctl self W) (loop_rmv ctl self W) env f s = Inr s'" "loop_good km lid s'" "lp_keeps (functor_bytes env f) s s'"
      using conn_functor_good [OF good spec W(1) v, of env self] rm FConn by auto
    then have "lp_moves (target f) (phase s (target f)) s s'" by (intro lp_keeps_moves)
    then show ?thesis using queue_moves [OF q _ none, of "phase s (target f)" s'] h some FConn s' by (auto simp: lp_moves_def progress_def)
  qed
qed

text \<open>A functor whose connection is gone is one made of the raw \<^verbatim>\<open>this\<close>, posted late; it uses memory that is not the connection's any more.\<close>

lemma stale_functor:
  assumes q: "queue_ok s (f # q)" and gone: "lp_conns s (target f) = None"
  shows "\<exists>this g. f = FConn this g \<and> \<not> soft g \<and> call_functor upd rmv env f s = Inl NullDeref"
proof -
  have "allowed (target f) None (target f \<in> lp_closed s) (f # sub (target f) q)"
    using q [unfolded queue_ok_def, rule_format, of "target f"] gone by (simp add: phase_def)
  then obtain g where g: "f = FConn (target f) g" "\<not> soft g" by (auto simp: allowed_def)
  then have "call_functor upd rmv env f s = Inl NullDeref"
    using gone by (cases g; cases f) (auto simp: call_functor_def on_conn_def load_def)
  then show ?thesis using g by blast
qed

section \<open>Invariant\<close>

text \<open>What the remaining channels of the active list are: channels of established connections and channels that are not of a connection.\<close>

definition act_ok :: "'k loop_io \<Rightarrow> nat \<Rightarrow> bool" where
  "act_ok s c \<longleftrightarrow> (\<exists>ch. heap s c = Some ch
     \<and> (plain ch \<or> (\<exists>this v. lp_conns s this = Some v \<and> c_chan v = c \<and> established v)))"

definition io_ok :: "('k \<Rightarrow> int \<rightharpoonup> epoll_event) \<Rightarrow> nat \<Rightarrow> 'k loop_io \<Rightarrow> loop_functor list \<Rightarrow> bool" where
  "io_ok km lid s q \<longleftrightarrow> loop_good km lid s \<and> idle s \<and> lp_posts s = [] \<and> queue_ok s q"

fun still :: "loop_pos \<Rightarrow> loop_functor list" where
  "still (LRun todo called) = todo"
| "still _ = []"

fun pos_ok :: "'k loop_worker \<Rightarrow> loop_pos \<Rightarrow> bool" where
  "pos_ok W LPoll = True"
| "pos_ok W (LEvents cs) = (distinct cs \<and> (\<forall>c \<in> set cs. act_ok (w_io W) c))"
| "pos_ok W (LRun todo called) = (\<not> eventHandling W)"

text \<open>A connection on which a call is under way has been established, and exists.\<close>

definition opened :: "'k loop_io \<Rightarrow> nat \<Rightarrow> bool" where
  "opened s this \<longleftrightarrow> phase s this \<in> {Some PEstablished, Some PClosed, Some PRemoved}"

definition calls_ok :: "'k loop_sys \<Rightarrow> bool" where
  "calls_ok S \<longleftrightarrow> (\<forall>x \<in> set (ls_calls S). opened (w_io (ls_w S)) (fst (snd x)))"

definition linv :: "('k \<Rightarrow> int \<rightharpoonup> epoll_event) \<Rightarrow> 'k loop_sys \<Rightarrow> bool" where
  "linv km S \<longleftrightarrow> io_ok km (w_this (ls_w S)) (w_io (ls_w S)) (still (ls_pos S) @ pendingFunctors (ls_w S)) \<and> pos_ok (ls_w S) (ls_pos S)
     \<and> calls_ok S"

lemma opened_progress: "progress s s' \<Longrightarrow> opened s this \<Longrightarrow> opened s' this"
  unfolding progress_def opened_def by (elim allE [of _ this]) (cases "phase s this", auto)

lemma calls_progress:
  assumes "calls_ok S" and "progress (w_io (ls_w S)) (w_io (ls_w S'))" and "ls_calls S' = ls_calls S"
  shows "calls_ok S'"
  using assms opened_progress [OF assms(2)] by (auto simp: calls_ok_def)

lemma queueInLoop_eq: "\<exists>n. queueInLoop p f W = W\<lparr>pendingFunctors := pendingFunctors W @ [f], eventfd := n\<rparr>"
proof -
  let ?W = "push_functor f W"
  have "queueInLoop p f W = W\<lparr>pendingFunctors := pendingFunctors W @ [f], eventfd := (if must_wakeup p ?W \<and> eventfd W < 2 ^ 64 - 2 then eventfd W + 1 else eventfd W)\<rparr>"
    by (cases W) (auto simp: queueInLoop_def Worker_wakeup_def push_functor_def Let_def)
  then show ?thesis by blast
qed

lemma foldl_queue: "\<exists>n. foldl (\<lambda>W f. queueInLoop p f W) W fs = W\<lparr>pendingFunctors := pendingFunctors W @ fs, eventfd := n\<rparr>"
proof (induction fs arbitrary: W)
  case Nil
  have "W = W\<lparr>pendingFunctors := pendingFunctors W @ [], eventfd := eventfd W\<rparr>" by simp
  then show ?case by (metis foldl_Nil)
next
  case (Cons f fs)
  obtain n where "queueInLoop p f W = W\<lparr>pendingFunctors := pendingFunctors W @ [f], eventfd := n\<rparr>" using queueInLoop_eq [of p f W] by blast
  then show ?case using Cons.IH [of "queueInLoop p f W"] by simp
qed

lemma post_all_eq: "\<exists>n. post_all p W = W\<lparr>w_io := (w_io W)\<lparr>lp_posts := []\<rparr>, pendingFunctors := pendingFunctors W @ lp_posts (w_io W), eventfd := n\<rparr>"
  using foldl_queue [of p "W\<lparr>w_io := (w_io W)\<lparr>lp_posts := []\<rparr>\<rparr>" "lp_posts (w_io W)"] by (simp add: post_all_def)

lemma loop_good_more:
  assumes "heap s' = heap s" and "ep_channels s' = ep_channels s" and "km (ep_kernel s') = km (ep_kernel s)" and "lp_conns s' = lp_conns s"
  shows "loop_good km lid s' = loop_good km lid s" "idle s' = idle s" "phase s' = phase s" "act_ok s' = act_ok s"
proof -
  have r: "registered s' = registered s" "ep_reg s' = ep_reg s" using assms by (simp_all add: registered_def ep_reg_def fun_eq_iff)
  have "conn_shape s' = conn_shape s" using assms r by (simp add: conn_shape_def fun_eq_iff split: conn_state.splits)
  then have "conn_good lid s' = conn_good lid s" using assms by (simp add: conn_good_def fun_eq_iff)
  moreover have "ep_inv km s' = ep_inv km s" using assms by (simp add: ep_inv_def ep_chan_ok_def)
  ultimately show "loop_good km lid s' = loop_good km lid s" using assms by (simp add: loop_good_def apart_def others_ok_def)
  have "conn_phase s' = conn_phase s" using r by (simp add: conn_phase_def fun_eq_iff split: conn_state.splits)
  then show "phase s' = phase s" using assms(4) unfolding phase_def by simp
  show "idle s' = idle s" "act_ok s' = act_ok s" using assms by (simp_all add: idle_def act_ok_def fun_eq_iff)
qed

lemma phase_posts: "phase (s\<lparr>lp_posts := fs\<rparr>) = phase s" "phase (s\<lparr>lp_closed := cl\<rparr>) = phase s"
  using loop_good_more(3) [of "s\<lparr>lp_posts := fs\<rparr>" s] loop_good_more(3) [of "s\<lparr>lp_closed := cl\<rparr>" s] by simp_all

lemma io_ok_posted:
  assumes "loop_good km lid s" and "idle s" and "queue_ok s (q @ lp_posts s)"
  shows "io_ok km lid (s\<lparr>lp_posts := []\<rparr>) (q @ lp_posts s)"
  using assms loop_good_more [of "s\<lparr>lp_posts := []\<rparr>" s] by (simp add: io_ok_def queue_ok_def)

lemma linv_start: "loop_start km W \<Longrightarrow> linv km \<lparr>ls_w = W, ls_pos = LPoll, ls_calls = [], ls_raced = False\<rparr>"
  by (auto simp: linv_def calls_ok_def io_ok_def loop_start_def loop_good_def apart_def others_ok_def idle_def queue_ok_def phase_def allowed_def)

section \<open>Steps of the loop thread\<close>

lemma act_core:
  assumes "act_ok s c" and "map_option core (heap s' c) = map_option core (heap s c)"
    and "\<And>this v. lp_conns s this = Some v \<Longrightarrow> c_chan v = c \<Longrightarrow> established v \<Longrightarrow> \<exists>v'. lp_conns s' this = Some v' \<and> c_chan v' = c \<and> established v'"
  shows "act_ok s' c"
proof -
  obtain ch where ch: "heap s c = Some ch" "plain ch \<or> (\<exists>this v. lp_conns s this = Some v \<and> c_chan v = c \<and> established v)"
    using assms(1) by (auto simp: act_ok_def)
  obtain ch' where ch': "heap s' c = Some ch'" "core ch' = core ch" using ch(1) assms(2) by auto
  have "plain ch' = plain ch" using core_bound [OF ch'(2)] by auto
  then show ?thesis using ch ch'(1) assms(3) unfolding act_ok_def by metis
qed

lemma act_keeps:
  assumes "lp_keeps n s s'" and "act_ok s c"
  shows "act_ok s' c"
proof (rule act_core [OF assms(2)])
  show "map_option core (heap s' c) = map_option core (heap s c)" using assms(1) by (simp add: lp_keeps_def)
  fix this v assume v: "lp_conns s this = Some v" "c_chan v = c" "established v"
  have k: "conns_keep n (lp_conns s) (lp_conns s')" using assms(1) by (simp add: lp_keeps_def)
  show "\<exists>v'. lp_conns s' this = Some v' \<and> c_chan v' = c \<and> established v'"
    using conns_keepD [OF k v(1)] v(2,3) keeps_established by (auto simp: conn_keeps_def)
qed

lemma act_event:
  assumes ev: "lp_event n this s s'" and a: "act_ok s c" and c: "lp_conns s this = Some v" "c \<noteq> c_chan v"
  shows "act_ok s' c"
proof (rule act_core [OF a])
  show "map_option core (heap s' c) = map_option core (heap s c)" using ev by (simp add: lp_event_def)
  fix t u assume u: "lp_conns s t = Some u" "c_chan u = c" "established u"
  then have "t \<noteq> this" using c by auto
  then have "rel_option (conn_keeps n) (lp_conns s t) (lp_conns s' t)" using ev by (simp add: lp_event_def)
  then obtain u' where "lp_conns s' t = Some u'" "conn_keeps n u u'" using u(1) by (metis option_rel_Some1)
  then show "\<exists>v'. lp_conns s' t = Some v' \<and> c_chan v' = c \<and> established v'"
    using u keeps_established by (auto simp: conn_keeps_def)
qed

text \<open>The one way in which handling an active channel fails.\<close>

definition hung_up :: "loop_env \<Rightarrow> 'k loop_io \<Rightarrow> nat \<Rightarrow> bool" where
  "hung_up env s c \<longleftrightarrow> (\<exists>this v ch. lp_conns s this = Some v \<and> c_chan v = c \<and> established v \<and> heap s c = Some ch \<and> closes_twice env (revents ch))"

lemma handle_good:
  assumes io: "io_ok km lid s q" and spec: "epoll_ctl_spec ctl km" and W: "w_this W = lid" and act: "act_ok s c" and rm: "has_room env s"
    and call: "r = handleEvent (\<lambda>this. lp_conns s this \<noteq> None) (lp_run (loop_upd ctl self W) env) c t s"
  shows "if hung_up env s c then r = Inl AssertFailed
    else \<exists>s'. r = Inr s' \<and> loop_good km lid s' \<and> idle s' \<and> queue_ok s' (q @ lp_posts s') \<and> (\<forall>d. d \<noteq> c \<longrightarrow> act_ok s d \<longrightarrow> act_ok s' d) \<and> progress s s'"
proof -
  have i: "loop_good km lid s" "idle s" "lp_posts s = []" "queue_ok s q" using io by (simp_all add: io_ok_def)
  obtain ch where ch: "heap s c = Some ch" "plain ch \<or> (\<exists>this v. lp_conns s this = Some v \<and> c_chan v = c \<and> established v)" using act by (auto simp: act_ok_def)
  from ch(2) show ?thesis
  proof
    assume p: "plain ch"
    have "\<not> hung_up env s c" using p ch(1) conn_goodD [OF i(1)] by (fastforce simp: hung_up_def plain_def bound_def)
    have "room (4 * acts_bytes (e_other env)) s" by (rule room_mono [of "4 * env_bytes env"]) (use rm in \<open>simp_all add: has_room_def env_bytes_def\<close>)
    then obtain s' where s': "r = Inr s'" "loop_good km lid s'" "lp_keeps (4 * acts_bytes (e_other env)) s s'"
      using dispatch_plain [OF i(1) spec W ch(1) p _ i(2)] unfolding call by blast
    have "idle s'" using s'(3) core_handling [of s' s] i(2) by (simp add: lp_keeps_def)
    moreover have "progress s s'" by (rule progress_same) (use phase_keeps [OF s'(3)] in auto)
    ultimately show ?thesis
      using s' queue_keeps [OF i(4) s'(3) i(3)] act_keeps [OF s'(3)] \<open>\<not> hung_up env s c\<close> by auto
  next
    assume "\<exists>this v. lp_conns s this = Some v \<and> c_chan v = c \<and> established v"
    then obtain this v where v: "lp_conns s this = Some v" "established v" and c: "c = c_chan v" by blast
    have rr: "room (2 * env_bytes env) s" "room_in s" using rm room_mono [of "4 * env_bytes env" s "2 * env_bytes env"] by (simp_all add: has_room_def)
    have d: "if closes_twice env (revents ch) then r = Inl AssertFailed
        else \<exists>s'. r = Inr s' \<and> loop_good km lid s' \<and> lp_event (2 * env_bytes env) this s s'"
      using dispatch_conn [OF i(1) spec W v rr ch(1) [unfolded c] _ i(2), of "\<lambda>this. lp_conns s this \<noteq> None" self t] v(1) unfolding call c by simp
    have h: "hung_up env s c \<longleftrightarrow> closes_twice env (revents ch)" using v c ch(1) by (auto simp: hung_up_def)
    show ?thesis
    proof (cases "closes_twice env (revents ch)")
      case True
      then show ?thesis using d h by simp
    next
      case False
      then obtain s' where s': "r = Inr s'" "loop_good km lid s'" "lp_event (2 * env_bytes env) this s s'" using d by auto
      have "idle s'" using s'(3) core_handling [of s' s] i(2) by (simp add: lp_event_def)
      then show ?thesis
        using s' queue_event [OF i(4,1) s'(3) i(3)] act_event [OF s'(3) _ v(1)] progress_event [OF s'(3) i(1)] c h False by auto
    qed
  qed
qed

lemma linv_event:
  assumes inv: "linv km S" and spec: "epoll_ctl_spec ctl km" and pos: "ls_pos S = LEvents (c # cs)" and rm: "has_room env (w_io (ls_w S))"
  shows "if hung_up env (w_io (ls_w S)) c then handle_active (lp_handle ctl self env) c (ls_w S) = Inl AssertFailed
    else \<exists>W. handle_active (lp_handle ctl self env) c (ls_w S) = Inr W \<and> linv km (S\<lparr>ls_w := W, ls_pos := LEvents cs\<rparr>)
      \<and> progress (w_io (ls_w S)) (w_io W)"
proof -
  let ?W = "(ls_w S)\<lparr>currentActiveChannel := Some c\<rparr>" and ?s = "w_io (ls_w S)" and ?q = "pendingFunctors (ls_w S)" and ?lid = "w_this (ls_w S)"
  let ?r = "handleEvent (\<lambda>this. lp_conns ?s this \<noteq> None) (lp_run (loop_upd ctl self ?W) env) c (pollReturnTime (ls_w S)) ?s"
  have i: "io_ok km ?lid ?s ?q" "distinct (c # cs)" "act_ok ?s c" "\<forall>d \<in> set cs. act_ok ?s d" "calls_ok S" using inv pos by (simp_all add: linv_def)
  have ha: "handle_active (lp_handle ctl self env) c (ls_w S) = bindE ?r (\<lambda>s. Inr (post_all self (?W\<lparr>w_io := s\<rparr>)))"
    by (simp add: handle_active_def lp_handle_def)
  note hg = handle_good [OF i(1) spec _ i(3) rm refl, of ?W self "pollReturnTime (ls_w S)", simplified]
  show ?thesis
  proof (cases "hung_up env ?s c")
    case True
    then show ?thesis using hg ha by simp
  next
    case False
    then obtain s' where s': "?r = Inr s'" "loop_good km ?lid s'" "idle s'" "queue_ok s' (?q @ lp_posts s')" "\<forall>d. d \<noteq> c \<longrightarrow> act_ok ?s d \<longrightarrow> act_ok s' d" "progress ?s s'"
      using hg by auto
    let ?S' = "S\<lparr>ls_w := post_all self (?W\<lparr>w_io := s'\<rparr>), ls_pos := LEvents cs\<rparr>"
    obtain n where n: "post_all self (?W\<lparr>w_io := s'\<rparr>) = ?W\<lparr>w_io := s'\<lparr>lp_posts := []\<rparr>, pendingFunctors := ?q @ lp_posts s', eventfd := n\<rparr>"
      using post_all_eq [of self "?W\<lparr>w_io := s'\<rparr>"] by auto
    have "act_ok (s'\<lparr>lp_posts := []\<rparr>) = act_ok s'" by (rule loop_good_more) simp_all
    moreover have "\<forall>d \<in> set cs. act_ok s' d" using i(2,4) s'(5) by (metis distinct.simps(2))
    moreover have pr: "progress ?s (w_io (ls_w ?S'))" using s'(6) by (simp add: n progress_def phase_posts)
    ultimately have "linv km ?S'"
      using io_ok_posted [OF s'(2-4)] i(2) calls_progress [OF i(5) pr] by (simp add: linv_def n)
    then show ?thesis using s'(1) ha pr False by simp
  qed
qed

lemma linv_call:
  assumes inv: "linv km S" and spec: "epoll_ctl_spec ctl km" and add: "grants ctl km" and pos: "ls_pos S = LRun (f # todo) called"
    and rm: "room (functor_bytes env f) (w_io (ls_w S))" and there: "lp_conns (w_io (ls_w S)) (target f) \<noteq> None"
  shows "\<exists>W. lp_functor ctl self env f (ls_w S) = Inr W \<and> linv km (S\<lparr>ls_w := W, ls_pos := LRun todo (called @ [f])\<rparr>)
    \<and> progress (w_io (ls_w S)) (w_io W)"
proof -
  let ?W = "ls_w S" and ?s = "w_io (ls_w S)" and ?q = "todo @ pendingFunctors (ls_w S)"
  have i: "loop_good km (w_this ?W) ?s" "idle ?s" "lp_posts ?s = []" "queue_ok ?s (f # ?q)" "\<not> eventHandling ?W" "calls_ok S"
    using inv pos by (simp_all add: linv_def io_ok_def)
  obtain s' where s': "call_functor (loop_upd ctl self ?W) (loop_rmv ctl self ?W) env f ?s = Inr s'" "loop_good km (w_this ?W) s'" "idle s'"
    "queue_ok s' (?q @ lp_posts s')" "progress ?s s'" using functor_good [OF i(1) spec refl i(5) add i(4,3) rm there] i(2) by blast
  let ?S' = "S\<lparr>ls_w := post_all self (?W\<lparr>w_io := s'\<rparr>), ls_pos := LRun todo (called @ [f])\<rparr>"
  obtain n where n: "post_all self (?W\<lparr>w_io := s'\<rparr>) = ?W\<lparr>w_io := s'\<lparr>lp_posts := []\<rparr>, pendingFunctors := pendingFunctors ?W @ lp_posts s', eventfd := n\<rparr>"
    using post_all_eq [of self "?W\<lparr>w_io := s'\<rparr>"] by auto
  have pr: "progress ?s (w_io (ls_w ?S'))" using s'(5) by (simp add: n progress_def phase_posts)
  have "linv km ?S'" using io_ok_posted [OF s'(2-4)] i(5) calls_progress [OF i(6) pr] by (simp add: linv_def n)
  then show ?thesis using s'(1) pr by (simp add: lp_functor_def)
qed

lemma linv_stale:
  assumes inv: "linv km S" and pos: "ls_pos S = LRun (f # todo) called" and gone: "lp_conns (w_io (ls_w S)) (target f) = None"
  shows "(\<exists>this g. f = FConn this g \<and> \<not> soft g) \<and> lp_functor ctl self env f (ls_w S) = Inl NullDeref"
proof -
  have "queue_ok (w_io (ls_w S)) (f # todo @ pendingFunctors (ls_w S))" using inv pos by (simp add: linv_def io_ok_def)
  from stale_functor [OF this gone, of "loop_upd ctl self (ls_w S)" "loop_rmv ctl self (ls_w S)" env] show ?thesis by (auto simp: lp_functor_def)
qed

text \<open>\<^verbatim>\<open>poll\<close> sets the reported events of the channels it returns and nothing else.\<close>

definition only_reports :: "('k \<Rightarrow> int \<rightharpoonup> epoll_event) \<Rightarrow> nat \<Rightarrow> 'k loop_io \<Rightarrow> 'k loop_io \<Rightarrow> bool" where
  "only_reports km lid s s' \<longleftrightarrow> (loop_good km lid s \<longrightarrow> loop_good km lid s') \<and> (idle s \<longrightarrow> idle s') \<and> phase s' = phase s \<and> lp_conns s' = lp_conns s
     \<and> lp_closed s' = lp_closed s \<and> lp_posts s' = lp_posts s \<and> ep_kernel s' = ep_kernel s"

lemma fill_one_reports:
  assumes "ep_fill_one ev s = Inr s'"
  shows "only_reports km lid s s'"
proof -
  obtain ch where ch: "heap s (snd ev) = Some ch" and s': "s' = s\<lparr>heap := (heap s)(snd ev \<mapsto> ch\<lparr>revents := fst ev\<rparr>)\<rparr>"
    using assms by (auto simp: ep_fill_one_def set_revents_def store_simps)
  have "phase s' = phase s" unfolding s' by (rule phase_heap [OF ch]) simp
  moreover have "loop_good km lid s \<longrightarrow> loop_good km lid s'" unfolding s' using loop_good_reported [OF _ ch] by (simp add: reported_def)
  moreover have "idle s \<longrightarrow> idle s'" unfolding s' using ch by (auto simp: idle_def)
  ultimately show ?thesis by (simp add: only_reports_def s')
qed

lemma fill_reports:
  "foldE (\<lambda>ev (act, s). bindE (ep_fill_one ev s) (\<lambda>s'. Inr (act @ [snd ev], s'))) evs (active, s) = Inr (active', s') \<Longrightarrow> only_reports km lid s s'"
proof (induction evs arbitrary: active s)
  case Nil
  then show ?case by (simp add: only_reports_def)
next
  case (Cons ev evs)
  obtain s1 where s1: "ep_fill_one ev s = Inr s1"
    "foldE (\<lambda>ev (act, s). bindE (ep_fill_one ev s) (\<lambda>s'. Inr (act @ [snd ev], s'))) evs (active @ [snd ev], s1) = Inr (active', s')"
    using Cons.prems by (auto simp: bindE_eq_Inr)
  then show ?case using fill_one_reports [OF s1(1), of km lid] Cons.IH [OF s1(2)] by (auto simp: only_reports_def)
qed

text \<open>A channel in the kernel's list is one of an established connection, or of no connection.\<close>

lemma listed_active:
  assumes good: "loop_good km lid s" and fd: "km (ep_kernel s) fd = Some (e, c)" and ch: "heap s c = Some ch"
    and reg: "ep_channels s fd = Some c"
  shows "act_ok s c"
proof -
  have inv: "ep_inv km s" using good by (simp add: loop_good_def)
  have added: "ch_index ch = kAdded" using ep_invD_chan [OF inv reg] fd ch by (auto simp: ep_chan_ok_def)
  have "plain ch \<or> (\<exists>this v. lp_conns s this = Some v \<and> c_chan v = c \<and> established v)"
  proof (rule disjCI)
    assume n: "\<not> (\<exists>this v. lp_conns s this = Some v \<and> c_chan v = c \<and> established v)"
    have "c_chan v \<noteq> c" if v: "lp_conns s this = Some v" for this v
    proof
      assume c: "c_chan v = c"
      have "conn_good lid s this v" using good v by (simp add: loop_good_def)
      then have "conn_shape s this v ch" using c ch by (simp add: conn_good_def)
      then show False using n v c added by (cases "state v") (auto simp: conn_shape_def established_def ep_index_defs)
    qed
    then show "plain ch" using good ch by (auto simp: loop_good_def others_ok_def)
  qed
  then show ?thesis using ch by (auto simp: act_ok_def)
qed

lemma listed_distinct:
  assumes "ep_inv km s" and "distinct fds" and "list_all2 (\<lambda>fd ev. ep_channels s fd = Some (snd ev)) fds evs"
  shows "distinct (map snd evs)"
proof -
  have "map (\<lambda>c. ch_fd (the (heap s c))) (map snd evs) = fds"
    using assms(3)
  proof (induction rule: list_all2_induct)
    case (Cons fd fds ev evs)
    then show ?case using ep_invD_chan [OF assms(1)] by (fastforce simp: ep_chan_ok_def)
  qed simp
  then show ?thesis using assms(2) by (metis distinct_map)
qed

lemma poll_good:
  assumes good: "loop_good km lid s" "idle s" and wait: "epoll_wait_spec wait km" and size: "ep_events_size s < 2 ^ 31"
  shows "\<exists>active io. EPollPoller_poll wait t now s = Inr (now, active, io) \<and> loop_good km lid io \<and> idle io \<and> phase io = phase s \<and> lp_closed io = lp_closed s
    \<and> lp_posts io = lp_posts s \<and> distinct active \<and> (\<forall>c \<in> set active. act_ok io c)"
proof -
  obtain r k where r: "wait (to_int32 (ep_events_size s)) t (ep_kernel s) = (r, k)" by force
  have k: "km k = km (ep_kernel s)" using wait r unfolding epoll_wait_spec_def by (metis snd_conv)
  let ?s1 = "s\<lparr>ep_kernel := k\<rparr>"
  have more: "loop_good km lid ?s1" "idle ?s1" "phase ?s1 = phase s" using loop_good_more(1) [of ?s1 s km lid] loop_good_more(2-4) [of ?s1 s km] k good by simp_all
  show ?thesis
  proof (cases "\<exists>evs. r = EpollOk evs \<and> evs \<noteq> []")
    case False
    then show ?thesis using r more by (cases r) (auto simp: EPollPoller_poll_def)
  next
    case True
    then obtain evs where evs: "r = EpollOk evs" "evs \<noteq> []" by blast
    note w = epoll_waitD [OF wait r [unfolded evs(1)]]
    obtain fds where fds: "distinct fds" "list_all2 (\<lambda>fd ev. \<exists>e. km k fd = Some (e, snd ev)) fds evs" using w k by auto
    have len: "length evs \<le> ep_events_size s" using w size by simp
    have inv: "ep_inv km ?s1" using more(1) by (simp add: loop_good_def)
    have chan: "ep_channels s fd = Some c" if "km k fd = Some (e, c)" for fd e c
      using ep_invD_chan [OF inv, of fd] ep_invD_kernel [OF inv, of fd] that by (cases "ep_channels s fd") (auto simp: ep_chan_ok_def)
    then have reg: "list_all2 (\<lambda>fd ev. ep_channels ?s1 fd = Some (snd ev)) fds evs" using fds(2) by (auto elim!: list_all2_mono)
    obtain s2 where s2: "foldE (\<lambda>ev (act, s). bindE (ep_fill_one ev s) (\<lambda>s'. Inr (act @ [snd ev], s'))) evs ([], ?s1) = Inr (map snd evs, s2)"
      "ep_channels s2 = ep_channels s" "ep_events_size s2 = ep_events_size s" "\<forall>ev \<in> set evs. \<exists>ch. heap s2 (snd ev) = Some ch \<and> revents ch = fst ev"
      using ep_fill_ok [OF inv fds(1) reg, of "[]"] by auto
    have f: "only_reports km lid ?s1 s2" by (rule fill_reports [OF s2(1)])
    let ?io = "if length evs = ep_events_size s2 then s2\<lparr>ep_events_size := ep_events_size s2 * 2\<rparr> else s2"
    have io: "loop_good km lid ?io = loop_good km lid s2" "idle ?io = idle s2" "phase ?io = phase s2" "act_ok ?io = act_ok s2"
      using loop_good_more(1) [of ?io s2 km lid] loop_good_more(2-4) [of ?io s2 km] by simp_all
    have "act_ok s2 c" if c: "c \<in> set (map snd evs)" for c
    proof -
      obtain ev where ev: "ev \<in> set evs" "c = snd ev" using c by auto
      then obtain fd e where fd: "km k fd = Some (e, c)" using fds(2) unfolding list_all2_conv_all_nth in_set_conv_nth by metis
      have "ep_channels s2 fd = Some c" using chan [OF fd] s2(2) by simp
      moreover obtain ch where "heap s2 c = Some ch" "revents ch = fst ev" using s2(4) ev by auto
      moreover have "loop_good km lid s2" "ep_kernel s2 = k" using f more(1) by (simp_all add: only_reports_def)
      ultimately show ?thesis using fd by (intro listed_active [of km lid s2 fd e c]) auto
    qed
    moreover have "distinct (map snd evs)" by (rule listed_distinct [OF inv fds(1) reg])
    moreover have "EPollPoller_poll wait t now s = Inr (now, map snd evs, ?io)"
      using r evs s2(1,3) len by (simp add: EPollPoller_poll_def ep_fillActiveChannels_def)
    ultimately show ?thesis using f more io by (auto simp: only_reports_def)
  qed
qed

section \<open>Steps of other threads\<close>

lemma queue_other:
  assumes "queue_ok s q" and "\<And>t. t \<noteq> this \<Longrightarrow> phase s' t = phase s t \<and> (t \<in> lp_closed s' \<longleftrightarrow> t \<in> lp_closed s) \<and> sub t q' = sub t q"
    and "allowed this (phase s' this) (this \<in> lp_closed s') (sub this q')"
  shows "queue_ok s' q'"
  unfolding queue_ok_def
proof
  fix t
  show "allowed t (phase s' t) (t \<in> lp_closed s') (sub t q')" using assms by (cases "t = this") (simp_all add: queue_ok_def)
qed

text \<open>A functor made of the raw \<^verbatim>\<open>this\<close>, posted while the connection exists and after it was established, however late.\<close>

lemma queue_raw:
  assumes "queue_ok s q" and "opened s this"
  shows "queue_ok s (q @ [FConn this g])"
proof (rule queue_other [OF assms(1), of this])
  have "allowed this (phase s this) (this \<in> lp_closed s) (sub this q)" using assms(1) by (simp add: queue_ok_def)
  then show "allowed this (phase s this) (this \<in> lp_closed s) (sub this (q @ [FConn this g]))"
    using assms(2) dying_raw [of this "sub this q" "[FConn this g]"] by (auto simp: allowed_def opened_def)
qed simp

lemma linv_test:
  assumes inv: "linv km S" and call: "call_test p this next S = Inr S'"
  shows "linv km S' \<and> progress (w_io (ls_w S)) (w_io (ls_w S')) \<and> ls_raced S' = ls_raced S"
proof -
  obtain v where v: "lp_conns (w_io (ls_w S)) this = Some v" using call by (auto simp: call_test_def load_def split: option.splits)
  have "opened (w_io (ls_w S)) this" if "state v = kConnected" using v that by (simp add: opened_def phase_def conn_phase_iff established_def)
  then show ?thesis using inv call v by (cases "state v = kConnected") (simp_all add: call_test_def load_def linv_def calls_ok_def progress_def, clarsimp)
qed

text \<open>\<^verbatim>\<open>setState(kDisconnecting)\<close> on a connection that has not been closed meanwhile.\<close>

lemma setState_good:
  assumes good: "loop_good km lid s" and spec: "epoll_ctl_spec ctl km" and v: "lp_conns s this = Some v" "established v"
  shows "loop_good km lid (save this ((attach s v)\<lparr>state := kDisconnecting\<rparr>)) \<and> lp_keeps 0 s (save this ((attach s v)\<lparr>state := kDisconnecting\<rparr>))"
proof (cases "state v = kConnected")
  case True
  have W: "w_this (Worker_new lid 0 s :: 'a loop_worker) = lid" by (simp add: Worker_new_def)
  have "conn_inv (lp_frame ctl km (c_chan v) s) (lp_reg (Worker_new lid 0 s) (c_chan v)) ((attach s v)\<lparr>state := kDisconnecting\<rparr>)"
    using established_inv [OF good v spec W] by (simp add: conn_inv_def)
  moreover have "buf_inv (inputBuffer v)" "c_queue v = []" using conn_goodD [OF good v(1)] by metis+
  ultimately show ?thesis using established_save [OF good v W, of ctl "(attach s v)\<lparr>state := kDisconnecting\<rparr>" 0] True by auto
next
  case False
  then have "(attach s v)\<lparr>state := kDisconnecting\<rparr> = attach s v" using v(2) by (auto simp: established_def attach_def)
  then show ?thesis using save_attach [OF good v(1)] good lp_keeps_refl by simp
qed

lemma linv_setState:
  assumes inv: "linv km S" and spec: "epoll_ctl_spec ctl km" and there: "(p, this, AtSetState) \<in> set (ls_calls S)" and call: "call_setState p this S = Inr S'"
    and ok: "\<not> ls_raced S'"
  shows "linv km S' \<and> progress (w_io (ls_w S)) (w_io (ls_w S')) \<and> \<not> ls_raced S"
proof -
  let ?s = "w_io (ls_w S)" and ?q = "still (ls_pos S) @ pendingFunctors (ls_w S)"
  have i: "loop_good km (w_this (ls_w S)) ?s" "idle ?s" "lp_posts ?s = []" "queue_ok ?s ?q" "pos_ok (ls_w S) (ls_pos S)" "calls_ok S"
    using inv by (simp_all add: linv_def io_ok_def)
  obtain v where v: "lp_conns ?s this = Some v" using call by (auto simp: call_setState_def load_def split: option.splits)
  let ?s' = "save this ((attach ?s v)\<lparr>state := kDisconnecting\<rparr>)"
  have S': "S' = S\<lparr>ls_w := (ls_w S)\<lparr>w_io := ?s'\<rparr>, ls_calls := remove1 (p, this, AtSetState) (ls_calls S) @ [(p, this, AtPost ShutdownInLoop)],
      ls_raced := ls_raced S \<or> state v = kDisconnected\<rparr>" using call v by (simp add: call_setState_def load_def)
  have "opened ?s this" using i(6) there by (auto simp: calls_ok_def)
  moreover have "state v \<noteq> kDisconnected" "\<not> ls_raced S" using ok S' by simp_all
  ultimately have est: "established v" using v by (auto simp: opened_def phase_def conn_phase_iff)
  note g = setState_good [OF i(1) spec v est]
  have ph: "phase ?s' = phase ?s" "lp_closed ?s' = lp_closed ?s" using g phase_keeps [of 0 ?s ?s'] by (auto simp: lp_keeps_def)
  have "set (ls_calls S') \<subseteq> insert (p, this, AtPost ShutdownInLoop) (set (ls_calls S))"
    using set_remove1_subset [of "(p, this, AtSetState)" "ls_calls S"] by (auto simp: S')
  moreover have "opened ?s' t = opened ?s t" for t by (simp add: opened_def ph(1))
  ultimately have calls: "calls_ok S'" using i(6) there unfolding calls_ok_def by (auto simp: S')
  have "c_queue v = []" using load_good [OF i(1) v] by simp
  then have "lp_posts ?s' = []" using i(3) by simp
  moreover have "idle ?s'" using g core_handling [of ?s' ?s] i(2) by (simp add: lp_keeps_def)
  moreover have "pos_ok (ls_w S') (ls_pos S')" using i(5) act_keeps [of 0 ?s ?s'] g by (cases "ls_pos S") (auto simp: S')
  moreover have "queue_ok ?s' ?q" using queue_ok_cong [OF ph] i(4) by simp
  ultimately show ?thesis using g ph calls \<open>\<not> ls_raced S\<close> by (simp add: linv_def io_ok_def S' progress_def)
qed

lemma linv_post:
  assumes inv: "linv km S" and there: "(p, this, AtPost g) \<in> set (ls_calls S)"
  shows "linv km (call_post p this g S) \<and> progress (w_io (ls_w S)) (w_io (ls_w (call_post p this g S))) \<and> ls_raced (call_post p this g S) = ls_raced S"
proof -
  let ?s = "w_io (ls_w S)" and ?q = "still (ls_pos S) @ pendingFunctors (ls_w S)"
  have i: "io_ok km (w_this (ls_w S)) ?s ?q" "pos_ok (ls_w S) (ls_pos S)" "calls_ok S" using inv by (simp_all add: linv_def)
  obtain n where n: "queueInLoop p (FConn this g) (ls_w S) = (ls_w S)\<lparr>pendingFunctors := pendingFunctors (ls_w S) @ [FConn this g], eventfd := n\<rparr>"
    using queueInLoop_eq [of p "FConn this g" "ls_w S"] by blast
  have "opened ?s this" using i(3) there by (auto simp: calls_ok_def)
  then have "queue_ok ?s (?q @ [FConn this g])" by (intro queue_raw) (use i(1) in \<open>simp_all add: io_ok_def\<close>)
  moreover have "pos_ok (ls_w (call_post p this g S)) (ls_pos S)" using i(2) by (cases "ls_pos S") (simp_all add: call_post_def n)
  moreover have "calls_ok (call_post p this g S)"
    using i(3) set_remove1_subset [of "(p, this, AtPost g)" "ls_calls S"] by (auto simp: calls_ok_def call_post_def n)
  ultimately show ?thesis using i(1) by (simp add: linv_def io_ok_def call_post_def n progress_def)
qed

text \<open>The steps of a call, done without an interruption, are \<^verbatim>\<open>send\<close> and \<^verbatim>\<open>shutdown\<close> as \<^verbatim>\<open>Tcp_Connection\<close> has them.\<close>

lemma save_queue:
  assumes "c_queue w = []"
  shows "save this (queue_functor g w) = (save this w)\<lparr>lp_posts := lp_posts (c_io w) @ [FConn this g]\<rparr>"
  using assms by (simp add: save_def queue_functor_def attach_def)

lemma post_one:
  fixes s :: "'k loop_io"
  assumes "lp_posts s = []"
  shows "post_all p (W\<lparr>w_io := s\<lparr>lp_posts := [f]\<rparr>\<rparr>) = queueInLoop p f (W\<lparr>w_io := s\<rparr>)"
proof -
  have "s\<lparr>lp_posts := []\<rparr> = s" using assms by simp
  then show ?thesis by (simp add: post_all_def)
qed

lemma uninterrupted_send:
  assumes inv: "linv km S" and v: "lp_conns (w_io (ls_w S)) this = Some v" "state v = kConnected"
  shows "\<exists>S1. call_test p this (AtPost (SendInLoop data)) S = Inr S1
    \<and> bindE (on_conn this (send upd False r data) (w_io (ls_w S))) (\<lambda>s. Inr (post_all p ((ls_w S)\<lparr>w_io := s\<rparr>))) = Inr (ls_w (call_post p this (SendInLoop data) S1))"
proof -
  let ?s = "w_io (ls_w S)"
  have i: "loop_good km (w_this (ls_w S)) ?s" "lp_posts ?s = []" using inv by (simp_all add: linv_def io_ok_def)
  note l = load_good [OF i(1) v(1)]
  have "on_conn this (send upd False r data) ?s = Inr (?s\<lparr>lp_posts := [FConn this (SendInLoop data)]\<rparr>)"
    using l v(2) i(2) by (simp add: on_conn_def send_def save_queue)
  then show ?thesis using l v(2) post_one [OF i(2), where p = p and W = "ls_w S" and f = "FConn this (SendInLoop data)"] by (simp add: call_test_def call_post_def)
qed

lemma uninterrupted_shutdown:
  assumes inv: "linv km S" and v: "lp_conns (w_io (ls_w S)) this = Some v" "state v = kConnected"
  shows "\<exists>S1 S2. call_test p this AtSetState S = Inr S1 \<and> call_setState p this S1 = Inr S2
    \<and> bindE (on_conn this (shutdown False) (w_io (ls_w S))) (\<lambda>s. Inr (post_all p ((ls_w S)\<lparr>w_io := s\<rparr>))) = Inr (ls_w (call_post p this ShutdownInLoop S2))"
proof -
  let ?s = "w_io (ls_w S)" and ?w = "(attach (w_io (ls_w S)) v)\<lparr>state := kDisconnecting\<rparr>"
  have i: "loop_good km (w_this (ls_w S)) ?s" "lp_posts ?s = []" using inv by (simp_all add: linv_def io_ok_def)
  note l = load_good [OF i(1) v(1)]
  have p: "lp_posts (save this ?w) = []" using l i(2) by simp
  have "on_conn this (shutdown False) ?s = Inr ((save this ?w)\<lparr>lp_posts := [FConn this ShutdownInLoop]\<rparr>)"
    using l v(2) i(2) by (simp add: on_conn_def shutdown_def save_queue)
  then show ?thesis using l v(2) post_one [OF p, where p = p and W = "ls_w S" and f = "FConn this ShutdownInLoop"] by (simp add: call_test_def call_setState_def call_post_def)
qed

text \<open>The owner posts \<^verbatim>\<open>ConnectionDestroyed\<close> for a connection that it has been told of.\<close>

lemma linv_remove:
  assumes inv: "linv km S" and cl: "this \<in> lp_closed (w_io (ls_w S))"
  shows "linv km (S\<lparr>ls_w := remove_conn this p (ls_w S)\<rparr>) \<and> progress (w_io (ls_w S)) (w_io (remove_conn this p (ls_w S)))"
proof -
  let ?s = "w_io (ls_w S)" and ?q = "still (ls_pos S) @ pendingFunctors (ls_w S)"
  let ?s' = "?s\<lparr>lp_closed := lp_closed ?s - {this}\<rparr>"
  have i: "io_ok km (w_this (ls_w S)) ?s ?q" "pos_ok (ls_w S) (ls_pos S)" "calls_ok S" using inv by (simp_all add: linv_def)
  have more: "loop_good km (w_this (ls_w S)) ?s' = loop_good km (w_this (ls_w S)) ?s" "idle ?s' = idle ?s" "phase ?s' = phase ?s" "act_ok ?s' = act_ok ?s"
    using loop_good_more(1) [of ?s' ?s km "w_this (ls_w S)"] loop_good_more(2-4) [of ?s' ?s km] by simp_all
  have "allowed this (phase ?s this) True (sub this ?q)" using i(1) cl unfolding io_ok_def queue_ok_def by metis
  then have "phase ?s this = Some PClosed" "raws this (sub this ?q)" by (auto simp: allowed_def split: option.splits phase.splits)
  then have al: "allowed this (phase ?s this) False (sub this ?q @ [FDestroy this])" using dying_post [of this "sub this ?q"] by (simp add: allowed_def)
  have "queue_ok ?s' (?q @ [FDestroy this])"
  proof (rule queue_other [of ?s ?q this])
    show "queue_ok ?s ?q" using i(1) by (simp add: io_ok_def)
    show "allowed this (phase ?s' this) (this \<in> lp_closed ?s') (sub this (?q @ [FDestroy this]))" using al by (simp add: more(3))
  qed (simp add: more(3))
  moreover obtain n where n: "remove_conn this p (ls_w S) = (ls_w S)\<lparr>w_io := ?s', pendingFunctors := pendingFunctors (ls_w S) @ [FDestroy this], eventfd := n\<rparr>"
    using queueInLoop_eq [of p "FDestroy this" "(ls_w S)\<lparr>w_io := ?s'\<rparr>"] by (auto simp: remove_conn_def)
  moreover have "pos_ok (remove_conn this p (ls_w S)) (ls_pos S)" using i(2) more(4) by (cases "ls_pos S") (simp_all add: n)
  moreover have "calls_ok (S\<lparr>ls_w := remove_conn this p (ls_w S)\<rparr>)" using i(3) by (simp add: calls_ok_def opened_def n more(3))
  ultimately show ?thesis using i(1) more by (simp add: linv_def io_ok_def progress_def)
qed

text \<open>The last pointer to a removed connection goes away: its channel is known to nobody any more.\<close>

lemma drop_good:
  assumes good: "loop_good km lid s" and idle: "idle s" and ph: "phase s this = Some PRemoved" and v: "lp_conns s this = Some v"
  shows "loop_good km lid (s\<lparr>heap := (heap s)(c_chan v := None), lp_conns := (lp_conns s)(this := None)\<rparr>)"
proof -
  let ?c = "c_chan v" let ?s = "s\<lparr>heap := (heap s)(?c := None), lp_conns := (lp_conns s)(this := None)\<rparr>"
  have st: "state v = kDisconnected" "\<not> registered s ?c" using ph v by (simp_all add: phase_def conn_phase_iff)
  have chan: "c_chan u \<noteq> ?c" if "lp_conns s t = Some u" "t \<noteq> this" for t u
    using good v that unfolding loop_good_def apart_def by blast
  have fd: "d \<noteq> ?c" if "ep_channels s fd = Some d" for fd d
  proof -
    have "ep_chan_ok km s fd d" using good that by (simp add: loop_good_def ep_inv_def)
    then show ?thesis using st(2) that by (auto simp: ep_chan_ok_def registered_def)
  qed
  have "ep_chan_ok km ?s fd d" if "ep_channels s fd = Some d" for fd d
  proof -
    have "ep_chan_ok km s fd d" using good that by (simp add: loop_good_def ep_inv_def)
    then show ?thesis using fd [OF that] by (simp add: ep_chan_ok_def)
  qed
  then have "ep_inv km ?s" using good by (simp add: loop_good_def ep_inv_def)
  moreover have "conn_good lid ?s t u" if t: "lp_conns ?s t = Some u" for t u
  proof -
    have u: "lp_conns s t = Some u" "t \<noteq> this" using t by (auto split: if_splits)
    then have "conn_good lid s t u" using good by (simp add: loop_good_def)
    then show ?thesis by (rule conn_good_frame) (use chan [OF u] in simp_all)
  qed
  moreover have "apart ?s" unfolding apart_def
  proof (intro allI impI)
    fix a b va vb assume ab: "a \<noteq> b" "lp_conns ?s a = Some va" "lp_conns ?s b = Some vb"
    then have o: "lp_conns s a = Some va" "a \<noteq> this" "lp_conns s b = Some vb" "b \<noteq> this" by (auto split: if_splits)
    have "apart s" using good by (simp add: loop_good_def)
    from this [unfolded apart_def, rule_format, OF ab(1) o(1,3)] chan [OF o(1,2)] chan [OF o(3,4)]
    show "c_chan va \<noteq> c_chan vb \<and> map_option ch_fd (heap ?s (c_chan va)) \<noteq> map_option ch_fd (heap ?s (c_chan vb))" by simp
  qed
  moreover have "others_ok ?s" unfolding others_ok_def
  proof (intro allI impI)
    fix d ch assume d: "heap ?s d = Some ch" "\<forall>t u. lp_conns ?s t = Some u \<longrightarrow> c_chan u \<noteq> d"
    have h: "heap s d = Some ch" "d \<noteq> ?c" using d(1) by (auto split: if_splits)
    have "c_chan u \<noteq> d" if "lp_conns s t = Some u" for t u using d(2) [rule_format, of t u] that h(2) v by (cases "t = this") auto
    then show "plain ch" using good h(1) by (auto simp: loop_good_def others_ok_def)
  qed
  ultimately show ?thesis by (simp add: loop_good_def)
qed

lemma linv_release:
  assumes inv: "linv km S" and ph: "phase (w_io (ls_w S)) this = Some PRemoved" and free: "\<not> held S this"
  shows "\<exists>W. drop_conn this (ls_w S) = Inr W \<and> linv km (S\<lparr>ls_w := W\<rparr>) \<and> (\<forall>t. advance (phase (w_io (ls_w S)) t) (phase (w_io W) t))"
proof -
  let ?s = "w_io (ls_w S)" and ?q = "still (ls_pos S) @ pendingFunctors (ls_w S)"
  have i: "loop_good km (w_this (ls_w S)) ?s" "idle ?s" "lp_posts ?s = []" "queue_ok ?s ?q" "pos_ok (ls_w S) (ls_pos S)" "calls_ok S"
    using inv by (simp_all add: linv_def io_ok_def)
  obtain v where v: "lp_conns ?s this = Some v" "state v = kDisconnected" using ph by (auto simp: phase_def conn_phase_iff)
  have "conn_good (w_this (ls_w S)) ?s this v" using i(1) v(1) by (simp add: loop_good_def)
  then obtain ch where ch: "heap ?s (c_chan v) = Some ch" "bound this ch" by (auto simp: conn_good_def)
  let ?s' = "?s\<lparr>heap := (heap ?s)(c_chan v := None), lp_conns := (lp_conns ?s)(this := None)\<rparr>" let ?W = "(ls_w S)\<lparr>w_io := ?s'\<rparr>"
  have "drop_conn this (ls_w S) = Inr ?W"
    using v(1) ch(1) i(2) by (simp add: drop_conn_def load_def TcpConnection_dtor_def Channel_dtor_def idle_def cassert_def)
  moreover have chan: "c_chan u \<noteq> c_chan v" if "lp_conns ?s t = Some u" "t \<noteq> this" for t u
    using i(1) v(1) that unfolding loop_good_def apart_def by blast
  have phase: "phase ?s' t = (if t = this then None else phase ?s t)" for t
    using chan by (cases "lp_conns ?s t") (auto simp: phase_def conn_phase_def registered_def split: conn_state.splits)
  have a: "allowed this (Some PRemoved) (this \<in> lp_closed ?s) (sub this ?q)" using i(4) ph unfolding queue_ok_def by metis
  have "lates this (sub this ?q)" unfolding lates_def
  proof
    fix f assume f: "f \<in> set (sub this ?q)"
    have "raws this (sub this ?q)" using a by (simp add: allowed_def)
    then obtain g where g: "f = FConn this g" using f unfolding raws_def by blast
    have "f \<in> set (taken (ls_pos S) @ pendingFunctors (ls_w S))" using f by (cases "ls_pos S") (auto simp: sub_def)
    then have "\<not> holds f this" using free by (auto simp: held_def)
    then have "\<not> soft g" using g by simp
    then show "\<exists>g. f = FConn this g \<and> \<not> soft g" using g by blast
  qed
  then have "queue_ok ?s' ?q" using a phase by (intro queue_other [OF i(4), of this]) (simp_all add: allowed_def)
  moreover have "act_ok ?s' d" if d: "act_ok ?s d" for d
  proof -
    obtain chd where chd: "heap ?s d = Some chd" "plain chd \<or> (\<exists>t u. lp_conns ?s t = Some u \<and> c_chan u = d \<and> established u)" using d by (auto simp: act_ok_def)
    have e: "t \<noteq> this" if "lp_conns ?s t = Some u" "established u" for t u using that v by (auto simp: established_def)
    have "d \<noteq> c_chan v" using chd ch chan e by (auto simp: plain_def bound_def)
    then show ?thesis using chd e by (auto simp: act_ok_def)
  qed
  then have "pos_ok ?W (ls_pos S)" using i(5) by (cases "ls_pos S") simp_all
  moreover have "\<forall>t. advance (phase ?s t) (phase ?s' t)" using phase ph by simp
  moreover have "idle ?s'" using i(2) by (auto simp: idle_def split: if_splits)
  moreover have "calls_ok (S\<lparr>ls_w := ?W\<rparr>)" using i(6) free phase by (auto simp: calls_ok_def held_def opened_def)
  ultimately show ?thesis using drop_good [OF i(1,2) ph v(1)] i(3) by (auto simp: linv_def io_ok_def)
qed

text \<open>A new connection on an address, a channel and a descriptor that nobody uses.\<close>

lemma conn_new:
  "\<exists>w ch. TcpConnection_new lid fd c (CbRead this) (CbWrite this) (CbClose this) (CbError this) s = Inr w
    \<and> c_io w = s\<lparr>heap := (heap s)(c \<mapsto> ch)\<rparr> \<and> c_chan w = c \<and> state w = kConnecting \<and> c_queue w = [] \<and> \<not> write_shut w
    \<and> buf_inv (inputBuffer w) \<and> buf_inv (outputBuffer w) \<and> content (outputBuffer w) = []
    \<and> ch_fd ch = fd \<and> ch_loop ch = lid \<and> bound this ch \<and> events ch = 0 \<and> ch_index ch = kNew \<and> \<not> ch_eventHandling ch"
proof -
  obtain b where b: "Buffer_new = Inr b" "buf_inv b" "content b = []" using Buffer_new_ok by blast
  then show ?thesis
    unfolding TcpConnection_new_def b(1)
    by (simp add: SetReadCb_def SetWriteCb_def SetCloseCb_def SetErrorCb_def Channel_new_def bound_def kNew_def) (rule exI, rule conjI, rule refl, simp)
qed

lemma conn_chan_used:
  assumes "loop_good km lid s" and "heap s c = None" and "lp_conns s t = Some u"
  shows "c_chan u \<noteq> c"
proof -
  have "conn_good lid s t u" using assms(1,3) by (simp add: loop_good_def)
  then show ?thesis using assms(2) by (auto simp: conn_good_def)
qed

lemma fresh_apart:
  assumes apart: "apart s" and chan: "\<And>t u. lp_conns s t = Some u \<Longrightarrow> c_chan u \<noteq> c" and fd: "\<forall>d ch. heap s d = Some ch \<longrightarrow> ch_fd ch \<noteq> ch_fd ch'"
    and v: "c_chan v = c" and s': "heap s' = (heap s)(c \<mapsto> ch')" "lp_conns s' = (lp_conns s)(this \<mapsto> v)"
  shows "apart s'"
  unfolding apart_def
proof (intro allI impI)
  fix a b va vb assume ab: "a \<noteq> b" "lp_conns s' a = Some va" "lp_conns s' b = Some vb"
  have old: "c_chan u \<noteq> c \<and> map_option ch_fd (heap s' (c_chan u)) \<noteq> Some (ch_fd ch') \<and> map_option ch_fd (heap s' (c_chan u)) = map_option ch_fd (heap s (c_chan u))"
    if "lp_conns s t = Some u" for t u using chan [OF that] fd s'(1) by simp
  have mine: "map_option ch_fd (heap s' c) = Some (ch_fd ch')" using s'(1) by simp
  consider "a = this" "va = v" "lp_conns s b = Some vb" | "b = this" "vb = v" "lp_conns s a = Some va" | "lp_conns s a = Some va" "lp_conns s b = Some vb"
    using ab unfolding s'(2) by (metis fun_upd_apply option.inject)
  then show "c_chan va \<noteq> c_chan vb \<and> map_option ch_fd (heap s' (c_chan va)) \<noteq> map_option ch_fd (heap s' (c_chan vb))"
  proof cases
    case 3
    from apart [unfolded apart_def, rule_format, OF ab(1) 3] old [OF 3(1)] old [OF 3(2)] show ?thesis by simp
  qed (use old mine v in metis)+
qed

lemma fresh_good:
  assumes good: "loop_good km lid s" and new: "lp_conns s this = None" "heap s c = None" "\<forall>d ch. heap s d = Some ch \<longrightarrow> ch_fd ch \<noteq> ch_fd ch'"
    and me: "conn_good lid (s\<lparr>heap := (heap s)(c \<mapsto> ch')\<rparr>) this v" "c_chan v = c"
    and s': "heap s' = (heap s)(c \<mapsto> ch')" "ep_channels s' = ep_channels s" "ep_kernel s' = ep_kernel s" "lp_conns s' = (lp_conns s)(this \<mapsto> v)"
  shows "loop_good km lid s'"
proof -
  note chan = conn_chan_used [OF good new(2)]
  have "ep_chan_ok km s' fd d" if "ep_channels s fd = Some d" for fd d
  proof -
    have "ep_chan_ok km s fd d" using good that by (simp add: loop_good_def ep_inv_def)
    then show ?thesis using new(2) s' by (auto simp: ep_chan_ok_def)
  qed
  then have "ep_inv km s'" using good s' by (simp add: loop_good_def ep_inv_def)
  moreover have "conn_good lid s' t u" if t: "lp_conns s' t = Some u" for t u
  proof (cases "t = this")
    case True
    then show ?thesis using t me s' by (simp add: conn_good_def conn_shape_def ep_reg_def cong: conn_state.case_cong)
  next
    case False
    then have u: "lp_conns s t = Some u" using t s' by simp
    then have "conn_good lid s t u" using good by (simp add: loop_good_def)
    then show ?thesis by (rule conn_good_frame) (use chan [OF u] s' in simp_all)
  qed
  moreover have "apart s'" by (rule fresh_apart [OF _ chan new(3) me(2) s'(1,4)]) (use good in \<open>simp_all add: loop_good_def\<close>)
  moreover have "others_ok s'" unfolding others_ok_def
  proof (intro allI impI)
    fix d ch assume d: "heap s' d = Some ch" "\<forall>t u. lp_conns s' t = Some u \<longrightarrow> c_chan u \<noteq> d"
    have "d \<noteq> c" using d(2) [rule_format, of this v] s'(4) me(2) by auto
    moreover have "c_chan u \<noteq> d" if "lp_conns s t = Some u" for t u
      using d(2) [rule_format, of t u] that s'(4) new(1) by (cases "t = this") auto
    ultimately show "plain ch" using good d(1) s'(1) by (auto simp: loop_good_def others_ok_def)
  qed
  ultimately show ?thesis by (simp add: loop_good_def)
qed

lemma fresh_phase:
  assumes good: "loop_good km lid s" and new: "heap s c = None" and v: "state v = kConnecting"
    and s': "heap s' = (heap s)(c \<mapsto> ch')" "ep_channels s' = ep_channels s" "lp_conns s' = (lp_conns s)(this \<mapsto> v)"
  shows "phase s' = (phase s)(this := Some PConnecting)"
proof
  fix t
  have "registered s' (c_chan u) = registered s (c_chan u)" if "lp_conns s t = Some u" for u
    using conn_chan_used [OF good new that] s' by (simp add: registered_def)
  then show "phase s' t = ((phase s)(this := Some PConnecting)) t"
    using s'(3) v by (cases "lp_conns s t") (simp_all add: phase_def conn_phase_def split: conn_state.splits)
qed

lemma fresh_act:
  assumes a: "act_ok s d" and new: "lp_conns s this = None" "heap s c = None" and s': "heap s' = (heap s)(c \<mapsto> ch')" "lp_conns s' = (lp_conns s)(this \<mapsto> v)"
  shows "act_ok s' d"
proof -
  obtain chd where chd: "heap s d = Some chd" "plain chd \<or> (\<exists>t u. lp_conns s t = Some u \<and> c_chan u = d \<and> established u)" using a by (auto simp: act_ok_def)
  have "lp_conns s' t = Some u" if "lp_conns s t = Some u" for t u using that new(1) s'(2) by auto
  moreover have "heap s' d = Some chd" using chd(1) new(2) s'(1) by auto
  ultimately show ?thesis using chd unfolding act_ok_def by metis
qed

lemma fresh_fd:
  assumes "ep_inv km s" and "\<forall>d ch. heap s d = Some ch \<longrightarrow> ch_fd ch \<noteq> fd"
  shows "ep_channels s fd = None"
proof (rule ccontr)
  assume "ep_channels s fd \<noteq> None"
  then obtain d where "ep_channels s fd = Some d" by blast
  then show False using assms ep_invD_chan by (fastforce simp: ep_chan_ok_def)
qed

lemma linv_accept:
  assumes inv: "linv km S" and fd: "0 \<le> fd" and new: "lp_conns (w_io (ls_w S)) this = None" "heap (w_io (ls_w S)) c = None"
    "\<forall>d ch. heap (w_io (ls_w S)) d = Some ch \<longrightarrow> ch_fd ch \<noteq> fd" "\<forall>f \<in> set (taken (ls_pos S) @ pendingFunctors (ls_w S)). target f \<noteq> this"
  shows "\<exists>W. new_conn this fd c wc p (ls_w S) = Inr W \<and> linv km (S\<lparr>ls_w := W\<rparr>) \<and> progress (w_io (ls_w S)) (w_io W)"
proof -
  let ?s = "w_io (ls_w S)" and ?q = "still (ls_pos S) @ pendingFunctors (ls_w S)" and ?lid = "w_this (ls_w S)"
  have i: "loop_good km ?lid ?s" "idle ?s" "lp_posts ?s = []" "queue_ok ?s ?q" "pos_ok (ls_w S) (ls_pos S)" "calls_ok S" using inv by (simp_all add: linv_def io_ok_def)
  obtain w ch where w: "TcpConnection_new ?lid fd c (CbRead this) (CbWrite this) (CbClose this) (CbError this) ?s = Inr w"
    "c_io w = ?s\<lparr>heap := (heap ?s)(c \<mapsto> ch)\<rparr>" "c_chan w = c" "state w = kConnecting" "c_queue w = []" "\<not> write_shut w" "buf_inv (inputBuffer w)"
    "buf_inv (outputBuffer w)" "content (outputBuffer w) = []"
    and ch: "ch_fd ch = fd" "ch_loop ch = ?lid" "bound this ch" "events ch = 0" "ch_index ch = kNew" "\<not> ch_eventHandling ch"
    using conn_new [of ?lid fd c this ?s] by blast
  define w1 where "w1 = (if wc then conn_SetWriteCompleteCb w else w)"
  have w1: "c_io w1 = c_io w" "c_chan w1 = c" "state w1 = kConnecting" "c_queue w1 = []" "\<not> write_shut w1" "buf_inv (inputBuffer w1)"
    "buf_inv (outputBuffer w1)" "content (outputBuffer w1) = []" using w by (simp_all add: w1_def conn_SetWriteCompleteCb_def)
  let ?s' = "save this w1" and ?v = "(attach () w1)\<lparr>c_queue := []\<rparr>"
  have "ep_channels ?s fd = None" by (rule fresh_fd [of km]) (use i(1) new(3) in \<open>simp_all add: loop_good_def\<close>)
  then have me: "conn_good ?lid (?s\<lparr>heap := (heap ?s)(c \<mapsto> ch)\<rparr>) this ?v" using w1 ch fd by (simp add: conn_good_def conn_shape_def)
  have fields: "heap ?s' = (heap ?s)(c \<mapsto> ch)" "ep_channels ?s' = ep_channels ?s" "ep_kernel ?s' = ep_kernel ?s" "lp_conns ?s' = (lp_conns ?s)(this \<mapsto> ?v)"
    "lp_closed ?s' = lp_closed ?s" "lp_posts ?s' = []" using w1 w(2) i(3) by simp_all
  have good: "loop_good km ?lid ?s'" by (rule fresh_good [OF i(1) new(1,2) _ me _ fields(1-4)]) (use new(3) ch(1) w1(2) in simp_all)
  have ph: "phase ?s' = (phase ?s)(this := Some PConnecting)" by (rule fresh_phase [OF i(1) new(2) _ fields(1,2,4)]) (simp add: w1(3))
  have a: "allowed this None (this \<in> lp_closed ?s) (sub this ?q)" using i(4) new(1) unfolding queue_ok_def phase_def by (metis option.simps(8))
  have none: "sub this ?q = []" using new(4) by (cases "ls_pos S") (auto simp: sub_def filter_empty_conv)
  have "queue_ok ?s' (?q @ [FEstablish this])"
  proof (rule queue_other [OF i(4), of this])
    show "allowed this (phase ?s' this) (this \<in> lp_closed ?s') (sub this (?q @ [FEstablish this]))"
      using a none ph fields(5) by (simp add: allowed_def)
  qed (use ph fields(5) in simp)
  moreover have "act_ok ?s' d" if "act_ok ?s d" for d by (rule fresh_act [OF that new(1,2) fields(1,4)])
  moreover have pr: "progress ?s ?s'" using ph new(1) by (simp add: progress_def phase_def)
  moreover have "idle ?s'" using i(2) ch(6) fields(1) by (simp add: idle_def)
  moreover obtain n where n: "queueInLoop p (FEstablish this) ((ls_w S)\<lparr>w_io := ?s'\<rparr>)
      = (ls_w S)\<lparr>w_io := ?s', pendingFunctors := pendingFunctors (ls_w S) @ [FEstablish this], eventfd := n\<rparr>"
    using queueInLoop_eq [of p "FEstablish this" "(ls_w S)\<lparr>w_io := ?s'\<rparr>"] by auto
  moreover have "new_conn this fd c wc p (ls_w S) = Inr (queueInLoop p (FEstablish this) ((ls_w S)\<lparr>w_io := ?s'\<rparr>))"
    using w(1) by (simp add: new_conn_def w1_def)
  moreover have "calls_ok (S\<lparr>ls_w := queueInLoop p (FEstablish this) ((ls_w S)\<lparr>w_io := ?s'\<rparr>)\<rparr>)" by (rule calls_progress [OF i(6)]) (use pr in \<open>simp_all add: n\<close>)
  ultimately show ?thesis using good fields(6) i(5) by (cases "ls_pos S") (simp_all add: linv_def io_ok_def)
qed

section \<open>The invariant holds in every reachable state\<close>

lemma linv_poll:
  assumes inv: "linv km S" and wait: "epoll_wait_spec wait km" and size: "ep_events_size (w_io (ls_w S)) < 2 ^ 31" and pos: "ls_pos S = LPoll"
  shows "\<exists>t active io. EPollPoller_poll wait tm now (w_io (ls_w S)) = Inr (t, active, io)
    \<and> linv km (S\<lparr>ls_w := (ls_w S)\<lparr>w_io := io, activeChannels := active, pollReturnTime := t, eventHandling := True\<rparr>, ls_pos := LEvents active\<rparr>)
    \<and> progress (w_io (ls_w S)) io"
proof -
  have i: "loop_good km (w_this (ls_w S)) (w_io (ls_w S))" "idle (w_io (ls_w S))" "lp_posts (w_io (ls_w S)) = []" "queue_ok (w_io (ls_w S)) (pendingFunctors (ls_w S))"
    "calls_ok S" using inv pos by (simp_all add: linv_def io_ok_def)
  obtain active io where "EPollPoller_poll wait tm now (w_io (ls_w S)) = Inr (now, active, io)" "loop_good km (w_this (ls_w S)) io" "idle io"
    "phase io = phase (w_io (ls_w S))" "lp_closed io = lp_closed (w_io (ls_w S))" "lp_posts io = lp_posts (w_io (ls_w S))" "distinct active" "\<forall>c \<in> set active. act_ok io c"
    using poll_good [OF i(1,2) wait size] by blast
  then show ?thesis using i(3-5) by (simp add: linv_def io_ok_def queue_ok_def progress_def calls_ok_def opened_def)
qed

lemma progress_advance: "progress s s' \<Longrightarrow> \<forall>t. advance (phase s t) (phase s' t)"
  by (simp add: progress_def)

lemma linv_step:
  assumes step: "lstep ctl km S S'" and inv: "linv km S" and spec: "epoll_ctl_spec ctl km" and add: "grants ctl km" and ok: "\<not> ls_raced S'"
  shows "linv km S' \<and> (\<forall>t. advance (phase (w_io (ls_w S)) t) (phase (w_io (ls_w S')) t))"
  using step
proof cases
  case (poll wait now t active io)
  then show ?thesis using linv_poll [OF inv poll(3,4,2), of kPollTimeMs now] progress_advance by auto
next
  case (event c cs env W)
  then show ?thesis using linv_event [OF inv spec event(2,3), of "w_threadId (ls_w S)"] progress_advance by (auto split: if_splits)
next
  case (swap fs W)
  then show ?thesis using inv by (auto simp: linv_def io_ok_def swap_functors_def calls_ok_def)
next
  case (call f todo called env W)
  have "lp_conns (w_io (ls_w S)) (target f) \<noteq> None" using linv_stale [OF inv call(2), of ctl "w_threadId (ls_w S)" env] call(4) by auto
  then show ?thesis using call linv_call [OF inv spec add call(2,3), of "w_threadId (ls_w S)"] progress_advance by auto
next
  case (run_done called)
  then show ?thesis using inv by (auto simp: linv_def calls_ok_def)
next
  case (accept p fd this c wc W)
  then show ?thesis using linv_accept [OF inv accept(3-7), of wc p] by (auto dest: progress_advance)
next
  case (remove this p)
  then show ?thesis using linv_remove [OF inv, of this p] by (auto dest: progress_advance)
next
  case (release this W)
  then show ?thesis using linv_release [OF inv release(2,3)] by auto
next
  case (send_test p this data)
  then show ?thesis using linv_test [OF inv] progress_advance by blast
next
  case (shutdown_test p this)
  then show ?thesis using linv_test [OF inv] progress_advance by blast
next
  case (shutdown_set p this)
  then show ?thesis using linv_setState [OF inv spec _ _ ok] progress_advance by blast
next
  case (post p this g)
  then show ?thesis using linv_post [OF inv] progress_advance by blast
qed

text \<open>The record of a race stays.\<close>

lemma raced_step: "lstep ctl km S S' \<Longrightarrow> ls_raced S \<Longrightarrow> ls_raced S'"
  by (erule lstepE) (auto simp: call_test_def call_setState_def call_post_def bindE_eq_Inr split: if_splits)

lemma linv_reach:
  assumes "lreach ctl km W S" and "loop_start km W" and "epoll_ctl_spec ctl km" and "grants ctl km"
  shows "\<not> ls_raced S \<Longrightarrow> linv km S"
  using assms by (induction rule: lreach.induct) (auto intro: linv_start dest: linv_step raced_step)

section \<open>Properties\<close>

text \<open>A loop with one new connection, about to call \<^verbatim>\<open>ConnectionEstablished\<close>.\<close>

definition w_start :: "(int \<rightharpoonup> epoll_event) loop_worker" where
  "w_start = Worker_new 0 5 \<lparr>heap = Map.empty, ep_events_size = 16, ep_channels = Map.empty, ep_kernel = Map.empty, lp_conns = Map.empty, lp_closed = {}, lp_posts = []\<rparr>"

definition quiet :: loop_env where
  "quiet = \<lparr>e_read = ReadvBytes [], e_write = Wrote 0, e_connection = [], e_message = [], e_other = []\<rparr>"

definition no_wait :: "(int \<rightharpoonup> epoll_event) epoll_wait" where
  "no_wait n t k = (if 0 < n then EpollOk [] else EpollError 22, k)"

lemma w_start_ok: "loop_start (\<lambda>k. k) w_start"
  by (simp add: loop_start_def w_start_def Worker_new_def ep_inv_def)

lemma table_grants: "grants table_ctl (\<lambda>k. k)"
  by (simp add: grants_def table_ctl_def)

lemma no_wait_ok: "epoll_wait_spec no_wait (\<lambda>k. k)"
  by (auto simp: epoll_wait_spec_def no_wait_def intro!: exI [of _ "[]"])

lemma good_room: "loop_good km lid s \<Longrightarrow> room 0 s"
proof (unfold room_def, intro allI impI)
  fix this v assume "loop_good km lid s" "lp_conns s this = Some v"
  then have "buf_inv (outputBuffer v)" by (simp add: loop_good_def conn_good_def)
  then show "used (outputBuffer v) + 0 \<le> vec_max" by (auto simp: used_def buf_inv_def)
qed

lemma new_conn_pending:
  assumes "new_conn this fd c wc p W = Inr W'"
  shows "pendingFunctors W' = pendingFunctors W @ [FEstablish this] \<and> w_threadId W' = w_threadId W"
proof -
  obtain w where "W' = queueInLoop p (FEstablish this) (W\<lparr>w_io := save this w\<rparr>)" using assms by (auto simp: new_conn_def bindE_eq_Inr)
  then show ?thesis using queueInLoop_eq [of p "FEstablish this" "W\<lparr>w_io := save this w\<rparr>"] by auto
qed

lemma demo_reach:
  "\<exists>S. lreach table_ctl (\<lambda>k. k) w_start S \<and> ls_pos S = LRun [FEstablish 7] [] \<and> pendingFunctors (ls_w S) = [] \<and> w_threadId (ls_w S) = 5
    \<and> ls_calls S = [] \<and> \<not> ls_raced S"
proof -
  let ?S0 = "\<lparr>ls_w = w_start, ls_pos = LPoll, ls_calls = [], ls_raced = False\<rparr>"
  have r0: "lreach table_ctl (\<lambda>k. k) w_start ?S0" by (rule lreach.start)
  have new: "lp_conns (w_io (ls_w ?S0)) 7 = None" "heap (w_io (ls_w ?S0)) 3 = None" "\<forall>d ch. heap (w_io (ls_w ?S0)) d = Some ch \<longrightarrow> ch_fd ch \<noteq> 9"
    "\<forall>f \<in> set (taken (ls_pos ?S0) @ pendingFunctors (ls_w ?S0)). target f \<noteq> 7"
    by (simp_all add: w_start_def Worker_new_def)
  obtain W1 where W1: "new_conn 7 9 3 False 1 (ls_w ?S0) = Inr W1" using linv_accept [OF linv_start [OF w_start_ok] _ new, of False 1] by auto
  let ?S1 = "?S0\<lparr>ls_w := W1\<rparr>"
  have "lstep table_ctl (\<lambda>k. k) ?S0 ?S1" by (rule lstep.accept [OF _ _ new W1]) (simp_all add: w_start_def Worker_new_def)
  then have r1: "lreach table_ctl (\<lambda>k. k) w_start ?S1" by (rule lreach.step [OF r0])
  have p1: "pendingFunctors W1 = [FEstablish 7]" "w_threadId W1 = 5" using new_conn_pending [OF W1] by (simp_all add: w_start_def Worker_new_def)
  have size: "ep_events_size (w_io W1) = 16"
  proof -
    obtain w where "TcpConnection_new (w_this w_start) 9 3 (CbRead 7) (CbWrite 7) (CbClose 7) (CbError 7) (w_io w_start) = Inr w" "ep_events_size (c_io w) = 16"
      using conn_new [of "w_this w_start" 9 3 7 "w_io w_start"] by (auto simp: w_start_def Worker_new_def)
    then show ?thesis using W1 queueInLoop_eq [of 1 "FEstablish 7" "w_start\<lparr>w_io := save 7 w\<rparr>"] by (auto simp: new_conn_def)
  qed
  let ?S2 = "?S1\<lparr>ls_w := W1\<lparr>w_io := w_io W1, activeChannels := [], pollReturnTime := 0, eventHandling := True\<rparr>, ls_pos := LEvents []\<rparr>"
  have "EPollPoller_poll no_wait kPollTimeMs 0 (w_io W1) = Inr (0, [], w_io W1)" using size by (simp add: EPollPoller_poll_def no_wait_def to_int32_def)
  then have "lstep table_ctl (\<lambda>k. k) ?S1 ?S2"
    using lstep.poll [of ?S1 no_wait "\<lambda>k. k" 0 0 "[]" "w_io W1" table_ctl] no_wait_ok size by simp
  then have r2: "lreach table_ctl (\<lambda>k. k) w_start ?S2" by (rule lreach.step [OF r1])
  obtain W3 where W3: "swap_functors ((ls_w ?S2)\<lparr>currentActiveChannel := None, eventHandling := False, callingPendingFunctors := True\<rparr>) = ([FEstablish 7], W3)"
    "pendingFunctors W3 = []" "w_threadId W3 = 5" using p1 by (simp add: swap_functors_def)
  let ?S3 = "?S2\<lparr>ls_w := W3, ls_pos := LRun [FEstablish 7] []\<rparr>"
  have "lstep table_ctl (\<lambda>k. k) ?S2 ?S3" by (rule lstep.swap [OF _ W3(1)]) simp
  then have "lreach table_ctl (\<lambda>k. k) w_start ?S3" by (rule lreach.step [OF r2])
  then show ?thesis using W3 by (intro exI [of _ ?S3]) simp
qed

text \<open>
  C4. The event loop with its connections, in every state that it can reach, whatever the kernel answers and reports, whatever the users' callbacks send, shut down
  and read, and however accepting, removing and dropping connections and the parts of \<^verbatim>\<open>send\<close> and \<^verbatim>\<open>shutdown\<close> in other threads are interleaved with it. \<^verbatim>\<open>poll\<close> returns. The next active
  channel can be handled, with one exception (\<open>hung_up\<close>): a hang-up without input that comes with urgent data or a half-close, when the read then finds the end; there the connection is closed twice, and the
  assertion of \<^verbatim>\<open>handleClose\<close> fails. The next functor can be called, with one exception: \<^verbatim>\<open>sendInLoop\<close> or \<^verbatim>\<open>shutdownInLoop\<close> with the raw \<^verbatim>\<open>this\<close> of a connection that is gone. The last pointer to a
  removed connection can go. So these two are the only ways in which an assertion fails or a dead object is used, as long as no \<^verbatim>\<open>shutdown\<close> of another thread has written \<^verbatim>\<open>kDisconnecting\<close> over the state of
  a connection closed since its test (\<open>ls_raced\<close>). The kernel must take new descriptors, and there must be memory for what is sent and read.
\<close>

theorem loop_safe:
  assumes "lreach ctl km W S" and "loop_start km W" and "epoll_ctl_spec ctl km" and "grants ctl km" and "\<not> ls_raced S"
  shows "loop_good km (w_this (ls_w S)) (w_io (ls_w S))
    \<and> (\<forall>wait now. ls_pos S = LPoll \<longrightarrow> epoll_wait_spec wait km \<longrightarrow> ep_events_size (w_io (ls_w S)) < 2 ^ 31 \<longrightarrow>
         (\<exists>r. EPollPoller_poll wait kPollTimeMs now (w_io (ls_w S)) = Inr r))
    \<and> (\<forall>c cs env. ls_pos S = LEvents (c # cs) \<longrightarrow> has_room env (w_io (ls_w S)) \<longrightarrow>
         (if hung_up env (w_io (ls_w S)) c then handle_active (lp_handle ctl (w_threadId (ls_w S)) env) c (ls_w S) = Inl AssertFailed
          else \<exists>W'. handle_active (lp_handle ctl (w_threadId (ls_w S)) env) c (ls_w S) = Inr W'))
    \<and> (\<forall>f todo called env. ls_pos S = LRun (f # todo) called \<longrightarrow> room (functor_bytes env f) (w_io (ls_w S)) \<longrightarrow>
         (if lp_conns (w_io (ls_w S)) (target f) = None
          then (\<exists>this g. f = FConn this g \<and> \<not> soft g) \<and> lp_functor ctl (w_threadId (ls_w S)) env f (ls_w S) = Inl NullDeref
          else \<exists>W'. lp_functor ctl (w_threadId (ls_w S)) env f (ls_w S) = Inr W'))
    \<and> (\<forall>this. phase (w_io (ls_w S)) this = Some PRemoved \<longrightarrow> \<not> held S this \<longrightarrow> (\<exists>W'. drop_conn this (ls_w S) = Inr W'))"
proof -
  have inv: "linv km S" by (rule linv_reach [OF assms])
  have "loop_good km (w_this (ls_w S)) (w_io (ls_w S))" using inv by (simp add: linv_def io_ok_def)
  moreover have "\<exists>r. EPollPoller_poll wait kPollTimeMs now (w_io (ls_w S)) = Inr r"
    if "ls_pos S = LPoll" "epoll_wait_spec wait km" "ep_events_size (w_io (ls_w S)) < 2 ^ 31" for wait now
    using linv_poll [OF inv that(2,3,1)] by blast
  moreover have "if hung_up env (w_io (ls_w S)) c then handle_active (lp_handle ctl (w_threadId (ls_w S)) env) c (ls_w S) = Inl AssertFailed
      else \<exists>W'. handle_active (lp_handle ctl (w_threadId (ls_w S)) env) c (ls_w S) = Inr W'"
    if "ls_pos S = LEvents (c # cs)" "has_room env (w_io (ls_w S))" for c cs env
    using linv_event [OF inv assms(3) that, of "w_threadId (ls_w S)"] by (auto split: if_splits)
  moreover have "if lp_conns (w_io (ls_w S)) (target f) = None
      then (\<exists>this g. f = FConn this g \<and> \<not> soft g) \<and> lp_functor ctl (w_threadId (ls_w S)) env f (ls_w S) = Inl NullDeref
      else \<exists>W'. lp_functor ctl (w_threadId (ls_w S)) env f (ls_w S) = Inr W'"
    if "ls_pos S = LRun (f # todo) called" "room (functor_bytes env f) (w_io (ls_w S))" for f todo called env
    using linv_call [OF inv assms(3,4) that, of "w_threadId (ls_w S)"] linv_stale [OF inv that(1), of ctl "w_threadId (ls_w S)" env] by auto
  moreover have "\<exists>W'. drop_conn this (ls_w S) = Inr W'" if "phase (w_io (ls_w S)) this = Some PRemoved" "\<not> held S this" for this
    using linv_release [OF inv that] by blast
  ultimately show ?thesis by blast
qed

theorem loop_safe_witness:
  "\<exists>S. lreach table_ctl (\<lambda>k. k) w_start S \<and> ls_pos S = LRun [FEstablish 7] [] \<and> (\<exists>W'. lp_functor table_ctl 5 quiet (FEstablish 7) (ls_w S) = Inr W')"
proof -
  obtain S where S: "lreach table_ctl (\<lambda>k. k) w_start S" "ls_pos S = LRun [FEstablish 7] []" "w_threadId (ls_w S) = 5" "\<not> ls_raced S" using demo_reach by blast
  note safe = loop_safe [OF S(1) w_start_ok table_ctl_spec table_grants S(4)]
  have "room (functor_bytes quiet (FEstablish 7)) (w_io (ls_w S))" using safe good_room by (auto simp: quiet_def acts_bytes_def)
  moreover have "\<not> (\<exists>this g. FEstablish 7 = FConn this g \<and> \<not> soft g)" by simp
  ultimately show ?thesis using safe S by metis
qed

text \<open>
  C5. Every connection of the loop goes through its life in one order, whatever is interleaved (as in the claim on safety, and as long as no \<^verbatim>\<open>shutdown\<close> has raced with a close): constructed, established, closed, taken out of the poller,
  gone; no step goes back or leaves one out. While it is not yet established, \<^verbatim>\<open>ConnectionEstablished\<close> is queued exactly once, before all else of that
  connection; once its owner has posted \<^verbatim>\<open>ConnectionDestroyed\<close>, that is queued exactly once until it has run; and nothing is queued for a connection that is gone, but for
  \<^verbatim>\<open>sendInLoop\<close> and \<^verbatim>\<open>shutdownInLoop\<close> with the raw \<^verbatim>\<open>this\<close>, which other threads may have posted late: neither \<^verbatim>\<open>ConnectionEstablished\<close>, \<^verbatim>\<open>ConnectionDestroyed\<close> nor a callback.
\<close>

theorem connection_life:
  assumes "lreach ctl km W S" and "loop_start km W" and "epoll_ctl_spec ctl km" and "grants ctl km" and "\<not> ls_raced S"
  shows "(\<forall>S' this. lstep ctl km S S' \<longrightarrow> \<not> ls_raced S' \<longrightarrow> advance (phase (w_io (ls_w S)) this) (phase (w_io (ls_w S')) this))
    \<and> (\<forall>this. allowed this (phase (w_io (ls_w S)) this) (this \<in> lp_closed (w_io (ls_w S))) (sub this (still (ls_pos S) @ pendingFunctors (ls_w S))))"
proof -
  have inv: "linv km S" by (rule linv_reach [OF assms])
  have "advance (phase (w_io (ls_w S)) this) (phase (w_io (ls_w S')) this)" if "lstep ctl km S S'" "\<not> ls_raced S'" for S' this
    using linv_step [OF that(1) inv assms(3,4) that(2)] by simp
  then show ?thesis using inv by (simp add: linv_def io_ok_def queue_ok_def)
qed

theorem connection_life_witness:
  "\<exists>S. lreach table_ctl (\<lambda>k. k) w_start S \<and> phase (w_io (ls_w S)) 7 = Some PConnecting"
proof -
  obtain S where S: "lreach table_ctl (\<lambda>k. k) w_start S" "ls_pos S = LRun [FEstablish 7] []" "pendingFunctors (ls_w S) = []" "\<not> ls_raced S" using demo_reach by blast
  have "allowed 7 (phase (w_io (ls_w S)) 7) (7 \<in> lp_closed (w_io (ls_w S))) [FEstablish 7]"
    using connection_life [OF S(1) w_start_ok table_ctl_spec table_grants S(4), THEN conjunct2, rule_format, of 7] S(2,3) by simp
  then have "phase (w_io (ls_w S)) 7 = Some PConnecting" using allowed_head(1) by blast
  then show ?thesis using S(1) by blast
qed

section \<open>The two failures\<close>

text \<open>A hang-up that is reported together with urgent data, with nothing to read: \<^verbatim>\<open>handleEventWithGuard\<close> closes the connection and then reads from it, finds the end
  and closes it again, which its assertion does not allow.\<close>

theorem hangup_with_urgent_data:
  assumes good: "loop_good km lid s" "idle s" and spec: "epoll_ctl_spec ctl km" and W: "w_this W = lid" and v: "lp_conns s this = Some v" "established v"
    and rm: "room (2 * env_bytes env) s" "room_in s" and ch: "heap s (c_chan v) = Some ch" and mask: "want_close (revents ch)" "want_read (revents ch)"
    and eof: "e_read env = ReadvBytes []"
  shows "handleEvent (\<lambda>this. lp_conns s this \<noteq> None) (lp_run (loop_upd ctl self W) env) (c_chan v) t s = Inl AssertFailed"
  using dispatch_conn [OF good(1) spec W v rm ch _ good(2), of "\<lambda>this. lp_conns s this \<noteq> None" self t] v(1) mask eof by (simp add: closes_twice_def)

text \<open>A thread that has seen the connection open and comes to its post only after the connection has been removed, when nobody else has a pointer any more: with the post its own
  pointer goes, the connection can be dropped, and the functor then uses it.\<close>

theorem stale_send:
  assumes inv: "linv km S" and ph: "phase (w_io (ls_w S)) this = Some PRemoved" and only: "ls_calls S = [(p, this, AtPost (SendInLoop data))]"
    and free: "\<forall>f \<in> set (taken (ls_pos S) @ pendingFunctors (ls_w S)). \<not> holds f this" and S': "S' = call_post p this (SendInLoop data) S"
  shows "lstep ctl km S S' \<and> (\<exists>W. lstep ctl km S' (S'\<lparr>ls_w := W\<rparr>) \<and> FConn this (SendInLoop data) \<in> set (pendingFunctors W)
    \<and> lp_functor ctl self env (FConn this (SendInLoop data)) W = Inl NullDeref)"
proof -
  have step: "lstep ctl km S S'" unfolding S' by (rule lstep.post) (simp add: only)
  have inv': "linv km S'" using linv_post [OF inv, of p this "SendInLoop data"] only S' by simp
  obtain n where n: "ls_w S' = (ls_w S)\<lparr>pendingFunctors := pendingFunctors (ls_w S) @ [FConn this (SendInLoop data)], eventfd := n\<rparr>"
    using queueInLoop_eq [of p "FConn this (SendInLoop data)" "ls_w S"] S' by (auto simp: call_post_def)
  have h: "\<not> held S' this" using free n only S' by (auto simp: held_def call_post_def)
  have ph': "phase (w_io (ls_w S')) this = Some PRemoved" using ph n by simp
  obtain W where W: "drop_conn this (ls_w S') = Inr W" using linv_release [OF inv' ph' h] by blast
  have "lstep ctl km S' (S'\<lparr>ls_w := W\<rparr>)" by (rule lstep.release [OF ph' h W])
  moreover have "lp_conns (w_io W) this = None" "FConn this (SendInLoop data) \<in> set (pendingFunctors W)" using W n by (auto simp: drop_conn_def bindE_eq_Inr)
  then have "lp_functor ctl self env (FConn this (SendInLoop data)) W = Inl NullDeref" "FConn this (SendInLoop data) \<in> set (pendingFunctors W)"
    by (simp_all add: lp_functor_def call_functor_def on_conn_def load_def)
  ultimately show ?thesis using step by blast
qed

text \<open>The race that is left out of the claims: \<^verbatim>\<open>shutdown\<close> tests \<^verbatim>\<open>state_\<close> and sets it in two steps. When the connection is closed in between, the second one makes a
  closed connection, whose channel has no events, look like one that is about to close, and \<^verbatim>\<open>sendInLoop\<close> will write to it again.\<close>

theorem shutdown_overwrites:
  assumes inv: "linv km S" and there: "(p, this, AtSetState) \<in> set (ls_calls S)" and v: "lp_conns (w_io (ls_w S)) this = Some v" "state v = kDisconnected"
  shows "\<exists>S' v' ch. lstep ctl km S S' \<and> ls_raced S' \<and> lp_conns (w_io (ls_w S')) this = Some v' \<and> state v' = kDisconnecting
    \<and> heap (w_io (ls_w S')) (c_chan v') = Some ch \<and> events ch = 0"
proof -
  let ?s = "w_io (ls_w S)"
  have "conn_good (w_this (ls_w S)) ?s this v" using inv v(1) by (simp add: linv_def io_ok_def loop_good_def)
  then obtain ch where ch: "heap ?s (c_chan v) = Some ch" "events ch = 0" using v(2) by (auto simp: conn_good_def conn_shape_def)
  obtain S' where S': "call_setState p this S = Inr S'" "ls_w S' = (ls_w S)\<lparr>w_io := save this ((attach ?s v)\<lparr>state := kDisconnecting\<rparr>)\<rparr>" "ls_raced S'"
    using v by (simp add: call_setState_def load_def)
  have "lstep ctl km S S'" by (rule lstep.shutdown_set [OF there S'(1)])
  then show ?thesis using S'(2,3) ch by (intro exI [of _ S'] exI [of _ "((attach () ((attach ?s v)\<lparr>state := kDisconnecting\<rparr>))\<lparr>c_queue := []\<rparr>)"] exI [of _ ch]) simp
qed

end
