(* ===== verification/Connection_Members.thy ===== *)
theory Connection_Members
  imports Tcp_Connection Socket_Options
begin

text \<open>
  What the user of a \<^verbatim>\<open>TcpConnection\<close> hangs on it (\<^verbatim>\<open>cobra/tcp_connection.h\<close>, \<^verbatim>\<open>cobra/tcp_connection.cpp\<close>): the callbacks and the context, which are
  members beside those of \<open>tcp_connection\<close>; the option that it sets on the socket; and the connection callback that is used when there is no other.
\<close>

record ('s, 'f, 'a) user_connection = "'s tcp_connection" +
  m_connectionCb :: "'f option"
  m_messageCb :: "'f option"
  m_closeCb :: "'f option"
  m_context :: "'a option"

definition conn_SetConnectionCb :: "'f \<Rightarrow> ('s, 'f, 'a) user_connection \<Rightarrow> ('s, 'f, 'a) user_connection" where
  "conn_SetConnectionCb cb w = w\<lparr>m_connectionCb := Some cb\<rparr>"

definition conn_SetMessageCb :: "'f \<Rightarrow> ('s, 'f, 'a) user_connection \<Rightarrow> ('s, 'f, 'a) user_connection" where
  "conn_SetMessageCb cb w = w\<lparr>m_messageCb := Some cb\<rparr>"

definition conn_SetCloseCb :: "'f \<Rightarrow> ('s, 'f, 'a) user_connection \<Rightarrow> ('s, 'f, 'a) user_connection" where
  "conn_SetCloseCb cb w = w\<lparr>m_closeCb := Some cb\<rparr>"

definition setContext :: "'a \<Rightarrow> ('s, 'f, 'a) user_connection \<Rightarrow> ('s, 'f, 'a) user_connection" where
  "setContext a w = w\<lparr>m_context := Some a\<rparr>"

definition getContext :: "('s, 'f, 'a) user_connection \<Rightarrow> 'a option" where
  "getContext w = m_context w"

text \<open>Through the pointer that \<^verbatim>\<open>getMutableContext\<close> returns, the context can be changed in place.\<close>

definition getMutableContext :: "('a option \<Rightarrow> 'a option) \<Rightarrow> ('s, 'f, 'a) user_connection \<Rightarrow> ('s, 'f, 'a) user_connection" where
  "getMutableContext f w = w\<lparr>m_context := f (m_context w)\<rparr>"

definition conn_setTcpNoDelay :: "'k set_call \<Rightarrow> bool \<Rightarrow> 's tcp_connection \<Rightarrow> 'k \<Rightarrow> 'k" where
  "conn_setTcpNoDelay setsockopt on w k = SetTcpNoDelay setsockopt (conn_fd w) on k"

definition defaultConnectionCb :: "endianness \<Rightarrow> (32 word \<Rightarrow> string) \<Rightarrow> endpoint \<Rightarrow> endpoint \<Rightarrow> 's tcp_connection \<Rightarrow> string" where
  "defaultConnectionCb host ntop localAddr peerAddr w =
     toIpPort host ntop localAddr @ '' -> '' @ toIpPort host ntop peerAddr @ '' is '' @ (if connected w then ''UP'' else ''DOWN'')"

text \<open>The settings do not disturb the connection, nor each other: in whichever order the owner sets them, the connection has all of them.\<close>

lemma settings_beside:
  "tcp_connection.truncate (conn_SetConnectionCb cb w) = tcp_connection.truncate w"
  "tcp_connection.truncate (conn_SetMessageCb cb w) = tcp_connection.truncate w"
  "tcp_connection.truncate (conn_SetCloseCb cb w) = tcp_connection.truncate w"
  "tcp_connection.truncate (getMutableContext f w) = tcp_connection.truncate w"
  by (simp_all add: conn_SetConnectionCb_def conn_SetMessageCb_def conn_SetCloseCb_def getMutableContext_def tcp_connection.defs)

lemma settings_order:
  "conn_SetConnectionCb f (conn_SetMessageCb g (conn_SetCloseCb h w)) = conn_SetCloseCb h (conn_SetMessageCb g (conn_SetConnectionCb f w))"
  by (simp add: conn_SetConnectionCb_def conn_SetMessageCb_def conn_SetCloseCb_def)

lemma context_kept:
  "getContext (conn_SetCloseCb cb (setContext a w)) = Some a" "getContext (getMutableContext f (setContext a w)) = f (Some a)"
  by (simp_all add: getContext_def setContext_def conn_SetCloseCb_def getMutableContext_def)

lemma no_delay_one_socket:
  assumes "setsockopt_spec setsockopt opt_of"
  shows "conn_setTcpNoDelay setsockopt on w k = k
    \<or> opt_of (conn_setTcpNoDelay setsockopt on w k) = (opt_of k)(conn_fd w := (opt_of k (conn_fd w))(TCP_NODELAY := of_bool on))"
  unfolding conn_setTcpNoDelay_def by (rule set_option(1) [OF assms])

end
