(* ===== verification/Spec2Isabelle.thy ===== *)
theory Spec2Isabelle
  imports Buffer_Contract Worker_Start Connection_Refinement Tcp_Client Socket_Options Zone_File Log_Output Timestamp_Text Process_Info
    Mutex_Lock Pool_Threads Shared_Objects Loop_System Connection_Members
begin

text \<open>
  Verification of cobra, a C++ library for event-driven network programs (the directories \<^verbatim>\<open>src/base\<close> and \<^verbatim>\<open>src/cobra\<close>).

  \<^bold>\<open>The program.\<close> A \<^verbatim>\<open>Worker\<close> is an event loop of one thread: it waits in a \<^verbatim>\<open>Poller\<close> (\<^verbatim>\<open>PollPoller\<close> over \<^verbatim>\<open>poll\<close>, \<^verbatim>\<open>EPollPoller\<close> over
  \<^verbatim>\<open>epoll\<close>) for the events of its \<^verbatim>\<open>Channel\<close>s, runs their callbacks and then the functors that it or other
  threads have queued; a \<^verbatim>\<open>TimerQueue\<close> is one of its channels. A \<^verbatim>\<open>TcpConnection\<close> is a channel with two \<^verbatim>\<open>Buffer\<close>s. A \<^verbatim>\<open>Server\<close> takes connections from an
  \<^verbatim>\<open>Acceptor\<close> and spreads them over a \<^verbatim>\<open>WorkerThreadPool\<close>; a \<^verbatim>\<open>TcpClient\<close> gets its connection from a \<^verbatim>\<open>Connector\<close>. The
  library below has byte order, string pieces, time stamps, dates and time zones, blocking queues, a thread pool, and
  logging: \<^verbatim>\<open>Logger\<close> writes a line into a \<^verbatim>\<open>LogStream\<close>, \<^verbatim>\<open>AsyncLogging\<close> collects the lines and gives them to a \<^verbatim>\<open>LogFile\<close>.

  \<^bold>\<open>The model.\<close> Each class is a record of its members and each method a function that takes the record and returns the new one; a method that can fail returns
  \<open>err + 'a\<close>, and a failing \<^verbatim>\<open>assert\<close>, a null pointer, an access out of bounds, a signed overflow and \<^verbatim>\<open>LOG_FATAL\<close> are
  values of \<open>err\<close> (theory \<open>Cobra_Prelude\<close>). Objects that are shared by pointer (channels, timers, connections) are in a
  map from addresses. Machine integers are words where their width matters. What is not in \<^verbatim>\<open>src\<close> (system calls, the C library, boost, the
  callbacks of the user) is an argument; what is relied upon is a hypothesis such as \<open>epoll_ctl_spec\<close>, \<open>fwrite_ok\<close> or
  \<open>write_answer\<close>, with a witness that has a concrete function for it. Code that runs in several threads is cut at its
  mutexes and waits, and the steps of the threads are interleaved by an inductive relation; a wait can end without a notification.

  \<^bold>\<open>The theories\<close>, with the code they model and what they show.

  \<^item> \<open>Cobra_Prelude\<close>: failing computations, \<^verbatim>\<open>size_t\<close> arithmetic, memory, decimal numbers.
  \<^item> \<open>Endian\<close> (\<^verbatim>\<open>cobra/endian.h\<close>): conversions are inverse to each other on hosts of both byte orders.
  \<^item> \<open>String_Piece\<close> (\<^verbatim>\<open>base/string_piece.h\<close>): making, trimming and reading a piece; the comparisons are the lexicographic order.
  \<^item> \<open>Buffer\<close> and \<open>Buffer_Contract\<close> (\<^verbatim>\<open>cobra/buffer.h\<close>, \<^verbatim>\<open>cobra/buffer.cpp\<close>): a buffer is a queue of bytes (locale \<open>byte_fifo\<close>), whatever moves and
    reallocations happen inside; \<^verbatim>\<open>readFd\<close>, searching, integers on the wire, \<^verbatim>\<open>shrink\<close>.
  \<^item> \<open>Channel\<close> (\<^verbatim>\<open>cobra/channel.h\<close>, \<^verbatim>\<open>cobra/channel.cpp\<close>): which callbacks the bits of an event run, and in which order.
  \<^item> \<open>Poller_Interface\<close>, \<open>Poll_Poller\<close>, \<open>Epoll_Poller\<close> (\<^verbatim>\<open>cobra/poller.h\<close>, \<^verbatim>\<open>cobra/poller/\<close>): the contract of a poller is the locale \<open>poller_contract\<close>: the
    kernel watches for each channel what the channel wants. Both pollers are interpretations of it.
  \<^item> \<open>Default_Poller\<close> (\<^verbatim>\<open>cobra/poller.h\<close>, \<^verbatim>\<open>cobra/poller/default_poller.cpp\<close>): the poller behind its virtual functions, chosen at run time, keeps the contract of
    whichever it is; a connection over it loses no bytes.
  \<^item> \<open>Timestamp\<close>, \<open>Timer_Queue\<close> (\<^verbatim>\<open>base/timestamp.h\<close>, \<^verbatim>\<open>cobra/timer.h\<close>, \<^verbatim>\<open>cobra/timer_id.h\<close>, \<^verbatim>\<open>cobra/timer_queue.h\<close>, \<^verbatim>\<open>cobra/timer_queue.cpp\<close>): one alarm runs exactly the
    timers that are due, also when callbacks add and cancel timers; the delays are those of the timers, with the rounding of \<^verbatim>\<open>double\<close>.
  \<^item> \<open>Timestamp_Text\<close> (\<^verbatim>\<open>base/timestamp.h\<close>, \<^verbatim>\<open>base/timestamp.cpp\<close>): the two texts of a timestamp, differences as \<^verbatim>\<open>double\<close>.
  \<^item> \<open>Worker\<close> (\<^verbatim>\<open>cobra/worker.h\<close>, \<^verbatim>\<open>cobra/worker.cpp\<close>): the loop and any number of other threads, interleaved: no wake-up is lost, functors
    run once and in order, and \<^verbatim>\<open>doPendingFunctors\<close> leaves what they queue to the next turn.
  \<^item> \<open>Worker_Start\<close> (\<^verbatim>\<open>cobra/worker.h\<close>, \<^verbatim>\<open>cobra/worker.cpp\<close>): the constructor with the objects it builds, in the order of the members, and the destructor. The other theories
    about workers start from a worker that has been built.
  \<^item> \<open>Tcp_Connection\<close>, \<open>Tcp_Stream\<close> (\<^verbatim>\<open>cobra/tcp_connection.h\<close>, \<^verbatim>\<open>cobra/tcp_connection.cpp\<close>): for every behaviour of \<^verbatim>\<open>write\<close> the bytes that were sent reach the
    kernel in order and once (locale \<open>watched_channel\<close>, which extends \<open>poller_contract\<close> and is interpreted on both pollers); closing.
  \<^item> \<open>Connection_Members\<close> (\<^verbatim>\<open>cobra/tcp_connection.h\<close>, \<^verbatim>\<open>cobra/tcp_connection.cpp\<close>): the callbacks and the context that a user hangs on a connection.
  \<^item> \<open>Sockets\<close> (\<^verbatim>\<open>cobra/endpoint.h\<close>, \<^verbatim>\<open>cobra/endpoint.cpp\<close>, \<^verbatim>\<open>cobra/socket_wrapper.cpp\<close>): addresses and the wrappers that decide something.
  \<^item> \<open>Socket_Options\<close> (\<^verbatim>\<open>cobra/socket_wrapper.cpp\<close>, \<^verbatim>\<open>cobra/endpoint.h\<close>): options and flags change what they name and nothing else.
  \<^item> \<open>Connector\<close>, \<open>Tcp_Client\<close> (\<^verbatim>\<open>cobra/connector.h\<close>, \<^verbatim>\<open>cobra/connector.cpp\<close>, \<^verbatim>\<open>cobra/tcp_client.h\<close>, \<^verbatim>\<open>cobra/tcp_client.cpp\<close>): one attempt, the growing delay, stopping, and
    reconnecting.
  \<^item> \<open>Acceptor\<close>, \<open>Worker_Pool\<close>, \<open>Server\<close> (\<^verbatim>\<open>cobra/acceptor.h\<close>, \<^verbatim>\<open>cobra/acceptor.cpp\<close>, \<^verbatim>\<open>cobra/worker_thread.cpp\<close>, \<^verbatim>\<open>cobra/worker_thread_pool.cpp\<close>, \<^verbatim>\<open>cobra/server.h\<close>, \<^verbatim>\<open>cobra/server.cpp\<close>): accepting, also without
    free descriptors; starting a loop in its thread; the life of every connection of a server over all interleavings
    of its loops.
  \<^item> \<open>Connection_Refinement\<close>: a forward simulation of the server's view of a connection by \<^verbatim>\<open>TcpConnection\<close> over \<^verbatim>\<open>EPollPoller\<close>, so that each life that the server gives to a connection is one
    of the class.
  \<^item> \<open>Event_Loop\<close>, \<open>Loop_Dispatch\<close>, \<open>Loop_System\<close> (\<^verbatim>\<open>cobra/worker.cpp\<close>, \<^verbatim>\<open>cobra/channel.cpp\<close>, \<^verbatim>\<open>cobra/poller/epoll_poller.cpp\<close>, \<^verbatim>\<open>cobra/tcp_connection.cpp\<close>, \<^verbatim>\<open>cobra/server.cpp\<close> together): one loop with its poller and any
    number of connections, where nothing of the program is an argument any more: the callbacks on a channel are those of its connection, and \<^verbatim>\<open>update\<close> and \<^verbatim>\<open>remove\<close> go through the worker to the
    poller. \<open>Event_Loop\<close> has the operations and their frames (the locale \<open>watched_channel\<close> interpreted once more, for one channel among others), \<open>Loop_Dispatch\<close> one event and one functor,
    \<open>Loop_System\<close> the transition system with the owner of the connections and with the calls of other threads, cut between their test of \<^verbatim>\<open>state_\<close>, their write of it and their post: in which two cases
    an operation fails there, that all others succeed, and the life of a connection.
  \<^item> \<open>Calendar\<close>, \<open>Time_Zone\<close>, \<open>Zone_File\<close> (\<^verbatim>\<open>base/Date.h\<close>, \<^verbatim>\<open>base/Date.cc\<close>, \<^verbatim>\<open>base/TimeZone.h\<close>, \<^verbatim>\<open>base/TimeZone.cc\<close>): day numbers are the Gregorian calendar, the zone that applies at a
    time, UTC conversions, and reading back a zone file.
  \<^item> \<open>Mutex_Lock\<close> (\<^verbatim>\<open>base/Mutex.h\<close>, \<^verbatim>\<open>base/Condition.h\<close>, \<^verbatim>\<open>base/Condition.cc\<close>): mutual exclusion, and the holder that \<^verbatim>\<open>assertLocked\<close> reads is the thread in the critical section.
  \<^item> \<open>Atomic_Integer\<close> (\<^verbatim>\<open>base/Atomic.h\<close>): at every width, callers get different numbers, and the order of calls does not matter for the value.
  \<^item> \<open>Shared_Objects\<close> (\<^verbatim>\<open>base/Singleton.h\<close>, \<^verbatim>\<open>base/ThreadLocal.h\<close>, \<^verbatim>\<open>base/ThreadLocalSingleton.h\<close>): one object for all threads, over every interleaving of the callers; one object per thread
    (locale \<open>per_thread\<close>, interpreted on both classes), deleted once.
  \<^item> \<open>Thread_Class\<close> (\<^verbatim>\<open>base/Thread.h\<close>, \<^verbatim>\<open>base/Thread.cc\<close>, \<^verbatim>\<open>base/CurrentThread.h\<close>, \<^verbatim>\<open>base/Exception.h\<close>, \<^verbatim>\<open>base/Exception.cc\<close>): a \<^verbatim>\<open>Thread\<close> and the thread it starts, interleaved, stay well formed; thread names and identifiers; exceptions.
  \<^item> \<open>File_Util\<close>, \<open>Process_Info\<close> (\<^verbatim>\<open>base/FileUtil.h\<close>, \<^verbatim>\<open>base/FileUtil.cc\<close>, \<^verbatim>\<open>base/ProcessInfo.h\<close>, \<^verbatim>\<open>base/ProcessInfo.cc\<close>): reading a file gives its content for every pattern of short and failing
    reads (\<open>reads_file\<close> is what \<^verbatim>\<open>read\<close> promises); what is read from \<^verbatim>\<open>/proc\<close> is what the kernel wrote there.
  \<^item> \<open>Monitors\<close>, \<open>Thread_Pool\<close> (\<^verbatim>\<open>base/CountDownLatch.h\<close>, \<^verbatim>\<open>base/BlockingQueue.h\<close>, \<^verbatim>\<open>base/BoundedBlockingQueue.h\<close>, \<^verbatim>\<open>base/ThreadPool.h\<close>, \<^verbatim>\<open>base/ThreadPool.cc\<close>): the queues are first in, first out (locale \<open>fifo\<close>,
    interpreted on the three of them), keep their bounds and lose no wake-up; \<^verbatim>\<open>stop\<close> of the pool ends.
  \<^item> \<open>Pool_Threads\<close> (\<^verbatim>\<open>base/ThreadPool.cc\<close> with \<^verbatim>\<open>base/Thread.cc\<close>): the threads of the pool, their names and joins; an exception of a task ends the program with a report.
  \<^item> \<open>Log_Stream\<close>, \<open>Logging\<close>, \<open>Log_Output\<close>, \<open>Log_File\<close>, \<open>Async_Logging\<close> (\<^verbatim>\<open>base/LogStream.h\<close>, \<^verbatim>\<open>base/LogStream.cc\<close>, \<^verbatim>\<open>base/Logging.h\<close>, \<^verbatim>\<open>base/Logging.cc\<close>, \<^verbatim>\<open>base/LogFile.h\<close>, \<^verbatim>\<open>base/LogFile.cc\<close>, \<^verbatim>\<open>base/AsyncLogging.h\<close>, \<^verbatim>\<open>base/AsyncLogging.cc\<close>): a log statement gives one line of a fixed form, and a program of
    them gives its lines in order to whatever keeps the contract of an output function (locale \<open>log_output\<close>, interpreted on \<^verbatim>\<open>stdout\<close> and on \<^verbatim>\<open>AsyncLogging\<close>);
    the log files hold the lines in order, whole, and begin anew for size and day; the logging thread always has the
    buffers it needs, and what is in the files is a prefix of what was logged.

  \<^bold>\<open>Bounds.\<close> There is no fuel: loops are structural, or functions with a termination proof (the searches, the number
  conversions, \<^verbatim>\<open>File::append\<close>, the loop of \<^verbatim>\<open>readToString\<close>), or steps of a relation of which it is proved that they come to an end
  (\<open>startLoop_handshake\<close>, \<open>thread_pool_stop_terminates\<close>). Sizes are below \<open>2 ^ 63\<close> as for \<^verbatim>\<open>std::vector\<close>. The identifiers of a server's connections do not wrap within
  \<open>2 ^ 32\<close> connections. The size of a logging buffer is a parameter, which in the program is \<open>kLargeBuffer\<close>.

  \<^bold>\<open>Defects.\<close> Some theorems show what the code does where it does not do what it means to: \<open>findEOL\<close> reads past the buffer
  (\<open>findEOL_from_overrun\<close>), an ignored entry of \<^verbatim>\<open>PollPoller\<close> stays ignored (\<open>poll_reenable_lost\<close>), destroying a connection that is
  being shut down fails an assertion (\<open>destroyed_while_disconnecting\<close>), a stopped connector has a timer left
  (\<open>connector_stale_retry\<close>), \<^verbatim>\<open>StartLoop\<close> can hang (\<open>startLoop_early_quit_hangs\<close>), the listening socket is never closed
  (\<open>acceptor_leaks_listen_fd\<close>), addresses print as \<^verbatim>\<open>INVALID\<close> (\<open>toIpPort_hides_address\<close>), a client cannot connect twice
  (\<open>client_reconnect_asserts\<close>), a bad zone file gives a valid time zone (\<open>bad_zone_file_valid\<close>), \<^verbatim>\<open>ThreadPool::stop\<close> leaves callers
  of \<^verbatim>\<open>run\<close> blocked (\<open>thread_pool_stop_abandons\<close>) and fails an assertion when called twice (\<open>pool_threads_life\<close>), stopping the logging thread loses lines (\<open>async_stop_loses\<close>), thread identifiers with six
  digits stop the program (\<open>log_tid_assert\<close>), the constructor of \<^verbatim>\<open>Worker\<close> uses its poller before it has made it (\<open>worker_member_order\<close>), a long host name is read past its
  array (\<open>hostname_unterminated\<close>), process names are cut at a parenthesis (\<open>stat_name_cut\<close>), adding a difference of times can lose a microsecond (\<open>addTime_loses_microsecond\<close>), a hang-up
  that is reported with urgent data closes a connection twice (\<open>hangup_with_urgent_data\<close>), a functor bound to a raw connection can outlive it (\<open>stale_send\<close>), and
  \<^verbatim>\<open>shutdown\<close> in another thread can undo a close (\<open>shutdown_overwrites\<close>).

  \<^bold>\<open>Not modelled.\<close> \<^verbatim>\<open>base/Types.h\<close>, \<^verbatim>\<open>base/basic_types.h\<close>, \<^verbatim>\<open>base/macros.h\<close> and \<^verbatim>\<open>cobra/callbacks.h\<close> are names of types, casts and macros without state, and the model writes the types out. Ignoring \<^verbatim>\<open>SIGPIPE\<close> and accessors that return a member are left out. Memory is never short, and destructors are modelled where they do something. In \<open>Loop_System\<close> one event and one functor are steps that other threads do not
  interrupt, and the destructor of the server, which posts \<^verbatim>\<open>ConnectionDestroyed\<close> for open connections, is not a step.
\<close>

end
